(* ===== verification/Faros_Prelude.thy ===== *)
theory Faros_Prelude
  imports Main "HOL-Library.AList" "HOL-Library.Char_ord" "HOL-Library.List_Lexorder"
    "HOL-Library.Product_Lexorder" "HOL-Library.Multiset"
begin

section \<open>Shared vocabulary of the development\<close>

text \<open>
  What the component theories share: Go maps as association lists, Go's error results as sums,
  instants of time as integers, 64-bit counters, \<open>strings.TrimSpace\<close>, sorting by a key, and the
  generic lemmas about them. Nothing in this theory models a file of the repository; it models
  the part of the Go language and of its standard library that the modelled files use.
\<close>

named_theorems go_simps \<open>evaluation of Go library functions\<close>
named_theorems frame_simps \<open>what an operation leaves unchanged\<close>

subsection \<open>Results and instants\<close>

text \<open>
  A Go function with a trailing \<open>error\<close> result returns a sum, \<open>Inl\<close> for the error. A method
  that also changes its receiver returns the pair of that sum and the new state, because a Go
  method may write state and then return an error.
\<close>

type_synonym ('e, 'a) res = "'e + 'a"

fun bind_res :: "('e, 'a) res \<Rightarrow> ('a \<Rightarrow> ('e, 'b) res) \<Rightarrow> ('e, 'b) res" where
  "bind_res (Inl e) f = Inl e"
| "bind_res (Inr a) f = f a"

definition guard_res :: "'e \<Rightarrow> bool \<Rightarrow> ('e, unit) res" where
  "guard_res e ok = (if ok then Inr () else Inl e)"

lemma bind_res_Inr_iff: "bind_res r f = Inr b \<longleftrightarrow> (\<exists>a. r = Inr a \<and> f a = Inr b)"
  by (cases r) auto

lemma guard_res_Inr_iff [simp]: "guard_res e ok = Inr u \<longleftrightarrow> ok"
  by (simp add: guard_res_def)

text \<open>Taking the outcome of an operation apart.\<close>

lemma result_Inr: "\<not> isl (fst r) \<Longrightarrow> \<exists>a. r = (Inr a, snd r)"
  by (cases r; cases "fst r") auto

lemma result_Inr_flag: "(case fst r of Inl _ \<Rightarrow> False | Inr (a, b) \<Rightarrow> b) \<Longrightarrow> \<exists>a. r = (Inr (a, True), snd r)"
  by (cases r; cases "fst r") auto

lemma result_eq: "fst r = x \<Longrightarrow> r = (x, snd r)"
  by auto

lemmas res_iffs = bind_res_Inr_iff guard_res_Inr_iff

text \<open>
  \<open>time.Time\<close> is the number of nanoseconds since the zero instant, so that \<open>IsZero\<close> is
  \<open>t = 0\<close>, \<open>Before\<close>, \<open>After\<close> and \<open>Equal\<close> are the orders of \<open>int\<close> and \<open>UTC()\<close>, which
  changes the location only, is the identity. \<open>time.Now()\<close> is an argument of the operations that
  read the clock. A \<open>time.Duration\<close> is a signed 64-bit number of nanoseconds and \<open>Sub\<close>
  saturates.
\<close>

type_synonym gotime = int
type_synonym duration = int

definition max_i64 :: int where "max_i64 = 2 ^ 63 - 1"
definition min_i64 :: int where "min_i64 = - (2 ^ 63)"

definition time_sub :: "gotime \<Rightarrow> gotime \<Rightarrow> duration" where
  "time_sub t u = max min_i64 (min max_i64 (t - u))"

definition or_now :: "gotime \<Rightarrow> gotime \<Rightarrow> gotime" where
  "or_now now t = (if t = 0 then now else t)"

text \<open>Addition on \<open>int64\<close> wraps around.\<close>

definition i64 :: "int \<Rightarrow> int" where
  "i64 x = (x + 2 ^ 63) mod 2 ^ 64 - 2 ^ 63"

lemma i64_id: "min_i64 \<le> x \<Longrightarrow> x \<le> max_i64 \<Longrightarrow> i64 x = x"
  by (simp add: i64_def min_i64_def max_i64_def)

lemma i64_Suc: "0 \<le> n \<Longrightarrow> n < max_i64 \<Longrightarrow> i64 (n + 1) = n + 1"
  by (rule i64_id) (simp_all add: min_i64_def max_i64_def)

lemma i64_Suc_neq [simp]: "i64 (n + 1) \<noteq> n"
proof
  assume "i64 (n + 1) = n"
  then have "(n + 1 + 2 ^ 63) mod 2 ^ 64 = n + 2 ^ 63" by (simp add: i64_def)
  then have "(n + 1 + 2 ^ 63) mod 2 ^ 64 = (n + 2 ^ 63) mod (2 ^ 64 :: int)"
    by (metis mod_mod_trivial)
  then show False by (simp add: mod_eq_dvd_iff)
qed

lemma i64_range: "min_i64 \<le> i64 x \<and> i64 x \<le> max_i64"
proof -
  have "0 \<le> (x + 2 ^ 63) mod 2 ^ 64" "(x + 2 ^ 63) mod (2 ^ 64) < (2 ^ 64 :: int)"
    by (rule pos_mod_sign, simp) (rule pos_mod_bound, simp)
  then show ?thesis unfolding i64_def min_i64_def max_i64_def by simp
qed

subsection \<open>Go maps\<close>

text \<open>
  A Go map is an association list with distinct keys whose order is the order in which a
  \<open>range\<close> loop visits it. Go leaves that order open, so a theorem about a loop over a map holds
  for every such list, and a result that depends on the order is visible as two lists with the
  same entries and different results. Reading a missing inner map gives the empty one
  (\<open>inner\<close>); writing through a missing inner map is a run-time panic, which the operations
  that can meet it return as an error value.
\<close>

type_synonym ('k, 'v) gomap = "('k \<times> 'v) list"

definition wf_map :: "('k, 'v) gomap \<Rightarrow> bool" where
  "wf_map m \<longleftrightarrow> distinct (map fst m)"

definition inner :: "('k, 'v list) gomap \<Rightarrow> 'k \<Rightarrow> 'v list" where
  "inner m k = (case map_of m k of None \<Rightarrow> [] | Some x \<Rightarrow> x)"

definition mput :: "'k \<Rightarrow> 'v \<Rightarrow> ('k, 'v) gomap \<Rightarrow> ('k, 'v) gomap" where
  "mput k v m = AList.update k v m"

definition mdel :: "'k \<Rightarrow> ('k, 'v) gomap \<Rightarrow> ('k, 'v) gomap" where
  "mdel k m = filter (\<lambda>p. fst p \<noteq> k) m"

text \<open>\<open>if m[k] == nil { m[k] = map[...]...{} }\<close>\<close>

definition ensure_inner :: "'k \<Rightarrow> ('k, 'v list) gomap \<Rightarrow> ('k, 'v list) gomap" where
  "ensure_inner k m = (if map_of m k = None then mput k [] m else m)"

text \<open>\<open>m[k][i] = v\<close> for an inner map that exists.\<close>

definition put2 :: "'k \<Rightarrow> 'i \<Rightarrow> 'v \<Rightarrow> ('k, ('i, 'v) gomap) gomap \<Rightarrow> ('k, ('i, 'v) gomap) gomap" where
  "put2 k i v m = mput k (mput i v (inner m k)) m"

text \<open>\<open>delete(m[k], i)\<close>, which is a no-op on a missing inner map.\<close>

definition del2 :: "'k \<Rightarrow> 'i \<Rightarrow> ('k, ('i, 'v) gomap) gomap \<Rightarrow> ('k, ('i, 'v) gomap) gomap" where
  "del2 k i m = (if map_of m k = None then m else mput k (mdel i (inner m k)) m)"

text \<open>\<open>if len(m[k]) == 0 { delete(m, k) }\<close>\<close>

definition prune :: "'k \<Rightarrow> ('k, 'v list) gomap \<Rightarrow> ('k, 'v list) gomap" where
  "prune k m = (if inner m k = [] then mdel k m else m)"

lemma wf_map_Nil [simp]: "wf_map []"
  by (simp add: wf_map_def)

lemma wf_map_Cons [simp]: "wf_map (p # m) \<longleftrightarrow> fst p \<notin> fst ` set m \<and> wf_map m"
  by (simp add: wf_map_def)

lemma map_of_mput [simp]: "map_of (mput k v m) k' = (if k' = k then Some v else map_of m k')"
  by (simp add: mput_def update_conv')

lemma wf_mput [simp, intro]: "wf_map m \<Longrightarrow> wf_map (mput k v m)"
  by (simp add: mput_def wf_map_def distinct_update)

lemma wf_mdel [simp, intro]: "wf_map m \<Longrightarrow> wf_map (mdel k m)"
  by (simp add: mdel_def wf_map_def distinct_map_filter)

lemma map_of_mdel [simp]: "map_of (mdel k m) k' = (if k' = k then None else map_of m k')"
  by (induction m) (auto simp: mdel_def)

lemma map_of_filter_key: "map_of (filter (\<lambda>p. P (fst p)) m) k = (if P k then map_of m k else None)"
  by (induction m) auto

lemma mdel_absent: "map_of m k = None \<Longrightarrow> mdel k m = m"
  by (auto simp: mdel_def map_of_eq_None_iff intro!: filter_True)

lemma wf_map_in_iff: "wf_map m \<Longrightarrow> (k, v) \<in> set m \<longleftrightarrow> map_of m k = Some v"
  by (simp add: wf_map_def)

lemma wf_map_filter: "wf_map m \<Longrightarrow> wf_map (filter P m)"
  by (simp add: wf_map_def distinct_map_filter)

lemma map_of_filter_wf: "wf_map m \<Longrightarrow> map_of (filter P m) k = Some v \<longleftrightarrow> map_of m k = Some v \<and> P (k, v)"
  by (auto simp: wf_map_filter simp flip: wf_map_in_iff)

lemma set_mdel [simp]: "set (mdel k m) = {p \<in> set m. fst p \<noteq> k}"
  by (simp add: mdel_def)

lemma set_mput: "wf_map m \<Longrightarrow> set (mput k v m) = insert (k, v) {p \<in> set m. fst p \<noteq> k}"
proof -
  assume wf: "wf_map m"
  have "p \<in> set (mput k v m) \<longleftrightarrow> p = (k, v) \<or> (p \<in> set m \<and> fst p \<noteq> k)" for p
    using wf wf_mput [OF wf, of k v]
    by (cases p) (auto simp: wf_map_in_iff)
  then show ?thesis by auto
qed

lemma keys_mput: "fst ` set (mput k v m) = insert k (fst ` set m)"
  by (auto simp: mput_def dom_update)

lemma keys_mdel: "fst ` set (mdel k m) = fst ` set m - {k}"
  by auto

lemma inner_mput [simp]: "inner (mput k x m) k' = (if k' = k then x else inner m k')"
  by (simp add: inner_def)

lemma inner_put2 [simp]:
  "inner (put2 k i v m) k' = (if k' = k then mput i v (inner m k) else inner m k')"
  by (simp add: put2_def)

lemma inner_del2 [simp]: "inner (del2 k i m) k' = (if k' = k then mdel i (inner m k) else inner m k')"
  by (auto simp: del2_def inner_def mdel_def split: option.splits)

lemma inner_ensure [simp]: "inner (ensure_inner k m) k' = inner m k'"
  by (auto simp: ensure_inner_def inner_def split: option.splits)

lemma inner_mdel [simp]: "inner (mdel k m) k' = (if k' = k then [] else inner m k')"
  by (simp add: inner_def)

lemma inner_prune [simp]: "inner (prune k m) k' = inner m k'"
  by (auto simp: prune_def inner_def split: option.splits)

lemma inner_Nil [simp]: "inner [] k = []"
  by (simp add: inner_def)

lemma map_of_ensure [simp]: "map_of (ensure_inner k m) k \<noteq> None"
  by (simp add: ensure_inner_def)

lemma wf_outer [simp, intro]:
  "wf_map m \<Longrightarrow> wf_map (ensure_inner k m)" "wf_map m \<Longrightarrow> wf_map (prune k m)"
  by (simp_all add: ensure_inner_def prune_def)

lemma wf_outer2 [simp, intro]:
  "wf_map m \<Longrightarrow> wf_map (put2 k i v m)" "wf_map m \<Longrightarrow> wf_map (del2 k i m)"
  by (simp_all add: put2_def del2_def)

lemma wf_inner_mput [intro]: "wf_map x \<Longrightarrow> wf_map (inner m k) \<Longrightarrow> wf_map (inner (mput k' x m) k)"
  by simp

subsection \<open>Lists\<close>

text \<open>The loop \<open>for x in xs { if !P(x) continue; out = append(out, x); if len(out) == n break }\<close>
  for a positive \<open>n\<close>.\<close>

fun take_matching :: "('a \<Rightarrow> bool) \<Rightarrow> nat \<Rightarrow> 'a list \<Rightarrow> 'a list" where
  "take_matching P n [] = []"
| "take_matching P n (x # xs) =
     (if \<not> P x then take_matching P n xs
      else if n = 1 then [x] else x # take_matching P (n - 1) xs)"

lemma take_matching_eq: "0 < n \<Longrightarrow> take_matching P n xs = take n (filter P xs)"
proof (induction P n xs rule: take_matching.induct)
  case (2 P n x xs)
  then show ?case by (cases n) auto
qed simp

lemma sorted_wrt_filter_eq:
  "sorted_wrt R (xs @ a # ys) \<Longrightarrow> (\<And>x. R x a \<Longrightarrow> \<not> P x) \<Longrightarrow> \<not> P a \<Longrightarrow> (\<And>y. R a y \<Longrightarrow> P y)
   \<Longrightarrow> filter P (xs @ a # ys) = ys"
  by (fastforce simp: sorted_wrt_append filter_empty_conv filter_id_conv)

subsection \<open>Strings\<close>

text \<open>
  A Go string is a sequence of bytes, here a list of 8-bit characters. \<open>space_at s\<close> is the
  length of the white-space rune (Unicode \<open>White_Space\<close>, in UTF-8) that \<open>s\<close> starts with, 0 if
  there is none; \<open>space_end\<close> reads the reversed string, for the other end.
\<close>

definition ascii_space :: "char \<Rightarrow> bool" where
  "ascii_space c \<longleftrightarrow> c = CHR '' '' \<or> (9 \<le> (of_char c :: nat) \<and> (of_char c :: nat) \<le> 13)"

definition space2 :: "char \<Rightarrow> char \<Rightarrow> bool" where
  "space2 a b \<longleftrightarrow> a = CHR 0xC2 \<and> (b = CHR 0x85 \<or> b = CHR 0xA0)"

definition space3 :: "char \<Rightarrow> char \<Rightarrow> char \<Rightarrow> bool" where
  "space3 a b c \<longleftrightarrow>
     (a = CHR 0xE1 \<and> b = CHR 0x9A \<and> c = CHR 0x80) \<or>
     (a = CHR 0xE2 \<and> b = CHR 0x80 \<and>
        ((0x80 \<le> (of_char c :: nat) \<and> (of_char c :: nat) \<le> 0x8A) \<or>
         c = CHR 0xA8 \<or> c = CHR 0xA9 \<or> c = CHR 0xAF)) \<or>
     (a = CHR 0xE2 \<and> b = CHR 0x81 \<and> c = CHR 0x9F) \<or>
     (a = CHR 0xE3 \<and> b = CHR 0x80 \<and> c = CHR 0x80)"

fun space_at :: "string \<Rightarrow> nat" where
  "space_at [] = 0"
| "space_at [a] = (if ascii_space a then 1 else 0)"
| "space_at [a, b] = (if ascii_space a then 1 else if space2 a b then 2 else 0)"
| "space_at (a # b # c # s) =
     (if ascii_space a then 1 else if space2 a b then 2 else if space3 a b c then 3 else 0)"

fun space_end :: "string \<Rightarrow> nat" where
  "space_end [] = 0"
| "space_end [a] = (if ascii_space a then 1 else 0)"
| "space_end [a, b] = (if ascii_space a then 1 else if space2 b a then 2 else 0)"
| "space_end (a # b # c # s) =
     (if ascii_space a then 1 else if space2 b a then 2 else if space3 c b a then 3 else 0)"

function trim_by :: "(string \<Rightarrow> nat) \<Rightarrow> string \<Rightarrow> string" where
  "trim_by f s = (if f s = 0 \<or> s = [] then s else trim_by f (drop (f s) s))"
  by pat_completeness auto
termination
  by (relation "measure (\<lambda>(f, s). length s)") auto

declare trim_by.simps [simp del]

definition trim_left :: "string \<Rightarrow> string" where "trim_left s = trim_by space_at s"
definition trim_right :: "string \<Rightarrow> string" where "trim_right s = rev (trim_by space_end (rev s))"

text \<open>\<open>strings.TrimSpace\<close>, and the test \<open>strings.TrimSpace(s) == ""\<close>.\<close>

definition trim_space :: "string \<Rightarrow> string" where "trim_space s = trim_right (trim_left s)"
definition blank :: "string \<Rightarrow> bool" where "blank s \<longleftrightarrow> trim_space s = []"

lemma trim_by_stop: "f [] = 0 \<Longrightarrow> f (trim_by f s) = 0"
  by (induction f s rule: trim_by.induct) (metis trim_by.simps)

lemma trim_by_fixed: "f s = 0 \<Longrightarrow> trim_by f s = s"
  by (simp add: trim_by.simps)

lemma trim_by_drop: "\<exists>n. trim_by f s = drop n s"
proof (induction f s rule: trim_by.induct)
  case (1 f s)
  show ?case
  proof (cases "f s = 0 \<or> s = []")
    case True
    then have "trim_by f s = drop 0 s" by (simp add: trim_by.simps)
    then show ?thesis by blast
  next
    case False
    with 1 obtain n where "trim_by f (drop (f s) s) = drop n (drop (f s) s)" by blast
    with False have "trim_by f s = drop (n + f s) s" by (simp add: trim_by.simps [of f s])
    then show ?thesis by blast
  qed
qed

lemma space_at_take: "space_at s = 0 \<Longrightarrow> space_at (take n s) = 0"
proof (induction s rule: space_at.induct)
  case (4 a b c s)
  then show ?case
    by (cases n; cases "n - 1"; cases "n - 2") (auto simp: take_Cons' split: if_splits)
qed (auto simp: take_Cons' split: if_splits)

lemma trim_right_take: "\<exists>n. trim_right s = take n s"
proof -
  obtain n where "trim_by space_end (rev s) = drop n (rev s)" using trim_by_drop by blast
  then have "trim_right s = take (length s - n) s" by (simp add: trim_right_def rev_drop)
  then show ?thesis by blast
qed

lemma trim_space_ends: "space_at (trim_space s) = 0 \<and> space_end (rev (trim_space s)) = 0"
proof
  have "space_at (trim_left s) = 0" by (simp add: trim_left_def trim_by_stop)
  moreover obtain n where "trim_space s = take n (trim_left s)"
    using trim_right_take by (auto simp: trim_space_def)
  ultimately show "space_at (trim_space s) = 0" by (simp add: space_at_take)
  show "space_end (rev (trim_space s)) = 0"
    by (simp add: trim_space_def trim_right_def trim_by_stop)
qed

lemma trim_space_idem [simp]: "trim_space (trim_space s) = trim_space s"
  using trim_space_ends [of s] by (simp add: trim_space_def trim_left_def trim_right_def trim_by_fixed)

lemma trim_space_Nil [simp, go_simps]: "trim_space [] = []"
  by (simp add: trim_space_def trim_left_def trim_right_def trim_by_fixed)

lemma blank_trim [simp]: "blank (trim_space s) = blank s"
  by (simp add: blank_def)

text \<open>
  Evaluation on concrete strings: one rewrite step per rune stripped, with the decision at the
  ends of the string.
\<close>

lemma trim_space_eval [go_simps]:
  "space_at s = 0 \<Longrightarrow> space_end (rev s) = 0 \<Longrightarrow> trim_space s = s"
  by (simp add: trim_space_def trim_left_def trim_right_def trim_by_fixed)

lemmas space_eval [go_simps] = space_at.simps space_end.simps ascii_space_def space2_def space3_def

end
