(* ===== verification/Go_Json.thy ===== *)
theory Go_Json
  imports Faros_Prelude
begin

section \<open>The part of encoding/json the stores use\<close>

text \<open>
  \<open>json.Valid\<close> and the decode half of \<open>canonicalAssistantConversationPayload\<close>
  (\<open>json.Decoder\<close> with \<open>UseNumber\<close>). The scanner of \<open>encoding/json\<close> is a push-down automaton:
  one step per byte, with a stack of open arrays and objects bounded by 10000 levels. The
  automaton below has its states, with the value read so far kept beside them, so that one run
  says both whether the text is valid and which value it denotes. It is a structural recursion
  over the bytes and needs no fuel.
\<close>

datatype json =
    JNull
  | JBool bool
  | JNumber string
  | JString string
  | JArray "json list"
  | JObject "(string \<times> json) list"

text \<open>An open composite value: an array with the elements read (last first), an object waiting
  for a key, or for the value of a key.\<close>

datatype jctx = CArr "json list" | CKey "(string \<times> json) list" | CVal "(string \<times> json) list" string

datatype jstep =
    BeginValue | BeginValueOrEmpty | BeginStringOrEmpty | BeginString
  | EndValue json \<comment> \<open>a value is complete and waits for what follows\<close>
  | InString string | InEsc string | InHex string nat
  | Neg string | Int0 string | Int1 string | Dot string | Frac string
  | Exp string | ExpSign string | ExpDigits string
  | Lit string json
  | Failed

definition json_space :: "char \<Rightarrow> bool" where
  "json_space c \<longleftrightarrow> c = CHR '' '' \<or> c = CHR 0x09 \<or> c = CHR 0x0A \<or> c = CHR 0x0D"

definition is_digit :: "char \<Rightarrow> bool" where
  "is_digit c \<longleftrightarrow> 48 \<le> (of_char c :: nat) \<and> (of_char c :: nat) \<le> 57"

definition hex_val :: "char \<Rightarrow> nat option" where
  "hex_val c = (let n = of_char c :: nat in
     if 48 \<le> n \<and> n \<le> 57 then Some (n - 48)
     else if 65 \<le> n \<and> n \<le> 70 then Some (n - 55)
     else if 97 \<le> n \<and> n \<le> 102 then Some (n - 87) else None)"

definition max_depth :: nat where "max_depth = 10000"

subsection \<open>String contents\<close>

definition utf8 :: "nat \<Rightarrow> string" where
  "utf8 n =
     (if n < 0x80 then [char_of n]
      else if n < 0x800 then [char_of (0xC0 + n div 64), char_of (0x80 + n mod 64)]
      else if n < 0x10000 then
        [char_of (0xE0 + n div 4096), char_of (0x80 + n div 64 mod 64), char_of (0x80 + n mod 64)]
      else [char_of (0xF0 + n div 262144), char_of (0x80 + n div 4096 mod 64),
            char_of (0x80 + n div 64 mod 64), char_of (0x80 + n mod 64)])"

definition replacement :: string where "replacement = utf8 0xFFFD"

definition between :: "nat \<Rightarrow> nat \<Rightarrow> char \<Rightarrow> bool" where
  "between lo hi c \<longleftrightarrow> lo \<le> (of_char c :: nat) \<and> (of_char c :: nat) \<le> hi"

text \<open>The length of the valid UTF-8 sequence at the head of a string that starts with a
  non-ASCII byte, 0 where \<open>utf8.DecodeRune\<close> reports an encoding error.\<close>

definition rune_len :: "string \<Rightarrow> nat" where
  "rune_len s = (case s of
       a # b # r \<Rightarrow>
         if between 0xC2 0xDF a then (if between 0x80 0xBF b then 2 else 0)
         else (case r of
             c # r' \<Rightarrow>
               if (between 0xE0 0xE0 a \<and> between 0xA0 0xBF b \<or>
                   between 0xE1 0xEC a \<and> between 0x80 0xBF b \<or>
                   between 0xED 0xED a \<and> between 0x80 0x9F b \<or>
                   between 0xEE 0xEF a \<and> between 0x80 0xBF b) \<and> between 0x80 0xBF c then 3
               else (case r' of
                   d # _ \<Rightarrow>
                     if (between 0xF0 0xF0 a \<and> between 0x90 0xBF b \<or>
                         between 0xF1 0xF3 a \<and> between 0x80 0xBF b \<or>
                         between 0xF4 0xF4 a \<and> between 0x80 0x8F b) \<and>
                        between 0x80 0xBF c \<and> between 0x80 0xBF d then 4 else 0
                 | [] \<Rightarrow> 0)
           | [] \<Rightarrow> 0)
     | _ \<Rightarrow> 0)"

fun hex4 :: "string \<Rightarrow> nat option" where
  "hex4 (a # b # c # d # r) =
     (case (hex_val a, hex_val b, hex_val c, hex_val d) of
        (Some w, Some x, Some y, Some z) \<Rightarrow> Some (4096 * w + 256 * x + 16 * y + z)
      | _ \<Rightarrow> None)"
| "hex4 _ = None"

definition simple_escape :: "char \<Rightarrow> string option" where
  "simple_escape c =
     (if c = CHR 0x22 \<or> c = CHR 0x5C \<or> c = CHR ''/'' then Some [c]
      else if c = CHR ''b'' then Some [CHR 0x08] else if c = CHR ''f'' then Some [CHR 0x0C]
      else if c = CHR ''n'' then Some [CHR 0x0A] else if c = CHR ''r'' then Some [CHR 0x0D]
      else if c = CHR ''t'' then Some [CHR 0x09] else None)"

definition low_surrogate :: "string \<Rightarrow> nat option" where
  "low_surrogate s = (case s of
       a # b # r \<Rightarrow> if a = CHR 0x5C \<and> b = CHR ''u'' then
           (case hex4 r of Some n \<Rightarrow> if 0xDC00 \<le> n \<and> n < 0xE000 then Some n else None | None \<Rightarrow> None)
         else None
     | _ \<Rightarrow> None)"

text \<open>\<open>unquoteBytes\<close>: the bytes between the quotes to the string they denote; a lone surrogate
  and an invalid UTF-8 byte become U+FFFD.\<close>

function unquote :: "string \<Rightarrow> string" where
  "unquote [] = []"
| "unquote (c # r) =
     (if c = CHR 0x5C then
        (case r of
           [] \<Rightarrow> []
         | e # r' \<Rightarrow>
             if e = CHR ''u'' then
               (case hex4 r' of
                  None \<Rightarrow> unquote r'
                | Some n \<Rightarrow>
                    if 0xD800 \<le> n \<and> n < 0xDC00 then
                      (case low_surrogate (drop 4 r') of
                         Some m \<Rightarrow> utf8 (0x10000 + (n - 0xD800) * 1024 + (m - 0xDC00)) @ unquote (drop 10 r')
                       | None \<Rightarrow> replacement @ unquote (drop 4 r'))
                    else if 0xDC00 \<le> n \<and> n < 0xE000 then replacement @ unquote (drop 4 r')
                    else utf8 n @ unquote (drop 4 r'))
             else (case simple_escape e of Some t \<Rightarrow> t | None \<Rightarrow> []) @ unquote r')
      else if between 0 0x7F c then c # unquote r
      else (let n = rune_len (c # r) in
            if n = 0 then replacement @ unquote r else take n (c # r) @ unquote (drop (n - 1) r)))"
  by pat_completeness auto
termination
  by (relation "measure length") auto

subsection \<open>The automaton\<close>

text \<open>A Go map keeps one entry per key, the last one written, and \<open>json.Marshal\<close> emits the
  entries in key order.\<close>

definition canonical_fields :: "(string \<times> json) list \<Rightarrow> (string \<times> json) list" where
  "canonical_fields kvs =
     (let m = foldr (\<lambda>(k, v) m. mput k v m) kvs [] in sort_key fst m)"

type_synonym jconf = "jstep \<times> jctx list"

definition push :: "jstep \<Rightarrow> jctx \<Rightarrow> jctx list \<Rightarrow> jconf" where
  "push st c stack = (if length stack < max_depth then (st, c # stack) else (Failed, []))"

text \<open>\<open>stateEndValue\<close>: the byte after a complete value.\<close>

definition end_value :: "json \<Rightarrow> jctx list \<Rightarrow> char \<Rightarrow> jconf" where
  "end_value v stack c =
     (if json_space c then (EndValue v, stack)
      else case stack of
        [] \<Rightarrow> (Failed, [])
      | CArr vs # rest \<Rightarrow>
          if c = CHR '','' then (BeginValue, CArr (v # vs) # rest)
          else if c = CHR '']'' then (EndValue (JArray (rev (v # vs))), rest) else (Failed, [])
      | CKey kvs # rest \<Rightarrow>
          (case v of
             JString k \<Rightarrow> if c = CHR '':'' then (BeginValue, CVal kvs k # rest) else (Failed, [])
           | _ \<Rightarrow> (Failed, []))
      | CVal kvs k # rest \<Rightarrow>
          if c = CHR '','' then (BeginString, CKey ((k, v) # kvs) # rest)
          else if c = CHR ''}'' then (EndValue (JObject (canonical_fields ((k, v) # kvs))), rest)
          else (Failed, []))"

definition begin_value :: "jctx list \<Rightarrow> char \<Rightarrow> jconf" where
  "begin_value stack c =
     (if json_space c then (BeginValue, stack)
      else if c = CHR ''{'' then push BeginStringOrEmpty (CKey []) stack
      else if c = CHR ''['' then push BeginValueOrEmpty (CArr []) stack
      else if c = CHR 0x22 then (InString [], stack)
      else if c = CHR ''-'' then (Neg [c], stack)
      else if c = CHR ''0'' then (Int0 [c], stack)
      else if c = CHR ''t'' then (Lit ''rue'' (JBool True), stack)
      else if c = CHR ''f'' then (Lit ''alse'' (JBool False), stack)
      else if c = CHR ''n'' then (Lit ''ull'' JNull, stack)
      else if is_digit c then (Int1 [c], stack)
      else (Failed, []))"

definition begin_string :: "jctx list \<Rightarrow> char \<Rightarrow> jconf" where
  "begin_string stack c =
     (if json_space c then (BeginString, stack)
      else if c = CHR 0x22 then (InString [], stack) else (Failed, []))"

definition end_number :: "string \<Rightarrow> jctx list \<Rightarrow> char \<Rightarrow> jconf" where
  "end_number t stack c = end_value (JNumber (rev t)) stack c"

definition after_int :: "string \<Rightarrow> jctx list \<Rightarrow> char \<Rightarrow> jconf" where
  "after_int t stack c =
     (if c = CHR ''.'' then (Dot (c # t), stack)
      else if c = CHR ''e'' \<or> c = CHR ''E'' then (Exp (c # t), stack)
      else end_number t stack c)"

fun json_step :: "jconf \<Rightarrow> char \<Rightarrow> jconf" where
  "json_step (BeginValue, stack) c = begin_value stack c"
| "json_step (BeginValueOrEmpty, stack) c =
     (if json_space c then (BeginValueOrEmpty, stack)
      else if c = CHR '']'' then (EndValue (JArray []), tl stack) else begin_value stack c)"
| "json_step (BeginStringOrEmpty, stack) c =
     (if json_space c then (BeginStringOrEmpty, stack)
      else if c = CHR ''}'' then (EndValue (JObject []), tl stack) else begin_string stack c)"
| "json_step (BeginString, stack) c = begin_string stack c"
| "json_step (EndValue v, stack) c = end_value v stack c"
| "json_step (InString t, stack) c =
     (if c = CHR 0x22 then (EndValue (JString (unquote (rev t))), stack)
      else if c = CHR 0x5C then (InEsc (c # t), stack)
      else if between 0 0x1F c then (Failed, []) else (InString (c # t), stack))"
| "json_step (InEsc t, stack) c =
     (if c = CHR ''u'' then (InHex (c # t) 4, stack)
      else if simple_escape c \<noteq> None then (InString (c # t), stack) else (Failed, []))"
| "json_step (InHex t n, stack) c =
     (if hex_val c = None then (Failed, [])
      else if n \<le> 1 then (InString (c # t), stack) else (InHex (c # t) (n - 1), stack))"
| "json_step (Neg t, stack) c =
     (if c = CHR ''0'' then (Int0 (c # t), stack)
      else if is_digit c then (Int1 (c # t), stack) else (Failed, []))"
| "json_step (Int0 t, stack) c = after_int t stack c"
| "json_step (Int1 t, stack) c =
     (if is_digit c then (Int1 (c # t), stack) else after_int t stack c)"
| "json_step (Dot t, stack) c = (if is_digit c then (Frac (c # t), stack) else (Failed, []))"
| "json_step (Frac t, stack) c =
     (if is_digit c then (Frac (c # t), stack)
      else if c = CHR ''e'' \<or> c = CHR ''E'' then (Exp (c # t), stack) else end_number t stack c)"
| "json_step (Exp t, stack) c =
     (if c = CHR ''+'' \<or> c = CHR ''-'' then (ExpSign (c # t), stack)
      else if is_digit c then (ExpDigits (c # t), stack) else (Failed, []))"
| "json_step (ExpSign t, stack) c =
     (if is_digit c then (ExpDigits (c # t), stack) else (Failed, []))"
| "json_step (ExpDigits t, stack) c =
     (if is_digit c then (ExpDigits (c # t), stack) else end_number t stack c)"
| "json_step (Lit r v, stack) c =
     (case r of
        [] \<Rightarrow> (Failed, [])
      | x # r' \<Rightarrow> if c \<noteq> x then (Failed, []) else if r' = [] then (EndValue v, stack) else (Lit r' v, stack))"
| "json_step (Failed, stack) c = (Failed, [])"

text \<open>The value of a text, \<open>None\<close> where it is not valid: the scanner's \<open>eof\<close> feeds one space,
  which completes a number at the top level.\<close>

definition json_value :: "string \<Rightarrow> json option" where
  "json_value s = (case foldl json_step (BeginValue, []) (s @ '' '') of
       (EndValue v, []) \<Rightarrow> Some v | _ \<Rightarrow> None)"

definition json_valid :: "string \<Rightarrow> bool" where
  "json_valid s \<longleftrightarrow> json_value s \<noteq> None"

lemmas json_eval = json_valid_def json_value_def begin_value_def begin_string_def end_value_def
  end_number_def after_int_def push_def max_depth_def json_space_def is_digit_def hex_val_def
  between_def simple_escape_def canonical_fields_def

lemma json_valid_empty_object [simp, go_simps]: "json_valid ''{}''"
  by code_simp

lemma json_invalid_empty [simp, go_simps]: "\<not> json_valid []"
  by code_simp

text \<open>The value ignores key order, duplicate keys and white space, and keeps the text of a
  number.\<close>

lemma json_value_field_order:
  "json_value ''{\"b\":[1,true],\"a\":null}'' = json_value ''{ \"a\": null, \"b\": [1, true] }''"
  by code_simp

lemma json_value_number_text: "json_value ''1.0'' \<noteq> json_value ''1''"
  by code_simp

end
