(* ===== verification/Go_Encode.thy ===== *)
theory Go_Encode
  imports Go_Json
begin

section \<open>The encoding half of encoding/json the stores use\<close>

text \<open>
  How \<open>encoding/json\<close> writes a string and an instant: the quoted form with HTML-safe escapes and
  the replacement of bytes that are not UTF-8, and the RFC 3339 form of a UTC instant with up to
  nine fractional digits, which exists for the years 0 to 9999 only.
\<close>

subsection \<open>Strings\<close>

definition rune_width :: "string \<Rightarrow> nat" where
  "rune_width s = (case s of [] \<Rightarrow> 0 | a # r \<Rightarrow> if between 0 0x7F a then 1 else rune_len s)"

text \<open>What reading back a written string gives.\<close>

function coerce_utf8 :: "string \<Rightarrow> string" where
  "coerce_utf8 s =
     (if s = [] then []
      else if rune_width s = 0 then replacement @ coerce_utf8 (tl s)
      else take (rune_width s) s @ coerce_utf8 (drop (rune_width s) s))"
  by pat_completeness auto
termination
  by (relation "measure length") auto

declare coerce_utf8.simps [simp del]

definition hex_digit :: "nat \<Rightarrow> char" where
  "hex_digit n = ''0123456789abcdef'' ! (n mod 16)"

text \<open>\<open>hex.EncodeToString\<close>.\<close>

definition hex_encode :: "string \<Rightarrow> string" where
  "hex_encode s = concat (map (\<lambda>c. [hex_digit ((of_char c :: nat) div 16), hex_digit (of_char c)]) s)"

definition escape_ascii :: "char \<Rightarrow> string" where
  "escape_ascii c =
     (if c = CHR 0x22 \<or> c = CHR 0x5C then [CHR 0x5C, c]
      else if c = CHR 0x08 then [CHR 0x5C, CHR ''b''] else if c = CHR 0x0C then [CHR 0x5C, CHR ''f'']
      else if c = CHR 0x0A then [CHR 0x5C, CHR ''n''] else if c = CHR 0x0D then [CHR 0x5C, CHR ''r'']
      else if c = CHR 0x09 then [CHR 0x5C, CHR ''t'']
      else if between 0 0x1F c \<or> c = CHR ''<'' \<or> c = CHR ''>'' \<or> c = CHR ''&'' then
        [CHR 0x5C, CHR ''u'', CHR ''0'', CHR ''0'', hex_digit ((of_char c :: nat) div 16), hex_digit (of_char c)]
      else [c])"

definition escape_rune :: "string \<Rightarrow> string" where
  "escape_rune r =
     (if r = [CHR 0xE2, CHR 0x80, CHR 0xA8] then CHR 0x5C # ''u2028''
      else if r = [CHR 0xE2, CHR 0x80, CHR 0xA9] then CHR 0x5C # ''u2029''
      else case r of [c] \<Rightarrow> escape_ascii c | _ \<Rightarrow> r)"

function json_escape :: "string \<Rightarrow> string" where
  "json_escape s =
     (if s = [] then []
      else if rune_width s = 0 then (CHR 0x5C # ''ufffd'') @ json_escape (tl s)
      else escape_rune (take (rune_width s) s) @ json_escape (drop (rune_width s) s))"
  by pat_completeness auto
termination
  by (relation "measure length") auto

declare json_escape.simps [simp del]

definition json_quote :: "string \<Rightarrow> string" where
  "json_quote s = CHR 0x22 # json_escape s @ [CHR 0x22]"

lemma coerce_utf8_ascii: "\<forall>c \<in> set s. between 0 0x7F c \<Longrightarrow> coerce_utf8 s = s"
  by (induction s) (simp_all add: coerce_utf8.simps rune_width_def)

subsection \<open>Instants\<close>

fun decimal :: "nat \<Rightarrow> int \<Rightarrow> string" where
  "decimal 0 n = []"
| "decimal (Suc w) n = decimal w (n div 10) @ [char_of (48 + n mod 10)]"

definition json_time_ok :: "gotime \<Rightarrow> bool" where
  "json_time_ok t \<longleftrightarrow> - 366 * 86400 * 10 ^ 9 \<le> t \<and> t < 3652059 * 86400 * 10 ^ 9"

text \<open>Year, month and day of a number of days since 0001-01-01, in the proleptic Gregorian
  calendar, counting from the first of March of a 400-year cycle.\<close>

definition civil :: "int \<Rightarrow> int \<times> int \<times> int" where
  "civil days =
     (let z = days + 306; era = z div 146097; doe = z mod 146097;
          yoe = (doe - doe div 1460 + doe div 36524 - doe div 146096) div 365;
          doy = doe - (365 * yoe + yoe div 4 - yoe div 100);
          mp = (5 * doy + 2) div 153;
          d = doy - (153 * mp + 2) div 5 + 1;
          m = (if mp < 10 then mp + 3 else mp - 9)
      in (yoe + era * 400 + (if m \<le> 2 then 1 else 0), m, d))"

definition drop_zeros :: "string \<Rightarrow> string" where
  "drop_zeros s = rev (dropWhile (\<lambda>c. c = CHR ''0'') (rev s))"

definition rfc3339_nano :: "gotime \<Rightarrow> string" where
  "rfc3339_nano t =
     (let secs = t div 10 ^ 9; nanos = t mod 10 ^ 9; days = secs div 86400; sod = secs mod 86400 in
      case civil days of (y, m, d) \<Rightarrow>
        decimal 4 y @ ''-'' @ decimal 2 m @ ''-'' @ decimal 2 d @ ''T'' @
        decimal 2 (sod div 3600) @ '':'' @ decimal 2 (sod div 60 mod 60) @ '':'' @
        decimal 2 (sod mod 60) @
        (if nanos = 0 then [] else ''.'' @ drop_zeros (decimal 9 nanos)) @ ''Z'')"

definition json_time :: "gotime \<Rightarrow> string option" where
  "json_time t = (if json_time_ok t then Some (CHR 0x22 # rfc3339_nano t @ [CHR 0x22]) else None)"

lemma rfc3339_nano_samples:
  "rfc3339_nano 0 = ''0001-01-01T00:00:00Z''"
  "rfc3339_nano (63902822399 * 10 ^ 9 + 120000000) = ''2025-12-31T23:59:59.12Z''"
  by code_simp+

end
