(* ===== verification/Go_Text.thy ===== *)
theory Go_Text
  imports Go_Encode
begin

section \<open>Cutting text at a rune\<close>

text \<open>
  The loop several components write, \<open>for cut > 0 && !utf8.RuneStart(s[cut]) { cut-- }\<close>, with the
  bounds that the callers rely on, and \<open>strings.TrimRight\<close>, \<open>strings.TrimLeft\<close> and
  \<open>strings.LastIndex\<close> for the ASCII sets and separators they are called with.
\<close>

definition rune_start :: "char \<Rightarrow> bool" where
  "rune_start c \<longleftrightarrow> \<not> between 0x80 0xBF c"

fun back_to_rune :: "string \<Rightarrow> nat \<Rightarrow> nat" where
  "back_to_rune s 0 = 0"
| "back_to_rune s (Suc n) = (if rune_start (s ! Suc n) then Suc n else back_to_rune s n)"

lemma back_to_rune_le: "back_to_rune s n \<le> n"
  by (induction n) auto

lemma back_to_rune_start: "0 < back_to_rune s n \<Longrightarrow> rune_start (s ! back_to_rune s n)"
  by (induction n) (auto split: if_splits)

definition trim_right_in :: "char list \<Rightarrow> string \<Rightarrow> string" where
  "trim_right_in cs s = rev (dropWhile (\<lambda>c. c \<in> set cs) (rev s))"

definition trim_left_in :: "char list \<Rightarrow> string \<Rightarrow> string" where
  "trim_left_in cs s = dropWhile (\<lambda>c. c \<in> set cs) s"

lemma trim_right_split: "\<exists>r. s = trim_right_in cs s @ r \<and> set r \<subseteq> set cs"
proof -
  have "rev s = takeWhile (\<lambda>c. c \<in> set cs) (rev s) @ dropWhile (\<lambda>c. c \<in> set cs) (rev s)" by simp
  then have "s = trim_right_in cs s @ rev (takeWhile (\<lambda>c. c \<in> set cs) (rev s))"
    unfolding trim_right_in_def by (metis rev_append rev_rev_ident)
  then show ?thesis using set_takeWhileD by fastforce
qed

lemma trim_left_split: "\<exists>r. s = r @ trim_left_in cs s \<and> set r \<subseteq> set cs"
  by (rule exI [of _ "takeWhile (\<lambda>c. c \<in> set cs) s"]) (auto simp: trim_left_in_def dest: set_takeWhileD)

lemma trim_right_in_length: "length (trim_right_in cs s) \<le> length s"
  using length_dropWhile_le [of _ "rev s"] by (simp add: trim_right_in_def)

lemma trim_left_in_length: "length (trim_left_in cs s) \<le> length s"
  by (simp add: trim_left_in_def length_dropWhile_le)

text \<open>The last position of a separator, if there is one.\<close>

fun last_index_from :: "string \<Rightarrow> string \<Rightarrow> nat \<Rightarrow> nat option" where
  "last_index_from sep s 0 = (if take (length sep) s = sep then Some 0 else None)"
| "last_index_from sep s (Suc n) =
     (if take (length sep) (drop (Suc n) s) = sep then Some (Suc n) else last_index_from sep s n)"

definition last_index :: "string \<Rightarrow> string \<Rightarrow> nat option" where
  "last_index s sep = last_index_from sep s (length s - length sep)"

lemma last_index_from_SomeD: "last_index_from sep s n = Some i \<Longrightarrow> i \<le> n \<and> take (length sep) (drop i s) = sep"
  by (induction n) (auto split: if_splits)

lemma last_index_bound:
  assumes "last_index s sep = Some i"
  shows "i + length sep \<le> length s"
proof -
  have i: "i \<le> length s - length sep" "take (length sep) (drop i s) = sep"
    using assms last_index_from_SomeD [of sep s] by (auto simp: last_index_def)
  from i(2) have "length sep \<le> length (drop i s)" by (metis length_take min.cobounded1)
  then show ?thesis using i(1) by (cases "length sep \<le> length s") auto
qed

subsection \<open>Letter case\<close>

text \<open>\<open>strings.HasSuffix\<close> and \<open>strings.TrimSuffix\<close>.\<close>

definition hasSuffix :: "string \<Rightarrow> string \<Rightarrow> bool" where
  "hasSuffix s t \<longleftrightarrow> length t \<le> length s \<and> drop (length s - length t) s = t"

definition trimSuffix :: "string \<Rightarrow> string \<Rightarrow> string" where
  "trimSuffix s t = (if hasSuffix s t then take (length s - length t) s else s)"

lemma hasSuffix_iff: "hasSuffix s t \<longleftrightarrow> (\<exists>r. s = r @ t)"
proof
  assume "hasSuffix s t"
  then have "s = take (length s - length t) s @ t" unfolding hasSuffix_def by (metis append_take_drop_id)
  then show "\<exists>r. s = r @ t" by blast
qed (auto simp: hasSuffix_def)

text \<open>\<open>strings.ToLower\<close>, as far as a comparison with ASCII text can see: the two runes outside ASCII that
  have an ASCII lower case are U+212A (Kelvin sign) and U+0130 (dotted capital I); the bytes of other
  runes are left as they are.\<close>

fun to_lower :: "string \<Rightarrow> string" where
  "to_lower [] = []"
| "to_lower (a # b # c # s) =
     (if a = CHR 0xE2 \<and> b = CHR 0x84 \<and> c = CHR 0xAA then CHR ''k'' # to_lower s
      else if a = CHR 0xC4 \<and> b = CHR 0xB0 then CHR ''i'' # to_lower (c # s)
      else (let n = of_char a :: nat in if 65 \<le> n \<and> n \<le> 90 then char_of (n + 32) else a) # to_lower (b # c # s))"
| "to_lower [a, b] =
     (if a = CHR 0xC4 \<and> b = CHR 0xB0 then [CHR ''i'']
      else (let n = of_char a :: nat in if 65 \<le> n \<and> n \<le> 90 then char_of (n + 32) else a) # to_lower [b])"
| "to_lower [a] = [let n = of_char a :: nat in if 65 \<le> n \<and> n \<le> 90 then char_of (n + 32) else a]"

text \<open>\<open>strings.EqualFold\<close> with a text of lower-case ASCII letters: beside the upper-case letters, only
  U+212A (Kelvin sign) folds to an ASCII letter, \<open>k\<close>, and U+017F (long s), to \<open>s\<close>.\<close>

fun equal_fold :: "string \<Rightarrow> string \<Rightarrow> bool" where
  "equal_fold s [] = (s = [])"
| "equal_fold [] (l # t) = False"
| "equal_fold (a # s) (l # t) =
     (let n = of_char a :: nat in
      if a = l \<or> 65 \<le> n \<and> n \<le> 90 \<and> char_of (n + 32) = l then equal_fold s t
      else if l = CHR ''k'' then (case s of b # c # r \<Rightarrow>
          a = CHR 0xE2 \<and> b = CHR 0x84 \<and> c = CHR 0xAA \<and> equal_fold r t | _ \<Rightarrow> False)
      else if l = CHR ''s'' then (case s of b # r \<Rightarrow>
          a = CHR 0xC5 \<and> b = CHR 0xBF \<and> equal_fold r t | _ \<Rightarrow> False)
      else False)"

subsection \<open>Prefixes\<close>

definition hasPrefix :: "string \<Rightarrow> string \<Rightarrow> bool" where
  "hasPrefix s p \<longleftrightarrow> length s \<ge> length p \<and> take (length p) s = p"

lemma hasPrefix_iff: "hasPrefix s p \<longleftrightarrow> (\<exists>r. s = p @ r)"
  by (metis append_eq_conv_conj append_take_drop_id hasPrefix_def le_add1 length_append)

lemma hasPrefix_append [simp]: "hasPrefix (p @ r) p"
  by (auto simp: hasPrefix_iff)

subsection \<open>Decimal numbers\<close>

text \<open>\<open>%d\<close> and \<open>strconv.Itoa\<close>.\<close>

fun show_nat :: "nat \<Rightarrow> string" where
  "show_nat n = (if n < 10 then [char_of (48 + n)] else show_nat (n div 10) @ [char_of (48 + n mod 10)])"

declare show_nat.simps [simp del]

definition show_int :: "int \<Rightarrow> string" where
  "show_int n = (if n < 0 then ''-'' @ show_nat (nat (- n)) else show_nat (nat n))"

text \<open>Different numbers are written differently: reading the digits back.\<close>

definition read_nat :: "string \<Rightarrow> nat" where
  "read_nat = foldl (\<lambda>n c. 10 * n + (of_char c - 48)) 0"

lemma read_show_nat: "read_nat (show_nat n) = n"
proof (induction n rule: show_nat.induct)
  case (1 n)
  have digit: "of_char (char_of (48 + d) :: char) = 48 + d" if "d < 10" for d :: nat
    using that by simp
  show ?case
  proof (cases "n < 10")
    case True
    then show ?thesis by (simp add: show_nat.simps [of n] read_nat_def digit del: of_char_of)
  next
    case False
    then have "read_nat (show_nat n) = 10 * read_nat (show_nat (n div 10)) + n mod 10"
      by (simp add: show_nat.simps [of n] read_nat_def digit del: of_char_of)
    then show ?thesis using 1 False by simp
  qed
qed

lemma show_nat_digits: "c \<in> set (show_nat n) \<Longrightarrow> \<exists>d < 10. c = char_of (48 + d :: nat)"
proof (induction n rule: show_nat.induct)
  case (1 n)
  show ?case
  proof (cases "n < 10")
    case True
    then have "c = char_of (48 + n)" using 1(2) by (simp add: show_nat.simps [of n])
    then show ?thesis using True by blast
  next
    case False
    then have "c \<in> set (show_nat (n div 10)) \<or> c = char_of (48 + n mod 10)"
      using 1(2) by (auto simp: show_nat.simps [of n] simp del: of_char_of)
    moreover have "n mod 10 < 10" by simp
    ultimately show ?thesis using 1(1) [OF False] by blast
  qed
qed

lemma char_minus: "CHR ''-'' = char_of (45 :: nat)" "CHR ''|'' = char_of (124 :: nat)"
  by code_simp+

lemma char_of_inject: "m < 256 \<Longrightarrow> n < 256 \<Longrightarrow> (char_of m :: char) = char_of (n :: nat) \<longleftrightarrow> m = n"
  by (metis char_of_eq_iff of_char_of mod_less)

lemma show_nat_no_minus: "CHR ''-'' \<notin> set (show_nat n)"
  using show_nat_digits [of "CHR ''-''" n] by (auto simp: char_minus char_of_inject simp del: of_char_of)

lemma show_int_inject: "show_int m = show_int n \<longleftrightarrow> m = n"
proof
  assume eq: "show_int m = show_int n"
  have inj: "show_nat a = show_nat b \<Longrightarrow> a = b" for a b by (metis read_show_nat)
  have no: "CHR ''-'' # s \<noteq> show_nat a" for s a using show_nat_no_minus [of a] by (metis list.set_intros(1))
  show "m = n"
    using eq no [of _ "nat m"] no [of _ "nat n"] by (auto simp: show_int_def eq_nat_nat_iff dest!: inj split: if_splits)
qed simp

subsection \<open>Bounded texts\<close>

text \<open>\<open>safeTruncate\<close> of the agents provider: at most \<open>n\<close> bytes, cut at the start of a rune, with a
  marker.\<close>

definition safeTruncate :: "string \<Rightarrow> nat \<Rightarrow> string" where
  "safeTruncate s n = (if length s \<le> n then s
     else take (back_to_rune s n) s @ [CHR 0xE2, CHR 0x80, CHR 0xA6] @ ''[truncated]'')"

end
