(* ===== verification/AppStore_Types.thy ===== *)
theory AppStore_Types
  imports Go_Text
begin

section \<open>App Studio store: data, errors and record preparation\<close>

text \<open>
  The data model of \<open>providers/app-studio/store\<close> (\<open>store.go\<close>, \<open>thread.go\<close>, \<open>claims.go\<close>,
  \<open>project_thumbnail.go\<close> and the state of \<open>memory.go\<close>), and the pure functions that check and
  normalise a record before an operation stores it. A struct is a record whose field names carry
  a short prefix, a Go string type stays a string because the code compares and validates it as
  one, a \<open>json.RawMessage\<close> is its bytes and an absent one is the empty string. \<open>now\<close> is the
  clock reading an operation makes; an operation that asks for the time more than once gets the
  same reading.
\<close>

subsection \<open>Scopes and errors\<close>

record scope =
  sc_OrgUUID :: string
  sc_WorkspaceUUID :: string
  sc_ProjectName :: string
  sc_ProjectUID :: string

text \<open>The exported sentinel errors, \<open>ErrMsg\<close> for an error made by \<open>fmt.Errorf\<close> or
  \<open>errors.New\<close> on the spot (with its constant text), and the run-time panic of a write to a nil
  map.\<close>

datatype store_error =
    ErrAssistantRunNotFound | ErrAssistantRunConflict | ErrAssistantRunEventConflict
  | ErrAssistantConversationItemConflict | ErrAssistantApprovalModeInvalid
  | ErrProjectBootstrapPermitConflict
  | ErrAssistantThreadNotFound | ErrAssistantThreadConflict | ErrAssistantThreadActive
  | ErrAssistantTurnNotFound | ErrAssistantTurnConflict | ErrAssistantThreadEventConflict
  | ErrProjectThumbnailNotFound
  | ErrMsg string
  | PanicNilMap

type_synonym 'a sres = "(store_error, 'a) res"

definition scope_validate :: "scope \<Rightarrow> unit sres" where
  "scope_validate s = guard_res (ErrMsg ''scope is incomplete'')
     (\<not> (blank (sc_OrgUUID s) \<or> blank (sc_WorkspaceUUID s) \<or> blank (sc_ProjectName s) \<or> blank (sc_ProjectUID s)))"

subsection \<open>Messages, runs, run events, conversation items\<close>

record message =
  msg_ID :: string
  msg_ProjectName :: string
  msg_ProjectUID :: string
  msg_ActorID :: string
  msg_Role :: string
  msg_Content :: string
  msg_ContentEncrypted :: bool
  msg_ContentKeyID :: string
  msg_Metadata :: "(string, json) gomap"
  msg_CreatedAt :: gotime
  msg_UpdatedAt :: gotime

text \<open>\<open>AssistantRunStatus\<close>, \<open>AssistantRunMode\<close>, \<open>AssistantApprovalMode\<close> and
  \<open>AssistantRunAbortReason\<close>.\<close>

abbreviation RunPendingPermission :: string where "RunPendingPermission \<equiv> ''pending_permission''"
abbreviation RunPendingInput :: string where "RunPendingInput \<equiv> ''pending_input''"
abbreviation RunRunning :: string where "RunRunning \<equiv> ''running''"
abbreviation RunStopping :: string where "RunStopping \<equiv> ''stopping''"
abbreviation RunCompleted :: string where "RunCompleted \<equiv> ''completed''"
abbreviation RunFailed :: string where "RunFailed \<equiv> ''failed''"
abbreviation RunInterrupted :: string where "RunInterrupted \<equiv> ''interrupted''"
abbreviation RunAborted :: string where "RunAborted \<equiv> ''aborted''"

definition run_statuses :: "string list" where
  "run_statuses = [RunPendingPermission, RunPendingInput, RunRunning, RunStopping,
     RunCompleted, RunFailed, RunInterrupted, RunAborted]"

definition run_modes :: "string list" where
  "run_modes = [''default'', ''plan'', ''review'']"

definition approval_modes :: "string list" where
  "approval_modes = [''on_request'', ''always_ask'', ''never'', ''auto_approve'']"

definition abort_reasons :: "string list" where
  "abort_reasons = [''interrupted'', ''replaced'', ''budget_limited'', ''iteration_limited'']"

record assistant_run =
  run_ID :: string
  run_ProjectName :: string
  run_ProjectUID :: string
  run_Mode :: string
  run_ApprovalMode :: string
  run_Status :: string
  run_ClientRequestID :: string
  run_UserMessageID :: string
  run_ActiveMessageID :: string
  run_Revision :: int
  run_RequestID :: string
  run_Checkpoint :: string
  run_Audit :: string
  run_Error :: string
  run_AbortReason :: string
  run_CreatedAt :: gotime
  run_UpdatedAt :: gotime

record run_event =
  rev_RunID :: string
  rev_ProjectName :: string
  rev_ProjectUID :: string
  rev_Sequence :: int
  rev_Type :: string
  rev_CallID :: string
  rev_ToolName :: string
  rev_ArgsDigest :: string
  rev_Payload :: string
  rev_CreatedAt :: gotime

record conversation_item =
  itm_ID :: string
  itm_RunID :: string
  itm_ProjectName :: string
  itm_ProjectUID :: string
  itm_Sequence :: int
  itm_Type :: string
  itm_Payload :: string
  itm_CreatedAt :: gotime

record approval_preference =
  prf_ActorID :: string
  prf_Mode :: string
  prf_UpdatedAt :: gotime

subsection \<open>Threads, turns, thread events\<close>

abbreviation ThreadIdle :: string where "ThreadIdle \<equiv> ''idle''"
abbreviation ThreadActive :: string where "ThreadActive \<equiv> ''active''"
abbreviation ThreadArchived :: string where "ThreadArchived \<equiv> ''archived''"

definition thread_statuses :: "string list" where
  "thread_statuses = [ThreadIdle, ThreadActive, ThreadArchived]"

abbreviation TurnInProgress :: string where "TurnInProgress \<equiv> ''in_progress''"
abbreviation TurnCompleted :: string where "TurnCompleted \<equiv> ''completed''"
abbreviation TurnInterrupted :: string where "TurnInterrupted \<equiv> ''interrupted''"
abbreviation TurnFailed :: string where "TurnFailed \<equiv> ''failed''"

record assistant_thread =
  thr_ID :: string
  thr_Title :: string
  thr_Status :: string
  thr_ActorID :: string
  thr_CreatedAt :: gotime
  thr_UpdatedAt :: gotime

record assistant_turn =
  trn_ID :: string
  trn_ThreadID :: string
  trn_ActorID :: string
  trn_ClientUserMessageID :: string
  trn_Mode :: string
  trn_ApprovalMode :: string
  trn_Status :: string
  trn_Checkpoint :: string
  trn_Error :: string
  trn_CreatedAt :: gotime
  trn_UpdatedAt :: gotime

record thread_event =
  tev_ThreadID :: string
  tev_TurnID :: string
  tev_Sequence :: int
  tev_Type :: string
  tev_ItemID :: string
  tev_RequestID :: string
  tev_Payload :: string
  tev_CreatedAt :: gotime

subsection \<open>Replica claims, bootstrap permits, thumbnails, and the store's state\<close>

record replica_claim =
  clm_Key :: string
  clm_Kind :: string
  clm_ScopeKey :: string
  clm_OwnerReplica :: string
  clm_OwnerAddr :: string
  clm_Detail :: string
  clm_Revision :: int
  clm_HeartbeatAt :: gotime

record bootstrap_permit =
  bp_actor :: string
  bp_promptDigest :: string
  bp_clientRequestID :: string

record project_thumbnail =
  tn_CommitSHA :: string
  tn_CommitCreatedAt :: gotime
  tn_CommitOrder :: string
  tn_Variant :: string
  tn_ContentType :: string
  tn_SHA256 :: string
  tn_Data :: string
  tn_DataEncrypted :: bool
  tn_DataKeyID :: string
  tn_CapturedAt :: gotime

record memory_store =
  assistantThreads :: "(scope, (string, assistant_thread) gomap) gomap"
  assistantTurns :: "(scope, (string, (string, assistant_turn) gomap) gomap) gomap"
  threadEvents :: "(scope, (string, thread_event list) gomap) gomap"
  messages :: "(scope, (string, message) gomap) gomap"
  assistantRuns :: "(scope, (string, assistant_run) gomap) gomap"
  assistantEvents :: "(scope, (string, run_event list) gomap) gomap"
  conversationItems :: "(scope, conversation_item list) gomap"
  conversationSequences :: "(scope, int) gomap"
  replicaClaims :: "(string, replica_claim) gomap"
  approvalModes :: "(scope, (string, approval_preference) gomap) gomap"
  bootstrapPermits :: "(scope, bootstrap_permit) gomap"
  projectThumbnails :: "(scope, project_thumbnail) gomap"

definition NewMemoryStore :: memory_store where
  "NewMemoryStore = \<lparr>assistantThreads = [], assistantTurns = [], threadEvents = [], messages = [],
     assistantRuns = [], assistantEvents = [], conversationItems = [], conversationSequences = [],
     replicaClaims = [], approvalModes = [], bootstrapPermits = [], projectThumbnails = []\<rparr>"

subsection \<open>Pure helpers of store.go and memory.go\<close>

definition cloneRawMessage :: "string \<Rightarrow> string" where
  "cloneRawMessage src = (if length src = 0 then [] else src)"

definition cloneMetadata :: "(string, json) gomap \<Rightarrow> (string, json) gomap" where
  "cloneMetadata src = (if length src = 0 then [] else src)"

lemma clone_id [simp]: "cloneRawMessage p = p" "cloneMetadata m = m"
  by (simp_all add: cloneRawMessage_def cloneMetadata_def)

definition NormalizeAssistantApprovalMode :: "string \<Rightarrow> string sres" where
  "NormalizeAssistantApprovalMode mode0 =
     (let mode = to_lower (trim_space mode0) in
      if mode = [] then Inr ''on_request''
      else if mode \<in> set approval_modes then Inr mode
      else Inl ErrAssistantApprovalModeInvalid)"

definition assistantRunStatusTerminal :: "string \<Rightarrow> bool" where
  "assistantRunStatusTerminal status \<longleftrightarrow> status \<in> {RunCompleted, RunFailed, RunInterrupted, RunAborted}"

definition assistantRunStatusWaitsForInput :: "string \<Rightarrow> bool" where
  "assistantRunStatusWaitsForInput status \<longleftrightarrow> status = RunPendingPermission \<or> status = RunPendingInput"

definition assistantRunModeValid :: "string \<Rightarrow> bool" where
  "assistantRunModeValid mode \<longleftrightarrow> mode \<in> set run_modes"

definition assistantTurnStatusValid :: "string \<Rightarrow> bool" where
  "assistantTurnStatusValid status \<longleftrightarrow> status \<in> {TurnInProgress, TurnCompleted, TurnInterrupted, TurnFailed}"

definition assistantTurnStatusTerminal :: "string \<Rightarrow> bool" where
  "assistantTurnStatusTerminal status \<longleftrightarrow>
     status = TurnCompleted \<or> status = TurnInterrupted \<or> status = TurnFailed"

text \<open>Go's \<open>int\<close> limit, clamped to 1..500.\<close>

definition normalizeLimit :: "int \<Rightarrow> int" where
  "normalizeLimit limit = (if limit \<le> 0 then 50 else if limit > 500 then 500 else limit)"

lemma normalizeLimit_range: "1 \<le> normalizeLimit l \<and> normalizeLimit l \<le> 500"
  by (simp add: normalizeLimit_def)

subsection \<open>Preparing and validating messages and runs\<close>

definition prepareMessage :: "gotime \<Rightarrow> scope \<Rightarrow> message \<Rightarrow> message" where
  "prepareMessage now scope msg =
     (let created = or_now now (msg_CreatedAt msg);
          updated = (if msg_UpdatedAt msg = 0 then created else msg_UpdatedAt msg)
      in msg\<lparr>msg_CreatedAt := created, msg_UpdatedAt := updated,
             msg_ProjectName := sc_ProjectName scope, msg_ProjectUID := sc_ProjectUID scope,
             msg_Metadata := cloneMetadata (msg_Metadata msg)\<rparr>)"

text \<open>The error of the normalisation is dropped, and the mode is then the empty string.\<close>

definition prepareAssistantRun :: "gotime \<Rightarrow> scope \<Rightarrow> assistant_run \<Rightarrow> assistant_run" where
  "prepareAssistantRun now scope run =
     (let mode = (case NormalizeAssistantApprovalMode (run_ApprovalMode run) of Inl _ \<Rightarrow> [] | Inr m \<Rightarrow> m);
          created = or_now now (run_CreatedAt run);
          updated = (if run_UpdatedAt run = 0 then created else run_UpdatedAt run)
      in run\<lparr>run_ApprovalMode := mode, run_CreatedAt := created, run_UpdatedAt := updated,
             run_ProjectName := sc_ProjectName scope, run_ProjectUID := sc_ProjectUID scope,
             run_Checkpoint := cloneRawMessage (run_Checkpoint run),
             run_Audit := cloneRawMessage (run_Audit run),
             run_Error := cloneRawMessage (run_Error run)\<rparr>)"

definition validateAssistantRunMode :: "assistant_run \<Rightarrow> unit sres" where
  "validateAssistantRunMode run =
     guard_res (ErrMsg ''assistant run mode must be default, plan, or review'')
       (assistantRunModeValid (run_Mode run))"

definition validateAssistantRun :: "assistant_run \<Rightarrow> unit sres" where
  "validateAssistantRun run =
     (if run_ID run = [] \<or> run_Status run = [] then Inl (ErrMsg ''assistant run id and status are required'')
      else case NormalizeAssistantApprovalMode (run_ApprovalMode run) of
        Inl e \<Rightarrow> Inl e
      | Inr _ \<Rightarrow>
          if run_Status run \<notin> set run_statuses then Inl (ErrMsg ''invalid assistant run status'')
          else if length (run_Error run) > 0 \<and> \<not> json_valid (run_Error run)
          then Inl (ErrMsg ''assistant run error must be valid json'')
          else if run_AbortReason run \<noteq> [] \<and> run_AbortReason run \<notin> set abort_reasons
          then Inl (ErrMsg ''invalid assistant run abort reason'')
          else validateAssistantRunMode run)"

definition validateNewAssistantRun :: "message \<Rightarrow> message \<Rightarrow> assistant_run \<Rightarrow> unit sres" where
  "validateNewAssistantRun user assistant run =
     (case validateAssistantRun run of
        Inl e \<Rightarrow> Inl e
      | Inr _ \<Rightarrow>
          if msg_ID user = [] \<or> msg_ID assistant = [] \<or> msg_ID user = msg_ID assistant
          then Inl (ErrMsg ''distinct user and assistant message ids are required'')
          else if msg_Role user \<noteq> ''user'' \<or> blank (msg_ActorID user)
          then Inl (ErrMsg ''user message role and actor are required'')
          else if msg_Role assistant \<noteq> ''assistant''
          then Inl (ErrMsg ''assistant message role is required'')
          else if run_ClientRequestID run = [] \<or> run_ActiveMessageID run = [] \<or>
                  run_UserMessageID run \<noteq> msg_ID user \<or> run_ActiveMessageID run \<noteq> msg_ID assistant
          then Inl (ErrMsg ''assistant run message and client request ids must match its messages'')
          else if run_Revision run \<noteq> 1
          then Inl (ErrMsg ''new assistant run revision must be 1'')
          else Inr ())"

definition validateAssistantRunSnapshot :: "assistant_run \<Rightarrow> message list \<Rightarrow> int \<Rightarrow> unit sres" where
  "validateAssistantRunSnapshot run msgs expectedRevision =
     (case validateAssistantRun run of
        Inl e \<Rightarrow> Inl e
      | Inr _ \<Rightarrow>
          if expectedRevision < 1 \<or> run_Revision run \<noteq> i64 (expectedRevision + 1)
          then Inl ErrAssistantRunConflict
          else if \<exists>m \<in> set msgs. msg_ID m = []
          then Inl (ErrMsg ''snapshot message id is required'')
          else Inr ())"

subsection \<open>Preparing run events and conversation items\<close>

definition default_payload :: "string \<Rightarrow> string" where
  "default_payload p = (if length p = 0 then ''{}'' else p)"

definition prepareAssistantRunEvent :: "gotime \<Rightarrow> scope \<Rightarrow> run_event \<Rightarrow> int \<Rightarrow> run_event sres" where
  "prepareAssistantRunEvent now scope event expectedSequence =
     (case scope_validate scope of Inl e \<Rightarrow> Inl e | Inr _ \<Rightarrow>
      (let ev = event\<lparr>rev_RunID := trim_space (rev_RunID event), rev_Type := trim_space (rev_Type event),
                 rev_CallID := trim_space (rev_CallID event), rev_ToolName := trim_space (rev_ToolName event),
                 rev_ArgsDigest := trim_space (rev_ArgsDigest event)\<rparr>;
           nextSequence = i64 (expectedSequence + 1);
           payload = default_payload (rev_Payload ev)
       in if rev_RunID ev = [] \<or> rev_Type ev = []
          then Inl (ErrMsg ''assistant run event run id and type are required'')
          else if expectedSequence < 0 \<or> expectedSequence = max_i64 then Inl ErrAssistantRunEventConflict
          else if rev_Sequence ev \<noteq> 0 \<and> rev_Sequence ev \<noteq> nextSequence then Inl ErrAssistantRunEventConflict
          else if \<not> json_valid payload then Inl (ErrMsg ''assistant run event payload is not valid json'')
          else Inr (ev\<lparr>rev_Sequence := nextSequence, rev_Payload := cloneRawMessage payload,
                  rev_CreatedAt := or_now now (rev_CreatedAt ev),
                  rev_ProjectName := sc_ProjectName scope, rev_ProjectUID := sc_ProjectUID scope\<rparr>)))"

definition validateAssistantRunEventList :: "scope \<Rightarrow> string \<Rightarrow> int \<Rightarrow> string sres" where
  "validateAssistantRunEventList scope runID afterSequence =
     (case scope_validate scope of Inl e \<Rightarrow> Inl e | Inr _ \<Rightarrow>
      (let rid = trim_space runID in
       if rid = [] then Inl (ErrMsg ''assistant run event run id is required'')
       else if afterSequence < 0 then Inl ErrAssistantRunEventConflict
       else Inr rid))"

definition prepareAssistantConversationItem ::
  "gotime \<Rightarrow> scope \<Rightarrow> conversation_item \<Rightarrow> conversation_item sres" where
  "prepareAssistantConversationItem now scope item =
     (case scope_validate scope of Inl e \<Rightarrow> Inl e | Inr _ \<Rightarrow>
      (let it = item\<lparr>itm_ID := trim_space (itm_ID item), itm_RunID := trim_space (itm_RunID item),
                 itm_Type := trim_space (itm_Type item)\<rparr>;
           payload = default_payload (itm_Payload it)
       in if itm_ID it = [] \<or> itm_RunID it = [] \<or> itm_Type it = []
          then Inl (ErrMsg ''assistant conversation item id, run id, and type are required'')
          else if \<not> json_valid payload
          then Inl (ErrMsg ''assistant conversation item payload must be valid json'')
          else Inr (it\<lparr>itm_ProjectName := sc_ProjectName scope, itm_ProjectUID := sc_ProjectUID scope,
                  itm_Payload := payload, itm_CreatedAt := or_now now (itm_CreatedAt it)\<rparr>)))"

text \<open>Two payloads are equal when both decode and their canonical encodings agree, that is, when
  they denote the same value.\<close>

definition assistantConversationPayloadEqual :: "string \<Rightarrow> string \<Rightarrow> bool" where
  "assistantConversationPayloadEqual left right =
     (case (json_value left, json_value right) of
        (Some l, Some r) \<Rightarrow> l = r | _ \<Rightarrow> False)"

definition assistantConversationItemsMatch :: "conversation_item \<Rightarrow> conversation_item \<Rightarrow> bool" where
  "assistantConversationItemsMatch existing candidate \<longleftrightarrow>
     trim_space (itm_RunID existing) = trim_space (itm_RunID candidate) \<and>
     trim_space (itm_Type existing) = trim_space (itm_Type candidate) \<and>
     assistantConversationPayloadEqual (itm_Payload existing) (itm_Payload candidate)"

subsection \<open>Preparing threads, turns and thread events\<close>

definition prepareAssistantThread :: "gotime \<Rightarrow> assistant_thread \<Rightarrow> assistant_thread sres" where
  "prepareAssistantThread now thread =
     (let th = thread\<lparr>thr_ID := trim_space (thr_ID thread), thr_Title := trim_space (thr_Title thread),
                 thr_ActorID := trim_space (thr_ActorID thread)\<rparr>;
          status = (if thr_Status th = [] then ThreadIdle else thr_Status th);
          created = or_now now (thr_CreatedAt th);
          updated = (if thr_UpdatedAt th = 0 then created else thr_UpdatedAt th)
      in if thr_ID th = [] \<or> thr_ActorID th = []
         then Inl (ErrMsg ''assistant thread id and actor are required'')
         else if status \<notin> set thread_statuses then Inl (ErrMsg ''invalid assistant thread status'')
         else Inr (th\<lparr>thr_Status := status, thr_CreatedAt := created, thr_UpdatedAt := updated\<rparr>))"

definition prepareAssistantTurn :: "gotime \<Rightarrow> assistant_turn \<Rightarrow> assistant_turn sres" where
  "prepareAssistantTurn now turn =
     (let tn = turn\<lparr>trn_ID := trim_space (trn_ID turn), trn_ThreadID := trim_space (trn_ThreadID turn),
                 trn_ActorID := trim_space (trn_ActorID turn),
                 trn_ClientUserMessageID := trim_space (trn_ClientUserMessageID turn)\<rparr>;
          mode = (if trn_Mode tn = [] then ''default'' else trn_Mode tn);
          status = (if trn_Status tn = [] then TurnInProgress else trn_Status tn);
          created = or_now now (trn_CreatedAt tn);
          updated = (if trn_UpdatedAt tn = 0 then created else trn_UpdatedAt tn);
          checkpoint = default_payload (trn_Checkpoint tn);
          err = default_payload (trn_Error tn)
      in if trn_ID tn = [] \<or> trn_ThreadID tn = [] \<or> trn_ActorID tn = [] \<or> trn_ClientUserMessageID tn = []
         then Inl (ErrMsg ''assistant turn id, thread id, actor, and client user message id are required'')
         else if \<not> assistantRunModeValid mode then Inl (ErrMsg ''invalid assistant turn mode'')
         else case NormalizeAssistantApprovalMode (trn_ApprovalMode tn) of
           Inl e \<Rightarrow> Inl e
         | Inr approval \<Rightarrow>
             if \<not> assistantTurnStatusValid status then Inl (ErrMsg ''invalid assistant turn status'')
             else if \<not> json_valid checkpoint \<or> \<not> json_valid err
             then Inl (ErrMsg ''assistant turn checkpoint and error must be valid json'')
             else Inr (tn\<lparr>trn_Mode := mode, trn_ApprovalMode := approval, trn_Status := status,
                     trn_CreatedAt := created, trn_UpdatedAt := updated,
                     trn_Checkpoint := checkpoint, trn_Error := err\<rparr>))"

definition prepareAssistantThreadEvent :: "gotime \<Rightarrow> thread_event \<Rightarrow> thread_event sres" where
  "prepareAssistantThreadEvent now event =
     (let ev = event\<lparr>tev_ThreadID := trim_space (tev_ThreadID event), tev_TurnID := trim_space (tev_TurnID event),
                 tev_Type := trim_space (tev_Type event), tev_ItemID := trim_space (tev_ItemID event),
                 tev_RequestID := trim_space (tev_RequestID event)\<rparr>;
          payload = default_payload (tev_Payload ev)
      in if tev_ThreadID ev = [] \<or> tev_Type ev = []
         then Inl (ErrMsg ''assistant thread event thread id and type are required'')
         else if \<not> json_valid payload then Inl (ErrMsg ''assistant thread event payload must be valid json'')
         else Inr (ev\<lparr>tev_Payload := payload, tev_CreatedAt := or_now now (tev_CreatedAt ev)\<rparr>))"

subsection \<open>What the preparations establish\<close>

lemma normalize_approval_in: "NormalizeAssistantApprovalMode m = Inr a \<Longrightarrow> a \<in> set approval_modes"
  by (auto simp: NormalizeAssistantApprovalMode_def Let_def approval_modes_def split: if_splits)

lemma normalize_approval_fixed:
  "a \<in> set approval_modes \<Longrightarrow> NormalizeAssistantApprovalMode a = Inr a"
proof -
  have "\<forall>a \<in> set approval_modes. NormalizeAssistantApprovalMode a = Inr a" by code_simp
  then show "a \<in> set approval_modes \<Longrightarrow> NormalizeAssistantApprovalMode a = Inr a" by blast
qed

lemma default_payload_valid: "json_valid (default_payload p) \<Longrightarrow> default_payload p \<noteq> []"
  by (auto simp: default_payload_def)

lemma prepareMessage_simps [simp]:
  "msg_ID (prepareMessage now sc m) = msg_ID m"
  "msg_ActorID (prepareMessage now sc m) = msg_ActorID m"
  "msg_Role (prepareMessage now sc m) = msg_Role m"
  "msg_Content (prepareMessage now sc m) = msg_Content m"
  "msg_ProjectName (prepareMessage now sc m) = sc_ProjectName sc"
  "msg_ProjectUID (prepareMessage now sc m) = sc_ProjectUID sc"
  by (simp_all add: prepareMessage_def Let_def)

lemma prepareAssistantRun_simps [simp]:
  "run_ID (prepareAssistantRun now sc r) = run_ID r"
  "run_Mode (prepareAssistantRun now sc r) = run_Mode r"
  "run_Status (prepareAssistantRun now sc r) = run_Status r"
  "run_ClientRequestID (prepareAssistantRun now sc r) = run_ClientRequestID r"
  "run_UserMessageID (prepareAssistantRun now sc r) = run_UserMessageID r"
  "run_ActiveMessageID (prepareAssistantRun now sc r) = run_ActiveMessageID r"
  "run_Revision (prepareAssistantRun now sc r) = run_Revision r"
  "run_RequestID (prepareAssistantRun now sc r) = run_RequestID r"
  "run_Error (prepareAssistantRun now sc r) = run_Error r"
  "run_AbortReason (prepareAssistantRun now sc r) = run_AbortReason r"
  by (simp_all add: prepareAssistantRun_def Let_def)

lemma validateAssistantRunD:
  assumes "validateAssistantRun r = Inr u"
  shows "run_ID r \<noteq> []" "run_Status r \<in> set run_statuses" "assistantRunModeValid (run_Mode r)"
    "run_ApprovalMode (prepareAssistantRun now sc r) \<in> set approval_modes"
    "run_Error r = [] \<or> json_valid (run_Error r)"
  using assms
  by (auto simp: validateAssistantRun_def validateAssistantRunMode_def prepareAssistantRun_def Let_def
      dest: normalize_approval_in split: sum.splits if_splits)

lemma prepareAssistantThreadD:
  assumes "prepareAssistantThread now t = Inr p"
  shows "thr_ID p = trim_space (thr_ID t)" "thr_ID p \<noteq> []" "thr_ActorID p \<noteq> []"
    "thr_Status p \<in> set thread_statuses" "trim_space (thr_ID p) = thr_ID p"
    "trim_space (thr_ActorID p) = thr_ActorID p"
  using assms by (auto simp: prepareAssistantThread_def Let_def split: if_splits)

lemma prepareAssistantTurnD:
  assumes "prepareAssistantTurn now t = Inr p"
  shows "trn_ID p = trim_space (trn_ID t)" "trn_ThreadID p = trim_space (trn_ThreadID t)"
    "trn_ID p \<noteq> []" "trn_ThreadID p \<noteq> []" "trn_ActorID p \<noteq> []" "trn_ClientUserMessageID p \<noteq> []"
    "assistantRunModeValid (trn_Mode p)" "assistantTurnStatusValid (trn_Status p)"
    "trn_ApprovalMode p \<in> set approval_modes"
    "json_valid (trn_Checkpoint p)" "json_valid (trn_Error p)"
  using assms
  by (auto simp: prepareAssistantTurn_def Let_def dest: normalize_approval_in split: if_splits sum.splits)

lemma prepareAssistantThreadEventD:
  assumes "prepareAssistantThreadEvent now e = Inr p"
  shows "tev_ThreadID p = trim_space (tev_ThreadID e)" "tev_ThreadID p \<noteq> []" "tev_Type p \<noteq> []"
    "tev_TurnID p = trim_space (tev_TurnID e)" "json_valid (tev_Payload p)"
  using assms by (auto simp: prepareAssistantThreadEvent_def Let_def split: if_splits)

lemma prepareAssistantRunEventD:
  assumes "prepareAssistantRunEvent now sc e n = Inr p"
  shows "rev_RunID p = trim_space (rev_RunID e)" "rev_RunID p \<noteq> []" "rev_Sequence p = i64 (n + 1)"
    "json_valid (rev_Payload p)" "0 \<le> n" "n \<noteq> max_i64"
  using assms
  by (auto simp: prepareAssistantRunEvent_def Let_def split: if_splits sum.splits)

lemma prepareAssistantConversationItemD:
  assumes "prepareAssistantConversationItem now sc e = Inr p"
  shows "itm_ID p = trim_space (itm_ID e)" "itm_RunID p = trim_space (itm_RunID e)" "itm_ID p \<noteq> []"
    "itm_RunID p \<noteq> []" "itm_Type p \<noteq> []" "json_valid (itm_Payload p)" "trim_space (itm_RunID p) = itm_RunID p"
  using assms by (auto simp: prepareAssistantConversationItem_def Let_def split: if_splits sum.splits)

subsection \<open>Sample records\<close>

text \<open>A project, the two messages of a turn and its run, for the concrete instances.\<close>

definition ex_scope :: scope where
  "ex_scope = \<lparr>sc_OrgUUID = ''o'', sc_WorkspaceUUID = ''w'', sc_ProjectName = ''p'', sc_ProjectUID = ''u''\<rparr>"

definition ex_message :: "string \<Rightarrow> string \<Rightarrow> string \<Rightarrow> gotime \<Rightarrow> message" where
  "ex_message mid role actor t = \<lparr>msg_ID = mid, msg_ProjectName = [], msg_ProjectUID = [],
     msg_ActorID = actor, msg_Role = role, msg_Content = ''hi'', msg_ContentEncrypted = False,
     msg_ContentKeyID = [], msg_Metadata = [], msg_CreatedAt = t, msg_UpdatedAt = 0\<rparr>"

definition ex_run :: "string \<Rightarrow> string \<Rightarrow> string \<Rightarrow> int \<Rightarrow> assistant_run" where
  "ex_run rid status cid rv = \<lparr>run_ID = rid, run_ProjectName = [], run_ProjectUID = [],
     run_Mode = ''default'', run_ApprovalMode = [], run_Status = status, run_ClientRequestID = cid,
     run_UserMessageID = ''m1'', run_ActiveMessageID = ''m2'', run_Revision = rv, run_RequestID = ''q'',
     run_Checkpoint = [], run_Audit = [], run_Error = [], run_AbortReason = [],
     run_CreatedAt = 5, run_UpdatedAt = 0\<rparr>"

definition ex_thread :: "string \<Rightarrow> gotime \<Rightarrow> assistant_thread" where
  "ex_thread tid t = \<lparr>thr_ID = tid, thr_Title = [], thr_Status = [], thr_ActorID = ''a'',
     thr_CreatedAt = t, thr_UpdatedAt = t\<rparr>"

definition ex_turn :: "string \<Rightarrow> string \<Rightarrow> string \<Rightarrow> assistant_turn" where
  "ex_turn tid cid status = \<lparr>trn_ID = tid, trn_ThreadID = ''t'', trn_ActorID = ''a'',
     trn_ClientUserMessageID = cid, trn_Mode = [], trn_ApprovalMode = [], trn_Status = status,
     trn_Checkpoint = [], trn_Error = [], trn_CreatedAt = 7, trn_UpdatedAt = 7\<rparr>"

definition ex_thread_event :: "string \<Rightarrow> thread_event" where
  "ex_thread_event ty = \<lparr>tev_ThreadID = ''t'', tev_TurnID = [], tev_Sequence = 0, tev_Type = ty,
     tev_ItemID = [], tev_RequestID = [], tev_Payload = [], tev_CreatedAt = 9\<rparr>"

definition ex_run_event :: "string \<Rightarrow> string \<Rightarrow> run_event" where
  "ex_run_event rid ty = \<lparr>rev_RunID = rid, rev_ProjectName = [], rev_ProjectUID = [], rev_Sequence = 0,
     rev_Type = ty, rev_CallID = [], rev_ToolName = [], rev_ArgsDigest = [], rev_Payload = [],
     rev_CreatedAt = 9\<rparr>"

definition ex_item :: "string \<Rightarrow> string \<Rightarrow> string \<Rightarrow> conversation_item" where
  "ex_item iid rid payload = \<lparr>itm_ID = iid, itm_RunID = rid, itm_ProjectName = [], itm_ProjectUID = [],
     itm_Sequence = 0, itm_Type = ''text'', itm_Payload = payload, itm_CreatedAt = 9\<rparr>"

lemma ex_run_simps [simp]:
  "run_ID (ex_run i st c v) = i" "run_Status (ex_run i st c v) = st"
  "run_ClientRequestID (ex_run i st c v) = c" "run_Revision (ex_run i st c v) = v"
  by (simp_all add: ex_run_def)

lemma ex_scope_valid [simp]: "scope_validate ex_scope = Inr ()"
  by code_simp

end
