(* ===== verification/AppStore_Runs.thy ===== *)
theory AppStore_Runs
  imports AppStore_Types
begin

section \<open>App Studio store: assistant runs\<close>

text \<open>
  The run operations of \<open>providers/app-studio/store/memory.go\<close>. Every method takes the store's lock
  for its whole body, so an operation is one atomic step from a store to a result and a store.
  \<open>runs_ok\<close> is what the operations keep true of the runs of one project: each run is stored under
  its own ID and well formed, at most one run is not terminal, and no two runs carry the same
  client request ID.
\<close>

subsection \<open>The operations\<close>

fun validateUniqueAssistantRun :: "(string, assistant_run) gomap \<Rightarrow> assistant_run \<Rightarrow> unit sres" where
  "validateUniqueAssistantRun [] run = Inr ()"
| "validateUniqueAssistantRun ((rid, existing) # runs) run =
     (if rid \<noteq> run_ID run \<and> run_ClientRequestID run \<noteq> [] \<and>
         run_ClientRequestID existing = run_ClientRequestID run
      then Inl ErrAssistantRunConflict
      else if rid \<noteq> run_ID run \<and> \<not> assistantRunStatusTerminal (run_Status run) \<and>
         \<not> assistantRunStatusTerminal (run_Status existing)
      then Inl ErrAssistantRunConflict
      else validateUniqueAssistantRun runs run)"

definition store_run :: "scope \<Rightarrow> assistant_run \<Rightarrow> memory_store \<Rightarrow> memory_store" where
  "store_run scope run s = s\<lparr>assistantRuns := put2 scope (run_ID run) run (assistantRuns s)\<rparr>"

definition SaveAssistantRun ::
  "gotime \<Rightarrow> scope \<Rightarrow> assistant_run \<Rightarrow> memory_store \<Rightarrow> unit sres \<times> memory_store" where
  "SaveAssistantRun now scope run0 s =
     (case scope_validate scope of Inl e \<Rightarrow> (Inl e, s) | Inr _ \<Rightarrow>
      case validateAssistantRun run0 of Inl e \<Rightarrow> (Inl e, s) | Inr _ \<Rightarrow>
      (let run = prepareAssistantRun now scope run0;
           s1 = s\<lparr>assistantRuns := ensure_inner scope (assistantRuns s)\<rparr>;
           runs = inner (assistantRuns s1) scope;
           finish = (\<lambda>r. case validateUniqueAssistantRun runs r of
               Inl e \<Rightarrow> (Inl e, s1) | Inr _ \<Rightarrow> (Inr (), store_run scope r s1))
       in case map_of runs (run_ID run) of
            None \<Rightarrow> finish run
          | Some existing \<Rightarrow>
              if run_Mode run \<noteq> run_Mode existing \<or> run_ApprovalMode run \<noteq> run_ApprovalMode existing
              then (Inl ErrAssistantRunConflict, s1)
              else finish (run\<lparr>run_CreatedAt := run_CreatedAt existing,
                     run_ClientRequestID := run_ClientRequestID existing,
                     run_UserMessageID := run_UserMessageID existing,
                     run_Revision := run_Revision existing\<rparr>)))"

fun find_client_request :: "string \<Rightarrow> (string, assistant_run) gomap \<Rightarrow> assistant_run option" where
  "find_client_request cid [] = None"
| "find_client_request cid ((_, run) # runs) =
     (if run_ClientRequestID run = cid then Some run else find_client_request cid runs)"

definition CreateAssistantRun ::
  "gotime \<Rightarrow> scope \<Rightarrow> message \<Rightarrow> message \<Rightarrow> assistant_run \<Rightarrow> memory_store \<Rightarrow>
   assistant_run sres \<times> memory_store" where
  "CreateAssistantRun now scope user0 assistant0 run0 s =
     (case scope_validate scope of Inl e \<Rightarrow> (Inl e, s) | Inr _ \<Rightarrow>
      case validateNewAssistantRun user0 assistant0 run0 of Inl e \<Rightarrow> (Inl e, s) | Inr _ \<Rightarrow>
      (let user = prepareMessage now scope user0; assistant = prepareMessage now scope assistant0;
           run = prepareAssistantRun now scope run0;
           runs = inner (assistantRuns s) scope
       in case map_of runs (run_ID run) of
            Some existing \<Rightarrow>
              if run_ClientRequestID existing \<noteq> run_ClientRequestID run
              then (Inl ErrAssistantRunConflict, s) else (Inr existing, s)
          | None \<Rightarrow>
              (case find_client_request (run_ClientRequestID run) runs of
                 Some existing \<Rightarrow> (Inr existing, s)
               | None \<Rightarrow>
                   (case validateUniqueAssistantRun runs run of
                      Inl e \<Rightarrow> (Inl e, s)
                    | Inr _ \<Rightarrow>
                        (Inr run, store_run scope run
                           (s\<lparr>messages := put2 scope (msg_ID assistant) assistant
                              (put2 scope (msg_ID user) user (messages s))\<rparr>))))))"

definition requestAssistantRunStop ::
  "gotime \<Rightarrow> scope \<Rightarrow> string \<Rightarrow> int \<Rightarrow> message \<Rightarrow> gotime \<Rightarrow> memory_store \<Rightarrow>
   assistant_run sres \<times> memory_store" where
  "requestAssistantRunStop clock scope runID expectedRunRevision assistant0 now0 s =
     (case scope_validate scope of Inl e \<Rightarrow> (Inl e, s) | Inr _ \<Rightarrow>
      if runID = [] \<or> expectedRunRevision < 1
      then (Inl (ErrMsg ''assistant run and revision are required''), s)
      else
        (let now = or_now clock now0 in
         case map_of (inner (assistantRuns s) scope) runID of
           None \<Rightarrow> (Inl ErrAssistantRunConflict, s)
         | Some run0 \<Rightarrow>
             if run_Revision run0 \<noteq> expectedRunRevision \<or> run_Status run0 \<noteq> RunRunning
             then (Inl ErrAssistantRunConflict, s)
             else
               (let run = run0\<lparr>run_Status := RunStopping, run_Revision := i64 (run_Revision run0 + 1),
                              run_UpdatedAt := now\<rparr>;
                    done = (\<lambda>s'. (Inr run, s'\<lparr>assistantRuns := put2 scope runID run (assistantRuns s')\<rparr>))
                in if msg_ID assistant0 = [] then done s
                   else if msg_Role assistant0 \<noteq> ''assistant'' \<or> msg_ID assistant0 \<noteq> run_ActiveMessageID run
                   then (Inl (ErrMsg ''assistant lifecycle message must be the active run message''), s)
                   else
                     (let assistant = prepareMessage clock scope assistant0 in
                      if (case map_of (inner (messages s) scope) (msg_ID assistant) of
                            Some existing \<Rightarrow> msg_ActorID existing \<noteq> msg_ActorID assistant
                          | None \<Rightarrow> False)
                      then (Inl (ErrMsg ''message actor is immutable''), s)
                      else if map_of (messages s) scope = None then (Inl PanicNilMap, s)
                      else done (s\<lparr>messages := put2 scope (msg_ID assistant) assistant (messages s)\<rparr>)))))"

definition RequestAssistantRunStopWithAssistantMessage ::
  "gotime \<Rightarrow> scope \<Rightarrow> string \<Rightarrow> int \<Rightarrow> message \<Rightarrow> gotime \<Rightarrow> memory_store \<Rightarrow>
   assistant_run sres \<times> memory_store" where
  "RequestAssistantRunStopWithAssistantMessage clock scope runID expectedRunRevision assistant now s =
     requestAssistantRunStop clock scope runID expectedRunRevision assistant now s"

text \<open>The loop of a snapshot over its messages: the messages before the one that is refused are
  already written when it returns.\<close>

fun save_messages :: "message list \<Rightarrow> (string, message) gomap \<Rightarrow> unit sres \<times> (string, message) gomap" where
  "save_messages [] ms = (Inr (), ms)"
| "save_messages (m # rest) ms =
     (if (case map_of ms (msg_ID m) of
            Some existing \<Rightarrow> msg_ActorID existing \<noteq> msg_ActorID m | None \<Rightarrow> False)
      then (Inl (ErrMsg ''message actor is immutable''), ms)
      else save_messages rest (mput (msg_ID m) m ms))"

definition SaveAssistantRunSnapshot ::
  "gotime \<Rightarrow> scope \<Rightarrow> assistant_run \<Rightarrow> message list \<Rightarrow> int \<Rightarrow> memory_store \<Rightarrow> unit sres \<times> memory_store" where
  "SaveAssistantRunSnapshot now scope run0 msgs expectedRevision s =
     (case scope_validate scope of Inl e \<Rightarrow> (Inl e, s) | Inr _ \<Rightarrow>
      case validateAssistantRunSnapshot run0 msgs expectedRevision of Inl e \<Rightarrow> (Inl e, s) | Inr _ \<Rightarrow>
      (let run = prepareAssistantRun now scope run0;
           prepared = map (prepareMessage now scope) msgs;
           runs = inner (assistantRuns s) scope
       in case map_of runs (run_ID run) of
            None \<Rightarrow> (Inl ErrAssistantRunConflict, s)
          | Some current \<Rightarrow>
              if run_Revision current \<noteq> expectedRevision then (Inl ErrAssistantRunConflict, s)
              else if run_Mode run \<noteq> run_Mode current \<or> run_ApprovalMode run \<noteq> run_ApprovalMode current
              then (Inl ErrAssistantRunConflict, s)
              else
                (let run' = run\<lparr>run_CreatedAt := run_CreatedAt current,
                       run_ClientRequestID := run_ClientRequestID current,
                       run_UserMessageID := run_UserMessageID current\<rparr>
                 in case validateUniqueAssistantRun runs run' of
                      Inl e \<Rightarrow> (Inl e, s)
                    | Inr _ \<Rightarrow>
                        (case save_messages prepared (inner (messages s) scope) of
                           (r, ms) \<Rightarrow>
                             (let s1 = s\<lparr>messages := mput scope ms (messages s)\<rparr> in
                              case r of Inl e \<Rightarrow> (Inl e, s1)
                                      | Inr _ \<Rightarrow> (Inr (), store_run scope run' s1))))))"

definition ClaimAssistantRun ::
  "gotime \<Rightarrow> scope \<Rightarrow> string \<Rightarrow> string \<Rightarrow> gotime \<Rightarrow> memory_store \<Rightarrow> assistant_run sres \<times> memory_store" where
  "ClaimAssistantRun clock scope rid requestID now0 s =
     (case scope_validate scope of Inl e \<Rightarrow> (Inl e, s) | Inr _ \<Rightarrow>
      if rid = [] \<or> requestID = []
      then (Inl (ErrMsg ''assistant run id and request id are required''), s)
      else
        (case map_of (inner (assistantRuns s) scope) rid of
           None \<Rightarrow> (Inl ErrAssistantRunNotFound, s)
         | Some run0 \<Rightarrow>
             if \<not> assistantRunStatusWaitsForInput (run_Status run0) \<or> run_RequestID run0 \<noteq> requestID
             then (Inl (ErrMsg ''assistant run is not waiting for this request''), s)
             else
               (let run = run0\<lparr>run_Status := RunRunning, run_UpdatedAt := or_now clock now0\<rparr>
                in (Inr run, s\<lparr>assistantRuns := put2 scope rid run (assistantRuns s)\<rparr>))))"

definition GetAssistantRun :: "scope \<Rightarrow> string \<Rightarrow> memory_store \<Rightarrow> assistant_run sres" where
  "GetAssistantRun scope rid s =
     (case scope_validate scope of Inl e \<Rightarrow> Inl e | Inr _ \<Rightarrow>
      if rid = [] then Inl (ErrMsg ''assistant run id is required'')
      else (case map_of (inner (assistantRuns s) scope) rid of
              None \<Rightarrow> Inl ErrAssistantRunNotFound | Some run \<Rightarrow> Inr run))"

definition FindAssistantRunByClientRequestID :: "scope \<Rightarrow> string \<Rightarrow> memory_store \<Rightarrow> assistant_run sres" where
  "FindAssistantRunByClientRequestID scope cid s =
     (case scope_validate scope of Inl e \<Rightarrow> Inl e | Inr _ \<Rightarrow>
      if cid = [] then Inl (ErrMsg ''assistant run client request id is required'')
      else (case find_client_request cid (inner (assistantRuns s) scope) of
              None \<Rightarrow> Inl ErrAssistantRunNotFound | Some run \<Rightarrow> Inr run))"

fun latest_run :: "(string, assistant_run) gomap \<Rightarrow> assistant_run option \<Rightarrow> assistant_run option" where
  "latest_run [] best = best"
| "latest_run ((_, run) # runs) best =
     (case best of
        None \<Rightarrow> latest_run runs (Some run)
      | Some latest \<Rightarrow>
          if run_UpdatedAt run > run_UpdatedAt latest \<or>
             (run_UpdatedAt run = run_UpdatedAt latest \<and> run_ID run > run_ID latest)
          then latest_run runs (Some run) else latest_run runs best)"

definition LatestAssistantRun :: "scope \<Rightarrow> memory_store \<Rightarrow> assistant_run sres" where
  "LatestAssistantRun scope s =
     (case scope_validate scope of Inl e \<Rightarrow> Inl e | Inr _ \<Rightarrow>
      (case latest_run (inner (assistantRuns s) scope) None of
         None \<Rightarrow> Inl ErrAssistantRunNotFound | Some run \<Rightarrow> Inr run))"

subsection \<open>What is kept true of the runs of one project\<close>

definition run_active :: "assistant_run \<Rightarrow> bool" where
  "run_active r \<longleftrightarrow> \<not> assistantRunStatusTerminal (run_Status r)"

definition run_wf :: "string \<Rightarrow> assistant_run \<Rightarrow> bool" where
  "run_wf i r \<longleftrightarrow> run_ID r = i \<and> i \<noteq> [] \<and> run_Status r \<in> set run_statuses \<and>
     assistantRunModeValid (run_Mode r) \<and> run_ApprovalMode r \<in> set approval_modes \<and>
     (run_Error r = [] \<or> json_valid (run_Error r))"

definition run_compatible :: "assistant_run \<Rightarrow> assistant_run \<Rightarrow> bool" where
  "run_compatible r q \<longleftrightarrow> \<not> (run_active r \<and> run_active q) \<and>
     (run_ClientRequestID q = run_ClientRequestID r \<longrightarrow> run_ClientRequestID r = [])"

definition runs_ok :: "(string, assistant_run) gomap \<Rightarrow> bool" where
  "runs_ok m \<longleftrightarrow> wf_map m \<and> (\<forall>(i, r) \<in> set m. run_wf i r) \<and>
     (\<forall>(i, r) \<in> set m. \<forall>(j, q) \<in> set m. i \<noteq> j \<longrightarrow> run_compatible r q)"

lemma run_compatible_sym: "run_compatible r q \<Longrightarrow> run_compatible q r"
  by (auto simp: run_compatible_def)

lemma validateUnique_iff:
  "validateUniqueAssistantRun m run = Inr u \<longleftrightarrow>
     (\<forall>(i, q) \<in> set m. i \<noteq> run_ID run \<longrightarrow> run_compatible run q)"
  by (induction m run rule: validateUniqueAssistantRun.induct)
    (auto simp: run_compatible_def run_active_def)

lemma runs_ok_Nil [simp]: "runs_ok []"
  by (simp add: runs_ok_def)

lemma runs_ok_mput:
  assumes "runs_ok m" "run_wf i r" "\<And>j q. (j, q) \<in> set m \<Longrightarrow> j \<noteq> i \<Longrightarrow> run_compatible r q"
  shows "runs_ok (mput i r m)"
  using assms unfolding runs_ok_def
  by (auto simp: set_mput intro: run_compatible_sym)

lemma runs_ok_insert:
  "runs_ok m \<Longrightarrow> run_wf (run_ID r) r \<Longrightarrow> validateUniqueAssistantRun m r = Inr u \<Longrightarrow>
   runs_ok (mput (run_ID r) r m)"
  by (rule runs_ok_mput) (auto simp: validateUnique_iff)

lemma runs_ok_get: "runs_ok m \<Longrightarrow> map_of m i = Some r \<Longrightarrow> run_wf i r"
  by (auto simp: runs_ok_def dest: map_of_SomeD)

lemma runs_ok_update:
  assumes "runs_ok m" "map_of m i = Some r" "run_wf i r'"
    "run_ClientRequestID r' = run_ClientRequestID r" "run_active r' \<Longrightarrow> run_active r"
  shows "runs_ok (mput i r' m)"
proof (rule runs_ok_mput)
  fix j q assume "(j, q) \<in> set m" "j \<noteq> i"
  moreover have "(i, r) \<in> set m" using assms(2) by (rule map_of_SomeD)
  ultimately have "run_compatible r q" using assms(1) by (auto simp: runs_ok_def)
  then show "run_compatible r' q" using assms(4,5) by (auto simp: run_compatible_def)
qed (use assms in auto)

lemma runs_ok_filter: "runs_ok m \<Longrightarrow> runs_ok (filter P m)"
  by (auto simp: runs_ok_def wf_map_def distinct_map_filter)

lemma runs_ok_mdel: "runs_ok m \<Longrightarrow> runs_ok (mdel i m)"
  by (simp add: mdel_def runs_ok_filter)

lemma find_client_request_SomeD:
  "find_client_request c m = Some r \<Longrightarrow> \<exists>i. (i, r) \<in> set m \<and> run_ClientRequestID r = c"
  by (induction c m rule: find_client_request.induct) (auto split: if_splits)

lemma find_client_request_None_iff:
  "find_client_request c m = None \<longleftrightarrow> (\<forall>(i, r) \<in> set m. run_ClientRequestID r \<noteq> c)"
  by (induction c m rule: find_client_request.induct) auto

text \<open>Under the invariant a client request ID names one run, whatever order the map is visited in.\<close>

lemma find_client_request_iff:
  assumes "runs_ok m" "c \<noteq> []"
  shows "find_client_request c m = Some r \<longleftrightarrow> (\<exists>i. (i, r) \<in> set m \<and> run_ClientRequestID r = c)"
proof
  assume "\<exists>i. (i, r) \<in> set m \<and> run_ClientRequestID r = c"
  then obtain i where i: "(i, r) \<in> set m" "run_ClientRequestID r = c" by blast
  then obtain q where q: "find_client_request c m = Some q"
    using find_client_request_None_iff [of c m] by (cases "find_client_request c m") auto
  then obtain j where j: "(j, q) \<in> set m" "run_ClientRequestID q = c"
    using find_client_request_SomeD by blast
  have "i = j" using assms i j by (fastforce simp: runs_ok_def run_compatible_def)
  then have "r = q" using assms(1) i(1) j(1) by (auto simp: runs_ok_def wf_map_in_iff)
  with q show "find_client_request c m = Some r" by simp
qed (rule find_client_request_SomeD)

subsection \<open>Every operation keeps it\<close>

text \<open>
  The effect a run operation may have on the runs of one project: none, or one well-formed run
  written under its ID, compatible with the others and, where it replaces a run, bound to the
  contract of the run it replaces.
\<close>

definition same_contract :: "assistant_run \<Rightarrow> assistant_run \<Rightarrow> bool" where
  "same_contract old r \<longleftrightarrow>
     run_Mode r = run_Mode old \<and> run_ApprovalMode r = run_ApprovalMode old \<and>
     run_CreatedAt r = run_CreatedAt old \<and> run_ClientRequestID r = run_ClientRequestID old \<and>
     run_UserMessageID r = run_UserMessageID old \<and>
     run_Revision r \<in> {run_Revision old, i64 (run_Revision old + 1)}"

definition run_written :: "(string, assistant_run) gomap \<Rightarrow> assistant_run \<Rightarrow> bool" where
  "run_written m r \<longleftrightarrow> run_wf (run_ID r) r \<and>
     (\<forall>(j, q) \<in> set m. j \<noteq> run_ID r \<longrightarrow> run_compatible r q) \<and>
     (\<forall>old. map_of m (run_ID r) = Some old \<longrightarrow> same_contract old r)"

definition runs_change :: "scope \<Rightarrow> memory_store \<Rightarrow> memory_store \<Rightarrow> bool" where
  "runs_change sc s s' \<longleftrightarrow>
     (\<forall>sc'. sc' \<noteq> sc \<longrightarrow> inner (assistantRuns s') sc' = inner (assistantRuns s) sc') \<and>
     (inner (assistantRuns s') sc = inner (assistantRuns s) sc \<or>
      (\<exists>r. run_written (inner (assistantRuns s) sc) r \<and>
           inner (assistantRuns s') sc = mput (run_ID r) r (inner (assistantRuns s) sc)))"

abbreviation project_runs :: "memory_store \<Rightarrow> scope \<Rightarrow> (string, assistant_run) gomap" where
  "project_runs s sc \<equiv> inner (assistantRuns s) sc"

definition all_runs_ok :: "memory_store \<Rightarrow> bool" where
  "all_runs_ok s \<longleftrightarrow> (\<forall>sc. runs_ok (project_runs s sc))"

lemma runs_change_refl [simp]: "assistantRuns s' = assistantRuns s \<Longrightarrow> runs_change sc s s'"
  by (simp add: runs_change_def)

lemma runs_change_ensure [simp]:
  "assistantRuns s' = ensure_inner sc (assistantRuns s) \<Longrightarrow> runs_change sc s s'"
  by (simp add: runs_change_def)

lemma runs_change_put [simp]:
  "run_written (project_runs s sc) r \<Longrightarrow> i = run_ID r \<Longrightarrow>
   (\<And>sc'. inner m sc' = project_runs s sc') \<Longrightarrow>
   runs_change sc s (s1\<lparr>assistantRuns := put2 sc i r m\<rparr>)"
  by (auto simp: runs_change_def)

lemma runs_change_store_run [simp]:
  "run_written (project_runs s sc) r \<Longrightarrow> (\<And>sc'. project_runs s1 sc' = project_runs s sc') \<Longrightarrow>
   runs_change sc s (store_run sc r s1)"
  by (auto simp: store_run_def)

lemma run_written_ok: "runs_ok m \<Longrightarrow> run_written m r \<Longrightarrow> runs_ok (mput (run_ID r) r m)"
  by (rule runs_ok_mput) (auto simp: run_written_def)

lemma runs_change_ok: "runs_change sc s s' \<Longrightarrow> all_runs_ok s \<Longrightarrow> all_runs_ok s'"
  unfolding all_runs_ok_def runs_change_def by (metis run_written_ok)

text \<open>A run that passed validation is well formed after preparation, also when the operation then
  puts back the fields of the contract.\<close>

lemma prepared_run_wf:
  assumes "validateAssistantRun r0 = Inr u" "run_ID r = run_ID r0" "run_Status r = run_Status r0"
    "run_Mode r = run_Mode r0" "run_Error r = run_Error r0"
    "run_ApprovalMode r = run_ApprovalMode (prepareAssistantRun now sc r0)"
  shows "run_wf (run_ID r0) r"
  using validateAssistantRunD(1,2,3,5) [OF assms(1)] validateAssistantRunD(4) [OF assms(1), of now sc] assms(2-)
  by (simp add: run_wf_def)

lemma SaveAssistantRun_change:
  assumes op: "SaveAssistantRun now sc run s = (x, s')"
  shows "runs_change sc s s'"
proof (cases "scope_validate sc")
  case (Inr u)
  note scope_ok = Inr
  show ?thesis
  proof (cases "validateAssistantRun run")
    case (Inr v)
    note wf = prepared_run_wf [OF Inr, where now = now and sc = sc]
    show ?thesis
      using op scope_ok Inr
      by (auto simp: SaveAssistantRun_def Let_def run_written_def validateUnique_iff
            same_contract_def wf
          split: option.splits sum.splits if_splits)
  qed (use op scope_ok in \<open>auto simp: SaveAssistantRun_def\<close>)
qed (use op in \<open>auto simp: SaveAssistantRun_def\<close>)

lemma CreateAssistantRun_change:
  assumes op: "CreateAssistantRun now sc user asst run s = (x, s')"
  shows "runs_change sc s s'"
proof (cases "scope_validate sc")
  case (Inr u)
  note scope_ok = Inr
  show ?thesis
  proof (cases "validateNewAssistantRun user asst run")
    case (Inr v)
    then have "validateAssistantRun run = Inr ()"
      by (auto simp: validateNewAssistantRun_def split: sum.splits)
    note wf = prepared_run_wf [OF this, where now = now and sc = sc]
    show ?thesis
      using op scope_ok Inr
      by (auto simp: CreateAssistantRun_def Let_def run_written_def validateUnique_iff wf
          split: option.splits sum.splits if_splits)
  qed (use op scope_ok in \<open>auto simp: CreateAssistantRun_def\<close>)
qed (use op in \<open>auto simp: CreateAssistantRun_def\<close>)

lemma SaveAssistantRunSnapshot_change:
  assumes op: "SaveAssistantRunSnapshot now sc run msgs n s = (x, s')"
  shows "runs_change sc s s'"
proof (cases "scope_validate sc")
  case (Inr u)
  note scope_ok = Inr
  show ?thesis
  proof (cases "validateAssistantRunSnapshot run msgs n")
    case (Inr v)
    then have v: "validateAssistantRun run = Inr ()" and rev: "run_Revision run = i64 (n + 1)"
      by (auto simp: validateAssistantRunSnapshot_def split: sum.splits if_splits)
    note wf = prepared_run_wf [OF v, where now = now and sc = sc]
    show ?thesis
      using op scope_ok Inr rev
      by (auto simp: SaveAssistantRunSnapshot_def Let_def run_written_def validateUnique_iff
            same_contract_def wf
          split: option.splits sum.splits if_splits prod.splits)
  qed (use op scope_ok in \<open>auto simp: SaveAssistantRunSnapshot_def\<close>)
qed (use op in \<open>auto simp: SaveAssistantRunSnapshot_def\<close>)

text \<open>A status change of a run that stays active, or leaves activity, is a write of the run.\<close>

lemma status_change_written:
  assumes "runs_ok m" "map_of m i = Some r" "run_active r"
    and "r' = r\<lparr>run_Status := st, run_Revision := rv, run_UpdatedAt := t\<rparr>"
    and "st \<in> set run_statuses" "rv \<in> {run_Revision r, i64 (run_Revision r + 1)}"
  shows "run_written m r'" "run_ID r' = i"
proof -
  have wf: "run_wf i r" using assms(1,2) by (rule runs_ok_get)
  have "(i, r) \<in> set m" using assms(2) by (rule map_of_SomeD)
  then have "\<forall>(j, q) \<in> set m. j \<noteq> i \<longrightarrow> run_compatible r q"
    using assms(1) by (auto simp: runs_ok_def)
  then show "run_written m r'" "run_ID r' = i"
    using assms wf by (auto simp: run_written_def run_wf_def same_contract_def run_compatible_def)
qed

lemma requestAssistantRunStop_change:
  assumes op: "requestAssistantRunStop clock sc rid n asst now s = (x, s')" and ok: "all_runs_ok s"
  shows "runs_change sc s s'"
proof (cases "\<exists>r. map_of (project_runs s sc) rid = Some r \<and> run_Status r = RunRunning")
  case False
  then show ?thesis
    using op by (auto simp: requestAssistantRunStop_def Let_def split: option.splits sum.splits if_splits)
next
  case True
  then obtain r where r: "map_of (project_runs s sc) rid = Some r" "run_Status r = RunRunning" by blast
  then have "run_active r" by (simp add: run_active_def assistantRunStatusTerminal_def)
  note w = status_change_written [of "project_runs s sc", OF _ r(1) this refl]
  have ok': "runs_ok (project_runs s sc)" using ok by (simp add: all_runs_ok_def)
  show ?thesis
    using op r
    by (auto simp: requestAssistantRunStop_def Let_def w [OF ok'] run_statuses_def
        split: option.splits sum.splits if_splits)
qed

lemma ClaimAssistantRun_change:
  assumes op: "ClaimAssistantRun clock sc rid req now s = (x, s')" and ok: "all_runs_ok s"
  shows "runs_change sc s s'"
proof (cases "\<exists>r. map_of (project_runs s sc) rid = Some r \<and> assistantRunStatusWaitsForInput (run_Status r)")
  case False
  then show ?thesis
    using op by (auto simp: ClaimAssistantRun_def Let_def split: option.splits sum.splits if_splits)
next
  case True
  then obtain r where r: "map_of (project_runs s sc) rid = Some r"
      "assistantRunStatusWaitsForInput (run_Status r)" by blast
  then have act: "run_active r"
    by (auto simp: run_active_def assistantRunStatusTerminal_def assistantRunStatusWaitsForInput_def)
  have ok': "runs_ok (project_runs s sc)" using ok by (simp add: all_runs_ok_def)
  have "run_written (project_runs s sc) (r\<lparr>run_Status := RunRunning, run_UpdatedAt := t\<rparr>)"
    "run_ID r = rid" for t
    using status_change_written [OF ok' r(1) act refl, of RunRunning "run_Revision r" t]
    by (simp_all add: run_statuses_def)
  then show ?thesis
    using op r
    by (auto simp: ClaimAssistantRun_def Let_def split: option.splits sum.splits if_splits)
qed

subsection \<open>Properties of the run operations\<close>

text \<open>What a successful snapshot writes.\<close>

lemma SaveAssistantRunSnapshot_success:
  assumes op: "SaveAssistantRunSnapshot now sc run msgs n s = (Inr u, s')"
  shows "\<exists>old new. map_of (project_runs s sc) (run_ID run) = Some old \<and> run_Revision old = n \<and>
     map_of (project_runs s' sc) (run_ID run) = Some new \<and> run_Revision new = i64 (n + 1) \<and>
     run_Status new = run_Status run \<and> same_contract old new"
proof (cases "validateAssistantRunSnapshot run msgs n")
  case (Inr v)
  then have "run_Revision run = i64 (n + 1)"
    by (auto simp: validateAssistantRunSnapshot_def split: sum.splits if_splits)
  then show ?thesis
    using op Inr
    by (auto simp: SaveAssistantRunSnapshot_def Let_def store_run_def same_contract_def
        split: sum.splits option.splits if_splits prod.splits)
qed (use op in \<open>auto simp: SaveAssistantRunSnapshot_def split: sum.splits\<close>)

lemma SaveAssistantRunSnapshot_stale:
  assumes "map_of (project_runs s sc) (run_ID run) = Some cur" "run_Revision cur \<noteq> n"
  shows "\<exists>e. SaveAssistantRunSnapshot now sc run msgs n s = (Inl e, s)"
  using assms by (auto simp: SaveAssistantRunSnapshot_def Let_def split: sum.splits)

definition ex_store :: memory_store where
  "ex_store = snd (CreateAssistantRun 9 ex_scope (ex_message ''m1'' ''user'' ''a'' 1)
     (ex_message ''m2'' ''assistant'' ''a'' 2) (ex_run ''r1'' RunRunning ''c1'' 1) NewMemoryStore)"

lemma ex_store_ok: "all_runs_ok ex_store"
  unfolding ex_store_def
  by (rule runs_change_ok [OF CreateAssistantRun_change [OF surjective_pairing]])
    (simp add: all_runs_ok_def NewMemoryStore_def)

text \<open>Creating a run is idempotent in the client request ID: a retry, with any clock
  and any messages, that carries the ID of a run already created gets that run back and leaves the
  store as it is, as long as the retry's own run ID is the same or unused.\<close>

theorem create_run_idempotent:
  assumes "CreateAssistantRun now sc user asst run s = (Inr r, s')"
    and "all_runs_ok s"
    and "validateNewAssistantRun user' asst' run' = Inr u"
    and "run_ClientRequestID run' = run_ClientRequestID run"
    and "map_of (project_runs s' sc) (run_ID run') \<in> {None, Some r}"
  shows "CreateAssistantRun now' sc user' asst' run' s' = (Inr r, s')"
proof -
  have sc: "scope_validate sc = Inr ()"
    using assms(1) by (cases "scope_validate sc") (auto simp: CreateAssistantRun_def)
  have cid: "run_ClientRequestID run' \<noteq> []"
    using assms(3) by (auto simp: validateNewAssistantRun_def split: sum.splits if_splits)
  have "\<exists>i. (i, r) \<in> set (project_runs s' sc) \<and> run_ClientRequestID r = run_ClientRequestID run"
  proof -
    have wf: "wf_map (project_runs s sc)" using assms(2) by (simp add: all_runs_ok_def runs_ok_def)
    show ?thesis
      using assms(1) sc wf
      by (auto simp: CreateAssistantRun_def Let_def store_run_def set_mput
          dest: map_of_SomeD find_client_request_SomeD split: sum.splits option.splits if_splits)
  qed
  moreover have "runs_ok (project_runs s' sc)"
    using runs_change_ok [OF CreateAssistantRun_change [OF assms(1)] assms(2)]
    by (simp add: all_runs_ok_def)
  ultimately have "find_client_request (run_ClientRequestID run') (project_runs s' sc) = Some r"
    and "run_ClientRequestID r = run_ClientRequestID run'"
    using cid assms(4) by (auto simp: find_client_request_iff)
  then show ?thesis
    using sc assms(3,5) by (auto simp: CreateAssistantRun_def Let_def split: option.splits)
qed

lemma all_runs_ok_New [simp]: "all_runs_ok NewMemoryStore"
  by (simp add: all_runs_ok_def NewMemoryStore_def)

theorem create_run_idempotent_witness:
  "\<exists>r s'. CreateAssistantRun 9 ex_scope (ex_message ''m1'' ''user'' ''a'' 1)
       (ex_message ''m2'' ''assistant'' ''a'' 2) (ex_run ''r1'' RunRunning ''c1'' 1) NewMemoryStore = (Inr r, s') \<and>
     CreateAssistantRun 30 ex_scope (ex_message ''m1'' ''user'' ''b'' 1)
       (ex_message ''m2'' ''assistant'' ''a'' 2) (ex_run ''r7'' RunRunning ''c1'' 1) s' = (Inr r, s')"
proof -
  let ?r = "CreateAssistantRun 9 ex_scope (ex_message ''m1'' ''user'' ''a'' 1)
       (ex_message ''m2'' ''assistant'' ''a'' 2) (ex_run ''r1'' RunRunning ''c1'' 1) NewMemoryStore"
  have "\<not> isl (fst ?r)" by code_simp
  then obtain r where ok: "?r = (Inr r, snd ?r)" using result_Inr by blast
  have v: "validateNewAssistantRun (ex_message ''m1'' ''user'' ''b'' 1)
       (ex_message ''m2'' ''assistant'' ''a'' 2) (ex_run ''r7'' RunRunning ''c1'' 1) = Inr ()" by code_simp
  have "map_of (project_runs (snd ?r) ex_scope) ''r7'' = None" by code_simp
  then have unused: "map_of (project_runs (snd ?r) ex_scope) (run_ID (ex_run ''r7'' RunRunning ''c1'' 1))
      \<in> {None, Some r}" by simp
  have "CreateAssistantRun 30 ex_scope (ex_message ''m1'' ''user'' ''b'' 1)
       (ex_message ''m2'' ''assistant'' ''a'' 2) (ex_run ''r7'' RunRunning ''c1'' 1) (snd ?r) = (Inr r, snd ?r)"
    by (rule create_run_idempotent [OF ok all_runs_ok_New v _ unused]) simp
  with ok show ?thesis by blast
qed

text \<open>A pending request is claimed at most once: a claim succeeds exactly when the run
  waits for input and for this request, and it moves the run to running, so that no claim of the
  run succeeds until another operation makes it wait again.\<close>

theorem claim_run_exclusive:
  assumes "scope_validate sc = Inr u" "rid \<noteq> []" "req \<noteq> []"
  shows "((\<exists>r s'. ClaimAssistantRun clock sc rid req now s = (Inr r, s')) \<longleftrightarrow>
            (\<exists>r. map_of (project_runs s sc) rid = Some r \<and>
               assistantRunStatusWaitsForInput (run_Status r) \<and> run_RequestID r = req)) \<and>
         (\<forall>r s'. ClaimAssistantRun clock sc rid req now s = (Inr r, s') \<longrightarrow>
            run_Status r = RunRunning \<and>
            (\<forall>clock' req' now'. \<exists>e. ClaimAssistantRun clock' sc rid req' now' s' = (Inl e, s')))"
  using assms
  by (auto simp: ClaimAssistantRun_def Let_def assistantRunStatusWaitsForInput_def
      split: option.splits sum.splits if_splits)

definition ex_waiting_store :: memory_store where
  "ex_waiting_store = snd (SaveAssistantRun 9 ex_scope (ex_run ''r1'' RunPendingInput ''c1'' 1) NewMemoryStore)"

theorem claim_run_exclusive_witness:
  "\<exists>r s'. ClaimAssistantRun 9 ex_scope ''r1'' ''q'' 0 ex_waiting_store = (Inr r, s') \<and>
     (\<exists>e. ClaimAssistantRun 10 ex_scope ''r1'' ''q'' 0 s' = (Inl e, s'))"
proof -
  have a: "scope_validate ex_scope = Inr ()" "''r1'' \<noteq> []" "''q'' \<noteq> []" by simp_all
  let ?r = "ClaimAssistantRun 9 ex_scope ''r1'' ''q'' 0 ex_waiting_store"
  have "\<not> isl (fst ?r)" by code_simp
  then obtain r where ok: "?r = (Inr r, snd ?r)" using result_Inr by blast
  with claim_run_exclusive [OF a] show ?thesis by blast
qed

text \<open>Requesting a stop when the project has no message map is a run-time panic in the
  in-memory store: with every guard of the method passed, the write of the lifecycle message goes
  through a nil map.\<close>

theorem stop_panics_without_messages:
  assumes "scope_validate sc = Inr u" "map_of (project_runs s sc) rid = Some r"
    and "run_Status r = RunRunning" "run_Revision r = n" "1 \<le> n" "rid \<noteq> []"
    and "msg_Role m = ''assistant''" "msg_ID m = run_ActiveMessageID r" "msg_ID m \<noteq> []"
    and "map_of (messages s) sc = None"
  shows "RequestAssistantRunStopWithAssistantMessage clock sc rid n m now s = (Inl PanicNilMap, s)"
  using assms
  by (simp add: RequestAssistantRunStopWithAssistantMessage_def requestAssistantRunStop_def Let_def inner_def)

theorem stop_panics_without_messages_witness:
  "RequestAssistantRunStopWithAssistantMessage 9 ex_scope ''r1'' 1 (ex_message ''m2'' ''assistant'' ''a'' 2) 0
     (snd (SaveAssistantRun 8 ex_scope (ex_run ''r1'' RunRunning ''c1'' 1) NewMemoryStore)) =
   (Inl PanicNilMap, snd (SaveAssistantRun 8 ex_scope (ex_run ''r1'' RunRunning ''c1'' 1) NewMemoryStore))"
proof -
  let ?s = "snd (SaveAssistantRun 8 ex_scope (ex_run ''r1'' RunRunning ''c1'' 1) NewMemoryStore)"
  have "\<exists>r. map_of (project_runs ?s ex_scope) ''r1'' = Some r \<and> run_Status r = RunRunning \<and>
      run_Revision r = 1 \<and> run_ActiveMessageID r = ''m2''"
    by (rule exI [of _ "the (map_of (project_runs ?s ex_scope) ''r1'')"]) code_simp
  then obtain r where r: "map_of (project_runs ?s ex_scope) ''r1'' = Some r" "run_Status r = RunRunning"
      "run_Revision r = 1" "run_ActiveMessageID r = ''m2''" by blast
  have none: "map_of (messages ?s) ex_scope = None" by code_simp
  show ?thesis
    by (rule stop_panics_without_messages [OF ex_scope_valid r(1)])
      (use r none in \<open>simp_all add: ex_message_def\<close>)
qed

subsection \<open>The latest run\<close>

definition run_key :: "assistant_run \<Rightarrow> gotime \<times> string" where
  "run_key r = (run_UpdatedAt r, run_ID r)"

lemma latest_run_Cons:
  "latest_run ((i, q) # m) best =
     latest_run m (Some (case best of None \<Rightarrow> q | Some l \<Rightarrow> if run_key l < run_key q then q else l))"
  by (auto simp: run_key_def less_prod_def split: option.splits)

lemma latest_run_max:
  "latest_run m best = Some r \<Longrightarrow>
     (best = Some r \<or> r \<in> snd ` set m) \<and>
     (\<forall>q \<in> snd ` set m \<union> set_option best. run_key q \<le> run_key r)"
proof (induction m arbitrary: best)
  case (Cons p m)
  obtain i q where p: "p = (i, q)" by (cases p)
  let ?b = "case best of None \<Rightarrow> q | Some l \<Rightarrow> if run_key l < run_key q then q else l"
  have "latest_run m (Some ?b) = Some r"
    using Cons.prems unfolding p latest_run_Cons .
  then obtain b where b_def: "b = ?b" and lr: "latest_run m (Some b) = Some r" by blast
  from Cons.IH [OF lr] have IH: "b = r \<or> r \<in> snd ` set m"
      "\<forall>q \<in> snd ` set m. run_key q \<le> run_key r" "run_key b \<le> run_key r" by auto
  have b: "run_key q \<le> run_key b \<and> (\<forall>l. best = Some l \<longrightarrow> run_key l \<le> run_key b) \<and> (b = q \<or> best = Some b)"
    unfolding b_def by (cases best) (auto simp: not_less less_imp_le)
  show ?case
  proof (intro conjI ballI)
    show "best = Some r \<or> r \<in> snd ` set (p # m)" using IH(1) b p by auto
  next
    fix l assume "l \<in> snd ` set (p # m) \<union> set_option best"
    then consider "l = q" | "l \<in> snd ` set m" | "best = Some l" using p by auto
    then show "run_key l \<le> run_key r"
      using IH(2,3) b order_trans [of "run_key l" "run_key b" "run_key r"] by cases auto
  qed
qed simp

lemma latest_run_None_iff: "latest_run m best = None \<longleftrightarrow> m = [] \<and> best = None"
  by (induction m best rule: latest_run.induct) (auto split: option.splits)

text \<open>The latest run of a project is the stored run that is greatest by update time
  and then by ID, in whatever order the map is visited, and there is one unless the project has no
  run.\<close>

theorem latest_run_is_greatest:
  assumes "scope_validate sc = Inr u" "runs_ok (project_runs s sc)"
  shows "(LatestAssistantRun sc s = Inr r \<longleftrightarrow>
            map_of (project_runs s sc) (run_ID r) = Some r \<and>
            (\<forall>i q. map_of (project_runs s sc) i = Some q \<longrightarrow> run_key q \<le> run_key r)) \<and>
         (LatestAssistantRun sc s = Inl ErrAssistantRunNotFound \<longleftrightarrow> project_runs s sc = [])"
proof -
  let ?m = "project_runs s sc"
  have wf: "wf_map ?m" and ids: "\<And>i q. map_of ?m i = Some q \<Longrightarrow> run_ID q = i"
    using assms(2) runs_ok_get [OF assms(2)] by (auto simp: runs_ok_def run_wf_def)
  have eq: "LatestAssistantRun sc s = (case latest_run ?m None of None \<Rightarrow> Inl ErrAssistantRunNotFound | Some q \<Rightarrow> Inr q)"
    using assms(1) by (simp add: LatestAssistantRun_def)
  have max: "map_of ?m (run_ID q) = Some q \<and> (\<forall>i p. map_of ?m i = Some p \<longrightarrow> run_key p \<le> run_key q)"
    if "latest_run ?m None = Some q" for q
  proof -
    have "q \<in> snd ` set ?m" using latest_run_max [OF that] by simp
    then obtain i where "(i, q) \<in> set ?m" by auto
    then have "map_of ?m (run_ID q) = Some q" using wf ids by (simp add: wf_map_in_iff)
    moreover have "run_key p \<le> run_key q" if "map_of ?m i = Some p" for i p
    proof -
      have "p \<in> snd ` set ?m" using map_of_SomeD [OF that] by (rule image_eqI [rotated]) simp
      then show ?thesis using latest_run_max [OF \<open>latest_run ?m None = Some q\<close>] by blast
    qed
    ultimately show ?thesis by blast
  qed
  have unique: "q = r" if "map_of ?m (run_ID q) = Some q" "map_of ?m (run_ID r) = Some r"
    "run_key q \<le> run_key r" "run_key r \<le> run_key q" for q r
  proof -
    have "run_key q = run_key r" using that(3,4) by (rule order_antisym)
    then have "run_ID q = run_ID r" by (simp add: run_key_def)
    with that(1,2) show ?thesis by (metis option.inject)
  qed
  show ?thesis
  proof (cases "latest_run ?m None")
    case None
    then show ?thesis using eq by (simp add: latest_run_None_iff)
  next
    case (Some q)
    then have "LatestAssistantRun sc s = Inr q" and "?m \<noteq> []"
      using eq latest_run_None_iff [of ?m None] by simp_all
    moreover have "q = r \<longleftrightarrow> map_of ?m (run_ID r) = Some r \<and>
        (\<forall>i p. map_of ?m i = Some p \<longrightarrow> run_key p \<le> run_key r)"
      using max [OF Some] unique [of q r] by blast
    ultimately show ?thesis by (metis sum.distinct(1) sum.inject(2))
  qed
qed

theorem latest_run_is_greatest_witness:
  "LatestAssistantRun ex_scope ex_store = Inr (the (map_of (project_runs ex_store ex_scope) ''r1''))"
proof -
  let ?r = "the (map_of (project_runs ex_store ex_scope) ''r1'')"
  have "project_runs ex_store ex_scope = [(''r1'', ?r)] \<and> run_ID ?r = ''r1''" by code_simp
  then have m: "project_runs ex_store ex_scope = [(''r1'', ?r)]" "run_ID ?r = ''r1''" by blast+
  have "runs_ok (project_runs ex_store ex_scope)" using ex_store_ok by (simp add: all_runs_ok_def)
  note greatest = latest_run_is_greatest [OF ex_scope_valid this, of ?r, THEN conjunct1]
  have "map_of (project_runs ex_store ex_scope) ''r1'' = Some ?r" by (subst m(1)) simp
  moreover have "q = ?r" if "map_of (project_runs ex_store ex_scope) i = Some q" for i q
    using map_of_SomeD [OF that] m(1) by (metis empty_iff empty_set prod.inject set_ConsD)
  ultimately show ?thesis
    by (subst greatest, unfold m(2)) blast
qed

end
