(* ===== verification/AppStore_Logs.thy ===== *)
theory AppStore_Logs
  imports AppStore_Runs
begin

section \<open>App Studio store: run events and conversation items\<close>

text \<open>
  Two append-only streams of \<open>providers/app-studio/store/memory.go\<close>: the execution log of a run,
  whose writer names the sequence it expects, and the conversation of a project, whose sequence
  numbers come from a high-water mark that outlives the items. The interface of an optimistic
  append-only log is the locale \<open>event_log\<close>; the thread events of \<open>thread_memory.go\<close> interpret
  it as well.
\<close>

subsection \<open>An append-only log with an expected sequence\<close>

definition numbered :: "('e \<Rightarrow> int) \<Rightarrow> 'e list \<Rightarrow> bool" where
  "numbered seq_of xs \<longleftrightarrow> map seq_of xs = [1..int (length xs)]"

lemma numbered_Nil [simp]: "numbered f []"
  by (simp add: numbered_def)

lemma numbered_snoc: "numbered f (xs @ [x]) \<longleftrightarrow> numbered f xs \<and> f x = int (length xs) + 1"
  by (auto simp: numbered_def upto_rec2)

lemma numbered_append:
  "numbered f (xs @ ys) \<longleftrightarrow>
     numbered f xs \<and> map f ys = [int (length xs) + 1..int (length xs) + int (length ys)]"
proof (induction ys rule: rev_induct)
  case (snoc y ys)
  have "numbered f (xs @ ys @ [y]) \<longleftrightarrow> numbered f (xs @ ys) \<and> f y = int (length xs) + int (length ys) + 1"
    using numbered_snoc [of f "xs @ ys" y] by simp
  then show ?case using snoc.IH by (auto simp: upto_rec2)
qed simp

lemma numbered_nth:
  assumes "numbered f xs" "i < length xs"
  shows "f (xs ! i) = int i + 1"
proof -
  have "f (xs ! i) = map f xs ! i" using assms(2) by simp
  also have "\<dots> = [1..int (length xs)] ! i" using assms(1) by (simp add: numbered_def)
  also have "\<dots> = int i + 1" using assms(2) by (simp add: nth_upto)
  finally show ?thesis .
qed

lemma numbered_filter_after:
  assumes "numbered f xs" "0 \<le> k"
  shows "filter (\<lambda>x. k < f x) xs = drop (nat k) xs"
  using assms
proof (induction xs rule: rev_induct)
  case (snoc x xs)
  then have "filter (\<lambda>x. k < f x) xs = drop (nat k) xs" "f x = int (length xs) + 1"
    by (auto simp: numbered_snoc)
  then show ?case using snoc.prems(2) by (auto simp: nat_le_iff not_le)
qed simp

definition log_wf :: "('e \<Rightarrow> int) \<Rightarrow> 'e list \<Rightarrow> bool" where
  "log_wf seq_of xs \<longleftrightarrow> numbered seq_of xs \<and> int (length xs) \<le> max_i64"

text \<open>The form that every append keeps: the numbers are right as long as they fit.\<close>

definition log_ok :: "('e \<Rightarrow> int) \<Rightarrow> 'e list \<Rightarrow> bool" where
  "log_ok seq_of xs \<longleftrightarrow> (int (length xs) \<le> max_i64 \<longrightarrow> numbered seq_of xs)"

lemma log_wf_Nil [simp]: "log_wf f []"
  by (simp add: log_wf_def max_i64_def)

lemma log_ok_Nil [simp]: "log_ok f []"
  by (simp add: log_ok_def)

lemma log_wf_ok: "log_wf f xs \<Longrightarrow> log_ok f xs"
  by (simp add: log_wf_def log_ok_def)

lemma log_ok_wf: "log_ok f xs \<Longrightarrow> int (length xs) \<le> max_i64 \<Longrightarrow> log_wf f xs"
  by (simp add: log_wf_def log_ok_def)

lemma log_ok_snoc: "log_ok f xs \<Longrightarrow> f x = i64 (int (length xs) + 1) \<Longrightarrow> log_ok f (xs @ [x])"
  by (simp add: log_ok_def numbered_snoc i64_Suc)

locale event_log =
  fixes inv :: "'s \<Rightarrow> bool"
    and events :: "'s \<Rightarrow> 'e list"
    and seq_of :: "'e \<Rightarrow> int"
    and append_event :: "'a \<Rightarrow> int \<Rightarrow> 's \<Rightarrow> ('x, 'e) res \<times> 's"
  assumes append_keeps: "inv s \<Longrightarrow> append_event a n s = (r, s') \<Longrightarrow> inv s'"
    and append_expects: "inv s \<Longrightarrow> append_event a n s = (Inr e, s') \<Longrightarrow>
      log_wf seq_of (events s) \<Longrightarrow> n = int (length (events s))"
    and append_numbers: "inv s \<Longrightarrow> append_event a n s = (Inr e, s') \<Longrightarrow> seq_of e = i64 (n + 1)"
    and append_adds: "inv s \<Longrightarrow> append_event a n s = (Inr e, s') \<Longrightarrow> events s' = events s @ [e]"
    and append_failure: "inv s \<Longrightarrow> append_event a n s = (Inl x, s') \<Longrightarrow> events s' = events s"
begin

fun append_all :: "('a \<times> int) list \<Rightarrow> 's \<Rightarrow> 's" where
  "append_all [] s = s"
| "append_all ((a, n) # as) s = append_all as (snd (append_event a n s))"

lemma append_ok:
  assumes "inv s" "log_ok seq_of (events s)" "append_event a n s = (r, s')"
  shows "log_ok seq_of (events s')"
proof (cases r)
  case (Inr e)
  then have op: "append_event a n s = (Inr e, s')" using assms(3) by simp
  show ?thesis
  proof (cases "int (length (events s)) < max_i64")
    case True
    then have "n = int (length (events s))"
      using append_expects [OF assms(1) op] assms(2) by (simp add: log_ok_wf)
    then show ?thesis
      using append_adds [OF assms(1) op] append_numbers [OF assms(1) op] log_ok_snoc [OF assms(2)] by simp
  qed (use append_adds [OF assms(1) op] in \<open>simp add: log_ok_def\<close>)
qed (use assms append_failure in fastforce)

lemma append_prefix: "inv s \<Longrightarrow> append_event a n s = (r, s') \<Longrightarrow> \<exists>new. events s' = events s @ new"
  using append_adds [of s a n _ s'] append_failure [of s a n _ s'] by (cases r) auto

lemma append_race:
  assumes "inv s" "log_wf seq_of (events s)" "int (length (events s)) < max_i64"
    and op: "append_event a n s = (Inr e, s')"
  shows "\<exists>x s''. append_event b n s' = (Inl x, s'') \<and> events s'' = events s'"
proof -
  have inv': "inv s'" using append_keeps [OF assms(1) op] .
  obtain r s'' where b: "append_event b n s' = (r, s'')" by (cases "append_event b n s'")
  show ?thesis
  proof (cases r)
    case (Inr f)
    then have f: "append_event b n s' = (Inr f, s'')" using b by simp
    have s': "events s' = events s @ [e]" using append_adds [OF assms(1) op] .
    have "log_wf seq_of (events s')"
      using append_ok [OF assms(1) log_wf_ok [OF assms(2)] op] assms(3) s' by (simp add: log_ok_wf)
    then have "n = int (length (events s'))" using append_expects [OF inv' f] by simp
    moreover have "n = int (length (events s))" using append_expects [OF assms(1) op assms(2)] .
    ultimately show ?thesis using s' by simp
  qed (use b append_failure [OF inv'] in auto)
qed

lemma append_all_ok:
  "inv s \<Longrightarrow> log_ok seq_of (events s) \<Longrightarrow>
   log_ok seq_of (events (append_all as s)) \<and> (\<exists>new. events (append_all as s) = events s @ new)"
proof (induction as s rule: append_all.induct)
  case (2 a n as s)
  obtain r s' where op: "append_event a n s = (r, s')" by (cases "append_event a n s")
  from append_prefix [OF "2.prems"(1) op] obtain new where new: "events s' = events s @ new" by blast
  have "log_ok seq_of (events (append_all as s')) \<and> (\<exists>new. events (append_all as s') = events s' @ new)"
    using "2.IH" append_keeps [OF "2.prems"(1) op] append_ok [OF "2.prems" op] op by simp
  with new op show ?case by auto
qed simp

end

subsection \<open>The execution log of a run\<close>

abbreviation run_log :: "memory_store \<Rightarrow> scope \<Rightarrow> string \<Rightarrow> run_event list" where
  "run_log s sc rid \<equiv> inner (inner (assistantEvents s) sc) rid"

definition AppendAssistantRunEvent ::
  "gotime \<Rightarrow> scope \<Rightarrow> run_event \<Rightarrow> int \<Rightarrow> memory_store \<Rightarrow> run_event sres \<times> memory_store" where
  "AppendAssistantRunEvent now scope event0 expectedSequence s =
     (case prepareAssistantRunEvent now scope event0 expectedSequence of Inl e \<Rightarrow> (Inl e, s) | Inr event \<Rightarrow>
      if map_of (inner (assistantRuns s) scope) (rev_RunID event) = None
      then (Inl ErrAssistantRunNotFound, s)
      else
        (let s1 = s\<lparr>assistantEvents := ensure_inner scope (assistantEvents s)\<rparr>;
             events = inner (inner (assistantEvents s1) scope) (rev_RunID event);
             currentSequence = (if length events > 0 then rev_Sequence (last events) else 0)
         in if currentSequence \<noteq> expectedSequence then (Inl ErrAssistantRunEventConflict, s1)
            else (Inr event, s1\<lparr>assistantEvents :=
                    put2 scope (rev_RunID event) (events @ [event]) (assistantEvents s1)\<rparr>)))"

definition ListAssistantRunEvents ::
  "scope \<Rightarrow> string \<Rightarrow> int \<Rightarrow> int \<Rightarrow> memory_store \<Rightarrow> run_event list sres" where
  "ListAssistantRunEvents scope runID afterSequence limit s =
     (case validateAssistantRunEventList scope runID afterSequence of Inl e \<Rightarrow> Inl e | Inr rid \<Rightarrow>
      if map_of (inner (assistantRuns s) scope) rid = None then Inl ErrAssistantRunNotFound
      else Inr (take_matching (\<lambda>ev. \<not> rev_Sequence ev \<le> afterSequence) (nat (normalizeLimit limit))
             (run_log s scope rid)))"

lemma AppendAssistantRunEvent_success:
  assumes op: "AppendAssistantRunEvent now sc e n s = (Inr e', s')"
  shows "rev_Sequence e' = i64 (n + 1)" "0 \<le> n" "n \<noteq> max_i64" "rev_RunID e' = trim_space (rev_RunID e)"
    "json_valid (rev_Payload e')" "run_log s' sc (rev_RunID e') = run_log s sc (rev_RunID e') @ [e']"
    "log_wf rev_Sequence (run_log s sc (rev_RunID e')) \<Longrightarrow> n = int (length (run_log s sc (rev_RunID e')))"
proof -
  from op have prep: "prepareAssistantRunEvent now sc e n = Inr e'"
    by (auto simp: AppendAssistantRunEvent_def Let_def split: sum.splits if_splits)
  note p = prepareAssistantRunEventD [OF prep]
  let ?log = "run_log s sc (rev_RunID e')"
  have cur: "(if length ?log > 0 then rev_Sequence (last ?log) else 0) = n"
    and log': "run_log s' sc (rev_RunID e') = ?log @ [e']"
    using op prep by (auto simp: AppendAssistantRunEvent_def Let_def split: if_splits)
  show "n = int (length ?log)" if wf: "log_wf rev_Sequence ?log"
  proof (cases "?log = []")
    case False
    then have "rev_Sequence (last ?log) = int (length ?log - 1) + 1"
      using numbered_nth [of rev_Sequence ?log "length ?log - 1"] wf by (simp add: last_conv_nth log_wf_def)
    with cur False show ?thesis by (simp add: Suc_leI of_nat_diff)
  qed (use cur in simp)
  show "run_log s' sc (rev_RunID e') = ?log @ [e']" by (rule log')
qed (use prepareAssistantRunEventD op in
      \<open>auto simp: AppendAssistantRunEvent_def Let_def split: sum.splits if_splits\<close>)

lemma AppendAssistantRunEvent_runid:
  "AppendAssistantRunEvent now sc e n s = (Inr e', s') \<Longrightarrow> rev_RunID e' = trim_space (rev_RunID e)"
  by (auto simp: AppendAssistantRunEvent_def Let_def dest: prepareAssistantRunEventD split: sum.splits if_splits)

lemma AppendAssistantRunEvent_other:
  assumes op: "AppendAssistantRunEvent now sc e n s = (r, s')"
    and "sc' \<noteq> sc \<or> rid \<noteq> trim_space (rev_RunID e) \<or> isl r"
  shows "run_log s' sc' rid = run_log s sc' rid"
proof (cases "prepareAssistantRunEvent now sc e n")
  case (Inr e')
  then have "rev_RunID e' = trim_space (rev_RunID e)" by (rule prepareAssistantRunEventD)
  then show ?thesis
    using op assms(2) Inr by (cases r) (auto simp: AppendAssistantRunEvent_def Let_def split: if_splits)
qed (use op in \<open>simp add: AppendAssistantRunEvent_def\<close>)

interpretation run_events: event_log "\<lambda>_. True" "\<lambda>s. run_log s sc (trim_space rid)" rev_Sequence
  "\<lambda>e. AppendAssistantRunEvent now sc (e\<lparr>rev_RunID := rid\<rparr>)" for now sc rid
proof unfold_locales
  fix e n s e' s'
  assume op: "AppendAssistantRunEvent now sc (e\<lparr>rev_RunID := rid\<rparr>) n s = (Inr e', s')"
  have rid: "rev_RunID e' = trim_space rid" using AppendAssistantRunEvent_runid [OF op] by simp
  note success = AppendAssistantRunEvent_success [OF op, unfolded rid]
  show "rev_Sequence e' = i64 (n + 1)" by (rule success)
  show "run_log s' sc (trim_space rid) = run_log s sc (trim_space rid) @ [e']" by (rule success)
  show "log_wf rev_Sequence (run_log s sc (trim_space rid)) \<Longrightarrow> n = int (length (run_log s sc (trim_space rid)))"
    by (rule success)
next
  fix e n s x s'
  assume "AppendAssistantRunEvent now sc (e\<lparr>rev_RunID := rid\<rparr>) n s = (Inl x, s')"
  then show "run_log s' sc (trim_space rid) = run_log s sc (trim_space rid)"
    by (rule AppendAssistantRunEvent_other) simp
qed simp

text \<open>The execution log of a run is written by compare-and-append: from a log numbered
  from 1, an append that succeeds named the log's current length, puts one entry with the next
  number and valid JSON at its end, and touches no other log; a second writer with the same
  expectation is then refused and leaves the log as it is.\<close>

theorem run_event_append_fenced:
  assumes "log_wf rev_Sequence (run_log s sc rid)" "rid = trim_space rid"
    and "AppendAssistantRunEvent now sc (e\<lparr>rev_RunID := rid\<rparr>) n s = (Inr e', s')"
  shows "n = int (length (run_log s sc rid)) \<and> rev_Sequence e' = n + 1 \<and> json_valid (rev_Payload e') \<and>
    run_log s' sc rid = run_log s sc rid @ [e'] \<and>
    (\<forall>sc' rid'. (sc', rid') \<noteq> (sc, rid) \<longrightarrow> run_log s' sc' rid' = run_log s sc' rid') \<and>
    log_wf rev_Sequence (run_log s' sc rid) \<and>
    (\<forall>f. \<exists>x s''. AppendAssistantRunEvent now sc (f\<lparr>rev_RunID := rid\<rparr>) n s' = (Inl x, s'') \<and>
       run_log s'' sc rid = run_log s' sc rid)"
proof -
  have rid: "trim_space (rev_RunID (e\<lparr>rev_RunID := rid\<rparr>)) = rid" "rev_RunID e' = rid"
    using assms(2) AppendAssistantRunEvent_runid [OF assms(3)] by simp_all
  note success = AppendAssistantRunEvent_success [OF assms(3), unfolded rid]
  have n: "n = int (length (run_log s sc rid))" by (rule success(7) [OF assms(1)])
  then have room: "int (length (run_log s sc rid)) < max_i64"
    using assms(1) success(3) by (simp add: log_wf_def)
  have "run_log s' sc' rid' = run_log s sc' rid'" if "(sc', rid') \<noteq> (sc, rid)" for sc' rid'
    using AppendAssistantRunEvent_other [OF assms(3), of sc' rid'] that rid by auto
  moreover have "\<exists>x s''. AppendAssistantRunEvent now sc (f\<lparr>rev_RunID := rid\<rparr>) n s' = (Inl x, s'') \<and>
      run_log s'' sc rid = run_log s' sc rid" for f
    by (rule run_events.append_race [of s sc rid, folded assms(2), OF TrueI assms(1) room assms(3)])
  moreover have "log_wf rev_Sequence (run_log s' sc rid)"
    using run_events.append_ok [of s sc rid, folded assms(2), OF TrueI log_wf_ok [OF assms(1)] assms(3)] room success(6)
    by (simp add: log_ok_wf)
  moreover have "rev_Sequence e' = n + 1" using success(1) i64_Suc [of n] n room by simp
  ultimately show ?thesis using n success(5,6) by blast
qed

theorem run_event_append_fenced_witness:
  "\<exists>e' s'. AppendAssistantRunEvent 9 ex_scope (ex_run_event ''r1'' ''x''\<lparr>rev_RunID := ''r1''\<rparr>) 0 ex_store = (Inr e', s') \<and>
     rev_Sequence e' = 1 \<and>
     (\<exists>x s''. AppendAssistantRunEvent 9 ex_scope (ex_run_event ''r1'' ''y''\<lparr>rev_RunID := ''r1''\<rparr>) 0 s' = (Inl x, s''))"
proof -
  have r1: "''r1'' = trim_space ''r1''" by code_simp
  have "run_log ex_store ex_scope ''r1'' = []" by code_simp
  then have ok: "log_wf rev_Sequence (run_log ex_store ex_scope ''r1'')" by simp
  let ?r = "AppendAssistantRunEvent 9 ex_scope (ex_run_event ''r1'' ''x''\<lparr>rev_RunID := ''r1''\<rparr>) 0 ex_store"
  have "\<not> isl (fst ?r)" by code_simp
  then obtain e' where e': "?r = (Inr e', snd ?r)" using result_Inr by blast
  from run_event_append_fenced [OF ok r1 e'] e' show ?thesis by fastforce
qed

text \<open>Reading a run's log from sequence \<open>k\<close> with a limit returns, without a gap or a
  repetition, the entries \<open>k + 1\<close> to \<open>k + min l (n - k)\<close> of the \<open>n\<close> stored ones, where \<open>l\<close> is the
  limit clamped to 1..500: a reader that resumes from the last sequence it saw misses nothing.\<close>

theorem list_run_events_resumes:
  assumes "log_wf rev_Sequence (run_log s sc (trim_space rid))" "scope_validate sc = Inr u" "0 \<le> k"
    and "trim_space rid \<noteq> []" "map_of (project_runs s sc) (trim_space rid) \<noteq> None"
  shows "ListAssistantRunEvents sc rid k limit s =
           Inr (take (nat (normalizeLimit limit)) (drop (nat k) (run_log s sc (trim_space rid)))) \<and>
         numbered (\<lambda>e. rev_Sequence e - k)
           (take (nat (normalizeLimit limit)) (drop (nat k) (run_log s sc (trim_space rid))))"
proof -
  let ?log = "run_log s sc (trim_space rid)" and ?n = "nat (normalizeLimit limit)"
  have num: "numbered rev_Sequence ?log" using assms(1) by (simp add: log_wf_def)
  have "0 < ?n" using normalizeLimit_range [of limit] by simp
  then have "take_matching (\<lambda>ev. \<not> rev_Sequence ev \<le> k) ?n ?log = take ?n (drop (nat k) ?log)"
    using numbered_filter_after [OF num assms(3)] by (simp add: take_matching_eq not_le)
  moreover have "numbered (\<lambda>e. rev_Sequence e - k) (take ?n (drop (nat k) ?log))"
    unfolding numbered_def
  proof (rule nth_equalityI)
    fix i assume "i < length (map (\<lambda>e. rev_Sequence e - k) (take ?n (drop (nat k) ?log)))"
    then have i: "i < ?n" "nat k + i < length ?log" by auto
    then have "take ?n (drop (nat k) ?log) ! i = ?log ! (nat k + i)"
      using nth_take [OF i(1), of "drop (nat k) ?log"] by simp
    moreover have "rev_Sequence (?log ! (nat k + i)) - k = int i + 1"
      using numbered_nth [OF num i(2)] assms(3) by simp
    ultimately have "rev_Sequence (take ?n (drop (nat k) ?log) ! i) - k = int i + 1" by (simp only:)
    then show "map (\<lambda>e. rev_Sequence e - k) (take ?n (drop (nat k) ?log)) ! i =
        [1..int (length (take ?n (drop (nat k) ?log)))] ! i"
      using i by (simp add: nth_upto del: nth_take)
  qed simp
  ultimately show ?thesis
    using assms(2-5) by (simp add: ListAssistantRunEvents_def validateAssistantRunEventList_def Let_def)
qed

theorem list_run_events_resumes_witness:
  "ListAssistantRunEvents ex_scope ''r1'' 0 10 ex_store = Inr []"
proof -
  have r1: "trim_space ''r1'' = ''r1''" by code_simp
  have log: "run_log ex_store ex_scope ''r1'' = []" by code_simp
  then have ok: "log_wf rev_Sequence (run_log ex_store ex_scope (trim_space ''r1''))" by (simp add: r1)
  have "map_of (project_runs ex_store ex_scope) (trim_space ''r1'') \<noteq> None" by code_simp
  from list_run_events_resumes [OF ok ex_scope_valid _ _ this, of 0 10] log show ?thesis
    by (simp add: r1)
qed

subsection \<open>The conversation of a project\<close>

fun find_item :: "conversation_item \<Rightarrow> conversation_item list \<Rightarrow> conversation_item option" where
  "find_item p [] = None"
| "find_item p (e # es) = (if itm_ID e = itm_ID p \<and> itm_RunID e = itm_RunID p then Some e else find_item p es)"

definition conversation_high_water :: "int \<Rightarrow> conversation_item list \<Rightarrow> int" where
  "conversation_high_water hw items =
     fold (\<lambda>e n. if itm_Sequence e > n then itm_Sequence e else n) items hw"

definition stored_high_water :: "memory_store \<Rightarrow> scope \<Rightarrow> int" where
  "stored_high_water s sc = (case map_of (conversationSequences s) sc of None \<Rightarrow> 0 | Some n \<Rightarrow> n)"

abbreviation conversation :: "memory_store \<Rightarrow> scope \<Rightarrow> conversation_item list" where
  "conversation s sc \<equiv> inner (conversationItems s) sc"

definition AppendAssistantConversationItem ::
  "gotime \<Rightarrow> scope \<Rightarrow> conversation_item \<Rightarrow> memory_store \<Rightarrow> conversation_item sres \<times> memory_store" where
  "AppendAssistantConversationItem now scope item s =
     (case prepareAssistantConversationItem now scope item of Inl e \<Rightarrow> (Inl e, s) | Inr prepared \<Rightarrow>
      (case find_item prepared (conversation s scope) of
         Some existing \<Rightarrow>
           if \<not> assistantConversationItemsMatch existing prepared
           then (Inl ErrAssistantConversationItemConflict, s) else (Inr existing, s)
       | None \<Rightarrow>
           (let nextSequence = i64 (conversation_high_water (stored_high_water s scope) (conversation s scope) + 1);
                stored = prepared\<lparr>itm_Sequence := nextSequence\<rparr>
            in (Inr stored,
                s\<lparr>conversationSequences := mput scope nextSequence (conversationSequences s),
                  conversationItems := mput scope (conversation s scope @ [stored]) (conversationItems s)\<rparr>))))"

definition ListAssistantConversationItems ::
  "scope \<Rightarrow> int \<Rightarrow> int \<Rightarrow> memory_store \<Rightarrow> conversation_item list sres" where
  "ListAssistantConversationItems scope afterSequence limit s =
     (case scope_validate scope of Inl e \<Rightarrow> Inl e | Inr _ \<Rightarrow>
      Inr (take_matching (\<lambda>it. \<not> itm_Sequence it \<le> afterSequence) (nat (normalizeLimit limit))
             (conversation s scope)))"

text \<open>What holds of the conversation of one project: its numbers are positive, strictly increasing
  and at most the stored high-water mark, and no two items share an ID within a run.\<close>

definition conversation_ok :: "int \<Rightarrow> conversation_item list \<Rightarrow> bool" where
  "conversation_ok hw items \<longleftrightarrow> 0 \<le> hw \<and> hw \<le> max_i64 \<and>
     sorted_wrt (<) (map itm_Sequence items) \<and>
     (\<forall>it \<in> set items. 0 < itm_Sequence it \<and> itm_Sequence it \<le> hw) \<and>
     distinct (map (\<lambda>it. (itm_RunID it, itm_ID it)) items)"

definition all_conversations_ok :: "memory_store \<Rightarrow> bool" where
  "all_conversations_ok s \<longleftrightarrow> (\<forall>sc. conversation_ok (stored_high_water s sc) (conversation s sc))"

lemma find_item_SomeD: "find_item p es = Some e \<Longrightarrow> e \<in> set es \<and> itm_ID e = itm_ID p \<and> itm_RunID e = itm_RunID p"
  by (induction p es rule: find_item.induct) (auto split: if_splits)

lemma find_item_None_iff:
  "find_item p es = None \<longleftrightarrow> (itm_RunID p, itm_ID p) \<notin> (\<lambda>it. (itm_RunID it, itm_ID it)) ` set es"
  by (induction p es rule: find_item.induct) auto

lemma find_item_snoc: "find_item p es = None \<Longrightarrow> find_item p (es @ [e]) =
    (if itm_ID e = itm_ID p \<and> itm_RunID e = itm_RunID p then Some e else None)"
  by (induction p es rule: find_item.induct) (auto split: if_splits)

lemma conversation_high_water_bound: "\<forall>it \<in> set items. itm_Sequence it \<le> hw \<Longrightarrow> conversation_high_water hw items = hw"
  unfolding conversation_high_water_def by (induction items) auto

lemma conversation_ok_snoc:
  "conversation_ok hw items \<Longrightarrow> hw < max_i64 \<Longrightarrow> itm_Sequence it = hw + 1 \<Longrightarrow> find_item it items = None \<Longrightarrow>
   conversation_ok (hw + 1) (items @ [it])"
  by (fastforce simp: conversation_ok_def sorted_wrt_append find_item_None_iff)

lemma conversation_ok_filter: "conversation_ok hw items \<Longrightarrow> conversation_ok hw (filter P items)"
  by (auto simp: conversation_ok_def sorted_wrt_map distinct_map_filter intro: sorted_wrt_filter)

lemma payload_equal_refl: "json_valid p \<Longrightarrow> assistantConversationPayloadEqual p p"
  by (auto simp: assistantConversationPayloadEqual_def json_valid_def split: option.splits)

lemma prepare_item_clock:
  "prepareAssistantConversationItem now sc item = Inr p \<Longrightarrow>
   \<exists>t. prepareAssistantConversationItem now' sc item = Inr (p\<lparr>itm_CreatedAt := t\<rparr>)"
  by (auto simp: prepareAssistantConversationItem_def Let_def split: sum.splits if_splits)

lemma item_clock_simps [simp]:
  "find_item (p\<lparr>itm_CreatedAt := t\<rparr>) es = find_item p es"
  "find_item (p\<lparr>itm_Sequence := n\<rparr>) es = find_item p es"
  "assistantConversationItemsMatch e (p\<lparr>itm_CreatedAt := t\<rparr>) = assistantConversationItemsMatch e p"
  by (induction es) (auto simp: assistantConversationItemsMatch_def)

lemma item_match_self:
  "json_valid (itm_Payload p) \<Longrightarrow> assistantConversationItemsMatch (p\<lparr>itm_Sequence := n\<rparr>) p"
  by (simp add: assistantConversationItemsMatch_def payload_equal_refl)

text \<open>The two ways an append of a conversation item succeeds: the item is there, or it is new.\<close>

lemma AppendAssistantConversationItem_cases:
  assumes op: "AppendAssistantConversationItem now sc item s = (Inr it, s')"
    and ok: "conversation_ok (stored_high_water s sc) (conversation s sc)" and room: "stored_high_water s sc < max_i64"
  obtains p where "prepareAssistantConversationItem now sc item = Inr p" "s' = s"
      "find_item p (conversation s sc) = Some it" "assistantConversationItemsMatch it p"
  | p where "prepareAssistantConversationItem now sc item = Inr p" "find_item p (conversation s sc) = None"
      "it = p\<lparr>itm_Sequence := stored_high_water s sc + 1\<rparr>"
      "s' = s\<lparr>conversationSequences := mput sc (stored_high_water s sc + 1) (conversationSequences s),
              conversationItems := mput sc (conversation s sc @ [it]) (conversationItems s)\<rparr>"
proof -
  obtain p where p: "prepareAssistantConversationItem now sc item = Inr p"
    using op by (auto simp: AppendAssistantConversationItem_def split: sum.splits)
  have "conversation_high_water (stored_high_water s sc) (conversation s sc) = stored_high_water s sc"
    using ok by (intro conversation_high_water_bound) (simp add: conversation_ok_def)
  moreover have "i64 (stored_high_water s sc + 1) = stored_high_water s sc + 1"
    using ok room by (intro i64_Suc) (simp_all add: conversation_ok_def)
  ultimately show ?thesis
    using op p that
    by (cases "find_item p (conversation s sc)")
      (auto simp: AppendAssistantConversationItem_def Let_def split: if_splits)
qed

lemma stored_high_water_mput [simp]:
  "stored_high_water (s\<lparr>conversationSequences := mput sc n m, conversationItems := x\<rparr>) sc' =
     (if sc' = sc then n else stored_high_water (s\<lparr>conversationSequences := m\<rparr>) sc')"
  by (simp add: stored_high_water_def)

lemma stored_high_water_same [simp]:
  "stored_high_water (s\<lparr>conversationSequences := conversationSequences s\<rparr>) sc = stored_high_water s sc"
  by simp

lemma AppendAssistantConversationItem_ok:
  assumes op: "AppendAssistantConversationItem now sc item s = (r, s')"
    and ok: "all_conversations_ok s" and room: "stored_high_water s sc < max_i64"
  shows "all_conversations_ok s'"
proof (cases r)
  case (Inl e)
  then have "s' = s"
    using op by (auto simp: AppendAssistantConversationItem_def Let_def split: sum.splits option.splits if_splits)
  with ok show ?thesis by simp
next
  case (Inr it)
  from ok have ok': "conversation_ok (stored_high_water s sc) (conversation s sc)"
    by (simp add: all_conversations_ok_def)
  from op Inr have op': "AppendAssistantConversationItem now sc item s = (Inr it, s')" by simp
  show ?thesis
  proof (cases rule: AppendAssistantConversationItem_cases [OF op' ok' room])
    case (2 p)
    then show ?thesis using ok room by (auto simp: all_conversations_ok_def intro: conversation_ok_snoc)
  qed (use ok in auto)
qed

lemma conversation_item_fresh:
  assumes "all_conversations_ok s" "stored_high_water s sc < max_i64"
    and "AppendAssistantConversationItem now sc item s = (Inr it, s')" "it \<notin> set (conversation s sc)"
  shows "itm_Sequence it = stored_high_water s sc + 1"
proof -
  from assms(1) have ok: "conversation_ok (stored_high_water s sc) (conversation s sc)"
    by (simp add: all_conversations_ok_def)
  show ?thesis
  proof (cases rule: AppendAssistantConversationItem_cases [OF assms(3) ok assms(2)])
    case (1 p)
    then show ?thesis using find_item_SomeD assms(4) by blast
  qed simp
qed

text \<open>Appending a conversation item is idempotent and numbers each item afresh: a
  success either returns the stored item and changes nothing, or puts the item at the end of the
  conversation with the number after the high-water mark; in both cases the same request, sent
  again at any time, returns the same stored item and changes nothing.\<close>

theorem conversation_append_idempotent:
  assumes "all_conversations_ok s" "stored_high_water s sc < max_i64"
    and "AppendAssistantConversationItem now sc item s = (Inr it, s')"
  shows "(s' = s \<and> it \<in> set (conversation s sc) \<or>
          conversation s' sc = conversation s sc @ [it] \<and>
          itm_Sequence it = stored_high_water s sc + 1 \<and> stored_high_water s' sc = itm_Sequence it \<and>
          (\<forall>old \<in> set (conversation s sc). itm_Sequence old < itm_Sequence it)) \<and>
         (\<forall>sc'. sc' \<noteq> sc \<longrightarrow> conversation s' sc' = conversation s sc') \<and>
         AppendAssistantConversationItem now' sc item s' = (Inr it, s')"
proof -
  from assms(1) have ok: "conversation_ok (stored_high_water s sc) (conversation s sc)"
    by (simp add: all_conversations_ok_def)
  show ?thesis
  proof (cases rule: AppendAssistantConversationItem_cases [OF assms(3) ok assms(2)])
    case (1 p)
    obtain t where "prepareAssistantConversationItem now' sc item = Inr (p\<lparr>itm_CreatedAt := t\<rparr>)"
      using prepare_item_clock [OF 1(1)] by blast
    then show ?thesis using 1 find_item_SomeD [OF 1(3)] by (simp add: AppendAssistantConversationItem_def)
  next
    case (2 p)
    obtain t where t: "prepareAssistantConversationItem now' sc item = Inr (p\<lparr>itm_CreatedAt := t\<rparr>)"
      using prepare_item_clock [OF 2(1)] by blast
    have "json_valid (itm_Payload p)" using 2(1) by (rule prepareAssistantConversationItemD)
    then have "assistantConversationItemsMatch it p" using 2(3) by (simp add: item_match_self)
    moreover have "find_item p (conversation s' sc) = Some it" using 2 by (simp add: find_item_snoc)
    ultimately have "AppendAssistantConversationItem now' sc item s' = (Inr it, s')"
      using t by (simp add: AppendAssistantConversationItem_def)
    then show ?thesis using 2 ok by (auto simp: conversation_ok_def)
  qed
qed

lemma conversations_ok_create: "all_conversations_ok (snd (CreateAssistantRun now sc u a r NewMemoryStore))"
  by (auto simp: CreateAssistantRun_def Let_def all_conversations_ok_def conversation_ok_def stored_high_water_def
      store_run_def NewMemoryStore_def max_i64_def split: sum.splits option.splits)

theorem conversation_append_idempotent_witness:
  "\<exists>it s'. AppendAssistantConversationItem 9 ex_scope (ex_item ''i'' ''r1'' ''{}'') ex_store = (Inr it, s') \<and>
     AppendAssistantConversationItem 12 ex_scope (ex_item ''i'' ''r1'' ''{}'') s' = (Inr it, s')"
proof -
  let ?r = "AppendAssistantConversationItem 9 ex_scope (ex_item ''i'' ''r1'' ''{}'') ex_store"
  have ok: "all_conversations_ok ex_store" unfolding ex_store_def by (rule conversations_ok_create)
  have room: "stored_high_water ex_store ex_scope < max_i64" by code_simp
  have "\<not> isl (fst ?r)" by code_simp
  then obtain it where it: "?r = (Inr it, snd ?r)" using result_Inr by blast
  from conversation_append_idempotent [OF ok room it] it show ?thesis by blast
qed

end
