(* ===== verification/Go_Paging.thy ===== *)
theory Go_Paging
  imports Go_Encode
begin

section \<open>Cursors and pages\<close>

text \<open>
  What the stores' list operations share: the cursor that names the last item of a page, the loop
  that finds where the next page starts, the page cut out of a sorted listing, and the interface
  \<open>pager\<close> of a paged listing with the lemma that following the cursors returns the listing once
  and in order. Each store's listing interprets \<open>pager\<close>.
\<close>

subsection \<open>Cursors\<close>

text \<open>
  A cursor is the unpadded URL-safe base64 text of a JSON object with an instant and an ID. It is
  modelled by what its decoder reads in the string: nothing but white space, text that is not
  base64, base64 whose content is not such an object, or the two fields. Encoding loses
  information in two places. An instant outside the years 0 to 9999 has no JSON form, and the
  encoder, whose error the code drops, then returns the empty string; a byte of the ID that is not
  part of a UTF-8 sequence becomes the replacement character.
\<close>

datatype cursor = BlankCursor | NotBase64 | NotPayload | CursorPayload gotime string

definition cursor_encoding :: "gotime \<Rightarrow> string \<Rightarrow> cursor" where
  "cursor_encoding t i = (if json_time_ok t then CursorPayload t (coerce_utf8 i) else BlankCursor)"

definition cursor_safe :: "gotime \<Rightarrow> string \<Rightarrow> bool" where
  "cursor_safe t i \<longleftrightarrow> t \<noteq> 0 \<and> json_time_ok t \<and> \<not> blank i \<and> coerce_utf8 i = i"

lemma cursor_encoding_safe: "cursor_safe t i \<Longrightarrow> cursor_encoding t i = CursorPayload t i"
  by (simp add: cursor_safe_def cursor_encoding_def)

subsection \<open>Cutting a page\<close>

fun first_index :: "('a \<Rightarrow> bool) \<Rightarrow> 'a list \<Rightarrow> nat" where
  "first_index P [] = 0"
| "first_index P (x # xs) = (if P x then 0 else Suc (first_index P xs))"

definition cut_page :: "('a \<Rightarrow> cursor) \<Rightarrow> nat \<Rightarrow> nat \<Rightarrow> 'a list \<Rightarrow> 'a list \<times> cursor" where
  "cut_page enc start limit xs =
     (if start \<ge> length xs then ([], BlankCursor)
      else (let stop = min (start + limit) (length xs);
                items = take (stop - start) (drop start xs)
            in (items, if stop < length xs then enc (last items) else BlankCursor)))"

lemma first_index_split: "\<forall>x \<in> set xs. \<not> P x \<Longrightarrow> \<forall>y \<in> set ys. P y \<Longrightarrow> first_index P (xs @ ys) = length xs"
  by (induction xs) (cases ys; simp)+

lemma cut_page_eq:
  assumes "0 < n"
  shows "cut_page enc (length xs) n (xs @ ys) =
    (take n ys, if n < length ys then enc (ys ! (n - 1)) else BlankCursor)"
proof (cases "ys = []")
  case False
  have "last (take n ys) = ys ! (n - 1)" if "n < length ys"
    using that assms by (subst last_conv_nth) (auto simp: min_def)
  moreover have "min (length xs + n) (length xs + length ys) - length xs = min n (length ys)" by simp
  ultimately show ?thesis
    using False assms by (auto simp: cut_page_def Let_def min_def not_le)
qed (simp add: cut_page_def)

subsection \<open>The interface of a paged listing\<close>

fun walk_pages :: "('c \<Rightarrow> ('x, 'a list \<times> 'c) res) \<Rightarrow> 'c \<Rightarrow> nat \<Rightarrow> 'c \<Rightarrow> ('x, 'a list) res option" where
  "walk_pages page stop 0 c = None"
| "walk_pages page stop (Suc fuel) c =
     (case page c of
        Inl e \<Rightarrow> Some (Inl e)
      | Inr (xs, c') \<Rightarrow>
          if c' = stop then Some (Inr xs)
          else (case walk_pages page stop fuel c' of
                  Some (Inr ys) \<Rightarrow> Some (Inr (xs @ ys)) | r \<Rightarrow> r))"

text \<open>
  The general contract: \<open>more n\<close> decides whether a page cut from a rest of \<open>n\<close> items carries a
  cursor. A store may look ahead (\<open>size < n\<close>) or give a cursor with every full page
  (\<open>size \<le> n\<close>), and then the page after the last item is empty.
\<close>

locale loose_pager =
  fixes listing :: "'s \<Rightarrow> 'a list"
    and page :: "'s \<Rightarrow> 'c \<Rightarrow> ('x, 'a list \<times> 'c) res"
    and stop :: 'c
    and mark :: "'a \<Rightarrow> 'c"
    and size :: nat
    and more :: "nat \<Rightarrow> bool"
    and ok :: "'s \<Rightarrow> bool"
  assumes loose_size_pos: "0 < size"
    and more_full: "more n \<Longrightarrow> size \<le> n"
    and more_rest: "size < n \<Longrightarrow> more n"
    and loose_mark_continues: "ok s \<Longrightarrow> a \<in> set (listing s) \<Longrightarrow> mark a \<noteq> stop"
    and loose_first_page: "ok s \<Longrightarrow> page s stop =
      Inr (take size (listing s), if more (length (listing s)) then mark (listing s ! (size - 1)) else stop)"
    and loose_next_page: "ok s \<Longrightarrow> listing s = xs @ a # ys \<Longrightarrow> ys \<noteq> [] \<or> more size \<Longrightarrow> page s (mark a) =
      Inr (take size ys, if more (length ys) then mark (ys ! (size - 1)) else stop)"
begin

lemma page_split: "more (length ys) \<Longrightarrow> ys = take (size - 1) ys @ ys ! (size - 1) # drop size ys"
  using more_full [of "length ys"] loose_size_pos id_take_nth_drop [of "size - 1" ys] by simp

lemma page_rest: "more (length ys) \<Longrightarrow> drop size ys \<noteq> [] \<or> more size"
  using more_full [of "length ys"] by (cases "length ys = size") auto

lemma page_last: "\<not> more (length ys) \<Longrightarrow> take size ys = ys"
  using more_rest [of "length ys"] by (cases "size < length ys") auto

lemma walk_from:
  assumes "ok s" "listing s = xs @ a # ys" "ys \<noteq> [] \<or> more size" "length ys < fuel"
  shows "walk_pages (page s) stop fuel (mark a) = Some (Inr ys)"
  using assms(2-)
proof (induction fuel arbitrary: xs a ys)
  case (Suc fuel)
  show ?case
  proof (cases "more (length ys)")
    case True
    let ?b = "ys ! (size - 1)"
    have list: "listing s = (xs @ a # take (size - 1) ys) @ ?b # drop size ys"
      using Suc.prems(1) page_split [OF True] by simp
    then have "mark ?b \<noteq> stop" using loose_mark_continues [OF assms(1), of ?b] by simp
    moreover have "length (drop size ys) < fuel"
      using more_full [OF True] Suc.prems(3) loose_size_pos by simp
    then have "walk_pages (page s) stop fuel (mark ?b) = Some (Inr (drop size ys))"
      using Suc.IH [OF list page_rest [OF True]] by simp
    ultimately show ?thesis using loose_next_page [OF assms(1) Suc.prems(1,2)] True by simp
  qed (use loose_next_page [OF assms(1) Suc.prems(1,2)] page_last in simp)
qed simp

lemma walk_complete:
  assumes "ok s" "length (listing s) < fuel"
  shows "walk_pages (page s) stop fuel stop = Some (Inr (listing s))"
proof -
  obtain f where f: "fuel = Suc f" using assms(2) by (cases fuel) auto
  show ?thesis
  proof (cases "more (length (listing s))")
    case True
    let ?b = "listing s ! (size - 1)"
    note split = page_split [OF True]
    have "mark ?b \<noteq> stop"
      using loose_mark_continues [OF assms(1), of ?b] arg_cong [OF split, of set] by simp
    moreover have "length (drop size (listing s)) < f"
      using more_full [OF True] assms(2) f loose_size_pos by simp
    then have "walk_pages (page s) stop f (mark ?b) = Some (Inr (drop size (listing s)))"
      using walk_from [OF assms(1) split page_rest [OF True]] by simp
    ultimately show ?thesis using loose_first_page [OF assms(1)] True f by simp
  qed (use loose_first_page [OF assms(1)] f page_last in simp)
qed

end

text \<open>The contract of the stores that look ahead.\<close>

locale pager =
  fixes listing :: "'s \<Rightarrow> 'a list"
    and page :: "'s \<Rightarrow> 'c \<Rightarrow> ('x, 'a list \<times> 'c) res"
    and stop :: 'c
    and mark :: "'a \<Rightarrow> 'c"
    and size :: nat
    and ok :: "'s \<Rightarrow> bool"
  assumes size_pos: "0 < size"
    and mark_continues: "ok s \<Longrightarrow> a \<in> set (listing s) \<Longrightarrow> mark a \<noteq> stop"
    and first_page: "ok s \<Longrightarrow> page s stop =
      Inr (take size (listing s), if size < length (listing s) then mark (listing s ! (size - 1)) else stop)"
    and next_page: "ok s \<Longrightarrow> listing s = xs @ a # ys \<Longrightarrow> ys \<noteq> [] \<Longrightarrow> page s (mark a) =
      Inr (take size ys, if size < length ys then mark (ys ! (size - 1)) else stop)"

sublocale pager \<subseteq> loose_pager listing page stop mark size "\<lambda>n. size < n" ok
proof
qed (use size_pos mark_continues first_page next_page in auto)

subsection \<open>Sorting by a key\<close>

text \<open>
  \<open>sort.Slice\<close> is not stable, so it returns some permutation that is sorted by the key. Where the
  keys are distinct there is only one.
\<close>

lemma sorted_key_unique:
  assumes "mset xs = mset ys" "sorted (map f xs)" "sorted (map f ys)" "inj_on f (set ys)"
  shows "xs = ys"
proof -
  have "set xs = set ys" using assms(1) by (rule mset_eq_setD)
  moreover have "map f xs = map f ys"
    using assms(2,3) properties_for_sort [of "map f xs" "map f ys"] assms(1)
    by (metis mset_map sorted_sort_id)
  ultimately show ?thesis using assms(4) by (simp add: inj_on_map_eq_map)
qed

lemma sorted_split_after:
  assumes "sorted (map f (xs @ a # ys))" "distinct (map f (xs @ a # ys))"
  shows "\<forall>x \<in> set (xs @ [a]). \<not> f a < f x" "\<forall>y \<in> set ys. f a < f y"
  using assms by (auto simp: sorted_append order_less_le not_less)

lemma sorted_split_before:
  assumes "sorted (map f (rev (xs @ a # ys)))" "distinct (map f (xs @ a # ys))"
  shows "\<forall>x \<in> set (xs @ [a]). \<not> f x < f a" "\<forall>y \<in> set ys. f y < f a"
  using assms by (auto simp: sorted_append order_less_le not_less) (metis image_eqI)

end
