(* ===== verification/AppStore_Messages.thy ===== *)
theory AppStore_Messages
  imports AppStore_Logs Go_Paging
begin

section \<open>App Studio store: project messages\<close>

text \<open>
  The message operations of \<open>providers/app-studio/store/memory.go\<close> and the message cursor of
  \<open>store.go\<close>: an append that keeps a message's actor, and the chronological listing with its
  cursor, which interprets \<open>pager\<close>.
\<close>

subsection \<open>The operations\<close>

abbreviation project_messages :: "memory_store \<Rightarrow> scope \<Rightarrow> (string, message) gomap" where
  "project_messages s sc \<equiv> inner (messages s) sc"

definition AppendMessage :: "gotime \<Rightarrow> scope \<Rightarrow> message \<Rightarrow> memory_store \<Rightarrow> unit sres \<times> memory_store" where
  "AppendMessage now scope msg0 s =
     (case scope_validate scope of Inl e \<Rightarrow> (Inl e, s) | Inr _ \<Rightarrow>
      if msg_ID msg0 = [] then (Inl (ErrMsg ''message id is required''), s)
      else
        (let msg = prepareMessage now scope msg0;
             s1 = s\<lparr>messages := ensure_inner scope (messages s)\<rparr>
         in if (case map_of (project_messages s1 scope) (msg_ID msg) of
                  Some existing \<Rightarrow> msg_ActorID existing \<noteq> msg_ActorID msg | None \<Rightarrow> False)
            then (Inl (ErrMsg ''message actor is immutable''), s1)
            else (Inr (), s1\<lparr>messages := put2 scope (msg_ID msg) msg (messages s1)\<rparr>)))"

definition message_key :: "message \<Rightarrow> gotime \<times> string" where
  "message_key m = (msg_CreatedAt m, msg_ID m)"

definition sortedMessages :: "(string, message) gomap \<Rightarrow> message list" where
  "sortedMessages m = sort_key message_key (map snd m)"

definition encodeCursor :: "gotime \<Rightarrow> string \<Rightarrow> cursor" where
  "encodeCursor createdAt i = cursor_encoding createdAt i"

definition decodeCursor :: "cursor \<Rightarrow> (gotime \<times> string) sres" where
  "decodeCursor raw =
     (case raw of
        BlankCursor \<Rightarrow> Inr (0, [])
      | NotBase64 \<Rightarrow> Inl (ErrMsg ''decode cursor'')
      | NotPayload \<Rightarrow> Inl (ErrMsg ''decode cursor json'')
      | CursorPayload t i \<Rightarrow>
          if t = 0 \<or> blank i then Inl (ErrMsg ''cursor is missing createdAt or id'') else Inr (t, i))"

definition ListMessages :: "scope \<Rightarrow> int \<Rightarrow> cursor \<Rightarrow> memory_store \<Rightarrow> (message list \<times> cursor) sres" where
  "ListMessages scope limit0 c s =
     (case scope_validate scope of Inl e \<Rightarrow> Inl e | Inr _ \<Rightarrow>
      (let limit = nat (normalizeLimit limit0);
           all = sortedMessages (project_messages s scope)
       in case decodeCursor c of Inl e \<Rightarrow> Inl e | Inr (cursorAt, cursorID) \<Rightarrow>
          (let start = (if cursorAt \<noteq> 0
                 then first_index (\<lambda>m. msg_CreatedAt m > cursorAt \<or>
                        (msg_CreatedAt m = cursorAt \<and> msg_ID m > cursorID)) all
                 else 0)
           in Inr (cut_page (\<lambda>m. encodeCursor (msg_CreatedAt m) (msg_ID m)) start limit all))))"

definition LoadRecentMessages :: "scope \<Rightarrow> int \<Rightarrow> memory_store \<Rightarrow> message list sres" where
  "LoadRecentMessages scope limit0 s =
     (case scope_validate scope of Inl e \<Rightarrow> Inl e | Inr _ \<Rightarrow>
      (let limit = nat (normalizeLimit limit0);
           all = sortedMessages (project_messages s scope)
       in Inr (if length all > limit then drop (length all - limit) all else all)))"

subsection \<open>The listing\<close>

text \<open>What holds of the messages of one project: each is stored under its own ID, and its cursor
  can be written and read back.\<close>

definition messages_ok :: "(string, message) gomap \<Rightarrow> bool" where
  "messages_ok m \<longleftrightarrow> wf_map m \<and> (\<forall>(i, x) \<in> set m. msg_ID x = i)"

definition messages_pageable :: "(string, message) gomap \<Rightarrow> bool" where
  "messages_pageable m \<longleftrightarrow> messages_ok m \<and> (\<forall>(i, x) \<in> set m. cursor_safe (msg_CreatedAt x) (msg_ID x))"

lemma messages_ok_mput: "messages_ok m \<Longrightarrow> msg_ID x = i \<Longrightarrow> messages_ok (mput i x m)"
  by (auto simp: messages_ok_def set_mput)

lemma messages_ok_filter: "messages_ok m \<Longrightarrow> messages_ok (filter P m)"
  by (auto simp: messages_ok_def wf_map_def distinct_map_filter)

lemma messages_ok_Nil [simp]: "messages_ok []"
  by (simp add: messages_ok_def)

lemma sortedMessages_mset: "mset (sortedMessages m) = image_mset snd (mset m)"
  by (simp add: sortedMessages_def)

lemma sortedMessages_set [simp]: "set (sortedMessages m) = snd ` set m"
  by (simp add: sortedMessages_def)

lemma sortedMessages_sorted: "sorted (map message_key (sortedMessages m))"
  by (simp add: sortedMessages_def)

lemma sortedMessages_distinct:
  assumes "messages_ok m"
  shows "distinct (map message_key (sortedMessages m))"
proof -
  have "map msg_ID (map snd m) = map fst m" using assms by (auto simp: messages_ok_def)
  then have "distinct (map msg_ID (map snd m))" using assms by (simp only: messages_ok_def wf_map_def)
  then have "distinct (map message_key (map snd m))"
    by (auto simp: distinct_map inj_on_def message_key_def)
  moreover have "mset (map message_key (sortedMessages m)) = mset (map message_key (map snd m))"
    by (simp add: sortedMessages_mset image_mset.compositionality)
  ultimately show ?thesis by (metis mset_eq_imp_distinct_iff)
qed

text \<open>Whatever the order of the map and whatever the sort does with equal elements, the listing is
  this one.\<close>

lemma sortedMessages_unique:
  assumes "messages_ok m" "mset xs = image_mset snd (mset m)" "sorted (map message_key xs)"
  shows "xs = sortedMessages m"
proof (rule sorted_key_unique [of _ _ message_key])
  show "mset xs = mset (sortedMessages m)" using assms(2) by (simp add: sortedMessages_mset)
  show "inj_on message_key (set (sortedMessages m))"
    using sortedMessages_distinct [OF assms(1)] distinct_map by blast
qed (use assms(3) sortedMessages_sorted in auto)

lemma decodeCursor_safe: "cursor_safe t i \<Longrightarrow> decodeCursor (encodeCursor t i) = Inr (t, i)"
  by (simp add: encodeCursor_def cursor_encoding_safe decodeCursor_def cursor_safe_def)

lemma message_after_iff:
  "(msg_CreatedAt m > t \<or> (msg_CreatedAt m = t \<and> msg_ID m > i)) \<longleftrightarrow> (t, i) < message_key m"
  by (auto simp: message_key_def less_prod_def)

interpretation message_pages: pager
  "\<lambda>s. sortedMessages (project_messages s sc)" "\<lambda>s c. ListMessages sc limit c s" BlankCursor
  "\<lambda>m. encodeCursor (msg_CreatedAt m) (msg_ID m)" "nat (normalizeLimit limit)"
  "\<lambda>s. scope_validate sc = Inr () \<and> messages_pageable (project_messages s sc)" for sc limit
proof unfold_locales
  show pos: "0 < nat (normalizeLimit limit)" using normalizeLimit_range [of limit] by simp
  let ?ok = "\<lambda>s. scope_validate sc = Inr () \<and> messages_pageable (project_messages s sc)"
  let ?enc = "\<lambda>m. encodeCursor (msg_CreatedAt m) (msg_ID m)"
  have safe: "cursor_safe (msg_CreatedAt a) (msg_ID a)"
    if "?ok s" "a \<in> set (sortedMessages (project_messages s sc))" for s a
    using that by (auto simp: messages_pageable_def)
  fix s a
  show "?ok s \<Longrightarrow> a \<in> set (sortedMessages (project_messages s sc)) \<Longrightarrow> ?enc a \<noteq> BlankCursor"
    using safe [of s a] by (simp add: encodeCursor_def cursor_encoding_safe)
  show "?ok s \<Longrightarrow> ListMessages sc limit BlankCursor s = Inr (take (nat (normalizeLimit limit)) (sortedMessages (project_messages s sc)),
      if nat (normalizeLimit limit) < length (sortedMessages (project_messages s sc))
      then ?enc (sortedMessages (project_messages s sc) ! (nat (normalizeLimit limit) - 1)) else BlankCursor)"
    using cut_page_eq [OF pos, of ?enc "[]" "sortedMessages (project_messages s sc)"]
    by (simp add: ListMessages_def decodeCursor_def Let_def)
  fix xs ys
  assume ok: "?ok s" and split: "sortedMessages (project_messages s sc) = xs @ a # ys" and "ys \<noteq> []"
  have a: "cursor_safe (msg_CreatedAt a) (msg_ID a)" using safe [OF ok] split by simp
  have "sorted (map message_key (xs @ a # ys))" "distinct (map message_key (xs @ a # ys))"
    using ok sortedMessages_sorted [of "project_messages s sc"]
      sortedMessages_distinct [of "project_messages s sc"] split by (simp_all add: messages_pageable_def)
  note after = sorted_split_after [OF this]
  have "first_index (\<lambda>m. message_key a < message_key m) ((xs @ [a]) @ ys) = length (xs @ [a])"
    by (rule first_index_split [OF after])
  then have "first_index (\<lambda>m. (msg_CreatedAt a, msg_ID a) < message_key m) ((xs @ [a]) @ ys) = length (xs @ [a])"
    by (simp only: message_key_def [of a])
  then show "ListMessages sc limit (?enc a) s = Inr (take (nat (normalizeLimit limit)) ys,
      if nat (normalizeLimit limit) < length ys then ?enc (ys ! (nat (normalizeLimit limit) - 1)) else BlankCursor)"
    using ok split cut_page_eq [OF pos, of ?enc "xs @ [a]" ys] a
    by (simp add: ListMessages_def decodeCursor_safe Let_def message_after_iff cursor_safe_def)
qed

text \<open>Following the cursors of the message listing from the start visits every stored
  message of the project once, in chronological order with ties broken by ID, for every limit, and
  stops; the recent messages are the end of that listing.\<close>

theorem message_pages_complete:
  assumes "scope_validate sc = Inr ()" "messages_pageable (project_messages s sc)"
    and "length (project_messages s sc) < fuel"
  shows "\<exists>xs. walk_pages (\<lambda>c. ListMessages sc limit c s) BlankCursor fuel BlankCursor = Some (Inr xs) \<and>
     mset xs = image_mset snd (mset (project_messages s sc)) \<and> distinct xs \<and>
     sorted (map (\<lambda>m. (msg_CreatedAt m, msg_ID m)) xs) \<and>
     LoadRecentMessages sc limit s = Inr (drop (length xs - nat (normalizeLimit limit)) xs)"
proof (intro exI conjI)
  let ?xs = "sortedMessages (project_messages s sc)"
  have "length ?xs < fuel" using assms(3) by (simp add: sortedMessages_def)
  then show "walk_pages (\<lambda>c. ListMessages sc limit c s) BlankCursor fuel BlankCursor = Some (Inr ?xs)"
    using message_pages.walk_complete [of sc s fuel limit] assms(1,2) by blast
  show "mset ?xs = image_mset snd (mset (project_messages s sc))" by (rule sortedMessages_mset)
  show "distinct ?xs"
    using sortedMessages_distinct assms(2) by (auto simp: messages_pageable_def distinct_map)
  show "sorted (map (\<lambda>m. (msg_CreatedAt m, msg_ID m)) ?xs)"
    using sortedMessages_sorted [of "project_messages s sc"] by (simp add: message_key_def [abs_def])
  show "LoadRecentMessages sc limit s = Inr (drop (length ?xs - nat (normalizeLimit limit)) ?xs)"
    using assms(1) by (simp add: LoadRecentMessages_def Let_def)
qed

lemma ex_message_safe: "i = ''m1'' \<or> i = ''m2'' \<Longrightarrow> t \<in> {1, 2} \<Longrightarrow> cursor_safe t i"
proof -
  have "\<not> blank ''m1'' \<and> \<not> blank ''m2''" by code_simp
  then show "i = ''m1'' \<or> i = ''m2'' \<Longrightarrow> t \<in> {1, 2} \<Longrightarrow> cursor_safe t i"
    by (auto simp: cursor_safe_def json_time_ok_def coerce_utf8_ascii between_def)
qed

lemma ex_store_messages:
  "map (\<lambda>(i, m). (i, msg_ID m, msg_CreatedAt m)) (project_messages ex_store ex_scope) =
     [(''m1'', ''m1'', 1), (''m2'', ''m2'', 2)]"
  by code_simp

lemma ex_store_pageable: "messages_pageable (project_messages ex_store ex_scope)"
proof -
  have "project_messages ex_store ex_scope \<noteq> [] \<and> length (project_messages ex_store ex_scope) = 2" by code_simp
  then obtain p q where pq: "project_messages ex_store ex_scope = [p, q]"
    by (metis (no_types, lifting) One_nat_def Suc_1 length_0_conv length_Suc_conv)
  show ?thesis
    using ex_store_messages unfolding pq
    by (auto simp: messages_pageable_def messages_ok_def split_beta ex_message_safe)
qed

theorem message_pages_complete_witness:
  "\<exists>xs. walk_pages (\<lambda>c. ListMessages ex_scope 1 c ex_store) BlankCursor 3 BlankCursor = Some (Inr xs) \<and> distinct xs"
proof -
  have "length (project_messages ex_store ex_scope) < 3" by code_simp
  from message_pages_complete [OF ex_scope_valid ex_store_pageable this, of 1] show ?thesis by blast
qed

subsection \<open>Who a message belongs to\<close>

text \<open>A message's actor never changes by an append: it succeeds exactly when the scope
  and ID are given and no message of another actor has the ID, it then stores the prepared message,
  and in every case each stored message keeps its actor and other projects keep theirs.\<close>

theorem append_message_keeps_actor:
  "(fst (AppendMessage now sc m s) = Inr () \<longleftrightarrow>
      scope_validate sc = Inr () \<and> msg_ID m \<noteq> [] \<and>
      (\<forall>e. map_of (project_messages s sc) (msg_ID m) = Some e \<longrightarrow> msg_ActorID e = msg_ActorID m)) \<and>
   (fst (AppendMessage now sc m s) = Inr () \<longrightarrow>
      map_of (project_messages (snd (AppendMessage now sc m s)) sc) (msg_ID m) = Some (prepareMessage now sc m)) \<and>
   (\<forall>i e. map_of (project_messages s sc) i = Some e \<longrightarrow>
      (\<exists>e'. map_of (project_messages (snd (AppendMessage now sc m s)) sc) i = Some e' \<and>
            msg_ActorID e' = msg_ActorID e)) \<and>
   (\<forall>sc'. sc' \<noteq> sc \<longrightarrow> project_messages (snd (AppendMessage now sc m s)) sc' = project_messages s sc')"
  by (cases "scope_validate sc"; cases "map_of (project_messages s sc) (msg_ID m)")
    (auto simp: AppendMessage_def Let_def)

theorem append_message_keeps_actor_witness:
  "fst (AppendMessage 9 ex_scope (ex_message ''m1'' ''user'' ''b'' 4) ex_store) \<noteq> Inr ()"
proof -
  have "map_option msg_ActorID (map_of (project_messages ex_store ex_scope) ''m1'') = Some ''a''" by code_simp
  then obtain e where e: "map_of (project_messages ex_store ex_scope) ''m1'' = Some e" "msg_ActorID e = ''a''" by blast
  have "msg_ID (ex_message ''m1'' ''user'' ''b'' 4) = ''m1''" "msg_ActorID (ex_message ''m1'' ''user'' ''b'' 4) = ''b''"
    by (simp_all add: ex_message_def)
  with e show ?thesis
    using append_message_keeps_actor [of 9 ex_scope "ex_message ''m1'' ''user'' ''b'' 4" ex_store] by auto
qed

lemma save_messages_stop:
  "save_messages ms m = (Inl e, m') \<Longrightarrow>
     \<exists>before bad after old. ms = before @ bad # after \<and> m' = fold (\<lambda>x. mput (msg_ID x) x) before m \<and>
       map_of m' (msg_ID bad) = Some old \<and> msg_ActorID old \<noteq> msg_ActorID bad"
proof (induction ms m rule: save_messages.induct)
  case (2 x rest m)
  show ?case
  proof (cases "case map_of m (msg_ID x) of Some old \<Rightarrow> msg_ActorID old \<noteq> msg_ActorID x | None \<Rightarrow> False")
    case True
    then obtain old where "map_of m (msg_ID x) = Some old" "msg_ActorID old \<noteq> msg_ActorID x"
      by (auto split: option.splits)
    moreover have "m' = m" using "2.prems" True by simp
    ultimately have "x # rest = [] @ x # rest \<and> m' = fold (\<lambda>x. mput (msg_ID x) x) [] m \<and>
        map_of m' (msg_ID x) = Some old \<and> msg_ActorID old \<noteq> msg_ActorID x" by simp
    then show ?thesis by blast
  next
    case False
    then obtain before bad after old where "rest = before @ bad # after"
      "m' = fold (\<lambda>x. mput (msg_ID x) x) before (mput (msg_ID x) x m)"
      "map_of m' (msg_ID bad) = Some old" "msg_ActorID old \<noteq> msg_ActorID bad"
      using "2.IH" "2.prems" by fastforce
    then have "x # rest = (x # before) @ bad # after \<and> m' = fold (\<lambda>x. mput (msg_ID x) x) (x # before) m \<and>
        map_of m' (msg_ID bad) = Some old \<and> msg_ActorID old \<noteq> msg_ActorID bad" by simp
    then show ?thesis by blast
  qed
qed simp

lemma save_messages_error: "save_messages ms m = (Inl e, m') \<Longrightarrow> e = ErrMsg ''message actor is immutable''"
  by (induction ms m rule: save_messages.induct) (auto split: option.splits if_splits)

lemma validateUnique_error: "validateUniqueAssistantRun m r = Inl e \<Longrightarrow> e = ErrAssistantRunConflict"
  by (induction m r rule: validateUniqueAssistantRun.induct) (auto split: if_splits)

lemma snapshot_valid_error:
  "validateAssistantRunSnapshot run msgs n \<noteq> Inl (ErrMsg ''message actor is immutable'')"
  by (auto simp: validateAssistantRunSnapshot_def validateAssistantRun_def validateAssistantRunMode_def
      guard_res_def NormalizeAssistantApprovalMode_def Let_def split: sum.splits if_splits)

text \<open>A snapshot whose message is refused because of its actor has already written the
  messages before it: the run is untouched, the operation reports the error, and the stored
  messages are those of the store with the earlier messages put in.\<close>

theorem snapshot_partial_write:
  assumes "SaveAssistantRunSnapshot now sc run msgs n s = (Inl (ErrMsg ''message actor is immutable''), s')"
  shows "\<exists>before bad after old. msgs = before @ bad # after \<and>
     project_messages s' sc = fold (\<lambda>m. mput (msg_ID m) (prepareMessage now sc m)) before (project_messages s sc) \<and>
     map_of (project_messages s' sc) (msg_ID bad) = Some old \<and> msg_ActorID old \<noteq> msg_ActorID bad \<and>
     assistantRuns s' = assistantRuns s"
proof -
  obtain x ms where x: "save_messages (map (prepareMessage now sc) msgs) (project_messages s sc) = (x, ms)"
    by (cases "save_messages (map (prepareMessage now sc) msgs) (project_messages s sc)")
  have "isl x \<and> s' = s\<lparr>messages := mput sc ms (messages s)\<rparr>"
  proof (cases "scope_validate sc")
    case (Inl e)
    then show ?thesis
      using assms by (auto simp: SaveAssistantRunSnapshot_def scope_validate_def guard_res_def split: if_splits)
  next
    case (Inr u)
    note scope_ok = Inr
    show ?thesis
    proof (cases "validateAssistantRunSnapshot run msgs n")
      case (Inl e)
      then show ?thesis
        using assms scope_ok snapshot_valid_error [of run msgs n] by (simp add: SaveAssistantRunSnapshot_def)
    next
      case (Inr v)
      then show ?thesis
        using assms scope_ok x validateUnique_error
        by (auto simp: SaveAssistantRunSnapshot_def Let_def split: option.splits sum.splits if_splits)
    qed
  qed
  then obtain e where save: "save_messages (map (prepareMessage now sc) msgs) (project_messages s sc) = (Inl e, ms)"
    and s': "s' = s\<lparr>messages := mput sc ms (messages s)\<rparr>"
    using x by (auto simp: isl_def)
  from save_messages_stop [OF save] obtain before bad after old where
    split: "map (prepareMessage now sc) msgs = before @ bad # after"
    and ms: "ms = fold (\<lambda>x. mput (msg_ID x) x) before (project_messages s sc)"
    and old: "map_of ms (msg_ID bad) = Some old" "msg_ActorID old \<noteq> msg_ActorID bad" by blast
  from split obtain b d a where "msgs = b @ d # a" "before = map (prepareMessage now sc) b" "bad = prepareMessage now sc d"
    by (auto simp: map_eq_append_conv map_eq_Cons_conv)
  with ms old s' show ?thesis by (auto simp: fold_map comp_def)
qed

theorem snapshot_partial_write_witness:
  "\<exists>s'. SaveAssistantRunSnapshot 10 ex_scope (ex_run ''r1'' RunCompleted ''c1'' 2)
       [ex_message ''m3'' ''assistant'' ''a'' 3, ex_message ''m1'' ''user'' ''b'' 4] 1 ex_store =
       (Inl (ErrMsg ''message actor is immutable''), s') \<and> assistantRuns s' = assistantRuns ex_store \<and>
     map_of (project_messages s' ex_scope) ''m3'' \<noteq> None"
proof -
  let ?r = "SaveAssistantRunSnapshot 10 ex_scope (ex_run ''r1'' RunCompleted ''c1'' 2)
       [ex_message ''m3'' ''assistant'' ''a'' 3, ex_message ''m1'' ''user'' ''b'' 4] 1 ex_store"
  have "fst ?r = Inl (ErrMsg ''message actor is immutable'')" by code_simp
  then have r: "?r = (Inl (ErrMsg ''message actor is immutable''), snd ?r)" by (rule result_eq)
  have "map_of (project_messages (snd ?r) ex_scope) ''m3'' \<noteq> None" by code_simp
  with snapshot_partial_write [OF r] r show ?thesis by blast
qed

text \<open>Creating a run writes its two messages without looking at the stored ones: when
  the run is new, the user message is stored with the caller's actor whatever message, of
  whatever actor, had its ID before.\<close>

theorem create_run_overwrites_messages:
  assumes "CreateAssistantRun now sc user asst run s = (Inr r, s')"
    and "map_of (project_runs s sc) (run_ID run) = None"
    and "find_client_request (run_ClientRequestID run) (project_runs s sc) = None"
  shows "map_of (project_messages s' sc) (msg_ID user) = Some (prepareMessage now sc user) \<and>
    map_of (project_messages s' sc) (msg_ID asst) = Some (prepareMessage now sc asst) \<and>
    (\<forall>i. i \<notin> {msg_ID user, msg_ID asst} \<longrightarrow>
       map_of (project_messages s' sc) i = map_of (project_messages s sc) i)"
proof (cases "scope_validate sc")
  case (Inr u)
  note scope_ok = Inr
  show ?thesis
  proof (cases "validateNewAssistantRun user asst run")
    case (Inr v)
    then have "msg_ID user \<noteq> msg_ID asst" by (auto simp: validateNewAssistantRun_def split: sum.splits if_splits)
    then show ?thesis
      using assms scope_ok Inr
      by (auto simp: CreateAssistantRun_def Let_def store_run_def split: sum.splits)
  qed (use assms(1) scope_ok in \<open>simp add: CreateAssistantRun_def\<close>)
qed (use assms(1) in \<open>simp add: CreateAssistantRun_def\<close>)

theorem create_run_overwrites_messages_witness:
  "\<exists>r s'. CreateAssistantRun 20 ex_scope (ex_message ''m1'' ''user'' ''b'' 1)
       (ex_message ''m2'' ''assistant'' ''b'' 2) (ex_run ''r2'' RunCompleted ''c2'' 1) ex_store = (Inr r, s') \<and>
     map_of (project_messages s' ex_scope) ''m1'' = Some (prepareMessage 20 ex_scope (ex_message ''m1'' ''user'' ''b'' 1))"
proof -
  let ?r = "CreateAssistantRun 20 ex_scope (ex_message ''m1'' ''user'' ''b'' 1)
       (ex_message ''m2'' ''assistant'' ''b'' 2) (ex_run ''r2'' RunCompleted ''c2'' 1) ex_store"
  have "\<not> isl (fst ?r)" by code_simp
  then obtain r where ok: "?r = (Inr r, snd ?r)" using result_Inr by blast
  have none: "map_of (project_runs ex_store ex_scope) (run_ID (ex_run ''r2'' RunCompleted ''c2'' 1)) = None"
    "find_client_request (run_ClientRequestID (ex_run ''r2'' RunCompleted ''c2'' 1)) (project_runs ex_store ex_scope) = None"
    by code_simp+
  have "msg_ID (ex_message ''m1'' ''user'' ''b'' 1) = ''m1''" by (simp add: ex_message_def)
  with create_run_overwrites_messages [OF ok none] ok show ?thesis by metis
qed

end
