(* ===== verification/AppStore_Threads.thy ===== *)
theory AppStore_Threads
  imports AppStore_Messages
begin

section \<open>App Studio store: threads, turns and thread events\<close>

text \<open>
  \<open>providers/app-studio/store/thread_memory.go\<close>: threads, their turns and the append-only event
  stream of each thread. A turn's ID is also the ID of the assistant run that executes it, which
  is how deleting a thread finds the rows of the run tables. The event stream interprets
  \<open>event_log\<close>, the thread listing interprets \<open>pager\<close>. A write through an inner map that does not
  exist is the panic \<open>PanicNilMap\<close>; \<open>threads_ok\<close> is the invariant that rules it out.
\<close>

subsection \<open>Threads\<close>

abbreviation project_threads :: "memory_store \<Rightarrow> scope \<Rightarrow> (string, assistant_thread) gomap" where
  "project_threads s sc \<equiv> inner (assistantThreads s) sc"

abbreviation thread_turns :: "memory_store \<Rightarrow> scope \<Rightarrow> string \<Rightarrow> (string, assistant_turn) gomap" where
  "thread_turns s sc tid \<equiv> inner (inner (assistantTurns s) sc) tid"

abbreviation thread_log :: "memory_store \<Rightarrow> scope \<Rightarrow> string \<Rightarrow> thread_event list" where
  "thread_log s sc tid \<equiv> inner (inner (threadEvents s) sc) tid"

definition put_thread :: "scope \<Rightarrow> string \<Rightarrow> assistant_thread \<Rightarrow> memory_store \<Rightarrow> memory_store" where
  "put_thread scope tid t s = s\<lparr>assistantThreads := put2 scope tid t (assistantThreads s)\<rparr>"

definition put_events :: "scope \<Rightarrow> string \<Rightarrow> thread_event list \<Rightarrow> memory_store \<Rightarrow> memory_store" where
  "put_events scope tid es s = s\<lparr>threadEvents := put2 scope tid es (threadEvents s)\<rparr>"

text \<open>The loop that prepares a list of events for a thread and turn, numbering them from 1; the
  first error stops it. \<open>fix_ids\<close> is what the caller writes into each event first.\<close>

fun prepare_events ::
  "gotime \<Rightarrow> (thread_event \<Rightarrow> thread_event) \<Rightarrow> int \<Rightarrow> thread_event list \<Rightarrow> thread_event list sres" where
  "prepare_events now fix_ids index [] = Inr []"
| "prepare_events now fix_ids index (e # es) =
     (case prepareAssistantThreadEvent now (fix_ids e) of
        Inl x \<Rightarrow> Inl x
      | Inr p \<Rightarrow> (case prepare_events now fix_ids (index + 1) es of
          Inl x \<Rightarrow> Inl x | Inr ps \<Rightarrow> Inr (p\<lparr>tev_Sequence := index + 1\<rparr> # ps)))"

definition CreateAssistantThread ::
  "gotime \<Rightarrow> scope \<Rightarrow> assistant_thread \<Rightarrow> thread_event list \<Rightarrow> memory_store \<Rightarrow>
   assistant_thread sres \<times> memory_store" where
  "CreateAssistantThread now scope thread events s =
     (case scope_validate scope of Inl e \<Rightarrow> (Inl e, s) | Inr _ \<Rightarrow>
      case prepareAssistantThread now thread of Inl e \<Rightarrow> (Inl e, s) | Inr prepared \<Rightarrow>
      (let s1 = s\<lparr>assistantThreads := ensure_inner scope (assistantThreads s)\<rparr> in
       case map_of (project_threads s1 scope) (thr_ID prepared) of
         Some existing \<Rightarrow>
           if thr_ActorID existing \<noteq> thr_ActorID prepared then (Inl ErrAssistantThreadConflict, s1)
           else (Inr existing, s1)
       | None \<Rightarrow>
           (case prepare_events now (\<lambda>e. e\<lparr>tev_ThreadID := thr_ID prepared\<rparr>) 0 events of
              Inl e \<Rightarrow> (Inl e, s1)
            | Inr preparedEvents \<Rightarrow>
                (let s2 = put_thread scope (thr_ID prepared) prepared s1;
                     s3 = s2\<lparr>threadEvents := ensure_inner scope (threadEvents s2)\<rparr>
                 in (Inr prepared, put_events scope (thr_ID prepared) preparedEvents s3)))))"

definition GetAssistantThread :: "scope \<Rightarrow> string \<Rightarrow> memory_store \<Rightarrow> assistant_thread sres" where
  "GetAssistantThread scope threadID s =
     (case scope_validate scope of Inl e \<Rightarrow> Inl e | Inr _ \<Rightarrow>
      (case map_of (project_threads s scope) (trim_space threadID) of
         None \<Rightarrow> Inl ErrAssistantThreadNotFound | Some thread \<Rightarrow> Inr thread))"

definition encodeThreadCursor :: "gotime \<Rightarrow> string \<Rightarrow> cursor" where
  "encodeThreadCursor t i = cursor_encoding t i"

definition decodeThreadCursor :: "cursor \<Rightarrow> (gotime \<times> string) sres" where
  "decodeThreadCursor c =
     (case c of
        BlankCursor \<Rightarrow> Inr (0, [])
      | NotBase64 \<Rightarrow> Inl (ErrMsg ''illegal base64 data'')
      | NotPayload \<Rightarrow> Inl ErrAssistantThreadConflict
      | CursorPayload t i \<Rightarrow> if t = 0 \<or> blank i then Inl ErrAssistantThreadConflict else Inr (t, i))"

definition thread_key :: "assistant_thread \<Rightarrow> gotime \<times> string" where
  "thread_key t = (thr_UpdatedAt t, thr_ID t)"

definition ListAssistantThreads ::
  "scope \<Rightarrow> string \<Rightarrow> bool \<Rightarrow> int \<Rightarrow> cursor \<Rightarrow> memory_store \<Rightarrow> (assistant_thread list \<times> cursor) sres" where
  "ListAssistantThreads scope actorID includeArchived limit0 c s =
     (case scope_validate scope of Inl e \<Rightarrow> Inl e | Inr _ \<Rightarrow>
      (let limit = nat (normalizeLimit limit0) in
       case decodeThreadCursor c of Inl e \<Rightarrow> Inl e | Inr (cursorTime, cursorID) \<Rightarrow>
       (let visible = filter (\<lambda>t. \<not> thr_ActorID t \<noteq> trim_space actorID \<and>
                \<not> (\<not> includeArchived \<and> thr_Status t = ThreadArchived))
              (map snd (project_threads s scope));
            items = rev (sort_key thread_key visible);
            start = (if cursorTime \<noteq> 0
              then first_index (\<lambda>t. thr_UpdatedAt t < cursorTime \<or>
                     (thr_UpdatedAt t = cursorTime \<and> thr_ID t < cursorID)) items
              else 0)
        in Inr (cut_page (\<lambda>t. encodeThreadCursor (thr_UpdatedAt t) (thr_ID t)) start limit items))))"

definition UpdateAssistantThread ::
  "gotime \<Rightarrow> scope \<Rightarrow> assistant_thread \<Rightarrow> memory_store \<Rightarrow> assistant_thread sres \<times> memory_store" where
  "UpdateAssistantThread now scope thread s =
     (case scope_validate scope of Inl e \<Rightarrow> (Inl e, s) | Inr _ \<Rightarrow>
      case prepareAssistantThread now thread of Inl e \<Rightarrow> (Inl e, s) | Inr prepared0 \<Rightarrow>
      (case map_of (project_threads s scope) (thr_ID prepared0) of
         None \<Rightarrow> (Inl ErrAssistantThreadNotFound, s)
       | Some existing \<Rightarrow>
           if thr_ActorID existing \<noteq> thr_ActorID prepared0 then (Inl ErrAssistantThreadConflict, s)
           else (let prepared = prepared0\<lparr>thr_CreatedAt := thr_CreatedAt existing\<rparr>
                 in (Inr prepared, put_thread scope (thr_ID prepared) prepared s))))"

text \<open>The JSON of \<open>{"thread": ...}\<close> that a title change puts into an empty payload; it has no
  encoding when an instant has none.\<close>

definition json_field :: "string \<Rightarrow> string \<Rightarrow> string" where
  "json_field name value = json_quote name @ '':'' @ value"

definition thread_payload :: "assistant_thread \<Rightarrow> string sres" where
  "thread_payload t =
     (case (json_time (thr_CreatedAt t), json_time (thr_UpdatedAt t)) of
        (Some created, Some updated) \<Rightarrow>
          Inr (''{'' @ json_field ''thread'' (''{'' @
             json_field ''id'' (json_quote (thr_ID t)) @ '','' @
             (if thr_Title t = [] then [] else json_field ''title'' (json_quote (thr_Title t)) @ '','') @
             json_field ''status'' (json_quote (thr_Status t)) @ '','' @
             (if thr_ActorID t = [] then [] else json_field ''actorID'' (json_quote (thr_ActorID t)) @ '','') @
             json_field ''createdAt'' created @ '','' @ json_field ''updatedAt'' updated @ ''}'') @ ''}'')
      | _ \<Rightarrow> Inl (ErrMsg ''Time.MarshalJSON: year outside of range [0,9999]''))"

definition SetAssistantThreadTitleIfEmpty ::
  "gotime \<Rightarrow> scope \<Rightarrow> string \<Rightarrow> string \<Rightarrow> string \<Rightarrow> thread_event \<Rightarrow> memory_store \<Rightarrow>
   (assistant_thread \<times> bool) sres \<times> memory_store" where
  "SetAssistantThreadTitleIfEmpty now scope threadID0 actorID0 title0 event s =
     (case scope_validate scope of Inl e \<Rightarrow> (Inl e, s) | Inr _ \<Rightarrow>
      (let threadID = trim_space threadID0; actorID = trim_space actorID0; title = trim_space title0 in
       if threadID = [] \<or> actorID = [] then (Inl (ErrMsg ''assistant thread id and actor are required''), s)
       else if title = [] then (Inl (ErrMsg ''assistant thread title is required''), s)
       else case prepareAssistantThreadEvent now (event\<lparr>tev_ThreadID := threadID\<rparr>) of
         Inl e \<Rightarrow> (Inl e, s)
       | Inr preparedEvent \<Rightarrow>
           (case map_of (project_threads s scope) threadID of
              None \<Rightarrow> (Inl ErrAssistantThreadNotFound, s)
            | Some thread \<Rightarrow>
                if thr_ActorID thread \<noteq> actorID then (Inl ErrAssistantThreadConflict, s)
                else if thr_Status thread = ThreadArchived \<or> \<not> blank (thr_Title thread)
                then (Inr (thread, False), s)
                else
                  (let thread' = thread\<lparr>thr_Title := title, thr_UpdatedAt := now\<rparr>;
                       payload = (if tev_Payload preparedEvent = [] \<or> tev_Payload preparedEvent = ''{}''
                                  then thread_payload thread' else Inr (tev_Payload preparedEvent))
                   in case payload of Inl e \<Rightarrow> (Inl e, s) | Inr p \<Rightarrow>
                      (let s1 = put_thread scope threadID thread' s;
                           log = thread_log s1 scope threadID
                       in if map_of (threadEvents s1) scope = None then (Inl PanicNilMap, s1)
                          else (Inr (thread', True),
                                put_events scope threadID
                                  (log @ [preparedEvent\<lparr>tev_Payload := p,
                                            tev_Sequence := i64 (int (length log) + 1)\<rparr>]) s1))))))"

definition UpdateAssistantThreadWithEvent ::
  "gotime \<Rightarrow> scope \<Rightarrow> assistant_thread \<Rightarrow> thread_event \<Rightarrow> int \<Rightarrow> memory_store \<Rightarrow>
   (assistant_thread \<times> thread_event) sres \<times> memory_store" where
  "UpdateAssistantThreadWithEvent now scope thread event expectedSequence s =
     (case scope_validate scope of Inl e \<Rightarrow> (Inl e, s) | Inr _ \<Rightarrow>
      case prepareAssistantThread now thread of Inl e \<Rightarrow> (Inl e, s) | Inr prepared0 \<Rightarrow>
      case prepareAssistantThreadEvent now (event\<lparr>tev_ThreadID := thr_ID prepared0\<rparr>) of
        Inl e \<Rightarrow> (Inl e, s)
      | Inr preparedEvent0 \<Rightarrow>
      (case map_of (project_threads s scope) (thr_ID prepared0) of
         None \<Rightarrow> (Inl ErrAssistantThreadNotFound, s)
       | Some existing \<Rightarrow>
           if thr_ActorID existing \<noteq> thr_ActorID prepared0 then (Inl ErrAssistantThreadConflict, s)
           else
             (let events = thread_log s scope (thr_ID prepared0) in
              if int (length events) \<noteq> expectedSequence then (Inl ErrAssistantThreadEventConflict, s)
              else
                (let prepared = prepared0\<lparr>thr_CreatedAt := thr_CreatedAt existing\<rparr>;
                     preparedEvent = preparedEvent0\<lparr>tev_Sequence := i64 (expectedSequence + 1)\<rparr>;
                     s1 = put_thread scope (thr_ID prepared) prepared s
                 in if map_of (threadEvents s1) scope = None then (Inl PanicNilMap, s1)
                    else (Inr (prepared, preparedEvent),
                          put_events scope (thr_ID prepared) (events @ [preparedEvent]) s1)))))"

subsection \<open>Deleting a thread\<close>

text \<open>The message IDs and the run rows of the turns, taken out turn by turn.\<close>

fun run_message_ids :: "(string, assistant_run) gomap \<Rightarrow> (string, assistant_turn) gomap \<Rightarrow> string list" where
  "run_message_ids runs [] = []"
| "run_message_ids runs ((turnID, _) # turns) =
     (case map_of runs turnID of
        Some run \<Rightarrow> filter (\<lambda>i. i \<noteq> []) [run_UserMessageID run, run_ActiveMessageID run] @ run_message_ids runs turns
      | None \<Rightarrow> run_message_ids runs turns)"

definition delete_turn_runs :: "scope \<Rightarrow> (string, assistant_turn) gomap \<Rightarrow> memory_store \<Rightarrow> memory_store" where
  "delete_turn_runs scope turns s =
     fold (\<lambda>(turnID, _) s. if map_of (inner (assistantRuns s) scope) turnID = None then s
             else s\<lparr>assistantRuns := del2 scope turnID (assistantRuns s),
                    assistantEvents := del2 scope turnID (assistantEvents s)\<rparr>) turns s"

definition delete_messages :: "scope \<Rightarrow> string list \<Rightarrow> memory_store \<Rightarrow> memory_store" where
  "delete_messages scope ids s = s\<lparr>messages := fold (\<lambda>i. del2 scope i) ids (messages s)\<rparr>"

definition delete_turn_items :: "scope \<Rightarrow> (string, assistant_turn) gomap \<Rightarrow> memory_store \<Rightarrow> memory_store" where
  "delete_turn_items scope turns s =
     (let items = conversation s scope in
      if items = [] then s
      else (let filtered = filter (\<lambda>it. map_of turns (itm_RunID it) = None) items
            in if filtered = [] then s\<lparr>conversationItems := mdel scope (conversationItems s)\<rparr>
               else s\<lparr>conversationItems := mput scope filtered (conversationItems s)\<rparr>))"

definition DeleteAssistantThread ::
  "scope \<Rightarrow> string \<Rightarrow> string \<Rightarrow> memory_store \<Rightarrow> unit sres \<times> memory_store" where
  "DeleteAssistantThread scope threadID0 actorID0 s =
     (case scope_validate scope of Inl e \<Rightarrow> (Inl e, s) | Inr _ \<Rightarrow>
      (let threadID = trim_space threadID0; actorID = trim_space actorID0 in
       if threadID = [] \<or> actorID = [] then (Inl (ErrMsg ''assistant thread id and actor are required''), s)
       else case map_of (project_threads s scope) threadID of
         None \<Rightarrow> (Inl ErrAssistantThreadNotFound, s)
       | Some thread \<Rightarrow>
           if thr_ActorID thread \<noteq> actorID then (Inl ErrAssistantThreadConflict, s)
           else
             (let turns = thread_turns s scope threadID in
              if \<exists>p \<in> set turns. \<not> assistantTurnStatusTerminal (trn_Status (snd p))
              then (Inl ErrAssistantThreadActive, s)
              else
                (let s1 = (if turns = [] then s
                      else delete_turn_items scope turns
                             (delete_messages scope (run_message_ids (inner (assistantRuns s) scope) turns)
                               (delete_turn_runs scope turns s)))
                 in (Inr (),
                     s1\<lparr>assistantTurns := prune scope (del2 scope threadID (assistantTurns s1)),
                        threadEvents := prune scope (del2 scope threadID (threadEvents s1)),
                        assistantThreads := prune scope (del2 scope threadID (assistantThreads s1)),
                        assistantRuns := prune scope (assistantRuns s1),
                        assistantEvents := prune scope (assistantEvents s1),
                        messages := prune scope (messages s1)\<rparr>)))))"

subsection \<open>Turns\<close>

definition put_turn :: "scope \<Rightarrow> string \<Rightarrow> string \<Rightarrow> assistant_turn \<Rightarrow> memory_store \<Rightarrow> memory_store" where
  "put_turn scope threadID turnID t s =
     s\<lparr>assistantTurns := put2 scope threadID (mput turnID t (thread_turns s scope threadID)) (assistantTurns s)\<rparr>"

text \<open>The loop of \<open>CreateAssistantTurn\<close> over the turns of the thread: the first turn that carries
  the client's message ID is returned, the first active one before it is a conflict.\<close>

fun check_turns :: "string \<Rightarrow> (string, assistant_turn) gomap \<Rightarrow> assistant_turn option sres" where
  "check_turns cid [] = Inr None"
| "check_turns cid ((_, existing) # turns) =
     (if trn_ClientUserMessageID existing = cid then Inr (Some existing)
      else if \<not> assistantTurnStatusTerminal (trn_Status existing) then Inl ErrAssistantTurnConflict
      else check_turns cid turns)"

fun number_events :: "int \<Rightarrow> thread_event list \<Rightarrow> thread_event list" where
  "number_events n [] = []"
| "number_events n (e # es) = e\<lparr>tev_Sequence := i64 (n + 1)\<rparr> # number_events (n + 1) es"

definition CreateAssistantTurn ::
  "gotime \<Rightarrow> scope \<Rightarrow> assistant_turn \<Rightarrow> thread_event list \<Rightarrow> memory_store \<Rightarrow>
   assistant_turn sres \<times> memory_store" where
  "CreateAssistantTurn now scope turn events s =
     (case scope_validate scope of Inl e \<Rightarrow> (Inl e, s) | Inr _ \<Rightarrow>
      case prepareAssistantTurn now turn of Inl e \<Rightarrow> (Inl e, s) | Inr prepared \<Rightarrow>
      case prepare_events now
             (\<lambda>e. e\<lparr>tev_ThreadID := trn_ThreadID prepared, tev_TurnID := trn_ID prepared\<rparr>) 0 events of
        Inl e \<Rightarrow> (Inl e, s)
      | Inr preparedEvents \<Rightarrow>
      (case map_of (project_threads s scope) (trn_ThreadID prepared) of
         None \<Rightarrow> (Inl ErrAssistantThreadNotFound, s)
       | Some thread \<Rightarrow>
           if thr_ActorID thread \<noteq> trn_ActorID prepared then (Inl ErrAssistantTurnConflict, s)
           else
             (let s1 = s\<lparr>assistantTurns := ensure_inner scope (assistantTurns s)\<rparr>;
                  s2 = s1\<lparr>assistantTurns := mput scope
                         (ensure_inner (trn_ThreadID prepared) (inner (assistantTurns s1) scope)) (assistantTurns s1)\<rparr>
              in case check_turns (trn_ClientUserMessageID prepared) (thread_turns s2 scope (trn_ThreadID prepared)) of
                   Inl e \<Rightarrow> (Inl e, s2)
                 | Inr (Some existing) \<Rightarrow> (Inr existing, s2)
                 | Inr None \<Rightarrow>
                     (let s3 = put_turn scope (trn_ThreadID prepared) (trn_ID prepared) prepared s2;
                          s4 = s3\<lparr>threadEvents := ensure_inner scope (threadEvents s3)\<rparr>;
                          log = thread_log s4 scope (trn_ThreadID prepared);
                          s5 = put_events scope (trn_ThreadID prepared)
                                 (log @ number_events (int (length log)) preparedEvents) s4
                      in (Inr prepared,
                          put_thread scope (thr_ID thread)
                            (thread\<lparr>thr_Status := ThreadActive, thr_UpdatedAt := trn_UpdatedAt prepared\<rparr>) s5)))))"

definition GetAssistantTurn :: "scope \<Rightarrow> string \<Rightarrow> string \<Rightarrow> memory_store \<Rightarrow> assistant_turn sres" where
  "GetAssistantTurn scope threadID turnID s =
     (case scope_validate scope of Inl e \<Rightarrow> Inl e | Inr _ \<Rightarrow>
      (case map_of (thread_turns s scope (trim_space threadID)) (trim_space turnID) of
         None \<Rightarrow> Inl ErrAssistantTurnNotFound | Some turn \<Rightarrow> Inr turn))"

fun first_turn :: "(assistant_turn \<Rightarrow> bool) \<Rightarrow> (string, assistant_turn) gomap \<Rightarrow> assistant_turn sres" where
  "first_turn P [] = Inl ErrAssistantTurnNotFound"
| "first_turn P ((_, turn) # turns) = (if P turn then Inr turn else first_turn P turns)"

definition FindAssistantTurnByClientUserMessageID ::
  "scope \<Rightarrow> string \<Rightarrow> string \<Rightarrow> memory_store \<Rightarrow> assistant_turn sres" where
  "FindAssistantTurnByClientUserMessageID scope threadID cid s =
     (case scope_validate scope of Inl e \<Rightarrow> Inl e | Inr _ \<Rightarrow>
      first_turn (\<lambda>t. trn_ClientUserMessageID t = trim_space cid) (thread_turns s scope (trim_space threadID)))"

definition ActiveAssistantTurn :: "scope \<Rightarrow> string \<Rightarrow> memory_store \<Rightarrow> assistant_turn sres" where
  "ActiveAssistantTurn scope threadID s =
     (case scope_validate scope of Inl e \<Rightarrow> Inl e | Inr _ \<Rightarrow>
      first_turn (\<lambda>t. \<not> assistantTurnStatusTerminal (trn_Status t)) (thread_turns s scope (trim_space threadID)))"

definition zero_thread :: assistant_thread where
  "zero_thread = \<lparr>thr_ID = [], thr_Title = [], thr_Status = [], thr_ActorID = [], thr_CreatedAt = 0, thr_UpdatedAt = 0\<rparr>"

text \<open>The end of both saves: the thread's status follows the turn's. A missing thread reads as the
  zero value.\<close>

definition project_turn_status :: "scope \<Rightarrow> assistant_turn \<Rightarrow> memory_store \<Rightarrow> unit sres \<times> memory_store" where
  "project_turn_status scope prepared s =
     (let thread = (case map_of (project_threads s scope) (trn_ThreadID prepared) of None \<Rightarrow> zero_thread | Some t \<Rightarrow> t);
          status = (if assistantTurnStatusTerminal (trn_Status prepared) then ThreadIdle else ThreadActive)
      in if map_of (assistantThreads s) scope = None then (Inl PanicNilMap, s)
         else (Inr (), put_thread scope (trn_ThreadID prepared)
                 (thread\<lparr>thr_Status := status, thr_UpdatedAt := trn_UpdatedAt prepared\<rparr>) s))"

definition turn_contract_differs :: "assistant_turn \<Rightarrow> assistant_turn \<Rightarrow> bool" where
  "turn_contract_differs existing prepared \<longleftrightarrow>
     trn_ActorID existing \<noteq> trn_ActorID prepared \<or>
     trn_ClientUserMessageID existing \<noteq> trn_ClientUserMessageID prepared \<or>
     trn_Mode existing \<noteq> trn_Mode prepared \<or> trn_ApprovalMode existing \<noteq> trn_ApprovalMode prepared"

definition SaveAssistantTurn ::
  "gotime \<Rightarrow> scope \<Rightarrow> assistant_turn \<Rightarrow> memory_store \<Rightarrow> unit sres \<times> memory_store" where
  "SaveAssistantTurn now scope turn s =
     (case scope_validate scope of Inl e \<Rightarrow> (Inl e, s) | Inr _ \<Rightarrow>
      case prepareAssistantTurn now turn of Inl e \<Rightarrow> (Inl e, s) | Inr prepared0 \<Rightarrow>
      (case map_of (thread_turns s scope (trn_ThreadID prepared0)) (trn_ID prepared0) of
         None \<Rightarrow> (Inl ErrAssistantTurnNotFound, s)
       | Some existing \<Rightarrow>
           if turn_contract_differs existing prepared0 then (Inl ErrAssistantTurnConflict, s)
           else
             (let prepared = prepared0\<lparr>trn_CreatedAt := trn_CreatedAt existing\<rparr>
              in project_turn_status scope prepared
                   (put_turn scope (trn_ThreadID prepared) (trn_ID prepared) prepared s))))"

definition SaveAssistantTurnWithEvent ::
  "gotime \<Rightarrow> scope \<Rightarrow> assistant_turn \<Rightarrow> thread_event \<Rightarrow> int \<Rightarrow> memory_store \<Rightarrow> unit sres \<times> memory_store" where
  "SaveAssistantTurnWithEvent now scope turn event expectedSequence s =
     (case scope_validate scope of Inl e \<Rightarrow> (Inl e, s) | Inr _ \<Rightarrow>
      case prepareAssistantTurn now turn of Inl e \<Rightarrow> (Inl e, s) | Inr prepared0 \<Rightarrow>
      case prepareAssistantThreadEvent now
             (event\<lparr>tev_ThreadID := trn_ThreadID prepared0, tev_TurnID := trn_ID prepared0\<rparr>) of
        Inl e \<Rightarrow> (Inl e, s)
      | Inr preparedEvent \<Rightarrow>
      (case map_of (thread_turns s scope (trn_ThreadID prepared0)) (trn_ID prepared0) of
         None \<Rightarrow> (Inl ErrAssistantTurnNotFound, s)
       | Some existing \<Rightarrow>
           if turn_contract_differs existing prepared0 then (Inl ErrAssistantTurnConflict, s)
           else
             (let events = thread_log s scope (trn_ThreadID prepared0) in
              if int (length events) \<noteq> expectedSequence then (Inl ErrAssistantThreadEventConflict, s)
              else
                (let prepared = prepared0\<lparr>trn_CreatedAt := trn_CreatedAt existing\<rparr>;
                     s1 = put_turn scope (trn_ThreadID prepared) (trn_ID prepared) prepared s
                 in if map_of (threadEvents s1) scope = None then (Inl PanicNilMap, s1)
                    else project_turn_status scope prepared
                           (put_events scope (trn_ThreadID prepared)
                              (events @ [preparedEvent\<lparr>tev_Sequence := i64 (expectedSequence + 1)\<rparr>]) s1)))))"

subsection \<open>Thread events\<close>

definition AppendAssistantThreadEvent ::
  "gotime \<Rightarrow> scope \<Rightarrow> thread_event \<Rightarrow> int \<Rightarrow> memory_store \<Rightarrow> thread_event sres \<times> memory_store" where
  "AppendAssistantThreadEvent now scope event expectedSequence s =
     (case scope_validate scope of Inl e \<Rightarrow> (Inl e, s) | Inr _ \<Rightarrow>
      case prepareAssistantThreadEvent now event of Inl e \<Rightarrow> (Inl e, s) | Inr prepared0 \<Rightarrow>
      if map_of (project_threads s scope) (tev_ThreadID prepared0) = None
      then (Inl ErrAssistantThreadNotFound, s)
      else
        (let events = thread_log s scope (tev_ThreadID prepared0) in
         if int (length events) \<noteq> expectedSequence then (Inl ErrAssistantThreadEventConflict, s)
         else if map_of (threadEvents s) scope = None then (Inl PanicNilMap, s)
         else
           (let prepared = prepared0\<lparr>tev_Sequence := i64 (expectedSequence + 1)\<rparr>
            in (Inr prepared, put_events scope (tev_ThreadID prepared) (events @ [prepared]) s))))"

definition ListAssistantThreadEvents ::
  "scope \<Rightarrow> string \<Rightarrow> int \<Rightarrow> int \<Rightarrow> memory_store \<Rightarrow> thread_event list sres" where
  "ListAssistantThreadEvents scope threadID afterSequence limit s =
     (case scope_validate scope of Inl e \<Rightarrow> Inl e | Inr _ \<Rightarrow>
      if map_of (project_threads s scope) (trim_space threadID) = None then Inl ErrAssistantThreadNotFound
      else Inr (take_matching (\<lambda>ev. \<not> tev_Sequence ev \<le> afterSequence) (nat (normalizeLimit limit))
             (thread_log s scope (trim_space threadID))))"

subsection \<open>What is kept true of the threads of one project\<close>

lemma put_thread_simps [simp]:
  "assistantThreads (put_thread sc i t s) = put2 sc i t (assistantThreads s)"
  "assistantTurns (put_thread sc i t s) = assistantTurns s"
  "threadEvents (put_thread sc i t s) = threadEvents s"
  by (simp_all add: put_thread_def)

lemma put_events_simps [simp]:
  "assistantThreads (put_events sc i es s) = assistantThreads s"
  "assistantTurns (put_events sc i es s) = assistantTurns s"
  "threadEvents (put_events sc i es s) = put2 sc i es (threadEvents s)"
  by (simp_all add: put_events_def)

lemma put_turn_simps [simp]:
  "assistantThreads (put_turn sc tid i t s) = assistantThreads s"
  "assistantTurns (put_turn sc tid i t s) = put2 sc tid (mput i t (thread_turns s sc tid)) (assistantTurns s)"
  "threadEvents (put_turn sc tid i t s) = threadEvents s"
  by (simp_all add: put_turn_def)

text \<open>The rows outside the thread tables, which only a thread's deletion touches.\<close>

definition other_rows :: "memory_store \<Rightarrow> memory_store" where
  "other_rows s = s\<lparr>assistantThreads := [], assistantTurns := [], threadEvents := []\<rparr>"

lemma other_rows_put [simp]:
  "other_rows (put_thread sc i t s) = other_rows s"
  "other_rows (put_events sc i es s) = other_rows s"
  "other_rows (put_turn sc tid i u s) = other_rows s"
  by (simp_all add: other_rows_def put_thread_def put_events_def put_turn_def)

lemma other_rows_update [simp]:
  "other_rows (s\<lparr>assistantThreads := x\<rparr>) = other_rows s"
  "other_rows (s\<lparr>assistantTurns := y\<rparr>) = other_rows s"
  "other_rows (s\<lparr>threadEvents := z\<rparr>) = other_rows s"
  by (simp_all add: other_rows_def)

definition turns_ok :: "string \<Rightarrow> (string, assistant_turn) gomap \<Rightarrow> bool" where
  "turns_ok tid m \<longleftrightarrow> wf_map m \<and> (\<forall>(i, t) \<in> set m. trn_ID t = i \<and> trn_ThreadID t = tid) \<and>
     (\<forall>(i, t) \<in> set m. \<forall>(j, q) \<in> set m. trn_ClientUserMessageID t = trn_ClientUserMessageID q \<longrightarrow> i = j)"

definition thread_rows_ok ::
  "(string, assistant_thread) gomap \<Rightarrow> (string, (string, assistant_turn) gomap) gomap \<Rightarrow>
   (string, thread_event list) gomap \<Rightarrow> bool" where
  "thread_rows_ok ths tns evs \<longleftrightarrow>
     wf_map ths \<and> (\<forall>i t. map_of ths i = Some t \<longrightarrow> thr_ID t = i \<and> thr_ActorID t \<noteq> []) \<and>
     (\<forall>tid. map_of evs tid = None \<longleftrightarrow> map_of ths tid = None) \<and>
     (\<forall>tid. map_of ths tid = None \<longrightarrow> inner tns tid = []) \<and>
     (\<forall>tid. turns_ok tid (inner tns tid)) \<and> (\<forall>tid. log_ok tev_Sequence (inner evs tid))"

definition threads_ok :: "memory_store \<Rightarrow> bool" where
  "threads_ok s \<longleftrightarrow>
     (\<forall>sc. thread_rows_ok (project_threads s sc) (inner (assistantTurns s) sc) (inner (threadEvents s) sc))"

lemma turns_ok_Nil [simp]: "turns_ok tid []"
  by (simp add: turns_ok_def)

lemma thread_rows_ok_Nil [simp]: "thread_rows_ok [] [] []"
  by (simp add: thread_rows_ok_def)

lemma turns_ok_mput:
  "turns_ok tid m \<Longrightarrow> trn_ID t = i \<Longrightarrow> trn_ThreadID t = tid \<Longrightarrow>
   \<forall>(j, q) \<in> set m. trn_ClientUserMessageID q = trn_ClientUserMessageID t \<longrightarrow> j = i \<Longrightarrow> turns_ok tid (mput i t m)"
  by (auto simp: turns_ok_def set_mput)

lemma turns_ok_update:
  assumes "turns_ok tid m" "map_of m i = Some old" "trn_ID t = i" "trn_ThreadID t = tid"
    "trn_ClientUserMessageID t = trn_ClientUserMessageID old"
  shows "turns_ok tid (mput i t m)"
proof (rule turns_ok_mput [OF assms(1,3,4)])
  have "(i, old) \<in> set m" using assms(2) by (rule map_of_SomeD)
  then show "\<forall>(j, q) \<in> set m. trn_ClientUserMessageID q = trn_ClientUserMessageID t \<longrightarrow> j = i"
    using assms(1,5) by (fastforce simp: turns_ok_def)
qed

lemma rows_put_thread:
  "thread_rows_ok ths tns evs \<Longrightarrow> map_of ths i \<noteq> None \<Longrightarrow> thr_ID t = i \<Longrightarrow> thr_ActorID t \<noteq> [] \<Longrightarrow>
   thread_rows_ok (mput i t ths) tns evs"
  by (auto simp: thread_rows_ok_def)

lemma rows_put_events:
  "thread_rows_ok ths tns evs \<Longrightarrow> map_of ths i \<noteq> None \<Longrightarrow> log_ok tev_Sequence es \<Longrightarrow>
   thread_rows_ok ths tns (mput i es evs)"
  by (auto simp: thread_rows_ok_def)

lemma rows_put_turns:
  "thread_rows_ok ths tns evs \<Longrightarrow> map_of ths i \<noteq> None \<Longrightarrow> turns_ok i m \<Longrightarrow>
   thread_rows_ok ths (mput i m tns) evs"
  by (auto simp: thread_rows_ok_def)

lemma rows_new_thread:
  "thread_rows_ok ths tns evs \<Longrightarrow> thr_ID t = i \<Longrightarrow> thr_ActorID t \<noteq> [] \<Longrightarrow> log_ok tev_Sequence es \<Longrightarrow>
   thread_rows_ok (mput i t ths) tns (mput i es evs)"
  by (auto simp: thread_rows_ok_def)

lemma rows_del_thread:
  "thread_rows_ok ths tns evs \<Longrightarrow> thread_rows_ok (mdel i ths) (mdel i tns) (mdel i evs)"
  by (auto simp: thread_rows_ok_def)

lemma rows_ensure_turns [simp]:
  "thread_rows_ok ths (ensure_inner i tns) evs \<longleftrightarrow> thread_rows_ok ths tns evs"
  by (simp add: thread_rows_ok_def)

lemma threads_okD:
  "threads_ok s \<Longrightarrow> thread_rows_ok (project_threads s sc) (inner (assistantTurns s) sc) (inner (threadEvents s) sc)"
  by (simp add: threads_ok_def)

lemma threads_ok_get:
  "threads_ok s \<Longrightarrow> map_of (project_threads s sc) i = Some t \<Longrightarrow> thr_ID t = i \<and> thr_ActorID t \<noteq> []"
  by (simp add: threads_ok_def thread_rows_ok_def)

lemma threads_ok_log: "threads_ok s \<Longrightarrow> log_ok tev_Sequence (thread_log s sc tid)"
  by (simp add: threads_ok_def thread_rows_ok_def)

lemma threads_ok_log_snoc:
  "threads_ok s \<Longrightarrow> tev_Sequence x = i64 (int (length (thread_log s sc tid)) + 1) \<Longrightarrow>
   log_ok tev_Sequence (thread_log s sc tid @ [x])"
  by (rule log_ok_snoc [OF threads_ok_log])

lemma threads_ok_turns: "threads_ok s \<Longrightarrow> turns_ok tid (thread_turns s sc tid)"
  by (simp add: threads_ok_def thread_rows_ok_def)

text \<open>The event map of a project with a thread exists, and so does the thread of a turn: the writes
  of the operations do not panic.\<close>

lemma threads_ok_events_map:
  assumes "threads_ok s" "map_of (project_threads s sc) tid = Some t"
  shows "map_of (threadEvents s) sc \<noteq> None"
proof
  assume "map_of (threadEvents s) sc = None"
  then have "map_of (inner (threadEvents s) sc) tid = None" by (simp add: inner_def)
  with assms threads_okD [of s sc] show False by (auto simp: thread_rows_ok_def)
qed

lemma threads_ok_turn_thread:
  assumes "threads_ok s" "map_of (thread_turns s sc tid) i = Some u"
  obtains t where "map_of (project_threads s sc) tid = Some t"
  using assms threads_okD [of s sc] by (cases "map_of (project_threads s sc) tid") (auto simp: thread_rows_ok_def)

lemma threads_map_exists: "map_of (project_threads s sc) tid = Some t \<Longrightarrow> map_of (assistantThreads s) sc \<noteq> None"
  by (cases "map_of (assistantThreads s) sc") (simp_all add: inner_def)

lemma prepare_events_numbered:
  "prepare_events now f k es = Inr ps \<Longrightarrow> length ps = length es \<and> map tev_Sequence ps = [k + 1..k + int (length es)]"
proof (induction es arbitrary: k ps)
  case (Cons e es)
  then obtain p qs where q: "prepare_events now f (k + 1) es = Inr qs" "ps = p\<lparr>tev_Sequence := k + 1\<rparr> # qs"
    by (auto split: sum.splits)
  with Cons.IH [OF q(1)] show ?case by (simp add: upto_rec1 add.assoc)
qed simp

lemma prepare_events_log_ok: "prepare_events now f 0 es = Inr ps \<Longrightarrow> log_ok tev_Sequence ps"
  using prepare_events_numbered [of now f 0 es ps] by (simp add: log_ok_def numbered_def)

lemma number_events_log_ok:
  "log_ok tev_Sequence xs \<Longrightarrow> log_ok tev_Sequence (xs @ number_events (int (length xs)) ps)"
proof (induction ps arbitrary: xs)
  case (Cons p ps)
  let ?p = "p\<lparr>tev_Sequence := i64 (int (length xs) + 1)\<rparr>"
  have "log_ok tev_Sequence ((xs @ [?p]) @ number_events (int (length (xs @ [?p]))) ps)"
    by (rule Cons.IH) (simp add: Cons.prems log_ok_snoc)
  then show ?case by (simp add: add.commute)
qed simp

lemma check_turns_None_iff:
  "check_turns cid m = Inr None \<longleftrightarrow>
     (\<forall>(i, t) \<in> set m. trn_ClientUserMessageID t \<noteq> cid \<and> assistantTurnStatusTerminal (trn_Status t))"
  by (induction cid m rule: check_turns.induct) auto

lemma check_turns_SomeD:
  "check_turns cid m = Inr (Some t) \<Longrightarrow> \<exists>i. (i, t) \<in> set m \<and> trn_ClientUserMessageID t = cid"
  by (induction cid m rule: check_turns.induct) (auto split: if_splits)

subsection \<open>Every operation keeps it, and none panics\<close>

lemma no_panic:
  "scope_validate sc \<noteq> Inl PanicNilMap"
  "prepareAssistantThread now t \<noteq> Inl PanicNilMap"
  "prepareAssistantTurn now u \<noteq> Inl PanicNilMap"
  "prepareAssistantThreadEvent now e \<noteq> Inl PanicNilMap"
  "check_turns cid m \<noteq> Inl PanicNilMap"
  "prepare_events now f k es \<noteq> Inl PanicNilMap"
proof -
  show ev: "prepareAssistantThreadEvent now e \<noteq> Inl PanicNilMap" for e
    by (simp add: prepareAssistantThreadEvent_def Let_def)
  show "prepare_events now f k es \<noteq> Inl PanicNilMap"
    by (induction es arbitrary: k) (auto simp: ev split: sum.splits)
  show "check_turns cid m \<noteq> Inl PanicNilMap"
    by (induction cid m rule: check_turns.induct) auto
  show "prepareAssistantTurn now u \<noteq> Inl PanicNilMap"
    by (auto simp: prepareAssistantTurn_def Let_def NormalizeAssistantApprovalMode_def split: sum.splits)
qed (simp_all add: scope_validate_def guard_res_def prepareAssistantThread_def Let_def)

text \<open>What a thread operation does to the store: it keeps the invariant, does not panic and changes
  thread tables only, those of one project.\<close>

definition thread_step :: "scope \<Rightarrow> memory_store \<Rightarrow> 'a sres \<Rightarrow> memory_store \<Rightarrow> bool" where
  "thread_step sc s r s' \<longleftrightarrow> threads_ok s' \<and> r \<noteq> Inl PanicNilMap \<and> other_rows s' = other_rows s \<and>
     (\<forall>sc'. sc' \<noteq> sc \<longrightarrow> inner (assistantThreads s') sc' = inner (assistantThreads s) sc' \<and>
        inner (assistantTurns s') sc' = inner (assistantTurns s) sc' \<and>
        inner (threadEvents s') sc' = inner (threadEvents s) sc')"

lemma thread_step_refl: "threads_ok s \<Longrightarrow> r \<noteq> Inl PanicNilMap \<Longrightarrow> thread_step sc s r s"
  by (simp add: thread_step_def)

lemma thread_stepI:
  assumes "threads_ok s" "r \<noteq> Inl PanicNilMap" "other_rows s' = other_rows s"
    and "thread_rows_ok (project_threads s' sc) (inner (assistantTurns s') sc) (inner (threadEvents s') sc)"
    and "\<And>sc'. sc' \<noteq> sc \<Longrightarrow> inner (assistantThreads s') sc' = inner (assistantThreads s) sc' \<and>
        inner (assistantTurns s') sc' = inner (assistantTurns s) sc' \<and>
        inner (threadEvents s') sc' = inner (threadEvents s) sc'"
  shows "thread_step sc s r s'"
proof -
  have "thread_rows_ok (project_threads s' sc') (inner (assistantTurns s') sc') (inner (threadEvents s') sc')" for sc'
    using assms(4,5) threads_okD [OF assms(1), of sc'] by (cases "sc' = sc") auto
  with assms show ?thesis by (simp add: thread_step_def threads_ok_def)
qed

lemma CreateAssistantThread_step:
  assumes ok: "threads_ok s" and op: "CreateAssistantThread now sc t es s = (r, s')"
  shows "thread_step sc s r s'"
proof (cases "scope_validate sc")
  case (Inr u)
  note scope_ok = Inr
  show ?thesis
  proof (cases "prepareAssistantThread now t")
    case (Inr p)
    note prep = Inr
    show ?thesis
    proof (cases "prepare_events now (\<lambda>e. e\<lparr>tev_ThreadID := thr_ID p\<rparr>) 0 es")
      case (Inl e)
      then show ?thesis
        using op scope_ok prep ok no_panic(6) [of now "\<lambda>e. e\<lparr>tev_ThreadID := thr_ID p\<rparr>" 0 es]
        by (auto simp: CreateAssistantThread_def Let_def threads_okD split: option.splits if_splits
            intro!: thread_stepI)
    next
      case (Inr ps)
      then show ?thesis
        using op scope_ok prep ok prepareAssistantThreadD(3) [OF prep]
        by (auto simp: CreateAssistantThread_def Let_def threads_okD split: option.splits if_splits
            intro!: thread_stepI rows_new_thread prepare_events_log_ok)
    qed
  qed (use op ok scope_ok no_panic(2) [of now t] in \<open>auto simp: CreateAssistantThread_def intro: thread_step_refl\<close>)
qed (use op ok no_panic(1) [of sc] in \<open>auto simp: CreateAssistantThread_def intro: thread_step_refl\<close>)

lemma UpdateAssistantThread_step:
  assumes ok: "threads_ok s" and op: "UpdateAssistantThread now sc t s = (r, s')"
  shows "thread_step sc s r s'"
proof (cases "scope_validate sc")
  case (Inr u)
  note scope_ok = Inr
  show ?thesis
  proof (cases "prepareAssistantThread now t")
    case (Inr p)
    then show ?thesis
      using op ok scope_ok prepareAssistantThreadD(3) [OF Inr]
      by (auto simp: UpdateAssistantThread_def Let_def threads_okD split: option.splits if_splits
          intro!: thread_stepI rows_put_thread)
  qed (use op ok scope_ok no_panic(2) [of now t] in \<open>auto simp: UpdateAssistantThread_def intro: thread_step_refl\<close>)
qed (use op ok no_panic(1) [of sc] in \<open>auto simp: UpdateAssistantThread_def intro: thread_step_refl\<close>)

lemma thread_payload_no_panic: "thread_payload t \<noteq> Inl PanicNilMap"
  by (simp add: thread_payload_def split: option.splits)

lemma SetAssistantThreadTitleIfEmpty_step:
  assumes ok: "threads_ok s" and op: "SetAssistantThreadTitleIfEmpty now sc tid actor title e s = (r, s')"
  shows "thread_step sc s r s'"
proof (cases "scope_validate sc")
  case (Inr u)
  note scope_ok = Inr
  let ?ev = "prepareAssistantThreadEvent now (e\<lparr>tev_ThreadID := trim_space tid\<rparr>)"
  show ?thesis
  proof (cases "\<exists>p t. ?ev = Inr p \<and> map_of (project_threads s sc) (trim_space tid) = Some t")
    case True
    then obtain p t where p: "?ev = Inr p" and t: "map_of (project_threads s sc) (trim_space tid) = Some t" by blast
    note get = threads_ok_get [OF ok t]
    show ?thesis
      using op ok scope_ok p t get threads_ok_events_map [OF ok t] thread_payload_no_panic
      by (auto simp: SetAssistantThreadTitleIfEmpty_def Let_def threads_okD
          split: option.splits if_splits sum.splits
          intro!: thread_stepI rows_put_thread rows_put_events threads_ok_log_snoc)
  next
    case False
    then show ?thesis
      using op ok scope_ok no_panic(4) [of now "e\<lparr>tev_ThreadID := trim_space tid\<rparr>"]
      by (auto simp: SetAssistantThreadTitleIfEmpty_def Let_def split: option.splits if_splits sum.splits
          intro: thread_step_refl)
  qed
qed (use op ok no_panic(1) [of sc] in \<open>auto simp: SetAssistantThreadTitleIfEmpty_def intro: thread_step_refl\<close>)

lemma UpdateAssistantThreadWithEvent_step:
  assumes ok: "threads_ok s" and op: "UpdateAssistantThreadWithEvent now sc t e n s = (r, s')"
  shows "thread_step sc s r s'"
proof (cases "scope_validate sc")
  case (Inr u)
  note scope_ok = Inr
  show ?thesis
  proof (cases "prepareAssistantThread now t")
    case (Inr p)
    note prep = Inr
    show ?thesis
    proof (cases "prepareAssistantThreadEvent now (e\<lparr>tev_ThreadID := thr_ID p\<rparr>)")
      case (Inl x)
      then show ?thesis
        using op ok scope_ok prep no_panic(4) [of now "e\<lparr>tev_ThreadID := thr_ID p\<rparr>"]
        by (auto simp: UpdateAssistantThreadWithEvent_def intro: thread_step_refl)
    next
      case (Inr ev)
      then show ?thesis
        using op ok scope_ok prep prepareAssistantThreadD(3) [OF prep]
        by (auto simp: UpdateAssistantThreadWithEvent_def Let_def threads_okD split: option.splits if_splits
            intro!: thread_stepI rows_put_thread rows_put_events threads_ok_log_snoc dest: threads_ok_events_map)
    qed
  qed (use op ok scope_ok no_panic(2) [of now t] in \<open>auto simp: UpdateAssistantThreadWithEvent_def intro: thread_step_refl\<close>)
qed (use op ok no_panic(1) [of sc] in \<open>auto simp: UpdateAssistantThreadWithEvent_def intro: thread_step_refl\<close>)

lemma CreateAssistantTurn_step:
  assumes ok: "threads_ok s" and op: "CreateAssistantTurn now sc u es s = (r, s')"
  shows "thread_step sc s r s'"
proof (cases "scope_validate sc")
  case (Inr v)
  note scope_ok = Inr
  show ?thesis
  proof (cases "prepareAssistantTurn now u")
    case (Inr p)
    note prep = Inr
    let ?f = "\<lambda>e. e\<lparr>tev_ThreadID := trn_ThreadID p, tev_TurnID := trn_ID p\<rparr>"
    show ?thesis
    proof (cases "prepare_events now ?f 0 es")
      case (Inl x)
      then show ?thesis
        using op ok scope_ok prep no_panic(6) [of now ?f 0 es]
        by (auto simp: CreateAssistantTurn_def intro: thread_step_refl)
    next
      case (Inr ps)
      note events_ok = Inr
      show ?thesis
      proof (cases "map_of (project_threads s sc) (trn_ThreadID p)")
        case None
        then show ?thesis
          using op ok scope_ok prep events_ok by (auto simp: CreateAssistantTurn_def intro: thread_step_refl)
      next
        case (Some t)
        note get = threads_ok_get [OF ok Some]
        let ?m = "thread_turns s sc (trn_ThreadID p)"
        have new: "turns_ok (trn_ThreadID p) (mput (trn_ID p) p ?m)"
          if "check_turns (trn_ClientUserMessageID p) ?m = Inr None"
          using that threads_ok_turns [OF ok] by (intro turns_ok_mput) (auto simp: check_turns_None_iff)
        show ?thesis
          using op ok scope_ok prep events_ok Some get new no_panic(5) [of "trn_ClientUserMessageID p" ?m]
          by (auto simp: CreateAssistantTurn_def Let_def threads_okD
              split: option.splits if_splits sum.splits
              intro!: thread_stepI rows_put_thread rows_put_events rows_put_turns number_events_log_ok threads_ok_log)
      qed
    qed
  qed (use op ok scope_ok no_panic(3) [of now u] in \<open>auto simp: CreateAssistantTurn_def intro: thread_step_refl\<close>)
qed (use op ok no_panic(1) [of sc] in \<open>auto simp: CreateAssistantTurn_def intro: thread_step_refl\<close>)

lemma saved_turn_ok:
  assumes "threads_ok s" "map_of (thread_turns s sc (trn_ThreadID p)) (trn_ID p) = Some old"
    "\<not> turn_contract_differs old p"
  shows "turns_ok (trn_ThreadID p) (mput (trn_ID p) (p\<lparr>trn_CreatedAt := c\<rparr>) (thread_turns s sc (trn_ThreadID p)))"
  by (rule turns_ok_update [OF threads_ok_turns [OF assms(1)] assms(2)])
    (use assms threads_ok_turns [OF assms(1), of "trn_ThreadID p" sc] in \<open>auto simp: turn_contract_differs_def\<close>)

lemma SaveAssistantTurn_step:
  assumes ok: "threads_ok s" and op: "SaveAssistantTurn now sc u s = (r, s')"
  shows "thread_step sc s r s'"
proof (cases "scope_validate sc")
  case (Inr v)
  note scope_ok = Inr
  show ?thesis
  proof (cases "prepareAssistantTurn now u")
    case (Inr p)
    note prep = Inr
    show ?thesis
    proof (cases "map_of (thread_turns s sc (trn_ThreadID p)) (trn_ID p)")
      case None
      then show ?thesis
        using op ok scope_ok prep by (auto simp: SaveAssistantTurn_def intro: thread_step_refl)
    next
      case (Some old)
      then obtain t where t: "map_of (project_threads s sc) (trn_ThreadID p) = Some t"
        using threads_ok_turn_thread [OF ok] by blast
      show ?thesis
        using op ok scope_ok prep Some t threads_ok_get [OF ok t] threads_map_exists [OF t]
        by (auto simp: SaveAssistantTurn_def project_turn_status_def Let_def threads_okD saved_turn_ok
            split: if_splits intro!: thread_stepI rows_put_thread rows_put_turns)
    qed
  qed (use op ok scope_ok no_panic(3) [of now u] in \<open>auto simp: SaveAssistantTurn_def intro: thread_step_refl\<close>)
qed (use op ok no_panic(1) [of sc] in \<open>auto simp: SaveAssistantTurn_def intro: thread_step_refl\<close>)

lemma SaveAssistantTurnWithEvent_step:
  assumes ok: "threads_ok s" and op: "SaveAssistantTurnWithEvent now sc u e n s = (r, s')"
  shows "thread_step sc s r s'"
proof (cases "scope_validate sc")
  case (Inr v)
  note scope_ok = Inr
  show ?thesis
  proof (cases "prepareAssistantTurn now u")
    case (Inr p)
    note prep = Inr
    let ?e = "e\<lparr>tev_ThreadID := trn_ThreadID p, tev_TurnID := trn_ID p\<rparr>"
    show ?thesis
    proof (cases "prepareAssistantThreadEvent now ?e")
      case (Inl x)
      then show ?thesis
        using op ok scope_ok prep no_panic(4) [of now ?e]
        by (auto simp: SaveAssistantTurnWithEvent_def intro: thread_step_refl)
    next
      case (Inr ev)
      note event_ok = Inr
      show ?thesis
      proof (cases "map_of (thread_turns s sc (trn_ThreadID p)) (trn_ID p)")
        case None
        then show ?thesis
          using op ok scope_ok prep event_ok
          by (auto simp: SaveAssistantTurnWithEvent_def intro: thread_step_refl)
      next
        case (Some old)
        then obtain t where t: "map_of (project_threads s sc) (trn_ThreadID p) = Some t"
          using threads_ok_turn_thread [OF ok] by blast
        show ?thesis
          using op ok scope_ok prep event_ok Some t threads_ok_get [OF ok t] threads_map_exists [OF t]
            threads_ok_events_map [OF ok t]
          by (auto simp: SaveAssistantTurnWithEvent_def project_turn_status_def Let_def threads_okD saved_turn_ok
              split: if_splits
              intro!: thread_stepI rows_put_thread rows_put_turns rows_put_events threads_ok_log_snoc)
      qed
    qed
  qed (use op ok scope_ok no_panic(3) [of now u] in \<open>auto simp: SaveAssistantTurnWithEvent_def intro: thread_step_refl\<close>)
qed (use op ok no_panic(1) [of sc] in \<open>auto simp: SaveAssistantTurnWithEvent_def intro: thread_step_refl\<close>)

lemma AppendAssistantThreadEvent_step:
  assumes ok: "threads_ok s" and op: "AppendAssistantThreadEvent now sc e n s = (r, s')"
  shows "thread_step sc s r s'"
proof (cases "scope_validate sc")
  case (Inr v)
  note scope_ok = Inr
  show ?thesis
  proof (cases "prepareAssistantThreadEvent now e")
    case (Inr p)
    then show ?thesis
      using op ok scope_ok
      by (auto simp: AppendAssistantThreadEvent_def Let_def threads_okD split: option.splits if_splits
          intro!: thread_stepI rows_put_events threads_ok_log_snoc dest: threads_ok_events_map)
  qed (use op ok scope_ok no_panic(4) [of now e] in \<open>auto simp: AppendAssistantThreadEvent_def intro: thread_step_refl\<close>)
qed (use op ok no_panic(1) [of sc] in \<open>auto simp: AppendAssistantThreadEvent_def intro: thread_step_refl\<close>)

subsection \<open>What deleting a thread removes\<close>

lemma delete_turn_runs_frame [simp]:
  "assistantThreads (delete_turn_runs sc turns s) = assistantThreads s"
  "assistantTurns (delete_turn_runs sc turns s) = assistantTurns s"
  "threadEvents (delete_turn_runs sc turns s) = threadEvents s"
  "messages (delete_turn_runs sc turns s) = messages s"
  "conversationItems (delete_turn_runs sc turns s) = conversationItems s"
  "conversationSequences (delete_turn_runs sc turns s) = conversationSequences s"
  "replicaClaims (delete_turn_runs sc turns s) = replicaClaims s"
  "approvalModes (delete_turn_runs sc turns s) = approvalModes s"
  "bootstrapPermits (delete_turn_runs sc turns s) = bootstrapPermits s"
  "projectThumbnails (delete_turn_runs sc turns s) = projectThumbnails s"
  unfolding delete_turn_runs_def by (induction turns arbitrary: s) auto

lemma delete_turn_runs_runs:
  "inner (assistantRuns (delete_turn_runs sc turns s)) sc' =
     (if sc' = sc then filter (\<lambda>p. fst p \<notin> fst ` set turns) (project_runs s sc) else project_runs s sc')"
  unfolding delete_turn_runs_def
proof (induction turns arbitrary: s)
  case (Cons p turns)
  let ?s = "if map_of (project_runs s sc) (fst p) = None then s
      else s\<lparr>assistantRuns := del2 sc (fst p) (assistantRuns s),
             assistantEvents := del2 sc (fst p) (assistantEvents s)\<rparr>"
  have "inner (assistantRuns ?s) sc' = (if sc' = sc then mdel (fst p) (project_runs s sc) else project_runs s sc')" for sc'
    by (simp add: mdel_absent)
  then show ?case using Cons.IH [of ?s] by (auto simp: split_beta mdel_def intro: filter_cong)
qed simp

lemma delete_turn_runs_events:
  "inner (assistantEvents (delete_turn_runs sc turns s)) sc' =
     (if sc' = sc then filter (\<lambda>p. fst p \<notin> fst ` set turns \<or> map_of (project_runs s sc) (fst p) = None)
                         (inner (assistantEvents s) sc)
      else inner (assistantEvents s) sc')"
  unfolding delete_turn_runs_def
proof (induction turns arbitrary: s)
  case (Cons p turns)
  show ?case
  proof (cases "map_of (project_runs s sc) (fst p) = None")
    case True
    then show ?thesis using Cons.IH [of s] by (auto simp: split_beta intro!: filter_cong)
  next
    case False
    let ?s = "s\<lparr>assistantRuns := del2 sc (fst p) (assistantRuns s),
        assistantEvents := del2 sc (fst p) (assistantEvents s)\<rparr>"
    have "filter P (mdel k m) = filter (\<lambda>p. P p \<and> fst p \<noteq> k) m" for P k and m :: "(string \<times> run_event list) list"
      by (auto simp: mdel_def intro: filter_cong)
    then show ?thesis using Cons.IH [of ?s] False by (auto simp: split_beta intro!: filter_cong)
  qed
qed simp

lemma fold_del2:
  "inner (fold (\<lambda>i. del2 sc i) ids m) sc' = (if sc' = sc then filter (\<lambda>p. fst p \<notin> set ids) (inner m sc) else inner m sc')"
  by (induction ids arbitrary: m) (auto simp: mdel_def intro!: filter_cong)

lemma delete_turn_items_conversation:
  "conversation (delete_turn_items sc turns s) sc' =
     (if sc' = sc then filter (\<lambda>it. itm_RunID it \<notin> fst ` set turns) (conversation s sc) else conversation s sc')"
  by (auto simp: delete_turn_items_def Let_def map_of_eq_None_iff filter_empty_conv)

lemma delete_turn_items_frame [simp]:
  "assistantThreads (delete_turn_items sc turns s) = assistantThreads s"
  "assistantTurns (delete_turn_items sc turns s) = assistantTurns s"
  "threadEvents (delete_turn_items sc turns s) = threadEvents s"
  "messages (delete_turn_items sc turns s) = messages s"
  "assistantRuns (delete_turn_items sc turns s) = assistantRuns s"
  "assistantEvents (delete_turn_items sc turns s) = assistantEvents s"
  "conversationSequences (delete_turn_items sc turns s) = conversationSequences s"
  "replicaClaims (delete_turn_items sc turns s) = replicaClaims s"
  "approvalModes (delete_turn_items sc turns s) = approvalModes s"
  "bootstrapPermits (delete_turn_items sc turns s) = bootstrapPermits s"
  "projectThumbnails (delete_turn_items sc turns s) = projectThumbnails s"
  by (simp_all add: delete_turn_items_def Let_def)

lemma delete_messages_frame [simp]:
  "assistantThreads (delete_messages sc ids s) = assistantThreads s"
  "assistantTurns (delete_messages sc ids s) = assistantTurns s"
  "threadEvents (delete_messages sc ids s) = threadEvents s"
  "assistantRuns (delete_messages sc ids s) = assistantRuns s"
  "assistantEvents (delete_messages sc ids s) = assistantEvents s"
  "conversationItems (delete_messages sc ids s) = conversationItems s"
  "conversationSequences (delete_messages sc ids s) = conversationSequences s"
  "replicaClaims (delete_messages sc ids s) = replicaClaims s"
  "approvalModes (delete_messages sc ids s) = approvalModes s"
  "bootstrapPermits (delete_messages sc ids s) = bootstrapPermits s"
  "projectThumbnails (delete_messages sc ids s) = projectThumbnails s"
  by (simp_all add: delete_messages_def)

lemma delete_messages_messages:
  "project_messages (delete_messages sc ids s) sc' =
     (if sc' = sc then filter (\<lambda>p. fst p \<notin> set ids) (project_messages s sc) else project_messages s sc')"
  by (simp add: delete_messages_def fold_del2)

lemma set_run_message_ids:
  "set (run_message_ids runs turns) =
     {m. m \<noteq> [] \<and> (\<exists>i \<in> fst ` set turns. \<exists>r. map_of runs i = Some r \<and> (m = run_UserMessageID r \<or> m = run_ActiveMessageID r))}"
  by (induction runs turns rule: run_message_ids.induct) (auto split: option.splits)

text \<open>The rows of a project after the deletion of a thread, and those of the other projects.\<close>

lemma DeleteAssistantThread_success:
  assumes op: "DeleteAssistantThread sc tid0 actor s = (Inr u, s')"
    and T: "T = fst ` set (thread_turns s sc (trim_space tid0))"
  shows "\<exists>t. map_of (project_threads s sc) (trim_space tid0) = Some t \<and> thr_ActorID t = trim_space actor"
    "\<forall>p \<in> set (thread_turns s sc (trim_space tid0)). assistantTurnStatusTerminal (trn_Status (snd p))"
    "inner (assistantThreads s') sc' = (if sc' = sc then mdel (trim_space tid0) (project_threads s sc) else project_threads s sc')"
    "inner (assistantTurns s') sc' = (if sc' = sc then mdel (trim_space tid0) (inner (assistantTurns s) sc) else inner (assistantTurns s) sc')"
    "inner (threadEvents s') sc' = (if sc' = sc then mdel (trim_space tid0) (inner (threadEvents s) sc) else inner (threadEvents s) sc')"
    "project_runs s' sc' = (if sc' = sc then filter (\<lambda>p. fst p \<notin> T) (project_runs s sc) else project_runs s sc')"
    "inner (assistantEvents s') sc' =
       (if sc' = sc then filter (\<lambda>p. fst p \<notin> T \<or> map_of (project_runs s sc) (fst p) = None) (inner (assistantEvents s) sc)
        else inner (assistantEvents s) sc')"
    "project_messages s' sc' =
       (if sc' = sc then filter (\<lambda>p. fst p \<notin> set (run_message_ids (project_runs s sc) (thread_turns s sc (trim_space tid0))))
                           (project_messages s sc)
        else project_messages s sc')"
    "conversation s' sc' = (if sc' = sc then filter (\<lambda>it. itm_RunID it \<notin> T) (conversation s sc) else conversation s sc')"
    "conversationSequences s' = conversationSequences s" "replicaClaims s' = replicaClaims s"
    "approvalModes s' = approvalModes s" "bootstrapPermits s' = bootstrapPermits s"
    "projectThumbnails s' = projectThumbnails s"
proof -
  let ?turns = "thread_turns s sc (trim_space tid0)"
  let ?s1 = "if ?turns = [] then s else delete_turn_items sc ?turns
      (delete_messages sc (run_message_ids (project_runs s sc) ?turns) (delete_turn_runs sc ?turns s))"
  have A: "(\<exists>t. map_of (project_threads s sc) (trim_space tid0) = Some t \<and> thr_ActorID t = trim_space actor) \<and>
    (\<forall>p \<in> set ?turns. assistantTurnStatusTerminal (trn_Status (snd p))) \<and>
    s' = ?s1\<lparr>assistantTurns := prune sc (del2 sc (trim_space tid0) (assistantTurns ?s1)),
              threadEvents := prune sc (del2 sc (trim_space tid0) (threadEvents ?s1)),
              assistantThreads := prune sc (del2 sc (trim_space tid0) (assistantThreads ?s1)),
              assistantRuns := prune sc (assistantRuns ?s1),
              assistantEvents := prune sc (assistantEvents ?s1),
              messages := prune sc (messages ?s1)\<rparr>"
    using op by (auto simp: DeleteAssistantThread_def Let_def split: sum.splits option.splits if_splits)
  then show "\<exists>t. map_of (project_threads s sc) (trim_space tid0) = Some t \<and> thr_ActorID t = trim_space actor"
    "\<forall>p \<in> set ?turns. assistantTurnStatusTerminal (trn_Status (snd p))" by blast+
  from A have s': "s' = ?s1\<lparr>assistantTurns := prune sc (del2 sc (trim_space tid0) (assistantTurns ?s1)),
              threadEvents := prune sc (del2 sc (trim_space tid0) (threadEvents ?s1)),
              assistantThreads := prune sc (del2 sc (trim_space tid0) (assistantThreads ?s1)),
              assistantRuns := prune sc (assistantRuns ?s1),
              assistantEvents := prune sc (assistantEvents ?s1),
              messages := prune sc (messages ?s1)\<rparr>" by blast
  show "inner (assistantThreads s') sc' = (if sc' = sc then mdel (trim_space tid0) (project_threads s sc) else project_threads s sc')"
    "inner (assistantTurns s') sc' = (if sc' = sc then mdel (trim_space tid0) (inner (assistantTurns s) sc) else inner (assistantTurns s) sc')"
    "inner (threadEvents s') sc' = (if sc' = sc then mdel (trim_space tid0) (inner (threadEvents s) sc) else inner (threadEvents s) sc')"
    "project_runs s' sc' = (if sc' = sc then filter (\<lambda>p. fst p \<notin> T) (project_runs s sc) else project_runs s sc')"
    "inner (assistantEvents s') sc' =
       (if sc' = sc then filter (\<lambda>p. fst p \<notin> T \<or> map_of (project_runs s sc) (fst p) = None) (inner (assistantEvents s) sc)
        else inner (assistantEvents s) sc')"
    "project_messages s' sc' =
       (if sc' = sc then filter (\<lambda>p. fst p \<notin> set (run_message_ids (project_runs s sc) ?turns)) (project_messages s sc)
        else project_messages s sc')"
    "conversation s' sc' = (if sc' = sc then filter (\<lambda>it. itm_RunID it \<notin> T) (conversation s sc) else conversation s sc')"
    "conversationSequences s' = conversationSequences s" "replicaClaims s' = replicaClaims s"
    "approvalModes s' = approvalModes s" "bootstrapPermits s' = bootstrapPermits s"
    "projectThumbnails s' = projectThumbnails s"
    unfolding s' T
    by (cases "?turns = []"; simp add: delete_turn_runs_runs delete_turn_runs_events
        delete_messages_messages delete_turn_items_conversation)+
qed

end
