(* ===== verification/AppStore_Thread_Props.thy ===== *)
theory AppStore_Thread_Props
  imports AppStore_Threads
begin

section \<open>App Studio store: properties of threads and turns\<close>

text \<open>
  What the operations of \<open>AppStore_Threads\<close> guarantee: the event stream as an \<open>event_log\<close> written by
  three operations, the title that is set once, the creation and the saving of turns, the thread
  listing as a \<open>pager\<close> and the deletion of a thread.
\<close>

subsection \<open>The event stream of a thread\<close>

text \<open>The three operations that append one event to a thread whose sequence the caller names: the
  event alone, with a change of the thread, or with a change of a turn.\<close>

datatype thread_append =
    EventOnly thread_event | WithThread assistant_thread thread_event | WithTurn assistant_turn thread_event

definition append_thread_op ::
  "gotime \<Rightarrow> scope \<Rightarrow> string \<Rightarrow> thread_append \<Rightarrow> int \<Rightarrow> memory_store \<Rightarrow> thread_event sres \<times> memory_store" where
  "append_thread_op now sc tid a n s =
     (case a of
        EventOnly e \<Rightarrow> AppendAssistantThreadEvent now sc (e\<lparr>tev_ThreadID := tid\<rparr>) n s
      | WithThread t e \<Rightarrow>
          (case UpdateAssistantThreadWithEvent now sc (t\<lparr>thr_ID := tid\<rparr>) e n s of
             (Inl x, s') \<Rightarrow> (Inl x, s') | (Inr (_, ev), s') \<Rightarrow> (Inr ev, s'))
      | WithTurn u e \<Rightarrow>
          (case SaveAssistantTurnWithEvent now sc (u\<lparr>trn_ThreadID := tid\<rparr>) e n s of
             (Inl x, s') \<Rightarrow> (Inl x, s') | (Inr _, s') \<Rightarrow> (Inr (last (thread_log s' sc (trim_space tid))), s')))"

lemma AppendAssistantThreadEvent_effect:
  assumes "AppendAssistantThreadEvent now sc e n s = (r, s')"
  shows "case r of Inl x \<Rightarrow> threadEvents s' = threadEvents s
    | Inr ev \<Rightarrow> n = int (length (thread_log s sc (trim_space (tev_ThreadID e)))) \<and> tev_Sequence ev = i64 (n + 1) \<and>
        thread_log s' sc (trim_space (tev_ThreadID e)) = thread_log s sc (trim_space (tev_ThreadID e)) @ [ev]"
  using assms
  by (auto simp: AppendAssistantThreadEvent_def Let_def dest: prepareAssistantThreadEventD(1)
      split: sum.splits if_splits)

lemma UpdateAssistantThreadWithEvent_effect:
  assumes "UpdateAssistantThreadWithEvent now sc t e n s = (r, s')"
  shows "case r of Inl x \<Rightarrow> threadEvents s' = threadEvents s
    | Inr (_, ev) \<Rightarrow> n = int (length (thread_log s sc (trim_space (thr_ID t)))) \<and> tev_Sequence ev = i64 (n + 1) \<and>
        thread_log s' sc (trim_space (thr_ID t)) = thread_log s sc (trim_space (thr_ID t)) @ [ev]"
  using assms
  by (auto simp: UpdateAssistantThreadWithEvent_def Let_def dest: prepareAssistantThreadD(1)
      split: sum.splits if_splits option.splits)

lemma SaveAssistantTurnWithEvent_effect:
  assumes op: "SaveAssistantTurnWithEvent now sc u e n s = (r, s')" and ok: "threads_ok s"
  shows "case r of Inl x \<Rightarrow> threadEvents s' = threadEvents s
    | Inr _ \<Rightarrow> n = int (length (thread_log s sc (trim_space (trn_ThreadID u)))) \<and>
        (\<exists>ev. tev_Sequence ev = i64 (n + 1) \<and>
           thread_log s' sc (trim_space (trn_ThreadID u)) = thread_log s sc (trim_space (trn_ThreadID u)) @ [ev])"
proof (cases "prepareAssistantTurn now u")
  case (Inr p)
  note tid = prepareAssistantTurnD(2) [OF Inr]
  note prep = Inr
  show ?thesis
  proof (cases "map_of (thread_turns s sc (trn_ThreadID p)) (trn_ID p)")
    case None
    then show ?thesis
      using op prep by (auto simp: SaveAssistantTurnWithEvent_def split: sum.splits)
  next
    case (Some old)
    then obtain t where t: "map_of (project_threads s sc) (trn_ThreadID p) = Some t"
      using threads_ok_turn_thread [OF ok] by blast
    let ?e = "e\<lparr>tev_ThreadID := trn_ThreadID p, tev_TurnID := trn_ID p\<rparr>"
    show ?thesis
    proof (cases "prepareAssistantThreadEvent now ?e")
      case (Inl x)
      then show ?thesis using op prep by (auto simp: SaveAssistantTurnWithEvent_def split: sum.splits)
    next
      case (Inr ev)
      note event_ok = Inr
      show ?thesis
      proof (cases "scope_validate sc")
        case (Inr v)
        then show ?thesis
          using op prep event_ok Some tid threads_map_exists [OF t] threads_ok_events_map [OF ok t]
          by (cases r) (auto simp: SaveAssistantTurnWithEvent_def project_turn_status_def Let_def split: if_splits)
      qed (use op in \<open>auto simp: SaveAssistantTurnWithEvent_def split: sum.splits\<close>)
    qed
  qed
qed (use op in \<open>auto simp: SaveAssistantTurnWithEvent_def split: sum.splits\<close>)

lemma append_thread_op_effect:
  assumes op: "append_thread_op now sc tid a n s = (r, s')" and ok: "threads_ok s"
  shows "case r of Inl x \<Rightarrow> threadEvents s' = threadEvents s
    | Inr ev \<Rightarrow> n = int (length (thread_log s sc (trim_space tid))) \<and> tev_Sequence ev = i64 (n + 1) \<and>
        thread_log s' sc (trim_space tid) = thread_log s sc (trim_space tid) @ [ev]"
proof (cases a)
  case (EventOnly e)
  then show ?thesis
    using op AppendAssistantThreadEvent_effect [of now sc "e\<lparr>tev_ThreadID := tid\<rparr>" n s]
    by (cases r) (simp_all add: append_thread_op_def)
next
  case (WithThread t e)
  obtain q s'' where q: "UpdateAssistantThreadWithEvent now sc (t\<lparr>thr_ID := tid\<rparr>) e n s = (q, s'')" by fastforce
  show ?thesis
    using op WithThread q UpdateAssistantThreadWithEvent_effect [OF q]
    by (auto simp: append_thread_op_def split: sum.splits)
next
  case (WithTurn u e)
  obtain q s'' where q: "SaveAssistantTurnWithEvent now sc (u\<lparr>trn_ThreadID := tid\<rparr>) e n s = (q, s'')" by fastforce
  show ?thesis
    using op WithTurn q SaveAssistantTurnWithEvent_effect [OF q ok]
    by (auto simp: append_thread_op_def split: sum.splits)
qed

lemma append_thread_op_step:
  assumes op: "append_thread_op now sc tid a n s = (r, s')" and ok: "threads_ok s"
  shows "threads_ok s'"
proof (cases a)
  case (EventOnly e)
  with op AppendAssistantThreadEvent_step [OF ok] show ?thesis by (auto simp: append_thread_op_def thread_step_def)
next
  case (WithThread t e)
  obtain q s'' where q: "UpdateAssistantThreadWithEvent now sc (t\<lparr>thr_ID := tid\<rparr>) e n s = (q, s'')" by fastforce
  with op WithThread UpdateAssistantThreadWithEvent_step [OF ok q] show ?thesis
    by (auto simp: append_thread_op_def thread_step_def split: sum.splits)
next
  case (WithTurn u e)
  obtain q s'' where q: "SaveAssistantTurnWithEvent now sc (u\<lparr>trn_ThreadID := tid\<rparr>) e n s = (q, s'')" by fastforce
  with op WithTurn SaveAssistantTurnWithEvent_step [OF ok q] show ?thesis
    by (auto simp: append_thread_op_def thread_step_def split: sum.splits)
qed

interpretation thread_events: event_log threads_ok "\<lambda>s. thread_log s sc (trim_space tid)" tev_Sequence
  "append_thread_op now sc tid" for now sc tid
proof unfold_locales
  fix s a n e s' x
  show "threads_ok s \<Longrightarrow> append_thread_op now sc tid a n s = (r, s') \<Longrightarrow> threads_ok s'" for r
    using append_thread_op_step by blast
  assume ok: "threads_ok s"
  show "append_thread_op now sc tid a n s = (Inl x, s') \<Longrightarrow> thread_log s' sc (trim_space tid) = thread_log s sc (trim_space tid)"
    using append_thread_op_effect [OF _ ok, of now sc tid a n "Inl x" s'] by simp
  assume op: "append_thread_op now sc tid a n s = (Inr e, s')"
  show "tev_Sequence e = i64 (n + 1)" "thread_log s' sc (trim_space tid) = thread_log s sc (trim_space tid) @ [e]"
    using append_thread_op_effect [OF op ok] by simp_all
  show "n = int (length (thread_log s sc (trim_space tid)))" if "log_wf tev_Sequence (thread_log s sc (trim_space tid))"
    using append_thread_op_effect [OF op ok] by simp
qed

text \<open>The event stream of a thread is written by compare-and-append, by all three
  operations that write it: of the writers that name the same sequence, in whatever way they write,
  one succeeds, its event gets the next number at the end of the stream, and the others are refused
  and leave the stream as it is.\<close>

theorem thread_stream_fenced:
  assumes "threads_ok s" "int (length (thread_log s sc tid)) < max_i64" "tid = trim_space tid"
    and "append_thread_op now sc tid a n s = (Inr e, s')"
  shows "n = int (length (thread_log s sc tid)) \<and> tev_Sequence e = n + 1 \<and>
    thread_log s' sc tid = thread_log s sc tid @ [e] \<and> log_wf tev_Sequence (thread_log s' sc tid) \<and>
    (\<forall>b. \<exists>x s''. append_thread_op now sc tid b n s' = (Inl x, s'') \<and> thread_log s'' sc tid = thread_log s' sc tid)"
proof -
  have wf: "log_wf tev_Sequence (thread_log s sc tid)"
    using threads_ok_log [OF assms(1), of sc tid] assms(2) by (simp add: log_ok_wf)
  note laws = thread_events.append_expects [of s now sc tid, folded assms(3), OF assms(1,4) wf]
    thread_events.append_numbers [OF assms(1,4)]
    thread_events.append_adds [of s now sc tid, folded assms(3), OF assms(1,4)]
  have "log_wf tev_Sequence (thread_log s' sc tid)"
    using thread_events.append_ok [of s sc tid, folded assms(3), OF assms(1) log_wf_ok [OF wf] assms(4)]
      laws(3) assms(2) by (simp add: log_ok_wf)
  moreover have "tev_Sequence e = n + 1" using laws(1,2) assms(2) i64_Suc [of n] by simp
  ultimately show ?thesis
    using laws(1,3) thread_events.append_race [of s sc tid, folded assms(3), OF assms(1) wf assms(2,4)] by blast
qed

definition ex_thread_store :: memory_store where
  "ex_thread_store = snd (CreateAssistantThread 6 ex_scope (ex_thread ''t'' 6) [ex_thread_event ''start''] ex_store)"

lemma threads_ok_New [simp]: "threads_ok NewMemoryStore"
  by (simp add: threads_ok_def NewMemoryStore_def)

lemma CreateAssistantRun_threads:
  "CreateAssistantRun now sc user asst run s = (r, s') \<Longrightarrow> threads_ok s' = threads_ok s"
  by (auto simp: CreateAssistantRun_def threads_ok_def store_run_def Let_def split: sum.splits option.splits if_splits)

lemma ex_store_threads_ok: "threads_ok ex_store"
  using CreateAssistantRun_threads [OF surjective_pairing] by (simp add: ex_store_def)

lemma ex_thread_store_ok: "threads_ok ex_thread_store"
  using CreateAssistantThread_step [OF ex_store_threads_ok surjective_pairing]
  by (simp add: ex_thread_store_def thread_step_def)

theorem thread_stream_fenced_witness:
  "\<exists>e s'. append_thread_op 9 ex_scope ''t'' (EventOnly (ex_thread_event ''x'')) 1 ex_thread_store = (Inr e, s') \<and>
     tev_Sequence e = 2 \<and>
     (\<exists>x s''. append_thread_op 9 ex_scope ''t'' (WithThread (ex_thread ''t'' 9) (ex_thread_event ''y'')) 1 s' = (Inl x, s''))"
proof -
  let ?r = "append_thread_op 9 ex_scope ''t'' (EventOnly (ex_thread_event ''x'')) 1 ex_thread_store"
  have t: "''t'' = trim_space ''t''" by code_simp
  have room: "int (length (thread_log ex_thread_store ex_scope ''t'')) < max_i64" by code_simp
  have "\<not> isl (fst ?r)" by code_simp
  then obtain e where e: "?r = (Inr e, snd ?r)" using result_Inr by blast
  from thread_stream_fenced [OF ex_thread_store_ok room t e] e show ?thesis by fastforce
qed

subsection \<open>Properties of threads and turns\<close>

text \<open>A thread is titled at most once by the title operation: a call that reports a
  change found the title blank, set the trimmed title, appended one event and left every other
  thread as it was; after it no call, by anyone, changes the store, and each reports no change or
  an error.\<close>

theorem title_set_once:
  assumes "SetAssistantThreadTitleIfEmpty now sc tid actor title e s = (Inr (t, True), s')"
  shows "(\<exists>old. map_of (project_threads s sc) (trim_space tid) = Some old \<and> blank (thr_Title old) \<and>
            thr_ActorID old = trim_space actor \<and> thr_Status old \<noteq> ThreadArchived) \<and>
         thr_Title t = trim_space title \<and>
         project_threads s' sc = mput (trim_space tid) t (project_threads s sc) \<and>
         (\<exists>ev. thread_log s' sc (trim_space tid) = thread_log s sc (trim_space tid) @ [ev]) \<and>
         (\<forall>now' actor' title' e'. \<exists>r.
            SetAssistantThreadTitleIfEmpty now' sc tid actor' title' e' s' = (r, s') \<and>
            (\<forall>t'. r \<noteq> Inr (t', True)))"
proof -
  let ?i = "trim_space tid"
  have eff: "(\<exists>old. map_of (project_threads s sc) ?i = Some old \<and> blank (thr_Title old) \<and>
        thr_ActorID old = trim_space actor \<and> thr_Status old \<noteq> ThreadArchived) \<and>
      thr_Title t = trim_space title \<and> trim_space title \<noteq> [] \<and>
      project_threads s' sc = mput ?i t (project_threads s sc) \<and>
      (\<exists>ev. thread_log s' sc ?i = thread_log s sc ?i @ [ev])"
    using assms
    by (auto simp: SetAssistantThreadTitleIfEmpty_def Let_def split: sum.splits option.splits if_splits)
  then have "map_of (project_threads s' sc) ?i = Some t" "\<not> blank (thr_Title t)" by (auto simp: blank_def)
  then have "\<exists>r. SetAssistantThreadTitleIfEmpty now' sc tid actor' title' e' s' = (r, s') \<and> (\<forall>t'. r \<noteq> Inr (t', True))"
    for now' actor' title' e'
    by (auto simp: SetAssistantThreadTitleIfEmpty_def Let_def split: sum.splits)
  with eff show ?thesis by blast
qed

theorem title_set_once_witness:
  "\<exists>t s'. SetAssistantThreadTitleIfEmpty 9 ex_scope ''t'' ''a'' ''New'' (ex_thread_event ''title'') ex_thread_store =
       (Inr (t, True), s') \<and> thr_Title t = ''New'' \<and>
     (\<exists>r. SetAssistantThreadTitleIfEmpty 10 ex_scope ''t'' ''a'' ''Other'' (ex_thread_event ''title'') s' = (r, s'))"
proof -
  let ?r = "SetAssistantThreadTitleIfEmpty 9 ex_scope ''t'' ''a'' ''New'' (ex_thread_event ''title'') ex_thread_store"
  have "case fst ?r of Inl _ \<Rightarrow> False | Inr (t, b) \<Rightarrow> b" by code_simp
  then obtain t where t: "?r = (Inr (t, True), snd ?r)" using result_Inr_flag by blast
  have "trim_space ''New'' = ''New''" by code_simp
  with title_set_once [OF t] t show ?thesis by metis
qed

text \<open>A thread runs one turn at a time as far as creation goes: a turn that is created
  found no turn of the thread active and none with its client message ID, becomes the thread's turn
  under its own ID, makes the thread active and appends its events; a call that does not create
  leaves the turns as they are.\<close>

theorem create_turn_exclusive:
  assumes "threads_ok s" "CreateAssistantTurn now sc u es s = (Inr r, s')"
  shows "(trn_ClientUserMessageID r = trim_space (trn_ClientUserMessageID u) \<and>
          (\<exists>i. map_of (thread_turns s sc (trim_space (trn_ThreadID u))) i = Some r) \<and>
          (\<forall>tid. thread_turns s' sc tid = thread_turns s sc tid \<and> thread_log s' sc tid = thread_log s sc tid) \<and>
          project_threads s' sc = project_threads s sc) \<or>
         ((\<forall>(i, t) \<in> set (thread_turns s sc (trim_space (trn_ThreadID u))).
             assistantTurnStatusTerminal (trn_Status t) \<and>
             trn_ClientUserMessageID t \<noteq> trim_space (trn_ClientUserMessageID u)) \<and>
          map_of (thread_turns s' sc (trim_space (trn_ThreadID u))) (trim_space (trn_ID u)) = Some r \<and>
          length (thread_log s' sc (trim_space (trn_ThreadID u))) =
            length (thread_log s sc (trim_space (trn_ThreadID u))) + length es \<and>
          (\<exists>t. map_of (project_threads s' sc) (trim_space (trn_ThreadID u)) = Some t \<and>
               thr_Status t = ThreadActive \<and> thr_ActorID t = trn_ActorID r))"
proof -
  obtain p where p: "prepareAssistantTurn now u = Inr p"
    using assms(2) by (auto simp: CreateAssistantTurn_def split: sum.splits)
  note tid = prepareAssistantTurnD(1,2) [OF p]
  have cid: "trn_ClientUserMessageID p = trim_space (trn_ClientUserMessageID u)"
    using p by (auto simp: prepareAssistantTurn_def Let_def split: if_splits sum.splits)
  let ?f = "\<lambda>e. e\<lparr>tev_ThreadID := trn_ThreadID p, tev_TurnID := trn_ID p\<rparr>"
  obtain ps where ps: "prepare_events now ?f 0 es = Inr ps"
    using assms(2) p by (auto simp: CreateAssistantTurn_def split: sum.splits)
  obtain th where th: "map_of (project_threads s sc) (trn_ThreadID p) = Some th" "thr_ActorID th = trn_ActorID p"
    using assms(2) p ps by (auto simp: CreateAssistantTurn_def split: sum.splits option.splits if_splits)
  have sc: "scope_validate sc = Inr ()"
    using assms(2) by (cases "scope_validate sc") (auto simp: CreateAssistantTurn_def)
  let ?m = "thread_turns s sc (trn_ThreadID p)"
  have len: "length (number_events n ps) = length es" for n
  proof -
    have "length (number_events n ps) = length ps" by (induction n ps rule: number_events.induct) auto
    then show ?thesis using prepare_events_numbered [OF ps] by simp
  qed
  show ?thesis
  proof (cases "check_turns (trn_ClientUserMessageID p) ?m")
    case (Inl e)
    then show ?thesis using assms(2) p ps th sc by (simp add: CreateAssistantTurn_def Let_def)
  next
    case (Inr found)
    show ?thesis
    proof (cases found)
      case None
      have "thr_ID th = trn_ThreadID p" using threads_ok_get [OF assms(1) th(1)] by simp
      then have "r = p" "map_of (thread_turns s' sc (trn_ThreadID p)) (trn_ID p) = Some p"
        "length (thread_log s' sc (trn_ThreadID p)) = length (thread_log s sc (trn_ThreadID p)) + length es"
        "map_of (project_threads s' sc) (trn_ThreadID p) =
           Some (th\<lparr>thr_Status := ThreadActive, thr_UpdatedAt := trn_UpdatedAt p\<rparr>)"
        using assms(2) p ps th sc Inr None len by (auto simp: CreateAssistantTurn_def Let_def)
      moreover have "\<forall>(i, t) \<in> set ?m. trn_ClientUserMessageID t \<noteq> trn_ClientUserMessageID p \<and>
          assistantTurnStatusTerminal (trn_Status t)"
        using Inr None by (simp add: check_turns_None_iff)
      ultimately show ?thesis using th(2) unfolding tid cid by auto
    next
      case (Some t)
      have "r = t" "\<forall>tid. thread_turns s' sc tid = thread_turns s sc tid" "threadEvents s' = threadEvents s"
        "assistantThreads s' = assistantThreads s"
        using assms(2) p ps th sc Inr Some by (auto simp: CreateAssistantTurn_def Let_def)
      moreover obtain i where i: "(i, t) \<in> set ?m" "trn_ClientUserMessageID t = trn_ClientUserMessageID p"
        using check_turns_SomeD Inr Some by blast
      moreover have "map_of ?m i = Some t"
        using i threads_ok_turns [OF assms(1), of "trn_ThreadID p" sc] by (simp add: turns_ok_def wf_map_in_iff)
      ultimately show ?thesis unfolding tid cid by auto
    qed
  qed
qed

theorem create_turn_exclusive_witness:
  "\<exists>r s'. CreateAssistantTurn 9 ex_scope (ex_turn ''u1'' ''c1'' []) [] ex_thread_store = (Inr r, s') \<and>
     map_of (thread_turns s' ex_scope ''t'') ''u1'' = Some r"
proof -
  let ?r = "CreateAssistantTurn 9 ex_scope (ex_turn ''u1'' ''c1'' []) [] ex_thread_store"
  have "\<not> isl (fst ?r)" by code_simp
  then obtain r where r: "?r = (Inr r, snd ?r)" using result_Inr by blast
  have none: "thread_turns ex_thread_store ex_scope ''t'' = []" by code_simp
  have ids: "trim_space (trn_ThreadID (ex_turn ''u1'' ''c1'' [])) = ''t''" "trim_space (trn_ID (ex_turn ''u1'' ''c1'' [])) = ''u1''"
    by code_simp+
  have "map_of (thread_turns (snd ?r) ex_scope ''t'') ''u1'' = Some r"
    using create_turn_exclusive [OF ex_thread_store_ok r] unfolding ids none by auto
  with r show ?thesis by blast
qed

definition ex_turn_store :: memory_store where
  "ex_turn_store =
     snd (CreateAssistantTurn 9 ex_scope (ex_turn ''u2'' ''c2'' []) []
       (snd (SaveAssistantTurn 8 ex_scope (ex_turn ''u1'' ''c1'' TurnCompleted)
         (snd (CreateAssistantTurn 7 ex_scope (ex_turn ''u1'' ''c1'' []) [] ex_thread_store)))))"

definition ex_saved_turn :: "string \<Rightarrow> string \<Rightarrow> string \<Rightarrow> assistant_turn" where
  "ex_saved_turn i c status = (ex_turn i c status)\<lparr>trn_Mode := ''default'', trn_ApprovalMode := ''on_request'',
     trn_Checkpoint := ''{}'', trn_Error := ''{}''\<rparr>"

lemma ex_saved_turn_simps [simp]:
  "trn_ID (ex_saved_turn i c st) = i" "trn_ThreadID (ex_saved_turn i c st) = ''t''"
  "trn_ActorID (ex_saved_turn i c st) = ''a''" "trn_ClientUserMessageID (ex_saved_turn i c st) = c"
  "trn_Mode (ex_saved_turn i c st) = ''default''" "trn_ApprovalMode (ex_saved_turn i c st) = ''on_request''"
  "trn_Status (ex_saved_turn i c st) = st"
  by (simp_all add: ex_saved_turn_def ex_turn_def)

lemma ex_turn_store_turns:
  "thread_turns ex_turn_store ex_scope ''t'' =
     [(''u1'', ex_saved_turn ''u1'' ''c1'' TurnCompleted), (''u2'', ex_saved_turn ''u2'' ''c2'' TurnInProgress)]"
  by code_simp

lemma ex_turn_store_ok: "threads_ok ex_turn_store"
  unfolding ex_turn_store_def
  using CreateAssistantTurn_step [OF _ surjective_pairing] SaveAssistantTurn_step [OF _ surjective_pairing]
    ex_thread_store_ok unfolding thread_step_def by blast

definition swap_turns :: "scope \<Rightarrow> string \<Rightarrow> memory_store \<Rightarrow> memory_store" where
  "swap_turns sc tid s = s\<lparr>assistantTurns := put2 sc tid (rev (thread_turns s sc tid)) (assistantTurns s)\<rparr>"

lemma ex_turn_store_thread:
  "\<exists>t. map_of (project_threads ex_turn_store ex_scope) ''t'' = Some t \<and> thr_ActorID t = ''a''"
proof -
  have "map_option thr_ActorID (map_of (project_threads ex_turn_store ex_scope) ''t'') = Some ''a''" by code_simp
  then show ?thesis by auto
qed

lemma ex_retry_prepared: "prepareAssistantTurn 10 (ex_turn ''u3'' ''c1'' []) = Inr (ex_saved_turn ''u3'' ''c1'' TurnInProgress)"
  by code_simp

text \<open>The outcome of creating a turn depends on the order in which Go visits the turns
  of the thread: with one turn finished and another active, a retry of the finished turn's request
  gets that turn back under one order of the same map and a conflict under the other.\<close>

theorem create_turn_depends_on_map_order:
  "set (thread_turns (swap_turns ex_scope ''t'' ex_turn_store) ex_scope ''t'') = set (thread_turns ex_turn_store ex_scope ''t'') \<and>
   threads_ok ex_turn_store \<and>
   fst (CreateAssistantTurn 10 ex_scope (ex_turn ''u3'' ''c1'' []) [] ex_turn_store) =
     Inr (ex_saved_turn ''u1'' ''c1'' TurnCompleted) \<and>
   fst (CreateAssistantTurn 10 ex_scope (ex_turn ''u3'' ''c1'' []) [] (swap_turns ex_scope ''t'' ex_turn_store)) =
     Inl ErrAssistantTurnConflict"
proof -
  obtain t where "map_of (project_threads ex_turn_store ex_scope) ''t'' = Some t" "thr_ActorID t = ''a''"
    using ex_turn_store_thread by blast
  moreover have "check_turns ''c1'' (thread_turns ex_turn_store ex_scope ''t'') =
      Inr (Some (ex_saved_turn ''u1'' ''c1'' TurnCompleted))"
    "check_turns ''c1'' (rev (thread_turns ex_turn_store ex_scope ''t'')) = Inl ErrAssistantTurnConflict"
    unfolding ex_turn_store_turns by (simp_all add: assistantTurnStatusTerminal_def)
  ultimately show ?thesis
    using ex_turn_store_ok
    by (simp add: CreateAssistantTurn_def ex_retry_prepared swap_turns_def Let_def)
qed

text \<open>A save can bring a finished turn back while another turn of the thread is active:
  with the turn's contract unchanged, saving it as in progress succeeds whatever the other turns
  are, so that two turns of one thread are active.\<close>

theorem save_turn_reactivates:
  assumes "threads_ok s" "scope_validate sc = Inr ()" "prepareAssistantTurn now u = Inr p"
    and "map_of (thread_turns s sc (trn_ThreadID p)) (trn_ID p) = Some old" "\<not> turn_contract_differs old p"
    and "trn_Status p = TurnInProgress"
    and "map_of (thread_turns s sc (trn_ThreadID p)) j = Some q" "j \<noteq> trn_ID p" "trn_Status q = TurnInProgress"
  shows "\<exists>s' new. SaveAssistantTurn now sc u s = (Inr (), s') \<and>
     map_of (thread_turns s' sc (trn_ThreadID p)) (trn_ID p) = Some new \<and> trn_Status new = TurnInProgress \<and>
     map_of (thread_turns s' sc (trn_ThreadID p)) j = Some q"
proof -
  obtain t where t: "map_of (project_threads s sc) (trn_ThreadID p) = Some t"
    using threads_ok_turn_thread [OF assms(1,4)] by blast
  show ?thesis
    using assms t threads_map_exists [OF t]
    by (auto simp: SaveAssistantTurn_def project_turn_status_def Let_def assistantTurnStatusTerminal_def)
qed

theorem save_turn_reactivates_witness:
  "\<exists>s'. SaveAssistantTurn 11 ex_scope (ex_turn ''u1'' ''c1'' TurnInProgress) ex_turn_store = (Inr (), s') \<and>
     (\<exists>a b. map_of (thread_turns s' ex_scope ''t'') ''u1'' = Some a \<and> trn_Status a = TurnInProgress \<and>
            map_of (thread_turns s' ex_scope ''t'') ''u2'' = Some b \<and> trn_Status b = TurnInProgress)"
proof -
  let ?p = "ex_saved_turn ''u1'' ''c1'' TurnInProgress"
  have p: "prepareAssistantTurn 11 (ex_turn ''u1'' ''c1'' TurnInProgress) = Inr ?p" by code_simp
  have p_simps: "trn_ThreadID ?p = ''t''" "trn_ID ?p = ''u1''" "trn_Status ?p = TurnInProgress"
    by (simp_all add: ex_saved_turn_def ex_turn_def)
  have old: "map_of (thread_turns ex_turn_store ex_scope (trn_ThreadID ?p)) (trn_ID ?p) =
      Some (ex_saved_turn ''u1'' ''c1'' TurnCompleted)"
    unfolding p_simps ex_turn_store_turns by simp
  have same: "\<not> turn_contract_differs (ex_saved_turn ''u1'' ''c1'' TurnCompleted) ?p"
    by (simp add: turn_contract_differs_def ex_saved_turn_def ex_turn_def)
  have q: "map_of (thread_turns ex_turn_store ex_scope (trn_ThreadID ?p)) ''u2'' =
      Some (ex_saved_turn ''u2'' ''c2'' TurnInProgress)"
    unfolding p_simps ex_turn_store_turns by simp
  have j: "''u2'' \<noteq> trn_ID ?p" unfolding p_simps by simp
  have stq: "trn_Status (ex_saved_turn ''u2'' ''c2'' TurnInProgress) = TurnInProgress"
    by (simp add: ex_saved_turn_def ex_turn_def)
  from save_turn_reactivates [OF ex_turn_store_ok ex_scope_valid p old same p_simps(3) q j stq] stq show ?thesis
    unfolding p_simps by blast
qed

text \<open>Deleting a thread is complete and precise: it needs the thread's actor and no
  active turn, and then the thread, its turns and its events are gone, and with each turn the run
  of the turn's ID, that run's events, its two messages and its conversation items; every other
  thread, run, event stream, message and item of the project stays, as do the conversation's
  high-water mark and every other project.\<close>

theorem delete_thread_complete:
  assumes "DeleteAssistantThread sc tid actor s = (Inr u, s')"
    and "T = {i. map_of (thread_turns s sc (trim_space tid)) i \<noteq> None}"
  shows "(\<exists>t. map_of (project_threads s sc) (trim_space tid) = Some t \<and> thr_ActorID t = trim_space actor) \<and>
     (\<forall>i q. map_of (thread_turns s sc (trim_space tid)) i = Some q \<longrightarrow> assistantTurnStatusTerminal (trn_Status q)) \<and>
     (\<forall>i. map_of (project_threads s' sc) i = (if i = trim_space tid then None else map_of (project_threads s sc) i) \<and>
          thread_turns s' sc i = (if i = trim_space tid then [] else thread_turns s sc i) \<and>
          thread_log s' sc i = (if i = trim_space tid then [] else thread_log s sc i)) \<and>
     (\<forall>i. map_of (project_runs s' sc) i = (if i \<in> T then None else map_of (project_runs s sc) i) \<and>
          run_log s' sc i = (if i \<in> T \<and> map_of (project_runs s sc) i \<noteq> None then [] else run_log s sc i)) \<and>
     (\<forall>m. map_of (project_messages s' sc) m =
         (if m \<noteq> [] \<and> (\<exists>i \<in> T. \<exists>r. map_of (project_runs s sc) i = Some r \<and> (m = run_UserMessageID r \<or> m = run_ActiveMessageID r))
          then None else map_of (project_messages s sc) m)) \<and>
     conversation s' sc = filter (\<lambda>it. itm_RunID it \<notin> T) (conversation s sc) \<and>
     stored_high_water s' sc = stored_high_water s sc \<and>
     (\<forall>sc'. sc' \<noteq> sc \<longrightarrow> project_threads s' sc' = project_threads s sc' \<and> project_runs s' sc' = project_runs s sc' \<and>
        project_messages s' sc' = project_messages s sc' \<and> conversation s' sc' = conversation s sc')"
proof -
  have T: "T = fst ` set (thread_turns s sc (trim_space tid))"
    using assms(2) by (auto simp: map_of_eq_None_iff)
  note d = DeleteAssistantThread_success [OF assms(1) T]
  have turns: "assistantTurnStatusTerminal (trn_Status q)"
    if "map_of (thread_turns s sc (trim_space tid)) i = Some q" for i q
    using d(2) map_of_SomeD [OF that] by fastforce
  have logs: "run_log s' sc i = (if i \<in> T \<and> map_of (project_runs s sc) i \<noteq> None then [] else run_log s sc i)" for i
    using map_of_filter_key [of "\<lambda>i. i \<notin> T \<or> map_of (project_runs s sc) i = None" "inner (assistantEvents s) sc" i]
    unfolding d(7) by (auto simp: inner_def)
  have msgs: "map_of (project_messages s' sc) m =
      (if m \<noteq> [] \<and> (\<exists>i \<in> T. \<exists>r. map_of (project_runs s sc) i = Some r \<and> (m = run_UserMessageID r \<or> m = run_ActiveMessageID r))
       then None else map_of (project_messages s sc) m)" for m
  proof -
    let ?ids = "run_message_ids (project_runs s sc) (thread_turns s sc (trim_space tid))"
    have "map_of (project_messages s' sc) m = (if m \<notin> set ?ids then map_of (project_messages s sc) m else None)"
      using map_of_filter_key [of "\<lambda>m. m \<notin> set ?ids" "project_messages s sc" m] by (simp add: d(8))
    then show ?thesis unfolding set_run_message_ids T [symmetric] by auto
  qed
  have "stored_high_water s' sc = stored_high_water s sc" by (simp add: stored_high_water_def d(10))
  moreover have "map_of (project_threads s' sc) i = (if i = trim_space tid then None else map_of (project_threads s sc) i)"
    "thread_turns s' sc i = (if i = trim_space tid then [] else thread_turns s sc i)"
    "thread_log s' sc i = (if i = trim_space tid then [] else thread_log s sc i)" for i
    by (simp_all add: d(3-5))
  moreover have "map_of (project_runs s' sc) i = (if i \<in> T then None else map_of (project_runs s sc) i)" for i
    using map_of_filter_key [of "\<lambda>i. i \<notin> T" "project_runs s sc" i] by (simp add: d(6))
  moreover have "project_threads s' sc' = project_threads s sc' \<and> project_runs s' sc' = project_runs s sc' \<and>
      project_messages s' sc' = project_messages s sc' \<and> conversation s' sc' = conversation s sc'" if "sc' \<noteq> sc" for sc'
    using that by (simp add: d(3,6,8,9))
  moreover have "conversation s' sc = filter (\<lambda>it. itm_RunID it \<notin> T) (conversation s sc)" by (simp add: d(9))
  ultimately show ?thesis
    by (intro conjI allI impI) (rule d(1) msgs logs | erule turns | assumption | simp)+
qed

theorem delete_thread_complete_witness:
  "\<exists>s'. DeleteAssistantThread ex_scope ''t'' ''a'' ex_thread_store = (Inr (), s') \<and>
     map_of (project_threads s' ex_scope) ''t'' = None"
proof -
  let ?r = "DeleteAssistantThread ex_scope ''t'' ''a'' ex_thread_store"
  have "fst ?r = Inr ()" by code_simp
  then have ok: "?r = (Inr (), snd ?r)" by (rule result_eq)
  have "trim_space ''t'' = ''t''" by code_simp
  with delete_thread_complete [OF ok refl] ok show ?thesis by metis
qed

subsection \<open>The thread listing\<close>

definition visible_threads :: "string \<Rightarrow> bool \<Rightarrow> (string, assistant_thread) gomap \<Rightarrow> assistant_thread list" where
  "visible_threads actorID includeArchived m =
     rev (sort_key thread_key (filter (\<lambda>t. thr_ActorID t = trim_space actorID \<and>
        (includeArchived \<or> thr_Status t \<noteq> ThreadArchived)) (map snd m)))"

definition threads_pageable :: "(string, assistant_thread) gomap \<Rightarrow> bool" where
  "threads_pageable m \<longleftrightarrow> wf_map m \<and>
     (\<forall>(i, t) \<in> set m. thr_ID t = i \<and> cursor_safe (thr_UpdatedAt t) (thr_ID t))"

lemma ListAssistantThreads_eq:
  assumes "scope_validate sc = Inr ()" "decodeThreadCursor c = Inr (t, i)"
  shows "ListAssistantThreads sc actor arch limit c s =
     Inr (cut_page (\<lambda>t. encodeThreadCursor (thr_UpdatedAt t) (thr_ID t))
       (if t \<noteq> 0 then first_index (\<lambda>x. thread_key x < (t, i)) (visible_threads actor arch (project_threads s sc)) else 0)
       (nat (normalizeLimit limit)) (visible_threads actor arch (project_threads s sc)))"
proof -
  have "(\<lambda>x. thr_UpdatedAt x < t \<or> (thr_UpdatedAt x = t \<and> thr_ID x < i)) = (\<lambda>x. thread_key x < (t, i))"
    by (auto simp: thread_key_def less_prod_def)
  then show ?thesis
    using assms by (simp add: ListAssistantThreads_def visible_threads_def Let_def)
qed

lemma visible_threads_sorted: "sorted (map thread_key (rev (visible_threads actor arch m)))"
  by (simp add: visible_threads_def)

lemma visible_threads_distinct:
  assumes "threads_pageable m"
  shows "distinct (map thread_key (visible_threads actor arch m))"
proof -
  have "map thr_ID (map snd m) = map fst m" using assms by (auto simp: threads_pageable_def)
  then have "distinct (map thr_ID (map snd m))" using assms by (simp only: threads_pageable_def wf_map_def)
  then have "distinct (map thread_key (map snd m))" by (auto simp: distinct_map inj_on_def thread_key_def)
  then have "distinct (map thread_key (filter P (map snd m)))" for P by (rule distinct_map_filter)
  then have "distinct (map thread_key (sort_key thread_key (filter P (map snd m))))" for P
    by (metis mset_eq_imp_distinct_iff mset_map mset_sort)
  then show ?thesis unfolding visible_threads_def by (simp add: rev_map [symmetric])
qed

lemma decodeThreadCursor_safe: "cursor_safe t i \<Longrightarrow> decodeThreadCursor (encodeThreadCursor t i) = Inr (t, i)"
  by (simp add: encodeThreadCursor_def cursor_encoding_safe decodeThreadCursor_def cursor_safe_def)

interpretation thread_pages: pager
  "\<lambda>s. visible_threads actor arch (project_threads s sc)" "\<lambda>s c. ListAssistantThreads sc actor arch limit c s" BlankCursor
  "\<lambda>t. encodeThreadCursor (thr_UpdatedAt t) (thr_ID t)" "nat (normalizeLimit limit)"
  "\<lambda>s. scope_validate sc = Inr () \<and> threads_pageable (project_threads s sc)" for sc actor arch limit
proof unfold_locales
  show pos: "0 < nat (normalizeLimit limit)" using normalizeLimit_range [of limit] by simp
  let ?ok = "\<lambda>s. scope_validate sc = Inr () \<and> threads_pageable (project_threads s sc)"
  let ?enc = "\<lambda>t. encodeThreadCursor (thr_UpdatedAt t) (thr_ID t)"
  let ?list = "\<lambda>s. visible_threads actor arch (project_threads s sc)"
  have safe: "cursor_safe (thr_UpdatedAt a) (thr_ID a)" if "?ok s" "a \<in> set (?list s)" for s a
    using that by (auto simp: threads_pageable_def visible_threads_def)
  fix s a
  show "?ok s \<Longrightarrow> a \<in> set (?list s) \<Longrightarrow> ?enc a \<noteq> BlankCursor"
    using safe [of s a] by (simp add: encodeThreadCursor_def cursor_encoding_safe)
  have blank: "decodeThreadCursor BlankCursor = Inr (0, [])" by (simp add: decodeThreadCursor_def)
  show "?ok s \<Longrightarrow> ListAssistantThreads sc actor arch limit BlankCursor s = Inr (take (nat (normalizeLimit limit)) (?list s),
      if nat (normalizeLimit limit) < length (?list s) then ?enc (?list s ! (nat (normalizeLimit limit) - 1)) else BlankCursor)"
    using cut_page_eq [OF pos, of ?enc "[]" "?list s"] by (simp add: ListAssistantThreads_eq [OF _ blank])
  fix xs ys
  assume ok: "?ok s" and split: "?list s = xs @ a # ys" and "ys \<noteq> []"
  have a: "cursor_safe (thr_UpdatedAt a) (thr_ID a)" using safe [OF ok] split by simp
  have "sorted (map thread_key (rev (xs @ a # ys)))" "distinct (map thread_key (xs @ a # ys))"
    using ok visible_threads_sorted [of actor arch "project_threads s sc"]
      visible_threads_distinct [of "project_threads s sc" actor arch] unfolding split by simp_all
  note before = sorted_split_before [OF this]
  have "first_index (\<lambda>x. thread_key x < thread_key a) ((xs @ [a]) @ ys) = length (xs @ [a])"
    by (rule first_index_split [OF before])
  then have "first_index (\<lambda>x. thread_key x < (thr_UpdatedAt a, thr_ID a)) ((xs @ [a]) @ ys) = length (xs @ [a])"
    by (simp only: thread_key_def [of a])
  then show "ListAssistantThreads sc actor arch limit (?enc a) s = Inr (take (nat (normalizeLimit limit)) ys,
      if nat (normalizeLimit limit) < length ys then ?enc (ys ! (nat (normalizeLimit limit) - 1)) else BlankCursor)"
    using ok cut_page_eq [OF pos, of ?enc "xs @ [a]" ys] a
    by (simp add: ListAssistantThreads_eq [OF _ decodeThreadCursor_safe [OF a]] split cursor_safe_def)
qed

text \<open>Following the cursors of the thread listing from the start visits every thread of
  the actor, without the archived ones unless they are asked for, once and most recently updated
  first, for every limit, and stops.\<close>

theorem thread_pages_complete:
  assumes "scope_validate sc = Inr ()" "threads_pageable (project_threads s sc)"
    and "length (project_threads s sc) < fuel"
  shows "\<exists>xs. walk_pages (\<lambda>c. ListAssistantThreads sc actor arch limit c s) BlankCursor fuel BlankCursor = Some (Inr xs) \<and>
     distinct xs \<and> sorted (map (\<lambda>t. (thr_UpdatedAt t, thr_ID t)) (rev xs)) \<and>
     set xs = {t. \<exists>i. map_of (project_threads s sc) i = Some t \<and> thr_ActorID t = trim_space actor \<and>
                (arch \<or> thr_Status t \<noteq> ThreadArchived)}"
proof (intro exI conjI)
  let ?xs = "visible_threads actor arch (project_threads s sc)"
  have "length ?xs \<le> length (project_threads s sc)"
    by (auto simp: visible_threads_def intro: order_trans [OF length_filter_le])
  then show "walk_pages (\<lambda>c. ListAssistantThreads sc actor arch limit c s) BlankCursor fuel BlankCursor = Some (Inr ?xs)"
    using thread_pages.walk_complete [of sc s actor arch fuel limit] assms by simp
  show "distinct ?xs" using visible_threads_distinct [OF assms(2)] by (auto simp: distinct_map)
  show "sorted (map (\<lambda>t. (thr_UpdatedAt t, thr_ID t)) (rev ?xs))"
    using visible_threads_sorted [of actor arch "project_threads s sc"] by (simp add: thread_key_def [abs_def])
  have wf: "wf_map (project_threads s sc)" using assms(2) by (simp add: threads_pageable_def)
  have "t \<in> snd ` set (project_threads s sc) \<longleftrightarrow> (\<exists>i. (i, t) \<in> set (project_threads s sc))" for t by force
  then have "t \<in> snd ` set (project_threads s sc) \<longleftrightarrow> (\<exists>i. map_of (project_threads s sc) i = Some t)" for t
    unfolding wf_map_in_iff [OF wf] .
  then show "set ?xs = {t. \<exists>i. map_of (project_threads s sc) i = Some t \<and> thr_ActorID t = trim_space actor \<and>
                (arch \<or> thr_Status t \<noteq> ThreadArchived)}"
    by (simp add: visible_threads_def set_eq_iff)
qed

theorem thread_pages_complete_witness:
  "\<exists>xs. walk_pages (\<lambda>c. ListAssistantThreads ex_scope ''a'' False 1 c ex_thread_store) BlankCursor 2 BlankCursor = Some (Inr xs) \<and> distinct xs"
proof -
  have "map (\<lambda>(i, t). (i, thr_ID t, thr_UpdatedAt t)) (project_threads ex_thread_store ex_scope) = [(''t'', ''t'', 6)]" by code_simp
  then obtain t where t: "project_threads ex_thread_store ex_scope = [(''t'', t)]" "thr_ID t = ''t''" "thr_UpdatedAt t = 6" by auto
  have "\<not> blank ''t''" by code_simp
  then have "cursor_safe 6 ''t''" by (simp add: cursor_safe_def json_time_ok_def coerce_utf8_ascii between_def)
  then have ok: "threads_pageable (project_threads ex_thread_store ex_scope)" using t by (simp add: threads_pageable_def)
  have "length (project_threads ex_thread_store ex_scope) < 2" using t by simp
  from thread_pages_complete [OF ex_scope_valid ok this] show ?thesis by blast
qed

end
