(* ===== verification/AppStore_Project.thy ===== *)
theory AppStore_Project
  imports AppStore_Types
begin

section \<open>App Studio store: permits, preferences, thumbnails and replica claims\<close>

text \<open>
  The project-wide records of \<open>providers/app-studio/store\<close>: bootstrap permits and approval
  preferences (\<open>memory.go\<close>), thumbnails (\<open>project_thumbnail.go\<close>) and the ownership claims of the
  replicas (\<open>claims.go\<close>). A claim is a lease; what a lease promises to its holder is the locale
  \<open>lease\<close>.
\<close>

subsection \<open>Bootstrap permits and approval preferences\<close>

definition CreateProjectBootstrapPermit ::
  "scope \<Rightarrow> string \<Rightarrow> string \<Rightarrow> memory_store \<Rightarrow> unit sres \<times> memory_store" where
  "CreateProjectBootstrapPermit scope actor0 promptDigest0 s =
     (case scope_validate scope of Inl e \<Rightarrow> (Inl e, s) | Inr _ \<Rightarrow>
      (let actor = trim_space actor0; promptDigest = trim_space promptDigest0 in
       if actor = [] \<or> promptDigest = []
       then (Inl (ErrMsg ''bootstrap permit actor and prompt digest are required''), s)
       else case map_of (bootstrapPermits s) scope of
         Some existing \<Rightarrow>
           if bp_actor existing \<noteq> actor \<or> bp_promptDigest existing \<noteq> promptDigest
           then (Inl ErrProjectBootstrapPermitConflict, s) else (Inr (), s)
       | None \<Rightarrow>
           (Inr (), s\<lparr>bootstrapPermits := mput scope
              \<lparr>bp_actor = actor, bp_promptDigest = promptDigest, bp_clientRequestID = []\<rparr> (bootstrapPermits s)\<rparr>)))"

definition ConsumeProjectBootstrapPermit ::
  "scope \<Rightarrow> string \<Rightarrow> string \<Rightarrow> string \<Rightarrow> memory_store \<Rightarrow> bool sres \<times> memory_store" where
  "ConsumeProjectBootstrapPermit scope actor0 promptDigest0 clientRequestID0 s =
     (case scope_validate scope of Inl e \<Rightarrow> (Inl e, s) | Inr _ \<Rightarrow>
      (let actor = trim_space actor0; promptDigest = trim_space promptDigest0;
           clientRequestID = trim_space clientRequestID0
       in if actor = [] \<or> promptDigest = [] \<or> clientRequestID = []
          then (Inl (ErrMsg ''bootstrap permit actor, prompt digest, and client request ID are required''), s)
          else case map_of (bootstrapPermits s) scope of
            None \<Rightarrow> (Inr False, s)
          | Some permit \<Rightarrow>
              if bp_actor permit \<noteq> actor \<or> bp_promptDigest permit \<noteq> promptDigest then (Inr False, s)
              else if bp_clientRequestID permit \<noteq> [] \<and> bp_clientRequestID permit \<noteq> clientRequestID
              then (Inl ErrProjectBootstrapPermitConflict, s)
              else (Inr True, s\<lparr>bootstrapPermits :=
                      mput scope (permit\<lparr>bp_clientRequestID := clientRequestID\<rparr>) (bootstrapPermits s)\<rparr>)))"

definition GetAssistantApprovalPreference ::
  "scope \<Rightarrow> string \<Rightarrow> memory_store \<Rightarrow> approval_preference sres" where
  "GetAssistantApprovalPreference scope actor0 s =
     (case scope_validate scope of Inl e \<Rightarrow> Inl e | Inr _ \<Rightarrow>
      (let actor = trim_space actor0 in
       if actor = [] then Inl (ErrMsg ''assistant approval preference actor is required'')
       else case map_of (inner (approvalModes s) scope) actor of
         Some preference \<Rightarrow> Inr preference
       | None \<Rightarrow> Inr \<lparr>prf_ActorID = actor, prf_Mode = ''on_request'', prf_UpdatedAt = 0\<rparr>))"

definition SetAssistantApprovalPreference ::
  "gotime \<Rightarrow> scope \<Rightarrow> approval_preference \<Rightarrow> memory_store \<Rightarrow> approval_preference sres \<times> memory_store" where
  "SetAssistantApprovalPreference now scope preference s =
     (case scope_validate scope of Inl e \<Rightarrow> (Inl e, s) | Inr _ \<Rightarrow>
      (let actor = trim_space (prf_ActorID preference) in
       if actor = [] then (Inl (ErrMsg ''assistant approval preference actor is required''), s)
       else case NormalizeAssistantApprovalMode (prf_Mode preference) of
         Inl e \<Rightarrow> (Inl e, s)
       | Inr mode \<Rightarrow>
           (let stored = preference\<lparr>prf_ActorID := actor, prf_Mode := mode,
                  prf_UpdatedAt := or_now now (prf_UpdatedAt preference)\<rparr>;
                s1 = s\<lparr>approvalModes := ensure_inner scope (approvalModes s)\<rparr>
            in (Inr stored, s1\<lparr>approvalModes := put2 scope actor stored (approvalModes s1)\<rparr>))))"

text \<open>A bootstrap permit is consumed by one request: once a consumption has succeeded
  for a client request, the same request may repeat it without effect, every other request of the
  same actor and prompt is refused as a conflict, other actors and prompts get no permit, and
  creating the permit again does not free it.\<close>

theorem bootstrap_permit_single_use:
  assumes "ConsumeProjectBootstrapPermit sc actor digest cid s = (Inr True, s')"
  shows "ConsumeProjectBootstrapPermit sc actor digest cid s' = (Inr True, s') \<and>
    (\<forall>cid'. trim_space cid' \<notin> {[], trim_space cid} \<longrightarrow>
       ConsumeProjectBootstrapPermit sc actor digest cid' s' = (Inl ErrProjectBootstrapPermitConflict, s')) \<and>
    (\<forall>actor' digest' cid'. (trim_space actor', trim_space digest') \<noteq> (trim_space actor, trim_space digest) \<longrightarrow>
       (\<exists>r. ConsumeProjectBootstrapPermit sc actor' digest' cid' s' = (r, s') \<and> r \<noteq> Inr True)) \<and>
    (\<forall>actor' digest'. snd (CreateProjectBootstrapPermit sc actor' digest' s') = s')"
proof (cases "scope_validate sc")
  case (Inr u)
  define m where "m = bootstrapPermits s"
  obtain p where p: "map_of m sc = Some p" "bp_actor p = trim_space actor" "bp_promptDigest p = trim_space digest"
      "trim_space actor \<noteq> []" "trim_space digest \<noteq> []" "trim_space cid \<noteq> []"
      "s' = s\<lparr>bootstrapPermits := mput sc (p\<lparr>bp_clientRequestID := trim_space cid\<rparr>) m\<rparr>"
    using assms Inr
    by (auto simp: ConsumeProjectBootstrapPermit_def Let_def m_def split: option.splits if_splits)
  have same: "mput sc q (mput sc q m) = mput sc q m" for q
    unfolding mput_def by (induction m) auto
  show ?thesis
    using p Inr by (auto simp: ConsumeProjectBootstrapPermit_def CreateProjectBootstrapPermit_def Let_def same)
qed (use assms in \<open>simp add: ConsumeProjectBootstrapPermit_def\<close>)

definition ex_permit_store :: memory_store where
  "ex_permit_store = snd (CreateProjectBootstrapPermit ex_scope ''a'' ''d'' NewMemoryStore)"

theorem bootstrap_permit_single_use_witness:
  "\<exists>s'. ConsumeProjectBootstrapPermit ex_scope ''a'' ''d'' ''c1'' ex_permit_store = (Inr True, s') \<and>
     ConsumeProjectBootstrapPermit ex_scope ''a'' ''d'' ''c2'' s' = (Inl ErrProjectBootstrapPermitConflict, s')"
proof -
  let ?r = "ConsumeProjectBootstrapPermit ex_scope ''a'' ''d'' ''c1'' ex_permit_store"
  have "fst ?r = Inr True" by code_simp
  then have r: "?r = (Inr True, snd ?r)" by (rule result_eq)
  have "trim_space ''c2'' \<notin> {[], trim_space ''c1''}" by code_simp
  with bootstrap_permit_single_use [OF r] r show ?thesis by blast
qed

text \<open>An approval preference reads back as it was set, in its normalised mode and for
  the trimmed actor only: the mode is always one of the four known ones, and an actor without a
  preference is asked on request.\<close>

theorem approval_preference_roundtrip:
  assumes "SetAssistantApprovalPreference now sc p s = (Inr q, s')"
  shows "(\<forall>actor. trim_space actor = trim_space (prf_ActorID p) \<longrightarrow> GetAssistantApprovalPreference sc actor s' = Inr q) \<and>
    (\<forall>actor. trim_space actor \<noteq> trim_space (prf_ActorID p) \<longrightarrow>
       GetAssistantApprovalPreference sc actor s' = GetAssistantApprovalPreference sc actor s) \<and>
    (\<forall>sc' actor. sc' \<noteq> sc \<longrightarrow> GetAssistantApprovalPreference sc' actor s' = GetAssistantApprovalPreference sc' actor s) \<and>
    prf_Mode q \<in> set approval_modes \<and> NormalizeAssistantApprovalMode (prf_Mode p) = Inr (prf_Mode q)"
proof (cases "scope_validate sc")
  case (Inr u)
  obtain mode where m: "NormalizeAssistantApprovalMode (prf_Mode p) = Inr mode" "trim_space (prf_ActorID p) \<noteq> []"
    using assms Inr by (auto simp: SetAssistantApprovalPreference_def Let_def split: sum.splits if_splits)
  show ?thesis
    using assms Inr m normalize_approval_in [OF m(1)]
    by (auto simp: SetAssistantApprovalPreference_def GetAssistantApprovalPreference_def Let_def split: sum.splits)
qed (use assms in \<open>simp add: SetAssistantApprovalPreference_def\<close>)

theorem approval_preference_roundtrip_witness:
  "\<exists>q s'. SetAssistantApprovalPreference 9 ex_scope \<lparr>prf_ActorID = '' a'', prf_Mode = ''NEVER'', prf_UpdatedAt = 0\<rparr>
       NewMemoryStore = (Inr q, s') \<and> GetAssistantApprovalPreference ex_scope ''a'' s' = Inr q"
proof -
  let ?p = "\<lparr>prf_ActorID = '' a'', prf_Mode = ''NEVER'', prf_UpdatedAt = 0\<rparr>"
  let ?r = "SetAssistantApprovalPreference 9 ex_scope ?p NewMemoryStore"
  have "\<not> isl (fst ?r)" by code_simp
  then obtain q where q: "?r = (Inr q, snd ?r)" using result_Inr by blast
  have "trim_space ''a'' = trim_space (prf_ActorID ?p)" by code_simp
  with approval_preference_roundtrip [OF q] q show ?thesis by blast
qed

subsection \<open>Thumbnails\<close>

record thumbnail_metadata =
  tm_CommitSHA :: string
  tm_CommitCreatedAt :: gotime
  tm_CommitOrder :: string
  tm_Variant :: string
  tm_ContentType :: string
  tm_SHA256 :: string
  tm_CapturedAt :: gotime

definition validateProjectThumbnail :: "scope \<Rightarrow> project_thumbnail \<Rightarrow> unit sres" where
  "validateProjectThumbnail scope t =
     (case scope_validate scope of Inl e \<Rightarrow> Inl e | Inr _ \<Rightarrow>
      if blank (tn_CommitSHA t) \<or> blank (tn_CommitOrder t) \<or> blank (tn_Variant t) \<or> blank (tn_SHA256 t) \<or> tn_Data t = []
      then Inl (ErrMsg ''thumbnail commit, order, variant, digest, and image data are required'')
      else if tn_CommitCreatedAt t = 0 then Inl (ErrMsg ''thumbnail commit creation time is required'')
      else if tn_ContentType t \<noteq> ''image/png'' \<and> tn_ContentType t \<noteq> ''image/jpeg''
      then Inl (ErrMsg ''unsupported thumbnail content type'')
      else if tn_DataEncrypted t \<noteq> (\<not> blank (tn_DataKeyID t))
      then Inl (ErrMsg ''thumbnail encryption metadata is inconsistent'')
      else if tn_CapturedAt t = 0 then Inl (ErrMsg ''thumbnail capture time is required'')
      else Inr ())"

definition projectThumbnailMetadata :: "project_thumbnail \<Rightarrow> thumbnail_metadata" where
  "projectThumbnailMetadata t =
     \<lparr>tm_CommitSHA = tn_CommitSHA t, tm_CommitCreatedAt = tn_CommitCreatedAt t, tm_CommitOrder = tn_CommitOrder t,
      tm_Variant = tn_Variant t, tm_ContentType = tn_ContentType t, tm_SHA256 = tn_SHA256 t,
      tm_CapturedAt = tn_CapturedAt t\<rparr>"

definition projectThumbnailNewer :: "gotime \<Rightarrow> string \<Rightarrow> gotime \<Rightarrow> string \<Rightarrow> bool" where
  "projectThumbnailNewer leftCreatedAt leftOrder rightCreatedAt rightOrder =
     (if leftCreatedAt > rightCreatedAt then True
      else if leftCreatedAt < rightCreatedAt then False
      else trim_space leftOrder > trim_space rightOrder)"

definition GetProjectThumbnail :: "scope \<Rightarrow> memory_store \<Rightarrow> project_thumbnail sres" where
  "GetProjectThumbnail scope s =
     (case scope_validate scope of Inl e \<Rightarrow> Inl e | Inr _ \<Rightarrow>
      (case map_of (projectThumbnails s) scope of
         None \<Rightarrow> Inl ErrProjectThumbnailNotFound | Some t \<Rightarrow> Inr t))"

definition GetProjectThumbnailMetadata :: "scope \<Rightarrow> memory_store \<Rightarrow> thumbnail_metadata sres" where
  "GetProjectThumbnailMetadata scope s =
     (case scope_validate scope of Inl e \<Rightarrow> Inl e | Inr _ \<Rightarrow>
      (case map_of (projectThumbnails s) scope of
         None \<Rightarrow> Inl ErrProjectThumbnailNotFound | Some t \<Rightarrow> Inr (projectThumbnailMetadata t)))"

definition PutProjectThumbnail :: "scope \<Rightarrow> project_thumbnail \<Rightarrow> memory_store \<Rightarrow> unit sres \<times> memory_store" where
  "PutProjectThumbnail scope t s =
     (case validateProjectThumbnail scope t of Inl e \<Rightarrow> (Inl e, s) | Inr _ \<Rightarrow>
      if (case map_of (projectThumbnails s) scope of
            Some current \<Rightarrow> projectThumbnailNewer (tn_CommitCreatedAt current) (tn_CommitOrder current)
                              (tn_CommitCreatedAt t) (tn_CommitOrder t)
          | None \<Rightarrow> False)
      then (Inr (), s)
      else (Inr (), s\<lparr>projectThumbnails := mput scope t (projectThumbnails s)\<rparr>))"

definition DeleteProjectThumbnail :: "scope \<Rightarrow> memory_store \<Rightarrow> unit sres \<times> memory_store" where
  "DeleteProjectThumbnail scope s =
     (case scope_validate scope of Inl e \<Rightarrow> (Inl e, s)
      | Inr _ \<Rightarrow> (Inr (), s\<lparr>projectThumbnails := mdel scope (projectThumbnails s)\<rparr>))"

definition thumbnail_key :: "project_thumbnail \<Rightarrow> gotime \<times> string" where
  "thumbnail_key t = (tn_CommitCreatedAt t, trim_space (tn_CommitOrder t))"

lemma projectThumbnailNewer_iff:
  "projectThumbnailNewer (tn_CommitCreatedAt a) (tn_CommitOrder a) (tn_CommitCreatedAt b) (tn_CommitOrder b) \<longleftrightarrow>
     thumbnail_key b < thumbnail_key a"
  by (auto simp: projectThumbnailNewer_def thumbnail_key_def less_prod_def)

lemma put_thumbnail_cases:
  "PutProjectThumbnail sc t s = (r, s') \<Longrightarrow>
     (validateProjectThumbnail sc t \<noteq> Inr () \<and> s' = s) \<or>
     (validateProjectThumbnail sc t = Inr () \<and>
       (\<exists>c. map_of (projectThumbnails s) sc = Some c \<and> thumbnail_key t < thumbnail_key c \<and> s' = s)) \<or>
     (validateProjectThumbnail sc t = Inr () \<and>
       (\<forall>c. map_of (projectThumbnails s) sc = Some c \<longrightarrow> \<not> thumbnail_key t < thumbnail_key c) \<and>
       map_of (projectThumbnails s') sc = Some t)"
  by (cases "validateProjectThumbnail sc t"; cases "map_of (projectThumbnails s) sc")
    (auto simp: PutProjectThumbnail_def projectThumbnailNewer_iff split: if_splits)

definition put_thumbnails :: "scope \<Rightarrow> project_thumbnail list \<Rightarrow> memory_store \<Rightarrow> memory_store" where
  "put_thumbnails sc ts s = fold (\<lambda>t s. snd (PutProjectThumbnail sc t s)) ts s"

text \<open>Thumbnails are last-commit-wins in whatever order the captures arrive: after any
  sequence of puts, valid or not, the stored thumbnail is a valid one of the sequence and none of
  the valid ones is of a newer commit, ties in time being broken by the commit order.\<close>

theorem thumbnail_newest_wins:
  assumes "map_of (projectThumbnails s) sc = None"
  shows "case map_of (projectThumbnails (put_thumbnails sc ts s)) sc of
      None \<Rightarrow> \<forall>x \<in> set ts. validateProjectThumbnail sc x \<noteq> Inr ()
    | Some t \<Rightarrow> t \<in> set ts \<and> validateProjectThumbnail sc t = Inr () \<and>
        (\<forall>x \<in> set ts. validateProjectThumbnail sc x = Inr () \<longrightarrow>
           (tn_CommitCreatedAt x, trim_space (tn_CommitOrder x)) \<le> (tn_CommitCreatedAt t, trim_space (tn_CommitOrder t)))"
proof (induction ts rule: rev_induct)
  case (snoc t ts)
  let ?s = "put_thumbnails sc ts s"
  have "put_thumbnails sc (ts @ [t]) s = snd (PutProjectThumbnail sc t ?s)" by (simp add: put_thumbnails_def)
  moreover obtain r s' where op: "PutProjectThumbnail sc t ?s = (r, s')" by fastforce
  ultimately have s': "put_thumbnails sc (ts @ [t]) s = s'" by simp
  from put_thumbnail_cases [OF op] show ?case
  proof (elim disjE conjE exE)
    fix c assume "map_of (projectThumbnails ?s) sc = Some c" "thumbnail_key t < thumbnail_key c" "s' = ?s"
    then show ?thesis using snoc.IH s' by (simp add: thumbnail_key_def [symmetric] order_less_imp_le)
  next
    assume valid: "validateProjectThumbnail sc t = Inr ()" "map_of (projectThumbnails s') sc = Some t"
      and newest: "\<forall>c. map_of (projectThumbnails ?s) sc = Some c \<longrightarrow> \<not> thumbnail_key t < thumbnail_key c"
    have "thumbnail_key x \<le> thumbnail_key t" if "x \<in> set ts" "validateProjectThumbnail sc x = Inr ()" for x
    proof (cases "map_of (projectThumbnails ?s) sc")
      case None
      with snoc.IH that show ?thesis by simp
    next
      case (Some c)
      then have "thumbnail_key x \<le> thumbnail_key c" using snoc.IH that by (simp add: thumbnail_key_def)
      also have "\<dots> \<le> thumbnail_key t" using newest Some by (simp add: not_less)
      finally show ?thesis .
    qed
    then show ?thesis using valid s' by (simp add: thumbnail_key_def [symmetric])
  qed (use snoc.IH s' in \<open>auto split: option.splits\<close>)
qed (use assms in \<open>simp add: put_thumbnails_def\<close>)

definition ex_thumbnail :: "string \<Rightarrow> gotime \<Rightarrow> project_thumbnail" where
  "ex_thumbnail sha t = \<lparr>tn_CommitSHA = sha, tn_CommitCreatedAt = t, tn_CommitOrder = ''1'', tn_Variant = ''v'',
     tn_ContentType = ''image/png'', tn_SHA256 = ''h'', tn_Data = ''x'', tn_DataEncrypted = False,
     tn_DataKeyID = [], tn_CapturedAt = 9\<rparr>"

theorem thumbnail_newest_wins_witness:
  "map_of (projectThumbnails (put_thumbnails ex_scope [ex_thumbnail ''b'' 7, ex_thumbnail ''a'' 5] NewMemoryStore)) ex_scope \<noteq> None"
proof -
  have none: "map_of (projectThumbnails NewMemoryStore) ex_scope = None" by (simp add: NewMemoryStore_def)
  have "validateProjectThumbnail ex_scope (ex_thumbnail ''b'' 7) = Inr ()" by code_simp
  then show ?thesis
    using thumbnail_newest_wins [OF none, of "[ex_thumbnail ''b'' 7, ex_thumbnail ''a'' 5]"]
    by (auto split: option.splits)
qed

subsection \<open>Replica claims\<close>

definition Live :: "replica_claim \<Rightarrow> gotime \<Rightarrow> duration \<Rightarrow> bool" where
  "Live c now staleAfter \<longleftrightarrow> clm_HeartbeatAt c \<noteq> 0 \<and> time_sub now (clm_HeartbeatAt c) \<le> staleAfter"

definition ReplicaClaimScopeKey :: "scope \<Rightarrow> string" where
  "ReplicaClaimScopeKey scope =
     sc_OrgUUID scope @ ''/'' @ sc_WorkspaceUUID scope @ ''/'' @ sc_ProjectName scope @ ''/'' @ sc_ProjectUID scope"

definition ActivityClaimKey :: "scope \<Rightarrow> string" where
  "ActivityClaimKey scope = ''activity'' @ ''/'' @ ReplicaClaimScopeKey scope"

definition ThumbnailClaimKey :: "scope \<Rightarrow> string" where
  "ThumbnailClaimKey scope = ''thumbnail'' @ ''/'' @ ReplicaClaimScopeKey scope"

definition TryClaimReplica ::
  "gotime \<Rightarrow> replica_claim \<Rightarrow> duration \<Rightarrow> memory_store \<Rightarrow> (replica_claim \<times> bool) \<times> memory_store" where
  "TryClaimReplica now claim staleAfter s =
     (let found = map_of (replicaClaims s) (clm_Key claim);
          take_over = (\<lambda>revision.
            let held = claim\<lparr>clm_Revision := revision, clm_HeartbeatAt := now\<rparr>
            in ((held, True), s\<lparr>replicaClaims := mput (clm_Key claim) held (replicaClaims s)\<rparr>))
      in case found of
           Some current \<Rightarrow>
             if clm_OwnerReplica current \<noteq> clm_OwnerReplica claim \<and> Live current now staleAfter
             then ((current, False), s) else take_over (clm_Revision current)
         | None \<Rightarrow> take_over 0)"

definition RenewReplicaClaim :: "gotime \<Rightarrow> string \<Rightarrow> string \<Rightarrow> memory_store \<Rightarrow> bool \<times> memory_store" where
  "RenewReplicaClaim now claimKey ownerReplica s =
     (case map_of (replicaClaims s) claimKey of
        None \<Rightarrow> (False, s)
      | Some current \<Rightarrow>
          if clm_OwnerReplica current \<noteq> ownerReplica then (False, s)
          else (True, s\<lparr>replicaClaims := mput claimKey (current\<lparr>clm_HeartbeatAt := now\<rparr>) (replicaClaims s)\<rparr>))"

definition ReleaseReplicaClaim :: "string \<Rightarrow> string \<Rightarrow> memory_store \<Rightarrow> memory_store" where
  "ReleaseReplicaClaim claimKey ownerReplica s =
     (case map_of (replicaClaims s) claimKey of
        Some current \<Rightarrow>
          if clm_OwnerReplica current = ownerReplica
          then s\<lparr>replicaClaims := mdel claimKey (replicaClaims s)\<rparr> else s
      | None \<Rightarrow> s)"

definition GetReplicaClaim :: "string \<Rightarrow> memory_store \<Rightarrow> replica_claim option" where
  "GetReplicaClaim claimKey s = map_of (replicaClaims s) claimKey"

definition LiveReplicaClaims :: "gotime \<Rightarrow> string \<Rightarrow> duration \<Rightarrow> memory_store \<Rightarrow> replica_claim list" where
  "LiveReplicaClaims now scopeKey staleAfter s =
     filter (\<lambda>c. clm_ScopeKey c = scopeKey \<and> Live c now staleAfter) (map snd (replicaClaims s))"

definition BumpReplicaClaimRevision :: "string \<Rightarrow> string \<Rightarrow> int \<Rightarrow> memory_store \<Rightarrow> memory_store" where
  "BumpReplicaClaimRevision claimKey ownerReplica revision s =
     (case map_of (replicaClaims s) claimKey of
        Some current \<Rightarrow>
          if clm_OwnerReplica current = ownerReplica \<and> revision > clm_Revision current
          then s\<lparr>replicaClaims := mput claimKey (current\<lparr>clm_Revision := revision\<rparr>) (replicaClaims s)\<rparr> else s
      | None \<Rightarrow> s)"

text \<open>The operations of the replicas on the claims, as one replica's call.\<close>

datatype claim_op =
    TryClaim gotime replica_claim | Renew gotime string string | Release string string | Bump string string int

fun claim_key :: "claim_op \<Rightarrow> string" where
  "claim_key (TryClaim t c) = clm_Key c" | "claim_key (Renew t k o') = k"
| "claim_key (Release k o') = k" | "claim_key (Bump k o' r) = k"

fun claim_caller :: "claim_op \<Rightarrow> string" where
  "claim_caller (TryClaim t c) = clm_OwnerReplica c" | "claim_caller (Renew t k o') = o'"
| "claim_caller (Release k o') = o'" | "claim_caller (Bump k o' r) = o'"

text \<open>The caller finds the holder's claim live, if it looks.\<close>

fun claim_sees_live :: "duration \<Rightarrow> replica_claim \<Rightarrow> claim_op \<Rightarrow> bool" where
  "claim_sees_live ttl held (TryClaim t c) = Live held t ttl" | "claim_sees_live ttl held _ = True"

fun claim_step :: "duration \<Rightarrow> claim_op \<Rightarrow> memory_store \<Rightarrow> memory_store" where
  "claim_step ttl (TryClaim t c) s = snd (TryClaimReplica t c ttl s)"
| "claim_step ttl (Renew t k o') s = snd (RenewReplicaClaim t k o' s)"
| "claim_step ttl (Release k o') s = ReleaseReplicaClaim k o' s"
| "claim_step ttl (Bump k o' r) s = BumpReplicaClaimRevision k o' r s"

text \<open>What a lease promises: nobody but the holder changes the record of a live lease.\<close>

locale lease =
  fixes held :: "'s \<Rightarrow> 'k \<Rightarrow> 'c option"
    and holder :: "'c \<Rightarrow> 'o"
    and step :: "'op \<Rightarrow> 's \<Rightarrow> 's"
    and key :: "'op \<Rightarrow> 'k"
    and caller :: "'op \<Rightarrow> 'o"
    and sees_live :: "'c \<Rightarrow> 'op \<Rightarrow> bool"
    and floor :: "'c \<Rightarrow> int"
    and gives_up :: "'op \<Rightarrow> bool"
  assumes foreign_step: "held s k = Some c \<Longrightarrow> caller a \<noteq> holder c \<Longrightarrow> sees_live c a \<Longrightarrow> held (step a s) k = Some c"
    and other_key: "key a \<noteq> k \<Longrightarrow> held (step a s) k = held s k"
    and floor_kept: "held s k = Some c \<Longrightarrow> \<not> gives_up a \<Longrightarrow> \<exists>d. held (step a s) k = Some d \<and> floor c \<le> floor d"
begin

lemma foreign_steps:
  "held s k = Some c \<Longrightarrow> \<forall>a \<in> set as. key a = k \<longrightarrow> caller a \<noteq> holder c \<and> sees_live c a \<Longrightarrow> held (fold step as s) k = Some c"
proof (induction as arbitrary: s)
  case (Cons a as)
  have "held (step a s) k = Some c"
    using Cons.prems foreign_step [of s k c a] other_key [of a k s] by (cases "key a = k") auto
  with Cons show ?case by simp
qed simp

lemma floor_steps:
  "held s k = Some c \<Longrightarrow> \<forall>a \<in> set as. key a = k \<longrightarrow> \<not> gives_up a \<Longrightarrow>
   \<exists>d. held (fold step as s) k = Some d \<and> floor c \<le> floor d"
proof (induction as arbitrary: s c)
  case (Cons a as)
  obtain d where d: "held (step a s) k = Some d" "floor c \<le> floor d"
    using Cons.prems floor_kept [of s k c a] other_key [of a k s] by (cases "key a = k") auto
  from Cons.IH [OF d(1)] Cons.prems(2) obtain e where
    "held (fold step as (step a s)) k = Some e" "floor d \<le> floor e" by auto
  with d(2) show ?case by auto
qed simp

end

interpretation replica_lease: lease "\<lambda>s k. GetReplicaClaim k s" clm_OwnerReplica "claim_step ttl" claim_key claim_caller
  "claim_sees_live ttl" clm_Revision "\<lambda>a. \<exists>k o'. a = Release k o'" for ttl
proof unfold_locales
  fix s k c a
  show "GetReplicaClaim k s = Some c \<Longrightarrow> claim_caller a \<noteq> clm_OwnerReplica c \<Longrightarrow> claim_sees_live ttl c a \<Longrightarrow>
      GetReplicaClaim k (claim_step ttl a s) = Some c"
    by (cases a) (auto simp: GetReplicaClaim_def TryClaimReplica_def RenewReplicaClaim_def ReleaseReplicaClaim_def
        BumpReplicaClaimRevision_def Let_def split: option.splits)
  show "claim_key a \<noteq> k \<Longrightarrow> GetReplicaClaim k (claim_step ttl a s) = GetReplicaClaim k s"
    by (cases a) (auto simp: GetReplicaClaim_def TryClaimReplica_def RenewReplicaClaim_def ReleaseReplicaClaim_def
        BumpReplicaClaimRevision_def Let_def split: option.splits)
  show "GetReplicaClaim k s = Some c \<Longrightarrow> \<nexists>k o'. a = Release k o' \<Longrightarrow>
      \<exists>d. GetReplicaClaim k (claim_step ttl a s) = Some d \<and> clm_Revision c \<le> clm_Revision d"
    by (cases a) (auto simp: GetReplicaClaim_def TryClaimReplica_def RenewReplicaClaim_def
        BumpReplicaClaimRevision_def Let_def split: option.splits)
qed

text \<open>A claim is a lease: after a replica has won it at \<open>t\<close>, whatever the other
  replicas do with it up to \<open>t + ttl\<close>, and whatever anyone does with other claims, the replica still
  holds the very record it got; every attempt of another replica in that time is refused and shown
  that record, and its own renewal succeeds.\<close>

theorem replica_claim_exclusive:
  assumes "TryClaimReplica t c ttl s = ((won, True), s')" "t \<noteq> 0" "0 \<le> ttl" "ttl \<le> max_i64"
    and "\<forall>a \<in> set as. claim_key a = clm_Key c \<longrightarrow> claim_caller a \<noteq> clm_OwnerReplica c"
    and "\<forall>t' c'. TryClaim t' c' \<in> set as \<longrightarrow> t' \<le> t + ttl"
  shows "GetReplicaClaim (clm_Key c) (fold (claim_step ttl) as s') = Some won \<and>
    clm_OwnerReplica won = clm_OwnerReplica c \<and>
    (\<forall>t' c'. t' \<le> t + ttl \<and> clm_Key c' = clm_Key c \<and> clm_OwnerReplica c' \<noteq> clm_OwnerReplica c \<longrightarrow>
       TryClaimReplica t' c' ttl (fold (claim_step ttl) as s') = ((won, False), fold (claim_step ttl) as s')) \<and>
    (\<forall>t'. fst (RenewReplicaClaim t' (clm_Key c) (clm_OwnerReplica c) (fold (claim_step ttl) as s')))"
proof -
  have won: "GetReplicaClaim (clm_Key c) s' = Some won" "clm_OwnerReplica won = clm_OwnerReplica c"
      "clm_HeartbeatAt won = t"
    using assms(1) by (auto simp: TryClaimReplica_def GetReplicaClaim_def Let_def split: option.splits if_splits)
  have live: "Live won t' ttl" if "t' \<le> t + ttl" for t'
    using that won(3) assms(2-4) by (auto simp: Live_def time_sub_def min_i64_def max_i64_def)
  have "\<forall>a \<in> set as. claim_key a = clm_Key c \<longrightarrow> claim_caller a \<noteq> clm_OwnerReplica won \<and> claim_sees_live ttl won a"
  proof (intro ballI impI conjI)
    fix a assume a: "a \<in> set as" "claim_key a = clm_Key c"
    then show "claim_caller a \<noteq> clm_OwnerReplica won" using assms(5) won(2) by simp
    show "claim_sees_live ttl won a"
    proof (cases a)
      case (TryClaim t' c')
      then show ?thesis using a(1) assms(6) live by auto
    qed simp_all
  qed
  note held = replica_lease.foreign_steps [OF won(1) this]
  then show ?thesis
    using won live by (auto simp: TryClaimReplica_def RenewReplicaClaim_def GetReplicaClaim_def)
qed

definition ex_claim :: "string \<Rightarrow> replica_claim" where
  "ex_claim who = \<lparr>clm_Key = ActivityClaimKey ex_scope, clm_Kind = ''activity'', clm_ScopeKey = ReplicaClaimScopeKey ex_scope,
     clm_OwnerReplica = who, clm_OwnerAddr = [], clm_Detail = [], clm_Revision = 0, clm_HeartbeatAt = 0\<rparr>"

theorem replica_claim_exclusive_witness:
  "\<exists>won s'. TryClaimReplica 100 (ex_claim ''r1'') 30 NewMemoryStore = ((won, True), s') \<and>
     GetReplicaClaim (ActivityClaimKey ex_scope)
       (fold (claim_step 30) [TryClaim 120 (ex_claim ''r2''), Release (ActivityClaimKey ex_scope) ''r2''] s') = Some won"
proof -
  have own: "clm_OwnerReplica (ex_claim w) = w" "clm_Key (ex_claim w) = ActivityClaimKey ex_scope" for w
    by (simp_all add: ex_claim_def)
  let ?r = "TryClaimReplica 100 (ex_claim ''r1'') 30 NewMemoryStore"
  have "snd (fst ?r)" by (simp add: TryClaimReplica_def NewMemoryStore_def Let_def)
  then obtain won where won: "?r = ((won, True), snd ?r)" by (metis (full_types) prod.collapse)
  have "GetReplicaClaim (clm_Key (ex_claim ''r1''))
      (fold (claim_step 30) [TryClaim 120 (ex_claim ''r2''), Release (ActivityClaimKey ex_scope) ''r2''] (snd ?r)) = Some won"
    by (rule replica_claim_exclusive [OF won, THEN conjunct1]) (auto simp: own max_i64_def)
  with won show ?thesis unfolding own by blast
qed

text \<open>The revision floor of a claim never falls while the claim is not released: renewals,
  takeovers and bumps, by any replica and in any order, keep it or raise it; a bump by the holder
  leaves it at the larger of the two values.\<close>

theorem replica_claim_floor:
  assumes "GetReplicaClaim k s = Some c" "\<forall>a \<in> set as. claim_key a = k \<longrightarrow> (\<nexists>k' o'. a = Release k' o')"
  shows "(\<exists>d. GetReplicaClaim k (fold (claim_step ttl) as s) = Some d \<and> clm_Revision c \<le> clm_Revision d) \<and>
    map_option clm_Revision (GetReplicaClaim k (BumpReplicaClaimRevision k (clm_OwnerReplica c) r s)) =
      Some (max r (clm_Revision c))"
proof
  show "\<exists>d. GetReplicaClaim k (fold (claim_step ttl) as s) = Some d \<and> clm_Revision c \<le> clm_Revision d"
    using replica_lease.floor_steps [OF assms(1)] assms(2) by blast
  show "map_option clm_Revision (GetReplicaClaim k (BumpReplicaClaimRevision k (clm_OwnerReplica c) r s)) =
      Some (max r (clm_Revision c))"
    using assms(1) by (auto simp: GetReplicaClaim_def BumpReplicaClaimRevision_def)
qed

theorem replica_claim_floor_witness:
  "\<exists>d. GetReplicaClaim (ActivityClaimKey ex_scope)
     (fold (claim_step 30) [TryClaim 500 (ex_claim ''r2'')]
       (BumpReplicaClaimRevision (ActivityClaimKey ex_scope) ''r1'' 7 (snd (TryClaimReplica 100 (ex_claim ''r1'') 30 NewMemoryStore)))) = Some d \<and>
     7 \<le> clm_Revision d"
proof -
  let ?s = "BumpReplicaClaimRevision (ActivityClaimKey ex_scope) ''r1'' 7 (snd (TryClaimReplica 100 (ex_claim ''r1'') 30 NewMemoryStore))"
  have c: "GetReplicaClaim (ActivityClaimKey ex_scope) ?s = Some ((ex_claim ''r1'')\<lparr>clm_Revision := 7, clm_HeartbeatAt := 100\<rparr>)"
    by (simp add: GetReplicaClaim_def BumpReplicaClaimRevision_def TryClaimReplica_def NewMemoryStore_def Let_def ex_claim_def)
  show ?thesis
    using replica_claim_floor [OF c, of "[TryClaim 500 (ex_claim ''r2'')]" 30] by auto
qed

end
