(* ===== verification/AppStore_Retention.thy ===== *)
theory AppStore_Retention
  imports AppStore_Thread_Props AppStore_Project
begin

section \<open>App Studio store: deleting a project and expiring old rows\<close>

text \<open>
  \<open>DeleteProjectMessages\<close> and \<open>DeleteMessagesOlderThan\<close> of \<open>providers/app-studio/store/memory.go\<close>.
  The retention sweep visits all projects; its three loops are folds over the maps in the order Go
  visits them, and \<open>fold_rows\<close> says that the order is of no consequence because each step works on
  the rows of one project.
\<close>

subsection \<open>The operations\<close>

definition DeleteProjectMessages :: "scope \<Rightarrow> memory_store \<Rightarrow> unit sres \<times> memory_store" where
  "DeleteProjectMessages scope s =
     (case scope_validate scope of Inl e \<Rightarrow> (Inl e, s) | Inr _ \<Rightarrow>
      (Inr (), s\<lparr>messages := mdel scope (messages s),
                 assistantRuns := mdel scope (assistantRuns s),
                 assistantEvents := mdel scope (assistantEvents s),
                 conversationItems := mdel scope (conversationItems s),
                 conversationSequences := mdel scope (conversationSequences s),
                 assistantThreads := mdel scope (assistantThreads s),
                 assistantTurns := mdel scope (assistantTurns s),
                 threadEvents := mdel scope (threadEvents s),
                 bootstrapPermits := mdel scope (bootstrapPermits s),
                 approvalModes := mdel scope (approvalModes s),
                 projectThumbnails := mdel scope (projectThumbnails s)\<rparr>))"

fun protected_messages :: "(string, assistant_run) gomap \<Rightarrow> string list" where
  "protected_messages [] = []"
| "protected_messages ((_, run) # runs) =
     (if assistantRunStatusTerminal (run_Status run) then protected_messages runs
      else filter (\<lambda>i. i \<noteq> []) [run_UserMessageID run, run_ActiveMessageID run] @ protected_messages runs)"

definition message_expires :: "gotime \<Rightarrow> string list \<Rightarrow> string \<times> message \<Rightarrow> bool" where
  "message_expires before prot p \<longleftrightarrow> msg_CreatedAt (snd p) < before \<and> fst p \<notin> set prot"

definition expire_messages :: "gotime \<Rightarrow> memory_store \<times> int \<Rightarrow> memory_store \<times> int" where
  "expire_messages before sn =
     (let s = fst sn; prot = (\<lambda>sc. protected_messages (inner (assistantRuns s) sc)) in
      (s\<lparr>messages := filter (\<lambda>p. snd p \<noteq> [])
            (map (\<lambda>(sc, ms). (sc, filter (\<lambda>p. \<not> message_expires before (prot sc) p) ms)) (messages s))\<rparr>,
       snd sn + int (\<Sum>(sc, ms) \<leftarrow> messages s. length (filter (message_expires before (prot sc)) ms))))"

definition run_expires :: "gotime \<Rightarrow> string \<times> assistant_run \<Rightarrow> bool" where
  "run_expires before p \<longleftrightarrow> assistantRunStatusTerminal (run_Status (snd p)) \<and> run_UpdatedAt (snd p) < before"

definition expire_run :: "gotime \<Rightarrow> scope \<Rightarrow> string \<times> assistant_run \<Rightarrow> memory_store \<times> int \<Rightarrow> memory_store \<times> int" where
  "expire_run before scope p sn =
     (if run_expires before p then
        (let s = fst sn in
         (s\<lparr>assistantRuns := del2 scope (fst p) (assistantRuns s),
            assistantEvents := del2 scope (fst p) (assistantEvents s),
            conversationItems := mput scope (filter (\<lambda>it. itm_RunID it \<noteq> fst p) (conversation s scope))
                                   (conversationItems s)\<rparr>, snd sn + 1))
      else sn)"

definition expire_project_runs :: "gotime \<Rightarrow> scope \<Rightarrow> memory_store \<times> int \<Rightarrow> memory_store \<times> int" where
  "expire_project_runs before scope sn =
     (let sn1 = fold (expire_run before scope) (inner (assistantRuns (fst sn)) scope) sn; s = fst sn1 in
      (s\<lparr>assistantRuns := prune scope (assistantRuns s), assistantEvents := prune scope (assistantEvents s),
         conversationItems := prune scope (conversationItems s)\<rparr>, snd sn1))"

definition expire_runs :: "gotime \<Rightarrow> memory_store \<times> int \<Rightarrow> memory_store \<times> int" where
  "expire_runs before sn = fold (expire_project_runs before) (map fst (assistantRuns (fst sn))) sn"

definition thread_expires :: "gotime \<Rightarrow> (string, assistant_turn) gomap \<Rightarrow> assistant_thread \<Rightarrow> bool" where
  "thread_expires before turns thread \<longleftrightarrow>
     \<not> (\<not> thr_UpdatedAt thread < before \<or> thr_Status thread = ThreadActive) \<and>
     \<not> (\<exists>p \<in> set turns. \<not> assistantTurnStatusTerminal (trn_Status (snd p)))"

definition expire_thread :: "gotime \<Rightarrow> scope \<Rightarrow> string \<times> assistant_thread \<Rightarrow> memory_store \<Rightarrow> memory_store" where
  "expire_thread before scope p s =
     (if thread_expires before (thread_turns s scope (fst p)) (snd p) then
        s\<lparr>assistantThreads := del2 scope (fst p) (assistantThreads s),
          assistantTurns := del2 scope (fst p) (assistantTurns s),
          threadEvents := del2 scope (fst p) (threadEvents s)\<rparr>
      else s)"

definition expire_project_threads :: "gotime \<Rightarrow> scope \<Rightarrow> memory_store \<Rightarrow> memory_store" where
  "expire_project_threads before scope s =
     (let s1 = fold (expire_thread before scope) (project_threads s scope) s in
      s1\<lparr>assistantThreads := prune scope (assistantThreads s1), assistantTurns := prune scope (assistantTurns s1),
         threadEvents := prune scope (threadEvents s1)\<rparr>)"

definition expire_threads :: "gotime \<Rightarrow> memory_store \<Rightarrow> memory_store" where
  "expire_threads before s = fold (expire_project_threads before) (map fst (assistantThreads s)) s"

definition DeleteMessagesOlderThan :: "gotime \<Rightarrow> memory_store \<Rightarrow> int \<times> memory_store" where
  "DeleteMessagesOlderThan before s =
     (case expire_runs before (expire_messages before (s, 0)) of
        (s1, deleted) \<Rightarrow> (deleted, expire_threads before s1))"

subsection \<open>What the sweep does to the rows of one project\<close>

lemma fold_rows:
  assumes "\<And>k s k'. row (g k s) k' = (if k' = k then F (row s k) else row s k')" "\<And>x. F (F x) = F x"
  shows "row (fold g ks s) k = (if k \<in> set ks then F (row s k) else row s k)"
  by (induction ks arbitrary: s) (auto simp: assms)

lemma absent_key_inner: "k \<notin> set (map fst m) \<Longrightarrow> inner m k = []"
  by (simp add: inner_def map_of_eq_None_iff [THEN iffD2])

lemma expire_messages_frame [simp]:
  "assistantThreads (fst (expire_messages b sn)) = assistantThreads (fst sn)"
  "assistantTurns (fst (expire_messages b sn)) = assistantTurns (fst sn)"
  "threadEvents (fst (expire_messages b sn)) = threadEvents (fst sn)"
  "assistantRuns (fst (expire_messages b sn)) = assistantRuns (fst sn)"
  "assistantEvents (fst (expire_messages b sn)) = assistantEvents (fst sn)"
  "conversationItems (fst (expire_messages b sn)) = conversationItems (fst sn)"
  "conversationSequences (fst (expire_messages b sn)) = conversationSequences (fst sn)"
  "replicaClaims (fst (expire_messages b sn)) = replicaClaims (fst sn)"
  "approvalModes (fst (expire_messages b sn)) = approvalModes (fst sn)"
  "bootstrapPermits (fst (expire_messages b sn)) = bootstrapPermits (fst sn)"
  "projectThumbnails (fst (expire_messages b sn)) = projectThumbnails (fst sn)"
  by (simp_all add: expire_messages_def Let_def)

lemma inner_sweep:
  assumes "wf_map m"
  shows "inner (filter (\<lambda>p. snd p \<noteq> []) (map (\<lambda>(k, v). (k, f k v)) m)) k =
    (if map_of m k = None then [] else f k (inner m k))"
  using assms
proof (induction m)
  case (Cons p m)
  obtain a v where p: "p = (a, v)" by (cases p)
  have "map_of m a = None" using Cons.prems p by (simp add: map_of_eq_None_iff)
  then have "map_of (filter (\<lambda>p. snd p \<noteq> []) (map (\<lambda>(k, v). (k, f k v)) m)) a = None"
    by (force simp: map_of_eq_None_iff)
  with Cons p show ?case by (auto simp: inner_def)
qed simp

lemma expire_messages_messages:
  assumes "wf_map (messages (fst sn))"
  shows "inner (messages (fst (expire_messages b sn))) sc =
    filter (\<lambda>p. \<not> message_expires b (protected_messages (inner (assistantRuns (fst sn)) sc)) p) (inner (messages (fst sn)) sc)"
proof -
  have "map_of (messages (fst sn)) sc = None \<Longrightarrow> inner (messages (fst sn)) sc = []" by (simp add: inner_def)
  then show ?thesis by (simp add: expire_messages_def Let_def inner_sweep [OF assms])
qed

lemma expire_run_frame [simp]:
  "assistantThreads (fst (expire_run b sc p sn)) = assistantThreads (fst sn)"
  "assistantTurns (fst (expire_run b sc p sn)) = assistantTurns (fst sn)"
  "threadEvents (fst (expire_run b sc p sn)) = threadEvents (fst sn)"
  "messages (fst (expire_run b sc p sn)) = messages (fst sn)"
  "conversationSequences (fst (expire_run b sc p sn)) = conversationSequences (fst sn)"
  "replicaClaims (fst (expire_run b sc p sn)) = replicaClaims (fst sn)"
  "approvalModes (fst (expire_run b sc p sn)) = approvalModes (fst sn)"
  "bootstrapPermits (fst (expire_run b sc p sn)) = bootstrapPermits (fst sn)"
  "projectThumbnails (fst (expire_run b sc p sn)) = projectThumbnails (fst sn)"
  by (simp_all add: expire_run_def Let_def)

text \<open>The rows of a project that the run loop works on, and what it makes of them.\<close>

type_synonym run_rows =
  "(string, assistant_run) gomap \<times> (string, run_event list) gomap \<times> conversation_item list"

definition run_rows :: "memory_store \<times> int \<Rightarrow> scope \<Rightarrow> run_rows" where
  "run_rows sn sc = (inner (assistantRuns (fst sn)) sc, inner (assistantEvents (fst sn)) sc, conversation (fst sn) sc)"

definition drop_runs :: "string set \<Rightarrow> run_rows \<Rightarrow> run_rows" where
  "drop_runs gone = (\<lambda>(runs, evs, items). (filter (\<lambda>p. fst p \<notin> gone) runs, filter (\<lambda>p. fst p \<notin> gone) evs,
     filter (\<lambda>it. itm_RunID it \<notin> gone) items))"

definition expired_runs :: "gotime \<Rightarrow> (string, assistant_run) gomap \<Rightarrow> string set" where
  "expired_runs b m = fst ` {p \<in> set m. run_expires b p}"

lemma drop_runs_drop: "drop_runs A (drop_runs B rows) = drop_runs (A \<union> B) rows"
  by (auto simp: drop_runs_def split_beta intro!: filter_cong)

lemma drop_runs_empty [simp]: "drop_runs {} rows = rows"
  by (simp add: drop_runs_def split_beta)

lemma expire_run_rows:
  "run_rows (expire_run b sc p sn) sc' = (if sc' = sc \<and> run_expires b p then drop_runs {fst p} (run_rows sn sc) else run_rows sn sc')"
  by (auto simp: expire_run_def run_rows_def drop_runs_def mdel_def Let_def)

lemma fold_expire_run_rows:
  "run_rows (fold (expire_run b sc) ps sn) sc' =
     (if sc' = sc then drop_runs (expired_runs b ps) (run_rows sn sc) else run_rows sn sc')"
proof (induction ps arbitrary: sn)
  case (Cons p ps)
  have "expired_runs b (p # ps) = expired_runs b ps \<union> (if run_expires b p then {fst p} else {})"
    by (auto simp: expired_runs_def)
  then show ?case using Cons.IH by (auto simp: expire_run_rows drop_runs_drop)
qed (simp add: expired_runs_def)

definition sweep_runs :: "gotime \<Rightarrow> run_rows \<Rightarrow> run_rows" where
  "sweep_runs b rows = drop_runs (expired_runs b (fst rows)) rows"

lemma sweep_runs_idem: "sweep_runs b (sweep_runs b rows) = sweep_runs b rows"
proof -
  have "expired_runs b (filter (\<lambda>p. fst p \<notin> expired_runs b m) m) = {}" for m
  proof -
    have "\<not> run_expires b (i, r)" if "(i, r) \<in> set m" "i \<notin> expired_runs b m" for i r
      using that unfolding expired_runs_def by force
    then show ?thesis unfolding expired_runs_def [of b "filter (\<lambda>p. fst p \<notin> expired_runs b m) m"] by auto
  qed
  then show ?thesis by (simp add: sweep_runs_def drop_runs_def split_beta)
qed

lemma expire_project_runs_rows:
  "run_rows (expire_project_runs b sc sn) sc' = (if sc' = sc then sweep_runs b (run_rows sn sc) else run_rows sn sc')"
  using fold_expire_run_rows [of b sc "inner (assistantRuns (fst sn)) sc" sn sc']
  by (simp add: expire_project_runs_def Let_def run_rows_def sweep_runs_def)

lemma expire_runs_rows: "run_rows (expire_runs b sn) sc = sweep_runs b (run_rows sn sc)"
proof -
  have "sweep_runs b (run_rows sn sc) = run_rows sn sc" if "sc \<notin> set (map fst (assistantRuns (fst sn)))"
    using absent_key_inner [OF that] by (simp add: sweep_runs_def run_rows_def expired_runs_def)
  then show ?thesis
    unfolding expire_runs_def
    using fold_rows [of run_rows "expire_project_runs b" "sweep_runs b", OF expire_project_runs_rows sweep_runs_idem]
    by (simp only: if_split) metis
qed

lemma expire_runs_frame [simp]:
  "assistantThreads (fst (expire_runs b sn)) = assistantThreads (fst sn)"
  "assistantTurns (fst (expire_runs b sn)) = assistantTurns (fst sn)"
  "threadEvents (fst (expire_runs b sn)) = threadEvents (fst sn)"
  "messages (fst (expire_runs b sn)) = messages (fst sn)"
  "conversationSequences (fst (expire_runs b sn)) = conversationSequences (fst sn)"
  "replicaClaims (fst (expire_runs b sn)) = replicaClaims (fst sn)"
  "approvalModes (fst (expire_runs b sn)) = approvalModes (fst sn)"
  "bootstrapPermits (fst (expire_runs b sn)) = bootstrapPermits (fst sn)"
  "projectThumbnails (fst (expire_runs b sn)) = projectThumbnails (fst sn)"
proof -
  have step: "P (fst (expire_project_runs b sc sn)) = P (fst sn)"
    if "\<And>p sn. P (fst (expire_run b sc p sn)) = P (fst sn)" "\<And>s x y z. P (s\<lparr>assistantRuns := x, assistantEvents := y, conversationItems := z\<rparr>) = P s"
    for P :: "memory_store \<Rightarrow> 'x" and sc sn
  proof -
    have "P (fst (fold (expire_run b sc) ps sn)) = P (fst sn)" for ps by (induction ps arbitrary: sn) (simp_all add: that(1))
    then show ?thesis by (simp add: expire_project_runs_def Let_def that(2))
  qed
  have all: "P (fst (expire_runs b sn)) = P (fst sn)"
    if "\<And>sc p sn. P (fst (expire_run b sc p sn)) = P (fst sn)" "\<And>s x y z. P (s\<lparr>assistantRuns := x, assistantEvents := y, conversationItems := z\<rparr>) = P s"
    for P :: "memory_store \<Rightarrow> 'x" and sn
  proof -
    have "P (fst (fold (expire_project_runs b) ks sn)) = P (fst sn)" for ks
      by (induction ks arbitrary: sn) (simp_all add: step that)
    then show ?thesis by (simp add: expire_runs_def)
  qed
  show "assistantThreads (fst (expire_runs b sn)) = assistantThreads (fst sn)"
    "assistantTurns (fst (expire_runs b sn)) = assistantTurns (fst sn)"
    "threadEvents (fst (expire_runs b sn)) = threadEvents (fst sn)"
    "messages (fst (expire_runs b sn)) = messages (fst sn)"
    "conversationSequences (fst (expire_runs b sn)) = conversationSequences (fst sn)"
    "replicaClaims (fst (expire_runs b sn)) = replicaClaims (fst sn)"
    "approvalModes (fst (expire_runs b sn)) = approvalModes (fst sn)"
    "bootstrapPermits (fst (expire_runs b sn)) = bootstrapPermits (fst sn)"
    "projectThumbnails (fst (expire_runs b sn)) = projectThumbnails (fst sn)"
    by (rule all; simp)+
qed

text \<open>The rows of a project that the thread loop works on.\<close>

type_synonym thread_rows =
  "(string, assistant_thread) gomap \<times> (string, (string, assistant_turn) gomap) gomap \<times> (string, thread_event list) gomap"

definition thread_rows :: "memory_store \<Rightarrow> scope \<Rightarrow> thread_rows" where
  "thread_rows s sc = (project_threads s sc, inner (assistantTurns s) sc, inner (threadEvents s) sc)"

definition drop_threads :: "string set \<Rightarrow> thread_rows \<Rightarrow> thread_rows" where
  "drop_threads gone = (\<lambda>(ths, tns, evs). (filter (\<lambda>p. fst p \<notin> gone) ths, filter (\<lambda>p. fst p \<notin> gone) tns,
     filter (\<lambda>p. fst p \<notin> gone) evs))"

definition expired_threads :: "gotime \<Rightarrow> thread_rows \<Rightarrow> string set" where
  "expired_threads b rows = fst ` {p \<in> set (fst rows). thread_expires b (inner (fst (snd rows)) (fst p)) (snd p)}"

lemma drop_threads_drop: "drop_threads A (drop_threads B rows) = drop_threads (A \<union> B) rows"
  by (auto simp: drop_threads_def split_beta intro!: filter_cong)

lemma drop_threads_empty [simp]: "drop_threads {} rows = rows"
  by (simp add: drop_threads_def split_beta)

lemma inner_filter_key: "inner (filter (\<lambda>p. P (fst p)) m) k = (if P k then inner m k else [])"
  by (simp add: inner_def map_of_filter_key)

lemma expire_thread_rows:
  "thread_rows (expire_thread b sc p s) sc' =
     (if sc' = sc \<and> thread_expires b (thread_turns s sc (fst p)) (snd p) then drop_threads {fst p} (thread_rows s sc)
      else thread_rows s sc')"
  by (auto simp: expire_thread_def thread_rows_def drop_threads_def mdel_def)

text \<open>The loop looks at the turns of a thread after earlier threads are gone, which are other
  threads.\<close>

lemma fold_expire_thread_rows:
  assumes "distinct (map fst ps)"
  shows "thread_rows (fold (expire_thread b sc) ps s) sc' =
     (if sc' = sc then drop_threads (fst ` {p \<in> set ps. thread_expires b (thread_turns s sc (fst p)) (snd p)}) (thread_rows s sc)
      else thread_rows s sc')"
  using assms
proof (induction ps arbitrary: s)
  case (Cons p ps)
  let ?s = "expire_thread b sc p s"
  have turns: "thread_turns ?s sc i = thread_turns s sc i" if "i \<noteq> fst p" for i
    using that by (simp add: expire_thread_def)
  have "{q \<in> set ps. thread_expires b (thread_turns ?s sc (fst q)) (snd q)} =
      {q \<in> set ps. thread_expires b (thread_turns s sc (fst q)) (snd q)}"
  proof -
    have "fst q \<noteq> fst p" if "q \<in> set ps" for q using Cons.prems that by (auto simp: rev_image_eqI)
    then show ?thesis using turns by auto
  qed
  moreover have "fst ` {q \<in> set (p # ps). thread_expires b (thread_turns s sc (fst q)) (snd q)} =
      fst ` {q \<in> set ps. thread_expires b (thread_turns s sc (fst q)) (snd q)} \<union>
      (if thread_expires b (thread_turns s sc (fst p)) (snd p) then {fst p} else {})"
    by auto
  ultimately show ?case
    using Cons.IH [of ?s] Cons.prems by (simp add: expire_thread_rows drop_threads_drop)
qed simp

definition sweep_threads :: "gotime \<Rightarrow> thread_rows \<Rightarrow> thread_rows" where
  "sweep_threads b rows = drop_threads (expired_threads b rows) rows"

lemma expire_project_threads_rows:
  assumes "wf_map (project_threads s sc)"
  shows "thread_rows (expire_project_threads b sc s) sc' = (if sc' = sc then sweep_threads b (thread_rows s sc) else thread_rows s sc')"
  using fold_expire_thread_rows [of "project_threads s sc" b sc s sc'] assms
  by (simp add: expire_project_threads_def Let_def thread_rows_def sweep_threads_def expired_threads_def wf_map_def)

lemma sweep_threads_idem: "sweep_threads b (sweep_threads b rows) = sweep_threads b rows"
proof -
  have "expired_threads b (drop_threads (expired_threads b rows) rows) = {}"
  proof -
    have "\<not> thread_expires b (inner (fst (snd rows)) i) t" if "(i, t) \<in> set (fst rows)" "i \<notin> expired_threads b rows" for i t
      using that unfolding expired_threads_def by force
    then show ?thesis
      unfolding expired_threads_def [of b "drop_threads (expired_threads b rows) rows"]
      by (auto simp: drop_threads_def split_beta inner_filter_key [of "\<lambda>i. i \<notin> expired_threads b rows"])
  qed
  then show ?thesis by (simp add: sweep_threads_def)
qed

lemma sweep_threads_wf: "wf_map (fst rows) \<Longrightarrow> wf_map (fst (sweep_threads b rows))"
  by (auto simp: sweep_threads_def drop_threads_def split_beta wf_map_def distinct_map_filter)

lemma expire_threads_rows:
  assumes wf: "\<And>sc. wf_map (project_threads s sc)"
  shows "thread_rows (expire_threads b s) sc = sweep_threads b (thread_rows s sc)"
proof -
  have fold: "thread_rows (fold (expire_project_threads b) ks s) sc =
      (if sc \<in> set ks then sweep_threads b (thread_rows s sc) else thread_rows s sc)" if "\<And>sc. wf_map (project_threads s sc)" for ks s sc
    using that
  proof (induction ks arbitrary: s)
    case (Cons k ks)
    let ?s = "expire_project_threads b k s"
    have row: "thread_rows ?s sc' = (if sc' = k then sweep_threads b (thread_rows s k) else thread_rows s sc')" for sc'
      by (rule expire_project_threads_rows) (rule Cons.prems)
    have "wf_map (project_threads ?s sc')" for sc'
      using row [of sc'] sweep_threads_wf [of "thread_rows s k" b] Cons.prems
      by (cases "sc' = k") (auto simp: thread_rows_def prod_eq_iff)
    from Cons.IH [OF this] row show ?case by (auto simp: sweep_threads_idem)
  qed simp
  have "sweep_threads b (thread_rows s sc) = thread_rows s sc" if "sc \<notin> set (map fst (assistantThreads s))"
    using absent_key_inner [OF that] by (simp add: sweep_threads_def thread_rows_def expired_threads_def)
  then show ?thesis unfolding expire_threads_def fold [OF wf] by simp
qed

subsection \<open>What retention keeps\<close>

lemma other_rows_cong:
  assumes "other_rows s' = other_rows s"
  shows "messages s' = messages s" "assistantRuns s' = assistantRuns s" "assistantEvents s' = assistantEvents s"
    "conversationItems s' = conversationItems s" "conversationSequences s' = conversationSequences s"
    "replicaClaims s' = replicaClaims s" "approvalModes s' = approvalModes s"
    "bootstrapPermits s' = bootstrapPermits s" "projectThumbnails s' = projectThumbnails s"
  using assms by (cases s; cases s'; simp add: other_rows_def)+

lemma expire_threads_other: "other_rows (expire_threads b s) = other_rows s"
proof -
  have "other_rows (fold (expire_thread b sc) ps s) = other_rows s" for sc ps s
    by (induction ps arbitrary: s) (simp_all add: expire_thread_def other_rows_def)
  then have "other_rows (expire_project_threads b sc s) = other_rows s" for sc s
    by (simp add: expire_project_threads_def Let_def other_rows_def)
  then have "other_rows (fold (expire_project_threads b) ks s) = other_rows s" for ks s
    by (induction ks arbitrary: s) simp_all
  then show ?thesis by (simp add: expire_threads_def)
qed

definition maps_ok :: "memory_store \<Rightarrow> bool" where
  "maps_ok s \<longleftrightarrow> wf_map (messages s) \<and> (\<forall>sc. messages_ok (project_messages s sc))"

lemma DeleteMessagesOlderThan_rows:
  assumes op: "DeleteMessagesOlderThan b s = (n, s')" and maps: "maps_ok s" and ok: "threads_ok s"
  shows "project_messages s' sc =
      filter (\<lambda>p. \<not> message_expires b (protected_messages (project_runs s sc)) p) (project_messages s sc)"
    "run_rows (s', 0) sc = sweep_runs b (run_rows (s, 0) sc)"
    "thread_rows s' sc = sweep_threads b (thread_rows s sc)"
    "conversationSequences s' = conversationSequences s" "replicaClaims s' = replicaClaims s"
    "approvalModes s' = approvalModes s" "bootstrapPermits s' = bootstrapPermits s"
    "projectThumbnails s' = projectThumbnails s"
proof -
  let ?m = "expire_messages b (s, 0)"
  let ?r = "expire_runs b ?m"
  have s': "s' = expire_threads b (fst ?r)"
    using op by (simp add: DeleteMessagesOlderThan_def split_beta)
  note other = other_rows_cong [OF expire_threads_other [of b "fst ?r"], folded s']
  have wf: "wf_map (project_threads s sc)" for sc using threads_okD [OF ok, of sc] by (simp add: thread_rows_ok_def)
  have "wf_map (messages s)" using maps by (simp add: maps_ok_def)
  then show "project_messages s' sc =
      filter (\<lambda>p. \<not> message_expires b (protected_messages (project_runs s sc)) p) (project_messages s sc)"
    by (simp add: other expire_messages_messages)
  show "run_rows (s', 0) sc = sweep_runs b (run_rows (s, 0) sc)"
    using expire_runs_rows [of b ?m sc] by (simp add: run_rows_def other)
  have "thread_rows (fst ?r) = thread_rows s" by (simp add: thread_rows_def fun_eq_iff)
  then show "thread_rows s' sc = sweep_threads b (thread_rows s sc)"
    using expire_threads_rows [of "fst ?r" b sc] wf by (simp add: s')
  show "conversationSequences s' = conversationSequences s" "replicaClaims s' = replicaClaims s"
    "approvalModes s' = approvalModes s" "bootstrapPermits s' = bootstrapPermits s"
    "projectThumbnails s' = projectThumbnails s"
    by (simp_all add: other)
qed

lemma set_protected_messages:
  "set (protected_messages m) = {i. i \<noteq> [] \<and> (\<exists>p \<in> set m. \<not> assistantRunStatusTerminal (run_Status (snd p)) \<and>
     (i = run_UserMessageID (snd p) \<or> i = run_ActiveMessageID (snd p)))}"
  by (induction m rule: protected_messages.induct) auto

lemma expired_runs_iff:
  "wf_map m \<Longrightarrow> i \<in> expired_runs b m \<longleftrightarrow> (\<exists>r. map_of m i = Some r \<and> run_expires b (i, r))"
  by (force simp: expired_runs_def simp flip: wf_map_in_iff)

text \<open>Property C23. Retention never breaks what can be resumed: a run stays unless it is finished and
  older than the cutoff, an unfinished run keeps its two messages and its event log however old
  they are, every message at or after the cutoff stays, only messages that an unfinished run points
  to survive from before it, only the conversation items of expired runs go, and the conversation's
  high-water mark stays.\<close>

theorem retention_keeps_resumable:
  assumes "DeleteMessagesOlderThan before s = (n, s')" "maps_ok s" "threads_ok s" "all_runs_ok s"
  shows "(\<forall>i r. map_of (project_runs s' sc) i = Some r \<longleftrightarrow>
            map_of (project_runs s sc) i = Some r \<and> (run_active r \<or> before \<le> run_UpdatedAt r)) \<and>
     (\<forall>i r. map_of (project_runs s sc) i = Some r \<and> run_active r \<longrightarrow>
        run_log s' sc i = run_log s sc i \<and>
        (\<forall>m \<in> {run_UserMessageID r, run_ActiveMessageID r}. m \<noteq> [] \<longrightarrow>
           map_of (project_messages s' sc) m = map_of (project_messages s sc) m)) \<and>
     (\<forall>i m. map_of (project_messages s' sc) i = Some m \<longleftrightarrow>
        map_of (project_messages s sc) i = Some m \<and>
        (before \<le> msg_CreatedAt m \<or>
         (i \<noteq> [] \<and> (\<exists>j r. map_of (project_runs s sc) j = Some r \<and> run_active r \<and>
                           (i = run_UserMessageID r \<or> i = run_ActiveMessageID r))))) \<and>
     conversation s' sc = filter (\<lambda>it. \<not> (\<exists>r. map_of (project_runs s sc) (itm_RunID it) = Some r \<and>
         \<not> run_active r \<and> run_UpdatedAt r < before)) (conversation s sc) \<and>
     stored_high_water s' sc = stored_high_water s sc"
proof -
  note d = DeleteMessagesOlderThan_rows [OF assms(1-3)]
  let ?m = "project_runs s sc" and ?gone = "expired_runs before (project_runs s sc)"
  have wf: "wf_map ?m" "wf_map (project_messages s sc)"
    using assms(2,4) by (auto simp: all_runs_ok_def runs_ok_def maps_ok_def messages_ok_def)
  have rows: "project_runs s' sc = filter (\<lambda>p. fst p \<notin> ?gone) ?m"
    "inner (assistantEvents s') sc = filter (\<lambda>p. fst p \<notin> ?gone) (inner (assistantEvents s) sc)"
    "conversation s' sc = filter (\<lambda>it. itm_RunID it \<notin> ?gone) (conversation s sc)"
    using d(2) [of sc] by (simp_all add: run_rows_def sweep_runs_def drop_runs_def)
  have gone: "i \<in> ?gone \<longleftrightarrow> (\<exists>r. map_of ?m i = Some r \<and> \<not> run_active r \<and> run_UpdatedAt r < before)" for i
    by (simp add: expired_runs_iff [OF wf(1)] run_expires_def run_active_def)
  have prot: "i \<in> set (protected_messages ?m) \<longleftrightarrow> i \<noteq> [] \<and> (\<exists>j r. map_of ?m j = Some r \<and> run_active r \<and>
      (i = run_UserMessageID r \<or> i = run_ActiveMessageID r))" for i
    by (simp add: set_protected_messages run_active_def wf_map_in_iff [OF wf(1), symmetric]) (metis snd_conv surj_pair)
  have runs: "map_of (project_runs s' sc) i = Some r \<longleftrightarrow>
      map_of ?m i = Some r \<and> (run_active r \<or> before \<le> run_UpdatedAt r)" for i r
    unfolding rows(1) map_of_filter_key [of "\<lambda>i. i \<notin> ?gone"] using gone [of i] by auto
  have logs: "run_log s' sc i = run_log s sc i" if "map_of ?m i = Some r" "run_active r" for i r
  proof -
    have "i \<notin> ?gone" using that by (simp add: gone)
    then show ?thesis unfolding rows(2) inner_filter_key [of "\<lambda>i. i \<notin> ?gone"] by simp
  qed
  have msgs: "map_of (project_messages s' sc) i = Some m \<longleftrightarrow> map_of (project_messages s sc) i = Some m \<and>
      (before \<le> msg_CreatedAt m \<or> i \<in> set (protected_messages ?m))" for i m
    unfolding d(1) map_of_filter_wf [OF wf(2)] by (auto simp: message_expires_def)
  have kept: "map_of (project_messages s' sc) i = map_of (project_messages s sc) i" if "i \<in> set (protected_messages ?m)" for i
    using that msgs [of i] by (metis not_None_eq)
  have "stored_high_water s' sc = stored_high_water s sc" by (simp add: stored_high_water_def d(4))
  moreover have "conversation s' sc = filter (\<lambda>it. \<not> (\<exists>r. map_of ?m (itm_RunID it) = Some r \<and>
         \<not> run_active r \<and> run_UpdatedAt r < before)) (conversation s sc)"
    unfolding rows(3) gone ..
  ultimately show ?thesis
    using runs logs msgs [unfolded prot] kept [unfolded prot] by blast
qed

theorem retention_keeps_resumable_witness:
  "\<exists>n s'. DeleteMessagesOlderThan 1000 ex_store = (n, s') \<and> map_of (project_messages s' ex_scope) ''m1'' \<noteq> None"
proof -
  obtain n s' where op: "DeleteMessagesOlderThan 1000 ex_store = (n, s')" by fastforce
  have "wf_map (messages ex_store)" "messages_ok (project_messages ex_store sc)" for sc
  proof -
    have len: "length (messages ex_store) = 1 \<and> map fst (messages ex_store) = [ex_scope]" by code_simp
    then show "wf_map (messages ex_store)" by (simp add: wf_map_def)
    have "map_of (messages ex_store) sc = None" if "sc \<noteq> ex_scope"
      using len that by (simp add: map_of_eq_None_iff del: set_map) (metis empty_iff empty_set list.set_map set_ConsD)
    then show "messages_ok (project_messages ex_store sc)"
      using ex_store_pageable by (cases "sc = ex_scope") (simp_all add: messages_pageable_def inner_def)
  qed
  then have maps: "maps_ok ex_store" by (simp add: maps_ok_def)
  have "map (\<lambda>(i, r). (i, run_Status r, run_UserMessageID r)) (project_runs ex_store ex_scope) = [(''r1'', RunRunning, ''m1'')]"
    by code_simp
  then obtain r where r: "project_runs ex_store ex_scope = [(''r1'', r)]" "run_Status r = RunRunning" "run_UserMessageID r = ''m1''"
    by auto
  then have run: "map_of (project_runs ex_store ex_scope) ''r1'' = Some r" "run_active r"
    by (simp_all add: run_active_def assistantRunStatusTerminal_def)
  have "''m1'' \<in> {run_UserMessageID r, run_ActiveMessageID r} \<longrightarrow> ''m1'' \<noteq> [] \<longrightarrow>
      map_of (project_messages s' ex_scope) ''m1'' = map_of (project_messages ex_store ex_scope) ''m1''"
    using retention_keeps_resumable [OF op maps ex_store_threads_ok ex_store_ok, of ex_scope] run by blast
  moreover have "map_of (project_messages ex_store ex_scope) ''m1'' \<noteq> None" by code_simp
  ultimately show ?thesis using op r(3) by simp
qed

end
