(* ===== verification/AppStore_Machine.thy ===== *)
theory AppStore_Machine
  imports AppStore_Retention
begin

section \<open>App Studio store: the store as a state machine\<close>

text \<open>
  Every operation of the in-memory store that changes state, as one step of a machine. The lock of
  \<open>MemoryStore\<close> is held for the whole of each method, so an execution is a sequence of these steps
  in some order, by any number of callers. \<open>reachable\<close> are the stores such sequences lead to;
  \<open>store_inv\<close> is what holds in all of them.
\<close>

datatype store_op =
    OpAppendMessage gotime scope message
  | OpSaveRun gotime scope assistant_run
  | OpCreateRun gotime scope message message assistant_run
  | OpRequestStop gotime scope string int message gotime
  | OpSnapshot gotime scope assistant_run "message list" int
  | OpClaimRun gotime scope string string gotime
  | OpAppendRunEvent gotime scope run_event int
  | OpAppendItem gotime scope conversation_item
  | OpDeleteProject scope
  | OpDeleteOld gotime
  | OpCreateThread gotime scope assistant_thread "thread_event list"
  | OpUpdateThread gotime scope assistant_thread
  | OpSetTitle gotime scope string string string thread_event
  | OpDeleteThread scope string string
  | OpUpdateThreadEvent gotime scope assistant_thread thread_event int
  | OpCreateTurn gotime scope assistant_turn "thread_event list"
  | OpSaveTurn gotime scope assistant_turn
  | OpSaveTurnEvent gotime scope assistant_turn thread_event int
  | OpAppendThreadEvent gotime scope thread_event int
  | OpCreatePermit scope string string
  | OpConsumePermit scope string string string
  | OpSetPreference gotime scope approval_preference
  | OpPutThumbnail scope project_thumbnail
  | OpDeleteThumbnail scope
  | OpClaim duration claim_op

fun exec :: "store_op \<Rightarrow> memory_store \<Rightarrow> memory_store" where
  "exec (OpAppendMessage now sc m) s = snd (AppendMessage now sc m s)"
| "exec (OpSaveRun now sc r) s = snd (SaveAssistantRun now sc r s)"
| "exec (OpCreateRun now sc u a r) s = snd (CreateAssistantRun now sc u a r s)"
| "exec (OpRequestStop clock sc i n m now) s = snd (RequestAssistantRunStopWithAssistantMessage clock sc i n m now s)"
| "exec (OpSnapshot now sc r ms n) s = snd (SaveAssistantRunSnapshot now sc r ms n s)"
| "exec (OpClaimRun clock sc i q now) s = snd (ClaimAssistantRun clock sc i q now s)"
| "exec (OpAppendRunEvent now sc e n) s = snd (AppendAssistantRunEvent now sc e n s)"
| "exec (OpAppendItem now sc it) s = snd (AppendAssistantConversationItem now sc it s)"
| "exec (OpDeleteProject sc) s = snd (DeleteProjectMessages sc s)"
| "exec (OpDeleteOld before) s = snd (DeleteMessagesOlderThan before s)"
| "exec (OpCreateThread now sc t es) s = snd (CreateAssistantThread now sc t es s)"
| "exec (OpUpdateThread now sc t) s = snd (UpdateAssistantThread now sc t s)"
| "exec (OpSetTitle now sc i a t e) s = snd (SetAssistantThreadTitleIfEmpty now sc i a t e s)"
| "exec (OpDeleteThread sc i a) s = snd (DeleteAssistantThread sc i a s)"
| "exec (OpUpdateThreadEvent now sc t e n) s = snd (UpdateAssistantThreadWithEvent now sc t e n s)"
| "exec (OpCreateTurn now sc u es) s = snd (CreateAssistantTurn now sc u es s)"
| "exec (OpSaveTurn now sc u) s = snd (SaveAssistantTurn now sc u s)"
| "exec (OpSaveTurnEvent now sc u e n) s = snd (SaveAssistantTurnWithEvent now sc u e n s)"
| "exec (OpAppendThreadEvent now sc e n) s = snd (AppendAssistantThreadEvent now sc e n s)"
| "exec (OpCreatePermit sc a d) s = snd (CreateProjectBootstrapPermit sc a d s)"
| "exec (OpConsumePermit sc a d c) s = snd (ConsumeProjectBootstrapPermit sc a d c s)"
| "exec (OpSetPreference now sc p) s = snd (SetAssistantApprovalPreference now sc p s)"
| "exec (OpPutThumbnail sc t) s = snd (PutProjectThumbnail sc t s)"
| "exec (OpDeleteThumbnail sc) s = snd (DeleteProjectThumbnail sc s)"
| "exec (OpClaim ttl a) s = claim_step ttl a s"

inductive reachable :: "memory_store \<Rightarrow> bool" where
  start: "reachable NewMemoryStore"
| step: "reachable s \<Longrightarrow> reachable (exec a s)"

inductive_cases reachable_elim: "reachable s"

subsection \<open>What the operations leave alone\<close>

text \<open>The thread tables, the run tables and the other tables, as one value each.\<close>

definition thread_tables where
  "thread_tables s = (assistantThreads s, assistantTurns s, threadEvents s)"

definition conversation_tables where
  "conversation_tables s = (conversationItems s, conversationSequences s)"

lemma threads_ok_tables: "thread_tables s' = thread_tables s \<Longrightarrow> threads_ok s' = threads_ok s"
  by (simp add: thread_tables_def threads_ok_def)

lemma run_ops_thread_tables [frame_simps]:
  "thread_tables (snd (AppendMessage now sc m s)) = thread_tables s"
  "thread_tables (snd (SaveAssistantRun now sc r s)) = thread_tables s"
  "thread_tables (snd (CreateAssistantRun now sc u a r s)) = thread_tables s"
  "thread_tables (snd (requestAssistantRunStop clock sc i n m now s)) = thread_tables s"
  "thread_tables (snd (SaveAssistantRunSnapshot now sc r ms n s)) = thread_tables s"
  "thread_tables (snd (ClaimAssistantRun clock sc i q now s)) = thread_tables s"
  "thread_tables (snd (AppendAssistantRunEvent now sc e n s)) = thread_tables s"
  "thread_tables (snd (AppendAssistantConversationItem now sc it s)) = thread_tables s"
  by (simp_all add: thread_tables_def AppendMessage_def SaveAssistantRun_def CreateAssistantRun_def
      requestAssistantRunStop_def SaveAssistantRunSnapshot_def ClaimAssistantRun_def AppendAssistantRunEvent_def
      AppendAssistantConversationItem_def store_run_def Let_def split: sum.split option.split prod.split)

text \<open>The operations on permits, preferences, thumbnails and claims touch none of the other tables.\<close>

definition core_tables where
  "core_tables s = (thread_tables s, messages s, assistantRuns s, assistantEvents s, conversation_tables s)"

lemma project_ops_core [frame_simps]:
  "core_tables (snd (CreateProjectBootstrapPermit sc a d s)) = core_tables s"
  "core_tables (snd (ConsumeProjectBootstrapPermit sc a d c s)) = core_tables s"
  "core_tables (snd (SetAssistantApprovalPreference now sc p s)) = core_tables s"
  "core_tables (snd (PutProjectThumbnail sc t s)) = core_tables s"
  "core_tables (snd (DeleteProjectThumbnail sc s)) = core_tables s"
  "core_tables (claim_step ttl x s) = core_tables s"
proof -
  show "core_tables (claim_step ttl x s) = core_tables s"
    by (cases x) (auto simp: core_tables_def thread_tables_def conversation_tables_def TryClaimReplica_def RenewReplicaClaim_def
        ReleaseReplicaClaim_def BumpReplicaClaimRevision_def Let_def split: option.split)
qed (simp_all add: core_tables_def thread_tables_def conversation_tables_def CreateProjectBootstrapPermit_def
    ConsumeProjectBootstrapPermit_def SetAssistantApprovalPreference_def PutProjectThumbnail_def DeleteProjectThumbnail_def
    Let_def split: sum.split option.split)

lemmas project_ops_fields [frame_simps] =
  project_ops_core [unfolded core_tables_def thread_tables_def conversation_tables_def prod.inject]

lemma run_ops_conversation [frame_simps]:
  "conversation_tables (snd (AppendMessage now sc m s)) = conversation_tables s"
  "conversation_tables (snd (SaveAssistantRun now sc r s)) = conversation_tables s"
  "conversation_tables (snd (CreateAssistantRun now sc u a r s)) = conversation_tables s"
  "conversation_tables (snd (requestAssistantRunStop clock sc i n m now s)) = conversation_tables s"
  "conversation_tables (snd (SaveAssistantRunSnapshot now sc r ms n s)) = conversation_tables s"
  "conversation_tables (snd (ClaimAssistantRun clock sc i q now s)) = conversation_tables s"
  "conversation_tables (snd (AppendAssistantRunEvent now sc e n s)) = conversation_tables s"
  by (simp_all add: conversation_tables_def AppendMessage_def SaveAssistantRun_def CreateAssistantRun_def
      requestAssistantRunStop_def SaveAssistantRunSnapshot_def ClaimAssistantRun_def AppendAssistantRunEvent_def
      store_run_def Let_def split: sum.split option.split prod.split)

lemma run_ops_events [frame_simps]:
  "assistantEvents (snd (AppendMessage now sc m s)) = assistantEvents s"
  "assistantEvents (snd (SaveAssistantRun now sc r s)) = assistantEvents s"
  "assistantEvents (snd (CreateAssistantRun now sc u a r s)) = assistantEvents s"
  "assistantEvents (snd (requestAssistantRunStop clock sc i n m now s)) = assistantEvents s"
  "assistantEvents (snd (SaveAssistantRunSnapshot now sc r ms n s)) = assistantEvents s"
  "assistantEvents (snd (ClaimAssistantRun clock sc i q now s)) = assistantEvents s"
  "assistantEvents (snd (AppendAssistantConversationItem now sc it s)) = assistantEvents s"
  by (simp_all add: AppendMessage_def SaveAssistantRun_def CreateAssistantRun_def
      requestAssistantRunStop_def SaveAssistantRunSnapshot_def ClaimAssistantRun_def
      AppendAssistantConversationItem_def store_run_def Let_def split: sum.split option.split prod.split)

lemma ops_runs [frame_simps]:
  "assistantRuns (snd (AppendMessage now sc m s)) = assistantRuns s"
  "assistantRuns (snd (AppendAssistantRunEvent now sc e n s)) = assistantRuns s"
  "assistantRuns (snd (AppendAssistantConversationItem now sc it s)) = assistantRuns s"
  by (simp_all add: AppendMessage_def AppendAssistantRunEvent_def AppendAssistantConversationItem_def
      Let_def split: sum.split option.split)

lemma ops_messages [frame_simps]:
  "messages (snd (SaveAssistantRun now sc r s)) = messages s"
  "messages (snd (ClaimAssistantRun clock sc i q now s)) = messages s"
  "messages (snd (AppendAssistantRunEvent now sc e n s)) = messages s"
  "messages (snd (AppendAssistantConversationItem now sc it s)) = messages s"
  by (simp_all add: SaveAssistantRun_def ClaimAssistantRun_def AppendAssistantRunEvent_def
      AppendAssistantConversationItem_def store_run_def Let_def split: sum.split option.split)

subsection \<open>Threads\<close>

lemma core_threads_ok: "core_tables s' = core_tables s \<Longrightarrow> threads_ok s' = threads_ok s"
  by (rule threads_ok_tables) (simp add: core_tables_def)

lemmas project_ops_threads_ok = project_ops_core [THEN core_threads_ok]
lemmas run_ops_threads_ok = run_ops_thread_tables [THEN threads_ok_tables]

lemmas thread_steps =
  CreateAssistantThread_step [OF _ surjective_pairing] UpdateAssistantThread_step [OF _ surjective_pairing]
  SetAssistantThreadTitleIfEmpty_step [OF _ surjective_pairing]
  UpdateAssistantThreadWithEvent_step [OF _ surjective_pairing] CreateAssistantTurn_step [OF _ surjective_pairing]
  SaveAssistantTurn_step [OF _ surjective_pairing] SaveAssistantTurnWithEvent_step [OF _ surjective_pairing]
  AppendAssistantThreadEvent_step [OF _ surjective_pairing]

lemma thread_stepD:
  assumes "thread_step sc s r s'"
  shows "threads_ok s'" "other_rows s' = other_rows s"
  using assms by (simp_all add: thread_step_def)

lemmas thread_ops_ok = thread_steps [THEN thread_stepD(1)]
lemmas thread_ops_other = thread_steps [THEN thread_stepD(2)]

fun is_thread_op :: "store_op \<Rightarrow> bool" where
  "is_thread_op (OpCreateThread now sc t es) = True" | "is_thread_op (OpUpdateThread now sc t) = True"
| "is_thread_op (OpSetTitle now sc i a t e) = True" | "is_thread_op (OpUpdateThreadEvent now sc t e n) = True"
| "is_thread_op (OpCreateTurn now sc u es) = True" | "is_thread_op (OpSaveTurn now sc u) = True"
| "is_thread_op (OpSaveTurnEvent now sc u e n) = True" | "is_thread_op (OpAppendThreadEvent now sc e n) = True"
| "is_thread_op _ = False"

lemma thread_op_effect:
  assumes "is_thread_op a" "threads_ok s"
  shows "threads_ok (exec a s) \<and> other_rows (exec a s) = other_rows s"
  using assms by (cases a) (simp_all add: thread_ops_ok thread_ops_other)

lemma failed_delete_thread: "fst (DeleteAssistantThread sc i a s) = Inl e \<Longrightarrow> snd (DeleteAssistantThread sc i a s) = s"
  by (auto simp: DeleteAssistantThread_def Let_def split: sum.splits option.splits if_splits)

lemma delete_thread_cases:
  obtains "snd (DeleteAssistantThread sc i a s) = s"
  | s' where "DeleteAssistantThread sc i a s = (Inr (), s')"
proof (cases "fst (DeleteAssistantThread sc i a s)")
  case (Inr u)
  then show ?thesis using that(2) [of "snd (DeleteAssistantThread sc i a s)"] by (metis old.unit.exhaust prod.collapse)
qed (use that(1) failed_delete_thread in blast)

lemma delete_project_cases:
  obtains "snd (DeleteProjectMessages sc s) = s" | "scope_validate sc = Inr ()"
  by (cases "scope_validate sc") (auto simp: DeleteProjectMessages_def)

lemma thread_rows_filter:
  assumes "thread_rows_ok ths tns evs"
  shows "thread_rows_ok (filter (\<lambda>p. fst p \<notin> A) ths) (filter (\<lambda>p. fst p \<notin> A) tns) (filter (\<lambda>p. fst p \<notin> A) evs)"
  using assms
  by (simp add: thread_rows_ok_def wf_map_filter map_of_filter_key [of "\<lambda>i. i \<notin> A"] inner_filter_key [of "\<lambda>i. i \<notin> A"])

lemma exec_threads_ok:
  assumes "threads_ok s" "maps_ok s"
  shows "threads_ok (exec a s)"
proof (cases a)
  case (OpDeleteProject sc)
  then show ?thesis
    using assms(1) by (cases rule: delete_project_cases [of sc s]) (auto simp: DeleteProjectMessages_def threads_ok_def)
next
  case (OpDeleteOld before)
  obtain n s' where op: "DeleteMessagesOlderThan before s = (n, s')" by fastforce
  note rows = DeleteMessagesOlderThan_rows(3) [OF op assms(2,1)]
  have "thread_rows_ok (project_threads s' sc) (inner (assistantTurns s') sc) (inner (threadEvents s') sc)" for sc
    using rows [of sc] threads_okD [OF assms(1), of sc]
    by (simp add: thread_rows_def sweep_threads_def drop_threads_def thread_rows_filter)
  then show ?thesis using OpDeleteOld op by (simp add: threads_ok_def)
next
  case (OpDeleteThread sc i x)
  show ?thesis
  proof (cases rule: delete_thread_cases [of sc i x s])
    case (2 s')
    note d = DeleteAssistantThread_success(3-5) [OF 2 refl]
    have "thread_rows_ok (project_threads s' sc') (inner (assistantTurns s') sc') (inner (threadEvents s') sc')" for sc'
      using threads_okD [OF assms(1)] by (simp add: d rows_del_thread)
    then show ?thesis using OpDeleteThread 2 by (simp add: threads_ok_def)
  qed (use OpDeleteThread assms in simp)
qed (simp_all add: assms thread_ops_ok run_ops_threads_ok project_ops_threads_ok
      RequestAssistantRunStopWithAssistantMessage_def)

subsection \<open>Runs\<close>

text \<open>What one step may do to the runs of a project: remove some, or write one that fits.\<close>

definition runs_effect :: "memory_store \<Rightarrow> memory_store \<Rightarrow> bool" where
  "runs_effect s s' \<longleftrightarrow> (\<forall>sc.
     (\<exists>gone. project_runs s' sc = filter (\<lambda>p. fst p \<notin> gone) (project_runs s sc)) \<or>
     (\<exists>r. run_written (project_runs s sc) r \<and> project_runs s' sc = mput (run_ID r) r (project_runs s sc)))"

lemma runs_effect_same: "(\<And>sc. project_runs s' sc = project_runs s sc) \<Longrightarrow> runs_effect s s'"
  unfolding runs_effect_def by (metis (no_types, lifting) empty_iff filter_True)

lemma runs_effect_change: "runs_change sc s s' \<Longrightarrow> runs_effect s s'"
  unfolding runs_change_def runs_effect_def by (metis (no_types, lifting) empty_iff filter_True)

lemma runs_effect_ok: "runs_effect s s' \<Longrightarrow> all_runs_ok s \<Longrightarrow> all_runs_ok s'"
  unfolding runs_effect_def all_runs_ok_def by (metis run_written_ok runs_ok_filter)

lemma runs_effect_tables: "assistantRuns s' = assistantRuns s \<Longrightarrow> runs_effect s s'"
  by (simp add: runs_effect_same)

lemmas run_changes =
  SaveAssistantRun_change [OF surjective_pairing] CreateAssistantRun_change [OF surjective_pairing]
  SaveAssistantRunSnapshot_change [OF surjective_pairing] requestAssistantRunStop_change [OF surjective_pairing]
  ClaimAssistantRun_change [OF surjective_pairing]

lemmas run_effects = run_changes [THEN runs_effect_change]

lemma exec_runs_effect:
  assumes "all_runs_ok s" "threads_ok s" "maps_ok s"
  shows "runs_effect s (exec a s)"
proof (cases "is_thread_op a")
  case True
  then show ?thesis
    by (intro runs_effect_tables other_rows_cong(2)) (simp add: thread_op_effect assms(2))
next
  case False
  then show ?thesis
  proof (cases a)
    case (OpDeleteProject sc)
    then show ?thesis
    proof (cases rule: delete_project_cases [of sc s])
      case 2
      then have "project_runs (exec a s) sc' = filter (\<lambda>p. fst p \<notin> (if sc' = sc then UNIV else {})) (project_runs s sc')" for sc'
        using OpDeleteProject by (simp add: DeleteProjectMessages_def)
      then show ?thesis unfolding runs_effect_def by blast
    qed (simp add: runs_effect_same)
  next
    case (OpDeleteOld before)
    obtain n s' where op: "DeleteMessagesOlderThan before s = (n, s')" by fastforce
    have "project_runs s' sc = filter (\<lambda>p. fst p \<notin> expired_runs before (project_runs s sc)) (project_runs s sc)" for sc
      using DeleteMessagesOlderThan_rows(2) [OF op assms(3,2), of sc]
      by (simp add: run_rows_def sweep_runs_def drop_runs_def)
    then have "runs_effect s s'" unfolding runs_effect_def by blast
    then show ?thesis by (simp add: OpDeleteOld op)
  next
    case (OpDeleteThread sc i x)
    show ?thesis
    proof (cases rule: delete_thread_cases [of sc i x s])
      case (2 s')
      note d = DeleteAssistantThread_success(6) [OF 2 refl]
      have "project_runs s' sc' = filter (\<lambda>p. fst p \<notin> (if sc' = sc then fst ` set (thread_turns s sc (trim_space i)) else {}))
          (project_runs s sc')" for sc'
        by (simp add: d)
      then have "runs_effect s s'" unfolding runs_effect_def by blast
      then show ?thesis by (simp add: OpDeleteThread 2)
    qed (use OpDeleteThread in \<open>simp add: runs_effect_same\<close>)
  qed (simp_all add: assms run_effects runs_effect_tables frame_simps RequestAssistantRunStopWithAssistantMessage_def)
qed

subsection \<open>Messages and run logs\<close>

lemma maps_ok_tables: "messages s' = messages s \<Longrightarrow> maps_ok s' = maps_ok s"
  by (simp add: maps_ok_def)

lemma save_messages_ok: "messages_ok m \<Longrightarrow> messages_ok (snd (save_messages ms m))"
  by (induction ms m rule: save_messages.induct) (auto intro: messages_ok_mput)

lemma run_ops_maps_ok:
  assumes "maps_ok s"
  shows "maps_ok (snd (AppendMessage now sc m s))" "maps_ok (snd (CreateAssistantRun now sc u a r s))"
    "maps_ok (snd (requestAssistantRunStop clock sc i n m now s))" "maps_ok (snd (SaveAssistantRunSnapshot now sc r ms n s))"
proof -
  show "maps_ok (snd (AppendMessage now sc m s))"
    using assms by (auto simp: AppendMessage_def maps_ok_def Let_def intro!: messages_ok_mput split: sum.split option.split)
  show "maps_ok (snd (CreateAssistantRun now sc u a r s))"
    using assms by (auto simp: CreateAssistantRun_def maps_ok_def store_run_def Let_def intro!: messages_ok_mput
        split: sum.split option.split)
  show "maps_ok (snd (requestAssistantRunStop clock sc i n m now s))"
    using assms by (auto simp: requestAssistantRunStop_def maps_ok_def Let_def intro!: messages_ok_mput
        split: sum.split option.split)
  show "maps_ok (snd (SaveAssistantRunSnapshot now sc r ms n s))"
    using assms save_messages_ok [of "project_messages s sc" "map (prepareMessage now sc) ms"]
    by (auto simp: SaveAssistantRunSnapshot_def maps_ok_def store_run_def Let_def split: sum.split option.split prod.split)
qed

lemmas run_ops_maps_ok_same =
  ops_messages [THEN maps_ok_tables]

lemmas project_ops_maps_ok = project_ops_fields [THEN conjunct2, THEN conjunct1, THEN maps_ok_tables]

lemma delete_old_messages_outer: "wf_map (messages s) \<Longrightarrow> wf_map (messages (snd (DeleteMessagesOlderThan b s)))"
proof -
  assume wf: "wf_map (messages s)"
  let ?r = "expire_runs b (expire_messages b (s, 0))"
  have "messages (snd (DeleteMessagesOlderThan b s)) = messages (fst (expire_messages b (s, 0)))"
    using other_rows_cong(1) [OF expire_threads_other [of b "fst ?r"]] by (simp add: DeleteMessagesOlderThan_def split_beta)
  moreover have "wf_map (filter P (map (\<lambda>(k, v). (k, f k v)) (messages s)))" for P f
    by (rule wf_map_filter) (use wf in \<open>simp add: wf_map_def comp_def split_beta\<close>)
  ultimately show ?thesis by (simp add: expire_messages_def Let_def)
qed

lemma delete_thread_messages_outer: "wf_map (messages s) \<Longrightarrow> wf_map (messages (snd (DeleteAssistantThread sc i a s)))"
proof -
  have "wf_map m \<Longrightarrow> wf_map (fold (\<lambda>i. del2 sc i) ids m)" for ids and m :: "(scope, (string, message) gomap) gomap"
    by (induction ids arbitrary: m) auto
  then show "wf_map (messages s) \<Longrightarrow> ?thesis"
    by (auto simp: DeleteAssistantThread_def Let_def delete_messages_def split: sum.split option.split)
qed

lemma exec_maps_ok:
  assumes "threads_ok s" "maps_ok s"
  shows "maps_ok (exec a s)"
proof (cases "is_thread_op a")
  case True
  then show ?thesis
    using maps_ok_tables [OF other_rows_cong(1), of "exec a s" s] thread_op_effect [OF True assms(1)] assms(2) by simp
next
  case False
  then show ?thesis
  proof (cases a)
    case (OpDeleteProject sc)
    then show ?thesis
      using assms(2) by (cases rule: delete_project_cases [of sc s]) (auto simp: DeleteProjectMessages_def maps_ok_def)
  next
    case (OpDeleteOld before)
    obtain n s' where op: "DeleteMessagesOlderThan before s = (n, s')" by fastforce
    show ?thesis
      using OpDeleteOld op assms(2) delete_old_messages_outer [of s before]
      by (simp add: maps_ok_def DeleteMessagesOlderThan_rows(1) [OF op assms(2,1)] messages_ok_filter)
  next
    case (OpDeleteThread sc i x)
    show ?thesis
    proof (cases rule: delete_thread_cases [of sc i x s])
      case (2 s')
      then show ?thesis
        using OpDeleteThread assms(2) delete_thread_messages_outer [of s sc i x]
        by (simp add: maps_ok_def DeleteAssistantThread_success(8) [OF 2 refl] messages_ok_filter)
    qed (use OpDeleteThread assms in simp)
  qed (simp_all add: assms run_ops_maps_ok run_ops_maps_ok_same project_ops_maps_ok
      RequestAssistantRunStopWithAssistantMessage_def)
qed

definition run_logs_ok :: "memory_store \<Rightarrow> bool" where
  "run_logs_ok s \<longleftrightarrow> (\<forall>sc rid. log_ok rev_Sequence (run_log s sc rid))"

lemma run_logs_ok_tables: "assistantEvents s' = assistantEvents s \<Longrightarrow> run_logs_ok s' = run_logs_ok s"
  by (simp add: run_logs_ok_def)

lemmas run_ops_logs_ok = run_ops_events [THEN run_logs_ok_tables]
lemmas project_ops_logs_ok = project_ops_fields [THEN conjunct2, THEN conjunct2, THEN conjunct2, THEN conjunct1, THEN run_logs_ok_tables]

lemma AppendAssistantRunEvent_logs_ok:
  assumes "run_logs_ok s"
  shows "run_logs_ok (snd (AppendAssistantRunEvent now sc e n s))"
  unfolding run_logs_ok_def
proof (intro allI)
  fix sc' rid
  obtain r s' where op: "AppendAssistantRunEvent now sc e n s = (r, s')" by fastforce
  show "log_ok rev_Sequence (run_log (snd (AppendAssistantRunEvent now sc e n s)) sc' rid)"
  proof (cases "sc' = sc \<and> rid = trim_space (rev_RunID e)")
    case True
    have "AppendAssistantRunEvent now sc (e\<lparr>rev_RunID := rev_RunID e\<rparr>) n s = (r, s')" using op by simp
    then have "log_ok rev_Sequence (run_log s' sc (trim_space (rev_RunID e)))"
      using run_events.append_ok [of s sc "rev_RunID e" now e n r s'] assms by (simp add: run_logs_ok_def)
    then show ?thesis using op True by simp
  next
    case False
    then have "run_log s' sc' rid = run_log s sc' rid" by (intro AppendAssistantRunEvent_other [OF op]) auto
    then show ?thesis using op assms by (simp add: run_logs_ok_def)
  qed
qed

lemma filtered_logs_ok:
  "run_logs_ok s \<Longrightarrow> (\<And>sc. \<exists>Q. inner (assistantEvents s') sc = filter (\<lambda>p. Q (fst p)) (inner (assistantEvents s) sc)) \<Longrightarrow>
   run_logs_ok s'"
  unfolding run_logs_ok_def by (metis inner_filter_key log_ok_Nil)

lemma exec_run_logs_ok:
  assumes "threads_ok s" "maps_ok s" "run_logs_ok s"
  shows "run_logs_ok (exec a s)"
proof (cases "is_thread_op a")
  case True
  then show ?thesis
    using run_logs_ok_tables [OF other_rows_cong(3), of "exec a s" s] thread_op_effect [OF True assms(1)] assms(3) by simp
next
  case False
  then show ?thesis
  proof (cases a)
    case (OpDeleteProject sc)
    then show ?thesis
      using assms(3) by (cases rule: delete_project_cases [of sc s]) (auto simp: DeleteProjectMessages_def run_logs_ok_def)
  next
    case (OpDeleteOld before)
    obtain n s' where op: "DeleteMessagesOlderThan before s = (n, s')" by fastforce
    have "inner (assistantEvents s') sc = filter (\<lambda>p. fst p \<notin> expired_runs before (project_runs s sc)) (inner (assistantEvents s) sc)" for sc
      using DeleteMessagesOlderThan_rows(2) [OF op assms(2,1), of sc]
      by (simp add: run_rows_def sweep_runs_def drop_runs_def)
    then have "\<exists>Q. inner (assistantEvents s') sc = filter (\<lambda>p. Q (fst p)) (inner (assistantEvents s) sc)" for sc
      by (intro exI [of _ "\<lambda>i. i \<notin> expired_runs before (project_runs s sc)"])
    then have "run_logs_ok s'" by (rule filtered_logs_ok [OF assms(3)])
    then show ?thesis using OpDeleteOld op by simp
  next
    case (OpDeleteThread sc i x)
    show ?thesis
    proof (cases rule: delete_thread_cases [of sc i x s])
      case (2 s')
      note d = DeleteAssistantThread_success(7) [OF 2 refl]
      have "\<exists>Q. inner (assistantEvents s') sc' = filter (\<lambda>p. Q (fst p)) (inner (assistantEvents s) sc')" for sc'
      proof (cases "sc' = sc")
        case False
        then show ?thesis using d by (intro exI [of _ "\<lambda>_. True"]) simp
      next
        case True
        then show ?thesis
          using d by (intro exI [of _ "\<lambda>j. j \<notin> fst ` set (thread_turns s sc (trim_space i)) \<or> map_of (project_runs s sc) j = None"]) simp
      qed
      then have "run_logs_ok s'" by (rule filtered_logs_ok [OF assms(3)])
      then show ?thesis using OpDeleteThread 2 by simp
    qed (use OpDeleteThread assms in simp)
  qed (simp_all add: assms run_ops_logs_ok project_ops_logs_ok AppendAssistantRunEvent_logs_ok
      RequestAssistantRunStopWithAssistantMessage_def)
qed

end
