(* ===== verification/AppStore_Invariants.thy ===== *)
theory AppStore_Invariants
  imports AppStore_Machine
begin

section \<open>App Studio store: invariants of every reachable store\<close>

text \<open>
  The invariants of the store machine: the runs, threads, logs and conversations of a store that
  any sequence of operations leads to, what one operation may change of a run, and which projects
  an operation touches.
\<close>

subsection \<open>Reachable stores\<close>

definition store_inv :: "memory_store \<Rightarrow> bool" where
  "store_inv s \<longleftrightarrow> all_runs_ok s \<and> threads_ok s \<and> maps_ok s \<and> run_logs_ok s"

lemma store_inv_New: "store_inv NewMemoryStore"
  by (simp add: store_inv_def maps_ok_def run_logs_ok_def) (simp add: NewMemoryStore_def)

lemma store_inv_exec: "store_inv s \<Longrightarrow> store_inv (exec a s)"
  unfolding store_inv_def
  using exec_threads_ok exec_maps_ok exec_run_logs_ok runs_effect_ok [OF exec_runs_effect] by blast

lemma reachable_inv: "reachable s \<Longrightarrow> store_inv s"
  by (induction rule: reachable.induct) (auto intro: store_inv_New store_inv_exec)

lemma ex_store_reachable: "reachable ex_store"
proof -
  have "ex_store = exec (OpCreateRun 9 ex_scope (ex_message ''m1'' ''user'' ''a'' 1)
      (ex_message ''m2'' ''assistant'' ''a'' 2) (ex_run ''r1'' RunRunning ''c1'' 1)) NewMemoryStore"
    by (simp add: ex_store_def)
  then show ?thesis using reachable.step [OF reachable.start] by metis
qed

lemma ex_thread_store_reachable: "reachable ex_thread_store"
proof -
  have "ex_thread_store = exec (OpCreateThread 6 ex_scope (ex_thread ''t'' 6) [ex_thread_event ''start'']) ex_store"
    by (simp add: ex_thread_store_def)
  then show ?thesis using reachable.step [OF ex_store_reachable] by metis
qed

text \<open>Property C3. Whatever the callers do and in whatever order, a project never has two unfinished
  runs, a client request ID never names two of its runs, and each stored run has its own ID and a
  known status, mode and approval mode.\<close>

theorem reachable_runs_exclusive:
  assumes "reachable s"
  shows "(\<forall>i r. map_of (project_runs s sc) i = Some r \<longrightarrow>
            run_ID r = i \<and> i \<noteq> [] \<and> run_Status r \<in> set run_statuses \<and> run_Mode r \<in> set run_modes \<and>
            run_ApprovalMode r \<in> set approval_modes) \<and>
    (\<forall>i r j q. map_of (project_runs s sc) i = Some r \<longrightarrow> map_of (project_runs s sc) j = Some q \<longrightarrow>
       \<not> assistantRunStatusTerminal (run_Status r) \<longrightarrow> \<not> assistantRunStatusTerminal (run_Status q) \<longrightarrow> i = j) \<and>
    (\<forall>i r j q. map_of (project_runs s sc) i = Some r \<longrightarrow> map_of (project_runs s sc) j = Some q \<longrightarrow>
       run_ClientRequestID r = run_ClientRequestID q \<longrightarrow> run_ClientRequestID r \<noteq> [] \<longrightarrow> i = j)"
proof -
  have ok: "runs_ok (project_runs s sc)"
    using reachable_inv [OF assms] by (simp add: store_inv_def all_runs_ok_def)
  have wf: "run_ID r = i \<and> i \<noteq> [] \<and> run_Status r \<in> set run_statuses \<and> run_Mode r \<in> set run_modes \<and>
      run_ApprovalMode r \<in> set approval_modes" if "map_of (project_runs s sc) i = Some r" for i r
    using runs_ok_get [OF ok that] by (simp add: run_wf_def assistantRunModeValid_def)
  have compat: "run_compatible r q"
    if "map_of (project_runs s sc) i = Some r" "map_of (project_runs s sc) j = Some q" "i \<noteq> j" for i j r q
    using ok that(3) map_of_SomeD [OF that(1)] map_of_SomeD [OF that(2)] by (auto simp: runs_ok_def)
  have "i = j" if "map_of (project_runs s sc) i = Some r" "map_of (project_runs s sc) j = Some q"
    "\<not> assistantRunStatusTerminal (run_Status r)" "\<not> assistantRunStatusTerminal (run_Status q)" for i r j q
    using compat [OF that(1,2)] that(3,4) by (auto simp: run_compatible_def run_active_def)
  moreover have "i = j" if "map_of (project_runs s sc) i = Some r" "map_of (project_runs s sc) j = Some q"
    "run_ClientRequestID r = run_ClientRequestID q" "run_ClientRequestID r \<noteq> []" for i r j q
    using compat [OF that(1,2)] that(3,4) by (auto simp: run_compatible_def)
  ultimately show ?thesis using wf by blast
qed

theorem reachable_runs_exclusive_witness:
  "run_ID (the (map_of (project_runs ex_store ex_scope) ''r1'')) = ''r1''"
proof -
  have "map_of (project_runs ex_store ex_scope) ''r1'' \<noteq> None" by code_simp
  then show ?thesis using reachable_runs_exclusive [OF ex_store_reachable, of ex_scope] by auto
qed

text \<open>Property C29. The event streams of runs and threads are gapless in every reachable store: while
  the length fits an \<open>int64\<close>, the entries of a stream are numbered 1, 2, 3 and so on in the order
  they are kept.\<close>

theorem reachable_streams_numbered:
  assumes "reachable s"
  shows "(int (length (run_log s sc rid)) \<le> max_i64 \<longrightarrow>
            map rev_Sequence (run_log s sc rid) = [1..int (length (run_log s sc rid))]) \<and>
         (int (length (thread_log s sc tid)) \<le> max_i64 \<longrightarrow>
            map tev_Sequence (thread_log s sc tid) = [1..int (length (thread_log s sc tid))])"
  using reachable_inv [OF assms] threads_ok_log [of s sc tid]
  by (simp add: store_inv_def run_logs_ok_def log_ok_def numbered_def)

theorem reachable_streams_numbered_witness:
  "map tev_Sequence (thread_log ex_thread_store ex_scope ''t'') = [1..1]"
proof -
  have "length (thread_log ex_thread_store ex_scope ''t'') = 1" by code_simp
  then show ?thesis
    using reachable_streams_numbered [OF ex_thread_store_reachable, of ex_scope "[]" "''t''"] by (simp add: max_i64_def)
qed

text \<open>In a reachable store no thread or turn operation meets a nil map: whatever its
  arguments, none of them panics.\<close>

theorem thread_ops_never_panic:
  assumes "reachable s"
  shows "fst (CreateAssistantThread now sc t es s) \<noteq> Inl PanicNilMap \<and>
    fst (UpdateAssistantThread now sc t s) \<noteq> Inl PanicNilMap \<and>
    fst (SetAssistantThreadTitleIfEmpty now sc i a title e s) \<noteq> Inl PanicNilMap \<and>
    fst (UpdateAssistantThreadWithEvent now sc t e n s) \<noteq> Inl PanicNilMap \<and>
    fst (CreateAssistantTurn now sc u es s) \<noteq> Inl PanicNilMap \<and>
    fst (SaveAssistantTurn now sc u s) \<noteq> Inl PanicNilMap \<and>
    fst (SaveAssistantTurnWithEvent now sc u e n s) \<noteq> Inl PanicNilMap \<and>
    fst (AppendAssistantThreadEvent now sc e n s) \<noteq> Inl PanicNilMap"
proof -
  have ok: "threads_ok s" using reachable_inv [OF assms] by (simp add: store_inv_def)
  have np: "thread_step sc s r s' \<Longrightarrow> r \<noteq> Inl PanicNilMap" for r :: "'x sres" and s' by (simp add: thread_step_def)
  show ?thesis
    by (intro conjI; rule np; rule thread_steps [OF ok])
qed

theorem thread_ops_never_panic_witness:
  "fst (AppendAssistantThreadEvent 9 ex_scope (ex_thread_event ''x'') 1 ex_thread_store) \<noteq> Inl PanicNilMap"
  using thread_ops_never_panic [OF ex_thread_store_reachable] by blast

lemma exec_run_kept:
  assumes "store_inv s" "map_of (project_runs s sc) i = Some old"
  shows "map_of (project_runs (exec a s) sc) i = None \<or>
    (\<exists>r. map_of (project_runs (exec a s) sc) i = Some r \<and> same_contract old r)"
proof -
  have "runs_effect s (exec a s)" by (rule exec_runs_effect) (use assms(1) in \<open>simp_all add: store_inv_def\<close>)
  then consider gone where "project_runs (exec a s) sc = filter (\<lambda>p. fst p \<notin> gone) (project_runs s sc)"
    | r where "run_written (project_runs s sc) r" "project_runs (exec a s) sc = mput (run_ID r) r (project_runs s sc)"
    unfolding runs_effect_def by blast
  then show ?thesis
  proof cases
    case 1
    then show ?thesis
      using assms(2) map_of_filter_key [of "\<lambda>i. i \<notin> gone" "project_runs s sc" i] by (simp add: same_contract_def)
  next
    case 2
    show ?thesis
    proof (cases "run_ID r = i")
      case True
      then have "same_contract old r" using 2(1) assms(2) by (auto simp: run_written_def)
      then show ?thesis using 2(2) True by simp
    qed (use 2(2) assms(2) in \<open>simp add: same_contract_def\<close>)
  qed
qed

text \<open>Property C22. A run's contract is fixed at its creation: one operation of any kind, in any
  reachable store, either removes the run or leaves its mode, approval mode, creation time, client
  request ID and user message as they are and its revision where it is or one further.\<close>

theorem run_contract_immutable:
  assumes "reachable s" "map_of (project_runs s sc) i = Some old"
  shows "map_of (project_runs (exec a s) sc) i = None \<or>
    (\<exists>r. map_of (project_runs (exec a s) sc) i = Some r \<and>
       run_Mode r = run_Mode old \<and> run_ApprovalMode r = run_ApprovalMode old \<and>
       run_CreatedAt r = run_CreatedAt old \<and> run_ClientRequestID r = run_ClientRequestID old \<and>
       run_UserMessageID r = run_UserMessageID old \<and>
       run_Revision r \<in> {run_Revision old, i64 (run_Revision old + 1)})"
  using exec_run_kept [OF reachable_inv [OF assms(1)] assms(2)] unfolding same_contract_def .

theorem run_contract_immutable_witness:
  "\<exists>old. map_of (project_runs ex_store ex_scope) ''r1'' = Some old \<and>
     (map_of (project_runs (exec (OpSaveRun 9 ex_scope (ex_run ''r1'' RunFailed ''zz'' 9)) ex_store) ex_scope) ''r1'' = None \<or>
      (\<exists>r. map_of (project_runs (exec (OpSaveRun 9 ex_scope (ex_run ''r1'' RunFailed ''zz'' 9)) ex_store) ex_scope) ''r1'' = Some r \<and>
           run_ClientRequestID r = run_ClientRequestID old))"
proof -
  have "map_of (project_runs ex_store ex_scope) ''r1'' \<noteq> None" by code_simp
  then obtain old where old: "map_of (project_runs ex_store ex_scope) ''r1'' = Some old" by blast
  from run_contract_immutable [OF ex_store_reachable old, of "OpSaveRun 9 ex_scope (ex_run ''r1'' RunFailed ''zz'' 9)"]
  have "map_of (project_runs (exec (OpSaveRun 9 ex_scope (ex_run ''r1'' RunFailed ''zz'' 9)) ex_store) ex_scope) ''r1'' = None \<or>
      (\<exists>r. map_of (project_runs (exec (OpSaveRun 9 ex_scope (ex_run ''r1'' RunFailed ''zz'' 9)) ex_store) ex_scope) ''r1'' = Some r \<and>
           run_ClientRequestID r = run_ClientRequestID old)"
    by blast
  with old show ?thesis by (intro exI [of _ old]) (rule conjI)
qed

text \<open>The revision of a run that is there all the time does not fall.\<close>

lemma revisions_grow:
  assumes "store_inv s" "map_of (project_runs s sc) i = Some r" "0 \<le> run_Revision r"
    "run_Revision r + int (length later) \<le> max_i64"
    "\<forall>k \<le> length later. map_of (project_runs (fold exec (take k later) s) sc) i \<noteq> None"
  shows "\<exists>r'. map_of (project_runs (fold exec later s) sc) i = Some r' \<and> run_Revision r \<le> run_Revision r'"
  using assms
proof (induction later arbitrary: s r)
  case (Cons a later)
  have there: "map_of (project_runs (exec a s) sc) i \<noteq> None" using Cons.prems(5) [rule_format, of 1] by simp
  obtain q where q: "map_of (project_runs (exec a s) sc) i = Some q" "same_contract r q"
    using exec_run_kept [OF Cons.prems(1,2), of a] by (elim disjE exE conjE) (rule notE [OF there], assumption, rule that)
  have "i64 (run_Revision r + 1) = run_Revision r + 1" by (rule i64_Suc) (use Cons.prems(3,4) in simp_all)
  then have rev: "run_Revision q \<in> {run_Revision r, run_Revision r + 1}" using q(2) by (simp add: same_contract_def)
  have "map_of (project_runs (fold exec (take k later) (exec a s)) sc) i \<noteq> None" if "k \<le> length later" for k
    using Cons.prems(5) [rule_format, of "Suc k"] that by simp
  then have "\<exists>r'. map_of (project_runs (fold exec later (exec a s)) sc) i = Some r' \<and> run_Revision q \<le> run_Revision r'"
    by (intro Cons.IH [OF store_inv_exec [OF Cons.prems(1)] q(1)]) (use rev Cons.prems(3,4) in auto)
  then show ?case using rev by auto
qed simp

text \<open>Property C19. Snapshots are fenced by the run's revision: one that succeeds from revision
  \<open>n\<close> found the run at \<open>n\<close>, moves it to the next revision and keeps its contract, and however many
  operations of whatever kind follow, as long as the run is not removed and the revisions fit an
  \<open>int64\<close>, every snapshot of it that still expects \<open>n\<close> is refused and changes nothing, whoever
  sends it. A run that is removed and created again under its ID starts its revisions again.\<close>

theorem snapshot_fences_stale_writers:
  assumes "reachable s" "SaveAssistantRunSnapshot now sc run msgs n s = (Inr u, s')"
    and "\<forall>k \<le> length later. map_of (project_runs (fold exec (take k later) s') sc) (run_ID run) \<noteq> None"
    and "n + int (length later) < max_i64"
  shows "(\<exists>old new. map_of (project_runs s sc) (run_ID run) = Some old \<and> run_Revision old = n \<and>
            map_of (project_runs s' sc) (run_ID run) = Some new \<and> run_Revision new = n + 1 \<and>
            run_Status new = run_Status run \<and> same_contract old new) \<and>
         (\<forall>now' run' msgs'. run_ID run' = run_ID run \<longrightarrow>
            (\<exists>e. SaveAssistantRunSnapshot now' sc run' msgs' n (fold exec later s') = (Inl e, fold exec later s')))"
proof -
  have n: "1 \<le> n" using assms(2) by (auto simp: SaveAssistantRunSnapshot_def validateAssistantRunSnapshot_def
      split: sum.splits if_splits)
  then have "i64 (n + 1) = n + 1" using assms(4) by (intro i64_Suc) simp_all
  then obtain old new where run: "map_of (project_runs s sc) (run_ID run) = Some old" "run_Revision old = n"
    "map_of (project_runs s' sc) (run_ID run) = Some new" "run_Revision new = n + 1"
    "run_Status new = run_Status run" "same_contract old new"
    using SaveAssistantRunSnapshot_success [OF assms(2)] by auto
  have "s' = exec (OpSnapshot now sc run msgs n) s" using assms(2) by simp
  then have "store_inv s'" using store_inv_exec [OF reachable_inv [OF assms(1)]] by blast
  moreover have "0 \<le> run_Revision new" "run_Revision new + int (length later) \<le> max_i64" using run(4) n assms(4) by simp_all
  ultimately have "\<exists>r. map_of (project_runs (fold exec later s') sc) (run_ID run) = Some r \<and> run_Revision new \<le> run_Revision r"
    by (intro revisions_grow [OF _ run(3) _ _ assms(3)])
  then obtain r where r: "map_of (project_runs (fold exec later s') sc) (run_ID run) = Some r" "run_Revision new \<le> run_Revision r"
    by blast
  then have "run_Revision r \<noteq> n" using run(4) by simp
  have "\<exists>e. SaveAssistantRunSnapshot now' sc run' msgs' n (fold exec later s') = (Inl e, fold exec later s')"
    if "run_ID run' = run_ID run" for now' run' msgs'
    using SaveAssistantRunSnapshot_stale [of "fold exec later s'" sc run' r n now' msgs'] r(1) \<open>run_Revision r \<noteq> n\<close> that by simp
  then show ?thesis using run by blast
qed

text \<open>Another writer's operation comes between the two snapshots.\<close>

theorem snapshot_fences_stale_writers_witness:
  "\<exists>s'. SaveAssistantRunSnapshot 10 ex_scope (ex_run ''r1'' RunRunning ''c1'' 2) [] 1 ex_store = (Inr (), s') \<and>
     (\<exists>s2 e. s2 = exec (OpSnapshot 11 ex_scope (ex_run ''r1'' RunCompleted ''c1'' 3) [] 2) s' \<and>
        SaveAssistantRunSnapshot 12 ex_scope (ex_run ''r1'' RunFailed ''c1'' 2) [] 1 s2 = (Inl e, s2))"
proof -
  let ?r = "SaveAssistantRunSnapshot 10 ex_scope (ex_run ''r1'' RunRunning ''c1'' 2) [] 1 ex_store"
  let ?later = "[OpSnapshot 11 ex_scope (ex_run ''r1'' RunCompleted ''c1'' 3) [] 2]"
  have "fst ?r = Inr ()" by code_simp
  then have ok: "?r = (Inr (), snd ?r)" by (rule result_eq)
  have id: "run_ID (ex_run i st c n) = i" for i st c n by (simp add: ex_run_def)
  have "map_of (project_runs (snd ?r) ex_scope) ''r1'' \<noteq> None"
    "map_of (project_runs (exec (hd ?later) (snd ?r)) ex_scope) ''r1'' \<noteq> None" by code_simp+
  then have "\<forall>k \<le> length ?later. map_of (project_runs (fold exec (take k ?later) (snd ?r)) ex_scope) (run_ID (ex_run ''r1'' RunRunning ''c1'' 2)) \<noteq> None"
    by (auto simp: id le_Suc_eq)
  from snapshot_fences_stale_writers [OF ex_store_reachable ok this] ok
  show ?thesis by (auto simp: id max_i64_def)
qed

subsection \<open>Conversation numbers\<close>

definition conversations_within :: "int \<Rightarrow> memory_store \<Rightarrow> bool" where
  "conversations_within n s \<longleftrightarrow> all_conversations_ok s \<and> (\<forall>sc. stored_high_water s sc \<le> n)"

lemma conversation_tables_rows:
  "conversation_tables s' = conversation_tables s \<Longrightarrow>
   conversation s' sc = conversation s sc \<and> stored_high_water s' sc = stored_high_water s sc"
  by (simp add: conversation_tables_def stored_high_water_def)

text \<open>What one step may do to the conversation of a project.\<close>

definition conversation_effect :: "store_op \<Rightarrow> memory_store \<Rightarrow> memory_store \<Rightarrow> scope \<Rightarrow> bool" where
  "conversation_effect a s s' sc \<longleftrightarrow>
     (stored_high_water s' sc = stored_high_water s sc \<and> (\<exists>P. conversation s' sc = filter P (conversation s sc))) \<or>
     (a = OpDeleteProject sc \<and> stored_high_water s' sc = 0 \<and> conversation s' sc = []) \<or>
     (\<exists>it. stored_high_water s' sc = stored_high_water s sc + 1 \<and> itm_Sequence it = stored_high_water s' sc \<and>
        conversation s' sc = conversation s sc @ [it] \<and> find_item it (conversation s sc) = None)"

lemma conversation_effect_same:
  assumes "conversation s' sc = conversation s sc" "stored_high_water s' sc = stored_high_water s sc"
  shows "conversation_effect a s s' sc"
proof -
  have "conversation s sc = filter (\<lambda>_. True) (conversation s sc)" by simp
  then show ?thesis using assms unfolding conversation_effect_def by metis
qed

lemma conversation_effect_tables: "conversation_tables s' = conversation_tables s \<Longrightarrow> conversation_effect a s s' sc"
  using conversation_tables_rows by (intro conversation_effect_same) blast+

lemma conversation_effect_core: "core_tables s' = core_tables s \<Longrightarrow> conversation_effect a s s' sc"
  by (rule conversation_effect_tables) (simp add: core_tables_def)

lemmas run_ops_conversation_effect = run_ops_conversation [THEN conversation_effect_tables]
lemmas project_ops_conversation_effect = project_ops_core [THEN conversation_effect_core]

lemma AppendAssistantConversationItem_effect:
  assumes "conversation_ok (stored_high_water s sc) (conversation s sc)" "stored_high_water s sc < max_i64"
  shows "conversation_effect a s (snd (AppendAssistantConversationItem now sc it s)) sc'"
proof (cases "fst (AppendAssistantConversationItem now sc it s)")
  case (Inl e)
  then have "snd (AppendAssistantConversationItem now sc it s) = s"
    by (auto simp: AppendAssistantConversationItem_def Let_def split: sum.splits option.splits if_splits)
  then show ?thesis by (simp add: conversation_effect_same)
next
  case (Inr r)
  then have op: "AppendAssistantConversationItem now sc it s = (Inr r, snd (AppendAssistantConversationItem now sc it s))"
    by (metis prod.collapse)
  show ?thesis
  proof (cases rule: AppendAssistantConversationItem_cases [OF op assms])
    case (2 p)
    show ?thesis
    proof (cases "sc' = sc")
      case True
      then show ?thesis
        unfolding conversation_effect_def by (intro disjI2 exI [of _ r]) (simp add: 2(2-4))
    qed (simp add: conversation_effect_same 2(4))
  qed (simp add: conversation_effect_same)
qed

lemma exec_conversation_effect:
  assumes "store_inv s" "conversations_within n s" "n < max_i64"
  shows "conversation_effect a s (exec a s) sc"
proof -
  have ok: "threads_ok s" "maps_ok s" using assms(1) by (simp_all add: store_inv_def)
  show ?thesis
  proof (cases "is_thread_op a")
    case True
    note other_rows_cong [OF conjunct2 [OF thread_op_effect [OF True ok(1)]]]
    then show ?thesis by (intro conversation_effect_same) (simp_all add: stored_high_water_def)
  next
    case False
    then show ?thesis
    proof (cases a)
      case (OpAppendItem now sc0 it)
      then show ?thesis
        using AppendAssistantConversationItem_effect [of s sc0 a now it sc] assms(2,3)
        by (simp add: conversations_within_def all_conversations_ok_def) (metis order_le_less_trans)
    next
      case (OpDeleteProject sc0)
      then show ?thesis
      proof (cases rule: delete_project_cases [of sc0 s])
        case 2
        show ?thesis
        proof (cases "sc = sc0")
          case True
          then show ?thesis using OpDeleteProject 2
            by (simp add: conversation_effect_def DeleteProjectMessages_def stored_high_water_def)
        next
          case False
          then show ?thesis using OpDeleteProject 2
            by (intro conversation_effect_same) (simp_all add: DeleteProjectMessages_def stored_high_water_def)
        qed
      qed (simp add: conversation_effect_same)
    next
      case (OpDeleteOld before)
      obtain k s' where op: "DeleteMessagesOlderThan before s = (k, s')" by fastforce
      have "conversation s' sc = filter (\<lambda>it. itm_RunID it \<notin> expired_runs before (project_runs s sc)) (conversation s sc)"
        using DeleteMessagesOlderThan_rows(2) [OF op ok(2,1), of sc] by (simp add: run_rows_def sweep_runs_def drop_runs_def)
      moreover have "stored_high_water s' sc = stored_high_water s sc"
        using DeleteMessagesOlderThan_rows(4) [OF op ok(2,1)] by (simp add: stored_high_water_def)
      ultimately show ?thesis using OpDeleteOld op unfolding conversation_effect_def by auto
    next
      case (OpDeleteThread sc0 i x)
      show ?thesis
      proof (cases rule: delete_thread_cases [of sc0 i x s])
        case (2 s')
        note d = DeleteAssistantThread_success(9,10) [OF 2 refl]
        have "stored_high_water s' sc = stored_high_water s sc" by (simp add: stored_high_water_def d)
        moreover have "\<exists>P. conversation s' sc = filter P (conversation s sc)"
          unfolding d(1) by (cases "sc = sc0") (auto intro: exI [of _ "\<lambda>_. True"])
        ultimately show ?thesis using OpDeleteThread 2 unfolding conversation_effect_def by simp
      qed (simp add: OpDeleteThread conversation_effect_same)
    qed (simp_all add: run_ops_conversation_effect project_ops_conversation_effect
        RequestAssistantRunStopWithAssistantMessage_def)
  qed
qed

lemma exec_conversations:
  assumes "store_inv s" "conversations_within n s" "n < max_i64"
  shows "conversations_within (n + 1) (exec a s)"
proof -
  have ok: "conversation_ok (stored_high_water s sc) (conversation s sc)" "stored_high_water s sc \<le> n" for sc
    using assms(2) by (simp_all add: conversations_within_def all_conversations_ok_def)
  have "conversation_ok (stored_high_water (exec a s) sc) (conversation (exec a s) sc) \<and>
      stored_high_water (exec a s) sc \<le> n + 1" for sc
    using exec_conversation_effect [OF assms, of a sc] unfolding conversation_effect_def
  proof (elim disjE conjE exE)
    fix P assume "stored_high_water (exec a s) sc = stored_high_water s sc" "conversation (exec a s) sc = filter P (conversation s sc)"
    then show ?thesis using ok [of sc] by (simp add: conversation_ok_filter)
  next
    assume "stored_high_water (exec a s) sc = 0" "conversation (exec a s) sc = []"
    moreover have "0 \<le> n" using ok [of sc] by (simp add: conversation_ok_def)
    ultimately show ?thesis by (simp add: conversation_ok_def max_i64_def)
  next
    fix it assume "stored_high_water (exec a s) sc = stored_high_water s sc + 1" "itm_Sequence it = stored_high_water (exec a s) sc"
      "conversation (exec a s) sc = conversation s sc @ [it]" "find_item it (conversation s sc) = None"
    then show ?thesis using ok [of sc] assms(3) by (simp add: conversation_ok_snoc)
  qed
  then show ?thesis by (simp add: conversations_within_def all_conversations_ok_def)
qed

lemma exec_high_water_mono:
  assumes "store_inv s" "conversations_within n s" "n < max_i64" "a \<noteq> OpDeleteProject sc"
  shows "stored_high_water s sc \<le> stored_high_water (exec a s) sc"
  using exec_conversation_effect [OF assms(1-3), of a sc] assms(4) by (auto simp: conversation_effect_def)

lemma exec_all_conversations:
  assumes "store_inv s" "conversations_within n s" "n + int (length as) \<le> max_i64"
  shows "store_inv (fold exec as s) \<and> conversations_within (n + int (length as)) (fold exec as s) \<and>
    (OpDeleteProject sc \<notin> set as \<longrightarrow> stored_high_water s sc \<le> stored_high_water (fold exec as s) sc)"
  using assms
proof (induction as arbitrary: s n)
  case (Cons a as)
  have n: "n < max_i64" using Cons.prems(3) by simp
  have "store_inv (fold exec as (exec a s)) \<and> conversations_within (n + 1 + int (length as)) (fold exec as (exec a s)) \<and>
    (OpDeleteProject sc \<notin> set as \<longrightarrow> stored_high_water (exec a s) sc \<le> stored_high_water (fold exec as (exec a s)) sc)"
    by (rule Cons.IH [OF store_inv_exec [OF Cons.prems(1)] exec_conversations [OF Cons.prems(1,2) n]]) (use Cons.prems(3) in simp)
  then show ?case
    using exec_high_water_mono [OF Cons.prems(1,2) n, of a sc] by (auto simp: add.assoc)
qed simp

text \<open>A conversation number is never used twice while the project exists: after any
  \<open>n\<close> operations and then any further ones that do not delete the project, at most as many together
  as an \<open>int64\<close> counts, a new item gets a number above that of every item that was in the
  conversation after the first \<open>n\<close>, also of those that retention or a thread's deletion has removed
  since.\<close>

theorem conversation_numbers_never_reused:
  assumes "int (length before + length later) < max_i64" "OpDeleteProject sc \<notin> set later"
    and "s1 = fold exec before NewMemoryStore" "s2 = fold exec later s1"
    and "AppendAssistantConversationItem now sc item s2 = (Inr it, s3)" "it \<notin> set (conversation s2 sc)"
  shows "\<forall>old \<in> set (conversation s1 sc). itm_Sequence old < itm_Sequence it"
proof -
  have init: "conversations_within 0 NewMemoryStore"
    by (simp add: conversations_within_def all_conversations_ok_def conversation_ok_def NewMemoryStore_def
        stored_high_water_def max_i64_def)
  have "0 + int (length before) \<le> max_i64" using assms(1) by simp
  from exec_all_conversations [OF store_inv_New init this, of sc]
  have s1: "store_inv s1" "conversations_within (int (length before)) s1" by (simp_all add: assms(3))
  have "int (length before) + int (length later) \<le> max_i64" using assms(1) by simp
  from exec_all_conversations [OF s1 this, of sc]
  have s2: "conversations_within (int (length before) + int (length later)) s2"
    "stored_high_water s1 sc \<le> stored_high_water s2 sc"
    using assms(2) by (simp_all add: assms(4))
  have "all_conversations_ok s2" "stored_high_water s2 sc < max_i64"
    using s2(1) assms(1) order_le_less_trans by (auto simp: conversations_within_def)
  from conversation_item_fresh [OF this assms(5,6)] have "itm_Sequence it = stored_high_water s2 sc + 1" .
  moreover have "\<forall>old \<in> set (conversation s1 sc). itm_Sequence old \<le> stored_high_water s1 sc"
    using s1(2) by (simp add: conversations_within_def all_conversations_ok_def conversation_ok_def)
  ultimately show ?thesis using s2(2) by fastforce
qed

definition ex_before :: "store_op list" where
  "ex_before = [OpAppendItem 9 ex_scope (ex_item ''i'' ''r1'' ''{}'')]"

definition ex_later :: "store_op list" where
  "ex_later = [OpDeleteOld 50]"

theorem conversation_numbers_never_reused_witness:
  "\<exists>it s3. AppendAssistantConversationItem 60 ex_scope (ex_item ''j'' ''r2'' ''{}'')
       (fold exec ex_later (fold exec ex_before NewMemoryStore)) = (Inr it, s3) \<and>
     (\<forall>old \<in> set (conversation (fold exec ex_before NewMemoryStore) ex_scope). itm_Sequence old < itm_Sequence it)"
proof -
  let ?s2 = "fold exec ex_later (fold exec ex_before NewMemoryStore)"
  let ?r = "AppendAssistantConversationItem 60 ex_scope (ex_item ''j'' ''r2'' ''{}'') ?s2"
  have "\<not> isl (fst ?r)" by code_simp
  then have it: "?r = (Inr (projr (fst ?r)), snd ?r)" by (metis prod.collapse sum.collapse(2))
  have new: "projr (fst ?r) \<notin> set (conversation ?s2 ex_scope)" by code_simp
  have few: "int (length ex_before + length ex_later) < max_i64" by (simp add: ex_before_def ex_later_def max_i64_def)
  have kept: "OpDeleteProject ex_scope \<notin> set ex_later" by (simp add: ex_later_def)
  from conversation_numbers_never_reused [OF few kept refl refl it new] it show ?thesis by blast
qed

subsection \<open>Projects do not touch each other\<close>

text \<open>The project an operation names; a retention sweep and the operations on replica claims name
  none.\<close>

fun op_scope :: "store_op \<Rightarrow> scope option" where
  "op_scope (OpAppendMessage now sc m) = Some sc" | "op_scope (OpSaveRun now sc r) = Some sc"
| "op_scope (OpCreateRun now sc u a r) = Some sc" | "op_scope (OpRequestStop clock sc i n m now) = Some sc"
| "op_scope (OpSnapshot now sc r ms n) = Some sc" | "op_scope (OpClaimRun clock sc i q now) = Some sc"
| "op_scope (OpAppendRunEvent now sc e n) = Some sc" | "op_scope (OpAppendItem now sc it) = Some sc"
| "op_scope (OpDeleteProject sc) = Some sc" | "op_scope (OpDeleteOld before) = None"
| "op_scope (OpCreateThread now sc t es) = Some sc" | "op_scope (OpUpdateThread now sc t) = Some sc"
| "op_scope (OpSetTitle now sc i a t e) = Some sc" | "op_scope (OpDeleteThread sc i a) = Some sc"
| "op_scope (OpUpdateThreadEvent now sc t e n) = Some sc" | "op_scope (OpCreateTurn now sc u es) = Some sc"
| "op_scope (OpSaveTurn now sc u) = Some sc" | "op_scope (OpSaveTurnEvent now sc u e n) = Some sc"
| "op_scope (OpAppendThreadEvent now sc e n) = Some sc" | "op_scope (OpCreatePermit sc a d) = Some sc"
| "op_scope (OpConsumePermit sc a d c) = Some sc" | "op_scope (OpSetPreference now sc p) = Some sc"
| "op_scope (OpPutThumbnail sc t) = Some sc" | "op_scope (OpDeleteThumbnail sc) = Some sc"
| "op_scope (OpClaim ttl a) = None"

text \<open>Everything the store holds of a project.\<close>

definition project_rows where
  "project_rows s sc =
     ((project_threads s sc, inner (assistantTurns s) sc, inner (threadEvents s) sc),
      (project_messages s sc, project_runs s sc, inner (assistantEvents s) sc),
      (conversation s sc, map_of (conversationSequences s) sc),
      (inner (approvalModes s) sc, map_of (bootstrapPermits s) sc, map_of (projectThumbnails s) sc))"

lemma thread_step_rows:
  assumes "thread_step sc s r s'" "sc' \<noteq> sc"
  shows "project_rows s' sc' = project_rows s sc'"
  using assms other_rows_cong [of s' s] by (simp add: thread_step_def project_rows_def)

lemmas thread_steps_rows = thread_steps [THEN thread_step_rows]

lemma run_ops_rows:
  assumes "sc' \<noteq> sc"
  shows "project_rows (snd (AppendMessage now sc m s)) sc' = project_rows s sc'"
    "project_rows (snd (SaveAssistantRun now sc r s)) sc' = project_rows s sc'"
    "project_rows (snd (CreateAssistantRun now sc u a r s)) sc' = project_rows s sc'"
    "project_rows (snd (requestAssistantRunStop clock sc i n m now s)) sc' = project_rows s sc'"
    "project_rows (snd (SaveAssistantRunSnapshot now sc r ms n s)) sc' = project_rows s sc'"
    "project_rows (snd (ClaimAssistantRun clock sc i q now s)) sc' = project_rows s sc'"
    "project_rows (snd (AppendAssistantRunEvent now sc e n s)) sc' = project_rows s sc'"
    "project_rows (snd (AppendAssistantConversationItem now sc it s)) sc' = project_rows s sc'"
    "project_rows (snd (DeleteProjectMessages sc s)) sc' = project_rows s sc'"
  using assms
  by (simp_all add: project_rows_def AppendMessage_def SaveAssistantRun_def CreateAssistantRun_def
      requestAssistantRunStop_def SaveAssistantRunSnapshot_def ClaimAssistantRun_def AppendAssistantRunEvent_def
      AppendAssistantConversationItem_def DeleteProjectMessages_def store_run_def Let_def
      split: sum.split option.split prod.split)

lemma project_ops_rows:
  assumes "sc' \<noteq> sc"
  shows "project_rows (snd (CreateProjectBootstrapPermit sc a d s)) sc' = project_rows s sc'"
    "project_rows (snd (ConsumeProjectBootstrapPermit sc a d c s)) sc' = project_rows s sc'"
    "project_rows (snd (SetAssistantApprovalPreference now sc p s)) sc' = project_rows s sc'"
    "project_rows (snd (PutProjectThumbnail sc t s)) sc' = project_rows s sc'"
    "project_rows (snd (DeleteProjectThumbnail sc s)) sc' = project_rows s sc'"
  using assms
  by (simp_all add: project_rows_def CreateProjectBootstrapPermit_def ConsumeProjectBootstrapPermit_def
      SetAssistantApprovalPreference_def PutProjectThumbnail_def DeleteProjectThumbnail_def Let_def
      split: sum.split option.split)

lemma delete_thread_rows:
  assumes "sc' \<noteq> sc"
  shows "project_rows (snd (DeleteAssistantThread sc i a s)) sc' = project_rows s sc'"
proof (cases rule: delete_thread_cases [of sc i a s])
  case (2 s')
  show ?thesis
    using assms by (simp add: 2 project_rows_def DeleteAssistantThread_success(3-14) [OF 2 refl])
qed simp

lemma claim_step_rows: "project_rows (claim_step ttl a s) sc = project_rows s sc"
  by (cases a) (auto simp: project_rows_def TryClaimReplica_def RenewReplicaClaim_def ReleaseReplicaClaim_def
      BumpReplicaClaimRevision_def Let_def split: option.split)

text \<open>An operation of one project leaves everything the store holds of every other
  project as it is, and an operation on a replica claim leaves every project as it is; the project
  is the whole scope, so that a project that is deleted and made again under its old name does not
  meet the rows of its predecessor.\<close>

theorem operations_keep_other_projects:
  assumes "reachable s" "op_scope a = Some sc \<and> sc' \<noteq> sc \<or> (\<exists>ttl x. a = OpClaim ttl x)"
  shows "project_rows (exec a s) sc' = project_rows s sc'"
proof -
  have "threads_ok s" using reachable_inv [OF assms(1)] by (simp add: store_inv_def)
  then show ?thesis
    using assms(2)
    by (cases a) (auto simp: thread_steps_rows run_ops_rows project_ops_rows delete_thread_rows claim_step_rows
        RequestAssistantRunStopWithAssistantMessage_def)
qed

theorem operations_keep_other_projects_witness:
  "project_rows (exec (OpDeleteProject ex_scope) ex_store) (ex_scope\<lparr>sc_ProjectUID := ''new''\<rparr>) =
   project_rows ex_store (ex_scope\<lparr>sc_ProjectUID := ''new''\<rparr>)"
proof -
  have "ex_scope\<lparr>sc_ProjectUID := ''new''\<rparr> \<noteq> ex_scope" by (simp add: ex_scope_def)
  then show ?thesis by (intro operations_keep_other_projects [OF ex_store_reachable]) simp
qed

end
