(* ===== verification/Agents_Types.thy ===== *)
theory Agents_Types
  imports Go_Paging Go_Text
begin

section \<open>Agents store: data, errors and keys\<close>

text \<open>
  The data model of \<open>providers/agents/store\<close> (\<open>store.go\<close> and the state of \<open>memory.go\<close>): the
  records, the scope checks, the cursor codec, the accounting window, and the string keys the
  in-memory backend builds from a scope. A struct is a record whose fields carry a short prefix; a
  pointer is an option.
\<close>

subsection \<open>Scopes, errors and cursors\<close>

record agent_scope =
  asc_OrgUUID :: string
  asc_WorkspaceUUID :: string
  asc_AgentName :: string

text \<open>The store has no sentinel errors: a constructor per \<open>fmt.Errorf\<close>.\<close>

datatype agents_error =
    AgentsScopeIncomplete | AgentsAgentNameRequired | AgentsSessionIDRequired
  | AgentsCreatedAtRequired | AgentsRunIDRequired | AgentsRunNotFound | AgentsRunClaimed
  | AgentsMemoryIDRequired | AgentsInboxIDRequired | AgentsInboxNotFound
  | AgentsClusterIDRequired | AgentsCursorBase64 | AgentsCursorJSON | AgentsCursorIncomplete

type_synonym 'a ares = "(agents_error, 'a) res"

definition agents_validate :: "agent_scope \<Rightarrow> unit ares" where
  "agents_validate s = guard_res AgentsScopeIncomplete (\<not> (blank (asc_OrgUUID s) \<or> blank (asc_WorkspaceUUID s)))"

definition withAgent :: "agent_scope \<Rightarrow> unit ares" where
  "withAgent s =
     (case agents_validate s of Inl e \<Rightarrow> Inl e | Inr _ \<Rightarrow>
      guard_res AgentsAgentNameRequired (\<not> blank (asc_AgentName s)))"

definition agents_encodeCursor :: "gotime \<Rightarrow> string \<Rightarrow> cursor" where
  "agents_encodeCursor createdAt i = cursor_encoding createdAt i"

definition agents_decodeCursor :: "cursor \<Rightarrow> (gotime \<times> string) ares" where
  "agents_decodeCursor raw =
     (case raw of
        BlankCursor \<Rightarrow> Inr (0, [])
      | NotBase64 \<Rightarrow> Inl AgentsCursorBase64
      | NotPayload \<Rightarrow> Inl AgentsCursorJSON
      | CursorPayload t i \<Rightarrow> if t = 0 \<or> blank i then Inl AgentsCursorIncomplete else Inr (t, i))"

lemma agents_decodeCursor_safe: "cursor_safe t i \<Longrightarrow> agents_decodeCursor (agents_encodeCursor t i) = Inr (t, i)"
  by (simp add: agents_encodeCursor_def cursor_encoding_safe agents_decodeCursor_def cursor_safe_def)

subsection \<open>Records\<close>

record agent_message =
  amsg_ID :: string
  amsg_AgentName :: string
  amsg_SessionID :: string
  amsg_RunID :: string
  amsg_Role :: string
  amsg_Content :: string
  amsg_ContentEncrypted :: bool
  amsg_ContentKeyID :: string
  amsg_Metadata :: "(string, json) gomap"
  amsg_CreatedAt :: gotime

definition run_phases :: "string list" where
  "run_phases = [''Pending'', ''Running'', ''PendingApproval'', ''Succeeded'', ''Failed'', ''Aborted'']"

record run_delivery =
  rdl_SourceName :: string
  rdl_ReplyTarget :: string
  rdl_NotifyChannel :: string
  rdl_Kind :: string

record agent_run =
  arun_ID :: string
  arun_AgentName :: string
  arun_SessionID :: string
  arun_Trigger :: string
  arun_ParentRunID :: string
  arun_Phase :: string
  arun_Attempt :: int
  arun_Input :: string
  arun_Output :: string
  arun_Sources :: "string list"
  arun_IdempotencyKey :: string
  arun_Delivery :: "run_delivery option"
  arun_Message :: string
  arun_Checkpoint :: string
  arun_InputTokens :: int
  arun_OutputTokens :: int
  arun_USDMicros :: int
  arun_CreatedAt :: gotime
  arun_UpdatedAt :: gotime
  arun_StartedAt :: "gotime option"
  arun_FinishedAt :: "gotime option"

record session_summary =
  ssum_SessionID :: string
  ssum_Summary :: string
  ssum_ThroughAt :: gotime
  ssum_MessageCount :: int
  ssum_CreatedAt :: gotime
  ssum_UpdatedAt :: gotime

record agent_memory =
  amem_ID :: string
  amem_AgentName :: string
  amem_Title :: string
  amem_Body :: string
  amem_ContentEncrypted :: bool
  amem_ContentKeyID :: string
  amem_CreatedAt :: gotime
  amem_UpdatedAt :: gotime

record inbox_item =
  ibx_ID :: string
  ibx_AgentName :: string
  ibx_RunID :: string
  ibx_Kind :: string
  ibx_State :: string
  ibx_Prompt :: string
  ibx_Payload :: "(string, json) gomap"
  ibx_Response :: string
  ibx_CreatedAt :: gotime
  ibx_UpdatedAt :: gotime

record tool_call =
  tc_ID :: string
  tc_AgentName :: string
  tc_RunID :: string
  tc_Trigger :: string
  tc_Tool :: string
  tc_Args :: string
  tc_Result :: string
  tc_Outcome :: string
  tc_Error :: string
  tc_DurationMS :: int
  tc_CreatedAt :: gotime

record usage_row =
  usg_AgentName :: string
  usg_WindowStart :: gotime
  usg_InputTokens :: int
  usg_OutputTokens :: int
  usg_USDMicros :: int
  usg_UpdatedAt :: gotime

record run_query =
  rq_Phase :: string
  rq_Trigger :: string
  rq_SessionID :: string
  rq_ParentRunID :: string
  rq_Limit :: int
  rq_Cursor :: cursor

record agent_session =
  ses_ID :: string
  ses_Preview :: string
  ses_MessageCount :: int
  ses_CreatedAt :: gotime
  ses_LastActivity :: gotime

record tenant_ref =
  tnt_OrgUUID :: string
  tnt_WorkspaceUUID :: string
  tnt_UpdatedAt :: gotime

record agents_store =
  ag_messages :: "(string, agent_message list) gomap"
  ag_runs :: "(string, agent_run) gomap"
  ag_memories :: "(string, agent_memory) gomap"
  ag_inbox :: "(string, inbox_item) gomap"
  ag_toolCalls :: "(string, tool_call list) gomap"
  ag_usage :: "(string, usage_row) gomap"
  ag_tenants :: "(string, tenant_ref) gomap"
  ag_summaries :: "(string, session_summary) gomap"
  ag_runScopes :: "(string, agent_scope) gomap"

definition agents_NewMemoryStore :: agents_store where
  "agents_NewMemoryStore = \<lparr>ag_messages = [], ag_runs = [], ag_memories = [], ag_inbox = [],
     ag_toolCalls = [], ag_usage = [], ag_tenants = [], ag_summaries = [], ag_runScopes = []\<rparr>"

subsection \<open>The preview of a session\<close>

text \<open>\<open>strings.Fields\<close>: \<open>w\<close> is the field being read, reversed.\<close>

function fields_from :: "string \<Rightarrow> string \<Rightarrow> string list" where
  "fields_from w s =
     (if s = [] then (if w = [] then [] else [rev w])
      else if space_at s = 0 then fields_from (hd s # w) (tl s)
      else (if w = [] then [] else [rev w]) @ fields_from [] (drop (space_at s) s))"
  by pat_completeness auto
termination
  by (relation "measure (\<lambda>(w, s). length s)") auto

declare fields_from.simps [simp del]

fun join_with :: "string \<Rightarrow> string list \<Rightarrow> string" where
  "join_with sep [] = []"
| "join_with sep [x] = x"
| "join_with sep (x # y # xs) = x @ sep @ join_with sep (y # xs)"

text \<open>\<open>[]rune(s)\<close>, each rune as the bytes it is written back with.\<close>

function runes :: "string \<Rightarrow> string list" where
  "runes s =
     (if s = [] then []
      else if rune_width s = 0 then replacement # runes (tl s)
      else take (rune_width s) s # runes (drop (rune_width s) s))"
  by pat_completeness auto
termination
  by (relation "measure length") auto

declare runes.simps [simp del]

definition sessionPreviewMax :: nat where "sessionPreviewMax = 80"

definition previewText :: "string \<Rightarrow> string" where
  "previewText s0 =
     (let s = join_with '' '' (fields_from [] s0); r = runes s
      in if length r > sessionPreviewMax
         then concat (take sessionPreviewMax r) @ [CHR 0xE2, CHR 0x80, CHR 0xA6] else s)"

lemma previewText_samples:
  "previewText (''  a'' @ [CHR 0x0A] @ ''b c '') = ''a b c''"
  "previewText (replicate 81 CHR ''x'') = replicate 80 CHR ''x'' @ [CHR 0xE2, CHR 0x80, CHR 0xA6]"
  by code_simp+

subsection \<open>Accounting windows\<close>

definition day_ns :: int where "day_ns = 86400 * 10 ^ 9"

definition windowStart :: "gotime \<Rightarrow> duration \<Rightarrow> gotime" where
  "windowStart now window0 =
     (let window = (if window0 \<le> 0 then 30 * day_ns else window0) in now - now mod window)"

text \<open>\<open>Time.Unix\<close> counts seconds from 1970.\<close>

definition unix_seconds :: "gotime \<Rightarrow> int" where
  "unix_seconds t = t div 10 ^ 9 - 62135596800"

subsection \<open>Keys\<close>

definition tenantKey :: "agent_scope \<Rightarrow> string" where
  "tenantKey s = asc_OrgUUID s @ ''|'' @ asc_WorkspaceUUID s"

definition sessionKey :: "agent_scope \<Rightarrow> string \<Rightarrow> string" where
  "sessionKey s session = tenantKey s @ ''|'' @ asc_AgentName s @ ''|'' @ session"

definition row_key :: "agent_scope \<Rightarrow> string \<Rightarrow> string" where
  "row_key s i = tenantKey s @ ''|'' @ i"

definition usage_key :: "agent_scope \<Rightarrow> string \<Rightarrow> gotime \<Rightarrow> string" where
  "usage_key s agent ws = tenantKey s @ ''|'' @ agent @ ''|'' @ show_int (unix_seconds ws)"

text \<open>A name without the separator: what Kubernetes admits as a name, and every UUID.\<close>

definition no_bar :: "string \<Rightarrow> bool" where
  "no_bar s \<longleftrightarrow> CHR ''|'' \<notin> set s"

lemma split_at_bar:
  assumes "no_bar a" "no_bar b"
  shows "a @ CHR ''|'' # r = b @ CHR ''|'' # t \<longleftrightarrow> a = b \<and> r = t"
  using assms by (auto simp: no_bar_def append_eq_append_conv2 append_eq_Cons_conv Cons_eq_append_conv)

definition tenant_ok :: "agent_scope \<Rightarrow> bool" where
  "tenant_ok s \<longleftrightarrow> no_bar (asc_OrgUUID s) \<and> no_bar (asc_WorkspaceUUID s)"

definition same_tenant :: "agent_scope \<Rightarrow> agent_scope \<Rightarrow> bool" where
  "same_tenant s t \<longleftrightarrow> asc_OrgUUID s = asc_OrgUUID t \<and> asc_WorkspaceUUID s = asc_WorkspaceUUID t"

lemma same_tenant_refl [simp]: "same_tenant s s"
  by (simp add: same_tenant_def)

lemma tenantKey_same: "same_tenant s t \<Longrightarrow> tenantKey s = tenantKey t"
  by (simp add: same_tenant_def tenantKey_def)

lemma row_key_inject:
  "tenant_ok s \<Longrightarrow> tenant_ok t \<Longrightarrow> row_key s i = row_key t j \<longleftrightarrow> same_tenant s t \<and> i = j"
  by (auto simp: row_key_def tenantKey_def tenant_ok_def same_tenant_def split_at_bar)

lemma row_key_same [simp]: "row_key s i = row_key s j \<longleftrightarrow> i = j"
  by (simp add: row_key_def)

lemma row_key_prefix:
  "tenant_ok s \<Longrightarrow> tenant_ok t \<Longrightarrow> hasPrefix (row_key s i) (tenantKey t @ ''|'') \<longleftrightarrow> same_tenant s t"
  by (auto simp: hasPrefix_iff row_key_def tenantKey_def tenant_ok_def same_tenant_def split_at_bar)

lemma sessionKey_row: "sessionKey s x = row_key s (asc_AgentName s @ ''|'' @ x)"
  by (simp add: sessionKey_def row_key_def)

lemma usage_key_row: "usage_key s a ws = row_key s (a @ ''|'' @ show_int (unix_seconds ws))"
  by (simp add: usage_key_def row_key_def)

lemma sessionKey_inject:
  assumes "tenant_ok s" "tenant_ok t" "no_bar (asc_AgentName s)" "no_bar (asc_AgentName t)"
  shows "sessionKey s x = sessionKey t y \<longleftrightarrow> s = t \<and> x = y"
proof -
  have "s = t" if "same_tenant s t" "asc_AgentName s = asc_AgentName t"
    using that by (simp add: same_tenant_def)
  then show ?thesis using assms by (auto simp: sessionKey_row row_key_inject split_at_bar)
qed

end
