(* ===== verification/Agents_Store.thy ===== *)
theory Agents_Store
  imports Agents_Types
begin

section \<open>Agents store: the operations of the in-memory backend\<close>

text \<open>
  The methods of \<open>MemoryStore\<close> in \<open>providers/agents/store/memory.go\<close>. Every map is keyed by a
  string that starts with the tenant (\<open>row_key\<close>, \<open>sessionKey\<close>), and a listing walks the
  whole map and keeps the keys with the tenant's prefix. \<open>sort.Slice\<close> is a sort by a key; where
  keys can be equal its order among them is the order of the map, which is arbitrary anyway.
\<close>

definition agents_limit :: "int \<Rightarrow> int \<Rightarrow> int \<Rightarrow> nat" where
  "agents_limit fallback cap limit = nat (if limit \<le> 0 \<or> limit > cap then fallback else limit)"

lemma agents_limit_pos: "0 < d \<Longrightarrow> 0 < agents_limit d m l"
  by (simp add: agents_limit_def)

text \<open>\<open>sort.Slice(x, newest first)\<close>: the sort by a key in descending order.\<close>

definition sort_desc :: "('a \<Rightarrow> 'k :: linorder) \<Rightarrow> 'a list \<Rightarrow> 'a list" where
  "sort_desc f xs = rev (sort_key f (rev xs))"

lemma sort_desc_mset [simp]: "mset (sort_desc f xs) = mset xs"
  by (simp add: sort_desc_def)

lemma sort_desc_set [simp]: "set (sort_desc f xs) = set xs"
  by (simp add: sort_desc_def)

lemma sort_desc_length [simp]: "length (sort_desc f xs) = length xs"
  by (simp add: sort_desc_def)

lemma sort_desc_sorted: "sorted (map f (rev (sort_desc f xs)))"
  by (simp add: sort_desc_def)

subsection \<open>Messages and sessions\<close>

definition agents_AppendMessage :: "agent_scope \<Rightarrow> agent_message \<Rightarrow> agents_store \<Rightarrow> unit ares \<times> agents_store" where
  "agents_AppendMessage scope msg s =
     (case withAgent scope of Inl e \<Rightarrow> (Inl e, s) | Inr _ \<Rightarrow>
      (let k = sessionKey scope (amsg_SessionID msg) in
       if amsg_CreatedAt msg = 0 then (Inl AgentsCreatedAtRequired, s)
       else (Inr (), s\<lparr>ag_messages := mput k (inner (ag_messages s) k @ [msg]) (ag_messages s)\<rparr>)))"

definition amsg_key :: "agent_message \<Rightarrow> gotime \<times> string" where
  "amsg_key m = (amsg_CreatedAt m, amsg_ID m)"

text \<open>The loop that skips what is not before the cursor and stops when the page is full, and the
  cursor of a full page.\<close>

definition page_before ::
  "('a \<Rightarrow> gotime) \<Rightarrow> ('a \<Rightarrow> string) \<Rightarrow> gotime \<Rightarrow> string \<Rightarrow> nat \<Rightarrow> 'a list \<Rightarrow> 'a list \<times> cursor" where
  "page_before created ident before beforeID limit all =
     (let out = take_matching (\<lambda>x. \<not> (before \<noteq> 0 \<and>
            (created x > before \<or> (created x = before \<and> ident x \<ge> beforeID)))) limit all
      in (out, if length out = limit then agents_encodeCursor (created (last out)) (ident (last out))
               else BlankCursor))"

definition agents_ListMessages ::
  "agent_scope \<Rightarrow> string \<Rightarrow> int \<Rightarrow> cursor \<Rightarrow> agents_store \<Rightarrow> (agent_message list \<times> cursor) ares" where
  "agents_ListMessages scope sessionID limit0 c s =
     (case withAgent scope of Inl e \<Rightarrow> Inl e | Inr _ \<Rightarrow>
      case agents_decodeCursor c of Inl e \<Rightarrow> Inl e | Inr (before, beforeID) \<Rightarrow>
      (let limit = agents_limit 100 500 limit0;
           all = sort_desc amsg_key (inner (ag_messages s) (sessionKey scope sessionID))
       in Inr (page_before amsg_CreatedAt amsg_ID before beforeID limit all)))"

definition agents_LoadRecentMessages ::
  "agent_scope \<Rightarrow> string \<Rightarrow> int \<Rightarrow> agents_store \<Rightarrow> agent_message list ares" where
  "agents_LoadRecentMessages scope sessionID limit0 s =
     (case withAgent scope of Inl e \<Rightarrow> Inl e | Inr _ \<Rightarrow>
      (let limit = agents_limit 50 500 limit0;
           all = sort_key amsg_key (inner (ag_messages s) (sessionKey scope sessionID))
       in Inr (if length all > limit then drop (length all - limit) all else all)))"

definition session_of :: "string \<Rightarrow> agent_message list \<Rightarrow> agent_session" where
  "session_of i msgs =
     (let cp = sort_key amsg_key msgs in
      \<lparr>ses_ID = i,
       ses_Preview = (case find (\<lambda>m. amsg_Role m = ''user'' \<and> \<not> amsg_ContentEncrypted m) cp of
                        Some m \<Rightarrow> previewText (amsg_Content m) | None \<Rightarrow> []),
       ses_MessageCount = int (length cp),
       ses_CreatedAt = amsg_CreatedAt (hd cp), ses_LastActivity = amsg_CreatedAt (last cp)\<rparr>)"

definition agents_ListSessions :: "agent_scope \<Rightarrow> int \<Rightarrow> agents_store \<Rightarrow> agent_session list ares" where
  "agents_ListSessions scope limit0 s =
     (case withAgent scope of Inl e \<Rightarrow> Inl e | Inr _ \<Rightarrow>
      (let limit = agents_limit 100 500 limit0;
           prefix = tenantKey scope @ ''|'' @ asc_AgentName scope @ ''|'';
           rows = filter (\<lambda>(k, msgs). hasPrefix k prefix \<and> length msgs \<noteq> 0) (ag_messages s);
           out = map (\<lambda>(k, msgs). session_of (drop (length prefix) k) msgs) rows
       in Inr (take limit (sort_desc ses_LastActivity out))))"

definition agents_DeleteSession :: "agent_scope \<Rightarrow> string \<Rightarrow> agents_store \<Rightarrow> unit ares \<times> agents_store" where
  "agents_DeleteSession scope sessionID s =
     (case withAgent scope of Inl e \<Rightarrow> (Inl e, s) | Inr _ \<Rightarrow>
      (Inr (), s\<lparr>ag_messages := mdel (sessionKey scope sessionID) (ag_messages s),
                 ag_summaries := mdel (sessionKey scope sessionID) (ag_summaries s)\<rparr>))"

definition PutSessionSummary :: "agent_scope \<Rightarrow> session_summary \<Rightarrow> agents_store \<Rightarrow> unit ares \<times> agents_store" where
  "PutSessionSummary scope x s =
     (case withAgent scope of Inl e \<Rightarrow> (Inl e, s) | Inr _ \<Rightarrow>
      if blank (ssum_SessionID x) then (Inl AgentsSessionIDRequired, s)
      else (Inr (), s\<lparr>ag_summaries := mput (sessionKey scope (ssum_SessionID x)) x (ag_summaries s)\<rparr>))"

definition GetSessionSummary :: "agent_scope \<Rightarrow> string \<Rightarrow> agents_store \<Rightarrow> session_summary option ares" where
  "GetSessionSummary scope sessionID s =
     (case withAgent scope of Inl e \<Rightarrow> Inl e | Inr _ \<Rightarrow>
      Inr (map_of (ag_summaries s) (sessionKey scope sessionID)))"

subsection \<open>Runs\<close>

definition SaveRun :: "agent_scope \<Rightarrow> agent_run \<Rightarrow> agents_store \<Rightarrow> unit ares \<times> agents_store" where
  "SaveRun scope run s =
     (case withAgent scope of Inl e \<Rightarrow> (Inl e, s) | Inr _ \<Rightarrow>
      if arun_ID run = [] then (Inl AgentsRunIDRequired, s)
      else (let key = row_key scope (arun_ID run) in
        (Inr (), s\<lparr>ag_runs := mput key run (ag_runs s), ag_runScopes := mput key scope (ag_runScopes s)\<rparr>)))"

definition GetRun :: "agent_scope \<Rightarrow> string \<Rightarrow> agents_store \<Rightarrow> agent_run ares" where
  "GetRun scope i s =
     (case agents_validate scope of Inl e \<Rightarrow> Inl e | Inr _ \<Rightarrow>
      case map_of (ag_runs s) (row_key scope i) of None \<Rightarrow> Inl AgentsRunNotFound | Some run \<Rightarrow> Inr run)"

definition ClaimRun ::
  "agent_scope \<Rightarrow> string \<Rightarrow> string \<Rightarrow> gotime \<Rightarrow> agents_store \<Rightarrow> agent_run ares \<times> agents_store" where
  "ClaimRun scope i requestID now s =
     (case agents_validate scope of Inl e \<Rightarrow> (Inl e, s) | Inr _ \<Rightarrow>
      (let k = row_key scope i in
       case map_of (ag_runs s) k of
         None \<Rightarrow> (Inl AgentsRunNotFound, s)
       | Some run0 \<Rightarrow>
           if arun_Phase run0 = ''Running'' then (Inl AgentsRunClaimed, s)
           else (let run = run0\<lparr>arun_Phase := ''Running'', arun_UpdatedAt := now,
                     arun_StartedAt := (if arun_StartedAt run0 = None then Some now else arun_StartedAt run0)\<rparr>
                 in (Inr run, s\<lparr>ag_runs := mput k run (ag_runs s)\<rparr>))))"

text \<open>The runs of a tenant, narrowed to one agent when the scope names one.\<close>

definition scope_runs :: "agent_scope \<Rightarrow> (agent_run \<Rightarrow> bool) \<Rightarrow> agents_store \<Rightarrow> agent_run list" where
  "scope_runs scope P s =
     map snd (filter (\<lambda>(k, run). hasPrefix k (tenantKey scope @ ''|'') \<and>
        \<not> (asc_AgentName scope \<noteq> [] \<and> arun_AgentName run \<noteq> asc_AgentName scope) \<and> P run) (ag_runs s))"

definition ListRuns :: "agent_scope \<Rightarrow> int \<Rightarrow> agents_store \<Rightarrow> agent_run list ares" where
  "ListRuns scope limit0 s =
     (case agents_validate scope of Inl e \<Rightarrow> Inl e | Inr _ \<Rightarrow>
      Inr (take (agents_limit 100 500 limit0) (sort_desc arun_CreatedAt (scope_runs scope (\<lambda>_. True) s))))"

definition query_matches :: "run_query \<Rightarrow> agent_run \<Rightarrow> bool" where
  "query_matches q run \<longleftrightarrow>
     \<not> (rq_Phase q \<noteq> [] \<and> arun_Phase run \<noteq> rq_Phase q) \<and>
     \<not> (rq_Trigger q \<noteq> [] \<and> arun_Trigger run \<noteq> rq_Trigger q) \<and>
     \<not> (rq_SessionID q \<noteq> [] \<and> arun_SessionID run \<noteq> rq_SessionID q) \<and>
     \<not> (rq_ParentRunID q \<noteq> [] \<and> arun_ParentRunID run \<noteq> rq_ParentRunID q)"

definition arun_key :: "agent_run \<Rightarrow> gotime \<times> string" where
  "arun_key r = (arun_CreatedAt r, arun_ID r)"

definition QueryRuns :: "agent_scope \<Rightarrow> run_query \<Rightarrow> agents_store \<Rightarrow> (agent_run list \<times> cursor) ares" where
  "QueryRuns scope q s =
     (case agents_validate scope of Inl e \<Rightarrow> Inl e | Inr _ \<Rightarrow>
      (let limit = agents_limit 50 200 (rq_Limit q) in
       case agents_decodeCursor (rq_Cursor q) of Inl e \<Rightarrow> Inl e | Inr (before, beforeID) \<Rightarrow>
         Inr (page_before arun_CreatedAt arun_ID before beforeID limit
               (sort_desc arun_key (scope_runs scope (query_matches q) s)))))"

definition FindRunByIdempotencyKey :: "agent_scope \<Rightarrow> string \<Rightarrow> agents_store \<Rightarrow> agent_run option ares" where
  "FindRunByIdempotencyKey scope key s =
     (case withAgent scope of Inl e \<Rightarrow> Inl e | Inr _ \<Rightarrow>
      if blank key then Inr None
      else Inr (map_option snd (find (\<lambda>(k, run). arun_IdempotencyKey run = key \<and>
             arun_AgentName run = asc_AgentName scope \<and> hasPrefix k (tenantKey scope @ ''|'')) (ag_runs s))))"

text \<open>A missing scope reads as the zero value.\<close>

definition zero_scope :: agent_scope where
  "zero_scope = \<lparr>asc_OrgUUID = [], asc_WorkspaceUUID = [], asc_AgentName = []\<rparr>"

definition ListUnfinishedRuns ::
  "string list \<Rightarrow> gotime \<Rightarrow> int \<Rightarrow> agents_store \<Rightarrow> (agent_scope \<times> agent_run) list" where
  "ListUnfinishedRuns phases updatedBefore limit0 s =
     (let limit = agents_limit 100 500 limit0;
          rows = filter (\<lambda>(key, run). \<not> (phases \<noteq> [] \<and> arun_Phase run \<notin> set phases) \<and>
                   arun_UpdatedAt run < updatedBefore) (ag_runs s);
          out = map (\<lambda>(key, run). (case map_of (ag_runScopes s) key of None \<Rightarrow> zero_scope | Some sc \<Rightarrow> sc, run)) rows
      in take limit (sort_key (\<lambda>(_, run). arun_UpdatedAt run) out))"

subsection \<open>Memories and the inbox\<close>

definition PutMemory :: "agent_scope \<Rightarrow> agent_memory \<Rightarrow> agents_store \<Rightarrow> unit ares \<times> agents_store" where
  "PutMemory scope mem s =
     (case withAgent scope of Inl e \<Rightarrow> (Inl e, s) | Inr _ \<Rightarrow>
      if amem_ID mem = [] then (Inl AgentsMemoryIDRequired, s)
      else (Inr (), s\<lparr>ag_memories := mput (row_key scope (amem_ID mem)) mem (ag_memories s)\<rparr>))"

definition ListMemories :: "agent_scope \<Rightarrow> int \<Rightarrow> agents_store \<Rightarrow> agent_memory list ares" where
  "ListMemories scope limit0 s =
     (case withAgent scope of Inl e \<Rightarrow> Inl e | Inr _ \<Rightarrow>
      (let limit = agents_limit 100 500 limit0;
           out = map snd (filter (\<lambda>(k, mem). hasPrefix k (tenantKey scope @ ''|'') \<and>
                   amem_AgentName mem = asc_AgentName scope) (ag_memories s))
       in Inr (take limit (sort_desc amem_UpdatedAt out))))"

definition DeleteMemory :: "agent_scope \<Rightarrow> string \<Rightarrow> agents_store \<Rightarrow> unit ares \<times> agents_store" where
  "DeleteMemory scope i s =
     (case withAgent scope of Inl e \<Rightarrow> (Inl e, s) | Inr _ \<Rightarrow>
      (Inr (), s\<lparr>ag_memories := mdel (row_key scope i) (ag_memories s)\<rparr>))"

definition AddInboxItem :: "agent_scope \<Rightarrow> inbox_item \<Rightarrow> agents_store \<Rightarrow> unit ares \<times> agents_store" where
  "AddInboxItem scope item s =
     (case agents_validate scope of Inl e \<Rightarrow> (Inl e, s) | Inr _ \<Rightarrow>
      if ibx_ID item = [] then (Inl AgentsInboxIDRequired, s)
      else (Inr (), s\<lparr>ag_inbox := mput (row_key scope (ibx_ID item)) item (ag_inbox s)\<rparr>))"

definition ListInbox :: "agent_scope \<Rightarrow> string \<Rightarrow> agents_store \<Rightarrow> inbox_item list ares" where
  "ListInbox scope state s =
     (case agents_validate scope of Inl e \<Rightarrow> Inl e | Inr _ \<Rightarrow>
      Inr (sort_desc ibx_CreatedAt (map snd (filter (\<lambda>(k, it). hasPrefix k (tenantKey scope @ ''|'') \<and>
             \<not> (state \<noteq> [] \<and> ibx_State it \<noteq> state) \<and>
             \<not> (asc_AgentName scope \<noteq> [] \<and> ibx_AgentName it \<noteq> asc_AgentName scope)) (ag_inbox s)))))"

definition ResolveInboxItem ::
  "agent_scope \<Rightarrow> string \<Rightarrow> string \<Rightarrow> string \<Rightarrow> gotime \<Rightarrow> agents_store \<Rightarrow> inbox_item ares \<times> agents_store" where
  "ResolveInboxItem scope i state response now s =
     (case agents_validate scope of Inl e \<Rightarrow> (Inl e, s) | Inr _ \<Rightarrow>
      (let k = row_key scope i in
       case map_of (ag_inbox s) k of
         None \<Rightarrow> (Inl AgentsInboxNotFound, s)
       | Some it0 \<Rightarrow>
           (let it = it0\<lparr>ibx_State := state, ibx_Response := response, ibx_UpdatedAt := now\<rparr>
            in (Inr it, s\<lparr>ag_inbox := mput k it (ag_inbox s)\<rparr>))))"

subsection \<open>Tool calls and usage\<close>

definition AppendToolCall :: "agent_scope \<Rightarrow> tool_call \<Rightarrow> agents_store \<Rightarrow> unit ares \<times> agents_store" where
  "AppendToolCall scope tc s =
     (case agents_validate scope of Inl e \<Rightarrow> (Inl e, s) | Inr _ \<Rightarrow>
      (let k = tenantKey scope in
       (Inr (), s\<lparr>ag_toolCalls := mput k (inner (ag_toolCalls s) k @ [tc]) (ag_toolCalls s)\<rparr>)))"

definition ListToolCalls :: "agent_scope \<Rightarrow> string \<Rightarrow> agents_store \<Rightarrow> tool_call list ares" where
  "ListToolCalls scope runID s =
     (case agents_validate scope of Inl e \<Rightarrow> Inl e | Inr _ \<Rightarrow>
      Inr (sort_key (\<lambda>tc. (tc_CreatedAt tc, tc_ID tc))
            (filter (\<lambda>tc. tc_RunID tc = runID) (inner (ag_toolCalls s) (tenantKey scope)))))"

definition zero_usage :: usage_row where
  "zero_usage = \<lparr>usg_AgentName = [], usg_WindowStart = 0, usg_InputTokens = 0, usg_OutputTokens = 0,
     usg_USDMicros = 0, usg_UpdatedAt = 0\<rparr>"

definition AddUsage ::
  "agent_scope \<Rightarrow> string \<Rightarrow> int \<Rightarrow> int \<Rightarrow> int \<Rightarrow> gotime \<Rightarrow> duration \<Rightarrow> agents_store \<Rightarrow>
   usage_row ares \<times> agents_store" where
  "AddUsage scope agentName inp out usdMicros now window s =
     (case agents_validate scope of Inl e \<Rightarrow> (Inl e, s) | Inr _ \<Rightarrow>
      (let ws = windowStart now window;
           k = usage_key scope agentName ws;
           u0 = (case map_of (ag_usage s) k of None \<Rightarrow> zero_usage | Some u \<Rightarrow> u);
           u = u0\<lparr>usg_AgentName := agentName, usg_WindowStart := ws,
                  usg_InputTokens := i64 (usg_InputTokens u0 + inp),
                  usg_OutputTokens := i64 (usg_OutputTokens u0 + out),
                  usg_USDMicros := i64 (usg_USDMicros u0 + usdMicros), usg_UpdatedAt := now\<rparr>
       in (Inr u, s\<lparr>ag_usage := mput k u (ag_usage s)\<rparr>)))"

definition GetUsage :: "agent_scope \<Rightarrow> string \<Rightarrow> gotime \<Rightarrow> duration \<Rightarrow> agents_store \<Rightarrow> usage_row ares" where
  "GetUsage scope agentName now window s =
     (case agents_validate scope of Inl e \<Rightarrow> Inl e | Inr _ \<Rightarrow>
      (let ws = windowStart now window in
       case map_of (ag_usage s) (usage_key scope agentName ws) of
         None \<Rightarrow> Inr (zero_usage\<lparr>usg_AgentName := agentName, usg_WindowStart := ws\<rparr>)
       | Some u \<Rightarrow> Inr u))"

subsection \<open>Tenants and teardown\<close>

definition SaveTenantRef :: "string \<Rightarrow> tenant_ref \<Rightarrow> agents_store \<Rightarrow> unit ares \<times> agents_store" where
  "SaveTenantRef clusterID ref s =
     (if clusterID = [] then (Inl AgentsClusterIDRequired, s)
      else (Inr (), s\<lparr>ag_tenants := mput clusterID ref (ag_tenants s)\<rparr>))"

definition GetTenantRef :: "string \<Rightarrow> agents_store \<Rightarrow> tenant_ref option" where
  "GetTenantRef clusterID s = map_of (ag_tenants s) clusterID"

definition FindClusterForScope :: "string \<Rightarrow> string \<Rightarrow> agents_store \<Rightarrow> string option" where
  "FindClusterForScope orgUUID workspaceUUID s =
     map_option fst (find (\<lambda>(_, ref). tnt_OrgUUID ref = orgUUID \<and> tnt_WorkspaceUUID ref = workspaceUUID) (ag_tenants s))"

definition DeleteAgentData :: "agent_scope \<Rightarrow> string \<Rightarrow> agents_store \<Rightarrow> unit ares \<times> agents_store" where
  "DeleteAgentData scope agentName s =
     (case agents_validate scope of Inl e \<Rightarrow> (Inl e, s) | Inr _ \<Rightarrow>
      (let tk = tenantKey scope;
           msgPrefix = tk @ ''|'' @ agentName @ ''|'';
           gone = filter (\<lambda>(k, run). arun_AgentName run = agentName \<and> hasPrefix k (tk @ ''|'')) (ag_runs s)
       in (Inr (), s\<lparr>
            ag_messages := filter (\<lambda>(k, _). \<not> hasPrefix k msgPrefix) (ag_messages s),
            ag_summaries := filter (\<lambda>(k, _). \<not> hasPrefix k msgPrefix) (ag_summaries s),
            ag_runs := filter (\<lambda>(k, run). \<not> (arun_AgentName run = agentName \<and> hasPrefix k (tk @ ''|''))) (ag_runs s),
            ag_runScopes := filter (\<lambda>(k, _). k \<notin> set (map fst gone)) (ag_runScopes s),
            ag_memories := filter (\<lambda>(k, mem). \<not> (amem_AgentName mem = agentName \<and> hasPrefix k (tk @ ''|''))) (ag_memories s),
            ag_inbox := filter (\<lambda>(k, it). \<not> (ibx_AgentName it = agentName \<and> hasPrefix k (tk @ ''|''))) (ag_inbox s)\<rparr>)))"

text \<open>A tenant's own scope, for the evaluation of concrete states.\<close>

definition ex_agent :: agent_scope where
  "ex_agent = \<lparr>asc_OrgUUID = ''o'', asc_WorkspaceUUID = ''w'', asc_AgentName = ''a''\<rparr>"

definition ex_agent_run :: "string \<Rightarrow> string \<Rightarrow> gotime \<Rightarrow> agent_run" where
  "ex_agent_run i phase t =
     \<lparr>arun_ID = i, arun_AgentName = ''a'', arun_SessionID = ''s'', arun_Trigger = ''chat'', arun_ParentRunID = [],
      arun_Phase = phase, arun_Attempt = 0, arun_Input = [], arun_Output = [], arun_Sources = [],
      arun_IdempotencyKey = [], arun_Delivery = None, arun_Message = [], arun_Checkpoint = [],
      arun_InputTokens = 0, arun_OutputTokens = 0, arun_USDMicros = 0, arun_CreatedAt = t, arun_UpdatedAt = t,
      arun_StartedAt = None, arun_FinishedAt = None\<rparr>"

definition ex_agent_message :: "string \<Rightarrow> gotime \<Rightarrow> agent_message" where
  "ex_agent_message i t =
     \<lparr>amsg_ID = i, amsg_AgentName = ''a'', amsg_SessionID = ''s'', amsg_RunID = [], amsg_Role = ''user'',
      amsg_Content = i, amsg_ContentEncrypted = False, amsg_ContentKeyID = [], amsg_Metadata = [],
      amsg_CreatedAt = t\<rparr>"

end
