(* ===== verification/Agents_Tenancy.thy ===== *)
theory Agents_Tenancy
  imports Agents_Store
begin

section \<open>Agents store: tenants, reachable states, teardown\<close>

text \<open>
  The in-memory backend keeps every tenant's rows in the same maps and separates them by the
  prefix of a string key. Here the operations that write are the constructors of
  \<open>agents_op\<close>, \<open>agents_reachable\<close> is what any sequence of them makes of an empty store, and the
  separation is a theorem for scopes whose org and workspace names hold no separator.
\<close>

subsection \<open>Maps under a key predicate\<close>

lemma filter_mput_other: "\<not> P k \<Longrightarrow> filter (\<lambda>(i, _). P i) (mput k v m) = filter (\<lambda>(i, _). P i) m"
  by (induction m) (auto simp: mput_def)

lemma filter_mdel_other: "\<not> P k \<Longrightarrow> filter (\<lambda>(i, _). P i) (mdel k m) = filter (\<lambda>(i, _). P i) m"
  by (induction m) (auto simp: mdel_def)

subsection \<open>Operations\<close>

datatype agents_op =
    OpAMessage agent_scope agent_message
  | OpASummary agent_scope session_summary
  | OpADeleteSession agent_scope string
  | OpARun agent_scope agent_run
  | OpAClaim agent_scope string string gotime
  | OpAMemory agent_scope agent_memory
  | OpADeleteMemory agent_scope string
  | OpAInbox agent_scope inbox_item
  | OpAResolve agent_scope string string string gotime
  | OpATool agent_scope tool_call
  | OpAUsage agent_scope string int int int gotime duration
  | OpADelete agent_scope string
  | OpATenant string tenant_ref

fun agents_op_scope :: "agents_op \<Rightarrow> agent_scope" where
  "agents_op_scope (OpAMessage sc _) = sc"
| "agents_op_scope (OpASummary sc _) = sc"
| "agents_op_scope (OpADeleteSession sc _) = sc"
| "agents_op_scope (OpARun sc _) = sc"
| "agents_op_scope (OpAClaim sc _ _ _) = sc"
| "agents_op_scope (OpAMemory sc _) = sc"
| "agents_op_scope (OpADeleteMemory sc _) = sc"
| "agents_op_scope (OpAInbox sc _) = sc"
| "agents_op_scope (OpAResolve sc _ _ _ _) = sc"
| "agents_op_scope (OpATool sc _) = sc"
| "agents_op_scope (OpAUsage sc _ _ _ _ _ _) = sc"
| "agents_op_scope (OpADelete sc _) = sc"
| "agents_op_scope (OpATenant _ ref) =
     \<lparr>asc_OrgUUID = tnt_OrgUUID ref, asc_WorkspaceUUID = tnt_WorkspaceUUID ref, asc_AgentName = []\<rparr>"

fun agents_exec :: "agents_op \<Rightarrow> agents_store \<Rightarrow> agents_store" where
  "agents_exec (OpAMessage sc m) s = snd (agents_AppendMessage sc m s)"
| "agents_exec (OpASummary sc x) s = snd (PutSessionSummary sc x s)"
| "agents_exec (OpADeleteSession sc i) s = snd (agents_DeleteSession sc i s)"
| "agents_exec (OpARun sc r) s = snd (SaveRun sc r s)"
| "agents_exec (OpAClaim sc i q now) s = snd (ClaimRun sc i q now s)"
| "agents_exec (OpAMemory sc x) s = snd (PutMemory sc x s)"
| "agents_exec (OpADeleteMemory sc i) s = snd (DeleteMemory sc i s)"
| "agents_exec (OpAInbox sc x) s = snd (AddInboxItem sc x s)"
| "agents_exec (OpAResolve sc i st resp now) s = snd (ResolveInboxItem sc i st resp now s)"
| "agents_exec (OpATool sc x) s = snd (AppendToolCall sc x s)"
| "agents_exec (OpAUsage sc a x y z now w) s = snd (AddUsage sc a x y z now w s)"
| "agents_exec (OpADelete sc a) s = snd (DeleteAgentData sc a s)"
| "agents_exec (OpATenant c ref) s = snd (SaveTenantRef c ref s)"

lemmas agents_op_defs = agents_AppendMessage_def PutSessionSummary_def agents_DeleteSession_def SaveRun_def
  ClaimRun_def PutMemory_def DeleteMemory_def AddInboxItem_def ResolveInboxItem_def AppendToolCall_def
  AddUsage_def DeleteAgentData_def SaveTenantRef_def Let_def

inductive agents_reachable :: "agents_store \<Rightarrow> bool" where
  agents_start: "agents_reachable agents_NewMemoryStore"
| agents_step: "agents_reachable s \<Longrightarrow> tenant_ok (agents_op_scope a) \<Longrightarrow> agents_reachable (agents_exec a s)"

subsection \<open>Isolation\<close>

text \<open>Everything the store holds of a tenant and its reads can return.\<close>

definition tenant_rows where
  "tenant_rows t s =
     (let mine = (\<lambda>k. hasPrefix k (tenantKey t @ ''|'')) in
      (filter (\<lambda>(k, _). mine k) (ag_messages s), filter (\<lambda>(k, _). mine k) (ag_summaries s),
       filter (\<lambda>(k, _). mine k) (ag_runs s), filter (\<lambda>(k, _). mine k) (ag_runScopes s),
       filter (\<lambda>(k, _). mine k) (ag_memories s), filter (\<lambda>(k, _). mine k) (ag_inbox s),
       filter (\<lambda>(k, _). mine k) (ag_usage s), inner (ag_toolCalls s) (tenantKey t)))"

lemma tenantKey_inject: "tenant_ok s \<Longrightarrow> tenant_ok t \<Longrightarrow> tenantKey s = tenantKey t \<longleftrightarrow> same_tenant s t"
  by (auto simp: tenantKey_def tenant_ok_def same_tenant_def split_at_bar)

lemma foreign_key:
  assumes "tenant_ok s" "tenant_ok t" "\<not> same_tenant s t"
  shows "\<not> hasPrefix (row_key s i) (tenantKey t @ ''|'')" "\<not> hasPrefix (sessionKey s x) (tenantKey t @ ''|'')"
    "\<not> hasPrefix (usage_key s a w) (tenantKey t @ ''|'')" "tenantKey t \<noteq> tenantKey s"
  using assms by (auto simp: sessionKey_row usage_key_row row_key_prefix tenantKey_inject same_tenant_def)

lemma foreign_prefix:
  assumes "tenant_ok s" "tenant_ok t" "\<not> same_tenant s t" "hasPrefix k (tenantKey t @ ''|'')"
  shows "\<not> hasPrefix k (tenantKey s @ ''|'')" "\<not> hasPrefix k (tenantKey s @ CHR ''|'' # a @ ''|'')"
proof -
  obtain r where k: "k = row_key t r" using assms(4) by (auto simp: hasPrefix_iff row_key_def)
  have not_mine: "k \<noteq> row_key s x" for x
    using assms(1-3) by (auto simp: k row_key_inject same_tenant_def)
  show "\<not> hasPrefix k (tenantKey s @ ''|'')" "\<not> hasPrefix k (tenantKey s @ CHR ''|'' # a @ ''|'')"
    using not_mine by (auto simp: hasPrefix_iff row_key_def)
qed

lemma tenant_rows_exec:
  assumes "tenant_ok (agents_op_scope a)" "tenant_ok t" "\<not> same_tenant (agents_op_scope a) t"
  shows "tenant_rows t (agents_exec a s) = tenant_rows t s"
proof -
  note keys = foreign_key [OF assms] foreign_prefix [OF assms]
  note others = filter_mput_other [where P = "\<lambda>k. hasPrefix k (tenantKey t @ ''|'')"]
    filter_mdel_other [where P = "\<lambda>k. hasPrefix k (tenantKey t @ ''|'')"]
  show ?thesis
  proof (cases a)
    case (OpADelete sc name)
    show ?thesis
      using keys(5,6) OpADelete
      by (auto simp: agents_op_defs tenant_rows_def split: sum.splits
          intro!: filter_cong)
  qed (use keys in \<open>auto simp: agents_op_defs tenant_rows_def others split: sum.splits option.splits\<close>)
qed

text \<open>The reads of a tenant depend on its rows only.\<close>

lemma map_of_mine: "P k \<Longrightarrow> map_of (filter (\<lambda>(i, _). P i) m) k = map_of m k"
  by (induction m) auto

lemma map_of_mine_cong:
  "filter (\<lambda>(i, _). P i) m = filter (\<lambda>(i, _). P i) m' \<Longrightarrow> P k \<Longrightarrow> map_of m k = map_of m' k"
  by (metis map_of_mine)

lemma filter_mine: "filter (\<lambda>(k, x). P k \<and> Q k x) m = filter (\<lambda>(k, x). Q k x) (filter (\<lambda>(k, _). P k) m)"
  by (induction m) auto

lemma filter_mine_imp: "(\<And>k x. Q k x \<Longrightarrow> P k) \<Longrightarrow> filter (\<lambda>(k, x). Q k x) m = filter (\<lambda>(k, x). Q k x) (filter (\<lambda>(k, _). P k) m)"
  by (induction m) auto

lemma find_filter: "find Q m = (case filter Q m of [] \<Rightarrow> None | p # _ \<Rightarrow> Some p)"
  by (induction m) auto

lemma hasPrefix_shorter: "hasPrefix k (p @ q) \<Longrightarrow> hasPrefix k p"
  by (auto simp: hasPrefix_iff)

lemma mine_keys [simp]:
  "hasPrefix (row_key t i) (tenantKey t @ ''|'')" "hasPrefix (sessionKey t x) (tenantKey t @ ''|'')"
  "hasPrefix (usage_key t a w) (tenantKey t @ ''|'')"
  by (auto simp: hasPrefix_iff row_key_def sessionKey_def usage_key_def)

lemma tenant_reads:
  assumes "tenant_rows t s = tenant_rows t s'"
  shows "GetRun t i s = GetRun t i s'" "QueryRuns t q s = QueryRuns t q s'"
    "agents_ListMessages t x l c s = agents_ListMessages t x l c s'"
    "GetSessionSummary t x s = GetSessionSummary t x s'"
    "ListMemories t l s = ListMemories t l s'" "ListInbox t st s = ListInbox t st s'"
    "ListToolCalls t i s = ListToolCalls t i s'" "GetUsage t a now w s = GetUsage t a now w s'"
    "ListRuns t l s = ListRuns t l s'" "FindRunByIdempotencyKey t i s = FindRunByIdempotencyKey t i s'"
    "agents_LoadRecentMessages t x l s = agents_LoadRecentMessages t x l s'" "agents_ListSessions t l s = agents_ListSessions t l s'"
proof -
  let ?m = "\<lambda>k. hasPrefix k (tenantKey t @ ''|'')"
  have rows: "filter (\<lambda>(k, _). ?m k) (ag_messages s) = filter (\<lambda>(k, _). ?m k) (ag_messages s')"
    "filter (\<lambda>(k, _). ?m k) (ag_summaries s) = filter (\<lambda>(k, _). ?m k) (ag_summaries s')"
    "filter (\<lambda>(k, _). ?m k) (ag_runs s) = filter (\<lambda>(k, _). ?m k) (ag_runs s')"
    "filter (\<lambda>(k, _). ?m k) (ag_memories s) = filter (\<lambda>(k, _). ?m k) (ag_memories s')"
    "filter (\<lambda>(k, _). ?m k) (ag_inbox s) = filter (\<lambda>(k, _). ?m k) (ag_inbox s')"
    "filter (\<lambda>(k, _). ?m k) (ag_usage s) = filter (\<lambda>(k, _). ?m k) (ag_usage s')"
    "inner (ag_toolCalls s) (tenantKey t) = inner (ag_toolCalls s') (tenantKey t)"
    using assms by (simp_all add: tenant_rows_def Let_def)
  note get = map_of_mine_cong [OF rows(3) mine_keys(1)] map_of_mine_cong [OF rows(2) mine_keys(2)]
    map_of_mine_cong [OF rows(6) mine_keys(3)] map_of_mine_cong [OF rows(1) mine_keys(2)]
  have runs: "scope_runs t P s = scope_runs t P s'" for P
    by (simp add: scope_runs_def filter_mine [of ?m] rows(3))
  show "GetRun t i s = GetRun t i s'" unfolding GetRun_def get ..
  show "QueryRuns t q s = QueryRuns t q s'" unfolding QueryRuns_def runs ..
  show "agents_ListMessages t x l c s = agents_ListMessages t x l c s'"
    unfolding agents_ListMessages_def inner_def get ..
  show "GetSessionSummary t x s = GetSessionSummary t x s'" unfolding GetSessionSummary_def get ..
  show "ListMemories t l s = ListMemories t l s'"
    unfolding ListMemories_def filter_mine [of ?m] rows(4) ..
  show "ListInbox t st s = ListInbox t st s'" unfolding ListInbox_def filter_mine [of ?m] rows(5) ..
  show "ListToolCalls t i s = ListToolCalls t i s'" unfolding ListToolCalls_def rows(7) ..
  show "GetUsage t a now w s = GetUsage t a now w s'" unfolding GetUsage_def get ..
  show "ListRuns t l s = ListRuns t l s'" unfolding ListRuns_def runs ..
  show "agents_LoadRecentMessages t x l s = agents_LoadRecentMessages t x l s'"
    unfolding agents_LoadRecentMessages_def inner_def get ..
  have by_key: "filter (\<lambda>(k, run). arun_IdempotencyKey run = i \<and> arun_AgentName run = asc_AgentName t \<and> ?m k) (ag_runs s) =
      filter (\<lambda>(k, run). arun_IdempotencyKey run = i \<and> arun_AgentName run = asc_AgentName t \<and> ?m k) (ag_runs s')"
    using rows(3) by (subst (1 2) filter_mine_imp [of _ ?m]) simp_all
  show "FindRunByIdempotencyKey t i s = FindRunByIdempotencyKey t i s'"
    unfolding FindRunByIdempotencyKey_def find_filter by_key ..
  let ?p = "tenantKey t @ ''|'' @ asc_AgentName t @ ''|''"
  have by_prefix: "filter (\<lambda>(k, msgs). hasPrefix k ?p \<and> length msgs \<noteq> 0) (ag_messages s) =
      filter (\<lambda>(k, msgs). hasPrefix k ?p \<and> length msgs \<noteq> 0) (ag_messages s')"
    using rows(1) hasPrefix_shorter [of _ "tenantKey t @ ''|''" "asc_AgentName t @ ''|''"]
    by (subst (1 2) filter_mine_imp [of _ ?m]) simp_all
  show "agents_ListSessions t l s = agents_ListSessions t l s'" unfolding agents_ListSessions_def Let_def by_prefix ..
qed

lemma tenant_rows_fold:
  assumes "\<forall>a \<in> set ops. tenant_ok (agents_op_scope a) \<and> \<not> same_tenant (agents_op_scope a) t" "tenant_ok t"
  shows "tenant_rows t (fold agents_exec ops s) = tenant_rows t s"
  using assms by (induction ops arbitrary: s) (simp_all add: tenant_rows_exec)

text \<open>Property C17. Tenants are isolated although they share every map: whatever other tenants do,
  however often and to rows of any name, each read of a tenant's runs (one, all, by query or by
  idempotency key), messages (a page or the recent ones), sessions, summaries, memories, inbox, tool calls
  and usage returns what it returned before, provided that the organisation and workspace names hold no separator.\<close>

theorem agents_tenants_isolated:
  assumes "\<forall>a \<in> set ops. tenant_ok (agents_op_scope a) \<and> \<not> same_tenant (agents_op_scope a) t" "tenant_ok t"
    and "s' = fold agents_exec ops s"
  shows "GetRun t i s' = GetRun t i s \<and> QueryRuns t q s' = QueryRuns t q s \<and>
    agents_ListMessages t x l c s' = agents_ListMessages t x l c s \<and>
    GetSessionSummary t x s' = GetSessionSummary t x s \<and> ListMemories t l s' = ListMemories t l s \<and>
    ListInbox t st s' = ListInbox t st s \<and> ListToolCalls t i s' = ListToolCalls t i s \<and>
    GetUsage t a now w s' = GetUsage t a now w s \<and> ListRuns t l s' = ListRuns t l s \<and>
    FindRunByIdempotencyKey t i s' = FindRunByIdempotencyKey t i s \<and>
    agents_LoadRecentMessages t x l s' = agents_LoadRecentMessages t x l s \<and> agents_ListSessions t l s' = agents_ListSessions t l s"
  using tenant_reads [OF tenant_rows_fold [OF assms(1,2), of s]] assms(3) by simp

theorem agents_tenants_isolated_witness:
  defines "other \<equiv> ex_agent\<lparr>asc_WorkspaceUUID := ''w2''\<rparr>"
  defines "s \<equiv> snd (SaveRun ex_agent (ex_agent_run ''r'' ''Pending'' 5) agents_NewMemoryStore)"
  defines "ops \<equiv> [OpARun other (ex_agent_run ''r'' ''Failed'' 7), OpADelete other ''a'']"
  shows "GetRun ex_agent ''r'' (fold agents_exec ops s) = Inr (ex_agent_run ''r'' ''Pending'' 5)"
proof -
  have "\<forall>a \<in> set ops. tenant_ok (agents_op_scope a) \<and> \<not> same_tenant (agents_op_scope a) ex_agent"
    "tenant_ok ex_agent"
    by (simp_all add: ops_def other_def ex_agent_def tenant_ok_def no_bar_def same_tenant_def)
  then have "GetRun ex_agent ''r'' (fold agents_exec ops s) = GetRun ex_agent ''r'' s"
    using agents_tenants_isolated [OF _ _ refl] by blast
  also have "\<dots> = Inr (ex_agent_run ''r'' ''Pending'' 5)" unfolding s_def by code_simp
  finally show ?thesis .
qed

end
