(* ===== verification/Agents_Runs.thy ===== *)
theory Agents_Runs
  imports Agents_Tenancy
begin

section \<open>Agents store: listings, claims and teardown\<close>

text \<open>
  The paged listings of runs and messages as instances of \<open>loose_pager\<close>, the claim that makes one
  replica the owner of a run, and what deleting an agent removes and leaves.
\<close>

subsection \<open>Reachable rows\<close>

text \<open>Every run is kept under the key of a proper tenant and of its own ID.\<close>

definition agent_runs_ok :: "agents_store \<Rightarrow> bool" where
  "agent_runs_ok s \<longleftrightarrow> wf_map (ag_runs s) \<and>
     (\<forall>(k, r) \<in> set (ag_runs s). \<exists>sc. tenant_ok sc \<and> k = row_key sc (arun_ID r))"

lemma agent_runs_ok_mput:
  "agent_runs_ok s \<Longrightarrow> tenant_ok sc \<Longrightarrow> agent_runs_ok (s\<lparr>ag_runs := mput (row_key sc (arun_ID r)) r (ag_runs s), ag_runScopes := x\<rparr>)"
  "agent_runs_ok s \<Longrightarrow> tenant_ok sc \<Longrightarrow> arun_ID r = i \<Longrightarrow> agent_runs_ok (s\<lparr>ag_runs := mput (row_key sc i) r (ag_runs s)\<rparr>)"
  by (auto simp: agent_runs_ok_def set_mput)

lemma agent_run_key:
  assumes "agent_runs_ok s" "tenant_ok sc" "map_of (ag_runs s) (row_key sc i) = Some r"
  shows "arun_ID r = i"
proof -
  have "(row_key sc i, r) \<in> set (ag_runs s)" using assms(3) by (rule map_of_SomeD)
  then obtain t where "tenant_ok t" "row_key sc i = row_key t (arun_ID r)"
    using assms(1) by (fastforce simp: agent_runs_ok_def)
  then show ?thesis using assms(2) by (simp add: row_key_inject)
qed

lemma agent_runs_ok_exec:
  assumes "agent_runs_ok s" "tenant_ok (agents_op_scope a)"
  shows "agent_runs_ok (agents_exec a s)"
proof (cases a)
  case (OpARun sc r)
  then show ?thesis using assms
    by (auto simp: SaveRun_def Let_def agent_runs_ok_mput split: sum.splits)
next
  case (OpAClaim sc i q now)
  then show ?thesis using assms agent_run_key [OF assms(1), of sc i]
    by (auto simp: ClaimRun_def Let_def intro!: agent_runs_ok_mput(2) split: sum.splits option.splits)
next
  case (OpADelete sc name)
  then show ?thesis using assms
    by (auto simp: DeleteAgentData_def Let_def agent_runs_ok_def wf_map_filter split: sum.splits)
qed (use assms in \<open>auto simp: agents_op_defs agent_runs_ok_def split: sum.splits option.splits\<close>)

lemma agents_reachable_runs: "agents_reachable s \<Longrightarrow> agent_runs_ok s"
  by (induction rule: agents_reachable.induct)
    (simp_all add: agent_runs_ok_exec, simp add: agent_runs_ok_def agents_NewMemoryStore_def)

subsection \<open>Pages before a cursor\<close>

lemma page_before_blank:
  assumes "0 < n"
  shows "page_before c i 0 b n all =
    (take n all, if n \<le> length all then agents_encodeCursor (c (all ! (n - 1))) (i (all ! (n - 1))) else BlankCursor)"
proof -
  have "last (take n all) = all ! (n - 1)" if "n \<le> length all"
    using that assms by (subst last_conv_nth) (auto simp: min_def)
  then show ?thesis using assms by (auto simp: page_before_def take_matching_eq min_def)
qed

lemma page_before_next:
  assumes "0 < n" "sorted (map f (rev (xs @ a # ys)))" "distinct (map f (xs @ a # ys))"
    and f: "\<And>x. f x = (c x, i x)" and "c a \<noteq> 0"
  shows "page_before c i (c a) (i a) n (xs @ a # ys) =
    (take n ys, if n \<le> length ys then agents_encodeCursor (c (ys ! (n - 1))) (i (ys ! (n - 1))) else BlankCursor)"
proof -
  have iff: "\<not> (c a \<noteq> 0 \<and> (c x > c a \<or> (c x = c a \<and> i x \<ge> i a))) \<longleftrightarrow> f x < f a" for x
    using assms(5) by (auto simp: f less_prod_def)
  have "filter (\<lambda>x. f x < f a) (xs @ a # ys) = ys"
    using sorted_split_before [OF assms(2,3)] by (auto simp: filter_empty_conv filter_id_conv)
  moreover have "last (take n ys) = ys ! (n - 1)" if "n \<le> length ys"
    using that assms(1) by (subst last_conv_nth) (auto simp: min_def)
  ultimately show ?thesis using assms(1) unfolding page_before_def iff
    by (auto simp: take_matching_eq min_def)
qed

subsection \<open>The run listing\<close>

definition runs_pageable :: "agent_scope \<Rightarrow> run_query \<Rightarrow> agents_store \<Rightarrow> bool" where
  "runs_pageable sc q s \<longleftrightarrow> agents_validate sc = Inr () \<and> tenant_ok sc \<and> agent_runs_ok s \<and>
     (\<forall>r \<in> set (scope_runs sc (query_matches q) s). cursor_safe (arun_CreatedAt r) (arun_ID r))"

lemma run_row_key:
  assumes "agent_runs_ok s" "tenant_ok sc" "(k, r) \<in> set (ag_runs s)" "hasPrefix k (tenantKey sc @ ''|'')"
  shows "k = row_key sc (arun_ID r)"
proof -
  have "\<exists>t. tenant_ok t \<and> k = row_key t (arun_ID r)" using assms(1,3) by (auto simp: agent_runs_ok_def)
  then obtain t where t: "tenant_ok t" "k = row_key t (arun_ID r)" by blast
  then have "same_tenant t sc" using assms(2,4) by (simp add: row_key_prefix)
  then show ?thesis using t(2) by (simp add: row_key_def tenantKey_same)
qed

lemma run_row_in:
  "agent_runs_ok s \<Longrightarrow> tenant_ok sc \<Longrightarrow> (k, r) \<in> set (ag_runs s) \<Longrightarrow> hasPrefix k (tenantKey sc @ ''|'') \<Longrightarrow>
   (row_key sc (arun_ID r), r) \<in> set (ag_runs s)"
  using run_row_key by blast

lemma scope_runs_iff:
  assumes "agent_runs_ok s" "tenant_ok sc"
  shows "r \<in> set (scope_runs sc P s) \<longleftrightarrow> map_of (ag_runs s) (row_key sc (arun_ID r)) = Some r \<and>
    (asc_AgentName sc = [] \<or> arun_AgentName r = asc_AgentName sc) \<and> P r"
proof -
  have wf: "wf_map (ag_runs s)" using assms(1) by (simp add: agent_runs_ok_def)
  show ?thesis
    by (auto simp: scope_runs_def wf_map_in_iff [OF wf, symmetric] intro!: image_eqI
        dest: run_row_in [OF assms])
qed

lemma scope_runs_distinct:
  assumes "agent_runs_ok s" "tenant_ok sc"
  shows "distinct (map arun_key (scope_runs sc P s))"
proof -
  define rows where "rows = filter (\<lambda>(k, run). hasPrefix k (tenantKey sc @ ''|'') \<and>
        \<not> (asc_AgentName sc \<noteq> [] \<and> arun_AgentName run \<noteq> asc_AgentName sc) \<and> P run) (ag_runs s)"
  have "fst p = row_key sc (arun_ID (snd p))" if "p \<in> set rows" for p
    using that run_row_key [OF assms, of "fst p" "snd p"] by (auto simp: rows_def)
  then have "map fst rows = map (\<lambda>p. row_key sc (arun_ID (snd p))) rows" by simp
  moreover have "distinct (map fst rows)"
    using assms(1) by (simp add: rows_def agent_runs_ok_def wf_map_def distinct_map_filter)
  ultimately have "distinct (map (\<lambda>p. row_key sc (arun_ID (snd p))) rows)" by metis
  then have "distinct (map (\<lambda>r. row_key sc (arun_ID r)) (map snd rows))" by (simp add: comp_def)
  then have "distinct (map arun_key (map snd rows))"
    unfolding distinct_map [of arun_key] distinct_map [of "\<lambda>r. row_key sc (arun_ID r)"]
    by (auto simp: inj_on_def arun_key_def)
  then show ?thesis by (simp only: scope_runs_def rows_def)
qed

lemma sort_desc_distinct: "distinct (map f xs) \<Longrightarrow> distinct (map f (sort_desc f xs))"
  by (metis mset_eq_imp_distinct_iff mset_map sort_desc_mset)

interpretation run_pages: loose_pager
  "\<lambda>s. sort_desc arun_key (scope_runs sc (query_matches q) s)" "\<lambda>s c. QueryRuns sc (q\<lparr>rq_Cursor := c\<rparr>) s"
  BlankCursor "\<lambda>r. agents_encodeCursor (arun_CreatedAt r) (arun_ID r)" "agents_limit 50 200 (rq_Limit q)"
  "\<lambda>n. agents_limit 50 200 (rq_Limit q) \<le> n" "runs_pageable sc q"
proof
  have pos: "0 < agents_limit 50 200 (rq_Limit q)" by (rule agents_limit_pos) simp
  have same: "query_matches (q\<lparr>rq_Cursor := c\<rparr>) = query_matches q" for c
    by (simp add: query_matches_def fun_eq_iff)
  show "0 < agents_limit 50 200 (rq_Limit q)" by (rule pos)
  show "agents_encodeCursor (arun_CreatedAt a) (arun_ID a) \<noteq> BlankCursor"
    if "runs_pageable sc q s" "a \<in> set (sort_desc arun_key (scope_runs sc (query_matches q) s))" for s a
    using that by (auto simp: runs_pageable_def agents_encodeCursor_def cursor_encoding_safe)
  show "QueryRuns sc (q\<lparr>rq_Cursor := BlankCursor\<rparr>) s =
      Inr (take (agents_limit 50 200 (rq_Limit q)) (sort_desc arun_key (scope_runs sc (query_matches q) s)),
        if agents_limit 50 200 (rq_Limit q) \<le> length (sort_desc arun_key (scope_runs sc (query_matches q) s))
        then agents_encodeCursor (arun_CreatedAt (sort_desc arun_key (scope_runs sc (query_matches q) s) ! (agents_limit 50 200 (rq_Limit q) - 1)))
               (arun_ID (sort_desc arun_key (scope_runs sc (query_matches q) s) ! (agents_limit 50 200 (rq_Limit q) - 1)))
        else BlankCursor)" if "runs_pageable sc q s" for s
    using that by (simp add: QueryRuns_def runs_pageable_def same agents_decodeCursor_def page_before_blank [OF pos])
  show "QueryRuns sc (q\<lparr>rq_Cursor := agents_encodeCursor (arun_CreatedAt a) (arun_ID a)\<rparr>) s =
      Inr (take (agents_limit 50 200 (rq_Limit q)) ys,
        if agents_limit 50 200 (rq_Limit q) \<le> length ys
        then agents_encodeCursor (arun_CreatedAt (ys ! (agents_limit 50 200 (rq_Limit q) - 1)))
               (arun_ID (ys ! (agents_limit 50 200 (rq_Limit q) - 1)))
        else BlankCursor)"
    if ok: "runs_pageable sc q s" and split: "sort_desc arun_key (scope_runs sc (query_matches q) s) = xs @ a # ys" for s xs a ys
  proof -
    have "a \<in> set (sort_desc arun_key (scope_runs sc (query_matches q) s))" using split by simp
    then have safe: "cursor_safe (arun_CreatedAt a) (arun_ID a)" using ok by (auto simp: runs_pageable_def)
    have "distinct (map arun_key (xs @ a # ys))" "sorted (map arun_key (rev (xs @ a # ys)))"
      using sort_desc_distinct [OF scope_runs_distinct, of s sc "query_matches q"]
        sort_desc_sorted [of arun_key "scope_runs sc (query_matches q) s"] ok
      by (simp_all only: split runs_pageable_def)
    then show ?thesis
      using ok safe page_before_next [OF pos, of arun_key xs a ys arun_CreatedAt arun_ID]
      by (simp add: QueryRuns_def runs_pageable_def same agents_decodeCursor_safe split arun_key_def cursor_safe_def)
  qed
qed simp_all

text \<open>Following the cursors of a run query from the start, with any filters and any
  limit, visits every run of the tenant that matches them exactly once, newest first, and stops.\<close>

theorem query_runs_complete:
  assumes "agents_reachable s" "tenant_ok sc" "agents_validate sc = Inr ()"
    and "\<forall>r. map_of (ag_runs s) (row_key sc (arun_ID r)) = Some r \<longrightarrow> cursor_safe (arun_CreatedAt r) (arun_ID r)"
    and "length (ag_runs s) < fuel"
  shows "\<exists>rs. walk_pages (\<lambda>c. QueryRuns sc (q\<lparr>rq_Cursor := c\<rparr>) s) BlankCursor fuel BlankCursor = Some (Inr rs) \<and>
    distinct rs \<and> sorted (map (\<lambda>r. (arun_CreatedAt r, arun_ID r)) (rev rs)) \<and>
    (\<forall>r. r \<in> set rs \<longleftrightarrow> map_of (ag_runs s) (row_key sc (arun_ID r)) = Some r \<and>
       (asc_AgentName sc = [] \<or> arun_AgentName r = asc_AgentName sc) \<and> query_matches q r)"
proof (intro exI conjI)
  let ?rs = "sort_desc arun_key (scope_runs sc (query_matches q) s)"
  have ok: "agent_runs_ok s" using assms(1) by (rule agents_reachable_runs)
  then have pageable: "runs_pageable sc q s"
    using assms(2-4) by (auto simp: runs_pageable_def scope_runs_iff)
  have "length ?rs \<le> length (ag_runs s)" by (simp add: scope_runs_def)
  then have "length ?rs < fuel" using assms(5) by linarith
  then show "walk_pages (\<lambda>c. QueryRuns sc (q\<lparr>rq_Cursor := c\<rparr>) s) BlankCursor fuel BlankCursor = Some (Inr ?rs)"
    by (rule run_pages.walk_complete [OF pageable])
  show "distinct ?rs"
    using sort_desc_distinct [OF scope_runs_distinct [OF ok assms(2)]] by (simp add: distinct_map)
  show "sorted (map (\<lambda>r. (arun_CreatedAt r, arun_ID r)) (rev ?rs))"
    using sort_desc_sorted [of arun_key] by (simp add: arun_key_def [abs_def])
  show "\<forall>r. r \<in> set ?rs \<longleftrightarrow> map_of (ag_runs s) (row_key sc (arun_ID r)) = Some r \<and>
       (asc_AgentName sc = [] \<or> arun_AgentName r = asc_AgentName sc) \<and> query_matches q r"
    by (simp add: scope_runs_iff [OF ok assms(2)])
qed

definition ex_runs_store :: agents_store where
  "ex_runs_store = fold agents_exec [OpARun ex_agent (ex_agent_run ''r1'' ''Pending'' 5),
     OpARun ex_agent (ex_agent_run ''r2'' ''Succeeded'' 9)] agents_NewMemoryStore"

lemma ex_agent_ok [simp]: "tenant_ok ex_agent" "no_bar ''a''" "no_bar ''b''"
  by (simp_all add: ex_agent_def tenant_ok_def no_bar_def)

lemma ex_runs_reachable: "agents_reachable ex_runs_store"
  unfolding ex_runs_store_def fold_simps o_apply id_apply by (intro agents_step agents_start) simp_all

lemma ex_runs: "ag_runs ex_runs_store =
    [(''o|w|r1'', ex_agent_run ''r1'' ''Pending'' 5), (''o|w|r2'', ex_agent_run ''r2'' ''Succeeded'' 9)]"
  by code_simp

lemma ex_validate: "agents_validate ex_agent = Inr ()"
  by code_simp

definition ex_query :: run_query where
  "ex_query = \<lparr>rq_Phase = [], rq_Trigger = [], rq_SessionID = [], rq_ParentRunID = [], rq_Limit = 1,
     rq_Cursor = BlankCursor\<rparr>"

theorem query_runs_complete_witness:
  "\<exists>rs. walk_pages (\<lambda>c. QueryRuns ex_agent (ex_query\<lparr>rq_Cursor := c\<rparr>) ex_runs_store) BlankCursor 9 BlankCursor =
     Some (Inr rs) \<and> distinct rs"
proof -
  have "cursor_safe 5 ''r1''" "cursor_safe 9 ''r2''" by code_simp+
  then have "\<forall>r. map_of (ag_runs ex_runs_store) (row_key ex_agent (arun_ID r)) = Some r \<longrightarrow>
      cursor_safe (arun_CreatedAt r) (arun_ID r)"
    by (auto simp: ex_runs ex_agent_run_def split: if_splits)
  moreover have "length (ag_runs ex_runs_store) < 9" by (simp add: ex_runs)
  ultimately show ?thesis
    using query_runs_complete [OF ex_runs_reachable ex_agent_ok(1) ex_validate, of 9 ex_query] by fastforce
qed

subsection \<open>Claims\<close>

text \<open>A run has one claimant: a claim succeeds exactly when the run exists and is not
  running, whatever phase it is in otherwise, also a finished one; it makes the run running, keeps
  its first start time, and every later claim of the run is refused and changes nothing, whatever
  request it carries, until another operation writes the run.\<close>

theorem agent_run_claimed_once:
  assumes "agents_validate sc = Inr u"
  shows "((\<exists>r s'. ClaimRun sc i q now s = (Inr r, s')) \<longleftrightarrow>
            (\<exists>r. map_of (ag_runs s) (row_key sc i) = Some r \<and> arun_Phase r \<noteq> ''Running'')) \<and>
    (\<forall>r s'. ClaimRun sc i q now s = (Inr r, s') \<longrightarrow>
       arun_Phase r = ''Running'' \<and> GetRun sc i s' = Inr r \<and> arun_StartedAt r \<noteq> None \<and>
       (\<forall>old t. map_of (ag_runs s) (row_key sc i) = Some old \<longrightarrow> arun_StartedAt old = Some t \<longrightarrow> arun_StartedAt r = Some t) \<and>
       (\<forall>q' now'. ClaimRun sc i q' now' s' = (Inl AgentsRunClaimed, s')))"
  using assms by (auto simp: ClaimRun_def GetRun_def Let_def split: option.splits if_splits)

theorem agent_run_claimed_once_witness:
  "ClaimRun ex_agent ''r2'' ''again'' 20 (snd (ClaimRun ex_agent ''r2'' ''q'' 10 ex_runs_store)) =
     (Inl AgentsRunClaimed, snd (ClaimRun ex_agent ''r2'' ''q'' 10 ex_runs_store))"
proof -
  let ?r = "ClaimRun ex_agent ''r2'' ''q'' 10 ex_runs_store"
  have "\<not> isl (fst ?r)" by code_simp
  then obtain r where "?r = (Inr r, snd ?r)" using result_Inr by blast
  then show ?thesis using agent_run_claimed_once [OF ex_validate, of "''r2''" "''q''" 10 ex_runs_store] by blast
qed

subsection \<open>Teardown\<close>

definition agents_wf :: "agents_store \<Rightarrow> bool" where
  "agents_wf s \<longleftrightarrow> wf_map (ag_runs s) \<and> wf_map (ag_memories s) \<and> wf_map (ag_inbox s)"

lemma agents_wf_exec: "agents_wf s \<Longrightarrow> agents_wf (agents_exec a s)"
  by (cases a) (auto simp: agents_op_defs agents_wf_def wf_map_filter split: sum.splits option.splits)

lemma agents_reachable_wf: "agents_reachable s \<Longrightarrow> agents_wf s"
  by (induction rule: agents_reachable.induct)
    (simp_all add: agents_wf_exec, simp add: agents_wf_def agents_NewMemoryStore_def)

lemma session_prefix:
  assumes "no_bar a" "no_bar (asc_AgentName t)" "tenantKey t = tenantKey sc"
  shows "hasPrefix (sessionKey t x) (tenantKey sc @ ''|'' @ a @ ''|'') \<longleftrightarrow> asc_AgentName t = a"
  using assms by (auto simp: hasPrefix_iff sessionKey_def split_at_bar)

text \<open>Deleting an agent's data is complete for what identifies the agent by name in its
  tenant: its runs, memories and inbox items go and every other agent's stay, its transcripts and
  session summaries go and another agent's stay. The tool calls and the usage rows are left: an
  agent made again under the name starts with its predecessor's audit log and spent budget.\<close>

theorem delete_agent_complete:
  assumes "agents_reachable s" "DeleteAgentData sc a s = (Inr u, s')" "no_bar a" "no_bar b" "b \<noteq> a"
  shows "(\<forall>i r. map_of (ag_runs s') (row_key sc i) = Some r \<longleftrightarrow>
            map_of (ag_runs s) (row_key sc i) = Some r \<and> arun_AgentName r \<noteq> a) \<and>
    (\<forall>i m. map_of (ag_memories s') (row_key sc i) = Some m \<longleftrightarrow>
            map_of (ag_memories s) (row_key sc i) = Some m \<and> amem_AgentName m \<noteq> a) \<and>
    (\<forall>i m. map_of (ag_inbox s') (row_key sc i) = Some m \<longleftrightarrow>
            map_of (ag_inbox s) (row_key sc i) = Some m \<and> ibx_AgentName m \<noteq> a) \<and>
    (\<forall>x. map_of (ag_messages s') (sessionKey (sc\<lparr>asc_AgentName := a\<rparr>) x) = None \<and>
          map_of (ag_summaries s') (sessionKey (sc\<lparr>asc_AgentName := a\<rparr>) x) = None \<and>
          map_of (ag_messages s') (sessionKey (sc\<lparr>asc_AgentName := b\<rparr>) x) =
            map_of (ag_messages s) (sessionKey (sc\<lparr>asc_AgentName := b\<rparr>) x) \<and>
          map_of (ag_summaries s') (sessionKey (sc\<lparr>asc_AgentName := b\<rparr>) x) =
            map_of (ag_summaries s) (sessionKey (sc\<lparr>asc_AgentName := b\<rparr>) x)) \<and>
    (\<forall>i. ListToolCalls sc i s' = ListToolCalls sc i s) \<and>
    (\<forall>now w. GetUsage sc a now w s' = GetUsage sc a now w s)"
proof -
  have wf: "wf_map (ag_runs s)" "wf_map (ag_memories s)" "wf_map (ag_inbox s)"
    using agents_reachable_wf [OF assms(1)] by (simp_all add: agents_wf_def)
  let ?p = "tenantKey sc @ ''|'' @ a @ ''|''"
  have s': "ag_runs s' = filter (\<lambda>(k, run). \<not> (arun_AgentName run = a \<and> hasPrefix k (tenantKey sc @ ''|''))) (ag_runs s)"
    "ag_memories s' = filter (\<lambda>(k, mem). \<not> (amem_AgentName mem = a \<and> hasPrefix k (tenantKey sc @ ''|''))) (ag_memories s)"
    "ag_inbox s' = filter (\<lambda>(k, it). \<not> (ibx_AgentName it = a \<and> hasPrefix k (tenantKey sc @ ''|''))) (ag_inbox s)"
    "ag_messages s' = filter (\<lambda>p. \<not> hasPrefix (fst p) ?p) (ag_messages s)"
    "ag_summaries s' = filter (\<lambda>p. \<not> hasPrefix (fst p) ?p) (ag_summaries s)"
    "ag_toolCalls s' = ag_toolCalls s" "ag_usage s' = ag_usage s"
    using assms(2) by (auto simp: DeleteAgentData_def Let_def case_prod_unfold split: sum.splits)
  have tk: "tenantKey (sc\<lparr>asc_AgentName := c\<rparr>) = tenantKey sc" for c by (simp add: tenantKey_def)
  have pre: "hasPrefix (sessionKey (sc\<lparr>asc_AgentName := a\<rparr>) x) ?p"
    "\<not> hasPrefix (sessionKey (sc\<lparr>asc_AgentName := b\<rparr>) x) ?p" for x
    using session_prefix [of a _ sc x] assms(3-5) tk by simp_all
  have "ListToolCalls sc i s' = ListToolCalls sc i s" "GetUsage sc a now w s' = GetUsage sc a now w s" for i now w
    unfolding ListToolCalls_def GetUsage_def s' by (rule refl)+
  then show ?thesis
    by (intro conjI allI)
      (simp_all add: s' map_of_filter_wf wf map_of_filter_key [where P = "\<lambda>k. \<not> hasPrefix k ?p"] pre
        del: append_Cons)
qed

theorem delete_agent_complete_witness:
  "map_of (ag_runs (snd (DeleteAgentData ex_agent ''a'' ex_runs_store))) (row_key ex_agent ''r1'') = None"
proof -
  let ?r = "DeleteAgentData ex_agent ''a'' ex_runs_store"
  have "\<not> isl (fst ?r)" by code_simp
  then obtain u where r: "?r = (Inr u, snd ?r)" using result_Inr by blast
  have "map_of (ag_runs ex_runs_store) (row_key ex_agent ''r1'') = Some (ex_agent_run ''r1'' ''Pending'' 5)"
    "arun_AgentName (ex_agent_run ''r1'' ''Pending'' 5) = ''a''" by code_simp+
  moreover have "''b'' \<noteq> (''a'' :: string)" by simp
  ultimately show ?thesis
    using delete_agent_complete [OF ex_runs_reachable r ex_agent_ok(2,3)]
    by (metis option.exhaust option.inject)
qed

end
