(* ===== verification/Agents_Budget.thy ===== *)
theory Agents_Budget
  imports Agents_Runs
begin

section \<open>Agents: usage accounting and budgets\<close>

text \<open>
  The budget check of \<open>providers/agents/api/run.go\<close> over the store's usage rows, and the charge
  that every execution path makes after a turn. A usage row is keyed by the start of the window
  it belongs to, and nothing in the key says how long the window is. The parse of a dollar limit
  and its comparison with the spend are done in \<open>float64\<close>, which is an argument here:
  \<open>usd_reached limit micros\<close> says that the limit parses to a positive number that the spend
  reaches.
\<close>

subsection \<open>Budgets\<close>

record agent_budget =
  bud_Window :: string
  bud_USDLimit :: string
  bud_TokenLimit :: int

datatype budget_error = TokensExceeded int int string | USDExceeded int string string

definition budgetWindow :: "agent_budget option \<Rightarrow> duration" where
  "budgetWindow b = (case b of
     Some x \<Rightarrow> if bud_Window x = ''day'' then day_ns else 30 * day_ns | None \<Rightarrow> 30 * day_ns)"

definition budgetName :: "agent_budget option \<Rightarrow> string" where
  "budgetName b = (case b of
     Some x \<Rightarrow> if bud_Window x = ''day'' then ''day'' else ''month'' | None \<Rightarrow> ''month'')"

definition checkBudget ::
  "(string \<Rightarrow> int \<Rightarrow> bool) \<Rightarrow> agent_scope \<Rightarrow> string \<Rightarrow> agent_budget option \<Rightarrow> gotime \<Rightarrow> agents_store \<Rightarrow>
   (budget_error, unit) res" where
  "checkBudget usd_reached scope agentName budget now s =
     (case budget of None \<Rightarrow> Inr () | Some b \<Rightarrow>
      if bud_TokenLimit b = 0 \<and> blank (bud_USDLimit b) then Inr ()
      else
        (case GetUsage scope agentName now (budgetWindow budget) s of
           Inl _ \<Rightarrow> Inr ()
         | Inr u \<Rightarrow>
             if bud_TokenLimit b > 0 \<and> i64 (usg_InputTokens u + usg_OutputTokens u) \<ge> bud_TokenLimit b
             then Inl (TokensExceeded (i64 (usg_InputTokens u + usg_OutputTokens u)) (bud_TokenLimit b) (budgetName budget))
             else (let usd = trim_space (bud_USDLimit b) in
                   if usd \<noteq> [] \<and> usd_reached usd (usg_USDMicros u)
                   then Inl (USDExceeded (usg_USDMicros u) usd (budgetName budget))
                   else Inr ())))"

text \<open>What a finished turn adds, with the window every caller passes.\<close>

definition chargeTurn :: "agent_scope \<Rightarrow> string \<Rightarrow> int \<Rightarrow> int \<Rightarrow> int \<Rightarrow> gotime \<Rightarrow> agents_store \<Rightarrow> agents_store" where
  "chargeTurn scope agentName inTokens outTokens costMicros end0 s =
     snd (AddUsage scope agentName inTokens outTokens costMicros end0 (30 * day_ns) s)"

subsection \<open>Windows and keys\<close>

lemma windowStart_div: "0 < w \<Longrightarrow> windowStart now w = w * (now div w)"
  by (simp add: windowStart_def minus_mod_eq_mult_div)

lemma unix_seconds_inject:
  assumes "x mod 10 ^ 9 = 0" "y mod 10 ^ 9 = 0"
  shows "unix_seconds x = unix_seconds y \<longleftrightarrow> x = y"
proof -
  have "x = 10 ^ 9 * (x div 10 ^ 9)" "y = 10 ^ 9 * (y div 10 ^ 9)"
    using assms mult_div_mod_eq [of "10 ^ 9" x] mult_div_mod_eq [of "10 ^ 9" y] by simp_all
  then show ?thesis by (auto simp: unix_seconds_def)
qed

lemma show_int_no_bar: "no_bar (show_int n)"
proof -
  have "CHR ''|'' \<notin> set (show_nat k)" for k
    using show_nat_digits [of "CHR ''|''" k] by (auto simp: char_minus char_of_inject simp del: of_char_of)
  then show ?thesis by (simp add: show_int_def no_bar_def)
qed

lemma last_field:
  assumes "a @ CHR ''|'' # d = b @ CHR ''|'' # e" "no_bar d" "no_bar e"
  shows "d = e"
proof -
  have "rev d @ CHR ''|'' # rev a = rev e @ CHR ''|'' # rev b"
    using arg_cong [OF assms(1), of rev] by simp
  then show ?thesis using assms(2,3) split_at_bar [of "rev d" "rev e"] by (simp add: no_bar_def)
qed

lemma usage_key_window:
  assumes "usage_key sc a x = usage_key sc' a' y" "x mod 10 ^ 9 = 0" "y mod 10 ^ 9 = 0"
  shows "x = y"
proof -
  have "show_int (unix_seconds x) = show_int (unix_seconds y)"
    using assms(1) last_field [of "tenantKey sc @ ''|'' @ a" _ "tenantKey sc' @ ''|'' @ a'"] show_int_no_bar
    by (simp add: usage_key_def)
  then show ?thesis using assms(2,3) by (simp add: show_int_inject unix_seconds_inject)
qed

lemma window_seconds: "w mod 10 ^ 9 = 0 \<Longrightarrow> 0 < w \<Longrightarrow> windowStart now w mod 10 ^ 9 = 0"
  by (simp add: windowStart_div) (metis dvd_eq_mod_eq_0 dvd_mult2)

subsection \<open>The rows are sums\<close>

lemma i64_add [simp]: "i64 (i64 x + y) = i64 (x + y)" "i64 (x + i64 y) = i64 (x + y)"
  by (simp_all add: i64_def mod_simps algebra_simps)

lemma i64_0 [simp]: "i64 0 = 0"
  by (simp add: i64_def)

type_synonym charge = "int \<times> int \<times> int \<times> gotime"

fun charge_usage :: "agent_scope \<Rightarrow> string \<Rightarrow> duration \<Rightarrow> charge \<Rightarrow> agents_store \<Rightarrow> agents_store" where
  "charge_usage sc a w (x, y, z, t) s = snd (AddUsage sc a x y z t w s)"

definition in_window :: "duration \<Rightarrow> gotime \<Rightarrow> charge \<Rightarrow> bool" where
  "in_window w now c \<longleftrightarrow> windowStart (snd (snd (snd c))) w = windowStart now w"

text \<open>The abstract ledger: what the charges of one window add up to.\<close>

definition ledger :: "(charge \<Rightarrow> int) \<Rightarrow> duration \<Rightarrow> gotime \<Rightarrow> charge list \<Rightarrow> int" where
  "ledger f w now cs = sum_list (map f (filter (in_window w now) cs))"

lemma ledger_snoc: "ledger f w now (cs @ [c]) = ledger f w now cs + (if in_window w now c then f c else 0)"
  by (simp add: ledger_def)

definition window_row :: "agent_scope \<Rightarrow> string \<Rightarrow> duration \<Rightarrow> gotime \<Rightarrow> agents_store \<Rightarrow> usage_row" where
  "window_row sc a w now s =
     (case map_of (ag_usage s) (usage_key sc a (windowStart now w)) of None \<Rightarrow> zero_usage | Some u \<Rightarrow> u)"

lemma charge_row:
  assumes "agents_validate sc = Inr v" "0 < w" "w mod 10 ^ 9 = 0"
  shows "window_row sc a w now (charge_usage sc a w c s) =
    (if in_window w now c
     then (window_row sc a w now s)\<lparr>usg_AgentName := a, usg_WindowStart := windowStart now w,
            usg_InputTokens := i64 (usg_InputTokens (window_row sc a w now s) + fst c),
            usg_OutputTokens := i64 (usg_OutputTokens (window_row sc a w now s) + fst (snd c)),
            usg_USDMicros := i64 (usg_USDMicros (window_row sc a w now s) + fst (snd (snd c))),
            usg_UpdatedAt := snd (snd (snd c))\<rparr>
     else window_row sc a w now s)"
proof -
  obtain x y z t where c: "c = (x, y, z, t)" by (cases c) auto
  have "usage_key sc a (windowStart now w) = usage_key sc a (windowStart t w) \<longleftrightarrow> windowStart t w = windowStart now w"
    using usage_key_window [of sc a "windowStart now w" sc a "windowStart t w"] window_seconds [OF assms(3,2)]
    by auto
  then show ?thesis
    using assms(1) by (simp add: c AddUsage_def Let_def window_row_def in_window_def)
qed

lemma ledger_refined:
  assumes "agents_validate sc = Inr v" "0 < w" "w mod 10 ^ 9 = 0" "ag_usage s = []"
  shows "usg_InputTokens (window_row sc a w now (fold (charge_usage sc a w) cs s)) = i64 (ledger fst w now cs) \<and>
    usg_OutputTokens (window_row sc a w now (fold (charge_usage sc a w) cs s)) = i64 (ledger (fst \<circ> snd) w now cs) \<and>
    usg_USDMicros (window_row sc a w now (fold (charge_usage sc a w) cs s)) = i64 (ledger (fst \<circ> snd \<circ> snd) w now cs)"
proof (induction cs rule: rev_induct)
  case Nil
  then show ?case using assms(4) by (simp add: window_row_def zero_usage_def ledger_def)
next
  case (snoc c cs)
  then show ?case by (simp add: charge_row [OF assms(1-3)] ledger_snoc)
qed

lemma GetUsage_window_row:
  "agents_validate sc = Inr v \<Longrightarrow> \<exists>u. GetUsage sc a now w s = Inr u \<and>
     usg_InputTokens u = usg_InputTokens (window_row sc a w now s) \<and>
     usg_OutputTokens u = usg_OutputTokens (window_row sc a w now s) \<and>
     usg_USDMicros u = usg_USDMicros (window_row sc a w now s)"
  by (auto simp: GetUsage_def Let_def window_row_def zero_usage_def split: option.split)

text \<open>Property C20. The usage rows implement a ledger: after any charges to an agent, in any order
  and over any number of windows, reading the window that contains \<open>now\<close> gives the sums, modulo
  \<open>int64\<close>, of exactly the charges made in that window.\<close>

theorem usage_implements_ledger:
  assumes "agents_validate sc = Inr v" "0 < w" "w mod 10 ^ 9 = 0" "ag_usage s = []"
  shows "\<exists>u. GetUsage sc a now w (fold (charge_usage sc a w) cs s) = Inr u \<and>
    usg_InputTokens u = i64 (ledger fst w now cs) \<and> usg_OutputTokens u = i64 (ledger (fst \<circ> snd) w now cs) \<and>
    usg_USDMicros u = i64 (ledger (fst \<circ> snd \<circ> snd) w now cs)"
  using ledger_refined [OF assms] GetUsage_window_row [OF assms(1)] by metis

theorem usage_implements_ledger_witness:
  "\<exists>u. GetUsage ex_agent ''a'' 5 day_ns (fold (charge_usage ex_agent ''a'' day_ns) [(3, 4, 5, 1), (7, 8, 9, 2)] agents_NewMemoryStore) = Inr u \<and>
     usg_InputTokens u = 10"
proof -
  have "0 < day_ns" "day_ns mod 10 ^ 9 = 0" "ag_usage agents_NewMemoryStore = []"
    by (simp_all add: day_ns_def agents_NewMemoryStore_def)
  from usage_implements_ledger [OF ex_validate this, of "''a''" 5 "[(3, 4, 5, 1), (7, 8, 9, 2)]"]
  have "\<exists>u. GetUsage ex_agent ''a'' 5 day_ns (fold (charge_usage ex_agent ''a'' day_ns) [(3, 4, 5, 1), (7, 8, 9, 2)] agents_NewMemoryStore) = Inr u \<and>
     usg_InputTokens u = i64 (ledger fst day_ns 5 [(3, 4, 5, 1), (7, 8, 9, 2)])" by blast
  moreover have "i64 (ledger fst day_ns 5 [(3, 4, 5, 1), (7, 8, 9, 2)]) = 10" by code_simp
  ultimately show ?thesis by metis
qed

subsection \<open>Daily budgets\<close>

definition month_rows :: "agents_store \<Rightarrow> bool" where
  "month_rows s \<longleftrightarrow> (\<forall>k u. map_of (ag_usage s) k = Some u \<longrightarrow> (\<exists>sc a t. k = usage_key sc a (windowStart t (30 * day_ns))))"

text \<open>The operations of the provider charge with the 30-day window only.\<close>

fun charges_by_month :: "agents_op \<Rightarrow> bool" where
  "charges_by_month (OpAUsage sc a x y z now w) \<longleftrightarrow> w = 30 * day_ns"
| "charges_by_month _ \<longleftrightarrow> True"

lemma month_rows_exec: "month_rows s \<Longrightarrow> charges_by_month a \<Longrightarrow> month_rows (agents_exec a s)"
  by (cases a) (auto simp: agents_op_defs month_rows_def split: sum.splits option.splits)

lemma month_rows_fold: "month_rows s \<Longrightarrow> \<forall>a \<in> set ops. charges_by_month a \<Longrightarrow> month_rows (fold agents_exec ops s)"
  by (induction ops arbitrary: s) (simp_all add: month_rows_exec)

lemma day_not_month:
  assumes "now div day_ns mod 30 \<noteq> 0"
  shows "windowStart now day_ns \<noteq> windowStart t (30 * day_ns)"
proof
  have pos: "0 < day_ns" by (simp add: day_ns_def)
  assume "windowStart now day_ns = windowStart t (30 * day_ns)"
  then have "day_ns * (now div day_ns) = day_ns * (30 * (t div (30 * day_ns)))"
    using pos by (simp add: windowStart_div)
  then have "now div day_ns = 30 * (t div (30 * day_ns))" using pos by simp
  then show False using assms by simp
qed

text \<open>Property C36. A daily budget is not enforced: whatever the agent has spent and however small
  its limits are, the check passes on every day but the first of each 30-day window, because the
  spend is recorded under the start of the 30-day window and the check reads under the start of
  the day.\<close>

theorem daily_budget_not_enforced:
  assumes "\<forall>a \<in> set ops. charges_by_month a" "s = fold agents_exec ops agents_NewMemoryStore"
    and "bud_Window b = ''day''" "now div day_ns mod 30 \<noteq> 0"
    and "bud_TokenLimit b \<ge> 0" "\<And>l. \<not> usd_reached l 0"
  shows "checkBudget usd_reached sc a (Some b) now s = Inr ()"
proof -
  have "month_rows s"
    unfolding assms(2) by (rule month_rows_fold [OF _ assms(1)]) (simp add: month_rows_def agents_NewMemoryStore_def)
  moreover have "usage_key sc a (windowStart now day_ns) \<noteq> usage_key sc' a' (windowStart t (30 * day_ns))" for sc' a' t
    using usage_key_window [of sc a "windowStart now day_ns" sc' a' "windowStart t (30 * day_ns)"]
      day_not_month [OF assms(4), of t] window_seconds [of day_ns now] window_seconds [of "30 * day_ns" t]
    by (auto simp: day_ns_def)
  ultimately have "map_of (ag_usage s) (usage_key sc a (windowStart now day_ns)) = None"
    unfolding month_rows_def by (metis option.exhaust)
  then have "GetUsage sc a now (budgetWindow (Some b)) s \<in> range Inl \<or>
      (\<exists>u. GetUsage sc a now (budgetWindow (Some b)) s = Inr u \<and> usg_InputTokens u = 0 \<and> usg_OutputTokens u = 0 \<and> usg_USDMicros u = 0)"
    using assms(3) by (auto simp: GetUsage_def Let_def budgetWindow_def zero_usage_def split: sum.split)
  then show ?thesis using assms(5,6) by (auto simp: checkBudget_def Let_def)
qed

text \<open>An agent with a daily limit of one token that has used a million on the second day.\<close>

theorem daily_budget_not_enforced_witness:
  "checkBudget (\<lambda>l m. m > 0) ex_agent ''a'' (Some \<lparr>bud_Window = ''day'', bud_USDLimit = [], bud_TokenLimit = 1\<rparr>) (day_ns + 5)
     (fold agents_exec [OpAUsage ex_agent ''a'' 1000000 1000000 0 (day_ns + 3) (30 * day_ns)] agents_NewMemoryStore) = Inr ()"
  by (rule daily_budget_not_enforced [OF _ refl]) (simp_all add: day_ns_def)

text \<open>A monthly token budget is enforced: the check refuses exactly when the tokens
  charged in the current 30-day window, as an \<open>int64\<close> sum, have reached the limit.\<close>

theorem monthly_budget_enforced:
  assumes "agents_validate sc = Inr v" "bud_Window b \<noteq> ''day''" "0 < bud_TokenLimit b" "blank (bud_USDLimit b)"
    and "ag_usage s0 = []" "s = fold (\<lambda>(x, y, z, t). chargeTurn sc a x y z t) cs s0"
  shows "checkBudget usd_reached sc a (Some b) now s = Inr () \<longleftrightarrow>
    i64 (ledger (\<lambda>c. fst c + fst (snd c)) (30 * day_ns) now cs) < bud_TokenLimit b"
proof -
  have w: "0 < 30 * day_ns" "(30 * day_ns) mod 10 ^ 9 = 0" by (simp_all add: day_ns_def)
  have "(\<lambda>(x, y, z, t). chargeTurn sc a x y z t) = charge_usage sc a (30 * day_ns)"
    by (auto simp: fun_eq_iff chargeTurn_def)
  then obtain u where u: "GetUsage sc a now (30 * day_ns) s = Inr u"
    "usg_InputTokens u = i64 (ledger fst (30 * day_ns) now cs)"
    "usg_OutputTokens u = i64 (ledger (fst \<circ> snd) (30 * day_ns) now cs)"
    using usage_implements_ledger [OF assms(1) w assms(5)] assms(6) by metis
  have "ledger (\<lambda>c. fst c + fst (snd c)) (30 * day_ns) now cs =
      ledger fst (30 * day_ns) now cs + ledger (fst \<circ> snd) (30 * day_ns) now cs"
    by (simp add: ledger_def sum_list_addf comp_def)
  then show ?thesis
    using assms(2-4) u by (auto simp: checkBudget_def budgetWindow_def blank_def Let_def)
qed

theorem monthly_budget_enforced_witness:
  "checkBudget (\<lambda>l m. m > 0) ex_agent ''a'' (Some \<lparr>bud_Window = ''month'', bud_USDLimit = [], bud_TokenLimit = 7\<rparr>) 5
     (fold (\<lambda>(x, y, z, t). chargeTurn ex_agent ''a'' x y z t) [(3, 4, 0, 1)] agents_NewMemoryStore) \<noteq> Inr ()"
proof -
  have "\<not> i64 (ledger (\<lambda>c. fst c + fst (snd c)) (30 * day_ns) 5 [(3, 4, 0, 1)]) < 7" by code_simp
  moreover have "ag_usage agents_NewMemoryStore = []" by (simp add: agents_NewMemoryStore_def)
  ultimately show ?thesis
    using monthly_budget_enforced [OF ex_validate _ _ _ _ refl, where a = "''a''" and cs = "[(3, 4, 0, 1)]" and now = 5
        and b = "\<lparr>bud_Window = ''month'', bud_USDLimit = [], bud_TokenLimit = 7\<rparr>" and ?s0.0 = agents_NewMemoryStore]
    by (simp add: blank_def)
qed

end
