(* ===== verification/Agents_Recovery.thy ===== *)
theory Agents_Recovery
  imports Agents_Runs Go_Text
begin

section \<open>Agents: resuming and recovering runs\<close>

text \<open>
  What happens to a run between executions: \<open>finishRun\<close> (\<open>api/run.go\<close>), the gate at the head of
  \<open>resumeRun\<close> (\<open>api/resume.go\<close>), the recovery of stranded runs (\<open>api/recover.go\<close>) and the
  background executor's half of it, \<open>resumeRecoveredRun\<close> (\<open>api/background.go\<close>). Logging and
  published events are not part of the model. The execution that follows a passed gate is the
  engine's; here it is the run the gate hands over. \<open>checkpoint_ok\<close> says that the stored payload
  decodes as a checkpoint.
\<close>

subsection \<open>Finishing a run\<close>

definition maxStoredOutput :: nat where "maxStoredOutput = 256 * 1024"

record run_outcome =
  out_Phase :: string
  out_Message :: string
  out_InputTokens :: int
  out_OutputTokens :: int
  out_CostMicros :: int
  out_Output :: string
  out_Sources :: "string list"

definition finishRun :: "agent_scope \<Rightarrow> string \<Rightarrow> run_outcome \<Rightarrow> gotime \<Rightarrow> agents_store \<Rightarrow> agents_store" where
  "finishRun scope runID out end0 s =
     (case GetRun scope runID s of Inl _ \<Rightarrow> s | Inr r0 \<Rightarrow>
      (let r1 = r0\<lparr>arun_Phase := out_Phase out, arun_Message := out_Message out, arun_Checkpoint := []\<rparr>;
           r2 = (if out_Output out \<noteq> [] then r1\<lparr>arun_Output := safeTruncate (out_Output out) maxStoredOutput\<rparr> else r1);
           r3 = (if length (out_Sources out) > 0 then r2\<lparr>arun_Sources := out_Sources out\<rparr> else r2);
           r4 = (if out_InputTokens out > 0 \<or> out_OutputTokens out > 0
                 then r3\<lparr>arun_InputTokens := out_InputTokens out, arun_OutputTokens := out_OutputTokens out\<rparr> else r3);
           r5 = (if out_CostMicros out > 0 then r4\<lparr>arun_USDMicros := out_CostMicros out\<rparr> else r4)
       in snd (SaveRun scope (r5\<lparr>arun_UpdatedAt := end0, arun_FinishedAt := Some end0\<rparr>) s)))"

definition failed_outcome :: "string \<Rightarrow> run_outcome" where
  "failed_outcome reason = \<lparr>out_Phase = ''Failed'', out_Message = reason, out_InputTokens = 0,
     out_OutputTokens = 0, out_CostMicros = 0, out_Output = [], out_Sources = []\<rparr>"

subsection \<open>The gate of a resume\<close>

record resume_intent =
  ri_Approval :: bool
  ri_Approve :: bool
  ri_Note :: string
  ri_FromPhase :: string

definition approval_intent :: "bool \<Rightarrow> string \<Rightarrow> resume_intent" where
  "approval_intent approve note = \<lparr>ri_Approval = True, ri_Approve = approve, ri_Note = note, ri_FromPhase = ''PendingApproval''\<rparr>"

definition recovery_intent :: resume_intent where
  "recovery_intent = \<lparr>ri_Approval = False, ri_Approve = False, ri_Note = [], ri_FromPhase = ''Running''\<rparr>"

text \<open>\<open>resumeRun\<close> up to and including the claim: the run it goes on to execute, if any. The read of the run and
  its claim are two calls to the store in the code and one step here, so nothing is said of what happens to the run
  between them.\<close>

definition resumeGate ::
  "(string \<Rightarrow> bool) \<Rightarrow> agent_scope \<Rightarrow> string \<Rightarrow> resume_intent \<Rightarrow> string \<Rightarrow> gotime \<Rightarrow> agents_store \<Rightarrow>
   agent_run option \<times> agents_store" where
  "resumeGate checkpoint_ok scope runID intent requestID now s =
     (case GetRun scope runID s of Inl _ \<Rightarrow> (None, s) | Inr run \<Rightarrow>
      if arun_Phase run \<noteq> ri_FromPhase intent \<or> length (arun_Checkpoint run) = 0 then (None, s)
      else if \<not> checkpoint_ok (arun_Checkpoint run) then (None, s)
      else (case ClaimRun scope (arun_ID run) requestID now s of
              (Inl _, s') \<Rightarrow> (None, s') | (Inr _, s') \<Rightarrow> (Some run, s')))"

subsection \<open>Recovery\<close>

definition staleRunGrace :: duration where "staleRunGrace = 15 * 60 * 10 ^ 9"
definition maxRecoveryAttempts :: int where "maxRecoveryAttempts = 3"
definition sweepBatch :: int where "sweepBatch = 50"

text \<open>The mid-run checkpoint: only a running run gets one.\<close>

definition checkpointRecorder :: "agent_scope \<Rightarrow> string \<Rightarrow> string \<Rightarrow> gotime \<Rightarrow> agents_store \<Rightarrow> agents_store" where
  "checkpointRecorder scope runID payload now s =
     (case GetRun scope runID s of Inl _ \<Rightarrow> s | Inr stored \<Rightarrow>
      if arun_Phase stored \<noteq> ''Running'' then s
      else snd (SaveRun scope (stored\<lparr>arun_Checkpoint := payload, arun_UpdatedAt := now\<rparr>) s))"

text \<open>What the sweep hands to the notifier, with the cluster it names.\<close>

definition reportStrandedRun :: "agent_scope \<Rightarrow> agent_run \<Rightarrow> bool \<Rightarrow> agents_store \<Rightarrow> (string \<times> string) option" where
  "reportStrandedRun scope run can_notify s =
     (case arun_Delivery run of None \<Rightarrow> None | Some d \<Rightarrow>
      if \<not> can_notify \<or> (rdl_SourceName d = [] \<and> rdl_NotifyChannel d = []) then None
      else (case FindClusterForScope (asc_OrgUUID scope) (asc_WorkspaceUUID scope) s of
              None \<Rightarrow> None
            | Some clusterID \<Rightarrow>
                (let text = [CHR 0xE2, CHR 0x9A, CHR 0xA0, CHR 0xEF, CHR 0xB8, CHR 0x8F] @
                       '' I lost that request when this service restarted, and it did not finish. '' @
                       ''Nothing was completed, so it is safe to ask again.'';
                     ask = trim_space (arun_Input run)
                 in Some (clusterID, if ask \<noteq> []
                      then text @ [CHR 0x0A, CHR 0x0A] @ ''You asked: '' @ safeTruncate (join_with '' '' (fields_from [] ask)) 300
                      else text))))"

type_synonym resume_runner = "agent_scope \<times> agent_run \<Rightarrow> string \<Rightarrow> agents_store \<Rightarrow> (string, unit) res \<times> agents_store"

definition fail_run ::
  "agent_scope \<Rightarrow> agent_run \<Rightarrow> bool \<Rightarrow> gotime \<Rightarrow> string \<Rightarrow> agents_store \<Rightarrow>
   (bool \<times> (string \<times> string) option) \<times> agents_store" where
  "fail_run scope run can_notify now reason s =
     (let s' = finishRun scope (arun_ID run) (failed_outcome reason) now s
      in ((False, reportStrandedRun scope run can_notify s'), s'))"

definition restarted :: string where
  "restarted = ''the provider restarted while this run was in progress''"

definition recoverRun ::
  "resume_runner option \<Rightarrow> bool \<Rightarrow> gotime \<Rightarrow> agent_scope \<times> agent_run \<Rightarrow> agents_store \<Rightarrow>
   (bool \<times> (string \<times> string) option) \<times> agents_store" where
  "recoverRun resume can_notify now sr s =
     (let scope = fst sr; run = snd sr; fail = (\<lambda>reason s. fail_run scope run can_notify now (restarted @ reason) s) in
      if asc_OrgUUID scope = [] \<or> asc_WorkspaceUUID scope = [] then
        fail '', and its workspace could not be resolved to resume it'' s
      else if length (arun_Checkpoint run) = 0 then
        fail ''; it had not reached a checkpoint, so it could not be resumed'' s
      else if arun_Attempt run \<ge> maxRecoveryAttempts then
        fail (''; it has already been resumed '' @ show_int (arun_Attempt run) @
              '' times without finishing, so it will not be retried again'') s
      else (case resume of
          None \<Rightarrow> fail '', and background execution is not configured, so it could not be resumed'' s
        | Some f \<Rightarrow>
            (case FindClusterForScope (asc_OrgUUID scope) (asc_WorkspaceUUID scope) s of
               None \<Rightarrow> fail '', and its workspace mapping is missing, so it could not be resumed'' s
             | Some clusterID \<Rightarrow>
                 (case f sr clusterID s of
                    (Inl e, s') \<Rightarrow> fail ('', and resuming it failed: '' @ e) s'
                  | (Inr _, s') \<Rightarrow> ((True, None), s')))))"

text \<open>The runner the background executor installs; it starts the resume on a goroutine of its own,
  which is a later step.\<close>

definition resumeRecoveredRun :: "(string \<Rightarrow> string option) \<Rightarrow> gotime \<Rightarrow> resume_runner" where
  "resumeRecoveredRun scoped_error now sr clusterID s =
     (case scoped_error clusterID of Some e \<Rightarrow> (Inl (''workspace '' @ clusterID @ '': '' @ e), s) | None \<Rightarrow>
      (case GetRun (fst sr) (arun_ID (snd sr)) s of
         Inl _ \<Rightarrow> (Inr (), s)
       | Inr stored \<Rightarrow>
           (case SaveRun (fst sr) (stored\<lparr>arun_Attempt := i64 (arun_Attempt stored + 1), arun_UpdatedAt := now\<rparr>) s of
              (Inl _, s') \<Rightarrow> (Inl ''recording the resume attempt'', s')
            | (Inr _, s') \<Rightarrow> (Inr (), s'))))"

definition sweepStaleRuns ::
  "resume_runner option \<Rightarrow> bool \<Rightarrow> string set \<Rightarrow> gotime \<Rightarrow> agents_store \<Rightarrow> (int \<times> int) \<times> agents_store" where
  "sweepStaleRuns resume can_notify live now s =
     fold (\<lambda>sr ((resumed, failed), s).
         if arun_ID (snd sr) \<in> live then ((resumed, failed), s)
         else (case recoverRun resume can_notify now sr s of
                 ((True, _), s') \<Rightarrow> ((resumed + 1, failed), s')
               | ((False, _), s') \<Rightarrow> ((resumed, failed + 1), s')))
       (ListUnfinishedRuns [''Running'', ''Pending''] (now - staleRunGrace) sweepBatch s) ((0, 0), s)"

subsection \<open>Who may resume\<close>

lemma withAgent_validate: "withAgent sc = Inr u \<Longrightarrow> agents_validate sc = Inr ()"
  by (auto simp: withAgent_def split: sum.splits)

lemma GetRun_iff:
  "GetRun sc i s = Inr r \<longleftrightarrow> agents_validate sc = Inr () \<and> map_of (ag_runs s) (row_key sc i) = Some r"
  by (cases "agents_validate sc") (auto simp: GetRun_def split: option.splits)

lemma GetRun_ID: "agents_reachable s \<Longrightarrow> tenant_ok sc \<Longrightarrow> GetRun sc i s = Inr r \<Longrightarrow> arun_ID r = i"
  using agent_run_key [OF agents_reachable_runs] by (auto simp: GetRun_iff)

lemma SaveRun_ok: "withAgent sc = Inr u \<Longrightarrow> arun_ID r \<noteq> [] \<Longrightarrow> SaveRun sc r s = (Inr (),
   s\<lparr>ag_runs := mput (row_key sc (arun_ID r)) r (ag_runs s), ag_runScopes := mput (row_key sc (arun_ID r)) sc (ag_runScopes s)\<rparr>)"
  by (simp add: SaveRun_def Let_def)

lemma ClaimRun_running:
  "GetRun sc i s = Inr r \<Longrightarrow> arun_Phase r = ''Running'' \<Longrightarrow> ClaimRun sc i q now s = (Inl AgentsRunClaimed, s)"
  by (auto simp: GetRun_iff ClaimRun_def Let_def)

text \<open>Property C37. Recovery never resumes a run: in every reachable state the gate of a recovery
  resume lets no run through and changes nothing, because it asks for a run that is running and the
  claim that follows refuses a run that is running.\<close>

theorem recovery_never_resumes:
  assumes "agents_reachable s" "tenant_ok sc"
  shows "resumeGate checkpoint_ok sc i recovery_intent q now s = (None, s)"
proof (cases "GetRun sc i s")
  case (Inr r)
  then show ?thesis
    using ClaimRun_running [OF Inr] GetRun_ID [OF assms Inr]
    by (auto simp: resumeGate_def recovery_intent_def)
qed (simp add: resumeGate_def)

definition ex_run_at :: "string \<Rightarrow> int \<Rightarrow> agent_run" where
  "ex_run_at phase n = (ex_agent_run ''r'' phase 5)\<lparr>arun_Checkpoint := ''{}'', arun_Attempt := n\<rparr>"

definition ex_store_at :: "string \<Rightarrow> agents_store" where
  "ex_store_at phase = agents_exec (OpARun ex_agent (ex_run_at phase 0)) agents_NewMemoryStore"

lemma ex_store_at_reachable: "agents_reachable (ex_store_at phase)"
  unfolding ex_store_at_def by (intro agents_step agents_start) simp

lemma ex_withAgent: "withAgent ex_agent = Inr ()"
  by code_simp

lemma ex_store_at_run: "GetRun ex_agent ''r'' (ex_store_at phase) = Inr (ex_run_at phase 0)"
  by (simp add: ex_store_at_def SaveRun_ok [OF ex_withAgent] GetRun_iff ex_validate ex_run_at_def ex_agent_run_def)

theorem recovery_never_resumes_witness:
  "GetRun ex_agent ''r'' (ex_store_at ''Running'') = Inr (ex_run_at ''Running'' 0) \<and>
   resumeGate (\<lambda>_. True) ex_agent ''r'' recovery_intent ''q'' 99 (ex_store_at ''Running'') = (None, ex_store_at ''Running'')"
  using recovery_never_resumes [OF ex_store_at_reachable ex_agent_ok(1)] ex_store_at_run by simp

text \<open>An approval is acted on once: the first decision on a run that waits for one
  passes the gate with the run as it was stored and makes it running, and then every other resume
  of the run, by whichever path and with whichever verdict, is stopped and changes nothing.\<close>

theorem approval_resumes_once:
  assumes "agents_reachable s" "tenant_ok sc" "GetRun sc i s = Inr r" "arun_Phase r = ''PendingApproval''"
    and "arun_Checkpoint r \<noteq> []" "checkpoint_ok (arun_Checkpoint r)"
  shows "\<exists>s' r'. resumeGate checkpoint_ok sc i (approval_intent approve note) q now s = (Some r, s') \<and>
    GetRun sc i s' = Inr r' \<and> arun_Phase r' = ''Running'' \<and>
    (\<forall>intent q' now'. ri_FromPhase intent \<in> {''PendingApproval'', ''Running''} \<longrightarrow>
       resumeGate checkpoint_ok sc i intent q' now' s' = (None, s'))"
proof -
  have i: "arun_ID r = i" by (rule GetRun_ID [OF assms(1-3)])
  obtain r' s' where claim: "ClaimRun sc i q now s = (Inr r', s')"
    using assms(3,4) by (auto simp: ClaimRun_def GetRun_iff Let_def)
  have r': "GetRun sc i s' = Inr r'" "arun_Phase r' = ''Running''" "arun_ID r' = i"
    using claim assms(3) i by (auto simp: ClaimRun_def GetRun_iff Let_def split: if_splits)
  have "resumeGate checkpoint_ok sc i intent q' now' s' = (None, s')"
    if "ri_FromPhase intent \<in> {''PendingApproval'', ''Running''}" for intent q' now'
    using that r' ClaimRun_running [OF r'(1,2)] by (auto simp: resumeGate_def)
  moreover have "resumeGate checkpoint_ok sc i (approval_intent approve note) q now s = (Some r, s')"
    using claim assms(3-6) i by (simp add: resumeGate_def approval_intent_def)
  ultimately show ?thesis using r'(1,2) by blast
qed

theorem approval_resumes_once_witness:
  "\<exists>s'. resumeGate (\<lambda>_. True) ex_agent ''r'' (approval_intent False ''no'') ''q'' 9 (ex_store_at ''PendingApproval'') =
     (Some (ex_run_at ''PendingApproval'' 0), s')"
  using approval_resumes_once [OF ex_store_at_reachable ex_agent_ok(1) ex_store_at_run, of "''PendingApproval''" "\<lambda>_. True" False "''no''" "''q''" 9]
  by (auto simp: ex_run_at_def ex_agent_run_def)

subsection \<open>The end of a stranded run\<close>

text \<open>One round: the sweep takes the run up and the goroutine it starts reaches its gate.\<close>

definition recover_round ::
  "(string \<Rightarrow> bool) \<Rightarrow> (string \<Rightarrow> string option) \<Rightarrow> agent_scope \<Rightarrow> string \<Rightarrow> gotime \<Rightarrow> agents_store \<Rightarrow> agents_store" where
  "recover_round checkpoint_ok scoped_error sc i t s =
     (case GetRun sc i s of Inl _ \<Rightarrow> s | Inr r \<Rightarrow>
      (case recoverRun (Some (resumeRecoveredRun scoped_error t)) True t (sc, r) s of
         ((True, _), s') \<Rightarrow> snd (resumeGate checkpoint_ok sc i recovery_intent [] t s')
       | (_, s') \<Rightarrow> s'))"

definition stranded :: "(string \<Rightarrow> string option) \<Rightarrow> agent_scope \<Rightarrow> string \<Rightarrow> agent_run \<Rightarrow> agents_store \<Rightarrow> bool" where
  "stranded scoped_error sc i r s \<longleftrightarrow> withAgent sc = Inr () \<and> GetRun sc i s = Inr r \<and> arun_ID r = i \<and> i \<noteq> [] \<and>
     arun_Phase r = ''Running'' \<and> arun_Checkpoint r \<noteq> [] \<and>
     (\<exists>c. FindClusterForScope (asc_OrgUUID sc) (asc_WorkspaceUUID sc) s = Some c \<and> scoped_error c = None)"

lemma withAgent_names: "withAgent sc = Inr u \<Longrightarrow> asc_OrgUUID sc \<noteq> [] \<and> asc_WorkspaceUUID sc \<noteq> []"
  by (auto simp: withAgent_def agents_validate_def blank_def guard_res_def split: sum.splits if_splits)

lemma recover_round_attempt:
  assumes "stranded sce sc i r s" "0 \<le> arun_Attempt r" "arun_Attempt r < 3"
  shows "stranded sce sc i (r\<lparr>arun_Attempt := arun_Attempt r + 1, arun_UpdatedAt := t\<rparr>) (recover_round ok sce sc i t s)"
proof -
  let ?r = "r\<lparr>arun_Attempt := arun_Attempt r + 1, arun_UpdatedAt := t\<rparr>"
  let ?s = "s\<lparr>ag_runs := mput (row_key sc i) ?r (ag_runs s), ag_runScopes := mput (row_key sc i) sc (ag_runScopes s)\<rparr>"
  have sc: "withAgent sc = Inr ()" "GetRun sc i s = Inr r" "arun_ID r = i" "i \<noteq> []"
    "arun_Phase r = ''Running''" "arun_Checkpoint r \<noteq> []"
    and "\<exists>c. FindClusterForScope (asc_OrgUUID sc) (asc_WorkspaceUUID sc) s = Some c \<and> sce c = None"
    using assms(1) by (simp_all add: stranded_def)
  then obtain c where c: "FindClusterForScope (asc_OrgUUID sc) (asc_WorkspaceUUID sc) s = Some c" "sce c = None"
    by blast
  have "i64 (arun_Attempt r + 1) = arun_Attempt r + 1"
    using assms(2,3) by (intro i64_id) (simp_all add: min_i64_def max_i64_def)
  then have "resumeRecoveredRun sce t (sc, r) c s = (Inr (), ?s)"
    using sc c by (simp add: resumeRecoveredRun_def SaveRun_ok)
  then have "recoverRun (Some (resumeRecoveredRun sce t)) True t (sc, r) s = ((True, None), ?s)"
    using sc c withAgent_names [OF sc(1)] assms(3) by (simp add: recoverRun_def maxRecoveryAttempts_def Let_def)
  moreover have get: "GetRun sc i ?s = Inr ?r"
    using withAgent_validate [OF sc(1)] by (simp add: GetRun_iff)
  then have "resumeGate ok sc i recovery_intent [] t ?s = (None, ?s)"
    using ClaimRun_running [OF get] sc by (simp add: resumeGate_def recovery_intent_def)
  ultimately have "recover_round ok sce sc i t s = ?s" using sc(2) by (simp add: recover_round_def)
  moreover have "FindClusterForScope x y ?s = FindClusterForScope x y s" for x y
    by (simp add: FindClusterForScope_def)
  ultimately show ?thesis using sc c get by (simp add: stranded_def)
qed

lemma recover_round_gives_up:
  assumes "stranded sce sc i r s" "3 \<le> arun_Attempt r"
  shows "\<exists>r'. GetRun sc i (recover_round ok sce sc i t s) = Inr r' \<and> arun_Phase r' = ''Failed'' \<and>
    arun_Checkpoint r' = [] \<and> arun_FinishedAt r' = Some t"
proof -
  have sc: "withAgent sc = Inr ()" "GetRun sc i s = Inr r" "arun_ID r = i" "i \<noteq> []" "arun_Checkpoint r \<noteq> []"
    using assms(1) by (simp_all add: stranded_def)
  let ?r = "r\<lparr>arun_Phase := ''Failed'', arun_Message := restarted @ ''; it has already been resumed '' @ show_int (arun_Attempt r) @
      '' times without finishing, so it will not be retried again'', arun_Checkpoint := [], arun_UpdatedAt := t, arun_FinishedAt := Some t\<rparr>"
  have "\<exists>note. recoverRun (Some (resumeRecoveredRun sce t)) True t (sc, r) s =
      ((False, note), snd (SaveRun sc ?r s))"
    using sc withAgent_names [OF sc(1)] assms(2)
    by (simp add: recoverRun_def fail_run_def finishRun_def failed_outcome_def maxRecoveryAttempts_def Let_def)
  then have "recover_round ok sce sc i t s = snd (SaveRun sc ?r s)"
    using sc(2) by (auto simp: recover_round_def)
  then show ?thesis using sc withAgent_validate [OF sc(1)] by (simp add: SaveRun_ok GetRun_iff)
qed

text \<open>A stranded run fails without having been tried again: a run that a crash left
  running with a checkpoint is taken up by three sweeps, after which it is where the crash left it
  but for its attempt count and its update time, and the fourth sweep fails it and drops its
  checkpoint.\<close>

theorem stranded_run_fails_untried:
  assumes "agents_reachable s" "tenant_ok sc" "withAgent sc = Inr ()" "GetRun sc i s = Inr r" "i \<noteq> []"
    and "arun_Phase r = ''Running''" "arun_Checkpoint r \<noteq> []" "arun_Attempt r = 0"
    and "FindClusterForScope (asc_OrgUUID sc) (asc_WorkspaceUUID sc) s = Some c" "scoped_error c = None"
    and "s3 = fold (recover_round checkpoint_ok scoped_error sc i) [t1, t2, t3] s"
  shows "GetRun sc i s3 = Inr (r\<lparr>arun_Attempt := 3, arun_UpdatedAt := t3\<rparr>) \<and>
    (\<exists>r'. GetRun sc i (recover_round checkpoint_ok scoped_error sc i t4 s3) = Inr r' \<and>
       arun_Phase r' = ''Failed'' \<and> arun_Checkpoint r' = [] \<and> arun_FinishedAt r' = Some t4)"
proof -
  let ?round = "recover_round checkpoint_ok scoped_error sc i"
  have "stranded scoped_error sc i r s"
    using assms GetRun_ID [OF assms(1,2,4)] by (simp add: stranded_def)
  from recover_round_attempt [OF this, of t1 checkpoint_ok]
  have "stranded scoped_error sc i (r\<lparr>arun_Attempt := 1, arun_UpdatedAt := t1\<rparr>) (?round t1 s)"
    using assms(8) by simp
  from recover_round_attempt [OF this, of t2 checkpoint_ok]
  have "stranded scoped_error sc i (r\<lparr>arun_Attempt := 2, arun_UpdatedAt := t2\<rparr>) (?round t2 (?round t1 s))" by simp
  from recover_round_attempt [OF this, of t3 checkpoint_ok]
  have s3: "stranded scoped_error sc i (r\<lparr>arun_Attempt := 3, arun_UpdatedAt := t3\<rparr>) s3"
    using assms(11) by simp
  then show ?thesis using recover_round_gives_up [OF s3, of checkpoint_ok t4] by (simp add: stranded_def)
qed

definition ex_stranded_store :: agents_store where
  "ex_stranded_store = agents_exec (OpATenant ''c'' \<lparr>tnt_OrgUUID = ''o'', tnt_WorkspaceUUID = ''w'', tnt_UpdatedAt = 1\<rparr>)
     (ex_store_at ''Running'')"

theorem stranded_run_fails_untried_witness:
  "GetRun ex_agent ''r'' (fold (recover_round (\<lambda>_. True) (\<lambda>_. None) ex_agent ''r'') [1000, 2000, 3000] ex_stranded_store) =
     Inr ((ex_run_at ''Running'' 0)\<lparr>arun_Attempt := 3, arun_UpdatedAt := 3000\<rparr>)"
proof -
  have "agents_reachable ex_stranded_store"
    unfolding ex_stranded_store_def
    by (rule agents_step [OF ex_store_at_reachable]) (simp add: tenant_ok_def no_bar_def)
  moreover have "GetRun ex_agent ''r'' ex_stranded_store = Inr (ex_run_at ''Running'' 0)"
    using ex_store_at_run [of "''Running''"] by (simp add: ex_stranded_store_def SaveTenantRef_def GetRun_iff)
  moreover have "FindClusterForScope (asc_OrgUUID ex_agent) (asc_WorkspaceUUID ex_agent) ex_stranded_store = Some ''c''"
    by code_simp
  ultimately show ?thesis
    using stranded_run_fails_untried [OF _ ex_agent_ok(1) ex_withAgent _ _ _ _ _ _ _ refl, of ex_stranded_store "''r''"
        "ex_run_at ''Running'' 0" "''c''" "\<lambda>_. None" "\<lambda>_. True" 1000 2000 3000]
    by (simp add: ex_run_at_def ex_agent_run_def)
qed

end
