(* ===== verification/Agents_Channels.thy ===== *)
theory Agents_Channels
  imports Go_Text
begin

section \<open>Agents: splitting an answer for a chat backend\<close>

text \<open>
  \<open>providers/agents/channels/chunk.go\<close> and the backend limits of \<open>channels.go\<close>: a long answer is
  cut into pieces that fit one message, at the most natural boundary in the last part of the
  window. The loop of \<open>chunkMessage\<close> is a recursion whose measure is the text that is left; it
  is only entered with a positive limit, and for a limit of 0 the recursion stops at once.
\<close>

definition messageLimit :: "string \<Rightarrow> nat" where
  "messageLimit typ = (if typ = ''discord'' then 2000 else if typ = ''telegram'' then 4096
     else if typ = ''slack'' then 3000 else 0)"

fun first_break :: "string \<Rightarrow> nat \<Rightarrow> string list \<Rightarrow> nat option" where
  "first_break window minCut [] = None"
| "first_break window minCut (sep # seps) =
     (case last_index window sep of
        Some i \<Rightarrow> if i \<ge> minCut then Some (i + length sep) else first_break window minCut seps
      | None \<Rightarrow> first_break window minCut seps)"

definition separators :: "string list" where
  "separators = [[CHR 0x0A, CHR 0x0A], [CHR 0x0A], ''. '', ''! '', ''? '']"

definition breakPoint :: "string \<Rightarrow> nat \<Rightarrow> nat" where
  "breakPoint s limit =
     (case first_break (take limit s) (limit * 3 div 5) separators of
        Some pos \<Rightarrow> pos
      | None \<Rightarrow> (let pos = back_to_rune s limit in if pos = 0 then limit else pos))"

lemma first_break_range:
  "first_break w m seps = Some c \<Longrightarrow> [] \<notin> set seps \<Longrightarrow> 0 < c \<and> c \<le> length w"
  by (induction seps) (auto split: option.splits if_splits dest: last_index_bound)

lemma breakPoint_range:
  assumes "0 < limit" "limit < length s"
  shows "0 < breakPoint s limit \<and> breakPoint s limit \<le> limit"
proof (cases "first_break (take limit s) (limit * 3 div 5) separators")
  case None
  then show ?thesis using back_to_rune_le [of s limit] assms by (simp add: breakPoint_def Let_def)
next
  case (Some c)
  moreover have "[] \<notin> set separators" by (simp add: separators_def)
  ultimately show ?thesis using first_break_range assms(2) by (fastforce simp: breakPoint_def)
qed

function chunk_from :: "nat \<Rightarrow> string \<Rightarrow> string list" where
  "chunk_from limit rest =
     (if limit = 0 \<or> length rest \<le> limit then (if blank rest then [] else [rest])
      else (let pos = breakPoint rest limit
            in trim_right_in [CHR '' '', CHR 0x0A] (take pos rest) # chunk_from limit (trim_left_in [CHR 0x0A] (drop pos rest))))"
  by pat_completeness auto
termination
proof (relation "measure (\<lambda>(limit, rest). length rest)", goal_cases)
  case (2 limit rest pos)
  then have "0 < pos" "pos \<le> limit" using breakPoint_range [of limit rest] by auto
  then show ?case
    using 2 trim_left_in_length [of "[CHR 0x0A]" "drop pos rest"] by auto
qed simp

declare chunk_from.simps [simp del]

definition chunkMessage :: "string \<Rightarrow> nat \<Rightarrow> string list" where
  "chunkMessage text limit = (if limit = 0 \<or> length text \<le> limit then [text] else chunk_from limit text)"

definition visible :: "char \<Rightarrow> bool" where
  "visible c \<longleftrightarrow> c \<noteq> CHR '' '' \<and> c \<noteq> CHR 0x0A"

lemma filter_invisible: "set r \<subseteq> {CHR '' '', CHR 0x0A} \<Longrightarrow> filter visible r = []"
  by (auto simp: filter_empty_conv visible_def)

lemma visible_trim_right: "filter visible (trim_right_in [CHR '' '', CHR 0x0A] s) = filter visible s"
proof -
  obtain r where r: "s = trim_right_in [CHR '' '', CHR 0x0A] s @ r" "set r \<subseteq> set [CHR '' '', CHR 0x0A]"
    using trim_right_split by blast
  then have "filter visible r = []" using filter_invisible by simp
  then show ?thesis using arg_cong [OF r(1), of "filter visible"] by simp
qed

lemma visible_trim_left: "filter visible (trim_left_in [CHR 0x0A] s) = filter visible s"
proof -
  obtain r where r: "s = r @ trim_left_in [CHR 0x0A] s" "set r \<subseteq> set [CHR 0x0A]"
    using trim_left_split by blast
  then have "filter visible r = []" using filter_invisible by auto
  then show ?thesis using arg_cong [OF r(1), of "filter visible"] by simp
qed

lemma chunk_from_pieces:
  assumes "0 < limit"
  shows "(\<forall>p \<in> set (chunk_from limit rest). length p \<le> limit) \<and>
    (\<exists>tail. blank tail \<and> filter visible rest = filter visible (concat (chunk_from limit rest)) @ filter visible tail)"
  using assms
proof (induction limit rest rule: chunk_from.induct)
  case (1 limit rest)
  show ?case
  proof (cases "length rest \<le> limit")
    case True
    have "blank []" by (simp add: blank_def)
    then show ?thesis using True by (cases "blank rest") (auto simp: chunk_from.simps [of limit rest])
  next
    case False
    define pos where "pos = breakPoint rest limit"
    let ?p = "trim_right_in [CHR '' '', CHR 0x0A] (take pos rest)" and ?r = "trim_left_in [CHR 0x0A] (drop pos rest)"
    have split: "chunk_from limit rest = ?p # chunk_from limit ?r"
      using False 1(2) by (simp add: chunk_from.simps [of limit rest] pos_def Let_def)
    have IH: "\<forall>p \<in> set (chunk_from limit ?r). length p \<le> limit"
      "\<exists>tail. blank tail \<and> filter visible ?r = filter visible (concat (chunk_from limit ?r)) @ filter visible tail"
      using 1(1) [OF _ pos_def 1(2)] False 1(2) by auto
    have "length ?p \<le> limit"
      using trim_right_in_length [of _ "take pos rest"] breakPoint_range [of limit rest] False 1(2)
      by (auto simp: pos_def intro: order_trans)
    moreover have "filter visible rest = filter visible ?p @ filter visible ?r"
      by (simp add: visible_trim_right visible_trim_left flip: filter_append)
    ultimately show ?thesis using IH by (auto simp: split)
  qed
qed

text \<open>Property C35. Splitting an answer always ends, each piece fits the backend's limit, and nothing
  but spaces and line breaks is lost: the pieces hold the text's other characters in their order,
  up to a rest that is white space.\<close>

theorem chunks_fit_and_lose_nothing:
  assumes "0 < limit"
  shows "(\<forall>p \<in> set (chunkMessage text limit). length p \<le> limit) \<and>
    (\<exists>tail. blank tail \<and> filter visible text = filter visible (concat (chunkMessage text limit)) @ filter visible tail)"
  using chunk_from_pieces [OF assms, of "text"] assms
  by (auto simp: chunkMessage_def blank_def intro: exI [of _ "[]"])

theorem chunks_fit_and_lose_nothing_witness:
  "list_all (\<lambda>p. length p \<le> 8) (chunkMessage ''one. two three'' 8) \<and>
   chunkMessage ''one. two three'' 8 = [''one. two'', '' three'']"
proof -
  have "chunkMessage ''one. two three'' 8 = [''one. two'', '' three'']" by code_simp
  moreover have "list_all (\<lambda>p. length p \<le> 8) (chunkMessage ''one. two three'' 8)"
    using chunks_fit_and_lose_nothing [of 8 "''one. two three''"] by (simp add: list_all_iff)
  ultimately show ?thesis by blast
qed

end
