(* ===== verification/Agents_Context.thy ===== *)
theory Agents_Context
  imports Go_Text
begin

section \<open>Agents engine: messages and the context budget\<close>

text \<open>
  The wire conversation of \<open>providers/agents/engine\<close> and its serialisable form
  (\<open>checkpoint.go\<close>), and the trimming of a conversation that outgrows its budget
  (\<open>context.go\<close>). The message type of the model library is modelled by the fields the engine
  reads and writes; \<open>wm_Hidden\<close> stands for all that a response carries beyond them (the reasoning, the metadata and
  the extra fields, the index and type of its calls), which goes back to the model with the message and which a
  checkpoint does not hold.
\<close>

subsection \<open>Messages\<close>

record call =
  cl_ID :: string
  cl_Name :: string
  cl_Args :: string

datatype part = TextPart string | ImagePart string string

record wire =
  wm_Role :: string
  wm_Content :: string
  wm_ToolCalls :: "call list"
  wm_ToolCallID :: string
  wm_ToolName :: string
  wm_Parts :: "part list"
  wm_Hidden :: "(string \<times> json) list"

definition plain_message :: "string \<Rightarrow> string \<Rightarrow> wire" where
  "plain_message role content = \<lparr>wm_Role = role, wm_Content = content, wm_ToolCalls = [],
     wm_ToolCallID = [], wm_ToolName = [], wm_Parts = [], wm_Hidden = []\<rparr>"

definition tool_message :: "string \<Rightarrow> call \<Rightarrow> wire" where
  "tool_message result pc = \<lparr>wm_Role = ''tool'', wm_Content = result, wm_ToolCalls = [],
     wm_ToolCallID = cl_ID pc, wm_ToolName = cl_Name pc, wm_Parts = [], wm_Hidden = []\<rparr>"

text \<open>\<open>toEino\<close> on the engine's own role-tagged messages.\<close>

definition toEino :: "(string \<times> string) list \<Rightarrow> wire list" where
  "toEino = map (\<lambda>(role, content).
     if role = ''system'' then plain_message ''system'' content
     else if role = ''assistant'' then plain_message ''assistant'' content
     else plain_message ''user'' content)"

record checkpoint_message =
  ck_Role :: string
  ck_Content :: string
  ck_ToolCalls :: "call list"
  ck_ToolCallID :: string
  ck_ToolName :: string

definition checkpointMessages :: "wire list \<Rightarrow> checkpoint_message list" where
  "checkpointMessages = map (\<lambda>m. \<lparr>ck_Role = wm_Role m,
     ck_Content = (if wm_Content m = [] \<and> length (wm_Parts m) > 0
                   then ''[multimodal content from tool calls omitted on resume]'' else wm_Content m),
     ck_ToolCalls = wm_ToolCalls m, ck_ToolCallID = wm_ToolCallID m, ck_ToolName = wm_ToolName m\<rparr>)"

definition restoreMessages :: "checkpoint_message list \<Rightarrow> wire list" where
  "restoreMessages = map (\<lambda>cm. \<lparr>wm_Role = ck_Role cm, wm_Content = ck_Content cm,
     wm_ToolCalls = ck_ToolCalls cm, wm_ToolCallID = ck_ToolCallID cm, wm_ToolName = ck_ToolName cm, wm_Parts = [],
     wm_Hidden = []\<rparr>)"

text \<open>
  What a pause keeps of a conversation: every message with its role, calls and answered call, and its text,
  but neither images nor anything hidden in a response.
\<close>

lemma restore_checkpoint:
  "restoreMessages (checkpointMessages ms) = map (\<lambda>m. m\<lparr>wm_Content :=
      (if wm_Content m = [] \<and> wm_Parts m \<noteq> [] then ''[multimodal content from tool calls omitted on resume]'' else wm_Content m),
      wm_Parts := [], wm_Hidden := []\<rparr>) ms"
  by (induction ms) (simp_all add: restoreMessages_def checkpointMessages_def)

subsection \<open>The context budget\<close>

definition trimKeepRecentTools :: nat where "trimKeepRecentTools = 4"
definition trimStubChars :: nat where "trimStubChars = 400"

definition estimateTokens :: "string \<Rightarrow> int" where
  "estimateTokens s = (if s = [] then 0 else (int (length s) + 3) div 4)"

definition estimateMessageTokens :: "wire \<Rightarrow> int" where
  "estimateMessageTokens m = estimateTokens (wm_Content m) + 8 +
     (\<Sum>tc \<leftarrow> wm_ToolCalls m. estimateTokens (cl_Name tc) + estimateTokens (cl_Args tc) + 8)"

definition clipObservation :: "string \<Rightarrow> string \<Rightarrow> string" where
  "clipObservation content toolName =
     (let head = (if length content > trimStubChars then take (back_to_rune content trimStubChars) content else content);
          label = (if toolName \<noteq> [] then ''the '' @ toolName @ '' result'' else ''this tool result'')
      in head @ [CHR 0x0A, CHR 0x0A] @ ''['' @ label @
         '' was shortened to keep this turn inside the model'' @ [CHR 0x27] @
         ''s context window. If you still need the detail, call the tool again for just the part you need.]'')"

definition clippable :: "wire list \<Rightarrow> nat list" where
  "clippable ms = filter (\<lambda>i. wm_Role (ms ! i) = ''tool'' \<and> length (wm_Content (ms ! i)) > trimStubChars) [0..<length ms]"

fun clip :: "int \<Rightarrow> nat list \<Rightarrow> wire list \<times> int \<times> int \<Rightarrow> wire list \<times> int \<times> int" where
  "clip budget [] st = st"
| "clip budget (i # js) (ms, tot, n) =
     (if tot \<le> budget then (ms, tot, n)
      else if length (wm_Content (ms ! i)) \<le> trimStubChars then clip budget js (ms, tot, n)
      else (let m = ms ! i; m' = m\<lparr>wm_Content := clipObservation (wm_Content m) (wm_ToolName m)\<rparr>
            in clip budget js (ms[i := m'], tot - (estimateMessageTokens m - estimateMessageTokens m'), n + 1)))"

definition trimConversation :: "wire list \<Rightarrow> int \<Rightarrow> wire list \<times> int" where
  "trimConversation ms budget =
     (if budget \<le> 0 \<or> length ms = 0 then (ms, 0)
      else (let tot = sum_list (map estimateMessageTokens ms); idx = clippable ms in
        if tot \<le> budget \<or> length idx = 0 then (ms, 0)
        else (let st1 = (if length idx > trimKeepRecentTools
                         then clip budget (take (length idx - trimKeepRecentTools) idx) (ms, tot, 0) else (ms, tot, 0));
                  st2 = (if fst (snd st1) > budget \<and> length idx > 1
                         then clip budget (take (length idx - 1) idx) st1 else st1)
              in (fst st2, snd (snd st2)))))"

text \<open>Two conversations that differ at most in the content of tool observations at positions of
  \<open>I\<close>.\<close>

definition same_but :: "nat set \<Rightarrow> wire list \<Rightarrow> wire list \<Rightarrow> bool" where
  "same_but I ms ns \<longleftrightarrow> length ns = length ms \<and>
     (\<forall>i < length ms. ns ! i = ms ! i \<or>
        (i \<in> I \<and> wm_Role (ms ! i) = ''tool'' \<and> (\<exists>c. ns ! i = (ms ! i)\<lparr>wm_Content := c\<rparr>)))"

lemma same_but_refl [simp]: "same_but I ms ms"
  by (simp add: same_but_def)

lemma same_but_trans:
  assumes "same_but I ms ns" "same_but I ns os"
  shows "same_but I ms os"
proof -
  have "os ! i = ms ! i \<or> (i \<in> I \<and> wm_Role (ms ! i) = ''tool'' \<and> (\<exists>c. os ! i = (ms ! i)\<lparr>wm_Content := c\<rparr>))"
    if "i < length ms" for i
    using assms that unfolding same_but_def by (smt (verit) wire.select_convs(1,2) wire.surjective wire.update_convs(2))
  then show ?thesis using assms by (simp add: same_but_def)
qed

lemma same_but_role:
  assumes "same_but I ms ns" "i < length ms"
  shows "wm_Role (ns ! i) = wm_Role (ms ! i)" "length ns = length ms"
proof -
  have "ns ! i = ms ! i \<or> (\<exists>c. ns ! i = (ms ! i)\<lparr>wm_Content := c\<rparr>)" "length ns = length ms"
    using assms unfolding same_but_def by blast+
  then show "wm_Role (ns ! i) = wm_Role (ms ! i)" "length ns = length ms" by auto
qed

lemma same_but_mono: "same_but I ms ns \<Longrightarrow> I \<subseteq> J \<Longrightarrow> same_but J ms ns"
  by (auto simp: same_but_def)

lemma clip_same_but:
  assumes "\<forall>i \<in> set js. i < length ms \<and> wm_Role (ms ! i) = ''tool''"
  shows "same_but (set js) ms (fst (clip budget js (ms, tot, n)))"
  using assms
proof (induction js arbitrary: ms tot n)
  case (Cons i js)
  let ?m = "(ms ! i)\<lparr>wm_Content := clipObservation (wm_Content (ms ! i)) (wm_ToolName (ms ! i))\<rparr>"
  have step: "same_but (set (i # js)) ms (ms[i := ?m])"
    using Cons.prems by (auto simp: same_but_def nth_list_update)
  have "\<forall>j \<in> set js. j < length (ms[i := ?m]) \<and> wm_Role (ms[i := ?m] ! j) = ''tool''"
    using Cons.prems by (auto simp: nth_list_update)
  then have rest: "same_but (set (i # js)) (ms[i := ?m]) (fst (clip budget js (ms[i := ?m], t, k)))" for t k
    by (rule same_but_mono [OF Cons.IH]) auto
  consider "tot \<le> budget" | "\<not> tot \<le> budget" "length (wm_Content (ms ! i)) \<le> trimStubChars"
    | "\<not> tot \<le> budget" "\<not> length (wm_Content (ms ! i)) \<le> trimStubChars" by blast
  then show ?case
  proof cases
    case 2
    have "same_but (set (i # js)) ms (fst (clip budget js (ms, tot, n)))"
      by (rule same_but_mono [OF Cons.IH]) (use Cons.prems in auto)
    then show ?thesis using 2 by simp
  next
    case 3
    show ?thesis using same_but_trans [OF step rest] 3 by (simp add: Let_def)
  qed simp
qed simp

lemma clippable_tool: "i \<in> set (clippable ms) \<Longrightarrow> i < length ms \<and> wm_Role (ms ! i) = ''tool''"
  by (auto simp: clippable_def)

lemma sum_update: "i < length xs \<Longrightarrow> sum_list (xs[i := x]) = sum_list xs - xs ! i + (x :: int)"
  by (induction xs arbitrary: i) (auto split: nat.splits)

lemma clip_same_total:
  assumes "tot = sum_list (map estimateMessageTokens ms)" "\<forall>i \<in> set js. i < length ms"
    and "clip budget js (ms, tot, n) = (ms', tot', n')"
  shows "tot' = sum_list (map estimateMessageTokens ms') \<and> length ms' = length ms"
  using assms
proof (induction js arbitrary: ms tot n)
  case (Cons i js)
  let ?m = "(ms ! i)\<lparr>wm_Content := clipObservation (wm_Content (ms ! i)) (wm_ToolName (ms ! i))\<rparr>"
  have "sum_list (map estimateMessageTokens (ms[i := ?m])) =
      tot - (estimateMessageTokens (ms ! i) - estimateMessageTokens ?m)"
    using Cons.prems(1,2) by (simp add: map_update sum_update)
  then show ?case
    using Cons.prems Cons.IH [of "tot - (estimateMessageTokens (ms ! i) - estimateMessageTokens ?m)" "ms[i := ?m]" "n + 1"]
      Cons.IH [of tot ms n]
    by (auto simp: Let_def split: if_splits)
qed simp

lemma clip_other_contents:
  "i \<notin> set js \<Longrightarrow> fst (clip budget js (ms, tot, n)) ! i = ms ! i"
  by (induction budget js "(ms, tot, n)" arbitrary: ms tot n rule: clip.induct) (auto simp: Let_def)

lemma take_butlast: "k < length xs \<Longrightarrow> set (take k xs) \<subseteq> set (butlast xs)"
  by (metis Suc_leI Suc_pred butlast_conv_take diff_Suc_1 length_greater_0_conv less_Suc_eq_le list.size(3) not_less_zero set_take_subset_set_take)

lemma trim_same_but: "same_but (set (butlast (clippable ms))) ms (fst (trimConversation ms budget))"
proof (cases "budget \<le> 0 \<or> length ms = 0 \<or> sum_list (map estimateMessageTokens ms) \<le> budget \<or> length (clippable ms) = 0")
  case False
  let ?idx = "clippable ms" and ?tot = "sum_list (map estimateMessageTokens ms)"
  let ?st1 = "if length ?idx > trimKeepRecentTools
      then clip budget (take (length ?idx - trimKeepRecentTools) ?idx) (ms, ?tot, 0) else (ms, ?tot, 0)"
  have sub: "set (take k ?idx) \<subseteq> set (butlast ?idx)" if "k < length ?idx" for k
    using that by (rule take_butlast)
  have tool: "\<forall>i \<in> set (take k ?idx). i < length ms \<and> wm_Role (ms ! i) = ''tool''" for k
    using clippable_tool set_take_subset by fast
  have st1: "same_but (set (butlast ?idx)) ms (fst ?st1)"
    using same_but_mono [OF clip_same_but [OF tool] sub, of "length ?idx - trimKeepRecentTools"] False
    by (auto simp: trimKeepRecentTools_def)
  have "\<forall>i \<in> set (take k ?idx). i < length (fst ?st1) \<and> wm_Role (fst ?st1 ! i) = ''tool''" for k
    using tool [of k] same_but_role [OF st1] by metis
  from clip_same_but [OF this, of "length ?idx - 1" budget "fst (snd ?st1)" "snd (snd ?st1)"]
  have "same_but (set (butlast ?idx)) (fst ?st1) (fst (clip budget (take (length ?idx - 1) ?idx) ?st1))"
    by (simp add: butlast_conv_take)
  moreover have "fst (trimConversation ms budget) =
      fst (if fst (snd ?st1) > budget \<and> length ?idx > 1 then clip budget (take (length ?idx - 1) ?idx) ?st1 else ?st1)"
    using False unfolding trimConversation_def Let_def by (simp only: if_False de_Morgan_disj fst_conv simp_thms)
  ultimately show ?thesis using st1 same_but_trans [OF st1] by presburger
qed (auto simp: trimConversation_def Let_def)

text \<open>Trimming a conversation keeps it a conversation: no message is added, removed or
  moved, only the text of tool observations changes and with it nothing else of them, the newest
  large observation keeps its text, and a conversation inside the budget is left alone.\<close>

theorem trim_keeps_conversation:
  assumes "trimConversation ms budget = (ms', n)"
  shows "length ms' = length ms \<and>
    (\<forall>i < length ms. ms' ! i = ms ! i \<or> (wm_Role (ms ! i) = ''tool'' \<and> length (wm_Content (ms ! i)) > trimStubChars \<and>
       (\<exists>c. ms' ! i = (ms ! i)\<lparr>wm_Content := c\<rparr>))) \<and>
    (clippable ms \<noteq> [] \<longrightarrow> ms' ! last (clippable ms) = ms ! last (clippable ms)) \<and>
    (budget \<le> 0 \<or> sum_list (map estimateMessageTokens ms) \<le> budget \<longrightarrow> ms' = ms)"
proof -
  have same: "same_but (set (butlast (clippable ms))) ms ms'"
    using trim_same_but [of ms budget] assms by simp
  have big: "length (wm_Content (ms ! i)) > trimStubChars" if "i \<in> set (butlast (clippable ms))" for i
    using in_set_butlastD [OF that] by (simp add: clippable_def)
  have "distinct (clippable ms)" by (simp add: clippable_def)
  then have "last (clippable ms) \<notin> set (butlast (clippable ms))" if "clippable ms \<noteq> []"
    using that by (metis append_butlast_last_id distinct_append not_distinct_conv_prefix)
  moreover have "last (clippable ms) < length ms" if "clippable ms \<noteq> []"
    using clippable_tool [OF last_in_set [OF that]] by simp
  ultimately have "ms' ! last (clippable ms) = ms ! last (clippable ms)" if "clippable ms \<noteq> []"
    using same that unfolding same_but_def by blast
  moreover have "budget \<le> 0 \<or> sum_list (map estimateMessageTokens ms) \<le> budget \<longrightarrow> ms' = ms"
    using assms unfolding trimConversation_def Let_def by (auto split: if_splits)
  moreover have "length ms' = length ms \<and>
    (\<forall>i < length ms. ms' ! i = ms ! i \<or> (wm_Role (ms ! i) = ''tool'' \<and> length (wm_Content (ms ! i)) > trimStubChars \<and>
       (\<exists>c. ms' ! i = (ms ! i)\<lparr>wm_Content := c\<rparr>)))"
    using same big unfolding same_but_def by blast
  ultimately show ?thesis by blast
qed

definition ex_observation :: "nat \<Rightarrow> wire" where
  "ex_observation n = tool_message (replicate n CHR ''x'') \<lparr>cl_ID = ''1'', cl_Name = ''t'', cl_Args = []\<rparr>"

theorem trim_keeps_conversation_witness:
  "length (fst (trimConversation [ex_observation 401, ex_observation 401] 1)) = 2"
  using trim_keeps_conversation [of "[ex_observation 401, ex_observation 401]" 1, OF surjective_pairing] by simp

text \<open>Trimming can make a conversation larger: an observation of 401 bytes is replaced
  by 400 of its bytes and a note that is longer than what was cut, so that a conversation of two of
  them that is over its budget comes out with a higher estimate than it went in with.\<close>

theorem trim_can_grow:
  "sum_list (map estimateMessageTokens [ex_observation 401, ex_observation 401]) = 218 \<and>
   sum_list (map estimateMessageTokens (fst (trimConversation [ex_observation 401, ex_observation 401] 100))) > 218"
  by code_simp

end
