(* ===== verification/Agents_Engine.thy ===== *)
theory Agents_Engine
  imports Agents_Context Agents_Types
begin

section \<open>Agents engine: the tool-call loop\<close>

text \<open>
  The loop of \<open>providers/agents/engine/engine.go\<close> that drives one turn: ask the model, execute the
  tool calls it makes, feed the observations back, until it answers without calls, a gated call
  pauses the turn, or the iterations are used up. The chat model and the tools' executors are
  arguments, state transformers on a type \<open>'w\<close> of worlds, and so is the library function that
  joins the chunks of one response (\<open>env_Concat\<close>). The callbacks are the list of events a run
  emits, in order; \<open>EvAsk\<close> is a ghost event that records the conversation the model is asked with.
  A tool name is printed with quotes around it, which is what \<open>%q\<close> does with identifiers.
\<close>

subsection \<open>Tools\<close>

type_synonym image = "string \<times> string"

datatype exec_error = Interrupted string string string | ToolFailed string

record 'w tool =
  tl_ExecRich :: "(string \<Rightarrow> 'w \<Rightarrow> (exec_error, string \<times> image list) res \<times> 'w) option"
  tl_Exec :: "(string \<Rightarrow> 'w \<Rightarrow> (exec_error, string) res \<times> 'w) option"

definition execute ::
  "(string, 'w tool) gomap \<Rightarrow> call \<Rightarrow> 'w \<Rightarrow> (exec_error, string \<times> image list) res \<times> 'w" where
  "execute byName pc w =
     (case map_of byName (cl_Name pc) of
        None \<Rightarrow> (Inl (ToolFailed (''unknown tool '' @ CHR 0x22 # cl_Name pc @ [CHR 0x22])), w)
      | Some tool \<Rightarrow>
          (case tl_ExecRich tool of
             Some f \<Rightarrow>
               (case f (cl_Args pc) w of
                  (Inl e, w') \<Rightarrow> (Inl e, w')
                | (Inr (txt, images), w') \<Rightarrow>
                    (Inr (if txt = [] \<and> length images > 0
                          then ''[returned '' @ show_nat (length images) @ '' image(s); shown below]'' else txt, images), w'))
           | None \<Rightarrow>
               (case tl_Exec tool of
                  Some f \<Rightarrow> (case f (cl_Args pc) w of (Inl e, w') \<Rightarrow> (Inl e, w') | (Inr out, w') \<Rightarrow> (Inr (out, []), w'))
                | None \<Rightarrow> (Inl (ToolFailed (''tool '' @ CHR 0x22 # cl_Name pc @ [CHR 0x22] @ '' has no executor'')), w))))"

definition maxTurnImages :: nat where "maxTurnImages = 8"

definition imageUserMessage :: "image list \<Rightarrow> wire option" where
  "imageUserMessage imgs =
     (if length imgs = 0 then None
      else (let note = ''Images returned by the preceding tool call(s):'' @
                  (if length imgs > maxTurnImages
                   then '' (showing the first '' @ show_nat maxTurnImages @ '' of '' @ show_nat (length imgs) @ '')'' else []);
                shown = filter (\<lambda>(_, content). length content \<noteq> 0) (take maxTurnImages imgs);
                parts = TextPart note # map (\<lambda>(mime, content). ImagePart (if mime = [] then ''image/jpeg'' else mime) content) shown
            in if length parts = 1 then None else Some ((plain_message ''user'' [])\<lparr>wm_Parts := parts\<rparr>)))"

subsection \<open>Asking the model\<close>

text \<open>One streamed response: an error when it is started, or its chunks (a nil chunk is \<open>None\<close>) and
  the error that ends it, \<open>None\<close> for the end of the stream.\<close>

record chunk =
  ch_Content :: string
  ch_ToolCalls :: "call list"
  ch_Usage :: "(int \<times> int) option"
  ch_Hidden :: "(string \<times> json) list"

datatype stream = StartError string | Chunks "chunk option list" "string option"

type_synonym usage = "int \<times> int"

record checkpoint =
  cp_Messages :: "checkpoint_message list"
  cp_Pending :: "call list"
  cp_Content :: string
  cp_Usage :: usage
  cp_Iter :: int

datatype event = EvDelta string | EvToolStart call | EvTool call string bool | EvCheckpoint checkpoint
  | EvAsk "wire list"

record 'w env =
  env_Model :: "wire list \<Rightarrow> 'w \<Rightarrow> stream \<times> 'w"
  env_Tools :: "(string, 'w tool) gomap"
  env_Concat :: "chunk list \<Rightarrow> (string, wire) res"
  env_MaxIters :: int
  env_Budget :: int
  env_CheckpointEvery :: int
  env_OnCheckpoint :: bool

definition add_usage :: "usage \<Rightarrow> usage \<Rightarrow> usage" where
  "add_usage u v = (i64 (fst u + fst v), i64 (snd u + snd v))"

fun take_chunks :: "chunk option list \<Rightarrow> string \<times> usage \<Rightarrow> chunk list \<times> (string \<times> usage) \<times> event list" where
  "take_chunks [] acc = ([], acc, [])"
| "take_chunks (None # cs) acc = take_chunks cs acc"
| "take_chunks (Some c # cs) (content, usage) =
     (case take_chunks cs (content @ ch_Content c, case ch_Usage c of None \<Rightarrow> usage | Some u \<Rightarrow> add_usage usage u) of
        (chunks, acc, evs) \<Rightarrow> (c # chunks, acc, (if ch_Content c \<noteq> [] then [EvDelta (ch_Content c)] else []) @ evs))"

definition streamOnce ::
  "'w env \<Rightarrow> wire list \<Rightarrow> string \<Rightarrow> usage \<Rightarrow> 'w \<Rightarrow> (string, wire) res \<times> (string \<times> usage) \<times> event list \<times> 'w" where
  "streamOnce env ms content usage w =
     (case env_Model env ms w of
        (StartError e, w') \<Rightarrow> (Inl (''engine: start stream: '' @ e), (content, usage), [], w')
      | (Chunks cs end0, w') \<Rightarrow>
          (case take_chunks cs (content, usage) of (chunks, acc, evs) \<Rightarrow>
             (case end0 of Some e \<Rightarrow> (Inl (''engine: stream recv: '' @ e), acc, evs, w')
              | None \<Rightarrow>
                  if length chunks = 0 then (Inl ''engine: model returned an empty stream'', acc, evs, w')
                  else (case env_Concat env chunks of
                          Inl e \<Rightarrow> (Inl (''engine: concatenating stream: '' @ e), acc, evs, w')
                        | Inr full \<Rightarrow> (Inr full, acc, evs, w')))))"

subsection \<open>Executing the pending calls\<close>

record decision =
  dec_approve :: bool
  dec_note :: string

text \<open>The user's verdict applies to the first pending call of a resumed turn: \<open>None\<close> is no verdict or
  one that has been used.\<close>

definition denial :: "decision \<Rightarrow> string" where
  "denial d = ''the user denied this tool call'' @ (if dec_note d \<noteq> [] then '': '' @ dec_note d else [])"

datatype drained = Drained "wire list" "image list" | Gated string string string "call list" "wire list"

fun drain ::
  "(string, 'w tool) gomap \<Rightarrow> decision option \<Rightarrow> call list \<Rightarrow> wire list \<Rightarrow> image list \<Rightarrow> 'w \<Rightarrow>
   drained \<times> event list \<times> 'w" where
  "drain tools dec [] ms imgs w = (Drained ms imgs, [], w)"
| "drain tools dec (pc # rest) ms imgs w =
     (if (case dec of Some d \<Rightarrow> \<not> dec_approve d | None \<Rightarrow> False) then
        (let result = denial (the dec) in
         case drain tools None rest (ms @ [tool_message result pc]) imgs w of
           (out, evs, w') \<Rightarrow> (out, EvTool pc result False # evs, w'))
      else
        (case execute tools pc w of
           (Inl (Interrupted tool args rid), w1) \<Rightarrow> (Gated tool args rid (pc # rest) ms, [EvToolStart pc], w1)
         | (Inl (ToolFailed e), w1) \<Rightarrow>
             (let result = ''error: '' @ e in
              case drain tools None rest (ms @ [tool_message result pc]) imgs w1 of
                (out, evs, w2) \<Rightarrow> (out, EvToolStart pc # EvTool pc result True # evs, w2))
         | (Inr (result, images), w1) \<Rightarrow>
             (case drain tools None rest (ms @ [tool_message result pc]) (imgs @ images) w1 of
                (out, evs, w2) \<Rightarrow> (out, EvToolStart pc # EvTool pc result False # evs, w2))))"

subsection \<open>The loop\<close>

datatype engine_result = EngineDone string usage
  | EnginePaused string string string checkpoint string usage
  | EngineError string

datatype asked = Stop engine_result | Go "wire list" string usage "call list"

definition ask ::
  "'w env \<Rightarrow> int \<Rightarrow> int \<Rightarrow> wire list \<Rightarrow> string \<Rightarrow> usage \<Rightarrow> 'w \<Rightarrow> asked \<times> event list \<times> 'w" where
  "ask env startIter iter ms0 content usage w =
     (let ms = fst (trimConversation ms0 (env_Budget env));
          offer = (if env_OnCheckpoint env \<and> env_CheckpointEvery env > 0 \<and> iter > startIter \<and>
                      (iter - startIter) mod env_CheckpointEvery env = 0
                   then [EvCheckpoint \<lparr>cp_Messages = checkpointMessages ms, cp_Pending = [], cp_Content = content,
                           cp_Usage = usage, cp_Iter = iter\<rparr>] else [])
      in case streamOnce env ms content usage w of (r, (content', usage'), evs, w') \<Rightarrow>
           ((case r of
               Inl e \<Rightarrow> Stop (EngineError e)
             | Inr full \<Rightarrow> if length (wm_ToolCalls full) = 0 then Stop (EngineDone content' usage')
                           else Go (ms @ [full]) content' usage' (wm_ToolCalls full)),
            offer @ EvAsk ms # evs, w'))"

definition limit_marker :: string where
  "limit_marker = [CHR 0x0A, CHR 0x0A] @ ''[stopped: reached the tool-call limit for one turn]''"

definition with_images :: "wire list \<Rightarrow> image list \<Rightarrow> wire list" where
  "with_images ms imgs = (case imageUserMessage imgs of None \<Rightarrow> ms | Some m \<Rightarrow> ms @ [m])"

text \<open>The first argument counts the iterations that are left.\<close>

fun loop ::
  "nat \<Rightarrow> 'w env \<Rightarrow> int \<Rightarrow> int \<Rightarrow> wire list \<Rightarrow> string \<Rightarrow> usage \<Rightarrow> call list \<Rightarrow> decision option \<Rightarrow> 'w \<Rightarrow>
   engine_result \<times> event list \<times> 'w" where
  "loop 0 env startIter iter ms content usage pending dec w = (EngineDone (content @ limit_marker) usage, [], w)"
| "loop (Suc n) env startIter iter ms content usage pending dec w =
     (case (if pending = [] then ask env startIter iter ms content usage w else (Go ms content usage pending, [], w)) of
        (Stop r, evs, w1) \<Rightarrow> (r, evs, w1)
      | (Go ms1 content1 usage1 pending1, evs, w1) \<Rightarrow>
          (case drain (env_Tools env) dec pending1 ms1 [] w1 of
             (Gated tool args rid rest ms2, evs2, w2) \<Rightarrow>
               (EnginePaused tool args rid \<lparr>cp_Messages = checkpointMessages ms2, cp_Pending = rest,
                   cp_Content = content1, cp_Usage = usage1, cp_Iter = iter\<rparr> content1 usage1, evs @ evs2, w2)
           | (Drained ms2 imgs, evs2, w2) \<Rightarrow>
               (case loop n env startIter (iter + 1) (with_images ms2 imgs) content1 usage1 [] None w2 of
                  (r, evs3, w3) \<Rightarrow> (r, evs @ evs2 @ evs3, w3))))"

definition normalized :: "int \<Rightarrow> int" where
  "normalized maxIters = (if maxIters \<le> 0 then 1 else maxIters)"

definition StreamTurnWithTools :: "'w env \<Rightarrow> (string \<times> string) list \<Rightarrow> 'w \<Rightarrow> engine_result \<times> event list \<times> 'w" where
  "StreamTurnWithTools env msgs w =
     (let ms = toEino msgs in
      if length ms = 0 then (EngineError ''engine: no messages to send'', [], w)
      else loop (nat (normalized (env_MaxIters env))) env 0 0 ms [] (0, 0) [] None w)"

definition ResumeTurnWithTools :: "'w env \<Rightarrow> checkpoint \<Rightarrow> bool \<Rightarrow> string \<Rightarrow> 'w \<Rightarrow> engine_result \<times> event list \<times> 'w" where
  "ResumeTurnWithTools env ck approve denyNote w =
     (let ms = restoreMessages (cp_Messages ck) in
      if length ms = 0 then (EngineError ''engine: checkpoint has no messages'', [], w)
      else (let m = normalized (env_MaxIters env); maxIters = (if m \<le> cp_Iter ck then i64 (cp_Iter ck + 1) else m)
            in loop (nat (maxIters - cp_Iter ck)) env (cp_Iter ck) (cp_Iter ck) ms (cp_Content ck) (cp_Usage ck)
                 (cp_Pending ck) (Some \<lparr>dec_approve = approve, dec_note = denyNote\<rparr>) w))"

end
