(* ===== verification/Agents_Engine_Props.thy ===== *)
theory Agents_Engine_Props
  imports Agents_Engine
begin

section \<open>Agents engine: what a turn guarantees\<close>

text \<open>
  The conversation of the loop of \<open>Agents_Engine\<close> obeys the wire protocol
  of the chat API (\<open>scan\<close>): every tool call of an assistant message is answered, in order, by the
  messages right after it, before the model is asked again.
\<close>

subsection \<open>The wire protocol\<close>

text \<open>The IDs of the calls that are still to be answered after a conversation, \<open>None\<close> for a
  conversation the API refuses.\<close>

fun scan :: "string list \<Rightarrow> wire list \<Rightarrow> string list option" where
  "scan due [] = Some due"
| "scan due (m # ms) =
     (if wm_Role m = ''tool'' then
        (case due of [] \<Rightarrow> None | i # is \<Rightarrow> if wm_ToolCallID m = i then scan is ms else None)
      else if due = [] then scan (map cl_ID (wm_ToolCalls m)) ms else None)"

definition coherent :: "checkpoint \<Rightarrow> bool" where
  "coherent ck \<longleftrightarrow> scan [] (restoreMessages (cp_Messages ck)) = Some (map cl_ID (cp_Pending ck))"

lemma scan_append: "scan due (xs @ ys) = Option.bind (scan due xs) (\<lambda>due'. scan due' ys)"
  by (induction xs arbitrary: due) (simp_all split: list.split)

lemma scan_cong:
  "map (\<lambda>m. (wm_Role m, wm_ToolCalls m, wm_ToolCallID m)) ns = map (\<lambda>m. (wm_Role m, wm_ToolCalls m, wm_ToolCallID m)) ms \<Longrightarrow>
   scan due ns = scan due ms"
proof (induction ms arbitrary: ns due)
  case (Cons m ms)
  then obtain n ns' where ns: "ns = n # ns'" by (cases ns) auto
  with Cons.prems have n: "wm_Role n = wm_Role m" "wm_ToolCalls n = wm_ToolCalls m" "wm_ToolCallID n = wm_ToolCallID m"
    and rest: "\<And>due. scan due ns' = scan due ms"
    using Cons.IH [of ns'] by simp_all
  show ?case unfolding ns scan.simps n rest ..
qed simp

lemma scan_restore [simp]: "scan due (restoreMessages (checkpointMessages ms)) = scan due ms"
  by (rule scan_cong) (simp add: restoreMessages_def checkpointMessages_def)

lemma scan_trim [simp]: "scan due (fst (trimConversation ms budget)) = scan due ms"
proof (rule scan_cong, rule nth_equalityI)
  have same: "same_but (set (butlast (clippable ms))) ms (fst (trimConversation ms budget))" by (rule trim_same_but)
  then show "length (map (\<lambda>m. (wm_Role m, wm_ToolCalls m, wm_ToolCallID m)) (fst (trimConversation ms budget))) =
      length (map (\<lambda>m. (wm_Role m, wm_ToolCalls m, wm_ToolCallID m)) ms)"
    by (simp add: same_but_def)
  fix i assume "i < length (map (\<lambda>m. (wm_Role m, wm_ToolCalls m, wm_ToolCallID m)) (fst (trimConversation ms budget)))"
  then show "map (\<lambda>m. (wm_Role m, wm_ToolCalls m, wm_ToolCallID m)) (fst (trimConversation ms budget)) ! i =
      map (\<lambda>m. (wm_Role m, wm_ToolCalls m, wm_ToolCallID m)) ms ! i"
    using same unfolding same_but_def by (metis (no_types, lifting) length_map nth_map wire.select_convs(1,3,4)
        wire.surjective wire.update_convs(2))
qed

lemma scan_toEino [simp]: "scan [] (toEino msgs) = Some []"
  by (induction msgs) (auto simp: toEino_def plain_message_def split: if_splits)

lemma scan_with_images: "scan [] ms = Some [] \<Longrightarrow> scan [] (with_images ms imgs) = Some []"
  by (auto simp: with_images_def imageUserMessage_def scan_append plain_message_def Let_def split: option.splits if_splits)

lemma scan_answer:
  "scan [] ms = Some (cl_ID pc # due) \<Longrightarrow> scan [] (ms @ [tool_message result pc]) = Some due"
  by (simp add: scan_append tool_message_def)

text \<open>What a run shows of itself: the conversations the model was asked with and the checkpoints.\<close>

definition good_events :: "event list \<Rightarrow> bool" where
  "good_events evs \<longleftrightarrow> (\<forall>ms. EvAsk ms \<in> set evs \<longrightarrow> scan [] ms = Some []) \<and>
     (\<forall>ck. EvCheckpoint ck \<in> set evs \<longrightarrow> coherent ck)"

definition good_result :: "engine_result \<Rightarrow> bool" where
  "good_result r \<longleftrightarrow> (case r of EnginePaused tool args rid ck content usage \<Rightarrow> coherent ck \<and> cp_Pending ck \<noteq> [] | _ \<Rightarrow> True)"

lemma good_result_simps [simp]:
  "good_result (EngineDone content usage)"
  "good_result (EngineError e)"
  "good_result (EnginePaused tool args rid ck content usage) \<longleftrightarrow> coherent ck \<and> cp_Pending ck \<noteq> []"
  by (simp_all add: good_result_def)

lemma good_events_simps [simp]:
  "good_events []"
  "good_events (xs @ ys) \<longleftrightarrow> good_events xs \<and> good_events ys"
  "good_events (EvDelta d # xs) \<longleftrightarrow> good_events xs"
  "good_events (EvToolStart pc # xs) \<longleftrightarrow> good_events xs"
  "good_events (EvTool pc result failed # xs) \<longleftrightarrow> good_events xs"
  "good_events (EvAsk ms # xs) \<longleftrightarrow> scan [] ms = Some [] \<and> good_events xs"
  "good_events (EvCheckpoint ck # xs) \<longleftrightarrow> coherent ck \<and> good_events xs"
  by (auto simp: good_events_def)

lemma drain_scan:
  assumes "drain tools dec pending ms imgs w = (out, evs, w')" "scan [] ms = Some (map cl_ID pending)"
  shows "good_events evs \<and> (case out of Drained ms' imgs' \<Rightarrow> scan [] ms' = Some []
    | Gated tool args rid rest ms' \<Rightarrow> scan [] ms' = Some (map cl_ID rest) \<and> rest \<noteq> [])"
  using assms
proof (induction tools dec pending ms imgs w arbitrary: out evs w' rule: drain.induct)
  case (2 tools dec pc rest ms imgs w)
  have ans: "scan [] (ms @ [tool_message result pc]) = Some (map cl_ID rest)" for result
    by (rule scan_answer) (use 2 in simp)
  show ?case
  proof (cases "case dec of Some d \<Rightarrow> \<not> dec_approve d | None \<Rightarrow> False")
    case True
    then show ?thesis using "2.prems" "2.IH"(1) [OF True refl _ ans]
      by (auto simp: Let_def split: prod.splits)
  next
    case False
    obtain x w1 where ex: "execute tools pc w = (x, w1)" by fastforce
    consider t a i where "x = Inl (Interrupted t a i)" | e where "x = Inl (ToolFailed e)"
      | r images where "x = Inr (r, images)"
      by (metis exec_error.exhaust sum.exhaust surj_pair)
    then show ?thesis
    proof cases
      case 1
      then show ?thesis using "2.prems" False ex by auto
    next
      case 2
      then show ?thesis using "2.prems" "2.IH"(2) [OF False ex [symmetric] 2 refl refl _ ans] False ex
        by (auto simp: Let_def split: prod.splits)
    next
      case 3
      then show ?thesis using "2.prems" "2.IH"(3) [OF False ex [symmetric] 3 refl _ ans] False ex
        by (auto simp: Let_def split: prod.splits)
    qed
  qed
qed simp

text \<open>What the engine relies on the library's \<open>ConcatMessages\<close> for: joining the chunks of a model
  response does not make a tool message of them.\<close>

definition answers_as_assistant :: "'w env \<Rightarrow> bool" where
  "answers_as_assistant env \<longleftrightarrow> (\<forall>cs full. env_Concat env cs = Inr full \<longrightarrow> wm_Role full \<noteq> ''tool'')"

lemma take_chunks_deltas: "take_chunks cs acc = (chunks, acc', evs) \<Longrightarrow> set evs \<subseteq> range EvDelta"
  by (induction cs acc arbitrary: chunks acc' evs rule: take_chunks.induct) (auto split: prod.splits if_splits)

lemma streamOnce_run:
  assumes "streamOnce env ms content usage w = (r, acc, evs, w')"
  shows "set evs \<subseteq> range EvDelta \<and> (\<forall>full. r = Inr full \<longrightarrow> (\<exists>cs. env_Concat env cs = Inr full))"
proof -
  obtain x w1 where m: "env_Model env ms w = (x, w1)" by fastforce
  show ?thesis
  proof (cases x)
    case (StartError e) then show ?thesis using assms m by (auto simp: streamOnce_def)
  next
    case (Chunks cs end0)
    obtain chunks acc1 evs1 where t: "take_chunks cs (content, usage) = (chunks, acc1, evs1)" by (metis prod_cases3)
    then have "evs = evs1" using assms m Chunks
      by (auto simp: streamOnce_def split: option.splits sum.splits if_splits)
    moreover have "r = Inr full \<Longrightarrow> env_Concat env chunks = Inr full" for full
      using assms m Chunks t by (auto simp: streamOnce_def split: option.splits sum.splits if_splits)
    ultimately show ?thesis using take_chunks_deltas [OF t] by blast
  qed
qed

lemma good_deltas: "set evs \<subseteq> range EvDelta \<Longrightarrow> good_events evs"
  by (auto simp: good_events_def)

lemma ask_run:
  assumes "ask env s iter ms content usage w = (a, evs, w')"
  obtains offer deltas where "evs = offer @ EvAsk (fst (trimConversation ms (env_Budget env))) # deltas" "set deltas \<subseteq> range EvDelta"
    "offer = [] \<or> (\<exists>content usage iter. offer = [EvCheckpoint \<lparr>cp_Messages =
       checkpointMessages (fst (trimConversation ms (env_Budget env))), cp_Pending = [], cp_Content = content,
       cp_Usage = usage, cp_Iter = iter\<rparr>])"
    "\<forall>ms' content' usage' pending. a = Go ms' content' usage' pending \<longrightarrow> pending \<noteq> [] \<and>
       (\<exists>full cs. ms' = fst (trimConversation ms (env_Budget env)) @ [full] \<and> pending = wm_ToolCalls full \<and> env_Concat env cs = Inr full)"
    "\<forall>r. a = Stop r \<longrightarrow> (\<exists>e. r = EngineError e) \<or> (\<exists>c u. r = EngineDone c u)"
proof -
  obtain r c u evs1 w1 where st: "streamOnce env (fst (trimConversation ms (env_Budget env))) content usage w = (r, (c, u), evs1, w1)"
    by (metis prod_cases3 surj_pair)
  let ?offer = "if env_OnCheckpoint env \<and> env_CheckpointEvery env > 0 \<and> iter > s \<and> (iter - s) mod env_CheckpointEvery env = 0
      then [EvCheckpoint \<lparr>cp_Messages = checkpointMessages (fst (trimConversation ms (env_Budget env))), cp_Pending = [],
        cp_Content = content, cp_Usage = usage, cp_Iter = iter\<rparr>] else []"
  show ?thesis
    by (rule that [of ?offer, OF _ conjunct1 [OF streamOnce_run [OF st]]])
      (use assms st streamOnce_run [OF st] in \<open>auto simp: ask_def Let_def split: if_splits sum.splits\<close>)
qed

lemma ask_scan:
  assumes "ask env s iter ms content usage w = (a, evs, w')" "scan [] ms = Some []" "answers_as_assistant env"
  shows "good_events evs \<and> (\<forall>r. a = Stop r \<longrightarrow> good_result r) \<and>
    (\<forall>ms' content' usage' pending. a = Go ms' content' usage' pending \<longrightarrow> scan [] ms' = Some (map cl_ID pending))"
proof -
  obtain offer deltas where run: "evs = offer @ EvAsk (fst (trimConversation ms (env_Budget env))) # deltas"
      "set deltas \<subseteq> range EvDelta"
      "offer = [] \<or> (\<exists>content usage iter. offer = [EvCheckpoint \<lparr>cp_Messages =
       checkpointMessages (fst (trimConversation ms (env_Budget env))), cp_Pending = [], cp_Content = content,
       cp_Usage = usage, cp_Iter = iter\<rparr>])"
      "\<forall>ms' content' usage' pending. a = Go ms' content' usage' pending \<longrightarrow> pending \<noteq> [] \<and>
       (\<exists>full cs. ms' = fst (trimConversation ms (env_Budget env)) @ [full] \<and> pending = wm_ToolCalls full \<and> env_Concat env cs = Inr full)"
      "\<forall>r. a = Stop r \<longrightarrow> (\<exists>e. r = EngineError e) \<or> (\<exists>c u. r = EngineDone c u)"
    by (rule ask_run [OF assms(1)])
  have "good_events evs"
    using run(1,3) good_deltas [OF run(2)] assms(2) by (auto simp: coherent_def)
  moreover have "scan [] ms' = Some (map cl_ID pending)" if "a = Go ms' content' usage' pending" for ms' content' usage' pending
    using run(4) that assms(2,3) by (fastforce simp: scan_append answers_as_assistant_def)
  moreover have "good_result r" if "a = Stop r" for r using run(5) that by (auto simp: good_result_def)
  ultimately show ?thesis by blast
qed

lemma loop_scan:
  assumes "loop n env s iter ms content usage pending dec w = (r, evs, w')"
    and "scan [] ms = Some (map cl_ID pending)" "answers_as_assistant env"
  shows "good_events evs \<and> good_result r"
  using assms
proof (induction n arbitrary: iter ms content usage pending dec w r evs w')
  case 0 then show ?case by auto
next
  case (Suc n)
  obtain a evs1 w1 where a: "(if pending = [] then ask env s iter ms content usage w
      else (Go ms content usage pending, [], w)) = (a, evs1, w1)" by (metis prod_cases3)
  have good: "good_events evs1 \<and> (\<forall>r. a = Stop r \<longrightarrow> good_result r) \<and>
    (\<forall>ms' content' usage' pending. a = Go ms' content' usage' pending \<longrightarrow> scan [] ms' = Some (map cl_ID pending))"
  proof (cases "pending = []")
    case True then show ?thesis using ask_scan [of env s iter ms content usage w a evs1 w1] a Suc.prems by simp
  next
    case False then show ?thesis using a Suc.prems by auto
  qed
  show ?case
  proof (cases a)
    case (Stop r0) then show ?thesis using Suc.prems(1) a good by simp
  next
    case (Go ms1 content1 usage1 pending1)
    obtain d evs2 w2 where d: "drain (env_Tools env) dec pending1 ms1 [] w1 = (d, evs2, w2)" by (metis prod_cases3)
    have ds: "good_events evs2 \<and> (case d of Drained ms' imgs' \<Rightarrow> scan [] ms' = Some []
      | Gated tool args rid rest ms' \<Rightarrow> scan [] ms' = Some (map cl_ID rest) \<and> rest \<noteq> [])"
      using drain_scan [OF d] good Go by blast
    show ?thesis
    proof (cases d)
      case (Gated tool args rid rest ms2)
      then show ?thesis using Suc.prems(1) a Go d ds good by (auto simp: coherent_def)
    next
      case (Drained ms2 imgs)
      obtain r3 evs3 w3 where l: "loop n env s (iter + 1) (with_images ms2 imgs) content1 usage1 [] None w2 = (r3, evs3, w3)"
        by (metis prod_cases3)
      have "good_events evs3 \<and> good_result r3"
        using Suc.IH [OF l] ds Drained Suc.prems(3) by (simp add: scan_with_images)
      then show ?thesis using Suc.prems(1) a Go d Drained l ds good by auto
    qed
  qed
qed

text \<open>The turns that can happen: a fresh one, and the continuation of an earlier one from the
  checkpoint it paused with or from one it offered, with whatever tools and model the caller has at
  that moment (\<open>envs\<close>) and in whatever world.\<close>

inductive turn :: "('w env \<Rightarrow> bool) \<Rightarrow> engine_result \<Rightarrow> event list \<Rightarrow> bool" for envs where
  fresh: "envs env \<Longrightarrow> StreamTurnWithTools env msgs w = (r, evs, w') \<Longrightarrow> turn envs r evs"
| resume_paused: "turn envs (EnginePaused tool args rid ck content usage) evs0 \<Longrightarrow> envs env \<Longrightarrow>
    ResumeTurnWithTools env ck approve reply w = (r, evs, w') \<Longrightarrow> turn envs r evs"
| resume_offered: "turn envs r0 evs0 \<Longrightarrow> EvCheckpoint ck \<in> set evs0 \<Longrightarrow> envs env \<Longrightarrow>
    ResumeTurnWithTools env ck approve reply w = (r, evs, w') \<Longrightarrow> turn envs r evs"

lemma resume_scan:
  assumes "ResumeTurnWithTools env ck approve reply w = (r, evs, w')" "coherent ck" "answers_as_assistant env"
  shows "good_events evs \<and> good_result r"
proof (cases "restoreMessages (cp_Messages ck) = []")
  case True then show ?thesis using assms(1) by (auto simp: ResumeTurnWithTools_def)
next
  case False
  then show ?thesis
    using assms(1) loop_scan [OF _ assms(2) [unfolded coherent_def] assms(3)]
    by (simp add: ResumeTurnWithTools_def Let_def)
qed

text \<open>Property C4. Every request the engine sends is one the chat API accepts: whatever the model,
  the tools, the user's verdicts and the context budget do, in fresh turns and in turns resumed from
  a pause or from a recovery checkpoint any number of times, the model is only asked with a
  conversation in which each tool call is answered, in order and right after the message that made
  it; and a paused turn's checkpoint lacks exactly the answers to the calls it lists as pending, of
  which there is at least one.\<close>

theorem requests_obey_protocol:
  assumes "turn envs r evs" and "\<And>env. envs env \<Longrightarrow> answers_as_assistant env"
  shows "(\<forall>ms. EvAsk ms \<in> set evs \<longrightarrow> scan [] ms = Some []) \<and>
    (\<forall>tool args rid ck content usage. r = EnginePaused tool args rid ck content usage \<longrightarrow>
       cp_Pending ck \<noteq> [] \<and> scan [] (restoreMessages (cp_Messages ck)) = Some (map cl_ID (cp_Pending ck)))"
proof -
  from assms(1) have "good_events evs \<and> good_result r"
  proof (induction rule: turn.induct)
    case (fresh env msgs w r evs w')
    show ?case
    proof (cases "toEino msgs = []")
      case True then show ?thesis using fresh by (auto simp: StreamTurnWithTools_def)
    next
      case False
      then have "loop (nat (normalized (env_MaxIters env))) env 0 0 (toEino msgs) [] (0, 0) [] None w = (r, evs, w')"
        using fresh(2) by (simp add: StreamTurnWithTools_def)
      then show ?thesis by (rule loop_scan) (use assms(2) fresh(1) in auto)
    qed
  next
    case (resume_paused tool args rid ck content usage evs0 env approve reply w r evs w')
    then show ?case using resume_scan [OF _ _ assms(2)] by auto
  next
    case (resume_offered r0 evs0 ck env approve reply w r evs w')
    then show ?case using resume_scan [OF _ _ assms(2)] by (auto simp: good_events_def)
  qed
  then show ?thesis by (auto simp: good_events_def good_result_def coherent_def)
qed

end
