(* ===== verification/Agents_Engine_Pause.thy ===== *)
theory Agents_Engine_Pause
  imports Agents_Engine_Props
begin

section \<open>Agents engine: pausing and resuming\<close>

text \<open>
  What a pause for the user's decision costs: the bound on the model calls of a turn and
  its continuations, and what the engine does with a verdict when nothing is pending.
\<close>

subsection \<open>How often the model is asked\<close>

definition asks :: "event list \<Rightarrow> nat" where
  "asks evs = length (filter (\<lambda>ev. case ev of EvAsk ms \<Rightarrow> True | _ \<Rightarrow> False) evs)"

lemma asks_simps [simp]:
  "asks [] = 0" "asks (xs @ ys) = asks xs + asks ys" "asks (EvDelta d # xs) = asks xs"
  "asks (EvToolStart pc # xs) = asks xs" "asks (EvTool pc result failed # xs) = asks xs"
  "asks (EvAsk ms # xs) = Suc (asks xs)" "asks (EvCheckpoint ck # xs) = asks xs"
  by (simp_all add: asks_def)

lemma asks_deltas: "set evs \<subseteq> range EvDelta \<Longrightarrow> asks evs = 0"
  by (induction evs) auto

lemma asks_ask: "ask env s iter ms content usage w = (a, evs, w') \<Longrightarrow> asks evs = 1"
  by (elim ask_run) (auto simp: asks_deltas)

lemma drain_facts:
  assumes "drain tools dec pending ms imgs w = (out, evs, w')"
  shows "asks evs = 0 \<and> (\<forall>t a i rest ms'. out = Gated t a i rest ms' \<longrightarrow> rest \<noteq> [])"
  using assms
proof (induction tools dec pending ms imgs w arbitrary: out evs w' rule: drain.induct)
  case (2 tools dec pc rest ms imgs w)
  show ?case
  proof (cases "case dec of Some d \<Rightarrow> \<not> dec_approve d | None \<Rightarrow> False")
    case True
    then show ?thesis using "2.prems" "2.IH"(1) [OF True refl] by (auto simp: Let_def split: prod.splits)
  next
    case False
    obtain x w1 where ex: "execute tools pc w = (x, w1)" by fastforce
    consider t a i where "x = Inl (Interrupted t a i)" | e where "x = Inl (ToolFailed e)"
      | r images where "x = Inr (r, images)"
      by (metis exec_error.exhaust sum.exhaust surj_pair)
    then show ?thesis
    proof cases
      case 1
      then show ?thesis using "2.prems" False ex by auto
    next
      case 2
      then show ?thesis using "2.prems" "2.IH"(2) [OF False ex [symmetric] 2 refl refl] False ex
        by (auto simp: Let_def split: prod.splits)
    next
      case 3
      then show ?thesis using "2.prems" "2.IH"(3) [OF False ex [symmetric] 3 refl] False ex
        by (auto simp: Let_def split: prod.splits)
    qed
  qed
qed simp

text \<open>One iteration of the loop, with the outcome of each of its parts.\<close>

lemma loop_cases:
  assumes "loop (Suc n) env s iter ms content usage pending dec w = (r, evs, w')"
  obtains (stop) "pending = []" "ask env s iter ms content usage w = (Stop r, evs, w')"
  | (gated) ms1 content1 usage1 pending1 evs1 w1 t a i rest ms2 evs2 where
      "(if pending = [] then ask env s iter ms content usage w else (Go ms content usage pending, [], w)) =
         (Go ms1 content1 usage1 pending1, evs1, w1)"
      "drain (env_Tools env) dec pending1 ms1 [] w1 = (Gated t a i rest ms2, evs2, w')"
      "r = EnginePaused t a i \<lparr>cp_Messages = checkpointMessages ms2, cp_Pending = rest, cp_Content = content1,
             cp_Usage = usage1, cp_Iter = iter\<rparr> content1 usage1" "evs = evs1 @ evs2"
  | (next_round) ms1 content1 usage1 pending1 evs1 w1 ms2 imgs evs2 w2 evs3 where
      "(if pending = [] then ask env s iter ms content usage w else (Go ms content usage pending, [], w)) =
         (Go ms1 content1 usage1 pending1, evs1, w1)"
      "drain (env_Tools env) dec pending1 ms1 [] w1 = (Drained ms2 imgs, evs2, w2)"
      "loop n env s (iter + 1) (with_images ms2 imgs) content1 usage1 [] None w2 = (r, evs3, w')"
      "evs = evs1 @ evs2 @ evs3"
proof -
  obtain a evs1 w1 where a: "(if pending = [] then ask env s iter ms content usage w
      else (Go ms content usage pending, [], w)) = (a, evs1, w1)" by (metis prod_cases3)
  show thesis
  proof (cases a)
    case (Stop r0) then show thesis using assms a stop by (cases "pending = []") auto
  next
    case (Go ms1 content1 usage1 pending1)
    obtain d evs2 w2 where d: "drain (env_Tools env) dec pending1 ms1 [] w1 = (d, evs2, w2)" by (metis prod_cases3)
    show thesis
    proof (cases d)
      case (Gated tool args rid rest ms2)
      then have "w2 = w'" using assms a Go d by simp
      then show thesis using assms a Go d Gated gated [OF a [unfolded Go]] by simp
    next
      case (Drained ms2 imgs)
      obtain r3 evs3 w3 where l: "loop n env s (iter + 1) (with_images ms2 imgs) content1 usage1 [] None w2 = (r3, evs3, w3)"
        by (metis prod_cases3)
      then have "w' = w3" using assms a Go d Drained by simp
      then show thesis using assms a Go d Drained l next_round [OF a [unfolded Go] d [unfolded Drained]] by simp
    qed
  qed
qed

lemma first_asks:
  "(if pending = [] then ask env s iter ms content usage w else (Go ms content usage pending, [], w)) = (a, evs, w') \<Longrightarrow>
   asks evs = (if pending = [] then 1 else 0)"
  by (auto simp: asks_ask split: if_splits)

lemma loop_asks:
  "loop n env s iter ms content usage pending dec w = (r, evs, w') \<Longrightarrow> asks evs \<le> n - (if pending = [] then 0 else 1)"
proof (induction n arbitrary: iter ms content usage pending dec w r evs w')
  case (Suc n)
  from Suc.prems show ?case
  proof (cases rule: loop_cases)
    case stop then show ?thesis by (simp add: asks_ask)
  next
    case (gated ms1 content1 usage1 pending1 evs1 w1 t a i rest ms2 evs2)
    then show ?thesis using first_asks [OF gated(1)] drain_facts [OF gated(2)] by simp
  next
    case (next_round ms1 content1 usage1 pending1 evs1 w1 ms2 imgs evs2 w2 evs3)
    then show ?thesis using first_asks [OF next_round(1)] drain_facts [OF next_round(2)] Suc.IH [OF next_round(3)] by simp
  qed
qed simp

lemma loop_pause_asks:
  "loop n env s iter ms content usage pending dec w = (EnginePaused t a i ck c u, evs, w') \<Longrightarrow>
   iter \<le> cp_Iter ck \<and> cp_Iter ck < iter + int n \<and> cp_Pending ck \<noteq> [] \<and>
   int (asks evs) + (if pending = [] then 0 else 1) \<le> cp_Iter ck - iter + 1"
proof (induction n arbitrary: iter ms content usage pending dec w evs w')
  case (Suc n)
  from Suc.prems show ?case
  proof (cases rule: loop_cases)
    case stop then show ?thesis by (elim ask_run) auto
  next
    case (gated ms1 content1 usage1 pending1 evs1 w1 t a i rest ms2 evs2)
    then show ?thesis using first_asks [OF gated(1)] drain_facts [OF gated(2)] by simp
  next
    case (next_round ms1 content1 usage1 pending1 evs1 w1 ms2 imgs evs2 w2 evs3)
    then show ?thesis using first_asks [OF next_round(1)] drain_facts [OF next_round(2)] Suc.IH [OF next_round(3)] by simp
  qed
qed simp

text \<open>A turn that has asked the model \<open>k\<close> times, over all its continuations, when it pauses with a
  checkpoint.\<close>

inductive paused_after :: "('w env \<Rightarrow> bool) \<Rightarrow> nat \<Rightarrow> checkpoint \<Rightarrow> bool" for envs where
  first_pause: "envs env \<Longrightarrow> StreamTurnWithTools env msgs w = (EnginePaused t a i ck c u, evs, w') \<Longrightarrow>
    paused_after envs (asks evs) ck"
| next_pause: "paused_after envs k ck \<Longrightarrow> envs env \<Longrightarrow>
    ResumeTurnWithTools env ck approve reply w = (EnginePaused t a i ck' c u, evs, w') \<Longrightarrow> paused_after envs (k + asks evs) ck'"

lemma resume_loop:
  assumes "ResumeTurnWithTools env ck approve reply w = (r, evs, w')" "cp_Iter ck < normalized (env_MaxIters env)"
  shows "(r = EngineError ''engine: checkpoint has no messages'' \<and> evs = [] \<and> w' = w) \<or>
    loop (nat (normalized (env_MaxIters env) - cp_Iter ck)) env (cp_Iter ck) (cp_Iter ck) (restoreMessages (cp_Messages ck))
      (cp_Content ck) (cp_Usage ck) (cp_Pending ck) (Some \<lparr>dec_approve = approve, dec_note = reply\<rparr>) w = (r, evs, w')"
  using assms by (auto simp: ResumeTurnWithTools_def Let_def split: if_splits)

lemma stream_loop:
  "StreamTurnWithTools env msgs w = (r, evs, w') \<Longrightarrow>
   (r = EngineError ''engine: no messages to send'' \<and> evs = [] \<and> w' = w) \<or>
   loop (nat (normalized (env_MaxIters env))) env 0 0 (toEino msgs) [] (0, 0) [] None w = (r, evs, w')"
  by (auto simp: StreamTurnWithTools_def Let_def split: if_splits)

lemma paused_after_bound:
  assumes "paused_after envs k ck" "\<And>env. envs env \<Longrightarrow> env_MaxIters env = m"
  shows "int k \<le> cp_Iter ck + 1 \<and> cp_Iter ck < normalized m \<and> cp_Pending ck \<noteq> []"
  using assms(1)
proof (induction rule: paused_after.induct)
  case (first_pause env msgs w t a i ck c u evs w')
  then have "loop (nat (normalized m)) env 0 0 (toEino msgs) [] (0, 0) [] None w = (EnginePaused t a i ck c u, evs, w')"
    using stream_loop [OF first_pause(2)] assms(2) by auto
  from loop_pause_asks [OF this] show ?case by (auto simp: normalized_def split: if_splits)
next
  case (next_pause k ck env approve reply w t a i ck' c u evs w')
  then have "loop (nat (normalized m - cp_Iter ck)) env (cp_Iter ck) (cp_Iter ck) (restoreMessages (cp_Messages ck))
      (cp_Content ck) (cp_Usage ck) (cp_Pending ck) (Some \<lparr>dec_approve = approve, dec_note = reply\<rparr>) w = (EnginePaused t a i ck' c u, evs, w')"
    using resume_loop [OF next_pause(3)] assms(2) [OF next_pause(2)] by auto
  from loop_pause_asks [OF this] next_pause.IH show ?case by (auto split: if_splits)
qed

text \<open>Property C30. The limit on tool-call rounds holds for a turn as a whole: the model is asked at
  most \<open>MaxIters\<close> times (once, if that is not positive) by a fresh turn, and by a turn that pauses
  and is continued any number of times, counting the calls made before every pause, whatever is
  decided and whatever the model and the tools do; a decision never buys further calls.\<close>

theorem pauses_do_not_extend_limit:
  assumes "\<And>env. envs env \<Longrightarrow> env_MaxIters env = m" and "envs env"
  shows "(\<forall>msgs w r evs w'. StreamTurnWithTools env msgs w = (r, evs, w') \<longrightarrow> int (asks evs) \<le> max 1 m) \<and>
    (\<forall>k ck approve reply w r evs w'. paused_after envs k ck \<longrightarrow> ResumeTurnWithTools env ck approve reply w = (r, evs, w') \<longrightarrow>
       int (k + asks evs) \<le> max 1 m)"
proof -
  have norm: "normalized m \<le> max 1 m" "1 \<le> normalized m" by (auto simp: normalized_def)
  have "int (asks evs) \<le> max 1 m" if "StreamTurnWithTools env msgs w = (r, evs, w')" for msgs w r evs w'
    using stream_loop [OF that] loop_asks [of "nat (normalized m)"] assms norm by fastforce
  moreover have "int (k + asks evs) \<le> max 1 m"
    if p: "paused_after envs k ck" and r: "ResumeTurnWithTools env ck approve reply w = (r, evs, w')" for k ck approve reply w r evs w'
  proof -
    note b = paused_after_bound [OF p assms(1)]
    have "asks evs \<le> nat (normalized m - cp_Iter ck) - 1"
      using resume_loop [OF r] assms b loop_asks [of "nat (normalized m - cp_Iter ck)"] by fastforce
    then show ?thesis using b norm by linarith
  qed
  ultimately show ?thesis by blast
qed

subsection \<open>A verdict with nothing pending\<close>

text \<open>A verdict is spent on the next tool call even when no call is waiting for one: a
  turn resumed from a checkpoint between two rounds (nothing pending, what a recovery checkpoint is)
  with a refusal asks the model, and the first call the model then makes is answered with a denial
  nobody gave, without being executed.\<close>

theorem refusal_without_pending_denies_next_call:
  assumes "cp_Pending ck = []" "cp_Messages ck \<noteq> []" "cp_Iter ck < normalized (env_MaxIters env)"
    and "ask env (cp_Iter ck) (cp_Iter ck) (restoreMessages (cp_Messages ck)) (cp_Content ck) (cp_Usage ck) w =
      (Go ms content usage (pc # pcs), evs, w1)"
  shows "\<exists>r rest w2. ResumeTurnWithTools env ck False reply w = (r, evs @ rest, w2) \<and>
    hd rest = EvTool pc (denial \<lparr>dec_approve = False, dec_note = reply\<rparr>) False"
proof -
  let ?d = "Some \<lparr>dec_approve = False, dec_note = reply\<rparr>"
  obtain n where n: "nat (normalized (env_MaxIters env) - cp_Iter ck) = Suc n"
    using assms(3) by (metis Suc_pred zero_less_diff zero_less_nat_eq diff_gt_0_iff_gt)
  obtain out evs2 w2 where d: "drain (env_Tools env) ?d (pc # pcs) ms [] w1 = (out, evs2, w2)"
    "evs2 \<noteq> []" "hd evs2 = EvTool pc (denial (the ?d)) False"
    by (cases "drain (env_Tools env) None pcs (ms @ [tool_message (denial (the ?d)) pc]) [] w1") (auto simp: Let_def)
  obtain r rest w3 where l: "loop (Suc n) env (cp_Iter ck) (cp_Iter ck) (restoreMessages (cp_Messages ck)) (cp_Content ck)
      (cp_Usage ck) [] ?d w = (r, evs @ rest, w3)" "hd rest = hd evs2"
  proof (cases out)
    case Gated then show thesis using assms(4) d that by simp
  next
    case (Drained ms2 imgs)
    then show thesis using assms(4) d that
      by (cases "loop n env (cp_Iter ck) (cp_Iter ck + 1) (with_images ms2 imgs) content usage [] None w2") simp
  qed
  have "ResumeTurnWithTools env ck False reply w = (r, evs @ rest, w3)"
    using l(1) assms(1,2,3) n by (simp add: ResumeTurnWithTools_def Let_def restoreMessages_def)
  then show ?thesis using l(2) d(3) by auto
qed

subsection \<open>An example\<close>

text \<open>A model that calls a tool once and then answers; the world counts the calls it was asked for
  and the tool's executions.\<close>

definition ex_call :: call where
  "ex_call = \<lparr>cl_ID = ''1'', cl_Name = ''t'', cl_Args = []\<rparr>"

definition ex_model :: "wire list \<Rightarrow> nat \<times> nat \<Rightarrow> stream \<times> nat \<times> nat" where
  "ex_model ms w = (Chunks [Some (if fst w = 0
       then \<lparr>ch_Content = [], ch_ToolCalls = [ex_call], ch_Usage = None, ch_Hidden = []\<rparr>
       else \<lparr>ch_Content = ''ok'', ch_ToolCalls = [], ch_Usage = Some (2, 1), ch_Hidden = []\<rparr>)] None, fst w + 1, snd w)"

definition ex_concat :: "chunk list \<Rightarrow> (string, wire) res" where
  "ex_concat cs = Inr ((plain_message ''assistant'' (concat (map ch_Content cs)))\<lparr>wm_ToolCalls := concat (map ch_ToolCalls cs),
     wm_Hidden := concat (map ch_Hidden cs)\<rparr>)"

definition ex_tools :: "bool \<Rightarrow> (string, (nat \<times> nat) tool) gomap" where
  "ex_tools granted = [(''t'', \<lparr>tl_ExecRich = None, tl_Exec = Some (\<lambda>args w.
     if granted then (Inr ''done'', fst w, snd w + 1) else (Inl (Interrupted ''t'' args ''r''), w))\<rparr>)]"

definition ex_env :: "bool \<Rightarrow> (nat \<times> nat) env" where
  "ex_env granted = \<lparr>env_Model = ex_model, env_Tools = ex_tools granted, env_Concat = ex_concat, env_MaxIters = 3,
     env_Budget = 0, env_CheckpointEvery = 0, env_OnCheckpoint = False\<rparr>"

definition ex_checkpoint :: checkpoint where
  "ex_checkpoint = (case fst (StreamTurnWithTools (ex_env False) [(''user'', ''hi'')] (0, 0)) of
     EnginePaused t a i ck c u \<Rightarrow> ck | _ \<Rightarrow> \<lparr>cp_Messages = [], cp_Pending = [], cp_Content = [], cp_Usage = (0, 0), cp_Iter = 0\<rparr>)"

lemma ex_assistant: "answers_as_assistant (ex_env granted)"
  by (simp add: answers_as_assistant_def ex_env_def ex_concat_def plain_message_def)

lemma ex_pause: "StreamTurnWithTools (ex_env False) [(''user'', ''hi'')] (0, 0) =
  (EnginePaused ''t'' [] ''r'' ex_checkpoint [] (0, 0),
   [EvAsk [plain_message ''user'' ''hi''], EvToolStart ex_call], 1, 0)"
  by code_simp

theorem requests_obey_protocol_witness:
  "scan [] (restoreMessages (cp_Messages ex_checkpoint)) = Some (map cl_ID (cp_Pending ex_checkpoint)) \<and> cp_Pending ex_checkpoint \<noteq> []"
proof -
  have "turn (\<lambda>env. env = ex_env False) (EnginePaused ''t'' [] ''r'' ex_checkpoint [] (0, 0))
      [EvAsk [plain_message ''user'' ''hi''], EvToolStart ex_call]"
    by (rule turn.fresh [OF refl ex_pause])
  from requests_obey_protocol [OF this] show ?thesis using ex_assistant by auto
qed

theorem pauses_do_not_extend_limit_witness:
  "asks (fst (snd (ResumeTurnWithTools (ex_env False) ex_checkpoint False [] (1, 0)))) \<le> 2"
proof -
  have p: "paused_after (\<lambda>env. env = ex_env False) (asks [EvAsk [plain_message ''user'' ''hi''], EvToolStart ex_call]) ex_checkpoint"
    by (rule paused_after.first_pause [OF refl ex_pause])
  have "env_MaxIters (ex_env False) = 3" by (simp add: ex_env_def)
  then have "int (asks [EvAsk [plain_message ''user'' ''hi''], EvToolStart ex_call] +
      asks (fst (snd (ResumeTurnWithTools (ex_env False) ex_checkpoint False [] (1, 0))))) \<le> max 1 3"
    using pauses_do_not_extend_limit [of "\<lambda>env. env = ex_env False" 3 "ex_env False"] p
    by (metis surjective_pairing)
  then show ?thesis by simp
qed

theorem refusal_without_pending_denies_next_call_witness:
  "\<exists>r rest w2. ResumeTurnWithTools (ex_env True) (ex_checkpoint\<lparr>cp_Pending := [], cp_Messages := take 1 (cp_Messages ex_checkpoint)\<rparr>)
     False [] (0, 0) = (r, EvAsk [plain_message ''user'' ''hi''] # rest, w2) \<and>
   hd rest = EvTool ex_call ''the user denied this tool call'' False"
proof -
  let ?ck = "ex_checkpoint\<lparr>cp_Pending := [], cp_Messages := take 1 (cp_Messages ex_checkpoint)\<rparr>"
  have 1: "cp_Pending ?ck = []" "cp_Messages ?ck \<noteq> []" "cp_Iter ?ck < normalized (env_MaxIters (ex_env True))" by code_simp+
  have 2: "ask (ex_env True) (cp_Iter ?ck) (cp_Iter ?ck) (restoreMessages (cp_Messages ?ck)) (cp_Content ?ck) (cp_Usage ?ck) (0, 0) =
      (Go [plain_message ''user'' ''hi'', (plain_message ''assistant'' [])\<lparr>wm_ToolCalls := [ex_call]\<rparr>] [] (0, 0) [ex_call],
       [EvAsk [plain_message ''user'' ''hi'']], (1, 0))" by code_simp
  show ?thesis using refusal_without_pending_denies_next_call [OF 1 2, of "[]"] by (simp add: denial_def)
qed

end
