(* ===== verification/Agents_Approval.thy ===== *)
theory Agents_Approval
  imports Agents_Engine Agents_Store
begin

section \<open>Agents: the approval gate and the audit log\<close>

text \<open>
  The wrapper every tool of a turn goes through (\<open>providers/agents/api/toolset.go\<close>): the approval
  gate, the grant an approved resume carries, the inbox item of a request for approval and the audit
  row of every call. The state of a gate is the grant's used flag (a pointer, \<open>None\<close> when nil), the
  store, and the world the tools act on. New identifiers and the clock are arguments of a call.
  The notification of the user's channel and the published event are not part of the model, and
  the JSON re-encoding of the stored arguments is an argument (\<open>redact\<close>); its core, the redaction
  of a decoded object, is \<open>redactMap\<close>.
\<close>

subsection \<open>Redaction\<close>

fun contains :: "string \<Rightarrow> string \<Rightarrow> bool" where
  "contains [] sub = (sub = [])"
| "contains (c # s) sub = (take (length sub) (c # s) = sub \<or> contains s sub)"

definition sensitiveArgKeys :: "string list" where
  "sensitiveArgKeys = [''token'', ''password'', ''secret'', ''authorization'', ''api_key'', ''apikey'', ''api-key'', ''bearer'', ''credential'']"

definition sensitive :: "string \<Rightarrow> bool" where
  "sensitive k = (\<exists>s \<in> set sensitiveArgKeys. contains (to_lower k) s)"

fun redactMap :: "(string \<times> json) list \<Rightarrow> (string \<times> json) list" where
  "redactMap [] = []"
| "redactMap ((k, v) # m) =
     (k, if sensitive k then JString ''[redacted]'' else (case v of JObject nested \<Rightarrow> JObject (redactMap nested) | _ \<Rightarrow> v)) # redactMap m"

subsection \<open>Which tools are gated\<close>

definition approvalExempt :: "string list" where
  "approvalExempt = [''memory_save'', ''memory_list'', ''notify'', ''ask'', ''wait'', ''schedules_list'']"

fun toolNeedsApproval :: "string \<Rightarrow> string list \<Rightarrow> bool" where
  "toolNeedsApproval name [] = False"
| "toolNeedsApproval name (p0 # ps) =
     (let p = trim_space p0 in
      if p = [] then toolNeedsApproval name ps
      else if p = ''*'' \<or> p = name then True
      else if hasSuffix p ''*'' \<and> hasPrefix name (butlast p) then True
      else toolNeedsApproval name ps)"

subsection \<open>The grant of an approved resume\<close>

record task_run =
  tr_ApproveTool :: string
  tr_ApproveArgs :: string

record 'w gate_state =
  gs_approveUsed :: "bool option"
  gs_store :: agents_store
  gs_world :: 'w

text \<open>The grant for a tool: the approved arguments, \<open>None\<close> for the zero value.\<close>

definition approvalFor :: "task_run \<Rightarrow> bool option \<Rightarrow> string \<Rightarrow> string option" where
  "approvalFor r approveUsed toolName =
     (if tr_ApproveTool r = [] \<or> tr_ApproveTool r \<noteq> toolName \<or> approveUsed = None then None else Some (tr_ApproveArgs r))"

definition consume :: "string option \<Rightarrow> string \<Rightarrow> bool option \<Rightarrow> bool \<times> bool option" where
  "consume g argsJSON used =
     (case g of None \<Rightarrow> (False, used)
      | Some args \<Rightarrow> if used = Some True \<or> args \<noteq> argsJSON then (False, used) else (True, Some True))"

subsection \<open>The wrapper\<close>

record gate_deps =
  gd_Scope :: agent_scope
  gd_AgentName :: string
  gd_RunID :: string
  gd_Trigger :: string

definition maxStoredResult :: nat where "maxStoredResult = 64 * 1024"

text \<open>What a call brings with it: the identifiers of the rows it may write, the time and the
  duration of the tool.\<close>

record call_context =
  cx_inboxID :: string
  cx_callID :: string
  cx_now :: gotime
  cx_durationMS :: int

definition audit_row :: "gate_deps \<Rightarrow> call_context \<Rightarrow> string \<Rightarrow> string \<Rightarrow> string \<Rightarrow> string \<Rightarrow> string \<Rightarrow> int \<Rightarrow> tool_call" where
  "audit_row deps cx name args result outcome err duration = \<lparr>tc_ID = cx_callID cx, tc_AgentName = gd_AgentName deps,
     tc_RunID = gd_RunID deps, tc_Trigger = gd_Trigger deps, tc_Tool = name, tc_Args = args, tc_Result = result,
     tc_Outcome = outcome, tc_Error = err, tc_DurationMS = duration, tc_CreatedAt = cx_now cx\<rparr>"

definition postApprovalRequest ::
  "(string \<Rightarrow> string) \<Rightarrow> gate_deps \<Rightarrow> call_context \<Rightarrow> string \<Rightarrow> string \<Rightarrow> agents_store \<Rightarrow> string \<times> agents_store" where
  "postApprovalRequest redact deps cx toolName argsJSON s =
     (let wsScope = (gd_Scope deps)\<lparr>asc_AgentName := []\<rparr>;
          item = \<lparr>ibx_ID = cx_inboxID cx, ibx_AgentName = gd_AgentName deps, ibx_RunID = gd_RunID deps, ibx_Kind = ''approval'',
            ibx_State = ''pending'', ibx_Prompt = ''Allow '' @ gd_AgentName deps @ '' to run '' @ toolName @ ''?'',
            ibx_Payload = [(''tool'', JString toolName), (''args'', JString (redact argsJSON)), (''trigger'', JString (gd_Trigger deps))],
            ibx_Response = [], ibx_CreatedAt = cx_now cx, ibx_UpdatedAt = cx_now cx\<rparr>
      in (cx_inboxID cx, snd (AddInboxItem wsScope item s)))"

text \<open>The tool behind the wrapper returns an observation and an error, which may come with text.\<close>

type_synonym 'w tool_exec = "string \<Rightarrow> 'w \<Rightarrow> ((string \<times> image list) \<times> exec_error option) \<times> 'w"

fun error_text :: "exec_error \<Rightarrow> string" where
  "error_text (ToolFailed e) = e"
| "error_text (Interrupted t args rid) =
     ''tool '' @ CHR 0x22 # t @ [CHR 0x22] @ '' requires user approval (request '' @ rid @ '')''"

definition needs_approval :: "string list \<Rightarrow> string \<Rightarrow> bool" where
  "needs_approval requireApproval name \<longleftrightarrow> toolNeedsApproval name requireApproval \<and> name \<notin> set approvalExempt"

definition wrapTool ::
  "(string \<Rightarrow> string) \<Rightarrow> gate_deps \<Rightarrow> task_run \<Rightarrow> string list \<Rightarrow> string \<Rightarrow> 'w tool_exec \<Rightarrow> call_context \<Rightarrow> string \<Rightarrow> 'w gate_state \<Rightarrow>
   ((string \<times> image list) \<times> exec_error option) \<times> 'w gate_state" where
  "wrapTool redact deps r requireApproval name exec cx argsJSON st =
     (let needsApproval = needs_approval requireApproval name;
          (granted, used) = (if needsApproval then consume (approvalFor r (gs_approveUsed st) name) argsJSON (gs_approveUsed st)
                             else (False, gs_approveUsed st));
          append = (\<lambda>row s. snd (AppendToolCall (gd_Scope deps) row s))
      in if needsApproval \<and> \<not> granted then
           (case postApprovalRequest redact deps cx name argsJSON (gs_store st) of (reqID, s1) \<Rightarrow>
             ((([], []), Some (Interrupted name argsJSON reqID)),
              st\<lparr>gs_approveUsed := used, gs_store := append (audit_row deps cx name (redact argsJSON) [] ''pending_approval'' [] 0) s1\<rparr>))
         else
           (case exec argsJSON (gs_world st) of ((obs, err), w1) \<Rightarrow>
             (let (outcome, errText) = (case err of Some e \<Rightarrow> (''error'', error_text e) | None \<Rightarrow> (''ok'', []))
              in ((obs, err), st\<lparr>gs_approveUsed := used, gs_world := w1,
                   gs_store := append (audit_row deps cx name (redact argsJSON) (safeTruncate (fst obs) maxStoredResult) outcome
                     (safeTruncate errText 4000) (cx_durationMS cx)) (gs_store st)\<rparr>))))"

subsection \<open>The calls of a turn\<close>

text \<open>The tools of a run record in the world which of them were executed, with which arguments.\<close>

definition recording :: "string \<Rightarrow> 'w tool_exec \<Rightarrow> ((string \<times> string) list \<times> 'w) tool_exec" where
  "recording name exec args lw = (case exec args (snd lw) of (x, w') \<Rightarrow> (x, fst lw @ [(name, args)], w'))"

fun run_calls ::
  "(string \<Rightarrow> string) \<Rightarrow> gate_deps \<Rightarrow> task_run \<Rightarrow> string list \<Rightarrow> (string \<Rightarrow> 'w tool_exec) \<Rightarrow>
   (string \<times> string \<times> call_context) list \<Rightarrow> ((string \<times> string) list \<times> 'w) gate_state \<Rightarrow> ((string \<times> string) list \<times> 'w) gate_state" where
  "run_calls redact deps r req tools [] st = st"
| "run_calls redact deps r req tools ((name, args, cx) # cs) st =
     run_calls redact deps r req tools cs (snd (wrapTool redact deps r req name (recording name (tools name)) cx args st))"

definition executed :: "((string \<times> string) list \<times> 'w) gate_state \<Rightarrow> (string \<times> string) list" where
  "executed st = fst (gs_world st)"

definition audit :: "gate_deps \<Rightarrow> 'w gate_state \<Rightarrow> tool_call list" where
  "audit deps st = inner (ag_toolCalls (gs_store st)) (tenantKey (gd_Scope deps))"

text \<open>One call: it passes the gate or not.\<close>

lemma audit_post [simp]: "ag_toolCalls (snd (postApprovalRequest redact deps cx name args s)) = ag_toolCalls s"
  by (simp add: postApprovalRequest_def AddInboxItem_def Let_def split: sum.splits)

lemma append_audit:
  "agents_validate scope = Inr () \<Longrightarrow>
   inner (ag_toolCalls (snd (AppendToolCall scope row s))) (tenantKey scope) = inner (ag_toolCalls s) (tenantKey scope) @ [row]"
  by (simp add: AppendToolCall_def Let_def)

definition opens :: "task_run \<Rightarrow> string list \<Rightarrow> bool option \<Rightarrow> string \<Rightarrow> string \<Rightarrow> bool" where
  "opens r req used name args \<longleftrightarrow> \<not> needs_approval req name \<or>
     (used = Some False \<and> name = tr_ApproveTool r \<and> name \<noteq> [] \<and> args = tr_ApproveArgs r)"

lemma wrap_call:
  assumes "agents_validate (gd_Scope deps) = Inr ()"
  obtains row st' where "snd (wrapTool redact deps r req name (recording name exec) cx args st) = st'"
    "audit deps st' = audit deps st @ [row]" "tc_Tool row = name" "tc_Args row = redact args"
    "tc_Outcome row = ''pending_approval'' \<longleftrightarrow> \<not> opens r req (gs_approveUsed st) name args"
    "executed st' = executed st @ (if opens r req (gs_approveUsed st) name args then [(name, args)] else [])"
    "gs_approveUsed st' = (if opens r req (gs_approveUsed st) name args \<and> needs_approval req name then Some True else gs_approveUsed st)"
proof -
  define st' where "st' = snd (wrapTool redact deps r req name (recording name exec) cx args st)"
  have granted: "needs_approval req name \<Longrightarrow> consume (approvalFor r (gs_approveUsed st) name) args (gs_approveUsed st) =
      (opens r req (gs_approveUsed st) name args, if opens r req (gs_approveUsed st) name args then Some True else gs_approveUsed st)"
    by (cases "gs_approveUsed st") (auto simp: consume_def approvalFor_def opens_def)
  show thesis
  proof (cases "opens r req (gs_approveUsed st) name args")
    case False
    then have needs: "needs_approval req name" by (simp add: opens_def)
    have "audit deps st' = audit deps st @ [audit_row deps cx name (redact args) [] ''pending_approval'' [] 0]"
      using granted [OF needs] needs False
      by (simp add: st'_def wrapTool_def audit_def append_audit [OF assms] split: prod.split) (metis audit_post snd_conv)
    moreover have "executed st' = executed st" "gs_approveUsed st' = gs_approveUsed st"
      using granted [OF needs] needs False by (simp_all add: st'_def wrapTool_def executed_def split: prod.split)
    ultimately show thesis using False by (intro that [of st']) (auto simp: st'_def audit_row_def)
  next
    case True
    obtain obs err w1 where x: "exec args (snd (gs_world st)) = ((obs, err), w1)" by (metis surj_pair)
    obtain outcome errText where o: "(case err of Some e \<Rightarrow> (''error'', error_text e) | None \<Rightarrow> (''ok'', [])) = (outcome, errText)"
      "outcome \<noteq> ''pending_approval''" by (cases err) auto
    have g: "(if needs_approval req name then consume (approvalFor r (gs_approveUsed st) name) args (gs_approveUsed st)
        else (False, gs_approveUsed st)) = (needs_approval req name, if needs_approval req name then Some True else gs_approveUsed st)"
      using granted True by simp
    have st': "st' = st\<lparr>gs_approveUsed := (if needs_approval req name then Some True else gs_approveUsed st),
        gs_world := (fst (gs_world st) @ [(name, args)], w1),
        gs_store := snd (AppendToolCall (gd_Scope deps) (audit_row deps cx name (redact args) (safeTruncate (fst obs) maxStoredResult)
          outcome (safeTruncate errText 4000) (cx_durationMS cx)) (gs_store st))\<rparr>"
      unfolding st'_def wrapTool_def Let_def g by (simp add: recording_def x o(1))
    show thesis
      by (rule that [OF st'_def [symmetric]])
        (use True o(2) in \<open>auto simp: st' audit_def executed_def append_audit [OF assms] audit_row_def\<close>)
  qed
qed

definition gated_of :: "string list \<Rightarrow> (string \<times> string) list \<Rightarrow> (string \<times> string) list" where
  "gated_of req = filter (\<lambda>(name, args). needs_approval req name)"

lemma run_calls_gated:
  assumes "agents_validate (gd_Scope deps) = Inr ()"
  shows "\<exists>new. executed (run_calls redact deps r req tools calls st) = executed st @ new \<and>
    (gated_of req new = [] \<or> (gs_approveUsed st = Some False \<and> gated_of req new = [(tr_ApproveTool r, tr_ApproveArgs r)]))"
proof (induction calls arbitrary: st)
  case Nil then show ?case by (simp add: gated_of_def)
next
  case (Cons c calls)
  obtain name args cx where c: "c = (name, args, cx)" by (metis prod_cases3)
  obtain row st1 where w: "snd (wrapTool redact deps r req name (recording name (tools name)) cx args st) = st1"
    "executed st1 = executed st @ (if opens r req (gs_approveUsed st) name args then [(name, args)] else [])"
    "gs_approveUsed st1 = (if opens r req (gs_approveUsed st) name args \<and> needs_approval req name then Some True else gs_approveUsed st)"
    by (rule wrap_call [OF assms])
  from Cons.IH [of st1] obtain new where new: "executed (run_calls redact deps r req tools calls st1) = executed st1 @ new"
    "gated_of req new = [] \<or> (gs_approveUsed st1 = Some False \<and> gated_of req new = [(tr_ApproveTool r, tr_ApproveArgs r)])"
    by blast
  let ?first = "if opens r req (gs_approveUsed st) name args then [(name, args)] else []"
  have "gated_of req (?first @ new) = [] \<or>
      (gs_approveUsed st = Some False \<and> gated_of req (?first @ new) = [(tr_ApproveTool r, tr_ApproveArgs r)])"
    using new(2) w(3) by (auto simp: gated_of_def opens_def split: if_splits)
  then show ?case using new(1) w(1,2) c by auto
qed

text \<open>The calls of a run with the states before and after each, and what each returned.\<close>

fun call_trace ::
  "(string \<Rightarrow> string) \<Rightarrow> gate_deps \<Rightarrow> task_run \<Rightarrow> string list \<Rightarrow> (string \<Rightarrow> 'w tool_exec) \<Rightarrow>
   (string \<times> string \<times> call_context) list \<Rightarrow> ((string \<times> string) list \<times> 'w) gate_state \<Rightarrow>
   ((string \<times> string \<times> call_context) \<times> ((string \<times> string) list \<times> 'w) gate_state \<times>
    ((string \<times> image list) \<times> exec_error option) \<times> ((string \<times> string) list \<times> 'w) gate_state) list" where
  "call_trace redact deps r req tools [] st = []"
| "call_trace redact deps r req tools ((name, args, cx) # cs) st =
     (case wrapTool redact deps r req name (recording name (tools name)) cx args st of
        (res, st') \<Rightarrow> ((name, args, cx), st, res, st') # call_trace redact deps r req tools cs st')"

text \<open>The item that asks for the approval of a call is in the inbox and waits for an answer.\<close>

definition asked_for :: "(string \<Rightarrow> string) \<Rightarrow> gate_deps \<Rightarrow> call_context \<Rightarrow> string \<Rightarrow> string \<Rightarrow> agents_store \<Rightarrow> bool" where
  "asked_for redact deps cx name args s \<longleftrightarrow>
     (\<exists>items item. ListInbox ((gd_Scope deps)\<lparr>asc_AgentName := []\<rparr>) ''pending'' s = Inr items \<and> item \<in> set items \<and>
        ibx_ID item = cx_inboxID cx \<and> ibx_Kind item = ''approval'' \<and> ibx_RunID item = gd_RunID deps \<and>
        ibx_AgentName item = gd_AgentName deps \<and>
        ibx_Payload item = [(''tool'', JString name), (''args'', JString (redact args)), (''trigger'', JString (gd_Trigger deps))])"

lemma posted_is_asked:
  assumes "agents_validate (gd_Scope deps) = Inr ()" "cx_inboxID cx \<noteq> []"
  shows "asked_for redact deps cx name args (snd (AppendToolCall (gd_Scope deps) row (snd (postApprovalRequest redact deps cx name args s))))"
proof -
  let ?ws = "(gd_Scope deps)\<lparr>asc_AgentName := []\<rparr>"
  let ?s' = "snd (AppendToolCall (gd_Scope deps) row (snd (postApprovalRequest redact deps cx name args s)))"
  let ?item = "\<lparr>ibx_ID = cx_inboxID cx, ibx_AgentName = gd_AgentName deps, ibx_RunID = gd_RunID deps, ibx_Kind = ''approval'',
            ibx_State = ''pending'', ibx_Prompt = ''Allow '' @ gd_AgentName deps @ '' to run '' @ name @ ''?'',
            ibx_Payload = [(''tool'', JString name), (''args'', JString (redact args)), (''trigger'', JString (gd_Trigger deps))],
            ibx_Response = [], ibx_CreatedAt = cx_now cx, ibx_UpdatedAt = cx_now cx\<rparr>"
  have ws: "agents_validate ?ws = Inr ()" using assms(1) by (simp add: agents_validate_def)
  have "ag_inbox ?s' = mput (row_key ?ws (cx_inboxID cx)) ?item (ag_inbox s)"
    using assms ws by (simp add: postApprovalRequest_def AddInboxItem_def AppendToolCall_def Let_def)
  then have "(row_key ?ws (cx_inboxID cx), ?item) \<in> set (ag_inbox ?s')" by (simp add: map_of_SomeD)
  moreover have "hasPrefix (row_key ?ws (cx_inboxID cx)) (tenantKey ?ws @ ''|'')" by (simp add: hasPrefix_iff row_key_def)
  ultimately show ?thesis using ws unfolding asked_for_def ListInbox_def by (force simp: image_iff)
qed

lemma opens_gated:
  "needs_approval req name \<Longrightarrow> opens r req used name args \<longleftrightarrow>
     used = Some False \<and> name = tr_ApproveTool r \<and> name \<noteq> [] \<and> args = tr_ApproveArgs r"
  by (simp add: opens_def)

lemma wrap_call_result:
  assumes "agents_validate (gd_Scope deps) = Inr ()" "cx_inboxID cx \<noteq> []" "needs_approval req name"
    and "wrapTool redact deps r req name (recording name exec) cx args st = (res, st')"
  shows "if opens r req (gs_approveUsed st) name args
    then executed st' = executed st @ [(name, args)] \<and> gs_approveUsed st' = Some True
    else res = (([], []), Some (Interrupted name args (cx_inboxID cx))) \<and> executed st' = executed st \<and>
      gs_approveUsed st' = gs_approveUsed st \<and> asked_for redact deps cx name args (gs_store st')"
proof -
  have w: "snd (wrapTool redact deps r req name (recording name exec) cx args st) = st'" using assms(4) by simp
  show ?thesis
  proof (cases "opens r req (gs_approveUsed st) name args")
    case True
    then show ?thesis using w assms(3) by (rule_tac wrap_call [OF assms(1), of redact r req name exec cx args st]) simp_all
  next
    case False
    have g: "consume (approvalFor r (gs_approveUsed st) name) args (gs_approveUsed st) = (False, gs_approveUsed st)"
      using False assms(3) by (cases "gs_approveUsed st") (auto simp: consume_def approvalFor_def opens_def)
    obtain q where q: "postApprovalRequest redact deps cx name args (gs_store st) = (cx_inboxID cx, q)"
      by (simp add: postApprovalRequest_def Let_def)
    then have "res = (([], []), Some (Interrupted name args (cx_inboxID cx)))"
      "st' = st\<lparr>gs_approveUsed := gs_approveUsed st, gs_store := snd (AppendToolCall (gd_Scope deps)
         (audit_row deps cx name (redact args) [] ''pending_approval'' [] 0) (snd (postApprovalRequest redact deps cx name args (gs_store st))))\<rparr>"
      using assms(3,4) g by (simp_all add: wrapTool_def Let_def)
    then show ?thesis using False posted_is_asked [OF assms(1,2)] by (simp add: executed_def)
  qed
qed

lemma call_trace_results:
  assumes "agents_validate (gd_Scope deps) = Inr ()" "\<forall>(name, args, cx) \<in> set calls. cx_inboxID cx \<noteq> []"
    and "((name, args, cx), st0, res, st1) \<in> set (call_trace redact deps r req tools calls st)" "needs_approval req name"
  shows "if gs_approveUsed st0 = Some False \<and> name = tr_ApproveTool r \<and> name \<noteq> [] \<and> args = tr_ApproveArgs r
    then executed st1 = executed st0 @ [(name, args)] \<and> gs_approveUsed st1 = Some True
    else res = (([], []), Some (Interrupted name args (cx_inboxID cx))) \<and> executed st1 = executed st0 \<and>
      gs_approveUsed st1 = gs_approveUsed st0 \<and> asked_for redact deps cx name args (gs_store st1)"
  using assms(2,3)
proof (induction calls arbitrary: st)
  case (Cons call cs)
  obtain n a c where call: "call = (n, a, c)" by (metis prod_cases3)
  obtain x y where w: "wrapTool redact deps r req n (recording n (tools n)) c a st = (x, y)" by fastforce
  then consider (here) "n = name" "a = args" "c = cx" "st = st0" "x = res" "y = st1"
    | (later) "((name, args, cx), st0, res, st1) \<in> set (call_trace redact deps r req tools cs y)"
    using Cons.prems(2) call by auto
  then show ?case
  proof cases
    case here
    have "cx_inboxID cx \<noteq> []" using Cons.prems(1) call here(3) by simp
    from wrap_call_result [OF assms(1) this assms(4) w [unfolded here]] show ?thesis unfolding opens_gated [OF assms(4)] .
  next
    case later
    have "\<forall>(name, args, cx) \<in> set cs. cx_inboxID cx \<noteq> []" using Cons.prems(1) by simp
    from Cons.IH [OF this later] show ?thesis .
  qed
qed simp

text \<open>Property C12. An approval authorizes exactly one call: among any sequence of tool calls of a run,
  the executions of tools that need approval are none, or the one of the approved tool with the
  approved arguments, and that one only if the run carries an unused grant. Each gated call by itself
  either is executed, when it is the approved one and the grant is unused, which uses up the grant, or it
  is not: then it interrupts the run with the ID of a request that waits in the inbox for that call, and
  leaves the grant alone.\<close>

theorem gated_tools_run_only_as_approved:
  assumes "agents_validate (gd_Scope deps) = Inr ()" "executed st = []"
    and "\<forall>(name, args, cx) \<in> set calls. cx_inboxID cx \<noteq> []"
  shows "(gated_of req (executed (run_calls redact deps r req tools calls st)) = [] \<or>
     (gs_approveUsed st = Some False \<and>
      gated_of req (executed (run_calls redact deps r req tools calls st)) = [(tr_ApproveTool r, tr_ApproveArgs r)])) \<and>
    (\<forall>name args cx st0 res st1. ((name, args, cx), st0, res, st1) \<in> set (call_trace redact deps r req tools calls st) \<longrightarrow>
       needs_approval req name \<longrightarrow>
      (if gs_approveUsed st0 = Some False \<and> name = tr_ApproveTool r \<and> name \<noteq> [] \<and> args = tr_ApproveArgs r
       then executed st1 = executed st0 @ [(name, args)] \<and> gs_approveUsed st1 = Some True
       else res = (([], []), Some (Interrupted name args (cx_inboxID cx))) \<and> executed st1 = executed st0 \<and>
         gs_approveUsed st1 = gs_approveUsed st0 \<and> asked_for redact deps cx name args (gs_store st1)))"
proof (intro conjI allI impI)
  show "gated_of req (executed (run_calls redact deps r req tools calls st)) = [] \<or>
     (gs_approveUsed st = Some False \<and>
      gated_of req (executed (run_calls redact deps r req tools calls st)) = [(tr_ApproveTool r, tr_ApproveArgs r)])"
    using run_calls_gated [OF assms(1), of redact r req tools calls st] assms(2) by auto
qed (rule call_trace_results [OF assms(1,3)])

lemma run_calls_audit:
  assumes "agents_validate (gd_Scope deps) = Inr ()"
  shows "\<exists>rows. audit deps (run_calls redact deps r req tools calls st) = audit deps st @ rows \<and>
    map (\<lambda>row. (tc_Tool row, tc_Args row)) rows = map (\<lambda>(name, args, cx). (name, redact args)) calls \<and>
    executed (run_calls redact deps r req tools calls st) = executed st @
      map (\<lambda>((name, args, cx), row). (name, args)) (filter (\<lambda>(c, row). tc_Outcome row \<noteq> ''pending_approval'') (zip calls rows))"
proof (induction calls arbitrary: st)
  case (Cons c calls)
  obtain name args cx where c: "c = (name, args, cx)" by (metis prod_cases3)
  obtain row st1 where w: "snd (wrapTool redact deps r req name (recording name (tools name)) cx args st) = st1"
    "audit deps st1 = audit deps st @ [row]" "tc_Tool row = name" "tc_Args row = redact args"
    "tc_Outcome row = ''pending_approval'' \<longleftrightarrow> \<not> opens r req (gs_approveUsed st) name args"
    "executed st1 = executed st @ (if opens r req (gs_approveUsed st) name args then [(name, args)] else [])"
    by (rule wrap_call [OF assms])
  from Cons.IH [of st1] obtain rows where rows: "audit deps (run_calls redact deps r req tools calls st1) = audit deps st1 @ rows"
    "map (\<lambda>row. (tc_Tool row, tc_Args row)) rows = map (\<lambda>(name, args, cx). (name, redact args)) calls"
    "executed (run_calls redact deps r req tools calls st1) = executed st1 @
      map (\<lambda>((name, args, cx), row). (name, args)) (filter (\<lambda>(c, row). tc_Outcome row \<noteq> ''pending_approval'') (zip calls rows))"
    by blast
  show ?case
    by (rule exI [of _ "row # rows"]) (use rows w c in auto)
qed simp

text \<open>The audit log is complete: every tool call of a run, executed or not, adds exactly
  one row, in order, with the tool and its arguments as redacted, and the calls that were executed
  are exactly those whose row is not a pending approval.\<close>

theorem every_call_is_audited:
  assumes "agents_validate (gd_Scope deps) = Inr ()" "executed st = []"
  shows "\<exists>rows. audit deps (run_calls redact deps r req tools calls st) = audit deps st @ rows \<and>
    map (\<lambda>row. (tc_Tool row, tc_Args row)) rows = map (\<lambda>(name, args, cx). (name, redact args)) calls \<and>
    executed (run_calls redact deps r req tools calls st) =
      map (\<lambda>((name, args, cx), row). (name, args)) (filter (\<lambda>(c, row). tc_Outcome row \<noteq> ''pending_approval'') (zip calls rows))"
  using run_calls_audit [OF assms(1), of redact r req tools calls st] assms(2) by simp

subsection \<open>What redaction hides\<close>

fun at_path :: "string list \<Rightarrow> json \<Rightarrow> json option" where
  "at_path [] v = Some v"
| "at_path (k # ks) v = (case v of JObject m \<Rightarrow> Option.bind (map_of m k) (at_path ks) | _ \<Rightarrow> None)"

definition redact_value :: "json \<Rightarrow> json" where
  "redact_value v = (case v of JObject nested \<Rightarrow> JObject (redactMap nested) | _ \<Rightarrow> v)"

lemma map_of_redact:
  "map_of (redactMap m) k = map_option (\<lambda>v. if sensitive k then JString ''[redacted]'' else redact_value v) (map_of m k)"
  by (induction m) (auto simp: redact_value_def split: json.split)

lemma at_path_redact:
  "at_path ks (redact_value v) = (case at_path ks v of
     None \<Rightarrow> None
   | Some x \<Rightarrow> if ks \<noteq> [] \<and> sensitive (last ks) \<and> (\<forall>k \<in> set (butlast ks). \<not> sensitive k) then Some (JString ''[redacted]'')
               else if \<exists>k \<in> set ks. sensitive k then None else Some (redact_value x))"
proof (induction ks arbitrary: v)
  case (Cons k ks)
  show ?case
  proof (cases "\<exists>m x. v = JObject m \<and> map_of m k = Some x")
    case False
    then have "at_path (k # ks) v = None" "at_path (k # ks) (redact_value v) = None"
      by (auto simp: redact_value_def map_of_redact bind_eq_None_conv split: json.splits)
    then show ?thesis by simp
  next
    case True
    then obtain m x where v: "v = JObject m" "map_of m k = Some x" by blast
    show ?thesis
    proof (cases "sensitive k")
      case True
      then show ?thesis using v by (cases ks) (auto simp: redact_value_def map_of_redact split: option.splits)
    next
      case False
      then have "at_path (k # ks) (redact_value v) = at_path ks (redact_value x)"
        using v by (simp add: redact_value_def map_of_redact)
      then show ?thesis using Cons.IH [of x] v False by (cases "ks = []") (auto split: option.splits)
    qed
  qed
qed simp

text \<open>In the stored arguments of a call every value under a key that looks like a secret is
  replaced, at any depth of nested objects, and nothing else is: a path of keys leads to the marker
  when its last key is the first sensitive one, to nothing beyond a sensitive key, and otherwise to
  the value it led to before, itself redacted. Objects inside a list are not reached: a secret in
  one is stored as it is.\<close>

theorem redaction_hides_secrets:
  "at_path ks (JObject (redactMap m)) = (case at_path ks (JObject m) of
     None \<Rightarrow> None
   | Some x \<Rightarrow> if ks \<noteq> [] \<and> sensitive (last ks) \<and> (\<forall>k \<in> set (butlast ks). \<not> sensitive k) then Some (JString ''[redacted]'')
               else if \<exists>k \<in> set ks. sensitive k then None else Some (redact_value x)) \<and>
   redactMap [(''headers'', JArray [JObject [(''token'', JString ''s'')]])] = [(''headers'', JArray [JObject [(''token'', JString ''s'')]])]"
proof
  show "at_path ks (JObject (redactMap m)) = (case at_path ks (JObject m) of
     None \<Rightarrow> None
   | Some x \<Rightarrow> if ks \<noteq> [] \<and> sensitive (last ks) \<and> (\<forall>k \<in> set (butlast ks). \<not> sensitive k) then Some (JString ''[redacted]'')
               else if \<exists>k \<in> set ks. sensitive k then None else Some (redact_value x))"
    using at_path_redact [of ks "JObject m"] by (simp add: redact_value_def)
  show "redactMap [(''headers'', JArray [JObject [(''token'', JString ''s'')]])] = [(''headers'', JArray [JObject [(''token'', JString ''s'')]])]"
    by code_simp
qed

theorem redaction_hides_secrets_witness:
  "at_path [''auth'', ''Api_Key''] (JObject (redactMap [(''auth'', JObject [(''Api_Key'', JString ''s'')])])) = Some (JString ''[redacted]'')"
proof -
  have "sensitive ''Api_Key''" "\<not> sensitive ''auth''" by code_simp+
  then show ?thesis
    using conjunct1 [OF redaction_hides_secrets, of "[''auth'', ''Api_Key'']" "[(''auth'', JObject [(''Api_Key'', JString ''s'')])]"]
    by simp
qed

subsection \<open>An example\<close>

definition ex_deps :: gate_deps where
  "ex_deps = \<lparr>gd_Scope = \<lparr>asc_OrgUUID = ''o'', asc_WorkspaceUUID = ''w'', asc_AgentName = ''a''\<rparr>, gd_AgentName = ''a'',
     gd_RunID = ''r'', gd_Trigger = ''chat''\<rparr>"

definition ex_approved :: task_run where
  "ex_approved = \<lparr>tr_ApproveTool = ''deploy'', tr_ApproveArgs = ''{}''\<rparr>"

definition ex_gate :: "((string \<times> string) list \<times> unit) gate_state" where
  "ex_gate = \<lparr>gs_approveUsed = Some False, gs_store = agents_NewMemoryStore, gs_world = ([], ())\<rparr>"

definition ex_context :: call_context where
  "ex_context = \<lparr>cx_inboxID = ''i'', cx_callID = ''c'', cx_now = 0, cx_durationMS = 1\<rparr>"

definition ex_tool :: "string \<Rightarrow> unit tool_exec" where
  "ex_tool name args w = (((''ok'', []), None), w)"

definition ex_calls :: "(string \<times> string \<times> call_context) list" where
  "ex_calls = [(''deploy'', ''{}'', ex_context), (''deploy'', ''{}'', ex_context), (''ask'', ''{}'', ex_context)]"

lemma ex_deps_valid: "agents_validate (gd_Scope ex_deps) = Inr ()"
  by code_simp

lemma ex_gate_fresh: "executed ex_gate = []"
  by (simp add: executed_def ex_gate_def)

definition ex_trace where
  "ex_trace = call_trace id ex_deps ex_approved [''*''] ex_tool ex_calls ex_gate"

text \<open>The first call is the approved one, the second repeats it and has to be approved again.\<close>

theorem gated_tools_run_only_as_approved_witness:
  "gated_of [''*''] (executed (run_calls id ex_deps ex_approved [''*''] ex_tool ex_calls ex_gate)) = [(''deploy'', ''{}'')] \<and>
   (\<exists>st0 res st1. ex_trace ! 1 = ((''deploy'', ''{}'', ex_context), st0, res, st1) \<and>
      snd res = Some (Interrupted ''deploy'' ''{}'' ''i'') \<and> asked_for id ex_deps ex_context ''deploy'' ''{}'' (gs_store st1))"
proof -
  have ids: "\<forall>(name, args, cx) \<in> set ex_calls. cx_inboxID cx \<noteq> []" by (simp add: ex_calls_def ex_context_def)
  note p = gated_tools_run_only_as_approved [OF ex_deps_valid ex_gate_fresh ids, of "[''*'']" id ex_approved ex_tool,
      folded ex_trace_def]
  have gated: "needs_approval [''*''] ''deploy''" by code_simp
  let ?wrap = "\<lambda>st. wrapTool id ex_deps ex_approved [''*''] ''deploy'' (recording ''deploy'' (ex_tool ''deploy'')) ex_context ''{}'' st"
  obtain res0 st0 where w0: "?wrap ex_gate = (res0, st0)" by fastforce
  obtain res st1 where w1: "?wrap st0 = (res, st1)" by fastforce
  let ?first = "((''deploy'', ''{}'', ex_context), ex_gate, res0, st0)" and ?second = "((''deploy'', ''{}'', ex_context), st0, res, st1)"
  have "\<exists>others. ex_trace = ?first # ?second # others"
    unfolding ex_trace_def ex_calls_def call_trace.simps w0 prod.case w1 by (rule exI, rule refl)
  then obtain others where tr: "ex_trace = ?first # ?second # others" ..
  have "gs_approveUsed ex_gate = Some False" "tr_ApproveTool ex_approved = ''deploy''" "tr_ApproveArgs ex_approved = ''{}''"
    by (simp_all add: ex_gate_def ex_approved_def)
  moreover have "?first \<in> set ex_trace" unfolding tr by simp
  ultimately have used: "gs_approveUsed st0 = Some True" "executed st0 = [(''deploy'', ''{}'')]"
    using ex_gate_fresh conjunct2 [OF p, rule_format, OF _ gated, of "''{}''" ex_context ex_gate res0 st0] by simp_all
  have "run_calls id ex_deps ex_approved [''*''] ex_tool ex_calls ex_gate = run_calls id ex_deps ex_approved [''*''] ex_tool (tl ex_calls) st0"
    unfolding ex_calls_def list.sel run_calls.simps(2) [of _ _ _ _ _ "''deploy''"] w0 snd_conv ..
  then obtain new where "executed (run_calls id ex_deps ex_approved [''*''] ex_tool ex_calls ex_gate) = (''deploy'', ''{}'') # new"
    using run_calls_gated [OF ex_deps_valid, of id ex_approved "[''*'']" ex_tool "tl ex_calls" st0] used(2) by auto
  then have ran: "gated_of [''*''] (executed (run_calls id ex_deps ex_approved [''*''] ex_tool ex_calls ex_gate)) \<noteq> []"
    using gated by (simp add: gated_of_def)
  have "?second \<in> set ex_trace" unfolding tr by simp
  from conjunct2 [OF p, rule_format, OF this gated]
  have "res = (([], []), Some (Interrupted ''deploy'' ''{}'' (cx_inboxID ex_context)))"
    "asked_for id ex_deps ex_context ''deploy'' ''{}'' (gs_store st1)"
    using used(1) by simp_all
  moreover have "ex_trace ! 1 = ?second" unfolding tr by simp
  moreover have "gated_of [''*''] (executed (run_calls id ex_deps ex_approved [''*''] ex_tool ex_calls ex_gate)) = [(''deploy'', ''{}'')]"
    using conjunct1 [OF p] ran by (simp add: ex_approved_def)
  ultimately show ?thesis by (simp add: ex_context_def)
qed

theorem every_call_is_audited_witness:
  "length (audit ex_deps (run_calls id ex_deps ex_approved [''*''] ex_tool ex_calls ex_gate)) = 3"
proof -
  obtain rows where rows: "audit ex_deps (run_calls id ex_deps ex_approved [''*''] ex_tool ex_calls ex_gate) = audit ex_deps ex_gate @ rows"
    "map (\<lambda>row. (tc_Tool row, tc_Args row)) rows = map (\<lambda>(name, args, cx). (name, id args)) ex_calls"
    using every_call_is_audited [OF ex_deps_valid ex_gate_fresh, of id ex_approved "[''*'']" ex_tool ex_calls] by blast
  have "length rows = length ex_calls" using arg_cong [OF rows(2), of length] by (simp only: length_map)
  moreover have "audit ex_deps ex_gate = []" by (simp add: audit_def ex_gate_def agents_NewMemoryStore_def)
  ultimately show ?thesis using rows(1) by (simp add: ex_calls_def)
qed

end
