(* ===== verification/Agents_Schedules.thy ===== *)
theory Agents_Schedules
  imports Agents_Types
begin

section \<open>Agents: schedules\<close>

text \<open>
  The scheduler's policy (\<open>api/background.go\<close>): when a schedule is due, how a fire is claimed with an
  optimistic status write, the job that is submitted, and the failure counters. A Kubernetes object
  is a record; \<open>status\<close> is the record of the keys that the code reads and writes, and its writes set
  single keys. The API server, the executor and the cron library are not part of the model: an
  operation is a tree of its calls, each with the continuation for every possible answer, so that a
  system can interleave the calls of many replicas; an answer \<open>Inl\<close> is an error, also one of the
  client that \<open>scoped\<close> builds for the call.
\<close>

subsection \<open>Objects\<close>

record sched_spec =
  sp_AgentRef :: string
  sp_Type :: string
  sp_Schedule :: string
  sp_TimeZone :: string
  sp_RunAt :: "gotime option"
  sp_Task :: string
  sp_ChannelRef :: string
  sp_Checklist :: string
  sp_Suspend :: bool
  sp_Retry :: "int option"

text \<open>\<open>Retry\<close> is the number of attempts of a retry policy, which no code reads. The status of a schedule or a trigger; \<open>LastFired\<close> is set on triggers, the clock on schedules.\<close>

record source_status =
  ss_ObservedGeneration :: int
  ss_NextRun :: "gotime option"
  ss_LastRun :: "gotime option"
  ss_LastFired :: "gotime option"
  ss_LastRunID :: string
  ss_ConsecutiveFailures :: int
  ss_DisabledReason :: string

record source_object =
  so_Name :: string
  so_Cluster :: string
  so_Generation :: int
  so_ResourceVersion :: string
  so_Spec :: sched_spec
  so_Status :: source_status

text \<open>An instant written as RFC 3339 text and read back loses what is below a second.\<close>

definition second :: int where "second = 10 ^ 9"

definition rfc3339 :: "gotime \<Rightarrow> gotime" where
  "rfc3339 t = t - t mod second"

lemma rfc3339_le: "rfc3339 t \<le> t"
  by (simp add: rfc3339_def second_def)

lemma rfc3339_less: "t < rfc3339 t + second"
  using pos_mod_bound [of second t] by (simp add: rfc3339_def second_def)

lemma rfc3339_whole: "second dvd t \<Longrightarrow> rfc3339 t = t"
  by (simp add: rfc3339_def)

subsection \<open>When a schedule is due\<close>

text \<open>
  What the code uses of \<open>robfig/cron\<close>, of the time zone database and of \<open>%q\<close>. \<open>Next\<close> is the first
  instant of the expression after the given one in a location, or the zero instant if there is none.
\<close>

record ('loc, 'expr) cron_lib =
  cl_UTC :: 'loc
  cl_LoadLocation :: "string \<Rightarrow> (string, 'loc) res"
  cl_ParseStandard :: "string \<Rightarrow> (string, 'expr) res"
  cl_Next :: "'expr \<Rightarrow> 'loc \<Rightarrow> gotime \<Rightarrow> gotime"
  cl_Quote :: "string \<Rightarrow> string"

definition schedule_location :: "('loc, 'expr) cron_lib \<Rightarrow> sched_spec \<Rightarrow> (string, 'loc) res" where
  "schedule_location lib spec =
     (let tz = trim_space (sp_TimeZone spec) in
      if tz \<noteq> [] then (case cl_LoadLocation lib tz of
          Inl err \<Rightarrow> Inl (''invalid timeZone '' @ cl_Quote lib tz @ '': '' @ err) | Inr l \<Rightarrow> Inr l)
      else Inr (cl_UTC lib))"

text \<open>The answer is whether it fires and the next fire time (zero for none), or a permanent error.\<close>

definition scheduleDue :: "('loc, 'expr) cron_lib \<Rightarrow> sched_spec \<Rightarrow> source_status \<Rightarrow> gotime \<Rightarrow> (string, bool \<times> gotime) res" where
  "scheduleDue lib spec status now =
     (if sp_Type spec = ''cron'' \<or> sp_Type spec = ''heartbeat'' then
        (case schedule_location lib spec of Inl err \<Rightarrow> Inl err | Inr loc \<Rightarrow>
         (case cl_ParseStandard lib (sp_Schedule spec) of
            Inl err \<Rightarrow> Inl (''invalid cron '' @ cl_Quote lib (sp_Schedule spec) @ '': '' @ err)
          | Inr expr \<Rightarrow>
              (let nextFromNow = cl_Next lib expr loc now in
               case ss_NextRun status of
                 None \<Rightarrow> Inr (False, nextFromNow)
               | Some planned \<Rightarrow> if \<not> now < planned then Inr (True, nextFromNow) else Inr (False, 0))))
      else if sp_Type spec = ''wakeup'' then
        (if ss_LastRun status \<noteq> None then Inr (False, 0)
         else (case sp_RunAt spec of
             None \<Rightarrow> Inl ''wakeup schedule has no runAt''
           | Some runAt \<Rightarrow> if \<not> now < runAt then Inr (True, 0) else Inr (False, runAt)))
      else Inl (''unknown schedule type '' @ cl_Quote lib (sp_Type spec)))"

subsection \<open>Jobs\<close>

record job =
  job_ID :: string
  job_Kind :: string
  job_ClusterID :: string
  job_SourceName :: string
  job_ReplyTarget :: string
  job_NotifyChannel :: string
  job_AgentRef :: string
  job_Task :: string
  job_Trigger :: string
  job_SessionID :: string
  job_Timeout :: duration

definition heartbeatPrompt :: "string \<Rightarrow> string" where
  "heartbeatPrompt checklist =
     ''Review this standing checklist. If nothing needs attention, reply with exactly OK and nothing else. '' @
     ''If something is actionable, report it concisely:'' @ [CHR 0x0A, CHR 0x0A] @ checklist"

definition run_trigger :: "sched_spec \<Rightarrow> string" where
  "run_trigger spec = (if sp_Type spec = ''heartbeat'' then ''heartbeat''
     else if sp_Type spec = ''wakeup'' then ''wakeup'' else ''schedule'')"

definition fire_task :: "sched_spec \<Rightarrow> string" where
  "fire_task spec = (if sp_Type spec = ''heartbeat'' then heartbeatPrompt (sp_Checklist spec) else sp_Task spec)"

definition fire_job :: "source_object \<Rightarrow> gotime \<Rightarrow> job" where
  "fire_job u now = \<lparr>job_ID = so_Cluster u @ ''/'' @ so_Name u @ ''/'' @ show_int (unix_seconds now),
     job_Kind = ''schedule'', job_ClusterID = so_Cluster u, job_SourceName = so_Name u, job_ReplyTarget = [],
     job_NotifyChannel = sp_ChannelRef (so_Spec u), job_AgentRef = sp_AgentRef (so_Spec u),
     job_Task = fire_task (so_Spec u), job_Trigger = run_trigger (so_Spec u),
     job_SessionID = ''schedule:'' @ so_Name u, job_Timeout = 0\<rparr>"

subsection \<open>Calls\<close>

text \<open>
  An operation of the scheduler: it has returned, or it waits for the answer to a call. A call to the
  API server names the cluster and the resource, as the client for the cluster and the
  group-version-resource do.
\<close>

datatype calls =
    Returned "(string, unit) res"
  | GetSource string string string "source_object option \<Rightarrow> calls"
  | UpdateStatus string string source_object "(string, unit) res \<Rightarrow> calls"
  | Submit job "(string, unit) res \<Rightarrow> calls"

datatype status_field =
    ObservedGeneration int
  | NextRun gotime
  | LastRun gotime
  | DisabledReason string

fun set_field :: "status_field \<Rightarrow> source_status \<Rightarrow> source_status" where
  "set_field (ObservedGeneration g) st = st\<lparr>ss_ObservedGeneration := g\<rparr>"
| "set_field (NextRun t) st = st\<lparr>ss_NextRun := Some (rfc3339 t)\<rparr>"
| "set_field (LastRun t) st = st\<lparr>ss_LastRun := Some (rfc3339 t)\<rparr>"
| "set_field (DisabledReason r) st = st\<lparr>ss_DisabledReason := r\<rparr>"

definition merge_fields :: "status_field list \<Rightarrow> source_object \<Rightarrow> source_object" where
  "merge_fields fs u = u\<lparr>so_Status := fold set_field fs (so_Status u)\<rparr>"

definition updateStatus :: "source_object \<Rightarrow> status_field list \<Rightarrow> ((string, unit) res \<Rightarrow> calls) \<Rightarrow> calls" where
  "updateStatus u fs k = UpdateStatus (so_Cluster u) ''schedules'' (merge_fields fs u) k"

subsection \<open>A tick of one schedule\<close>

fun contains_text :: "string \<Rightarrow> string \<Rightarrow> bool" where
  "contains_text [] t = (t = [])"
| "contains_text (c # s) t = (hasPrefix (c # s) t \<or> contains_text s t)"

definition rearm :: "source_object \<Rightarrow> bool" where
  "rearm u \<longleftrightarrow> so_Generation u \<noteq> ss_ObservedGeneration (so_Status u)"

definition due_status :: "source_object \<Rightarrow> source_status" where
  "due_status u = (if rearm u then (so_Status u)\<lparr>ss_NextRun := None\<rparr> else so_Status u)"

definition arm_fields :: "source_object \<Rightarrow> gotime \<Rightarrow> status_field list" where
  "arm_fields u nxt = (if rearm u then [ObservedGeneration (so_Generation u)] else []) @
     (if ss_NextRun (due_status u) = None \<and> nxt \<noteq> 0 then [NextRun nxt] else [])"

definition claim_fields :: "source_object \<Rightarrow> gotime \<Rightarrow> gotime \<Rightarrow> status_field list" where
  "claim_fields u now nxt = [LastRun now] @
     (if rearm u then [ObservedGeneration (so_Generation u)] else []) @
     (if nxt \<noteq> 0 then [NextRun nxt] else [])"

definition no_task :: string where "no_task = ''schedule has no task/checklist''"

text \<open>What follows the claim.\<close>

definition launch :: "source_object \<Rightarrow> gotime \<Rightarrow> (string, unit) res \<Rightarrow> calls" where
  "launch u now claimed = (case claimed of
     Inl err \<Rightarrow> Returned (if contains_text (to_lower err) ''conflict'' then Inr () else Inl (''claiming: '' @ err))
   | Inr _ \<Rightarrow>
       if blank (fire_task (so_Spec u)) then updateStatus u [DisabledReason no_task] Returned
       else Submit (fire_job u now) Returned)"

definition process :: "('loc, 'expr) cron_lib \<Rightarrow> source_object \<Rightarrow> gotime \<Rightarrow> calls" where
  "process lib u now =
     (if so_Cluster u = [] then Returned (Inl ''no kcp.io/cluster annotation'')
      else if sp_Suspend (so_Spec u) \<or> ss_DisabledReason (so_Status u) \<noteq> [] then Returned (Inr ())
      else (case scheduleDue lib (so_Spec u) (due_status u) now of
          Inl permErr \<Rightarrow> updateStatus u [DisabledReason permErr, ObservedGeneration (so_Generation u)] Returned
        | Inr (fire, nxt) \<Rightarrow>
            if \<not> fire then
              (if length (arm_fields u nxt) > 0 then updateStatus u (arm_fields u nxt) Returned else Returned (Inr ()))
            else updateStatus u (claim_fields u now nxt) (launch u now)))"

subsection \<open>The outcome of a job\<close>

definition maxConsecutiveFailures :: int where "maxConsecutiveFailures = 5"

text \<open>The error of a run, \<open>None\<close> for none; the run ID is empty when no run was recorded.\<close>

definition outcome_status :: "string \<Rightarrow> string \<Rightarrow> string option \<Rightarrow> gotime \<Rightarrow> source_status \<Rightarrow> source_status" where
  "outcome_status kind runID runErr now st0 =
     (let st1 = (if kind = ''trigger'' then st0\<lparr>ss_LastFired := Some (rfc3339 now)\<rparr> else st0);
          st2 = (if runID \<noteq> [] then st1\<lparr>ss_LastRunID := runID\<rparr> else st1);
          failures = ss_ConsecutiveFailures st2 in
      case runErr of
        Some err \<Rightarrow>
          (let failures = i64 (failures + 1); st3 = st2\<lparr>ss_ConsecutiveFailures := failures\<rparr> in
           if failures \<ge> maxConsecutiveFailures
           then st3\<lparr>ss_DisabledReason := ''disabled after '' @ show_int failures @ '' consecutive failures: '' @ err\<rparr>
           else st3)
      | None \<Rightarrow> st2\<lparr>ss_ConsecutiveFailures := 0\<rparr>)"

definition source_resource :: "string \<Rightarrow> string" where
  "source_resource kind = (if kind = ''trigger'' then ''triggers'' else ''schedules'')"

definition recordOutcome :: "job \<Rightarrow> string \<Rightarrow> string option \<Rightarrow> gotime \<Rightarrow> calls" where
  "recordOutcome job runID runErr now =
     GetSource (job_ClusterID job) (source_resource (job_Kind job)) (job_SourceName job) (\<lambda>answer. case answer of
         None \<Rightarrow> Returned (Inr ())
       | Some u \<Rightarrow> UpdateStatus (job_ClusterID job) (source_resource (job_Kind job))
           (u\<lparr>so_Status := outcome_status (job_Kind job) runID runErr now (so_Status u)\<rparr>) (\<lambda>_. Returned (Inr ())))"

end
