(* ===== verification/Agents_Schedule_System.thy ===== *)
theory Agents_Schedule_System
  imports Agents_Schedules
begin

section \<open>Agents: replicas that share a schedule\<close>

text \<open>
  The replicas of the provider and everybody else who writes one schedule, as a transition system. A
  state holds every version the object has had, newest first, what each goroutine is doing, and the
  jobs that were submitted, each with the listed object and the clock it was decided from. A goroutine
  ticks on any version that was ever current, however old its listing is, and the calls of different
  goroutines interleave freely. A call can fail before or after the server has acted on it, and a
  goroutine can die at any point.
\<close>

subsection \<open>The API server\<close>

text \<open>
  The server is a parameter: how it may answer a write of a status, and how others may change the
  object. The contract is Kubernetes' optimistic concurrency: a write of the status is refused unless
  it carries the current resource version; an accepted write changes the status only and gives the
  object a version it never had, unless it changes nothing; an edit keeps the status, and one that
  changes the spec raises the generation.
\<close>

record kube =
  kb_Write :: "source_object \<Rightarrow> source_object list \<Rightarrow> (string, unit) res \<Rightarrow> source_object list \<Rightarrow> bool"
  kb_Edit :: "source_object list \<Rightarrow> source_object list \<Rightarrow> bool"

definition accepted :: "source_object \<Rightarrow> source_object list \<Rightarrow> source_object list \<Rightarrow> bool" where
  "accepted u past past' \<longleftrightarrow> so_ResourceVersion u = so_ResourceVersion (hd past) \<and>
     (past' = past \<and> so_Status u = so_Status (hd past) \<or>
      (\<exists>v. v \<notin> so_ResourceVersion ` set past \<and>
           past' = (hd past)\<lparr>so_Status := so_Status u, so_ResourceVersion := v\<rparr> # past))"

definition edited :: "source_object list \<Rightarrow> source_object list \<Rightarrow> bool" where
  "edited past past' \<longleftrightarrow> (\<exists>u. past' = u # past \<and> so_ResourceVersion u \<notin> so_ResourceVersion ` set past \<and>
     so_Name u = so_Name (hd past) \<and> so_Cluster u = so_Cluster (hd past) \<and> so_Status u = so_Status (hd past) \<and>
     (so_Spec u = so_Spec (hd past) \<and> so_Generation u = so_Generation (hd past) \<or> so_Generation (hd past) < so_Generation u))"

definition kube_contract :: "kube \<Rightarrow> bool" where
  "kube_contract kube \<longleftrightarrow>
     (\<forall>u past r past'. kb_Write kube u past r past' \<longrightarrow> past' = past \<and> isl r \<or> accepted u past past') \<and>
     (\<forall>past past'. kb_Edit kube past past' \<longrightarrow> edited past past')"

subsection \<open>The system\<close>

datatype goroutine = Idle | Ticking source_object gotime calls | Recording calls

record sched_system =
  sy_Past :: "source_object list"
  sy_Threads :: "nat \<Rightarrow> goroutine"
  sy_Jobs :: "(source_object \<times> gotime \<times> job) list"

fun running :: "goroutine \<Rightarrow> calls option" where
  "running Idle = None"
| "running (Ticking u now c) = Some c"
| "running (Recording c) = Some c"

fun go_on :: "goroutine \<Rightarrow> calls \<Rightarrow> goroutine" where
  "go_on Idle c = Idle"
| "go_on (Ticking u now _) c = Ticking u now c"
| "go_on (Recording _) c = Recording c"

fun submitted :: "goroutine \<Rightarrow> job \<Rightarrow> (string, unit) res \<Rightarrow> (source_object \<times> gotime \<times> job) list" where
  "submitted (Ticking u now _) j (Inr _) = [(u, now, j)]"
| "submitted _ _ _ = []"

definition set_thread :: "nat \<Rightarrow> goroutine \<Rightarrow> sched_system \<Rightarrow> sched_system" where
  "set_thread i g \<sigma> = \<sigma>\<lparr>sy_Threads := (sy_Threads \<sigma>)(i := g)\<rparr>"

text \<open>A call that is about the schedule of this system, and not about another object.\<close>

definition about :: "source_object list \<Rightarrow> string \<Rightarrow> string \<Rightarrow> string \<Rightarrow> bool" where
  "about past cluster resource name \<longleftrightarrow>
     cluster = so_Cluster (hd past) \<and> resource = ''schedules'' \<and> name = so_Name (hd past)"

inductive sched_step :: "('loc, 'expr) cron_lib \<Rightarrow> kube \<Rightarrow> sched_system \<Rightarrow> sched_system \<Rightarrow> bool"
  for lib :: "('loc, 'expr) cron_lib" and kube :: kube where
  ticks: "sy_Threads \<sigma> i = Idle \<Longrightarrow> u \<in> set (sy_Past \<sigma>) \<Longrightarrow>
    sched_step lib kube \<sigma> (set_thread i (Ticking u now (process lib u now)) \<sigma>)"
| records: "sy_Threads \<sigma> i = Idle \<Longrightarrow>
    sched_step lib kube \<sigma> (set_thread i (Recording (recordOutcome j runID runErr now)) \<sigma>)"
| reads: "running (sy_Threads \<sigma> i) = Some (GetSource cluster resource name k) \<Longrightarrow>
    (\<forall>u. answer = Some u \<longrightarrow> so_Name u = name \<and> (about (sy_Past \<sigma>) cluster resource name \<longrightarrow> u \<in> set (sy_Past \<sigma>))) \<Longrightarrow>
    sched_step lib kube \<sigma> (set_thread i (go_on (sy_Threads \<sigma> i) (k answer)) \<sigma>)"
| writes: "running (sy_Threads \<sigma> i) = Some (UpdateStatus cluster resource u k) \<Longrightarrow>
    (if about (sy_Past \<sigma>) cluster resource (so_Name u) then kb_Write kube u (sy_Past \<sigma>) r past' else past' = sy_Past \<sigma>) \<Longrightarrow>
    sched_step lib kube \<sigma> (set_thread i (go_on (sy_Threads \<sigma> i) (k r)) (\<sigma>\<lparr>sy_Past := past'\<rparr>))"
| submits: "running (sy_Threads \<sigma> i) = Some (Submit j k) \<Longrightarrow>
    sched_step lib kube \<sigma> (set_thread i (go_on (sy_Threads \<sigma> i) (k r))
      (\<sigma>\<lparr>sy_Jobs := sy_Jobs \<sigma> @ submitted (sy_Threads \<sigma> i) j r\<rparr>))"
| ends: "sched_step lib kube \<sigma> (set_thread i Idle \<sigma>)"
| edits: "kb_Edit kube (sy_Past \<sigma>) past' \<Longrightarrow> sched_step lib kube \<sigma> (\<sigma>\<lparr>sy_Past := past'\<rparr>)"

text \<open>A schedule is created with an empty status.\<close>

definition no_status :: source_status where
  "no_status = \<lparr>ss_ObservedGeneration = 0, ss_NextRun = None, ss_LastRun = None, ss_LastFired = None,
     ss_LastRunID = [], ss_ConsecutiveFailures = 0, ss_DisabledReason = []\<rparr>"

inductive sched_reach :: "('loc, 'expr) cron_lib \<Rightarrow> kube \<Rightarrow> sched_system \<Rightarrow> bool"
  for lib :: "('loc, 'expr) cron_lib" and kube :: kube where
  created: "so_Status u = no_status \<Longrightarrow>
    sched_reach lib kube \<lparr>sy_Past = [u], sy_Threads = (\<lambda>_. Idle), sy_Jobs = []\<rparr>"
| step: "sched_reach lib kube \<sigma> \<Longrightarrow> sched_step lib kube \<sigma> \<sigma>' \<Longrightarrow> sched_reach lib kube \<sigma>'"

subsection \<open>The decision to fire\<close>

definition recurring :: "sched_spec \<Rightarrow> bool" where
  "recurring spec \<longleftrightarrow> sp_Type spec = ''cron'' \<or> sp_Type spec = ''heartbeat''"

text \<open>The fire time that a fire at an instant plans, zero for none.\<close>

definition planned_next :: "('loc, 'expr) cron_lib \<Rightarrow> source_object \<Rightarrow> gotime \<Rightarrow> gotime" where
  "planned_next lib u now = (case scheduleDue lib (so_Spec u) (due_status u) now of Inr (_, n) \<Rightarrow> n | Inl _ \<Rightarrow> 0)"

text \<open>
  What \<open>Next\<close> promises: an instant after the given one, on a whole second, or the zero instant when the
  expression matches none.
\<close>

definition cron_contract :: "('loc, 'expr) cron_lib \<Rightarrow> bool" where
  "cron_contract lib \<longleftrightarrow> (\<forall>expr loc t. cl_Next lib expr loc t = 0 \<or>
     t < cl_Next lib expr loc t \<and> second dvd cl_Next lib expr loc t)"

text \<open>
  A fire moves the clock of its schedule on, unless its expression has no next instant: its claim then
  keeps the planned instant that is past, and is a write that changes nothing if it is made in the
  second of the last one.
\<close>

definition moves :: "('loc, 'expr) cron_lib \<Rightarrow> source_object \<Rightarrow> gotime \<Rightarrow> bool" where
  "moves lib u now \<longleftrightarrow> (recurring (so_Spec u) \<longrightarrow> planned_next lib u now \<noteq> 0)"

definition claim_status :: "('loc, 'expr) cron_lib \<Rightarrow> source_object \<Rightarrow> gotime \<Rightarrow> source_status" where
  "claim_status lib u now = so_Status (merge_fields (claim_fields u now (planned_next lib u now)) u)"

definition fires :: "('loc, 'expr) cron_lib \<Rightarrow> source_object \<Rightarrow> gotime \<Rightarrow> bool" where
  "fires lib u now \<longleftrightarrow> so_Cluster u \<noteq> [] \<and> \<not> sp_Suspend (so_Spec u) \<and> ss_DisabledReason (so_Status u) = [] \<and>
     scheduleDue lib (so_Spec u) (due_status u) now = Inr (True, planned_next lib u now)"

lemma due_recurring:
  assumes "scheduleDue lib (so_Spec u) (due_status u) now = Inr (True, n)" "recurring (so_Spec u)"
  obtains p loc expr where "\<not> rearm u" "ss_NextRun (so_Status u) = Some p" "p \<le> now"
    "schedule_location lib (so_Spec u) = Inr loc" "cl_ParseStandard lib (sp_Schedule (so_Spec u)) = Inr expr"
    "n = cl_Next lib expr loc now"
  using assms by (auto simp: scheduleDue_def recurring_def due_status_def Let_def
      split: sum.splits option.splits if_splits)

lemma due_wakeup:
  assumes "scheduleDue lib (so_Spec u) (due_status u) now = Inr (True, n)" "\<not> recurring (so_Spec u)"
  shows "n = 0" "ss_LastRun (so_Status u) = None" "sp_Type (so_Spec u) = ''wakeup''"
  using assms by (auto simp: scheduleDue_def recurring_def due_status_def split: option.splits if_splits)

lemma process_cases:
  obtains (returns) r where "process lib u now = Returned r"
  | (arms) fs where "process lib u now = updateStatus u fs Returned"
      "fs = arm_fields u (planned_next lib u now) \<or>
       (\<exists>e. fs = [DisabledReason e, ObservedGeneration (so_Generation u)] \<and>
            scheduleDue lib (so_Spec u) (due_status u) now = Inl e)"
  | (claims) "process lib u now = updateStatus u (claim_fields u now (planned_next lib u now)) (launch u now)" "fires lib u now"
proof (cases "so_Cluster u = [] \<or> sp_Suspend (so_Spec u) \<or> ss_DisabledReason (so_Status u) \<noteq> []")
  case True
  then have "\<exists>r. process lib u now = Returned r"
    by (cases "so_Cluster u = []") (simp_all add: process_def)
  then show thesis using returns by blast
next
  case on: False
  show thesis
  proof (cases "scheduleDue lib (so_Spec u) (due_status u) now")
    case (Inl e)
    then show thesis using on arms by (auto simp: process_def)
  next
    case (Inr a)
    obtain fire n where a: "a = (fire, n)" by fastforce
    then have n: "planned_next lib u now = n" using Inr by (simp add: planned_next_def)
    show thesis
    proof (cases fire)
      case True
      then show thesis using on Inr a n claims by (simp add: process_def fires_def)
    next
      case False
      show thesis
      proof (cases "arm_fields u n = []")
        case True
        then show thesis using on Inr a False returns by (simp add: process_def)
      next
        case more: False
        then show thesis using on Inr a False n more arms by (simp add: process_def)
      qed
    qed
  qed
qed


subsection \<open>The history of the object\<close>

text \<open>What every new version keeps of the one before it.\<close>

definition keeps :: "source_object \<Rightarrow> source_object \<Rightarrow> bool" where
  "keeps h x \<longleftrightarrow> so_Generation h \<le> so_Generation x \<and>
     (ss_LastRun (so_Status h) \<noteq> None \<longrightarrow> ss_LastRun (so_Status x) \<noteq> None) \<and>
     (\<forall>m. so_Generation x = so_Generation h \<longrightarrow> \<not> rearm h \<longrightarrow> ss_NextRun (so_Status h) = Some m \<longrightarrow>
        \<not> rearm x \<and> (\<exists>m' \<ge> m. ss_NextRun (so_Status x) = Some m'))"

definition older :: "source_object \<Rightarrow> source_object \<Rightarrow> bool" where
  "older u h \<longleftrightarrow> so_Name u = so_Name h \<and> so_Cluster u = so_Cluster h \<and> so_Generation u \<le> so_Generation h"

lemma older_trans: "older u v \<Longrightarrow> older v w \<Longrightarrow> older u w"
  by (simp add: older_def)

definition history :: "source_object list \<Rightarrow> bool" where
  "history past \<longleftrightarrow> past \<noteq> [] \<and> distinct (map so_ResourceVersion past) \<and>
     (\<forall>u \<in> set past. older u (hd past))"

definition grown :: "source_object list \<Rightarrow> source_object list \<Rightarrow> bool" where
  "grown past past' \<longleftrightarrow> past' = past \<or>
     (\<exists>x. past' = x # past \<and> so_ResourceVersion x \<notin> so_ResourceVersion ` set past \<and>
        so_Name x = so_Name (hd past) \<and> so_Cluster x = so_Cluster (hd past) \<and> keeps (hd past) x)"

lemma grown_history:
  assumes h: "history past" and g: "grown past past'"
  shows "history past'"
proof (cases "past' = past")
  case False
  then obtain x where x: "past' = x # past" "so_ResourceVersion x \<notin> so_ResourceVersion ` set past"
    "older (hd past) x" using g by (auto simp: grown_def keeps_def older_def)
  then have "\<forall>u \<in> set past. older u x" using h older_trans unfolding history_def by blast
  moreover have "older x x" by (simp add: older_def)
  ultimately show ?thesis using h x(1,2) by (simp add: history_def)
qed (use h in simp)

lemma grown_set: "grown past past' \<Longrightarrow> set past \<subseteq> set past'"
  by (auto simp: grown_def)

lemma grown_hd: "history past \<Longrightarrow> grown past past' \<Longrightarrow> so_Name (hd past') = so_Name (hd past) \<and> so_Cluster (hd past') = so_Cluster (hd past)"
  by (auto simp: grown_def)

text \<open>A version that is not the current one has another resource version.\<close>

lemma history_current:
  assumes "history past" "u \<in> set past" "so_ResourceVersion u = so_ResourceVersion (hd past)"
  shows "u = hd past"
  using assms by (cases past) (auto simp: history_def image_iff)

lemma edited_grown: "edited past past' \<Longrightarrow> grown past past'"
  unfolding edited_def grown_def keeps_def rearm_def by fastforce

text \<open>An accepted write of a changed status of the current version.\<close>

lemma accepted_grown:
  assumes h: "history past" and u: "u \<in> set past"
    and acc: "accepted (u\<lparr>so_Status := st\<rparr>) past past'" and k: "keeps u (u\<lparr>so_Status := st\<rparr>)"
  shows "grown past past'" "u = hd past"
proof -
  show hd: "u = hd past" using history_current [OF h u] acc by (simp add: accepted_def)
  have "keeps u (u\<lparr>so_Status := st, so_ResourceVersion := v\<rparr>)" for v using k by (simp add: keeps_def rearm_def)
  then show "grown past past'" using acc hd by (auto simp: accepted_def grown_def)
qed

lemma no_write_of_old:
  assumes "history past" "u \<in> set (tl past)" "so_ResourceVersion u' = so_ResourceVersion u"
  shows "\<not> accepted u' past past'"
  using history_current [OF assms(1), of u] assms by (cases past) (auto simp: history_def accepted_def)

subsection \<open>Fires that are claimed\<close>

definition settled_after :: "('loc, 'expr) cron_lib \<Rightarrow> source_object \<Rightarrow> gotime \<Rightarrow> source_object \<Rightarrow> bool" where
  "settled_after lib u now x \<longleftrightarrow> ss_LastRun (so_Status x) \<noteq> None \<and>
     (recurring (so_Spec u) \<and> planned_next lib u now \<noteq> 0 \<and> so_Generation x = so_Generation u \<longrightarrow>
        \<not> rearm x \<and> (\<exists>m \<ge> planned_next lib u now. ss_NextRun (so_Status x) = Some m))"

text \<open>
  The fire was claimed: the version right after the one it was decided from has the status of the
  claim, or the claim changed nothing. \<open>newer\<close> are the versions after the one it was decided from.
\<close>

definition claimed :: "('loc, 'expr) cron_lib \<Rightarrow> source_object \<Rightarrow> gotime \<Rightarrow> source_object list \<Rightarrow> bool" where
  "claimed lib u now newer \<longleftrightarrow> newer \<noteq> [] \<and> so_Status (last newer) = claim_status lib u now \<or>
     \<not> moves lib u now \<and> so_Status u = claim_status lib u now"

definition won :: "('loc, 'expr) cron_lib \<Rightarrow> source_object list \<Rightarrow> source_object \<Rightarrow> gotime \<Rightarrow> bool" where
  "won lib past u now \<longleftrightarrow> (\<exists>newer before. past = newer @ u # before \<and> claimed lib u now newer \<and>
     (\<forall>y \<in> set newer. settled_after lib u now y))"

lemma claim_LastRun: "ss_LastRun (claim_status lib u now) = Some (rfc3339 now)"
  by (simp add: claim_status_def merge_fields_def claim_fields_def)

lemma won_mem: "won lib past u now \<Longrightarrow> u \<in> set past"
  by (auto simp: won_def)

lemma won_old: "won lib past u now \<Longrightarrow> moves lib u now \<Longrightarrow> u \<in> set (tl past)"
  by (auto simp: won_def claimed_def tl_append split: list.splits)

lemma won_not_current: "history past \<Longrightarrow> won lib past u now \<Longrightarrow> moves lib u now \<Longrightarrow> u \<noteq> hd past"
  using won_old [of lib past u now] by (cases past) (auto simp: history_def)

lemma won_grown:
  assumes h: "history past" and g: "grown past past'" and w: "won lib past u now"
  shows "won lib past' u now"
proof (cases "past' = past")
  case False
  then obtain z where z: "past' = z # past" "keeps (hd past) z" using g by (auto simp: grown_def)
  obtain newer before where past: "past = newer @ u # before" and c: "claimed lib u now newer"
    and later: "\<forall>y \<in> set newer. settled_after lib u now y"
    using w by (auto simp: won_def)
  have hd: "settled_after lib u now (hd past)"
  proof (cases newer)
    case Nil
    then have "so_Status u = claim_status lib u now" "\<not> moves lib u now" using c by (simp_all add: claimed_def)
    then show ?thesis using past Nil by (simp add: settled_after_def moves_def claim_LastRun)
  qed (use past later in simp)
  have "so_Generation u \<le> so_Generation (hd past)" using h past by (simp add: history_def older_def)
  then have "settled_after lib u now z" using hd z(2) unfolding settled_after_def keeps_def
    by (metis order.antisym order.trans)
  moreover have "claimed lib u now (z # newer)" using c by (auto simp: claimed_def)
  ultimately have "past' = (z # newer) @ u # before \<and> claimed lib u now (z # newer) \<and> (\<forall>y \<in> set (z # newer). settled_after lib u now y)"
    using z(1) past later by simp
  then show ?thesis unfolding won_def by blast
qed (use w in simp)

text \<open>A claim that moves the clock on is never a write that changes nothing.\<close>

lemma claim_facts:
  assumes f: "fires lib u now" and lib: "cron_contract lib"
  shows "keeps u (merge_fields (claim_fields u now (planned_next lib u now)) u)"
    "moves lib u now \<Longrightarrow> claim_status lib u now \<noteq> so_Status u"
    "so_Status x = claim_status lib u now \<Longrightarrow> so_Generation x = so_Generation u \<Longrightarrow> settled_after lib u now x"
proof -
  let ?n = "planned_next lib u now" and ?c = "merge_fields (claim_fields u now (planned_next lib u now)) u"
  have due: "scheduleDue lib (so_Spec u) (due_status u) now = Inr (True, ?n)" using f by (simp add: fires_def)
  have "keeps u ?c \<and> (moves lib u now \<longrightarrow> so_Status ?c \<noteq> so_Status u) \<and>
    (so_Status x = so_Status ?c \<and> so_Generation x = so_Generation u \<longrightarrow> settled_after lib u now x)"
  proof (cases "recurring (so_Spec u)")
    case True
    from due_recurring [OF due True] obtain p loc expr where u: "\<not> rearm u" "ss_NextRun (so_Status u) = Some p" "p \<le> now"
      "?n = cl_Next lib expr loc now" by metis
    show ?thesis
    proof (cases "?n = 0")
      case zero: True
      then have c: "so_Status ?c = (so_Status u)\<lparr>ss_LastRun := Some (rfc3339 now)\<rparr>" "so_Generation ?c = so_Generation u"
        using u(1) by (simp_all add: merge_fields_def claim_fields_def)
      then have "keeps u ?c" by (simp add: keeps_def rearm_def)
      moreover have "settled_after lib u now x" if "so_Status x = so_Status ?c"
        using that c zero by (simp add: settled_after_def)
      ultimately show ?thesis using True zero by (simp add: moves_def)
    next
      case False
      then have n: "now < ?n" "rfc3339 ?n = ?n"
        using lib rfc3339_whole unfolding u(4) cron_contract_def by blast+
      have c: "so_Status ?c = (so_Status u)\<lparr>ss_LastRun := Some (rfc3339 now), ss_NextRun := Some ?n\<rparr>"
        "so_Generation ?c = so_Generation u"
        using u(1) n False by (simp_all add: merge_fields_def claim_fields_def)
      have "ss_NextRun (so_Status ?c) \<noteq> ss_NextRun (so_Status u)" using c(1) u(2,3) n(1) by simp
      then have "so_Status ?c \<noteq> so_Status u" by metis
      moreover have "keeps u ?c" using c u(1-3) n(1) by (auto simp: keeps_def rearm_def intro: order.trans)
      moreover have "settled_after lib u now x" if "so_Status x = so_Status ?c" "so_Generation x = so_Generation u"
        using that c u(1) by (simp add: settled_after_def rearm_def)
      ultimately show ?thesis by blast
    qed
  next
    case False
    note w = due_wakeup [OF due False]
    have c: "so_Generation ?c = so_Generation u" "ss_LastRun (so_Status ?c) = Some (rfc3339 now)"
      "ss_NextRun (so_Status ?c) = ss_NextRun (so_Status u)" "\<not> rearm ?c"
      using w(1) by (simp_all add: merge_fields_def claim_fields_def rearm_def)
    then have "keeps u ?c" by (auto simp: keeps_def)
    moreover have "so_Status ?c \<noteq> so_Status u" using c(2) w(2) by auto
    moreover have "settled_after lib u now x" if "so_Status x = so_Status ?c" "so_Generation x = so_Generation u"
      using that c False by (simp add: settled_after_def)
    ultimately show ?thesis by blast
  qed
  then show "keeps u ?c" "moves lib u now \<Longrightarrow> claim_status lib u now \<noteq> so_Status u"
    "so_Status x = claim_status lib u now \<Longrightarrow> so_Generation x = so_Generation u \<Longrightarrow> settled_after lib u now x"
    unfolding claim_status_def by blast+
qed

lemma claim_wins:
  assumes h: "history past" and f: "fires lib u now" and lib: "cron_contract lib" and u: "u \<in> set past"
    and acc: "accepted (merge_fields (claim_fields u now (planned_next lib u now)) u) past past'"
  shows "grown past past'" "won lib past' u now" "u = hd past"
proof -
  note cs = claim_facts [OF f lib]
  note g = accepted_grown [OF h u acc [unfolded merge_fields_def], folded merge_fields_def, OF cs(1)]
  show "grown past past'" "u = hd past" using g by simp_all
  obtain ys where past: "past = u # ys" using g(2) h by (cases past) (simp_all add: history_def)
  let ?c = "merge_fields (claim_fields u now (planned_next lib u now)) u"
  have "past' = past \<and> so_Status ?c = so_Status u \<or>
      (\<exists>v. past' = u\<lparr>so_Status := so_Status ?c, so_ResourceVersion := v\<rparr> # past)"
    using acc unfolding accepted_def past list.sel by blast
  then consider (same) "past' = past" "claim_status lib u now = so_Status u"
    | (new) v where "past' = [u\<lparr>so_Status := claim_status lib u now, so_ResourceVersion := v\<rparr>] @ u # ys"
    unfolding claim_status_def past by fastforce
  then show "won lib past' u now"
  proof cases
    case same
    then have "claimed lib u now []" using cs(2) by (auto simp: claimed_def)
    then show ?thesis unfolding won_def same(1) using past by (intro exI [of _ "[]"] exI [of _ ys]) simp
  next
    case (new v)
    let ?x = "u\<lparr>so_Status := claim_status lib u now, so_ResourceVersion := v\<rparr>"
    have "settled_after lib u now ?x" by (rule cs(3)) simp_all
    then show ?thesis unfolding won_def new by (intro exI [of _ "[?x]"] exI [of _ ys]) (simp add: claimed_def)
  qed
qed


text \<open>The other writes: arming, a permanent error, and the outcome of a job.\<close>

lemma arm_keeps: "keeps u (merge_fields (arm_fields u n) u)"
  by (auto simp: keeps_def merge_fields_def arm_fields_def due_status_def rearm_def)

lemma error_keeps:
  "keeps u (merge_fields [DisabledReason e, ObservedGeneration (so_Generation u)] u)"
  "keeps u (merge_fields [DisabledReason e] u)"
  by (auto simp: keeps_def merge_fields_def rearm_def)

lemma outcome_keeps: "keeps u (u\<lparr>so_Status := outcome_status kind runID runErr now (so_Status u)\<rparr>)"
  by (auto simp: keeps_def rearm_def outcome_status_def Let_def split: option.splits)

subsection \<open>The invariant\<close>

definition outcome_write :: "source_object list \<Rightarrow> calls \<Rightarrow> bool" where
  "outcome_write past c \<longleftrightarrow> (\<exists>cluster resource u kind runID runErr now.
     (about past cluster resource (so_Name u) \<longrightarrow> u \<in> set past) \<and>
     c = UpdateStatus cluster resource (u\<lparr>so_Status := outcome_status kind runID runErr now (so_Status u)\<rparr>)
       (\<lambda>_. Returned (Inr ())))"

lemma outcome_writeI:
  "(about past cluster resource (so_Name u) \<Longrightarrow> u \<in> set past) \<Longrightarrow>
   outcome_write past (UpdateStatus cluster resource
     (u\<lparr>so_Status := outcome_status kind runID runErr now (so_Status u)\<rparr>) (\<lambda>_. Returned (Inr ())))"
  unfolding outcome_write_def by blast

fun thread_ok :: "('loc, 'expr) cron_lib \<Rightarrow> source_object list \<Rightarrow> goroutine \<Rightarrow> bool" where
  "thread_ok lib past Idle = True"
| "thread_ok lib past (Ticking u now c) = (u \<in> set past \<and>
     (c = process lib u now \<or> (\<exists>r. c = Returned r) \<or>
      won lib past u now \<and> fires lib u now \<and> c = launch u now (Inr ())))"
| "thread_ok lib past (Recording c) =
     ((\<exists>j runID runErr now. c = recordOutcome j runID runErr now) \<or> (\<exists>r. c = Returned r) \<or> outcome_write past c)"

lemma outcome_write_grown:
  assumes h: "history past" and g: "grown past past'" and c: "outcome_write past c"
  shows "outcome_write past' c"
proof -
  have "about past' = about past" using grown_hd [OF h g] by (simp add: about_def fun_eq_iff)
  then show ?thesis using c grown_set [OF g] unfolding outcome_write_def by (metis subsetD)
qed

text \<open>The version that a goroutine is about to submit a job for, if the fire moves the clock on.\<close>

fun pending :: "('loc, 'expr) cron_lib \<Rightarrow> goroutine \<Rightarrow> source_object option" where
  "pending lib (Ticking u now (Submit j k)) = (if moves lib u now then Some u else None)"
| "pending lib _ = None"

definition job_ok :: "('loc, 'expr) cron_lib \<Rightarrow> source_object list \<Rightarrow> source_object \<times> gotime \<times> job \<Rightarrow> bool" where
  "job_ok lib past e = (case e of (u, now, j) \<Rightarrow>
     fires lib u now \<and> won lib past u now \<and> j = fire_job u now \<and> \<not> blank (fire_task (so_Spec u)))"

text \<open>
  No version is fired twice in a way that moves the clock on: by two jobs, by a job and a goroutine
  that still has to submit, or by two of these.
\<close>

definition moving :: "('loc, 'expr) cron_lib \<Rightarrow> (source_object \<times> gotime \<times> job) list \<Rightarrow> source_object list" where
  "moving lib jobs = map fst (filter (\<lambda>(u, now, j). moves lib u now) jobs)"

lemma moving_simps [simp]:
  "moving lib [] = []" "moving lib (jobs @ jobs') = moving lib jobs @ moving lib jobs'"
  "moving lib [(u, now, j)] = (if moves lib u now then [u] else [])"
  by (simp_all add: moving_def)

lemma moving_mem: "u \<in> set (moving lib jobs) \<Longrightarrow> \<exists>now j. (u, now, j) \<in> set jobs \<and> moves lib u now"
  unfolding moving_def by fastforce

definition exclusive :: "('loc, 'expr) cron_lib \<Rightarrow> (nat \<Rightarrow> goroutine) \<Rightarrow> (source_object \<times> gotime \<times> job) list \<Rightarrow> bool" where
  "exclusive lib threads jobs \<longleftrightarrow> distinct (moving lib jobs) \<and>
     (\<forall>i u. pending lib (threads i) = Some u \<longrightarrow> u \<notin> set (moving lib jobs)) \<and>
     (\<forall>i k u. pending lib (threads i) = Some u \<longrightarrow> pending lib (threads k) = Some u \<longrightarrow> i = k)"

definition sched_inv :: "('loc, 'expr) cron_lib \<Rightarrow> sched_system \<Rightarrow> bool" where
  "sched_inv lib \<sigma> \<longleftrightarrow> history (sy_Past \<sigma>) \<and> (\<forall>i. thread_ok lib (sy_Past \<sigma>) (sy_Threads \<sigma> i)) \<and>
     (\<forall>e \<in> set (sy_Jobs \<sigma>). job_ok lib (sy_Past \<sigma>) e) \<and> exclusive lib (sy_Threads \<sigma>) (sy_Jobs \<sigma>)"

lemma exclusiveD:
  assumes "exclusive lib threads jobs"
  shows "pending lib (threads i) = Some u \<Longrightarrow> u \<notin> set (moving lib jobs)"
    "pending lib (threads i) = Some u \<Longrightarrow> pending lib (threads k) = Some u \<Longrightarrow> i = k" "distinct (moving lib jobs)"
  using assms unfolding exclusive_def by blast+

lemma exclusive_update:
  assumes ex: "exclusive lib threads jobs"
    and p: "\<And>u. pending lib g = Some u \<Longrightarrow> u \<notin> set (moving lib jobs) \<and> (\<forall>k. pending lib (threads k) \<noteq> Some u)"
  shows "exclusive lib (threads(i := g)) jobs"
proof -
  have "u \<notin> set (moving lib jobs)" if "pending lib ((threads(i := g)) a) = Some u" for a u
    using p exclusiveD(1) [OF ex] that by (cases "a = i") auto
  moreover have "a = b" if "pending lib ((threads(i := g)) a) = Some u" "pending lib ((threads(i := g)) b) = Some u" for a b u
  proof (cases "a = i \<or> b = i")
    case True
    then show ?thesis using p [of u] that by (cases "a = i"; cases "b = i") simp_all
  next
    case False
    then show ?thesis using exclusiveD(2) [OF ex, of a u b] that by simp
  qed
  ultimately show ?thesis using exclusiveD(3) [OF ex] unfolding exclusive_def by blast
qed

text \<open>A goroutine submits the job it was about to.\<close>

lemma exclusive_submit:
  assumes ex: "exclusive lib threads jobs" and g: "pending lib g = None"
    and u: "moves lib u now \<Longrightarrow> pending lib (threads i) = Some u"
  shows "exclusive lib (threads(i := g)) (jobs @ [(u, now, j)])"
proof -
  have "v \<notin> set (moving lib (jobs @ [(u, now, j)]))" if "pending lib ((threads(i := g)) a) = Some v" for a v
    using exclusiveD(1) [OF ex, of a v] exclusiveD(2) [OF ex u, of a] that g by (cases "a = i") auto
  moreover have "a = b" if "pending lib ((threads(i := g)) a) = Some v" "pending lib ((threads(i := g)) b) = Some v" for a b v
    using exclusiveD(2) [OF ex, of a v b] that g by (cases "a = i"; cases "b = i") simp_all
  moreover have "distinct (moving lib (jobs @ [(u, now, j)]))" using exclusiveD(1) [OF ex u] exclusiveD(3) [OF ex] by auto
  ultimately show ?thesis unfolding exclusive_def by blast
qed

lemma process_not_pending [simp]: "pending lib' (Ticking u now (process lib u now)) = None"
  by (rule process_cases [of lib u now]) (simp_all add: updateStatus_def)

lemma pending_won:
  "thread_ok lib past g \<Longrightarrow> pending lib g = Some u \<Longrightarrow> \<exists>now. won lib past u now \<and> moves lib u now"
proof (cases g)
  case (Ticking v now c)
  assume "thread_ok lib past g" "pending lib g = Some u"
  moreover have "v = u \<and> moves lib u now" if "pending lib (Ticking v now c) = Some u" using that by (cases c) (auto split: if_splits)
  ultimately show ?thesis using Ticking by (cases "c = process lib v now") auto
qed simp_all

lemma thread_ok_grown: "history past \<Longrightarrow> grown past past' \<Longrightarrow> thread_ok lib past g \<Longrightarrow> thread_ok lib past' g"
  using grown_set won_grown outcome_write_grown by (cases g) (auto dest: subsetD)

lemma job_ok_grown: "history past \<Longrightarrow> grown past past' \<Longrightarrow> job_ok lib past e \<Longrightarrow> job_ok lib past' e"
  by (auto simp: job_ok_def intro: won_grown)

lemma inv_job:
  assumes "sched_inv lib \<sigma>" "(u, now, j) \<in> set (sy_Jobs \<sigma>)"
  shows "fires lib u now" "won lib (sy_Past \<sigma>) u now" "j = fire_job u now" "\<not> blank (fire_task (so_Spec u))"
  using bspec [of "set (sy_Jobs \<sigma>)" "job_ok lib (sy_Past \<sigma>)" "(u, now, j)"] assms
  by (simp_all add: sched_inv_def job_ok_def)

text \<open>One goroutine moves on and the history may grow.\<close>

lemma inv_thread:
  assumes inv: "sched_inv lib \<sigma>" and g: "grown (sy_Past \<sigma>) past'" and t: "thread_ok lib past' g'"
    and p: "\<And>u. pending lib g' = Some u \<Longrightarrow> u \<notin> set (moving lib (sy_Jobs \<sigma>)) \<and> (\<forall>k. pending lib (sy_Threads \<sigma> k) \<noteq> Some u)"
  shows "sched_inv lib (set_thread i g' (\<sigma>\<lparr>sy_Past := past'\<rparr>))"
proof -
  have h: "history (sy_Past \<sigma>)" using inv by (simp add: sched_inv_def)
  have "thread_ok lib past' (sy_Threads \<sigma> k)" for k
    using inv by (intro thread_ok_grown [OF h g]) (simp add: sched_inv_def)
  moreover have "job_ok lib past' e" if "e \<in> set (sy_Jobs \<sigma>)" for e
    using inv that by (intro job_ok_grown [OF h g]) (simp add: sched_inv_def)
  moreover have "exclusive lib ((sy_Threads \<sigma>)(i := g')) (sy_Jobs \<sigma>)"
    using inv p by (intro exclusive_update) (simp_all add: sched_inv_def)
  ultimately show ?thesis
    using t grown_history [OF h g] by (simp add: sched_inv_def set_thread_def)
qed

lemma inv_thread_quiet:
  assumes "sched_inv lib \<sigma>" "grown (sy_Past \<sigma>) past'" "thread_ok lib past' g'" "pending lib g' = None"
  shows "sched_inv lib (set_thread i g' (\<sigma>\<lparr>sy_Past := past'\<rparr>))"
  by (rule inv_thread [OF assms(1-3)]) (simp add: assms(4))

lemma about_own:
  assumes "history past" "u \<in> set past"
  shows "about past (so_Cluster u) ''schedules'' (so_Name u)"
proof -
  have "older u (hd past)" using assms unfolding history_def by blast
  then show ?thesis by (simp add: about_def older_def)
qed

text \<open>The write of a goroutine, by what it is doing.\<close>

lemma write_sound:
  assumes inv: "sched_inv lib \<sigma>" and c: "kube_contract kube" and lib: "cron_contract lib"
    and run: "running (sy_Threads \<sigma> i) = Some (UpdateStatus cluster resource w k)"
    and wr: "if about (sy_Past \<sigma>) cluster resource (so_Name w) then kb_Write kube w (sy_Past \<sigma>) r past' else past' = sy_Past \<sigma>"
  shows "sched_inv lib (set_thread i (go_on (sy_Threads \<sigma> i) (k r)) (\<sigma>\<lparr>sy_Past := past'\<rparr>))"
proof -
  let ?past = "sy_Past \<sigma>"
  have h: "history ?past" and ok: "thread_ok lib ?past (sy_Threads \<sigma> i)" using inv by (simp_all add: sched_inv_def)
  have answer: "past' = ?past \<or> accepted w ?past past'" "accepted w ?past past' \<or> isl r \<or> \<not> about ?past cluster resource (so_Name w)"
    using wr c by (auto simp: kube_contract_def split: if_splits)
  have same: "grown ?past ?past" by (simp add: grown_def)
  show ?thesis
  proof (cases "sy_Threads \<sigma> i")
    case Idle
    then show ?thesis using run by simp
  next
    case (Recording t)
    then have t: "t = UpdateStatus cluster resource w k" using run by simp
    then have "outcome_write ?past t" using ok Recording by (auto simp: recordOutcome_def)
    then obtain u kind runID runErr now where u: "about ?past cluster resource (so_Name u) \<longrightarrow> u \<in> set ?past"
      "w = u\<lparr>so_Status := outcome_status kind runID runErr now (so_Status u)\<rparr>" "k = (\<lambda>_. Returned (Inr ()))"
      unfolding t outcome_write_def by blast
    have "grown ?past past'"
    proof (cases "about ?past cluster resource (so_Name w)")
      case True
      then have "u \<in> set ?past" using u by simp
      then show ?thesis using answer(1) accepted_grown(1) [OF h _ _ outcome_keeps] same unfolding u(2) by blast
    qed (use wr same in simp)
    then show ?thesis unfolding Recording u(3) go_on.simps by (rule inv_thread_quiet [OF inv]) simp_all
  next
    case (Ticking u now t)
    have u: "u \<in> set ?past" using ok Ticking by simp
    have t: "t = UpdateStatus cluster resource w k" using run Ticking by simp
    consider (first) "t = process lib u now" | (second) "won lib ?past u now" "t = launch u now (Inr ())"
      using ok Ticking t by auto
    then show ?thesis
    proof cases
      case second
      then have w: "w = merge_fields [DisabledReason no_task] u" "k = Returned"
        using t by (auto simp: launch_def updateStatus_def split: if_splits)
      have "grown ?past past'" using answer(1) same accepted_grown(1) [OF h u] error_keeps(2) [of u no_task]
        unfolding w(1) merge_fields_def by blast
      moreover from this u have "u \<in> set past'" using grown_set by blast
      ultimately show ?thesis unfolding Ticking w(2) go_on.simps by (intro inv_thread_quiet [OF inv]) simp_all
    next
      case first
      show ?thesis
      proof (cases rule: process_cases [of lib u now])
        case (returns r)
        then show ?thesis using first t by simp
      next
        case (arms fs)
        then have w: "w = merge_fields fs u" "k = Returned" using first t by (simp_all add: updateStatus_def)
        have "keeps u (merge_fields fs u)" using arms(2) arm_keeps error_keeps(1) by blast
        then have "grown ?past past'" using answer(1) same accepted_grown(1) [OF h u]
          unfolding w(1) merge_fields_def by blast
        moreover from this u have "u \<in> set past'" using grown_set by blast
        ultimately show ?thesis unfolding Ticking w(2) go_on.simps by (intro inv_thread_quiet [OF inv]) simp_all
      next
        case claims
        then have w: "w = merge_fields (claim_fields u now (planned_next lib u now)) u" "k = launch u now"
          "cluster = so_Cluster u" "resource = ''schedules''"
          using first t by (simp_all add: updateStatus_def)
        have ab: "about ?past cluster resource (so_Name w)" using about_own [OF h u] w by (simp add: merge_fields_def)
        note wins = claim_wins [OF h claims(2) lib u, folded w(1)]
        show ?thesis
        proof (cases "isl r")
          case True
          then obtain r' where ret: "k r = Returned r'" using w(2) by (cases r) (auto simp: launch_def)
          have g: "grown ?past past'" using answer(1) same wins(1) by blast
          then have "u \<in> set past'" using u grown_set by blast
          then show ?thesis unfolding Ticking ret go_on.simps using g by (intro inv_thread_quiet [OF inv]) simp_all
        next
          case False
          then have acc: "accepted w ?past past'" and r: "r = Inr ()" using answer(2) ab by (auto, cases r) simp_all
          have cur: "u = hd ?past" using wins(3) [OF acc] .
          have "thread_ok lib past' (Ticking u now (k r))"
            using wins(1,2) [OF acc] claims(2) w(2) r u grown_set by fastforce
          moreover have new: "u \<notin> set (moving lib (sy_Jobs \<sigma>)) \<and> (\<forall>m. pending lib (sy_Threads \<sigma> m) \<noteq> Some u)"
          proof -
            have "u' \<noteq> u" if "won lib ?past u' now'" "moves lib u' now'" for u' now' using won_not_current [OF h that] cur by simp
            moreover have "\<exists>now'. won lib ?past u' now' \<and> moves lib u' now'" if "u' \<in> set (moving lib (sy_Jobs \<sigma>))" for u'
              using moving_mem [OF that] inv_job(2) [OF inv] by blast
            moreover have "\<exists>now'. won lib ?past u' now' \<and> moves lib u' now'" if "pending lib (sy_Threads \<sigma> m) = Some u'" for u' m
              by (rule pending_won [OF _ that]) (use inv in \<open>simp add: sched_inv_def\<close>)
            ultimately show ?thesis by blast
          qed
          moreover have "pending lib (Ticking u now (k r)) = Some u' \<Longrightarrow> u' = u" for u'
            by (cases "k r") (auto split: if_splits)
          ultimately show ?thesis unfolding Ticking go_on.simps by (intro inv_thread [OF inv wins(1) [OF acc]]) blast+
        qed
      qed
    qed
  qed
qed


lemma inv_thread_stay:
  assumes "sched_inv lib \<sigma>" "thread_ok lib (sy_Past \<sigma>) g'" "pending lib g' = None"
  shows "sched_inv lib (set_thread i g' \<sigma>)"
proof -
  have "grown (sy_Past \<sigma>) (sy_Past \<sigma>)" by (simp add: grown_def)
  from inv_thread_quiet [OF assms(1) this assms(2,3), of i] show ?thesis by simp
qed

lemma read_sound:
  assumes inv: "sched_inv lib \<sigma>" and run: "running (sy_Threads \<sigma> i) = Some (GetSource cluster resource name k)"
    and answer: "\<forall>u. answer = Some u \<longrightarrow> so_Name u = name \<and> (about (sy_Past \<sigma>) cluster resource name \<longrightarrow> u \<in> set (sy_Past \<sigma>))"
  shows "sched_inv lib (set_thread i (go_on (sy_Threads \<sigma> i) (k answer)) \<sigma>)"
proof (cases "sy_Threads \<sigma> i")
  case Idle
  then show ?thesis using run by simp
next
  case (Ticking u now t)
  have "t \<noteq> GetSource cluster resource name k" if "t = process lib u now"
    using that by (cases rule: process_cases [of lib u now]) (simp_all add: updateStatus_def)
  moreover have "launch u now (Inr ()) \<noteq> GetSource cluster resource name k" by (simp add: launch_def updateStatus_def)
  moreover have "thread_ok lib (sy_Past \<sigma>) (Ticking u now t)" using inv Ticking unfolding sched_inv_def by metis
  ultimately show ?thesis using run Ticking by auto
next
  case (Recording t)
  have "thread_ok lib (sy_Past \<sigma>) (Recording t)" using inv Recording unfolding sched_inv_def by metis
  then obtain j runID runErr now where "GetSource cluster resource name k = recordOutcome j runID runErr now"
    using run Recording by (auto simp: outcome_write_def)
  then have k: "cluster = job_ClusterID j" "resource = source_resource (job_Kind j)" "name = job_SourceName j"
    "k = (\<lambda>answer. case answer of None \<Rightarrow> Returned (Inr ())
       | Some u \<Rightarrow> UpdateStatus (job_ClusterID j) (source_resource (job_Kind j))
           (u\<lparr>so_Status := outcome_status (job_Kind j) runID runErr now (so_Status u)\<rparr>) (\<lambda>_. Returned (Inr ())))"
    by (simp_all add: recordOutcome_def)
  have "thread_ok lib (sy_Past \<sigma>) (Recording (k answer)) \<and> pending lib (Recording (k answer)) = None"
  proof (cases answer)
    case (Some u)
    then have "outcome_write (sy_Past \<sigma>) (k answer)" using answer unfolding k by (auto intro: outcome_writeI)
    then show ?thesis by simp
  qed (simp add: k(4))
  then show ?thesis unfolding Recording go_on.simps by (intro inv_thread_stay [OF inv]) simp_all
qed

lemma submit_sound:
  assumes inv: "sched_inv lib \<sigma>" and run: "running (sy_Threads \<sigma> i) = Some (Submit j k)"
  shows "sched_inv lib (set_thread i (go_on (sy_Threads \<sigma> i) (k r))
    (\<sigma>\<lparr>sy_Jobs := sy_Jobs \<sigma> @ submitted (sy_Threads \<sigma> i) j r\<rparr>))"
proof (cases "sy_Threads \<sigma> i")
  case Idle
  then show ?thesis using run by simp
next
  case (Recording t)
  have "thread_ok lib (sy_Past \<sigma>) (Recording t)" using inv Recording unfolding sched_inv_def by metis
  then show ?thesis using run Recording by (auto simp: outcome_write_def recordOutcome_def)
next
  case (Ticking u now t)
  then have t: "t = Submit j k" using run by simp
  have ok: "thread_ok lib (sy_Past \<sigma>) (Ticking u now t)" using inv Ticking unfolding sched_inv_def by metis
  have "process lib u now \<noteq> t" using process_cases [of lib u now] unfolding t by cases (simp_all add: updateStatus_def)
  then have w: "won lib (sy_Past \<sigma>) u now" "fires lib u now" "t = launch u now (Inr ())" "u \<in> set (sy_Past \<sigma>)"
    using ok t by auto
  then have l: "j = fire_job u now" "k = Returned" "\<not> blank (fire_task (so_Spec u))"
    using t by (auto simp: launch_def updateStatus_def split: if_splits)
  have p: "moves lib u now \<Longrightarrow> pending lib (sy_Threads \<sigma> i) = Some u" using Ticking t by simp
  have ex: "exclusive lib (sy_Threads \<sigma>) (sy_Jobs \<sigma>)" using inv by (simp add: sched_inv_def)
  show ?thesis
  proof (cases r)
    case (Inl e)
    then have stay: "\<sigma>\<lparr>sy_Jobs := sy_Jobs \<sigma> @ submitted (sy_Threads \<sigma> i) j r\<rparr> = \<sigma>" using Ticking by simp
    show ?thesis unfolding stay unfolding Ticking l(2) go_on.simps using w(4) by (intro inv_thread_stay [OF inv]) simp_all
  next
    case (Inr a)
    have "exclusive lib ((sy_Threads \<sigma>)(i := Ticking u now (Returned r))) (sy_Jobs \<sigma> @ [(u, now, j)])"
      by (rule exclusive_submit [OF ex _ p]) simp_all
    moreover have "job_ok lib (sy_Past \<sigma>) (u, now, j)" using w l by (simp add: job_ok_def)
    ultimately show ?thesis using inv Ticking Inr l(2) w(4) unfolding sched_inv_def set_thread_def by auto
  qed
qed

lemma sched_step_past:
  assumes st: "sched_step lib kube \<sigma> \<sigma>'" and c: "kube_contract kube"
  shows "set (sy_Past \<sigma>) \<subseteq> set (sy_Past \<sigma>')"
proof -
  have w: "set past \<subseteq> set past'" if "kb_Write kube u past r past'" for u past r past'
  proof -
    have "past' = past \<or> accepted u past past'" using that c unfolding kube_contract_def by blast
    then show ?thesis by (auto simp: accepted_def)
  qed
  have e: "set past \<subseteq> set past'" if "kb_Edit kube past past'" for past past'
  proof -
    have "edited past past'" using that c unfolding kube_contract_def by blast
    then show ?thesis by (auto simp: edited_def)
  qed
  show ?thesis using st
  proof cases
    case (writes i cluster resource u k r past')
    then have "set (sy_Past \<sigma>) \<subseteq> set past'" using w [of u "sy_Past \<sigma>" r past'] by (auto split: if_splits)
    then show ?thesis using writes(1) by (simp add: set_thread_def)
  qed (use e in \<open>simp_all add: set_thread_def\<close>)
qed

lemma sched_step_inv:
  assumes st: "sched_step lib kube \<sigma> \<sigma>'" and inv: "sched_inv lib \<sigma>" and c: "kube_contract kube" and lib: "cron_contract lib"
  shows "sched_inv lib \<sigma>'"
  using st
proof cases
  case (ticks i u now)
  show ?thesis unfolding ticks(1) by (rule inv_thread_stay [OF inv]) (simp_all add: ticks(3))
next
  case (records i j runID runErr now)
  have "thread_ok lib (sy_Past \<sigma>) (Recording (recordOutcome j runID runErr now))"
    unfolding thread_ok.simps by blast
  from inv_thread_stay [OF inv this, of i] show ?thesis using records(1) by simp
next
  case (reads i cluster resource name k answer)
  show ?thesis using read_sound [OF inv reads(2,3)] reads(1) by simp
next
  case (writes i cluster resource u k r past')
  show ?thesis using write_sound [OF inv c lib writes(2,3)] writes(1) by simp
next
  case (submits i j k r)
  show ?thesis using submit_sound [OF inv submits(2)] submits(1) by simp
next
  case (ends i)
  show ?thesis using inv_thread_stay [OF inv, of Idle i] ends by simp
next
  case (edits past')
  have g: "grown (sy_Past \<sigma>) past'" using edits(2) c edited_grown unfolding kube_contract_def by blast
  from inv have h: "history (sy_Past \<sigma>)" by (simp add: sched_inv_def)
  have "sched_inv lib (\<sigma>\<lparr>sy_Past := past'\<rparr>)"
    using inv by (auto simp: sched_inv_def intro: grown_history [OF h g] thread_ok_grown [OF h g] job_ok_grown [OF h g])
  then show ?thesis using edits(1) by simp
qed

theorem sched_reach_inv:
  assumes "sched_reach lib kube \<sigma>" "kube_contract kube" "cron_contract lib"
  shows "sched_inv lib \<sigma>"
  using assms(1)
proof induction
  case (created u)
  then show ?case by (simp add: sched_inv_def history_def older_def exclusive_def)
next
  case (step \<sigma> \<sigma>')
  then show ?case using sched_step_inv [OF step(2) step.IH assms(2,3)] by blast
qed

subsection \<open>Two fires\<close>

text \<open>Of two fires, the later one saw what the earlier one had claimed.\<close>

lemma won_pair:
  assumes h: "history past" and w1: "won lib past u1 n1" and w2: "won lib past u2 n2" and ne: "u1 \<noteq> u2"
  shows "settled_after lib u1 n1 u2 \<or> settled_after lib u2 n2 u1"
proof -
  obtain xs1 ys1 where p1: "past = xs1 @ u1 # ys1" "\<forall>y \<in> set xs1. settled_after lib u1 n1 y"
    using w1 by (auto simp: won_def)
  obtain xs2 ys2 where p2: "past = xs2 @ u2 # ys2" "\<forall>y \<in> set xs2. settled_after lib u2 n2 y"
    using w2 by (auto simp: won_def)
  have "u2 \<in> set past" using p2(1) by simp
  then have "u2 \<in> set xs1 \<or> u2 \<in> set ys1" using p1(1) ne by auto
  then show ?thesis
  proof
    assume "u2 \<in> set ys1"
    then obtain as bs where ys: "ys1 = as @ u2 # bs" by (meson split_list)
    then have one: "past = (xs1 @ u1 # as) @ u2 # bs" using p1(1) by simp
    have d: "distinct past" using h by (simp add: history_def distinct_map)
    then have "u2 \<notin> set (xs1 @ u1 # as)" "u2 \<notin> set bs" using one by auto
    then have "xs1 @ u1 # as = xs2" using append_Cons_eq_iff [of u2 "xs1 @ u1 # as" bs xs2 ys2] one p2(1) by simp
    then have "u1 \<in> set xs2" by auto
    then show ?thesis using p2(2) by blast
  qed (use p1(2) in blast)
qed

lemma fires_after:
  assumes "settled_after lib u1 n1 u2" "fires lib u2 n2" "recurring (so_Spec u1)" "recurring (so_Spec u2)"
    "so_Generation u1 = so_Generation u2" "planned_next lib u1 n1 \<noteq> 0"
  shows "planned_next lib u1 n1 \<le> n2"
proof -
  have due: "scheduleDue lib (so_Spec u2) (due_status u2) n2 = Inr (True, planned_next lib u2 n2)" using assms(2) by (simp add: fires_def)
  obtain p where "ss_NextRun (so_Status u2) = Some p" "p \<le> n2" using due_recurring [OF due assms(4)] by metis
  then show ?thesis using assms(1,3,5,6) by (auto simp: settled_after_def)
qed

end
