(* ===== verification/Agents_Schedule_Props.thy ===== *)
theory Agents_Schedule_Props
  imports Agents_Schedule_System
begin

section \<open>Agents: what schedules promise\<close>

text \<open>
  The properties of the scheduler: over all replicas and interleavings of
  \<open>Agents_Schedule_System\<close>, and for one undisturbed replica, whose calls all succeed, against an
  abstract clock and an abstract failure counter.
\<close>

subsection \<open>One undisturbed replica\<close>

text \<open>
  The calls of one goroutine, answered by a server that holds one object, and an executor that takes
  every job. The server gives a version after \<open>v\<close> by the function \<open>bump\<close>.
\<close>

primrec answered :: "(string \<Rightarrow> string) \<Rightarrow> calls \<Rightarrow> source_object \<times> job list \<Rightarrow> source_object \<times> job list" where
  "answered bump (Returned r) = (\<lambda>s. s)"
| "answered bump (GetSource cluster resource name k) = (\<lambda>s.
     answered bump (k (if about [fst s] cluster resource name then Some (fst s) else None)) s)"
| "answered bump (UpdateStatus cluster resource u k) = (\<lambda>s.
     if \<not> about [fst s] cluster resource (so_Name u) then answered bump (k (Inl ''not found'')) s
     else if so_ResourceVersion u \<noteq> so_ResourceVersion (fst s) then answered bump (k (Inl ''Conflict'')) s
     else answered bump (k (Inr ())) ((fst s)\<lparr>so_Status := so_Status u,
            so_ResourceVersion := bump (so_ResourceVersion (fst s))\<rparr>, snd s))"
| "answered bump (Submit j k) = (\<lambda>s. answered bump (k (Inr ())) (fst s, snd s @ [j]))"

fun ticks_at :: "('loc, 'expr) cron_lib \<Rightarrow> (string \<Rightarrow> string) \<Rightarrow> gotime list \<Rightarrow> source_object \<times> job list \<Rightarrow> source_object \<times> job list" where
  "ticks_at lib bump [] s = s"
| "ticks_at lib bump (t # ts) s = ticks_at lib bump ts (answered bump (process lib (fst s) t) s)"

text \<open>
  The abstract clock, with the next planned instant if there is one: a tick without a plan makes one, a
  tick at or after the planned instant fires and plans again, and where no next instant exists the old
  plan stays.
\<close>

fun clock_fires :: "(gotime \<Rightarrow> gotime option) \<Rightarrow> gotime option \<Rightarrow> gotime list \<Rightarrow> gotime list" where
  "clock_fires nxt p [] = []"
| "clock_fires nxt None (t # ts) = clock_fires nxt (nxt t) ts"
| "clock_fires nxt (Some p) (t # ts) =
     (if p \<le> t then t # clock_fires nxt (case nxt t of None \<Rightarrow> Some p | Some q \<Rightarrow> Some q) ts
      else clock_fires nxt (Some p) ts)"

text \<open>An instant of the cron library, which says none with the zero instant.\<close>

definition instant :: "gotime \<Rightarrow> gotime option" where
  "instant t = (if t = 0 then None else Some t)"

definition switched_on :: "source_object \<Rightarrow> bool" where
  "switched_on u \<longleftrightarrow> so_Cluster u \<noteq> [] \<and> \<not> sp_Suspend (so_Spec u) \<and> ss_DisabledReason (so_Status u) = []"

definition on_clock :: "('loc, 'expr) cron_lib \<Rightarrow> sched_spec \<Rightarrow> (gotime \<Rightarrow> gotime) \<Rightarrow> bool" where
  "on_clock lib spec nxt \<longleftrightarrow> recurring spec \<and> \<not> blank (fire_task spec) \<and>
     (\<exists>loc expr. schedule_location lib spec = Inr loc \<and> cl_ParseStandard lib (sp_Schedule spec) = Inr expr \<and>
        (\<forall>t. cl_Next lib expr loc t = nxt t))"

lemma due_on_clock:
  assumes "on_clock lib (so_Spec u) nxt"
  shows "scheduleDue lib (so_Spec u) st now = (case ss_NextRun st of
     None \<Rightarrow> Inr (False, nxt now) | Some p \<Rightarrow> if p \<le> now then Inr (True, nxt now) else Inr (False, 0))"
  using assms by (auto simp: on_clock_def scheduleDue_def recurring_def Let_def split: option.splits)

text \<open>An object that differs from another one only in its status and version is fired alike.\<close>

definition alike :: "source_object \<Rightarrow> source_object \<Rightarrow> bool" where
  "alike u v \<longleftrightarrow> so_Name u = so_Name v \<and> so_Cluster u = so_Cluster v \<and> so_Generation u = so_Generation v \<and> so_Spec u = so_Spec v"

lemma alike_fire: "alike u v \<Longrightarrow> fire_job u now = fire_job v now"
  by (simp add: alike_def fire_job_def)

lemma about_self [simp]: "about [v] (so_Cluster v) ''schedules'' (so_Name v)"
  by (simp add: about_def)

lemma answered_update [simp]:
  "answered bump (updateStatus u fs k) (u, js) =
     answered bump (k (Inr ())) ((merge_fields fs u)\<lparr>so_ResourceVersion := bump (so_ResourceVersion u)\<rparr>, js)"
  by (simp add: updateStatus_def merge_fields_def about_def)

lemma tick_wait:
  assumes "switched_on u" "on_clock lib (so_Spec u) nxt" "\<not> rearm u" "ss_NextRun (so_Status u) = Some p" "now < p"
  shows "answered bump (process lib u now) (u, js) = (u, js)"
  using assms due_on_clock [OF assms(2)] by (simp add: process_def switched_on_def due_status_def arm_fields_def)

lemma tick_fire:
  assumes "switched_on u" "on_clock lib (so_Spec u) nxt" "\<not> rearm u" "ss_NextRun (so_Status u) = Some p" "p \<le> now"
  shows "answered bump (process lib u now) (u, js) =
    ((merge_fields (claim_fields u now (nxt now)) u)\<lparr>so_ResourceVersion := bump (so_ResourceVersion u)\<rparr>, js @ [fire_job u now])"
  using assms due_on_clock [OF assms(2)]
  by (simp add: process_def switched_on_def due_status_def launch_def on_clock_def)

lemma tick_arm:
  assumes "switched_on u" "on_clock lib (so_Spec u) nxt" "rearm u"
  shows "answered bump (process lib u now) (u, js) =
    ((merge_fields (arm_fields u (nxt now)) u)\<lparr>so_ResourceVersion := bump (so_ResourceVersion u)\<rparr>, js)"
  using assms due_on_clock [OF assms(2)]
  by (simp add: process_def switched_on_def due_status_def arm_fields_def)

lemma tick_plan:
  assumes "switched_on u" "on_clock lib (so_Spec u) nxt" "\<not> rearm u" "ss_NextRun (so_Status u) = None"
  shows "answered bump (process lib u now) (u, js) = (if nxt now = 0 then (u, js) else
    ((merge_fields [NextRun (nxt now)] u)\<lparr>so_ResourceVersion := bump (so_ResourceVersion u)\<rparr>, js))"
  using assms due_on_clock [OF assms(2)]
  by (simp add: process_def switched_on_def due_status_def arm_fields_def)

lemma on_clock_whole:
  assumes "on_clock lib spec nxt" "cron_contract lib" "nxt t \<noteq> 0"
  shows "rfc3339 (nxt t) = nxt t"
  using assms by (metis cron_contract_def on_clock_def rfc3339_whole)

lemma ticks_observed:
  assumes "switched_on u" "on_clock lib (so_Spec u) nxt" "\<not> rearm u" "ss_NextRun (so_Status u) = p" "alike u v"
    and lib: "cron_contract lib"
  shows "snd (ticks_at lib bump ts (u, js)) = js @ map (fire_job v) (clock_fires (\<lambda>t. instant (nxt t)) p ts)"
  using assms(1-5)
proof (induction ts arbitrary: u p js)
  case (Cons t ts)
  note whole = on_clock_whole [OF Cons.prems(2) lib, of t]
  show ?case
  proof (cases p)
    case None
    show ?thesis
    proof (cases "nxt t = 0")
      case True
      then show ?thesis using tick_plan [OF Cons.prems(1-3)] Cons None by (simp add: instant_def)
    next
      case False
      let ?u = "(merge_fields [NextRun (nxt t)] u)\<lparr>so_ResourceVersion := bump (so_ResourceVersion u)\<rparr>"
      have "snd (ticks_at lib bump ts (?u, js)) = js @ map (fire_job v) (clock_fires (\<lambda>t. instant (nxt t)) (Some (nxt t)) ts)"
        by (rule Cons.IH) (use Cons.prems whole False in \<open>simp_all add: switched_on_def rearm_def alike_def merge_fields_def\<close>)
      then show ?thesis using tick_plan [OF Cons.prems(1-3)] Cons.prems(4) None False by (simp add: instant_def)
    qed
  next
    case (Some q)
    then have next_run: "ss_NextRun (so_Status u) = Some q" using Cons.prems(4) by simp
    show ?thesis
    proof (cases "q \<le> t")
      case True
      let ?u = "(merge_fields (claim_fields u t (nxt t)) u)\<lparr>so_ResourceVersion := bump (so_ResourceVersion u)\<rparr>"
      let ?p = "case instant (nxt t) of None \<Rightarrow> Some q | Some r \<Rightarrow> Some r"
      have st: "ss_NextRun (so_Status ?u) = ?p" "ss_ObservedGeneration (so_Status ?u) = ss_ObservedGeneration (so_Status u)"
        "ss_DisabledReason (so_Status ?u) = ss_DisabledReason (so_Status u)"
        "so_Spec ?u = so_Spec u" "alike ?u v" "so_Generation ?u = so_Generation u" "so_Cluster ?u = so_Cluster u"
        using Cons.prems(3,5) whole next_run by (simp_all add: merge_fields_def claim_fields_def alike_def instant_def)
      have "snd (ticks_at lib bump ts (?u, js @ [fire_job u t])) =
          (js @ [fire_job u t]) @ map (fire_job v) (clock_fires (\<lambda>t. instant (nxt t)) ?p ts)"
        by (rule Cons.IH) (use Cons.prems st in \<open>simp_all add: switched_on_def rearm_def\<close>)
      then show ?thesis using tick_fire [OF Cons.prems(1-3) next_run True] True Some alike_fire [OF Cons.prems(5)] by simp
    next
      case False
      then show ?thesis using tick_wait [OF Cons.prems(1-3) next_run] Cons Some by simp
    qed
  qed
qed simp

text \<open>Property C15. 
  A cron or heartbeat schedule keeps its clock: from its creation, and however its
  ticks are spaced, one undisturbed replica submits exactly the jobs of the abstract clock, each for
  the task, the agent and the channel of the spec: a tick without a plan makes one if the expression has
  a next instant, every tick at or after the planned instant fires once and plans the next instant of the
  expression, if it has one, and other ticks do nothing. In particular a tick fires although the run of the
  one before may still be active: the scheduler does not look at it.
\<close>

theorem ticks_implement_clock:
  assumes "so_Status u = no_status" "so_Generation u \<noteq> 0" "switched_on u" "on_clock lib (so_Spec u) nxt"
    "cron_contract lib"
  shows "snd (ticks_at lib bump ts (u, [])) = map (fire_job u) (clock_fires (\<lambda>t. instant (nxt t)) None ts)"
proof (cases ts)
  case (Cons t ts')
  have r: "rearm u" using assms(1,2) by (simp add: rearm_def no_status_def)
  let ?u = "(merge_fields (arm_fields u (nxt t)) u)\<lparr>so_ResourceVersion := bump (so_ResourceVersion u)\<rparr>"
  have "switched_on ?u" "on_clock lib (so_Spec ?u) nxt" "\<not> rearm ?u" "ss_NextRun (so_Status ?u) = instant (nxt t)" "alike ?u u"
    using assms(1,3,4) r on_clock_whole [OF assms(4,5), of t]
    by (simp_all add: switched_on_def rearm_def merge_fields_def arm_fields_def due_status_def alike_def instant_def no_status_def)
  from ticks_observed [OF this assms(5)] show ?thesis using Cons tick_arm [OF assms(3,4) r] by simp
qed simp


subsection \<open>An expression without a next instant\<close>

lemma clock_without_next: "clock_fires (\<lambda>_. None) (Some p) ts = filter (\<lambda>t. p \<le> t) ts"
  by (induction ts) simp_all

text \<open>Property C18. 
  A schedule that is edited to an expression that matches no instant, such as the 30th of
  February, fires on every tick once the fire time of the old expression is past: the first tick after the
  edit records the new generation but leaves that time in the status, and from the moment it is past every
  tick claims a fire and plans none, so that the old time stays.
\<close>

theorem unmatched_cron_fires_every_tick:
  assumes "switched_on u" "on_clock lib (so_Spec u) (\<lambda>_. 0)" "cron_contract lib" "rearm u" "ss_NextRun (so_Status u) = Some p"
  shows "snd (ticks_at lib bump (t0 # ts) (u, [])) = map (fire_job u) (filter (\<lambda>t. p \<le> t) ts)"
proof -
  let ?u = "u\<lparr>so_Status := (so_Status u)\<lparr>ss_ObservedGeneration := so_Generation u\<rparr>, so_ResourceVersion := bump (so_ResourceVersion u)\<rparr>"
  have "answered bump (process lib u t0) (u, []) = (?u, [])"
    using tick_arm [OF assms(1,2,4)] assms(4) by (simp add: merge_fields_def arm_fields_def)
  moreover have "switched_on ?u" "on_clock lib (so_Spec ?u) (\<lambda>_. 0)" "\<not> rearm ?u" "ss_NextRun (so_Status ?u) = Some p" "alike ?u u"
    using assms by (simp_all add: switched_on_def rearm_def alike_def)
  ultimately show ?thesis using ticks_observed [of ?u lib "\<lambda>_. 0" "Some p" u bump ts "[]"] assms(3) clock_without_next
    by (simp add: instant_def)
qed

subsection \<open>Failures\<close>

text \<open>The outcomes of jobs, recorded one after the other: the run ID and the error of each, if it failed.\<close>

fun outcomes :: "(string \<Rightarrow> string) \<Rightarrow> job \<Rightarrow> (string \<times> string option \<times> gotime) list \<Rightarrow> source_object \<Rightarrow> source_object" where
  "outcomes bump j [] u = u"
| "outcomes bump j ((runID, runErr, now) # es) u =
     outcomes bump j es (fst (answered bump (recordOutcome j runID runErr now) (u, [])))"

text \<open>The length of the row of failures at the end.\<close>

definition failing_row :: "(string \<times> string option \<times> gotime) list \<Rightarrow> nat" where
  "failing_row es = length (takeWhile (\<lambda>(_, runErr, _). runErr \<noteq> None) (rev es))"

lemma failing_row_snoc [simp]:
  "failing_row (es @ [(runID, Some err, now)]) = Suc (failing_row es)"
  "failing_row (es @ [(runID, None, now)]) = 0" "failing_row [] = 0"
  by (simp_all add: failing_row_def)

lemma failing_row_le: "failing_row es \<le> length es"
  unfolding failing_row_def by (metis length_rev length_takeWhile_le)

lemma outcomes_append: "outcomes bump j (es @ es') u = outcomes bump j es' (outcomes bump j es u)"
  by (induction bump j es u rule: outcomes.induct) simp_all

definition aims_at :: "job \<Rightarrow> source_object \<Rightarrow> bool" where
  "aims_at j u \<longleftrightarrow> job_Kind j \<noteq> ''trigger'' \<and> job_ClusterID j = so_Cluster u \<and> job_SourceName j = so_Name u"

lemma outcome_recorded:
  assumes "aims_at j u"
  shows "fst (answered bump (recordOutcome j runID runErr now) (u, [])) =
    u\<lparr>so_Status := outcome_status (job_Kind j) runID runErr now (so_Status u), so_ResourceVersion := bump (so_ResourceVersion u)\<rparr>"
  using assms by (simp add: recordOutcome_def aims_at_def source_resource_def about_def)

lemma outcome_failures:
  "ss_ConsecutiveFailures (outcome_status kind runID (Some err) now st) = i64 (ss_ConsecutiveFailures st + 1)"
  "ss_ConsecutiveFailures (outcome_status kind runID None now st) = 0"
  "ss_DisabledReason (outcome_status kind runID None now st) = ss_DisabledReason st"
  "ss_DisabledReason (outcome_status kind runID (Some err) now st) \<noteq> [] \<longleftrightarrow>
     ss_DisabledReason st \<noteq> [] \<or> maxConsecutiveFailures \<le> i64 (ss_ConsecutiveFailures st + 1)"
  by (simp_all add: outcome_status_def Let_def)

text \<open>Property C34. 
  Failures are counted and disable a schedule: from an empty status, after any row of
  outcomes the counter is the number of failures since the last success, and the schedule is disabled
  if and only if five failures came in a row at some point. A later success does not enable it again.
  The error plays no part: one that is documented to disable at once, such as revoked credentials or a deleted
  agent, counts as one failure like any other. The job need not be the schedule's: the outcome of a chat message whose connection has the
  schedule's name counts as well.
\<close>

theorem failures_disable:
  assumes "aims_at j u" "ss_ConsecutiveFailures (so_Status u) = 0" "ss_DisabledReason (so_Status u) = []" "int (length es) \<le> max_i64"
  shows "ss_ConsecutiveFailures (so_Status (outcomes bump j es u)) = int (failing_row es) \<and>
    (ss_DisabledReason (so_Status (outcomes bump j es u)) \<noteq> [] \<longleftrightarrow> (\<exists>n \<le> length es. 5 \<le> failing_row (take n es)))"
proof -
  have "aims_at j (outcomes bump j es u) \<and> ss_ConsecutiveFailures (so_Status (outcomes bump j es u)) = int (failing_row es) \<and>
    (ss_DisabledReason (so_Status (outcomes bump j es u)) \<noteq> [] \<longleftrightarrow> (\<exists>n \<le> length es. 5 \<le> failing_row (take n es)))"
    using assms(4)
  proof (induction es rule: rev_induct)
    case Nil
    then show ?case using assms by simp
  next
    case (snoc e es)
    obtain runID runErr now where e: "e = (runID, runErr, now)" by (metis prod_cases3)
    let ?u = "outcomes bump j es u"
    have ih: "aims_at j ?u" "ss_ConsecutiveFailures (so_Status ?u) = int (failing_row es)"
      "ss_DisabledReason (so_Status ?u) \<noteq> [] \<longleftrightarrow> (\<exists>n \<le> length es. 5 \<le> failing_row (take n es))" using snoc by simp_all
    have st: "outcomes bump j (es @ [e]) u = ?u\<lparr>so_Status := outcome_status (job_Kind j) runID runErr now (so_Status ?u),
        so_ResourceVersion := bump (so_ResourceVersion ?u)\<rparr>"
      using outcome_recorded [OF ih(1)] by (simp add: outcomes_append e)
    have row: "(\<exists>n \<le> length (es @ [e]). 5 \<le> failing_row (take n (es @ [e]))) \<longleftrightarrow>
        (\<exists>n \<le> length es. 5 \<le> failing_row (take n es)) \<or> 5 \<le> failing_row (es @ [e])"
      by (auto simp: le_Suc_eq)
    have count: "i64 (int (failing_row es) + 1) = int (failing_row es) + 1"
      by (rule i64_Suc) (use failing_row_le [of es] snoc.prems in simp_all)
    have "aims_at j (outcomes bump j (es @ [e]) u)" using ih(1) unfolding st by (simp add: aims_at_def)
    moreover have "ss_ConsecutiveFailures (so_Status (outcomes bump j (es @ [e]) u)) = int (failing_row (es @ [e]))"
      unfolding st by (cases runErr) (simp_all add: e ih(2) count outcome_failures)
    moreover have "ss_DisabledReason (so_Status (outcomes bump j (es @ [e]) u)) \<noteq> [] \<longleftrightarrow>
        (\<exists>n \<le> length es. 5 \<le> failing_row (take n es)) \<or> 5 \<le> failing_row (es @ [e])"
    proof (cases runErr)
      case None
      then show ?thesis using ih(3) unfolding st by (simp add: e outcome_failures)
    next
      case (Some err)
      then show ?thesis using ih(2,3) unfolding st by (auto simp: e outcome_failures count maxConsecutiveFailures_def)
    qed
    ultimately show ?case unfolding row by blast
  qed
  then show ?thesis by blast
qed


subsection \<open>All replicas\<close>

lemma distinct_at:
  "distinct (map f (filter P xs)) \<Longrightarrow> i < k \<Longrightarrow> k < length xs \<Longrightarrow> P (xs ! i) \<Longrightarrow> P (xs ! k) \<Longrightarrow> f (xs ! i) \<noteq> f (xs ! k)"
proof (induction xs arbitrary: i k)
  case (Cons x xs)
  then obtain k' where k: "k = Suc k'" by (cases k) auto
  show ?case
  proof (cases i)
    case 0
    have "f (xs ! k') \<in> f ` set (filter P xs)" using Cons.prems(3,5) k by simp
    then show ?thesis using Cons.prems(1,4) k 0 by auto
  next
    case (Suc i')
    have "distinct (map f (filter P xs))" using Cons.prems(1) by (cases "P x") auto
    from Cons.IH [OF this, of i' k'] show ?thesis using Cons.prems(2-5) k Suc by simp
  qed
qed simp

lemma two_jobs:
  assumes "kube_contract kube" "cron_contract lib" "sched_reach lib kube \<sigma>"
    and at: "i < length (sy_Jobs \<sigma>)" "k < length (sy_Jobs \<sigma>)" "i \<noteq> k"
    and e: "sy_Jobs \<sigma> ! i = (u1, n1, j1)" "sy_Jobs \<sigma> ! k = (u2, n2, j2)"
    and mv: "moves lib u1 n1" "moves lib u2 n2"
  shows "fires lib u1 n1" "fires lib u2 n2" "settled_after lib u1 n1 u2 \<or> settled_after lib u2 n2 u1"
proof -
  have inv: "sched_inv lib \<sigma>" by (rule sched_reach_inv [OF assms(3,1,2)])
  have m: "(u1, n1, j1) \<in> set (sy_Jobs \<sigma>)" "(u2, n2, j2) \<in> set (sy_Jobs \<sigma>)" using at e by (metis nth_mem)+
  note job1 = inv_job [OF inv m(1)] and job2 = inv_job [OF inv m(2)]
  show "fires lib u1 n1" "fires lib u2 n2" using job1(1) job2(1) .
  have "distinct (map fst (filter (\<lambda>(u, now, j). moves lib u now) (sy_Jobs \<sigma>)))"
    using inv by (simp add: sched_inv_def exclusive_def moving_def)
  from distinct_at [OF this, of i k] distinct_at [OF this, of k i] have "u1 \<noteq> u2"
    using at e mv by (cases "i < k") auto
  then show "settled_after lib u1 n1 u2 \<or> settled_after lib u2 n2 u1"
    using inv by (intro won_pair [OF _ job1(2) job2(2)]) (simp_all add: sched_inv_def)
qed

lemma planned_later:
  assumes "cron_contract lib" "fires lib u now" "recurring (so_Spec u)" "planned_next lib u now \<noteq> 0"
  shows "now < planned_next lib u now"
proof -
  have due: "scheduleDue lib (so_Spec u) (due_status u) now = Inr (True, planned_next lib u now)" using assms(2) by (simp add: fires_def)
  show ?thesis using due_recurring [OF due assms(3)] assms(1,4) unfolding cron_contract_def by metis
qed

text \<open>Property C5. 
  A planned instant is fired once, whatever replicas there are: of any two jobs that were
  submitted for a cron or heartbeat schedule under one generation of its spec, and whose claims planned a next
  instant, one was decided at or after the instant that the other one had planned, and so after the other one.
  This holds for listings of any age, for every interleaving of the calls, for clocks that differ between
  replicas, for crashes, and when an accepted write is reported as an error. A claim plans no instant when the
  expression matches none any more; for such a schedule it does not hold (see the section on an expression without
  a next instant above).
\<close>

theorem fires_are_separated:
  assumes "kube_contract kube" "cron_contract lib" "sched_reach lib kube \<sigma>"
    "i < length (sy_Jobs \<sigma>)" "k < length (sy_Jobs \<sigma>)" "i \<noteq> k"
    "sy_Jobs \<sigma> ! i = (u1, n1, j1)" "sy_Jobs \<sigma> ! k = (u2, n2, j2)"
    "recurring (so_Spec u1)" "recurring (so_Spec u2)" "so_Generation u1 = so_Generation u2"
    "planned_next lib u1 n1 \<noteq> 0" "planned_next lib u2 n2 \<noteq> 0"
  shows "n1 < planned_next lib u1 n1 \<and> n2 < planned_next lib u2 n2 \<and>
    (planned_next lib u1 n1 \<le> n2 \<or> planned_next lib u2 n2 \<le> n1)"
proof -
  have mv: "moves lib u1 n1" "moves lib u2 n2" using assms(12,13) by (simp_all add: moves_def)
  note jobs = two_jobs [OF assms(1-8) mv]
  have "n1 < planned_next lib u1 n1" "n2 < planned_next lib u2 n2"
    using planned_later [OF assms(2)] jobs(1,2) assms(9,10,12,13) by blast+
  moreover have "planned_next lib u1 n1 \<le> n2 \<or> planned_next lib u2 n2 \<le> n1"
    using jobs(3) fires_after [OF _ jobs(2) assms(9,10,11,12)] fires_after [OF _ jobs(1) assms(10,9) assms(11) [symmetric] assms(13)]
    by blast
  ultimately show ?thesis by blast
qed

text \<open>Property C24. 
  A wakeup fires at most once in the life of the schedule, over all replicas and however
  its fire time is edited: of two jobs of a schedule, at most one was submitted for a wakeup.
\<close>

theorem wakeup_fires_once:
  assumes "kube_contract kube" "cron_contract lib" "sched_reach lib kube \<sigma>"
    "i < length (sy_Jobs \<sigma>)" "k < length (sy_Jobs \<sigma>)" "i \<noteq> k"
    "sy_Jobs \<sigma> ! i = (u1, n1, j1)" "sy_Jobs \<sigma> ! k = (u2, n2, j2)" "sp_Type (so_Spec u1) = ''wakeup''"
  shows "sp_Type (so_Spec u2) \<noteq> ''wakeup''"
proof
  assume "sp_Type (so_Spec u2) = ''wakeup''"
  then have w: "\<not> recurring (so_Spec u1)" "\<not> recurring (so_Spec u2)" using assms(9) by (simp_all add: recurring_def)
  then have mv: "moves lib u1 n1" "moves lib u2 n2" by (simp_all add: moves_def)
  note jobs = two_jobs [OF assms(1-8) mv]
  have "ss_LastRun (so_Status u1) = None" "ss_LastRun (so_Status u2) = None"
    using due_wakeup(2) [OF _ w(1)] due_wakeup(2) [OF _ w(2)] jobs(1,2) unfolding fires_def by blast+
  then show False using jobs(3) by (auto simp: settled_after_def)
qed

text \<open>Property C16. 
  A job is submitted only for a state that was current: the claim of the fire is the version that
  follows the one it was decided from, which was neither suspended nor disabled, so that no edit, suspension
  or disabling came between them, and the job is the one that version describes. The only other case is an
  expression that matches no instant any more: its claim may have found the second of its fire already
  recorded, so that it changed nothing, and then several jobs are submitted for one version.
\<close>

theorem fires_act_on_current_state:
  assumes "kube_contract kube" "cron_contract lib" "sched_reach lib kube \<sigma>" "(u, now, j) \<in> set (sy_Jobs \<sigma>)"
  shows "((\<exists>newer claim before. sy_Past \<sigma> = newer @ claim # u # before \<and>
        so_Status claim = so_Status (merge_fields (claim_fields u now (planned_next lib u now)) u)) \<or>
      (u \<in> set (sy_Past \<sigma>) \<and> recurring (so_Spec u) \<and> planned_next lib u now = 0 \<and> ss_LastRun (so_Status u) = Some (rfc3339 now))) \<and>
    \<not> sp_Suspend (so_Spec u) \<and> ss_DisabledReason (so_Status u) = [] \<and> j = fire_job u now \<and> \<not> blank (job_Task j)"
proof -
  note job = inv_job [OF sched_reach_inv [OF assms(3,1,2)] assms(4)]
  obtain newer before where past: "sy_Past \<sigma> = newer @ u # before" and c: "claimed lib u now newer"
    using job(2) by (auto simp: won_def)
  have "\<not> blank (job_Task j)" using job(3,4) by (simp add: fire_job_def)
  moreover have "(\<exists>newer claim before. sy_Past \<sigma> = newer @ claim # u # before \<and> so_Status claim = claim_status lib u now) \<or>
      (u \<in> set (sy_Past \<sigma>) \<and> recurring (so_Spec u) \<and> planned_next lib u now = 0 \<and> ss_LastRun (so_Status u) = Some (rfc3339 now))"
  proof (cases "newer \<noteq> [] \<and> so_Status (last newer) = claim_status lib u now")
    case True
    then have "sy_Past \<sigma> = butlast newer @ last newer # u # before"
      using past append_butlast_last_id [of newer] by (metis append.assoc append_Cons append_Nil)
    then show ?thesis using True by blast
  next
    case False
    then have "\<not> moves lib u now" "so_Status u = claim_status lib u now" using c by (auto simp: claimed_def)
    then show ?thesis using past claim_LastRun [of lib u now] by (simp add: moves_def)
  qed
  ultimately show ?thesis using job(1,3) unfolding fires_def claim_status_def by blast
qed


subsection \<open>A schedule without a task\<close>

lemma due_error: "scheduleDue lib spec st now = Inl e \<Longrightarrow> e \<noteq> no_task"
  by (auto simp: scheduleDue_def schedule_location_def no_task_def Let_def split: sum.splits option.splits if_splits)

lemma outcome_reason:
  "ss_DisabledReason st \<noteq> no_task \<Longrightarrow> ss_DisabledReason (outcome_status kind runID runErr now st) \<noteq> no_task"
  by (cases runErr) (simp_all add: outcome_status_def no_task_def Let_def)

lemma reason_of_fields:
  "ss_DisabledReason (so_Status (merge_fields (arm_fields u n) u)) = ss_DisabledReason (so_Status u)"
  "ss_DisabledReason (so_Status (merge_fields (claim_fields u now n) u)) = ss_DisabledReason (so_Status u)"
  "ss_DisabledReason (so_Status (merge_fields [DisabledReason e, ObservedGeneration g] u)) = e"
  by (simp_all add: merge_fields_def arm_fields_def claim_fields_def)

text \<open>Every fire of every version plans a next instant, if it is one of a recurring schedule.\<close>

definition recurs :: "('loc, 'expr) cron_lib \<Rightarrow> source_object list \<Rightarrow> bool" where
  "recurs lib past \<longleftrightarrow> (\<forall>u \<in> set past. \<forall>now. fires lib u now \<longrightarrow> moves lib u now)"

lemma recurs_mono: "recurs lib past' \<Longrightarrow> set past \<subseteq> set past' \<Longrightarrow> recurs lib past"
  by (auto simp: recurs_def)

lemma write_reason:
  assumes inv: "sched_inv lib \<sigma>" and rec: "recurs lib (sy_Past \<sigma>)" and run: "running (sy_Threads \<sigma> i) = Some (UpdateStatus cluster resource w k)"
    and ab: "about (sy_Past \<sigma>) cluster resource (so_Name w)" and acc: "accepted w (sy_Past \<sigma>) past'"
    and reasons: "\<forall>u \<in> set (sy_Past \<sigma>). ss_DisabledReason (so_Status u) \<noteq> no_task"
  shows "ss_DisabledReason (so_Status w) \<noteq> no_task"
proof -
  have h: "history (sy_Past \<sigma>)" and ok: "thread_ok lib (sy_Past \<sigma>) (sy_Threads \<sigma> i)" using inv by (simp_all add: sched_inv_def)
  show ?thesis
  proof (cases "sy_Threads \<sigma> i")
    case Idle
    then show ?thesis using run by simp
  next
    case (Recording t)
    then have "outcome_write (sy_Past \<sigma>) (UpdateStatus cluster resource w k)" using ok run by (auto simp: recordOutcome_def)
    then obtain u kind runID runErr now where u: "about (sy_Past \<sigma>) cluster resource (so_Name u) \<longrightarrow> u \<in> set (sy_Past \<sigma>)"
      "w = u\<lparr>so_Status := outcome_status kind runID runErr now (so_Status u)\<rparr>"
      unfolding outcome_write_def by blast
    then have "u \<in> set (sy_Past \<sigma>)" using ab by simp
    then show ?thesis using reasons outcome_reason unfolding u(2) by simp
  next
    case (Ticking u now t)
    have t: "t = UpdateStatus cluster resource w k" using run Ticking by simp
    consider (first) "t = process lib u now" "u \<in> set (sy_Past \<sigma>)"
      | (second) "won lib (sy_Past \<sigma>) u now" "t = launch u now (Inr ())" "fires lib u now" using ok Ticking t by auto
    then show ?thesis
    proof cases
      case first
      have r: "ss_DisabledReason (so_Status u) \<noteq> no_task" using reasons first(2) by blast
      show ?thesis
        using process_cases [of lib u now]
      proof cases
        case (arms fs)
        then have "w = merge_fields fs u" using first(1) t by (simp add: updateStatus_def)
        then show ?thesis using arms(2) r due_error reason_of_fields by metis
      qed (use first(1) t r reason_of_fields in \<open>simp_all add: updateStatus_def\<close>)
    next
      case second
      then have "w = merge_fields [DisabledReason no_task] u"
        using t by (auto simp: launch_def updateStatus_def split: if_splits)
      then have "so_ResourceVersion w = so_ResourceVersion u" by (simp add: merge_fields_def)
      moreover have "moves lib u now" using rec won_mem [OF second(1)] second(3) unfolding recurs_def by blast
      ultimately show ?thesis using no_write_of_old [OF h won_old [OF second(1)]] acc by blast
    qed
  qed
qed

text \<open>
  A schedule without a task is never disabled for it: in no reachable state does the
  status say so. After the claim of its fire has been accepted the object has a new version, and the
  write that is to disable it carries the old one, so that the server refuses it; the schedule is
  claimed again at its next instant.
\<close>

theorem no_task_never_recorded:
  assumes "kube_contract kube" "sched_reach lib kube \<sigma>" "recurs lib (sy_Past \<sigma>)" "cron_contract lib"
  shows "\<forall>u \<in> set (sy_Past \<sigma>). ss_DisabledReason (so_Status u) \<noteq> no_task"
  using assms(2,3)
proof induction
  case (created u)
  then show ?case by (simp add: no_status_def no_task_def)
next
  case (step \<sigma> \<sigma>')
  have rec: "recurs lib (sy_Past \<sigma>)" by (rule recurs_mono [OF step.prems sched_step_past [OF step(2) assms(1)]])
  have inv: "sched_inv lib \<sigma>" by (rule sched_reach_inv [OF step(1) assms(1,4)])
  note ih = step.IH [OF rec]
  show ?case using step(2)
  proof cases
    case (writes i cluster resource w k r past')
    have "\<forall>u \<in> set past'. ss_DisabledReason (so_Status u) \<noteq> no_task"
    proof (cases "about (sy_Past \<sigma>) cluster resource (so_Name w)")
      case True
      then have "past' = sy_Past \<sigma> \<or> accepted w (sy_Past \<sigma>) past'"
        using writes(3) assms(1) unfolding kube_contract_def by auto
      then show ?thesis
      proof
        assume acc: "accepted w (sy_Past \<sigma>) past'"
        show ?thesis using acc write_reason [OF inv rec writes(2) True acc ih] ih by (auto simp: accepted_def)
      qed (use ih in simp)
    qed (use writes(3) ih in simp)
    then show ?thesis using writes(1) by (simp add: set_thread_def)
  next
    case (edits past')
    have "edited (sy_Past \<sigma>) past'" using edits(2) assms(1) unfolding kube_contract_def by blast
    moreover have "sy_Past \<sigma> \<noteq> []" using inv by (simp add: sched_inv_def history_def)
    ultimately show ?thesis using edits(1) ih by (auto simp: edited_def)
  qed (use ih in \<open>simp_all add: set_thread_def\<close>)
qed


subsection \<open>A disabled schedule\<close>

lemma write_of_disabled:
  assumes inv: "sched_inv lib \<sigma>" and run: "running (sy_Threads \<sigma> i) = Some (UpdateStatus cluster resource w k)"
    and ab: "about (sy_Past \<sigma>) cluster resource (so_Name w)" and acc: "accepted w (sy_Past \<sigma>) past'"
    and off: "ss_DisabledReason (so_Status (hd (sy_Past \<sigma>))) \<noteq> []"
  shows "ss_DisabledReason (so_Status w) \<noteq> []"
proof -
  have h: "history (sy_Past \<sigma>)" and ok: "thread_ok lib (sy_Past \<sigma>) (sy_Threads \<sigma> i)" using inv by (simp_all add: sched_inv_def)
  have current: "u = hd (sy_Past \<sigma>)" if "u \<in> set (sy_Past \<sigma>)" "so_ResourceVersion w = so_ResourceVersion u" for u
    using history_current [OF h that(1)] acc that(2) by (simp add: accepted_def)
  show ?thesis
  proof (cases "sy_Threads \<sigma> i")
    case Idle
    then show ?thesis using run by simp
  next
    case (Recording t)
    then have "outcome_write (sy_Past \<sigma>) (UpdateStatus cluster resource w k)" using ok run by (auto simp: recordOutcome_def)
    then obtain u kind runID runErr now where u: "about (sy_Past \<sigma>) cluster resource (so_Name u) \<longrightarrow> u \<in> set (sy_Past \<sigma>)"
      "w = u\<lparr>so_Status := outcome_status kind runID runErr now (so_Status u)\<rparr>"
      unfolding outcome_write_def by blast
    then have "u = hd (sy_Past \<sigma>)" using current ab by simp
    then show ?thesis using off unfolding u(2) by (cases runErr) (simp_all add: outcome_status_def Let_def)
  next
    case (Ticking u now t)
    have t: "t = UpdateStatus cluster resource w k" using run Ticking by simp
    consider (first) "t = process lib u now" "u \<in> set (sy_Past \<sigma>)"
      | (second) "won lib (sy_Past \<sigma>) u now" "t = launch u now (Inr ())" using ok Ticking t by auto
    then show ?thesis
    proof cases
      case first
      have "so_ResourceVersion w = so_ResourceVersion u"
        using process_cases [of lib u now] by cases (use first(1) t in \<open>simp_all add: updateStatus_def merge_fields_def\<close>)
      then have "ss_DisabledReason (so_Status u) \<noteq> []" using current [OF first(2)] off by simp
      then show ?thesis using first(1) t by (simp add: process_def split: if_splits)
    next
      case second
      then have "w = merge_fields [DisabledReason no_task] u"
        using t by (auto simp: launch_def updateStatus_def split: if_splits)
      then show ?thesis by (simp add: merge_fields_def no_task_def)
    qed
  qed
qed

lemma sched_step_grows:
  assumes st: "sched_step lib kube \<sigma> \<sigma>'" and c: "kube_contract kube"
  shows "\<exists>xs. sy_Past \<sigma>' = xs @ sy_Past \<sigma> \<and> length xs \<le> 1"
proof -
  have w: "\<exists>xs. past' = xs @ past \<and> length xs \<le> 1" if "past' = past \<or> accepted u past past' \<or> edited past past'" for u past past'
    using that by (auto simp: accepted_def edited_def intro: exI [of _ "[]"] exI [of _ "[x]" for x])
  show ?thesis using st
  proof cases
    case (writes i cluster resource u k r past')
    then have "past' = sy_Past \<sigma> \<or> accepted u (sy_Past \<sigma>) past'" using c unfolding kube_contract_def by (auto split: if_splits)
    then have "\<exists>xs. past' = xs @ sy_Past \<sigma> \<and> length xs \<le> 1" by (intro w [of past' _ u]) blast
    then show ?thesis using writes(1) by (simp add: set_thread_def)
  next
    case (edits past')
    then have "edited (sy_Past \<sigma>) past'" using c unfolding kube_contract_def by blast
    then have "\<exists>xs. past' = xs @ sy_Past \<sigma> \<and> length xs \<le> 1" by (intro w) blast
    then show ?thesis using edits(1) by simp
  qed (simp_all add: set_thread_def)
qed

lemma disabled_step:
  assumes st: "sched_step lib kube \<sigma> \<sigma>'" and inv: "sched_inv lib \<sigma>" and c: "kube_contract kube"
    and off: "ss_DisabledReason (so_Status (hd (sy_Past \<sigma>))) \<noteq> []"
  shows "\<exists>xs. sy_Past \<sigma>' = xs @ sy_Past \<sigma> \<and> (\<forall>v \<in> set xs. ss_DisabledReason (so_Status v) \<noteq> [])"
  using st
proof cases
  case (writes i cluster resource w k r past')
  have "\<exists>xs. past' = xs @ sy_Past \<sigma> \<and> (\<forall>v \<in> set xs. ss_DisabledReason (so_Status v) \<noteq> [])"
  proof (cases "past' = sy_Past \<sigma>")
    case False
    then have ab: "about (sy_Past \<sigma>) cluster resource (so_Name w)" using writes(3) by (auto split: if_splits)
    then have acc: "accepted w (sy_Past \<sigma>) past'" using writes(3) c False unfolding kube_contract_def by auto
    then obtain v where "past' = (hd (sy_Past \<sigma>))\<lparr>so_Status := so_Status w, so_ResourceVersion := v\<rparr> # sy_Past \<sigma>"
      using False by (auto simp: accepted_def)
    moreover have "ss_DisabledReason (so_Status w) \<noteq> []" by (rule write_of_disabled [OF inv writes(2) ab acc off])
    ultimately show ?thesis by (intro exI [of _ "[(hd (sy_Past \<sigma>))\<lparr>so_Status := so_Status w, so_ResourceVersion := v\<rparr>]"]) simp
  qed (intro exI [of _ "[]"], simp)
  then show ?thesis using writes(1) by (simp add: set_thread_def)
next
  case (edits past')
  have "edited (sy_Past \<sigma>) past'" using edits(2) c unfolding kube_contract_def by blast
  then obtain u where "past' = [u] @ sy_Past \<sigma>" "so_Status u = so_Status (hd (sy_Past \<sigma>))" by (auto simp: edited_def)
  then show ?thesis using edits(1) off by (intro exI [of _ "[u]"]) simp
qed (simp_all add: set_thread_def)

text \<open>Property C40. 
  A disabled schedule stays disabled: once a version of it has a disabled reason, be it for failures or
  for a bad expression, every later version has one, whatever is done to it through the provider. In particular an edit that repairs the
  expression does not arm it again, although the scheduler derives the fire time of every other edited
  schedule afresh: a disabled one is passed over before its generation is looked at.
\<close>

theorem disabled_is_final:
  assumes "kube_contract kube" "cron_contract lib" "sched_reach lib kube \<sigma>"
    "sy_Past \<sigma> = newer @ u # before" "ss_DisabledReason (so_Status u) \<noteq> []"
  shows "\<forall>v \<in> set newer. ss_DisabledReason (so_Status v) \<noteq> []"
  using assms(3,4)
proof (induction arbitrary: newer)
  case (created v)
  then show ?case by (cases newer) simp_all
next
  case (step \<sigma> \<sigma>')
  have inv: "sched_inv lib \<sigma>" by (rule sched_reach_inv [OF step(1) assms(1,2)])
  obtain xs where xs: "sy_Past \<sigma>' = xs @ sy_Past \<sigma>" "length xs \<le> 1" using sched_step_grows [OF step(2) assms(1)] by blast
  show ?case
  proof (cases "xs = []")
    case True
    then show ?thesis using step.IH step.prems xs(1) by simp
  next
    case False
    then obtain x where x: "sy_Past \<sigma>' = x # sy_Past \<sigma>" using xs by (cases xs) auto
    show ?thesis
    proof (cases newer)
      case (Cons y newer')
      then have past: "sy_Past \<sigma> = newer' @ u # before" "y = x" using step.prems x by simp_all
      have older: "\<forall>v \<in> set newer'. ss_DisabledReason (so_Status v) \<noteq> []" by (rule step.IH [OF past(1)])
      then have "ss_DisabledReason (so_Status (hd (sy_Past \<sigma>))) \<noteq> []" using past(1) assms(5) by (cases newer') simp_all
      from disabled_step [OF step(2) inv assms(1) this] x have "ss_DisabledReason (so_Status x) \<noteq> []" by (auto simp: Cons_eq_append_conv)
      then show ?thesis using older Cons past(2) by simp
    qed simp
  qed
qed

subsection \<open>An example run\<close>

text \<open>
  A server that does what the contract allows, a cron library whose expressions are all due at every
  full second, and a schedule that is created as a wakeup, fires, is edited to a cron schedule, is armed,
  and fires twice.
\<close>

definition ex_kube :: kube where
  "ex_kube = \<lparr>kb_Write = (\<lambda>u past r past'. r = Inr () \<and> accepted u past past'), kb_Edit = edited\<rparr>"

definition ex_next :: "gotime \<Rightarrow> gotime" where
  "ex_next t = (if t < 0 then second else (t div second + 1) * second)"

definition ex_lib :: "(unit, unit) cron_lib" where
  "ex_lib = \<lparr>cl_UTC = (), cl_LoadLocation = (\<lambda>tz. Inl ''unknown''), cl_ParseStandard = (\<lambda>e. Inr ()),
     cl_Next = (\<lambda>e l t. ex_next t), cl_Quote = (\<lambda>s. s)\<rparr>"

lemma ex_next_ok: "t < ex_next t \<and> second dvd ex_next t \<and> ex_next t \<noteq> 0"
proof (cases "t < 0")
  case False
  have "t mod second < second" "0 \<le> t div second" using False by (simp_all add: second_def pos_imp_zdiv_nonneg_iff)
  moreover have "t = t div second * second + t mod second" by simp
  ultimately have "t < t div second * second + second" by linarith
  then have "t < (t div second + 1) * second" by (simp add: distrib_right)
  moreover have "(t div second + 1) * second \<noteq> 0" using \<open>0 \<le> t div second\<close> by (simp add: second_def)
  ultimately show ?thesis using False by (simp add: ex_next_def)
qed (simp add: ex_next_def second_def)

lemma ex_lib_cron: "cron_contract ex_lib"
  using ex_next_ok by (simp add: cron_contract_def ex_lib_def)

lemma ex_kube_contract: "kube_contract ex_kube"
  by (simp add: kube_contract_def ex_kube_def)

definition ex_spec :: "string \<Rightarrow> sched_spec" where
  "ex_spec ty = \<lparr>sp_AgentRef = ''helper'', sp_Type = ty, sp_Schedule = ''* * * * *'', sp_TimeZone = [],
     sp_RunAt = Some (10 * second), sp_Task = ''Report'', sp_ChannelRef = [], sp_Checklist = [], sp_Suspend = False,
     sp_Retry = None\<rparr>"

definition ex_wakeup :: source_object where
  "ex_wakeup = \<lparr>so_Name = ''daily'', so_Cluster = ''c1'', so_Generation = 1, so_ResourceVersion = ''1'',
     so_Spec = ex_spec ''wakeup'', so_Status = no_status\<rparr>"

definition ex_woken :: source_object where
  "ex_woken = ex_wakeup\<lparr>so_ResourceVersion := ''2'',
     so_Status := no_status\<lparr>ss_LastRun := Some (10 * second), ss_ObservedGeneration := 1\<rparr>\<rparr>"

definition ex_cron :: source_object where
  "ex_cron = ex_woken\<lparr>so_ResourceVersion := ''3'', so_Generation := 2, so_Spec := ex_spec ''cron''\<rparr>"

definition ex_armed :: source_object where
  "ex_armed = ex_cron\<lparr>so_ResourceVersion := ''4'',
     so_Status := (so_Status ex_woken)\<lparr>ss_ObservedGeneration := 2, ss_NextRun := Some (21 * second)\<rparr>\<rparr>"

definition ex_fired :: source_object where
  "ex_fired = ex_armed\<lparr>so_ResourceVersion := ''5'',
     so_Status := (so_Status ex_armed)\<lparr>ss_LastRun := Some (21 * second), ss_NextRun := Some (22 * second)\<rparr>\<rparr>"

definition ex_again :: source_object where
  "ex_again = ex_fired\<lparr>so_ResourceVersion := ''6'',
     so_Status := (so_Status ex_fired)\<lparr>ss_LastRun := Some (22 * second), ss_NextRun := Some (23 * second)\<rparr>\<rparr>"

lemmas ex_objects = ex_wakeup_def ex_woken_def ex_cron_def ex_armed_def ex_fired_def ex_again_def ex_spec_def no_status_def

definition at_rest :: "source_object list \<Rightarrow> (source_object \<times> gotime \<times> job) list \<Rightarrow> sched_system" where
  "at_rest past jobs = \<lparr>sy_Past = past, sy_Threads = (\<lambda>_. Idle), sy_Jobs = jobs\<rparr>"

text \<open>One whole tick of one goroutine, with a claim and a job or with another write.\<close>

lemma run_write:
  assumes r: "sched_reach lib ex_kube (at_rest (u # ps) jobs)" and p: "process lib u now = updateStatus u fs k"
    and v: "v \<notin> so_ResourceVersion ` set (u # ps)"
  shows "sched_reach lib ex_kube (set_thread 0 (Ticking u now (k (Inr ())))
    (at_rest ((merge_fields fs u)\<lparr>so_ResourceVersion := v\<rparr> # u # ps) jobs))"
proof -
  let ?s = "set_thread 0 (Ticking u now (process lib u now)) (at_rest (u # ps) jobs)"
  have 1: "sched_reach lib ex_kube ?s"
    by (rule sched_reach.step [OF r]) (rule sched_step.ticks; simp add: at_rest_def)
  let ?w = "merge_fields fs u" and ?past = "(merge_fields fs u)\<lparr>so_ResourceVersion := v\<rparr> # u # ps"
  have run: "running (sy_Threads ?s 0) = Some (UpdateStatus (so_Cluster u) ''schedules'' ?w k)"
    by (simp add: set_thread_def p updateStatus_def)
  have "accepted ?w (u # ps) ?past"
    unfolding accepted_def using v by (auto simp: merge_fields_def intro!: exI [of _ v])
  then have wr: "if about (sy_Past ?s) (so_Cluster u) ''schedules'' (so_Name ?w) then kb_Write ex_kube ?w (sy_Past ?s) (Inr ()) ?past
      else ?past = sy_Past ?s"
    by (simp add: ex_kube_def at_rest_def set_thread_def about_def merge_fields_def)
  have "sched_reach lib ex_kube (set_thread 0 (go_on (sy_Threads ?s 0) (k (Inr ()))) (?s\<lparr>sy_Past := ?past\<rparr>))"
    by (rule sched_reach.step [OF 1 sched_step.writes [OF run wr]])
  then show ?thesis by (simp add: set_thread_def at_rest_def)
qed

lemma run_rest:
  assumes "sched_reach lib kube (set_thread 0 g (at_rest past jobs))"
  shows "sched_reach lib kube (at_rest past jobs)"
proof -
  have "sched_reach lib kube (set_thread 0 Idle (set_thread 0 g (at_rest past jobs)))"
    by (rule sched_reach.step [OF assms sched_step.ends])
  moreover have "set_thread 0 Idle (set_thread 0 g (at_rest past jobs)) = at_rest past jobs"
    by (simp add: set_thread_def at_rest_def fun_eq_iff)
  ultimately show ?thesis by simp
qed

lemma run_fire:
  assumes r: "sched_reach lib ex_kube (at_rest (u # ps) jobs)"
    and p: "process lib u now = updateStatus u fs (launch u now)" "\<not> blank (fire_task (so_Spec u))"
    and v: "v \<notin> so_ResourceVersion ` set (u # ps)"
  shows "sched_reach lib ex_kube (at_rest ((merge_fields fs u)\<lparr>so_ResourceVersion := v\<rparr> # u # ps) (jobs @ [(u, now, fire_job u now)]))"
proof -
  let ?past = "(merge_fields fs u)\<lparr>so_ResourceVersion := v\<rparr> # u # ps"
  let ?s = "set_thread 0 (Ticking u now (Submit (fire_job u now) Returned)) (at_rest ?past jobs)"
  have 1: "sched_reach lib ex_kube ?s" using run_write [OF r p(1) v] p(2) by (simp add: launch_def)
  have "running (sy_Threads ?s 0) = Some (Submit (fire_job u now) Returned)" by (simp add: set_thread_def)
  from sched_reach.step [OF 1 sched_step.submits [OF this, of _ _ "Inr ()"]]
  have "sched_reach lib ex_kube (set_thread 0 (Ticking u now (Returned (Inr ()))) (at_rest ?past (jobs @ [(u, now, fire_job u now)])))"
    by (simp add: set_thread_def at_rest_def)
  then show ?thesis by (rule run_rest)
qed


lemma ex_not_blank: "\<not> blank ''Report''"
  by code_simp

lemmas ex_eval = process_def scheduleDue_def schedule_location_def due_status_def rearm_def claim_fields_def
  arm_fields_def ex_lib_def ex_next_def ex_objects second_def merge_fields_def rfc3339_def

lemma ex_schedule_runs:
  "sched_reach ex_lib ex_kube (at_rest [ex_again, ex_fired, ex_armed, ex_cron, ex_woken, ex_wakeup]
     [(ex_wakeup, 10 * second, fire_job ex_wakeup (10 * second)), (ex_armed, 21 * second, fire_job ex_armed (21 * second)),
      (ex_fired, 22 * second, fire_job ex_fired (22 * second))])"
proof -
  have task: "fire_task (ex_spec ty) = ''Report''" if "ty = ''cron'' \<or> ty = ''wakeup''" for ty
    using that by (auto simp: fire_task_def ex_spec_def)
  have r1: "sched_reach ex_lib ex_kube (at_rest [ex_wakeup] [])"
    using sched_reach.created [of ex_wakeup ex_lib ex_kube] by (simp add: at_rest_def ex_wakeup_def)
  have p1: "process ex_lib ex_wakeup (10 * second) =
      updateStatus ex_wakeup [LastRun (10 * second), ObservedGeneration 1] (launch ex_wakeup (10 * second))"
    by (simp add: ex_eval trim_space_Nil)
  have "(merge_fields [LastRun (10 * second), ObservedGeneration 1] ex_wakeup)\<lparr>so_ResourceVersion := ''2''\<rparr> = ex_woken"
    by (simp add: ex_eval)
  with run_fire [OF r1 p1, of "''2''"] have r2: "sched_reach ex_lib ex_kube (at_rest [ex_woken, ex_wakeup]
      [(ex_wakeup, 10 * second, fire_job ex_wakeup (10 * second))])"
    by (simp add: ex_wakeup_def task ex_not_blank)
  have "edited [ex_woken, ex_wakeup] [ex_cron, ex_woken, ex_wakeup]" by (simp add: edited_def ex_objects)
  then have "kb_Edit ex_kube (sy_Past (at_rest [ex_woken, ex_wakeup] jobs)) [ex_cron, ex_woken, ex_wakeup]" for jobs
    by (simp add: ex_kube_def at_rest_def)
  from sched_reach.step [OF r2 sched_step.edits [OF this]]
  have r3: "sched_reach ex_lib ex_kube (at_rest [ex_cron, ex_woken, ex_wakeup]
      [(ex_wakeup, 10 * second, fire_job ex_wakeup (10 * second))])" by (simp add: at_rest_def)
  have p3: "process ex_lib ex_cron (20 * second) =
      updateStatus ex_cron [ObservedGeneration 2, NextRun (21 * second)] Returned"
    by (simp add: ex_eval trim_space_Nil)
  have "(merge_fields [ObservedGeneration 2, NextRun (21 * second)] ex_cron)\<lparr>so_ResourceVersion := ''4''\<rparr> = ex_armed"
    by (simp add: ex_eval)
  with run_rest [OF run_write [OF r3 p3, of "''4''"]]
  have r4: "sched_reach ex_lib ex_kube (at_rest [ex_armed, ex_cron, ex_woken, ex_wakeup]
      [(ex_wakeup, 10 * second, fire_job ex_wakeup (10 * second))])"
    by (simp add: ex_objects)
  have p4: "process ex_lib ex_armed (21 * second) =
      updateStatus ex_armed [LastRun (21 * second), NextRun (22 * second)] (launch ex_armed (21 * second))"
    by (simp add: ex_eval trim_space_Nil)
  have "(merge_fields [LastRun (21 * second), NextRun (22 * second)] ex_armed)\<lparr>so_ResourceVersion := ''5''\<rparr> = ex_fired"
    by (simp add: ex_eval)
  with run_fire [OF r4 p4, of "''5''"]
  have r5: "sched_reach ex_lib ex_kube (at_rest [ex_fired, ex_armed, ex_cron, ex_woken, ex_wakeup]
      [(ex_wakeup, 10 * second, fire_job ex_wakeup (10 * second)), (ex_armed, 21 * second, fire_job ex_armed (21 * second))])"
    by (simp add: ex_armed_def ex_cron_def ex_woken_def ex_wakeup_def task ex_not_blank)
  have p5: "process ex_lib ex_fired (22 * second) =
      updateStatus ex_fired [LastRun (22 * second), NextRun (23 * second)] (launch ex_fired (22 * second))"
    by (simp add: ex_eval trim_space_Nil)
  have "(merge_fields [LastRun (22 * second), NextRun (23 * second)] ex_fired)\<lparr>so_ResourceVersion := ''6''\<rparr> = ex_again"
    by (simp add: ex_eval)
  with run_fire [OF r5 p5, of "''6''"] show ?thesis
    by (simp add: ex_fired_def ex_armed_def ex_cron_def ex_woken_def ex_wakeup_def task ex_not_blank)
qed


subsection \<open>The properties at the example\<close>

abbreviation ex_past :: "source_object list" where
  "ex_past \<equiv> [ex_again, ex_fired, ex_armed, ex_cron, ex_woken, ex_wakeup]"

abbreviation ex_jobs :: "(source_object \<times> gotime \<times> job) list" where
  "ex_jobs \<equiv> [(ex_wakeup, 10 * second, fire_job ex_wakeup (10 * second)), (ex_armed, 21 * second, fire_job ex_armed (21 * second)),
     (ex_fired, 22 * second, fire_job ex_fired (22 * second))]"

definition ex_new :: source_object where
  "ex_new = ex_cron\<lparr>so_Status := no_status\<rparr>"

lemma ex_new_ready: "so_Status ex_new = no_status" "so_Generation ex_new \<noteq> 0" "switched_on ex_new" "on_clock ex_lib (so_Spec ex_new) ex_next"
  by (simp_all add: ex_new_def switched_on_def on_clock_def recurring_def fire_task_def ex_not_blank schedule_location_def
      ex_lib_def ex_objects trim_space_Nil)

theorem ticks_implement_clock_witness:
  "snd (ticks_at ex_lib (\<lambda>v. v @ ''x'') [0, second, second, 3 * second] (ex_new, [])) =
     [fire_job ex_new second, fire_job ex_new (3 * second)]"
  using ticks_implement_clock [OF ex_new_ready ex_lib_cron, of "\<lambda>v. v @ ''x''" "[0, second, second, 3 * second]"]
  by (simp add: ex_next_def second_def instant_def del: ticks_at.simps)

definition ex_never :: source_object where
  "ex_never = ex_armed\<lparr>so_Generation := 3\<rparr>"

theorem unmatched_cron_fires_every_tick_witness:
  "snd (ticks_at (ex_lib\<lparr>cl_Next := \<lambda>e l t. 0\<rparr>) (\<lambda>v. v @ ''x'') [5 * second, 20 * second, 50 * second, 80 * second] (ex_never, [])) =
     [fire_job ex_never (50 * second), fire_job ex_never (80 * second)]"
proof -
  have c: "cron_contract (ex_lib\<lparr>cl_Next := \<lambda>e l t. 0\<rparr>)" by (simp add: cron_contract_def)
  have "switched_on ex_never" "on_clock (ex_lib\<lparr>cl_Next := \<lambda>e l t. 0\<rparr>) (so_Spec ex_never) (\<lambda>_. 0)" "rearm ex_never"
    "ss_NextRun (so_Status ex_never) = Some (21 * second)"
    by (simp_all add: ex_never_def switched_on_def rearm_def on_clock_def recurring_def fire_task_def ex_not_blank
        schedule_location_def ex_lib_def ex_objects trim_space_Nil)
  from unmatched_cron_fires_every_tick [OF this(1,2) c this(3,4), of "\<lambda>v. v @ ''x''" "5 * second" "[20 * second, 50 * second, 80 * second]"]
  show ?thesis by (simp add: second_def del: ticks_at.simps)
qed

theorem failures_disable_witness:
  "ss_DisabledReason (so_Status (outcomes (\<lambda>v. v @ ''x'') ((fire_job ex_new 0)\<lparr>job_Kind := ''channel''\<rparr>)
     (replicate 5 ([], Some ''refused'', 0)) ex_new)) \<noteq> []"
proof -
  let ?es = "replicate 5 ([], Some ''refused'', 0)" and ?j = "(fire_job ex_new 0)\<lparr>job_Kind := ''channel''\<rparr>"
  have "aims_at ?j ex_new" by (simp add: aims_at_def fire_job_def)
  moreover have "5 \<le> failing_row (take 5 ?es)" by (simp add: failing_row_def eval_nat_numeral)
  ultimately show ?thesis using failures_disable [of ?j ex_new ?es "\<lambda>v. v @ ''x''"] ex_new_ready(1)
    by (auto simp: no_status_def max_i64_def intro: exI [of _ "5::nat"])
qed

lemma ex_planned:
  "planned_next ex_lib ex_armed (21 * second) = 22 * second" "planned_next ex_lib ex_fired (22 * second) = 23 * second"
  by (simp_all add: planned_next_def ex_eval trim_space_Nil)

theorem fires_are_separated_witness:
  "planned_next ex_lib ex_armed (21 * second) \<le> 22 * second \<or> planned_next ex_lib ex_fired (22 * second) \<le> 21 * second"
proof -
  have r: "recurring (so_Spec ex_armed)" "recurring (so_Spec ex_fired)" "so_Generation ex_armed = so_Generation ex_fired"
    by (simp_all add: recurring_def ex_objects)
  have n: "planned_next ex_lib ex_armed (21 * second) \<noteq> 0" "planned_next ex_lib ex_fired (22 * second) \<noteq> 0"
    using ex_planned by (simp_all add: second_def)
  from fires_are_separated [OF ex_kube_contract ex_lib_cron ex_schedule_runs [unfolded at_rest_def] _ _ _ _ _ r n, of 1 2]
  show ?thesis by simp
qed

theorem wakeup_fires_once_witness: "sp_Type (so_Spec ex_armed) \<noteq> ''wakeup''"
  using wakeup_fires_once [OF ex_kube_contract ex_lib_cron ex_schedule_runs [unfolded at_rest_def],
      of 0 1 ex_wakeup "10 * second" _ ex_armed "21 * second"]
  by (simp add: ex_wakeup_def ex_spec_def)

theorem fires_act_on_current_state_witness:
  "\<exists>newer claim before. ex_past = newer @ claim # ex_armed # before \<and> ss_LastRun (so_Status claim) = Some (rfc3339 (21 * second))"
proof -
  let ?j = "fire_job ex_armed (21 * second)"
  have job: "(ex_armed, 21 * second, ?j) \<in> set (sy_Jobs \<lparr>sy_Past = ex_past, sy_Threads = \<lambda>_. Idle, sy_Jobs = ex_jobs\<rparr>)"
    by simp
  have n: "planned_next ex_lib ex_armed (21 * second) \<noteq> 0" using ex_planned(1) by (simp add: second_def)
  have c: "ss_LastRun (so_Status (merge_fields (claim_fields u now n) u)) = Some (rfc3339 now)" for u now n
    by (simp add: merge_fields_def claim_fields_def)
  from fires_act_on_current_state [OF ex_kube_contract ex_lib_cron ex_schedule_runs [unfolded at_rest_def] job] n
  obtain newer claim before where "ex_past = newer @ claim # ex_armed # before"
    "so_Status claim = so_Status (merge_fields (claim_fields ex_armed (21 * second) (planned_next ex_lib ex_armed (21 * second))) ex_armed)"
    unfolding sched_system.simps by blast
  then show ?thesis using c by metis
qed

theorem no_task_never_recorded_witness: "ss_DisabledReason (so_Status ex_again) \<noteq> no_task"
proof -
  have "moves ex_lib u now" if f: "fires ex_lib u now" for u now
  proof (cases "recurring (so_Spec u)")
    case True
    have "scheduleDue ex_lib (so_Spec u) (due_status u) now = Inr (True, planned_next ex_lib u now)" using f by (simp add: fires_def)
    then obtain e l where "planned_next ex_lib u now = cl_Next ex_lib e l now" by (rule due_recurring [OF _ True])
    then have "planned_next ex_lib u now = ex_next now" by (simp add: ex_lib_def)
    then show ?thesis using ex_next_ok [of now] by (simp add: moves_def)
  qed (simp add: moves_def)
  then have "recurs ex_lib past" for past by (simp add: recurs_def)
  from no_task_never_recorded [OF ex_kube_contract ex_schedule_runs [unfolded at_rest_def] this ex_lib_cron] show ?thesis by simp
qed


text \<open>A schedule whose expression does not parse is disabled, and edited.\<close>

definition ex_bad_lib :: "(unit, unit) cron_lib" where
  "ex_bad_lib = ex_lib\<lparr>cl_ParseStandard := (\<lambda>e. Inl ''bad'')\<rparr>"

definition ex_off :: source_object where
  "ex_off = (merge_fields [DisabledReason ''invalid cron * * * * *: bad'', ObservedGeneration 2] ex_new)\<lparr>so_ResourceVersion := ''4''\<rparr>"

definition ex_repaired :: source_object where
  "ex_repaired = ex_off\<lparr>so_ResourceVersion := ''5'', so_Generation := 3\<rparr>"

lemma ex_repaired_run: "sched_reach ex_bad_lib ex_kube (at_rest [ex_repaired, ex_off, ex_new] [])"
proof -
  have r1: "sched_reach ex_bad_lib ex_kube (at_rest [ex_new] [])"
    using sched_reach.created [of ex_new ex_bad_lib ex_kube] by (simp add: at_rest_def ex_new_def)
  have p: "process ex_bad_lib ex_new 0 =
      updateStatus ex_new [DisabledReason ''invalid cron * * * * *: bad'', ObservedGeneration 2] Returned"
    by (simp add: ex_bad_lib_def ex_new_def ex_eval trim_space_Nil)
  have r2: "sched_reach ex_bad_lib ex_kube (at_rest [ex_off, ex_new] [])"
    using run_rest [OF run_write [OF r1 p, of "''4''"]] by (simp add: ex_off_def ex_new_def ex_objects)
  have "edited [ex_off, ex_new] [ex_repaired, ex_off, ex_new]"
    by (simp add: edited_def ex_repaired_def ex_off_def ex_new_def ex_objects merge_fields_def)
  then have "kb_Edit ex_kube (sy_Past (at_rest [ex_off, ex_new] [])) [ex_repaired, ex_off, ex_new]"
    by (simp add: ex_kube_def at_rest_def)
  from sched_reach.step [OF r2 sched_step.edits [OF this]] show ?thesis by (simp add: at_rest_def)
qed

theorem disabled_is_final_witness: "ss_DisabledReason (so_Status ex_repaired) \<noteq> []"
proof -
  have c: "cron_contract ex_bad_lib" using ex_lib_cron by (simp add: cron_contract_def ex_bad_lib_def)
  moreover have "ss_DisabledReason (so_Status ex_off) \<noteq> []" by (simp add: ex_off_def merge_fields_def)
  ultimately show ?thesis
    using disabled_is_final [OF ex_kube_contract c ex_repaired_run [unfolded at_rest_def], of "[ex_repaired]" ex_off "[ex_new]"] by simp
qed

end
