(* ===== verification/Go_Json_Write.thy ===== *)
theory Go_Json_Write
  imports Go_Encode
begin

section \<open>Writing JSON values and reading them back\<close>

text \<open>
  \<open>json.Marshal\<close> of a decoded value and of the structs the assistant writes to its event log, and
  the theorem that the scanner of \<open>Go_Json\<close> reads such a text back as the same value, with the bytes
  that are not UTF-8 replaced by U+FFFD.
\<close>

subsection \<open>Numbers\<close>

text \<open>\<open>isValidNumber\<close>, the check \<open>json.Marshal\<close> makes of a \<open>json.Number\<close>, as an automaton over the
  number states of the scanner.\<close>

definition num_begin :: "char \<Rightarrow> jstep" where
  "num_begin c = (if c = CHR ''-'' then Neg [c] else if c = CHR ''0'' then Int0 [c]
     else if is_digit c then Int1 [c] else Failed)"

definition num_tail :: "string \<Rightarrow> char \<Rightarrow> jstep" where
  "num_tail t c = (if c = CHR ''.'' then Dot (c # t)
     else if c = CHR ''e'' \<or> c = CHR ''E'' then Exp (c # t) else Failed)"

fun num_step :: "jstep \<Rightarrow> char \<Rightarrow> jstep" where
  "num_step (Neg t) c = (if c = CHR ''0'' then Int0 (c # t) else if is_digit c then Int1 (c # t) else Failed)"
| "num_step (Int0 t) c = num_tail t c"
| "num_step (Int1 t) c = (if is_digit c then Int1 (c # t) else num_tail t c)"
| "num_step (Dot t) c = (if is_digit c then Frac (c # t) else Failed)"
| "num_step (Frac t) c = (if is_digit c then Frac (c # t)
     else if c = CHR ''e'' \<or> c = CHR ''E'' then Exp (c # t) else Failed)"
| "num_step (Exp t) c = (if c = CHR ''+'' \<or> c = CHR ''-'' then ExpSign (c # t)
     else if is_digit c then ExpDigits (c # t) else Failed)"
| "num_step (ExpSign t) c = (if is_digit c then ExpDigits (c # t) else Failed)"
| "num_step (ExpDigits t) c = (if is_digit c then ExpDigits (c # t) else Failed)"
| "num_step _ c = Failed"

fun num_text :: "jstep \<Rightarrow> string option" where
  "num_text (Int0 t) = Some t" | "num_text (Int1 t) = Some t"
| "num_text (Frac t) = Some t" | "num_text (ExpDigits t) = Some t"
| "num_text _ = None"

definition isValidNumber :: "string \<Rightarrow> bool" where
  "isValidNumber s = (case s of [] \<Rightarrow> False | c # r \<Rightarrow> num_text (foldl num_step (num_begin c) r) \<noteq> None)"

fun num_read :: "jstep \<Rightarrow> string option" where
  "num_read (Neg t) = Some t" | "num_read (Int0 t) = Some t" | "num_read (Int1 t) = Some t"
| "num_read (Dot t) = Some t" | "num_read (Frac t) = Some t" | "num_read (Exp t) = Some t"
| "num_read (ExpSign t) = Some t" | "num_read (ExpDigits t) = Some t"
| "num_read _ = None"

lemma num_step_json:
  "num_step st c \<noteq> Failed \<Longrightarrow> json_step (st, stk) c = (num_step st c, stk)"
  by (cases st) (auto simp: num_tail_def after_int_def split: if_splits)

lemma num_step_read: "num_step st c \<noteq> Failed \<Longrightarrow> num_read (num_step st c) = map_option (Cons c) (num_read st)"
  by (cases st) (auto simp: num_tail_def split: if_splits)

lemma num_begin_read: "num_begin c \<noteq> Failed \<Longrightarrow> num_read (num_begin c) = Some [c]"
  by (auto simp: num_begin_def split: if_splits)

lemma num_text_read: "num_text st = Some t \<Longrightarrow> num_read st = Some t"
  by (cases st) auto

lemma num_failed: "foldl num_step Failed r = Failed"
  by (induction r) auto

lemma num_begin_json:
  assumes "num_begin c \<noteq> Failed"
  shows "json_step (BeginValue, stk) c = (num_begin c, stk)"
proof -
  consider "c = CHR ''-''" | "is_digit c" using assms by (auto simp: num_begin_def is_digit_def split: if_splits)
  then show ?thesis
  proof cases
    case 2
    then have "\<not> json_space c" "c \<notin> {CHR ''{'', CHR ''['', CHR 0x22, CHR ''t'', CHR ''f'', CHR ''n''}"
      by (auto simp: is_digit_def json_space_def)
    then show ?thesis using 2 by (auto simp: begin_value_def num_begin_def)
  qed (simp add: begin_value_def num_begin_def json_space_def)
qed

lemma number_run:
  "foldl num_step st r \<noteq> Failed \<Longrightarrow>
     foldl json_step (st, stk) r = (foldl num_step st r, stk) \<and>
     num_read (foldl num_step st r) = map_option ((@) (rev r)) (num_read st)"
proof (induction r arbitrary: st)
  case Nil
  show ?case by (cases "num_read st") auto
next
  case (Cons c r)
  then have ok: "num_step st c \<noteq> Failed" using num_failed [of r] by auto
  show ?case using Cons.IH [of "num_step st c"] Cons.prems num_step_json [OF ok] num_step_read [OF ok]
    by (cases "num_read st") auto
qed

text \<open>The bytes that may follow a value in an array or object, or at the end of the text.\<close>

definition delimiter :: "char \<Rightarrow> bool" where
  "delimiter c \<longleftrightarrow> c = CHR '','' \<or> c = CHR '']'' \<or> c = CHR ''}'' \<or> c = CHR '' ''"

lemma number_scan:
  assumes "isValidNumber t" "delimiter c"
  shows "foldl json_step (BeginValue, stk) (t @ [c]) = end_value (JNumber t) stk c"
proof -
  obtain d r where t: "t = d # r" using assms(1) by (cases t) (auto simp: isValidNumber_def)
  let ?st = "foldl num_step (num_begin d) r"
  obtain u where u: "num_text ?st = Some u" using assms(1) t by (auto simp: isValidNumber_def)
  then have ok: "?st \<noteq> Failed" by auto
  then have begin_ok: "num_begin d \<noteq> Failed" using num_failed [of r] by auto
  have "num_read ?st = Some (rev r @ [d])" using number_run [OF ok] num_begin_read [OF begin_ok] by simp
  then have u': "u = rev t" using num_text_read [OF u] t by simp
  have nd: "\<not> is_digit c" "c \<noteq> CHR ''.''" "c \<noteq> CHR ''e''" "c \<noteq> CHR ''E''"
    using assms(2) by (auto simp: delimiter_def is_digit_def)
  have "foldl json_step (BeginValue, stk) t = (?st, stk)"
    using number_run [OF ok, of stk] num_begin_json [OF begin_ok] t by simp
  moreover have "json_step (?st, stk) c = end_value (JNumber t) stk c"
    using u u' nd by (cases ?st) (auto simp: after_int_def end_number_def)
  ultimately show ?thesis by simp
qed

subsection \<open>Strings\<close>

lemma between_mono: "between lo hi c \<Longrightarrow> lo' \<le> lo \<Longrightarrow> hi \<le> hi' \<Longrightarrow> between lo' hi' c"
  by (simp add: between_def)

lemma rune_len_cases:
  assumes "0 < rune_len s"
  obtains
    (two) a b r where "s = a # b # r" "rune_len s = 2" "between 0xC2 0xDF a" "between 0x80 0xBF b"
  | (three) a b c r where "s = a # b # c # r" "rune_len s = 3" "\<not> between 0xC2 0xDF a" "between 0x80 0xBF c"
      "between 0xE0 0xE0 a \<and> between 0xA0 0xBF b \<or> between 0xE1 0xEC a \<and> between 0x80 0xBF b \<or>
       between 0xED 0xED a \<and> between 0x80 0x9F b \<or> between 0xEE 0xEF a \<and> between 0x80 0xBF b"
  | (four) a b c d r where "s = a # b # c # d # r" "rune_len s = 4" "\<not> between 0xC2 0xDF a"
      "between 0x80 0xBF c" "between 0x80 0xBF d" "between 0xF0 0xF4 a" "between 0x80 0xBF b"
      "between 0xF0 0xF0 a \<and> between 0x90 0xBF b \<or> between 0xF1 0xF3 a \<and> between 0x80 0xBF b \<or>
       between 0xF4 0xF4 a \<and> between 0x80 0x8F b"
proof -
  obtain a b s2 where s: "s = a # b # s2"
    using assms by (cases s; cases "tl s") (auto simp: rune_len_def)
  show thesis
  proof (cases "between 0xC2 0xDF a")
    case True
    then show thesis using two s assms by (simp add: rune_len_def split: if_splits)
  next
    case no2: False
    obtain c s3 where s2: "s2 = c # s3" using assms s no2 by (cases s2) (auto simp: rune_len_def)
    let ?P = "between 0xE0 0xE0 a \<and> between 0xA0 0xBF b \<or> between 0xE1 0xEC a \<and> between 0x80 0xBF b \<or>
       between 0xED 0xED a \<and> between 0x80 0x9F b \<or> between 0xEE 0xEF a \<and> between 0x80 0xBF b"
    show thesis
    proof (cases "?P \<and> between 0x80 0xBF c")
      case True
      then show thesis using three [of a b c s3] s s2 no2 by (simp add: rune_len_def)
    next
      case no3: False
      obtain d s4 where s3: "s3 = d # s4" using assms s s2 no2 no3 by (cases s3) (auto simp: rune_len_def)
      let ?Q = "between 0xF0 0xF0 a \<and> between 0x90 0xBF b \<or> between 0xF1 0xF3 a \<and> between 0x80 0xBF b \<or>
       between 0xF4 0xF4 a \<and> between 0x80 0x8F b"
      have eq: "rune_len s = (if ?Q \<and> between 0x80 0xBF c \<and> between 0x80 0xBF d then 4 else 0)"
        using no2 no3 unfolding rune_len_def s s2 s3 list.case by (simp only: if_False)
      have all: "?Q \<and> between 0x80 0xBF c \<and> between 0x80 0xBF d"
      proof (rule ccontr)
        assume "\<not> (?Q \<and> between 0x80 0xBF c \<and> between 0x80 0xBF d)"
        then have "rune_len s = 0" unfolding eq by (rule if_not_P)
        with assms show False by simp
      qed
      then have "rune_len s = 4" unfolding eq by (rule if_P)
      with all have q: "?Q" "between 0x80 0xBF c" "between 0x80 0xBF d" "rune_len s = 4" by simp_all
      have "between 0xF0 0xF4 a" "between 0x80 0xBF b" using q(1) between_mono by fastforce+
      then show thesis using four [of a b c d s4] s s2 s3 no2 q by blast
    qed
  qed
qed

lemma rune_len_local:
  assumes "0 < rune_len s"
  shows "rune_len (take (rune_len s) s @ r) = rune_len s \<and> list_all (between 0x80 0xFF) (take (rune_len s) s) \<and>
    rune_len s \<le> length s \<and> 2 \<le> rune_len s"
  using assms
proof (cases s rule: rune_len_cases)
  case (two a b s')
  then have "between 0x80 0xFF a" "between 0x80 0xFF b" by (auto intro: between_mono)
  then show ?thesis using two by (simp add: rune_len_def)
next
  case (three a b c s')
  have "between 0x80 0xFF a" "between 0x80 0xFF b" using three(5) by (auto intro: between_mono)
  moreover have "between 0x80 0xFF c" using three(4) by (rule between_mono) simp_all
  moreover have "rune_len (a # b # c # r) = 3" using three(3-5) unfolding rune_len_def list.case by simp
  ultimately show ?thesis using three(1,2) by simp
next
  case (four a b c d s')
  have "between 0x80 0xFF a" "between 0x80 0xFF b" "between 0x80 0xFF c" "between 0x80 0xFF d"
    using four(4-7) by (auto intro: between_mono)
  moreover have "rune_len (a # b # c # d # r) = 4"
  proof -
    have "\<not> between 0xE0 0xE0 a" "\<not> between 0xE1 0xEC a" "\<not> between 0xED 0xED a" "\<not> between 0xEE 0xEF a"
      using four(6) by (auto simp: between_def)
    then show ?thesis using four(3-5,8) unfolding rune_len_def list.case by simp
  qed
  ultimately show ?thesis using four(1,2) by simp
qed

text \<open>What \<open>json_escape\<close> writes for one rune: the scanner stays inside the string, and \<open>unquote\<close> gives
  the rune back.\<close>

definition chunk :: "string \<Rightarrow> string \<Rightarrow> bool" where
  "chunk w u \<longleftrightarrow> (\<forall>t stk. foldl json_step (InString t, stk) w = (InString (rev w @ t), stk)) \<and>
     (\<forall>r. unquote (w @ r) = u @ unquote r)"

definition plain_byte :: "char \<Rightarrow> bool" where
  "plain_byte c \<longleftrightarrow> c \<noteq> CHR 0x22 \<and> c \<noteq> CHR 0x5C \<and> \<not> between 0 0x1F c"

lemma scan_plain: "list_all plain_byte w \<Longrightarrow> foldl json_step (InString t, stk) w = (InString (rev w @ t), stk)"
  by (induction w arbitrary: t) (auto simp: plain_byte_def)

lemma high_plain: "between 0x80 0xFF c \<Longrightarrow> plain_byte c"
  by (auto simp: plain_byte_def between_def)

lemma chunk_plain: "between 0 0x7F c \<Longrightarrow> plain_byte c \<Longrightarrow> chunk [c] [c]"
  unfolding chunk_def by (auto simp: plain_byte_def)

lemma unquote_rune:
  assumes "0 < rune_len s"
  shows "unquote (take (rune_len s) s @ r) = take (rune_len s) s @ unquote r"
proof -
  let ?w = "take (rune_len s) s"
  note l = rune_len_local [OF assms, of r]
  obtain c w' where w: "?w = c # w'" using l by (cases ?w) auto
  have len: "length ?w = rune_len s" using l by simp
  have c: "c \<noteq> CHR 0x5C" "\<not> between 0 0x7F c" using l w by (auto simp: between_def)
  have n: "rune_len (c # w' @ r) = Suc (length w')" using l len w by simp
  show ?thesis unfolding w using c n by (simp add: Let_def)
qed

lemma chunk_rune:
  assumes "0 < rune_len s"
  shows "chunk (take (rune_len s) s) (take (rune_len s) s)"
proof -
  have "list_all plain_byte (take (rune_len s) s)"
    using rune_len_local [OF assms, of "[]"] high_plain by (auto simp: list_all_iff)
  then show ?thesis unfolding chunk_def using scan_plain unquote_rune [OF assms] by blast
qed

lemma hex_digit_val: "hex_val (hex_digit n) = Some (n mod 16)"
proof -
  have "list_all (\<lambda>m. hex_val (''0123456789abcdef'' ! m) = Some m) [0..<16]" by code_simp
  then show ?thesis by (simp add: list_all_iff hex_digit_def)
qed

lemma hex_digit_hex: "hex_val CHR ''0'' = Some 0" by code_simp

lemma chunk_control:
  assumes "between 0 0x7F c"
  shows "chunk [CHR 0x5C, CHR ''u'', CHR ''0'', CHR ''0'', hex_digit ((of_char c :: nat) div 16), hex_digit (of_char c)] [c]"
proof -
  let ?n = "of_char c :: nat"
  have n: "?n < 0x80" using assms by (simp add: between_def)
  have "hex4 (CHR ''0'' # CHR ''0'' # hex_digit (?n div 16) # hex_digit ?n # r) = Some ?n" for r
  proof -
    have "?n div 16 < 16" using n by simp
    then show ?thesis by (simp add: hex_digit_val hex_digit_hex)
  qed
  moreover have "utf8 ?n = [c]" using n by (simp add: utf8_def)
  ultimately show ?thesis
    unfolding chunk_def using n by (simp add: hex_digit_val hex_digit_hex del: hex4.simps)
qed

lemma chunk_escape:
  "simple_escape e = Some u \<Longrightarrow> e \<noteq> CHR ''u'' \<Longrightarrow> chunk [CHR 0x5C, e] u"
  unfolding chunk_def by simp

lemma chunk_ascii:
  assumes "between 0 0x7F c"
  shows "chunk (escape_ascii c) [c]"
proof -
  have esc: "simple_escape CHR 0x22 = Some [CHR 0x22]" "simple_escape CHR 0x5C = Some [CHR 0x5C]"
    "simple_escape CHR ''b'' = Some [CHR 0x08]" "simple_escape CHR ''f'' = Some [CHR 0x0C]"
    "simple_escape CHR ''n'' = Some [CHR 0x0A]" "simple_escape CHR ''r'' = Some [CHR 0x0D]"
    "simple_escape CHR ''t'' = Some [CHR 0x09]" by code_simp+
  show ?thesis
  proof (cases "plain_byte c")
    case True
    then show ?thesis
      using assms esc chunk_plain chunk_control
      by (auto simp: escape_ascii_def plain_byte_def intro!: chunk_escape)
  next
    case False
    then show ?thesis
      using assms esc chunk_control
      by (auto simp: escape_ascii_def plain_byte_def intro!: chunk_escape)
  qed
qed

lemma chunk_invalid: "chunk (CHR 0x5C # ''ufffd'') replacement"
proof -
  have "hex4 (''fffd'' @ r) = Some 0xFFFD" for r
  proof -
    have "hex_val CHR ''f'' = Some 15" "hex_val CHR ''d'' = Some 13" by code_simp+
    then show ?thesis by simp
  qed
  moreover have "hex_val CHR ''f'' \<noteq> None" "hex_val CHR ''d'' \<noteq> None" by code_simp+
  ultimately show ?thesis unfolding chunk_def replacement_def by (simp del: hex4.simps)
qed

lemma chunk_unicode:
  assumes "hex4 [a, b, c, d] = Some n" "list_all (\<lambda>x. hex_val x \<noteq> None) [a, b, c, d]" "n < 0xD800"
  shows "chunk [CHR 0x5C, CHR ''u'', a, b, c, d] (utf8 n)"
proof -
  have "hex4 (a # b # c # d # r) = Some n" for r using assms(1) by simp
  then show ?thesis using assms(2,3) unfolding chunk_def by (simp del: hex4.simps)
qed

lemma chunk_separator:
  "chunk (CHR 0x5C # ''u2028'') [CHR 0xE2, CHR 0x80, CHR 0xA8]"
  "chunk (CHR 0x5C # ''u2029'') [CHR 0xE2, CHR 0x80, CHR 0xA9]"
proof -
  have d: "hex_val CHR ''2'' = Some 2" "hex_val CHR ''0'' = Some 0" "hex_val CHR ''8'' = Some 8" "hex_val CHR ''9'' = Some 9"
    by code_simp+
  then have h: "hex4 ''2028'' = Some 8232" "list_all (\<lambda>x. hex_val x \<noteq> None) ''2028''"
    "hex4 ''2029'' = Some 8233" "list_all (\<lambda>x. hex_val x \<noteq> None) ''2029''" by simp_all
  have u: "utf8 8232 = [CHR 0xE2, CHR 0x80, CHR 0xA8]" "utf8 8233 = [CHR 0xE2, CHR 0x80, CHR 0xA9]"
    by (simp_all add: utf8_def char_of_def bit_0)
  show "chunk (CHR 0x5C # ''u2028'') [CHR 0xE2, CHR 0x80, CHR 0xA8]"
    using chunk_unicode [OF h(1,2)] unfolding u by simp
  show "chunk (CHR 0x5C # ''u2029'') [CHR 0xE2, CHR 0x80, CHR 0xA9]"
    using chunk_unicode [OF h(3,4)] unfolding u by simp
qed

lemma chunk_escape_rune:
  assumes "0 < rune_len s"
  shows "chunk (escape_rune (take (rune_len s) s)) (take (rune_len s) s)"
proof -
  let ?w = "take (rune_len s) s"
  have "2 \<le> length ?w" using rune_len_local [OF assms, of "[]"] by simp
  then obtain a b w' where w: "?w = a # b # w'" by (cases ?w; cases "tl ?w") auto
  then have "escape_rune ?w = (if ?w = [CHR 0xE2, CHR 0x80, CHR 0xA8] then CHR 0x5C # ''u2028''
      else if ?w = [CHR 0xE2, CHR 0x80, CHR 0xA9] then CHR 0x5C # ''u2029'' else ?w)"
    by (simp add: escape_rune_def)
  then show ?thesis using chunk_rune [OF assms] chunk_separator by (auto split: if_splits)
qed

lemma chunk_append: "chunk w u \<Longrightarrow> chunk w' u' \<Longrightarrow> chunk (w @ w') (u @ u')"
  by (simp add: chunk_def)

lemma chunk_json_escape: "chunk (json_escape s) (coerce_utf8 s)"
proof (induction s rule: json_escape.induct)
  case (1 s)
  show ?case
  proof (cases s)
    case Nil
    then show ?thesis by (simp add: json_escape.simps coerce_utf8.simps chunk_def)
  next
    case (Cons a r)
    show ?thesis
    proof (cases "rune_width s = 0")
      case True
      then show ?thesis
        using 1(1) Cons chunk_append [OF chunk_invalid, of "json_escape r" "coerce_utf8 r"]
        by (simp add: json_escape.simps [of "a # r"] coerce_utf8.simps [of "a # r"])
    next
      case False
      have "chunk (escape_rune (take (rune_width s) s)) (take (rune_width s) s)"
      proof (cases "between 0 0x7F a")
        case True
        then show ?thesis using Cons chunk_ascii by (simp add: rune_width_def escape_rune_def)
      next
        case nb: False
        then have "rune_width s = rune_len s" using Cons by (simp add: rune_width_def)
        then show ?thesis using chunk_escape_rune [of s] False by simp
      qed
      moreover have "chunk (json_escape (drop (rune_width s) s)) (coerce_utf8 (drop (rune_width s) s))"
        using 1(2) False Cons by simp
      ultimately show ?thesis
        using chunk_append False Cons by (simp add: json_escape.simps [of "a # r"] coerce_utf8.simps [of "a # r"])
    qed
  qed
qed

lemma json_quote_scan:
  "foldl json_step (InString [], stk) (json_escape s @ [CHR 0x22]) = (EndValue (JString (coerce_utf8 s)), stk)"
proof -
  have "unquote (json_escape s @ []) = coerce_utf8 s @ unquote []" using chunk_json_escape unfolding chunk_def by blast
  then show ?thesis using chunk_json_escape unfolding chunk_def by simp
qed

subsection \<open>Values\<close>

fun json_encode :: "json \<Rightarrow> string" and encode_elems :: "json list \<Rightarrow> string"
  and encode_fields :: "(string \<times> json) list \<Rightarrow> string" where
  "json_encode JNull = ''null''"
| "json_encode (JBool b) = (if b then ''true'' else ''false'')"
| "json_encode (JNumber t) = t"
| "json_encode (JString s) = json_quote s"
| "json_encode (JArray vs) = CHR ''['' # encode_elems vs @ '']''"
| "json_encode (JObject kvs) = CHR ''{'' # encode_fields kvs @ ''}''"
| "encode_elems [] = []"
| "encode_elems (v # vs) = json_encode v @ (if vs = [] then [] else CHR '','' # encode_elems vs)"
| "encode_fields [] = []"
| "encode_fields ((k, v) # kvs) =
     json_quote k @ CHR '':'' # json_encode v @ (if kvs = [] then [] else CHR '','' # encode_fields kvs)"

text \<open>The numbers of a value are numbers, and it nests at most \<open>n\<close> levels.\<close>

fun json_fits :: "nat \<Rightarrow> json \<Rightarrow> bool" and elems_fit :: "nat \<Rightarrow> json list \<Rightarrow> bool"
  and fields_fit :: "nat \<Rightarrow> (string \<times> json) list \<Rightarrow> bool" where
  "json_fits n (JNumber t) = isValidNumber t"
| "json_fits n (JArray vs) = (case n of 0 \<Rightarrow> False | Suc m \<Rightarrow> elems_fit m vs)"
| "json_fits n (JObject kvs) = (case n of 0 \<Rightarrow> False | Suc m \<Rightarrow> fields_fit m kvs)"
| "json_fits n _ = True"
| "elems_fit n [] = True"
| "elems_fit n (v # vs) = (json_fits n v \<and> elems_fit n vs)"
| "fields_fit n [] = True"
| "fields_fit n ((k, v) # kvs) = (json_fits n v \<and> fields_fit n kvs)"

text \<open>The value that is read back.\<close>

fun json_coerce :: "json \<Rightarrow> json" and coerce_elems :: "json list \<Rightarrow> json list"
  and coerce_fields :: "(string \<times> json) list \<Rightarrow> (string \<times> json) list" where
  "json_coerce (JString s) = JString (coerce_utf8 s)"
| "json_coerce (JArray vs) = JArray (coerce_elems vs)"
| "json_coerce (JObject kvs) = JObject (canonical_fields (rev (coerce_fields kvs)))"
| "json_coerce v = v"
| "coerce_elems [] = []"
| "coerce_elems (v # vs) = json_coerce v # coerce_elems vs"
| "coerce_fields [] = []"
| "coerce_fields ((k, v) # kvs) = (coerce_utf8 k, json_coerce v) # coerce_fields kvs"

subsection \<open>Reading back\<close>

lemma num_first:
  assumes "isValidNumber t" "t = c # r"
  shows "\<not> json_space c \<and> c \<noteq> CHR '']''"
  using assms by (auto simp: isValidNumber_def num_begin_def is_digit_def json_space_def num_failed split: if_splits)

lemma encode_first: "json_fits n v \<Longrightarrow> \<exists>c r. json_encode v = c # r \<and> \<not> json_space c \<and> c \<noteq> CHR '']''"
proof (cases v)
  case (JNumber t)
  assume "json_fits n v"
  then have t: "isValidNumber t" using JNumber by simp
  then obtain c r where "t = c # r" by (cases t) (auto simp: isValidNumber_def)
  then show ?thesis using num_first [OF t] JNumber by simp
qed (auto simp: json_space_def json_quote_def)

lemma scan_or_empty:
  assumes "json_fits n v"
  shows "foldl json_step (BeginValueOrEmpty, stk) (json_encode v @ w) = foldl json_step (BeginValue, stk) (json_encode v @ w)"
  using encode_first [OF assms] by auto

lemma scan_key:
  "foldl json_step (BeginString, CKey kvs # stk) (json_quote k @ CHR '':'' # w) =
     foldl json_step (BeginValue, CVal kvs (coerce_utf8 k) # stk) w"
proof -
  have "foldl json_step (BeginString, CKey kvs # stk) (json_quote k) = (EndValue (JString (coerce_utf8 k)), CKey kvs # stk)"
    using json_quote_scan [of "CKey kvs # stk" k] by (simp add: json_quote_def begin_string_def json_space_def)
  then show ?thesis by (simp add: end_value_def json_space_def)
qed

lemma scan_key_or_empty:
  "foldl json_step (BeginStringOrEmpty, stk) (json_quote k @ w) = foldl json_step (BeginString, stk) (json_quote k @ w)"
  by (simp add: json_quote_def json_space_def)

text \<open>A separator puts the value into the open array or object; the brackets close it.\<close>

lemma end_value_sep:
  "end_value v (CArr vs # stk) CHR '','' = (BeginValue, CArr (v # vs) # stk)"
  "end_value v (CArr vs # stk) CHR '']'' = (EndValue (JArray (rev (v # vs))), stk)"
  "end_value v (CVal kvs k # stk) CHR '','' = (BeginString, CKey ((k, v) # kvs) # stk)"
  "end_value v (CVal kvs k # stk) CHR ''}'' = (EndValue (JObject (canonical_fields ((k, v) # kvs))), stk)"
  by (simp_all add: end_value_def json_space_def)

lemma scan_scalar:
  "delimiter c \<Longrightarrow> foldl json_step (BeginValue, stk) (''null'' @ [c]) = end_value JNull stk c"
  "delimiter c \<Longrightarrow> foldl json_step (BeginValue, stk) (''true'' @ [c]) = end_value (JBool True) stk c"
  "delimiter c \<Longrightarrow> foldl json_step (BeginValue, stk) (''false'' @ [c]) = end_value (JBool False) stk c"
  "foldl json_step (BeginValue, stk) (json_quote s @ [c]) = end_value (JString (coerce_utf8 s)) stk c"
proof -
  have "foldl json_step (BeginValue, stk) (json_quote s) = (EndValue (JString (coerce_utf8 s)), stk)"
    using json_quote_scan [of stk s] by (simp add: json_quote_def begin_value_def json_space_def)
  then show "foldl json_step (BeginValue, stk) (json_quote s @ [c]) = end_value (JString (coerce_utf8 s)) stk c" by simp
qed (simp_all add: begin_value_def json_space_def is_digit_def)

lemma delimiters [simp]: "delimiter CHR '',''" "delimiter CHR '']''" "delimiter CHR ''}''" "delimiter CHR '' ''"
  by (simp_all add: delimiter_def)

lemma scan_values:
  "json_fits n v \<Longrightarrow> length stk + n \<le> max_depth \<Longrightarrow> delimiter c \<Longrightarrow>
     foldl json_step (BeginValue, stk) (json_encode v @ [c]) = end_value (json_coerce v) stk c"
  "elems_fit n vs \<Longrightarrow> length stk + n < max_depth \<Longrightarrow> vs \<noteq> [] \<Longrightarrow>
     foldl json_step (BeginValue, CArr acc # stk) (encode_elems vs @ '']'') =
       (EndValue (JArray (rev acc @ coerce_elems vs)), stk)"
  "fields_fit n kvs \<Longrightarrow> length stk + n < max_depth \<Longrightarrow> kvs \<noteq> [] \<Longrightarrow>
     foldl json_step (BeginString, CKey facc # stk) (encode_fields kvs @ ''}'') =
       (EndValue (JObject (canonical_fields (rev (coerce_fields kvs) @ facc))), stk)"
proof (induction v and vs and kvs arbitrary: n stk c and n stk acc and n stk facc
    rule: json_encode_encode_elems_encode_fields.induct)
  case (3 t)
  then show ?case by (simp add: number_scan del: foldl_append)
next
  case (5 vs)
  then obtain m where m: "n = Suc m" "elems_fit m vs" by (cases n) auto
  then have room: "length stk + m < max_depth" using 5 by simp
  have push: "foldl json_step (BeginValue, stk) ''['' = (BeginValueOrEmpty, CArr [] # stk)"
    using room by (simp add: begin_value_def json_space_def push_def)
  have "foldl json_step (BeginValueOrEmpty, CArr [] # stk) (encode_elems vs @ '']'') =
      (EndValue (JArray (coerce_elems vs)), stk)"
  proof (cases vs)
    case (Cons v vs')
    then have fits: "json_fits m v" using m by simp
    have "foldl json_step (BeginValueOrEmpty, CArr [] # stk) (encode_elems vs @ '']'') =
        foldl json_step (BeginValue, CArr [] # stk) (encode_elems vs @ '']'')"
      unfolding Cons encode_elems.simps append_assoc by (rule scan_or_empty [OF fits])
    then show ?thesis using 5(1) [OF m(2) room, of "[]"] Cons by simp
  qed (simp add: json_space_def)
  then have "foldl json_step (BeginValue, stk) (json_encode (JArray vs)) = (EndValue (JArray (coerce_elems vs)), stk)"
    using push by simp
  then show ?case by simp
next
  case (6 kvs)
  then obtain m where m: "n = Suc m" "fields_fit m kvs" by (cases n) auto
  then have room: "length stk + m < max_depth" using 6 by simp
  have push: "foldl json_step (BeginValue, stk) ''{'' = (BeginStringOrEmpty, CKey [] # stk)"
    using room by (simp add: begin_value_def json_space_def push_def)
  have "foldl json_step (BeginStringOrEmpty, CKey [] # stk) (encode_fields kvs @ ''}'') =
      (EndValue (JObject (canonical_fields (rev (coerce_fields kvs)))), stk)"
  proof (cases kvs)
    case Nil
    then show ?thesis by (simp add: json_space_def canonical_fields_def)
  next
    case (Cons kv kvs')
    obtain k v where kv: "kv = (k, v)" by fastforce
    have "foldl json_step (BeginStringOrEmpty, CKey [] # stk) (encode_fields kvs @ ''}'') =
        foldl json_step (BeginString, CKey [] # stk) (encode_fields kvs @ ''}'')"
      unfolding Cons kv encode_fields.simps append_assoc by (rule scan_key_or_empty)
    then show ?thesis using 6(1) [OF m(2) room, of "[]"] Cons by simp
  qed
  then have "foldl json_step (BeginValue, stk) (json_encode (JObject kvs)) =
      (EndValue (JObject (canonical_fields (rev (coerce_fields kvs)))), stk)"
    using push by simp
  then show ?case by simp
next
  case (8 v vs)
  have v: "foldl json_step (BeginValue, CArr acc # stk) (json_encode v @ [c]) = end_value (json_coerce v) (CArr acc # stk) c"
    if "delimiter c" for c
    using 8(1) [of n "CArr acc # stk" c] 8(3,4) that by simp
  show ?case
  proof (cases "vs = []")
    case True
    then show ?thesis using v [of "CHR '']''"] by (simp add: end_value_sep)
  next
    case False
    have "foldl json_step (BeginValue, CArr acc # stk) ((json_encode v @ '','') @ encode_elems vs @ '']'') =
        foldl json_step (BeginValue, CArr (json_coerce v # acc) # stk) (encode_elems vs @ '']'')"
      unfolding foldl_append [of _ _ "json_encode v @ '',''"] v [OF delimiters(1)] end_value_sep ..
    then show ?thesis using 8(2) [OF False, of n stk "json_coerce v # acc"] 8(3,4) False by simp
  qed
next
  case (10 k v kvs)
  let ?stk = "CVal facc (coerce_utf8 k) # stk"
  have v: "foldl json_step (BeginValue, ?stk) (json_encode v @ [c]) = end_value (json_coerce v) ?stk c"
    if "delimiter c" for c
    using 10(1) [of n ?stk c] 10(3,4) that by simp
  show ?case
  proof (cases "kvs = []")
    case True
    have "foldl json_step (BeginString, CKey facc # stk) (json_quote k @ CHR '':'' # (json_encode v @ ''}'')) =
        foldl json_step (BeginValue, ?stk) (json_encode v @ ''}'')" by (rule scan_key)
    then show ?thesis using True v [of "CHR ''}''"] by (simp add: end_value_sep)
  next
    case False
    have "foldl json_step (BeginString, CKey facc # stk) (json_quote k @ CHR '':'' # ((json_encode v @ '','') @ encode_fields kvs @ ''}'')) =
        foldl json_step (BeginString, CKey ((coerce_utf8 k, json_coerce v) # facc) # stk) (encode_fields kvs @ ''}'')"
      unfolding scan_key foldl_append [of _ _ "json_encode v @ '',''"] v [OF delimiters(1)] end_value_sep ..
    then show ?thesis using 10(2) [OF False, of n stk "(coerce_utf8 k, json_coerce v) # facc"] 10(3,4) False by simp
  qed
qed (simp_all add: scan_scalar(4) begin_value_def json_space_def is_digit_def del: foldl_append)

text \<open>What was written is read back as the value itself, its strings coerced to UTF-8 and its objects
  in canonical form.\<close>

lemma json_value_encode:
  assumes "json_fits n v" "n \<le> max_depth"
  shows "json_value (json_encode v) = Some (json_coerce v)"
  using scan_values(1) [of n v "[]" "CHR '' ''"] assms by (simp add: json_value_def end_value_def json_space_def)

end
