(* ===== verification/Go_Json_Struct.thy ===== *)
theory Go_Json_Struct
  imports Go_Json_Write Go_Text
begin

section \<open>Reading a JSON object into a struct\<close>

text \<open>
  What \<open>json.Unmarshal\<close> does for the structs of the assistant: a key sets the field whose name it
  equals up to letter case, \<open>null\<close> leaves a field as it is, a value of another type is an error, and a key
  without a field is ignored. Field names are given in lower case. Of two keys that differ only in
  letter case the last in key order counts, where Go takes the last in the text. Numbers beyond the
  range of \<open>float64\<close>, which Go refuses for an \<open>any\<close>, are kept as text.
\<close>

definition struct_fields :: "string \<Rightarrow> (string \<times> json) list \<Rightarrow> json list" where
  "struct_fields name kvs = map snd (filter (\<lambda>kv. equal_fold (fst kv) name \<and> snd kv \<noteq> JNull) kvs)"

fun read_bools :: "json list \<Rightarrow> bool \<Rightarrow> bool option" where
  "read_bools [] b = Some b"
| "read_bools (v # vs) b = (case v of JBool c \<Rightarrow> read_bools vs c | _ \<Rightarrow> None)"

fun read_strings :: "json list \<Rightarrow> string \<Rightarrow> string option" where
  "read_strings [] s = Some s"
| "read_strings (v # vs) s = (case v of JString t \<Rightarrow> read_strings vs t | _ \<Rightarrow> None)"

text \<open>\<open>strconv.ParseInt\<close> with 64 bits, on the text of a JSON number.\<close>

definition parse_int :: "string \<Rightarrow> int option" where
  "parse_int t =
     (let (neg, ds) = (case t of c # r \<Rightarrow> if c = CHR ''-'' then (True, r) else (False, t) | [] \<Rightarrow> (False, t));
          n = int (read_nat ds); m = (if neg then - n else n)
      in if ds = [] \<or> \<not> list_all is_digit ds then None
         else if m < min_i64 \<or> max_i64 < m then None else Some m)"

fun read_ints :: "json list \<Rightarrow> int \<Rightarrow> int option" where
  "read_ints [] n = Some n"
| "read_ints (v # vs) n = (case v of JNumber t \<Rightarrow> (case parse_int t of Some m \<Rightarrow> read_ints vs m | None \<Rightarrow> None) | _ \<Rightarrow> None)"

definition bool_field :: "string \<Rightarrow> (string \<times> json) list \<Rightarrow> bool option" where
  "bool_field name kvs = read_bools (struct_fields name kvs) False"

definition string_field :: "string \<Rightarrow> (string \<times> json) list \<Rightarrow> string option" where
  "string_field name kvs = read_strings (struct_fields name kvs) []"

definition int_field :: "string \<Rightarrow> (string \<times> json) list \<Rightarrow> int option" where
  "int_field name kvs = read_ints (struct_fields name kvs) 0"

text \<open>A \<open>json.RawMessage\<close> keeps any value, \<open>null\<close> too.\<close>

definition raw_field :: "string \<Rightarrow> (string \<times> json) list \<Rightarrow> json option" where
  "raw_field name kvs = (case filter (\<lambda>kv. equal_fold (fst kv) name) kvs of [] \<Rightarrow> None | es \<Rightarrow> Some (snd (last es)))"

text \<open>\<open>json.Unmarshal\<close> into a struct takes an object, and \<open>null\<close>, which sets nothing; the same for a map.\<close>

definition decode_object :: "string \<Rightarrow> (string \<times> json) list option" where
  "decode_object s = (case json_value s of Some (JObject kvs) \<Rightarrow> Some kvs | Some JNull \<Rightarrow> Some [] | _ \<Rightarrow> None)"

subsection \<open>Objects that were written from a struct\<close>

lemma foldr_mput_distinct: "distinct (map fst (rev kvs)) \<Longrightarrow> foldr (\<lambda>(k, v) m. mput k v m) kvs [] = rev kvs"
proof (induction kvs)
  case (Cons kv kvs)
  obtain k v where kv: "kv = (k, v)" by fastforce
  have "AList.update k v m = m @ [(k, v)]" if "k \<notin> fst ` set m" for m :: "('a \<times> 'b) list"
    using that by (induction m) auto
  then show ?case using Cons kv by (simp add: mput_def)
qed simp

text \<open>The entries of a struct, in key order: selecting a field from them is selecting it from the entries
  in the order they were written.\<close>

lemma filter_canonical:
  assumes "distinct (map fst kvs)"
  shows "filter P (canonical_fields (rev kvs)) = sort_key fst (filter P kvs)"
proof -
  have "foldr (\<lambda>(k, v) m. mput k v m) (rev kvs) [] = rev (rev kvs)"
    using assms by (intro foldr_mput_distinct) (simp only: rev_rev_ident)
  then show ?thesis unfolding canonical_fields_def Let_def by (simp only: rev_rev_ident filter_sort)
qed

lemma map_of_canonical: "map_of (canonical_fields kvs) k = map_of kvs k"
proof -
  let ?m = "foldr (\<lambda>(k, v) m. mput k v m) kvs []"
  have "wf_map ?m \<and> map_of ?m k = map_of kvs k" by (induction kvs) auto
  moreover have "map_of (sort_key fst ?m) k = map_of ?m k" if "wf_map ?m"
    using map_of_inject_set [of "sort_key fst ?m" ?m] that
    by (simp add: wf_map_def distinct_map distinct_sort inj_on_def)
  ultimately show ?thesis by (simp add: canonical_fields_def)
qed

text \<open>Which key of a struct a field name selects.\<close>

definition selects :: "string list \<Rightarrow> string \<Rightarrow> string \<Rightarrow> bool" where
  "selects keys name key \<longleftrightarrow> (\<forall>k \<in> set keys. equal_fold k name = (k = key))"

lemma selected:
  assumes "selects (map fst fs) name key" "distinct (map fst fs)"
  shows "filter (\<lambda>kv. equal_fold (fst kv) name \<and> P kv) (canonical_fields (rev fs)) =
    (case map_of fs key of Some v \<Rightarrow> if P (key, v) then [(key, v)] else [] | None \<Rightarrow> [])"
proof -
  have eq: "filter (\<lambda>kv. equal_fold (fst kv) name \<and> P kv) fs = filter (\<lambda>kv. fst kv = key \<and> P kv) fs"
    using assms(1) by (intro filter_cong) (auto simp: selects_def)
  have "filter (\<lambda>kv. fst kv = key \<and> P kv) fs = (case map_of fs key of Some v \<Rightarrow> if P (key, v) then [(key, v)] else [] | None \<Rightarrow> [])"
    using assms(2)
  proof (induction fs)
    case (Cons kv fs)
    obtain k v where kv: "kv = (k, v)" by fastforce
    have "filter (\<lambda>kv. fst kv = key \<and> P kv) fs = []" if "k = key"
      using that Cons.prems kv by (auto intro!: filter_False)
    then show ?case using Cons kv by auto
  qed simp
  then show ?thesis unfolding filter_canonical [OF assms(2)] eq by (simp split: option.splits)
qed

lemma selected_field:
  assumes "selects (map fst fs) name key" "distinct (map fst fs)"
  shows "struct_fields name (canonical_fields (rev fs)) =
    (case map_of fs key of Some v \<Rightarrow> if v \<noteq> JNull then [v] else [] | None \<Rightarrow> [])"
  using selected [OF assms, of "\<lambda>kv. snd kv \<noteq> JNull"] by (simp add: struct_fields_def split: option.splits)

lemma selected_raw:
  assumes "selects (map fst fs) name key" "distinct (map fst fs)"
  shows "raw_field name (canonical_fields (rev fs)) = map_of fs key"
  using selected [OF assms, of "\<lambda>_. True"] by (simp add: raw_field_def split: option.splits)

lemma decode_encoded:
  assumes "json_fits n (JObject fs)" "n \<le> max_depth"
  shows "decode_object (json_encode (JObject fs)) = Some (canonical_fields (rev (coerce_fields fs)))"
  using json_value_encode [OF assms] by (simp add: decode_object_def)

text \<open>A struct whose fields are texts, each with its key and whether it is left out when empty.\<close>

fun text_fields :: "(string \<times> bool \<times> string) list \<Rightarrow> (string \<times> json) list" where
  "text_fields [] = []"
| "text_fields ((k, omitempty, v) # fs) = (if omitempty \<and> v = [] then [] else [(k, JString v)]) @ text_fields fs"

lemma text_fields_keys: "fst ` set (text_fields fs) \<subseteq> fst ` set fs"
  by (induction fs rule: text_fields.induct) auto

lemma text_fields_fit: "fields_fit n (text_fields fs)"
  by (induction fs rule: text_fields.induct) auto

lemma text_fields_distinct: "distinct (map fst fs) \<Longrightarrow> distinct (map fst (text_fields fs))"
  by (induction fs rule: text_fields.induct) (use text_fields_keys in auto)

lemma text_fields_coerced:
  "list_all (\<lambda>f. coerce_utf8 (fst f) = fst f) fs \<Longrightarrow>
   coerce_fields (text_fields fs) = map (\<lambda>(k, v). (k, json_coerce v)) (text_fields fs)"
  by (induction fs rule: text_fields.induct) auto

lemma map_of_text_fields:
  "distinct (map fst fs) \<Longrightarrow> (k, om, v) \<in> set fs \<Longrightarrow> map_of (text_fields fs) k = (if om \<and> v = [] then None else Some (JString v))"
proof (induction fs rule: text_fields.induct)
  case (2 k' om' v' fs)
  have no: "map_of (text_fields fs) k' = None"
    using text_fields_keys [of fs] 2(2) by (auto simp: map_of_eq_None_iff)
  show ?case
  proof (cases "(k, om, v) = (k', om', v')")
    case True then show ?thesis using no by simp
  next
    case False
    then have i: "(k, om, v) \<in> set fs" using 2(3) by auto
    then have "k \<noteq> k'" using 2(2) by (auto simp: image_iff)
    then show ?thesis using 2 i by simp
  qed
qed simp

definition written_struct :: "(string \<times> bool \<times> string) list \<Rightarrow> (string \<times> json) list" where
  "written_struct fs = canonical_fields (rev (coerce_fields (text_fields fs)))"

lemma decode_written: "decode_object (json_encode (JObject (text_fields fs))) = Some (written_struct fs)"
  using decode_encoded [of 1 "text_fields fs"] text_fields_fit [of 0 fs] by (simp add: written_struct_def max_depth_def)

lemma struct_fields_written:
  assumes "distinct (map fst fs)" "list_all (\<lambda>f. coerce_utf8 (fst f) = fst f) fs" "selects (map fst fs) name k" "(k, om, v) \<in> set fs"
  shows "struct_fields name (written_struct fs) = (if om \<and> v = [] then [] else [JString (coerce_utf8 v)])"
proof -
  let ?g = "map (\<lambda>(k, v). (k, json_coerce v)) (text_fields fs)"
  have keys: "map fst ?g = map fst (text_fields fs)" by (simp add: comp_def case_prod_unfold)
  have "selects (map fst ?g) name k" unfolding keys using assms(3) text_fields_keys [of fs] unfolding selects_def set_map by blast
  moreover have "distinct (map fst ?g)" unfolding keys by (rule text_fields_distinct [OF assms(1)])
  moreover have "map_of ?g k = map_option json_coerce (map_of (text_fields fs) k)" by (simp add: map_of_map)
  ultimately show ?thesis
    using selected_field [of ?g name k] map_of_text_fields [OF assms(1,4)] text_fields_coerced [OF assms(2)]
    by (simp add: written_struct_def)
qed

lemma string_field_written:
  assumes "distinct (map fst fs)" "list_all (\<lambda>f. coerce_utf8 (fst f) = fst f) fs" "selects (map fst fs) name k" "(k, om, v) \<in> set fs"
  shows "string_field name (written_struct fs) = Some (coerce_utf8 v)"
  using struct_fields_written [OF assms] by (simp add: string_field_def coerce_utf8.simps [of "[]"])

subsection \<open>Integers\<close>

lemma digit_facts:
  assumes "d < 10"
  shows "is_digit (char_of (48 + d :: nat))" "d \<noteq> 0 \<Longrightarrow> char_of (48 + d) \<noteq> CHR ''0''" "char_of (48 + d) \<noteq> CHR ''-''"
proof -
  have n: "of_char (char_of (48 + d) :: char) = 48 + d" using assms by simp
  show "is_digit (char_of (48 + d))" unfolding is_digit_def n using assms by simp
  show "char_of (48 + d) \<noteq> CHR ''-''"
  proof
    assume "char_of (48 + d) = CHR ''-''"
    then have "of_char (char_of (48 + d) :: char) = (45 :: nat)" by simp
    then show False using n by simp
  qed
  show "char_of (48 + d) \<noteq> CHR ''0''" if "d \<noteq> 0"
  proof
    assume "char_of (48 + d) = CHR ''0''"
    then have "of_char (char_of (48 + d) :: char) = (48 :: nat)" by simp
    then show False using n that by simp
  qed
qed

lemma show_nat_number:
  "0 < n \<Longrightarrow> \<exists>c r. show_nat n = c # r \<and> is_digit c \<and> c \<noteq> CHR ''0'' \<and> c \<noteq> CHR ''-'' \<and>
     (\<forall>t. foldl num_step (Int1 t) r = Int1 (rev r @ t))"
proof (induction n rule: show_nat.induct)
  case (1 n)
  show ?case
  proof (cases "n < 10")
    case True
    then have "show_nat n = [char_of (48 + n)]" by (simp add: show_nat.simps [of n])
    then show ?thesis using digit_facts [OF True] 1(2) by simp
  next
    case False
    then have "0 < n div 10" by simp
    then obtain c r where IH: "show_nat (n div 10) = c # r" "is_digit c" "c \<noteq> CHR ''0''" "c \<noteq> CHR ''-''"
      "\<forall>t. foldl num_step (Int1 t) r = Int1 (rev r @ t)" using 1(1) [OF False] by blast
    have "n mod 10 < 10" by simp
    then have "is_digit (char_of (48 + n mod 10))" by (rule digit_facts)
    moreover have "show_nat n = c # r @ [char_of (48 + n mod 10)]" using IH(1) False by (simp add: show_nat.simps [of n])
    ultimately show ?thesis using IH by (simp del: char_of_def)
  qed
qed

lemma show_nat_0: "show_nat 0 = ''0''"
  by (simp add: show_nat.simps char_of_def bit_0)

lemma show_nat_all_digits: "list_all is_digit (show_nat n) \<and> show_nat n \<noteq> []"
proof
  show "list_all is_digit (show_nat n)"
    using show_nat_digits [of _ n] digit_facts(1) by (fastforce simp: list_all_iff)
  show "show_nat n \<noteq> []" by (simp add: show_nat.simps [of n])
qed

lemma show_nat_begin: "0 < n \<Longrightarrow> \<exists>c r. show_nat n = c # r \<and> is_digit c \<and> c \<noteq> CHR ''0'' \<and> c \<noteq> CHR ''-'' \<and>
    num_text (foldl num_step (Int1 (c # t)) r) \<noteq> None"
proof -
  assume "0 < n"
  then obtain c r where cr: "show_nat n = c # r" "is_digit c" "c \<noteq> CHR ''0''" "c \<noteq> CHR ''-''"
    "\<forall>t. foldl num_step (Int1 t) r = Int1 (rev r @ t)" using show_nat_number by blast
  have "num_text (foldl num_step (Int1 (c # t)) r) \<noteq> None" using cr(5) by simp
  with cr(1-4) show ?thesis by blast
qed

lemma isValidNumber_show_int: "isValidNumber (show_int n)"
proof (cases "n = 0")
  case False
  show ?thesis
  proof (cases "n < 0")
    case True
    then obtain c r where "show_nat (nat (- n)) = c # r" "is_digit c" "c \<noteq> CHR ''0''"
      "num_text (foldl num_step (Int1 (c # ''-'')) r) \<noteq> None" using show_nat_begin [of "nat (- n)" "''-''"] by auto
    then show ?thesis using True by (simp add: show_int_def isValidNumber_def num_begin_def)
  next
    case False
    then obtain c r where "show_nat (nat n) = c # r" "is_digit c" "c \<noteq> CHR ''0''" "c \<noteq> CHR ''-''"
      "num_text (foldl num_step (Int1 (c # [])) r) \<noteq> None" using show_nat_begin [of "nat n" "[]"] \<open>n \<noteq> 0\<close> by auto
    then show ?thesis using False by (simp add: show_int_def isValidNumber_def num_begin_def)
  qed
qed (simp add: show_int_def show_nat_0 isValidNumber_def num_begin_def)

lemma parse_show_int:
  assumes "min_i64 \<le> n" "n \<le> max_i64"
  shows "parse_int (show_int n) = Some n"
proof (cases "n < 0")
  case True
  then show ?thesis
    using assms show_nat_all_digits [of "nat (- n)"] by (simp add: parse_int_def show_int_def read_show_nat)
next
  case False
  obtain c r where cr: "show_nat (nat n) = c # r" using show_nat_all_digits [of "nat n"] by (cases "show_nat (nat n)") auto
  then have "c \<noteq> CHR ''-''" using show_nat_no_minus [of "nat n"] by auto
  then show ?thesis
    using assms False cr show_nat_all_digits [of "nat n"] read_show_nat [of "nat n"] by (simp add: parse_int_def show_int_def)
qed

end
