(* ===== verification/Agents_Triggers.thy ===== *)
theory Agents_Triggers
  imports Agents_Schedules Go_Json_Struct
begin

section \<open>Agents: triggers and the job queue\<close>

text \<open>
  Event triggers: the filter of a trigger and the webhook handler (\<open>api/background.go\<close>), their
  validation and update (\<open>api/triggers.go\<close>), the validation and update of schedules
  (\<open>api/schedules.go\<close>), and the in-process job queue (\<open>executor/executor.go\<close>). The HMAC, the case folding
  of \<open>strings.EqualFold\<close> beyond ASCII, the parsing of RFC 3339 and the answers of the API server are
  arguments. \<open>http.Header.Get\<close> is a function of the header's name.
\<close>

subsection \<open>The job queue\<close>

text \<open>The channel of an \<open>InProcess\<close> executor has room for 64 jobs that no worker has taken yet.\<close>

record in_process =
  ip_Jobs :: "job list"
  ip_Running :: bool

definition queue_room :: nat where "queue_room = 64"

definition NewInProcess :: in_process where
  "NewInProcess = \<lparr>ip_Jobs = [], ip_Running = False\<rparr>"

definition Start :: "in_process \<Rightarrow> in_process" where
  "Start e = (if ip_Running e then e else e\<lparr>ip_Running := True\<rparr>)"

definition Stop :: "in_process \<Rightarrow> in_process" where
  "Stop e = e\<lparr>ip_Running := False\<rparr>"

definition SubmitJob :: "job \<Rightarrow> in_process \<Rightarrow> (string, unit) res \<times> in_process" where
  "SubmitJob j e =
     (if \<not> ip_Running e then (Inl ''executor is not running'', e)
      else if length (ip_Jobs e) < queue_room then (Inr (), e\<lparr>ip_Jobs := ip_Jobs e @ [j]\<rparr>)
      else (Inl (''executor queue full '' @ [CHR 0xE2, CHR 0x80, CHR 0x94] @ '' job '' @ job_Kind j @ ''/'' @
                 job_SourceName j @ '' dropped''), e))"

text \<open>A worker takes the oldest job, and waits when there is none.\<close>

definition take_job :: "in_process \<Rightarrow> (job \<times> in_process) option" where
  "take_job e = (case ip_Jobs e of [] \<Rightarrow> None | j # js \<Rightarrow> Some (j, e\<lparr>ip_Jobs := js\<rparr>))"

subsection \<open>Triggers\<close>

record trigger_spec =
  tr_AgentRef :: string
  tr_Source :: string
  tr_ConnectionRef :: string
  tr_Filter :: "(string, string) gomap"
  tr_Task :: string
  tr_ChannelRef :: string
  tr_Suspend :: bool

record trigger_status =
  ts_WebhookPath :: string
  ts_LastFired :: "gotime option"
  ts_LastRunID :: string
  ts_ConsecutiveFailures :: int
  ts_DisabledReason :: string

record trigger =
  tg_Name :: string
  tg_Spec :: trigger_spec
  tg_Status :: trigger_status

record http_request =
  rq_Header :: "string \<Rightarrow> string"
  rq_Body :: string

text \<open>The type of an event: the first of three headers that is set, or a field of the body.\<close>

fun first_header :: "(string \<Rightarrow> string) \<Rightarrow> string list \<Rightarrow> string option" where
  "first_header hdr [] = None"
| "first_header hdr (h # hs) = (if trim_space (hdr h) \<noteq> [] then Some (trim_space (hdr h)) else first_header hdr hs)"

definition webhookEventType :: "(string \<Rightarrow> string) \<Rightarrow> string \<Rightarrow> string" where
  "webhookEventType hdr body =
     (case first_header hdr [''X-GitHub-Event'', ''X-Event-Type'', ''X-Event-Key''] of
        Some v \<Rightarrow> v
      | None \<Rightarrow> (case decode_object body of None \<Rightarrow> [] | Some kvs \<Rightarrow>
          (case (string_field ''type'' kvs, string_field ''action'' kvs) of
             (Some ty, Some ac) \<Rightarrow> if ty \<noteq> [] then ty else ac
           | _ \<Rightarrow> [])))"

text \<open>The filter is a Go map: its entries are visited in some order. The answer is the reason of a refusal.\<close>

fun check_filter :: "(string \<Rightarrow> string \<Rightarrow> bool) \<Rightarrow> (string \<Rightarrow> string) \<Rightarrow> string \<Rightarrow> (string, string) gomap \<Rightarrow> string option" where
  "check_filter feq hdr body [] = None"
| "check_filter feq hdr body ((key, want0) # es) =
     (let want = trim_space want0 in
      if want = [] then check_filter feq hdr body es
      else if key = ''eventType'' then
        (if \<not> feq want (webhookEventType hdr body) then Some (''eventType does not match '' @ want)
         else check_filter feq hdr body es)
      else if key = ''match'' then
        (if \<not> contains_text body want then Some (''payload does not contain '' @ want) else check_filter feq hdr body es)
      else if hasPrefix key ''header.'' then
        (if \<not> feq (hdr (drop 7 key)) want then Some (key @ '' does not match'') else check_filter feq hdr body es)
      else check_filter feq hdr body es)"

definition triggerFilterAllows :: "(string \<Rightarrow> string \<Rightarrow> bool) \<Rightarrow> (string, string) gomap \<Rightarrow> (string \<Rightarrow> string) \<Rightarrow> string \<Rightarrow> string option" where
  "triggerFilterAllows feq flt hdr body = (if length flt = 0 then None else check_filter feq hdr body flt)"

subsection \<open>The webhook\<close>

definition webhookToken :: "(string \<Rightarrow> string \<Rightarrow> string) \<Rightarrow> string \<Rightarrow> string \<Rightarrow> string \<Rightarrow> string" where
  "webhookToken mac key cluster name = (if length key = 0 then [] else take 32 (mac key (cluster @ ''/'' @ name)))"

definition webhookPath :: "string \<Rightarrow> string \<Rightarrow> string \<Rightarrow> string" where
  "webhookPath cluster name token =
     ''/services/providers/agents/webhooks/triggers/'' @ cluster @ ''/'' @ name @ ''/'' @ token"

text \<open>
  What the handler uses of its surroundings: the signing key, whether the background executor is
  ready, the client of a cluster (its error), the trigger it reads, and the clock in nanoseconds.
\<close>

record webhook_env =
  we_Mac :: "string \<Rightarrow> string \<Rightarrow> string"
  we_Fold :: "string \<Rightarrow> string \<Rightarrow> bool"
  we_Key :: string
  we_Ready :: bool
  we_ScopedError :: "string \<Rightarrow> string option"
  we_Trigger :: "string \<Rightarrow> string \<Rightarrow> trigger option"
  we_UnixNano :: int

definition event_task :: "trigger \<Rightarrow> string \<Rightarrow> string" where
  "event_task trig body = (if length (trim_space body) > 0
     then tr_Task (tg_Spec trig) @ [CHR 0x0A, CHR 0x0A] @ ''Event payload:'' @ [CHR 0x0A] @ body
     else tr_Task (tg_Spec trig))"

definition event_job :: "webhook_env \<Rightarrow> string \<Rightarrow> string \<Rightarrow> trigger \<Rightarrow> string \<Rightarrow> job" where
  "event_job env cluster name trig body = \<lparr>job_ID = cluster @ ''/'' @ name @ ''/'' @ show_int (we_UnixNano env),
     job_Kind = ''trigger'', job_ClusterID = cluster, job_SourceName = name, job_ReplyTarget = [],
     job_NotifyChannel = tr_ChannelRef (tg_Spec trig), job_AgentRef = tr_AgentRef (tg_Spec trig),
     job_Task = event_task trig body, job_Trigger = ''event'', job_SessionID = ''trigger:'' @ name, job_Timeout = 0\<rparr>"

definition body_limit :: nat where "body_limit = 64 * 1024"

text \<open>The response is a code, its status or reason, and a text; the queue is the executor's.\<close>

definition webhookTrigger :: "webhook_env \<Rightarrow> string \<Rightarrow> string \<Rightarrow> string \<Rightarrow> http_request \<Rightarrow> in_process \<Rightarrow> (nat \<times> string \<times> string) \<times> in_process" where
  "webhookTrigger env cluster name token r q =
     (let expected = webhookToken (we_Mac env) (we_Key env) cluster name in
      if expected = [] \<or> \<not> we_Ready env then ((503, ''Unavailable'', ''background executor is not running on this provider''), q)
      else if expected \<noteq> token then ((403, ''Forbidden'', ''invalid webhook token''), q)
      else case we_ScopedError env cluster of Some err \<Rightarrow> ((500, ''InternalError'', err), q) | None \<Rightarrow>
      (case we_Trigger env cluster name of None \<Rightarrow> ((404, ''NotFound'', ''trigger not found''), q) | Some trig \<Rightarrow>
       if tr_Suspend (tg_Spec trig) \<or> ts_DisabledReason (tg_Status trig) \<noteq> []
       then ((409, ''Suspended'', ''trigger is suspended or disabled''), q)
       else
        (let body = take body_limit (rq_Body r) in
         case triggerFilterAllows (we_Fold env) (tr_Filter (tg_Spec trig)) (rq_Header r) body of
           Some reason \<Rightarrow> ((202, ''filtered'', reason), q)
         | None \<Rightarrow>
             if blank (event_task trig body) then ((400, ''BadRequest'', ''trigger has no task''), q)
             else (case SubmitJob (event_job env cluster name trig body) q of
                 (Inl err, q') \<Rightarrow> ((503, ''Unavailable'', err), q')
               | (Inr _, q') \<Rightarrow> ((202, ''accepted'', []), q')))))"

subsection \<open>Filters are conjunctions\<close>

text \<open>What one entry of a filter asks of a delivery, as the comment of the code documents it.\<close>

definition entry_passes :: "(string \<Rightarrow> string \<Rightarrow> bool) \<Rightarrow> (string \<Rightarrow> string) \<Rightarrow> string \<Rightarrow> string \<times> string \<Rightarrow> bool" where
  "entry_passes feq hdr body e = (let want = trim_space (snd e) in
     want = [] \<or>
     ((fst e = ''eventType'' \<longrightarrow> feq want (webhookEventType hdr body)) \<and>
      (fst e = ''match'' \<longrightarrow> contains_text body want) \<and>
      (\<forall>h. fst e = ''header.'' @ h \<longrightarrow> feq (hdr h) want)))"

lemma header_entry: "hasPrefix key ''header.'' \<longleftrightarrow> key = ''header.'' @ drop 7 key"
  by (auto simp: hasPrefix_iff)

lemma check_filter_iff: "check_filter feq hdr body flt = None \<longleftrightarrow> (\<forall>e \<in> set flt. entry_passes feq hdr body e)"
proof (induction flt)
  case (Cons e es)
  obtain key want0 where e: "e = (key, want0)" by fastforce
  let ?want = "trim_space want0"
  consider "?want = []" | (ev) "?want \<noteq> []" "key = ''eventType''" | (ma) "?want \<noteq> []" "key = ''match''"
    | (he) h where "?want \<noteq> []" "key = ''header.'' @ h"
    | (un) "?want \<noteq> []" "key \<noteq> ''eventType''" "key \<noteq> ''match''" "\<nexists>h. key = ''header.'' @ h" by blast
  then show ?case
  proof cases
    case un
    then have "\<not> hasPrefix key ''header.''" using header_entry by blast
    then show ?thesis using un Cons e by (simp add: entry_passes_def Let_def)
  next
    case (he h)
    then have "hasPrefix key ''header.''" "drop 7 key = h" by (simp_all add: hasPrefix_iff)
    then show ?thesis using he Cons e by (simp add: entry_passes_def Let_def)
  qed (use Cons e in \<open>simp_all add: entry_passes_def Let_def\<close>)
qed simp

text \<open>When the webhook takes a delivery as an event of a trigger.\<close>

definition admits :: "webhook_env \<Rightarrow> string \<Rightarrow> string \<Rightarrow> string \<Rightarrow> http_request \<Rightarrow> trigger \<Rightarrow> bool" where
  "admits env cluster name token r trig \<longleftrightarrow>
     we_Key env \<noteq> [] \<and> we_Ready env \<and> token \<noteq> [] \<and> token = take 32 (we_Mac env (we_Key env) (cluster @ ''/'' @ name)) \<and>
     we_ScopedError env cluster = None \<and> we_Trigger env cluster name = Some trig \<and>
     \<not> tr_Suspend (tg_Spec trig) \<and> ts_DisabledReason (tg_Status trig) = [] \<and>
     (\<forall>e \<in> set (tr_Filter (tg_Spec trig)). entry_passes (we_Fold env) (rq_Header r) (take body_limit (rq_Body r)) e) \<and>
     \<not> blank (event_task trig (take body_limit (rq_Body r)))"

lemma filter_allows_iff: "triggerFilterAllows feq flt hdr body = None \<longleftrightarrow> (\<forall>e \<in> set flt. entry_passes feq hdr body e)"
  using check_filter_iff [of feq hdr body flt] by (cases flt) (simp_all add: triggerFilterAllows_def)

lemma webhook_admits:
  assumes "admits env cluster name token r trig"
  shows "webhookTrigger env cluster name token r q =
    (case SubmitJob (event_job env cluster name trig (take body_limit (rq_Body r))) q of
       (Inl err, q') \<Rightarrow> ((503, ''Unavailable'', err), q') | (Inr _, q') \<Rightarrow> ((202, ''accepted'', []), q'))"
  using assms filter_allows_iff [of "we_Fold env" "tr_Filter (tg_Spec trig)" "rq_Header r" "take body_limit (rq_Body r)"]
  by (auto simp: admits_def webhookTrigger_def webhookToken_def Let_def)

lemma webhook_refuses:
  assumes "\<nexists>trig. admits env cluster name token r trig"
  shows "snd (webhookTrigger env cluster name token r q) = q"
proof (rule ccontr)
  assume ne: "snd (webhookTrigger env cluster name token r q) \<noteq> q"
  let ?body = "take body_limit (rq_Body r)" and ?exp = "webhookToken (we_Mac env) (we_Key env) cluster name"
  have 1: "?exp \<noteq> []" "we_Ready env" "?exp = token" "we_ScopedError env cluster = None"
    using ne by (auto simp: webhookTrigger_def Let_def split: if_splits option.splits)
  moreover obtain trig where 2: "we_Trigger env cluster name = Some trig"
    using ne 1 by (auto simp: webhookTrigger_def Let_def split: if_splits option.splits)
  moreover have 3: "\<not> tr_Suspend (tg_Spec trig)" "ts_DisabledReason (tg_Status trig) = []"
    using ne 1 2 by (auto simp: webhookTrigger_def Let_def split: if_splits)
  moreover have 4: "triggerFilterAllows (we_Fold env) (tr_Filter (tg_Spec trig)) (rq_Header r) ?body = None"
    using ne 1 2 3 by (auto simp: webhookTrigger_def Let_def split: option.splits)
  moreover have "\<not> blank (event_task trig ?body)"
    using ne 1 2 3 4 by (auto simp: webhookTrigger_def Let_def split: if_splits)
  ultimately have "admits env cluster name token r trig"
    by (auto simp: admits_def webhookToken_def filter_allows_iff split: if_splits)
  then show False using assms by blast
qed


text \<open>Property C25. 
  A webhook starts a run exactly for an event of its trigger. A delivery whose token is the one minted for
  this cluster and trigger, while the trigger is neither suspended nor disabled, that passes every
  entry of the filter and leaves a task, is queued as one job of that cluster, trigger and agent and
  acknowledged, or refused with 503 when the queue is full or stopped; any other delivery leaves the
  queue as it is. The order in which the filter's map is visited does not matter.
\<close>

theorem webhook_fires_iff_admitted:
  "(\<forall>trig. admits env cluster name token r trig \<longrightarrow>
      webhookTrigger env cluster name token r q =
        (if ip_Running q \<and> length (ip_Jobs q) < 64
         then ((202, ''accepted'', []), q\<lparr>ip_Jobs := ip_Jobs q @ [event_job env cluster name trig (take body_limit (rq_Body r))]\<rparr>)
         else ((503, ''Unavailable'', snd (snd (fst (webhookTrigger env cluster name token r q)))), q))) \<and>
   ((\<nexists>trig. admits env cluster name token r trig) \<longrightarrow> snd (webhookTrigger env cluster name token r q) = q)"
proof (intro conjI allI impI)
  fix trig
  assume "admits env cluster name token r trig"
  from webhook_admits [OF this, of q] show "webhookTrigger env cluster name token r q =
        (if ip_Running q \<and> length (ip_Jobs q) < 64
         then ((202, ''accepted'', []), q\<lparr>ip_Jobs := ip_Jobs q @ [event_job env cluster name trig (take body_limit (rq_Body r))]\<rparr>)
         else ((503, ''Unavailable'', snd (snd (fst (webhookTrigger env cluster name token r q)))), q))"
    by (simp add: SubmitJob_def queue_room_def)
next
  assume "\<nexists>trig. admits env cluster name token r trig"
  then show "snd (webhookTrigger env cluster name token r q) = q" by (rule webhook_refuses)
qed

subsection \<open>Creating and updating triggers\<close>

text \<open>
  The object is created or written by the API server, whose answers are arguments: whether the object
  was stored, and whether the status with the webhook's path was.
\<close>

record create_trigger_request =
  ct_Name :: string
  ct_AgentRef :: string
  ct_Source :: string
  ct_ConnectionRef :: string
  ct_Filter :: "(string, string) gomap"
  ct_Task :: string
  ct_Suspend :: bool
  ct_ChannelRef :: string

definition webhook_source :: "string \<Rightarrow> bool" where
  "webhook_source src \<longleftrightarrow> src = ''webhook'' \<or> src = ''github''"

definition unsupported_source :: "string \<Rightarrow> string" where
  "unsupported_source src = ''unsupported source '' @ src @ '' (use webhook or github)''"

definition new_trigger :: "create_trigger_request \<Rightarrow> (string, trigger) res" where
  "new_trigger req =
     (let name = trim_space (ct_Name req); agentRef = trim_space (ct_AgentRef req); source = trim_space (ct_Source req) in
      if name = [] \<or> agentRef = [] \<or> source = [] then Inl ''name, agentRef, and source are required''
      else if \<not> webhook_source source then Inl (unsupported_source source)
      else Inr \<lparr>tg_Name = name,
        tg_Spec = \<lparr>tr_AgentRef = agentRef, tr_Source = source, tr_ConnectionRef = ct_ConnectionRef req,
          tr_Filter = ct_Filter req, tr_Task = ct_Task req, tr_ChannelRef = trim_space (ct_ChannelRef req),
          tr_Suspend = ct_Suspend req\<rparr>,
        tg_Status = \<lparr>ts_WebhookPath = [], ts_LastFired = None, ts_LastRunID = [], ts_ConsecutiveFailures = 0,
          ts_DisabledReason = []\<rparr>\<rparr>)"

definition with_webhook :: "(string \<Rightarrow> string \<Rightarrow> string) \<Rightarrow> string \<Rightarrow> string \<Rightarrow> string \<Rightarrow> bool \<Rightarrow> trigger \<Rightarrow> trigger" where
  "with_webhook mac key cluster name stored trig =
     (let token = webhookToken mac key cluster name in
      if token \<noteq> [] \<and> stored then trig\<lparr>tg_Status := (tg_Status trig)\<lparr>ts_WebhookPath := webhookPath cluster name token\<rparr>\<rparr>
      else trig)"

definition applyTriggerCreate :: "(string \<Rightarrow> string \<Rightarrow> string) \<Rightarrow> string \<Rightarrow> string \<Rightarrow> create_trigger_request \<Rightarrow>
    (trigger \<Rightarrow> (string, trigger) res) \<Rightarrow> bool \<Rightarrow> (string, trigger) res" where
  "applyTriggerCreate mac key cluster req create stored =
     (case new_trigger req of Inl err \<Rightarrow> Inl err | Inr trig \<Rightarrow>
      (case create trig of Inl err \<Rightarrow> Inl err | Inr out \<Rightarrow>
       if cluster \<noteq> [] then Inr (with_webhook mac key cluster (tg_Name trig) stored out) else Inr out))"

record update_trigger_request =
  ut_Task :: "string option"
  ut_Source :: "string option"
  ut_ConnectionRef :: "string option"
  ut_Filter :: "(string, string) gomap option"
  ut_Suspend :: "bool option"
  ut_ChannelRef :: "string option"

text \<open>A field that is absent leaves the value as it is.\<close>

definition patch_with :: "'a option \<Rightarrow> 'a \<Rightarrow> 'a" where
  "patch_with field old = (case field of None \<Rightarrow> old | Some v \<Rightarrow> v)"

definition patch_trigger :: "update_trigger_request \<Rightarrow> trigger_spec \<Rightarrow> (string, trigger_spec) res" where
  "patch_trigger req spec =
     (let spec1 = spec\<lparr>tr_Task := patch_with (ut_Task req) (tr_Task spec),
            tr_ConnectionRef := patch_with (map_option trim_space (ut_ConnectionRef req)) (tr_ConnectionRef spec),
            tr_Filter := patch_with (ut_Filter req) (tr_Filter spec),
            tr_Suspend := patch_with (ut_Suspend req) (tr_Suspend spec),
            tr_ChannelRef := patch_with (map_option trim_space (ut_ChannelRef req)) (tr_ChannelRef spec)\<rparr>
      in case ut_Source req of None \<Rightarrow> Inr spec1
         | Some raw \<Rightarrow> (let src = trim_space raw in
             if webhook_source src then Inr (spec1\<lparr>tr_Source := src\<rparr>) else Inl (unsupported_source src)))"

definition applyTriggerUpdate :: "(string \<Rightarrow> string \<Rightarrow> string) \<Rightarrow> string \<Rightarrow> string \<Rightarrow> string \<Rightarrow> update_trigger_request \<Rightarrow>
    (string \<Rightarrow> (string, trigger) res) \<Rightarrow> (trigger \<Rightarrow> (string, trigger) res) \<Rightarrow> bool \<Rightarrow> (string, trigger) res" where
  "applyTriggerUpdate mac key cluster name0 req get update stored =
     (let name = trim_space name0 in
      case get name of Inl err \<Rightarrow> Inl err | Inr trig \<Rightarrow>
      (case patch_trigger req (tg_Spec trig) of Inl err \<Rightarrow> Inl err | Inr spec \<Rightarrow>
       (case update (trig\<lparr>tg_Spec := spec\<rparr>) of Inl err \<Rightarrow> Inl err | Inr out \<Rightarrow>
        if webhook_source (tr_Source (tg_Spec out)) \<and> ts_WebhookPath (tg_Status out) = [] \<and> cluster \<noteq> []
        then Inr (with_webhook mac key cluster name stored out)
        else if \<not> webhook_source (tr_Source (tg_Spec out)) \<and> ts_WebhookPath (tg_Status out) \<noteq> [] \<and> stored
        then Inr (out\<lparr>tg_Status := (tg_Status out)\<lparr>ts_WebhookPath := []\<rparr>\<rparr>)
        else Inr out)))"

subsection \<open>Creating and updating schedules\<close>

record create_schedule_request =
  cs_Name :: string
  cs_AgentRef :: string
  cs_Type :: string
  cs_Schedule :: string
  cs_TimeZone :: string
  cs_RunAt :: string
  cs_Task :: string
  cs_Checklist :: string
  cs_Suspend :: bool
  cs_ChannelRef :: string

text \<open>The validated object: its name and spec. \<open>parse\<close> is \<open>time.Parse\<close> with the RFC 3339 layout.\<close>

definition applyScheduleCreate :: "(string \<Rightarrow> (string, gotime) res) \<Rightarrow> create_schedule_request \<Rightarrow> (string, string \<times> sched_spec) res" where
  "applyScheduleCreate parse req =
     (let name = trim_space (cs_Name req); agentRef = trim_space (cs_AgentRef req); ty = trim_space (cs_Type req);
          spec = \<lparr>sp_AgentRef = agentRef, sp_Type = ty, sp_Schedule = cs_Schedule req, sp_TimeZone = cs_TimeZone req,
            sp_RunAt = None, sp_Task = cs_Task req, sp_ChannelRef = trim_space (cs_ChannelRef req),
            sp_Checklist = cs_Checklist req, sp_Suspend = cs_Suspend req, sp_Retry = None\<rparr> in
      if name = [] \<or> agentRef = [] \<or> ty = [] then Inl ''name, agentRef, and type are required''
      else if (ty = ''cron'' \<or> ty = ''heartbeat'') \<and> blank (cs_Schedule req)
      then Inl ''a cron schedule is required for cron/heartbeat types''
      else if ty = ''wakeup'' \<and> blank (cs_RunAt req) then Inl ''runAt is required for wakeup type''
      else if ty \<noteq> ''cron'' \<and> ty \<noteq> ''heartbeat'' \<and> ty \<noteq> ''wakeup'' then Inl ''type must be cron, wakeup, or heartbeat''
      else if cs_RunAt req \<noteq> [] then
        (case parse (cs_RunAt req) of
           Inl err \<Rightarrow> Inl (''runAt must be RFC3339 (e.g. 2026-07-13T09:00:00Z): '' @ err)
         | Inr t \<Rightarrow> Inr (name, spec\<lparr>sp_RunAt := Some t\<rparr>))
      else Inr (name, spec))"

record update_schedule_request =
  us_Schedule :: "string option"
  us_TimeZone :: "string option"
  us_RunAt :: "string option"
  us_Task :: "string option"
  us_Checklist :: "string option"
  us_Suspend :: "bool option"
  us_ChannelRef :: "string option"

definition patch_schedule :: "(string \<Rightarrow> (string, gotime) res) \<Rightarrow> update_schedule_request \<Rightarrow> sched_spec \<Rightarrow> (string, sched_spec) res" where
  "patch_schedule parse req spec =
     (let spec1 = spec\<lparr>sp_Schedule := patch_with (map_option trim_space (us_Schedule req)) (sp_Schedule spec),
            sp_TimeZone := patch_with (map_option trim_space (us_TimeZone req)) (sp_TimeZone spec),
            sp_Task := patch_with (us_Task req) (sp_Task spec),
            sp_Checklist := patch_with (us_Checklist req) (sp_Checklist spec),
            sp_Suspend := patch_with (us_Suspend req) (sp_Suspend spec),
            sp_ChannelRef := patch_with (map_option trim_space (us_ChannelRef req)) (sp_ChannelRef spec)\<rparr>
      in case us_RunAt req of None \<Rightarrow> Inr spec1
         | Some raw \<Rightarrow> (let v = trim_space raw in
             if v \<noteq> [] then (case parse v of Inl err \<Rightarrow> Inl (''runAt must be RFC3339: '' @ err)
                                        | Inr t \<Rightarrow> Inr (spec1\<lparr>sp_RunAt := Some t\<rparr>))
             else Inr (spec1\<lparr>sp_RunAt := None\<rparr>)))"

text \<open>The object that is written back: the status is the one that was read.\<close>

definition applyScheduleUpdate :: "(string \<Rightarrow> (string, gotime) res) \<Rightarrow> string \<Rightarrow> update_schedule_request \<Rightarrow>
    (string \<Rightarrow> (string, source_object) res) \<Rightarrow> (source_object \<Rightarrow> (string, source_object) res) \<Rightarrow> (string, source_object) res" where
  "applyScheduleUpdate parse name req get update =
     (case get (trim_space name) of Inl err \<Rightarrow> Inl err | Inr sched \<Rightarrow>
      (case patch_schedule parse req (so_Spec sched) of Inl err \<Rightarrow> Inl err | Inr spec \<Rightarrow>
       update (sched\<lparr>so_Spec := spec\<rparr>)))"

text \<open>
  What the validation lets through can be scheduled: the only permanent errors that a created
  schedule can meet are those of its time zone and its cron expression, so that a wakeup always has a
  fire time and a type is always known.
\<close>

theorem created_schedule_is_valid:
  assumes "applyScheduleCreate parse req = Inr (name, spec)" "scheduleDue lib spec status now = Inl err"
  shows "(sp_Type spec = ''cron'' \<or> sp_Type spec = ''heartbeat'') \<and>
    (isl (schedule_location lib spec) \<or> isl (cl_ParseStandard lib (sp_Schedule spec)))"
proof -
  have ty: "sp_Type spec = ''cron'' \<or> sp_Type spec = ''heartbeat'' \<or> sp_Type spec = ''wakeup'' \<and> sp_RunAt spec \<noteq> None"
    using assms(1) by (auto simp: applyScheduleCreate_def Let_def blank_def split: if_splits sum.splits)
  show ?thesis using assms(2) ty by (auto simp: scheduleDue_def Let_def split: sum.splits option.splits if_splits)
qed


subsection \<open>Examples\<close>

definition ex_trigger :: trigger where
  "ex_trigger = \<lparr>tg_Name = ''deploy'',
     tg_Spec = \<lparr>tr_AgentRef = ''helper'', tr_Source = ''github'', tr_ConnectionRef = [],
       tr_Filter = [(''eventType'', ''push''), (''labels'', ''bug'')], tr_Task = ''Review'', tr_ChannelRef = [], tr_Suspend = False\<rparr>,
     tg_Status = \<lparr>ts_WebhookPath = [], ts_LastFired = None, ts_LastRunID = [], ts_ConsecutiveFailures = 0,
       ts_DisabledReason = []\<rparr>\<rparr>"

definition ex_hook :: webhook_env where
  "ex_hook = \<lparr>we_Mac = (\<lambda>k m. k @ m), we_Fold = (=), we_Key = ''k'', we_Ready = True, we_ScopedError = (\<lambda>c. None),
     we_Trigger = (\<lambda>c n. Some ex_trigger), we_UnixNano = 7\<rparr>"

definition ex_delivery :: http_request where
  "ex_delivery = \<lparr>rq_Header = (\<lambda>h. if h = ''X-GitHub-Event'' then ''push'' else []), rq_Body = []\<rparr>"

lemma ex_text: "\<not> blank ''Review''" "trim_space ''push'' = ''push''" "trim_space ''bug'' = ''bug''"
  by code_simp+

lemma ex_admitted: "admits ex_hook ''c1'' ''deploy'' ''kc1/deploy'' ex_delivery ex_trigger"
  by (simp add: admits_def ex_hook_def ex_trigger_def ex_delivery_def entry_passes_def event_task_def webhookEventType_def
      ex_text trim_space_Nil)

theorem webhook_fires_iff_admitted_witness:
  "ip_Jobs (snd (webhookTrigger ex_hook ''c1'' ''deploy'' ''kc1/deploy'' ex_delivery (Start NewInProcess))) =
     [event_job ex_hook ''c1'' ''deploy'' ex_trigger []]"
  using webhook_fires_iff_admitted [of ex_hook "''c1''" "''deploy''" "''kc1/deploy''" ex_delivery "Start NewInProcess"] ex_admitted
  by (simp add: Start_def NewInProcess_def ex_delivery_def)

definition ex_create :: create_schedule_request where
  "ex_create = \<lparr>cs_Name = ''daily'', cs_AgentRef = ''helper'', cs_Type = ''cron'', cs_Schedule = ''never'', cs_TimeZone = [],
     cs_RunAt = [], cs_Task = [], cs_Checklist = [], cs_Suspend = False, cs_ChannelRef = []\<rparr>"

definition strict_lib :: "(unit, unit) cron_lib" where
  "strict_lib = \<lparr>cl_UTC = (), cl_LoadLocation = (\<lambda>tz. Inr ()), cl_ParseStandard = (\<lambda>e. Inl ''bad''), cl_Next = (\<lambda>e l t. t + 1),
     cl_Quote = (\<lambda>s. s)\<rparr>"

lemma ex_names: "trim_space ''daily'' = ''daily''" "trim_space ''helper'' = ''helper''" "trim_space ''cron'' = ''cron''" "\<not> blank ''never''"
  by code_simp+

theorem created_schedule_is_valid_witness:
  "isl (cl_ParseStandard strict_lib (sp_Schedule (snd (projr (applyScheduleCreate (\<lambda>s. Inl s) ex_create)))))"
proof -
  obtain spec where spec: "applyScheduleCreate (\<lambda>s. Inl s) ex_create = Inr (''daily'', spec)" "sp_Type spec = ''cron''"
    "sp_TimeZone spec = []" "sp_Schedule spec = ''never''"
    by (simp add: applyScheduleCreate_def ex_create_def ex_names)
  then have "scheduleDue strict_lib spec undefined 0 = Inl (''invalid cron never: bad'')"
    by (simp add: scheduleDue_def schedule_location_def strict_lib_def trim_space_Nil)
  from created_schedule_is_valid [OF spec(1) this] spec show ?thesis
    by (simp add: schedule_location_def strict_lib_def trim_space_Nil)
qed

end
