(* ===== verification/Go_Time.thy ===== *)
theory Go_Time
  imports Go_Json_Struct
begin

section \<open>Reading a time\<close>

text \<open>
  \<open>parseRFC3339\<close> of the package \<open>time\<close>: what \<open>UnmarshalJSON\<close> accepts, and what \<open>time.Parse\<close> with the layout
  \<open>RFC3339Nano\<close> tries first. The forms beyond RFC 3339 that \<open>time.Parse\<close> also takes (an hour of one digit,
  a comma before the fraction) are not read. A time that \<open>rfc3339_nano\<close> wrote is read back exactly.
\<close>

subsection \<open>Parsing\<close>

definition isLeap :: "int \<Rightarrow> bool" where
  "isLeap y \<longleftrightarrow> y mod 4 = 0 \<and> (y mod 100 \<noteq> 0 \<or> y mod 400 = 0)"

definition daysIn :: "int \<Rightarrow> int \<Rightarrow> int" where
  "daysIn m y = (if m = 2 then (if isLeap y then 29 else 28) else if m \<in> {4, 6, 9, 11} then 30 else 31)"

text \<open>The days since 0001-01-01 of a date, the inverse of \<open>civil\<close>.\<close>

definition days_of_civil :: "int \<Rightarrow> int \<Rightarrow> int \<Rightarrow> int" where
  "days_of_civil y m d =
     (let y' = (if m \<le> 2 then y - 1 else y); era = y' div 400; yoe = y' mod 400;
          doy = (153 * (if m > 2 then m - 3 else m + 9) + 2) div 5 + d - 1
      in era * 146097 + (365 * yoe + yoe div 4 - yoe div 100) + doy - 306)"

definition parse_uint :: "int \<Rightarrow> int \<Rightarrow> string \<Rightarrow> int option" where
  "parse_uint lo hi s = (if list_all is_digit s \<and> lo \<le> int (read_nat s) \<and> int (read_nat s) \<le> hi then Some (int (read_nat s)) else None)"

text \<open>Digits after the ninth do not count.\<close>

definition parse_nanos :: "string \<Rightarrow> int" where
  "parse_nanos ds = int (read_nat (take 9 ds)) * 10 ^ (9 - length (take 9 ds))"

definition parse_zone :: "string \<Rightarrow> int option" where
  "parse_zone s =
     (if s = ''Z'' then Some 0
      else if length s = 6 \<and> (s ! 0 = CHR ''-'' \<or> s ! 0 = CHR ''+'') \<and> s ! 3 = CHR '':'' then
        (case (parse_uint 0 23 (take 2 (drop 1 s)), parse_uint 0 59 (drop 4 s)) of
           (Some h, Some m) \<Rightarrow> Some ((if s ! 0 = CHR ''-'' then - 1 else 1) * (h * 60 + m) * 60)
         | _ \<Rightarrow> None)
      else None)"

definition parse_fraction :: "string \<Rightarrow> int \<times> string" where
  "parse_fraction s =
     (case s of c # r \<Rightarrow> if c = CHR ''.'' \<and> takeWhile is_digit r \<noteq> [] then (parse_nanos (takeWhile is_digit r), dropWhile is_digit r)
        else (0, s) | [] \<Rightarrow> (0, []))"

definition parse_clock :: "int \<Rightarrow> string \<Rightarrow> gotime option" where
  "parse_clock days s =
     (case (parse_uint 0 23 (take 2 s), parse_uint 0 59 (take 2 (drop 3 s)), parse_uint 0 59 (take 2 (drop 6 s))) of
        (Some h, Some m, Some sec) \<Rightarrow>
          (case parse_fraction (drop 8 s) of (ns, r) \<Rightarrow>
             map_option (\<lambda>offset. (days * 86400 + h * 3600 + m * 60 + sec - offset) * 10 ^ 9 + ns) (parse_zone r))
      | _ \<Rightarrow> None)"

definition parse_rfc3339 :: "string \<Rightarrow> gotime option" where
  "parse_rfc3339 s =
     (if length s < 19 \<or> \<not> (s ! 4 = CHR ''-'' \<and> s ! 7 = CHR ''-'' \<and> s ! 10 = CHR ''T'' \<and> s ! 13 = CHR '':'' \<and> s ! 16 = CHR '':'') then None
      else (case (parse_uint 0 9999 (take 4 s), parse_uint 1 12 (take 2 (drop 5 s))) of
        (Some y, Some m) \<Rightarrow>
          (case parse_uint 1 (daysIn m y) (take 2 (drop 8 s)) of
             Some d \<Rightarrow> parse_clock (days_of_civil y m d) (drop 11 s) | None \<Rightarrow> None)
      | _ \<Rightarrow> None))"

lemma parse_rfc3339_samples:
  "parse_rfc3339 ''0001-01-01T00:00:00Z'' = Some 0"
  "parse_rfc3339 ''2025-12-31T23:59:59.12Z'' = Some (63902822399 * 10 ^ 9 + 120000000)"
  "parse_rfc3339 ''2026-01-01T01:59:59.12+02:00'' = Some (63902822399 * 10 ^ 9 + 120000000)"
  "parse_rfc3339 ''2025-02-29T00:00:00Z'' = None" "parse_rfc3339 ''2025-12-31T24:00:00Z'' = None"
  by code_simp+

subsection \<open>The calendar\<close>

definition year_start :: "int \<Rightarrow> int" where
  "year_start y = 365 * y + y div 4 - y div 100 + y div 400"

definition year_day :: "int \<Rightarrow> int" where
  "year_day n = n - n div 1460 + n div 36524 - n div 146096"

lemma div_succ: "0 < k \<Longrightarrow> n div k \<le> (n + 1) div k \<and> (n + 1) div k \<le> n div k + (1 :: int)"
  using zdiv_mono1 [of n "n + 1" k] zdiv_mono1 [of "n + 1" "n + k" k] div_add_self2 [of k n] by simp

lemma year_day_step: "year_day n \<le> year_day (n + 1)"
proof -
  have q: "m div 146096 = m div 36524 div 4" for m :: int by (simp only: zdiv_zmult2_eq [symmetric]) simp
  define a b where "a = n div 36524" and "b = (n + 1) div 36524"
  have "a \<le> b" "b \<le> a + 1" using div_succ [of 36524 n] by (simp_all add: a_def b_def)
  then have "a - a div 4 \<le> b - b div 4" by presburger
  then show ?thesis using div_succ [of 1460 n] unfolding year_day_def q a_def b_def by linarith
qed

lemma year_day_mono: "n \<le> m \<Longrightarrow> year_day n \<le> year_day m"
  by (induction rule: int_ge_induct) (auto intro: order_trans year_day_step)

lemma years_checked:
  "list_all (\<lambda>y. year_day (year_start y) div 365 = y \<and> year_day (year_start (y + 1) - 1) div 365 = y \<and>
     year_start (y + 1) - year_start y = 365 + (if isLeap (y + 1) then 1 else 0)) [0..399]"
  by code_simp

lemma year_found: "0 \<le> n \<Longrightarrow> doe < year_start n \<Longrightarrow> 0 \<le> doe \<Longrightarrow> \<exists>y. 0 \<le> y \<and> y < n \<and> year_start y \<le> doe \<and> doe < year_start (y + 1)"
proof (induction n rule: int_ge_induct)
  case base then show ?case by (simp add: year_start_def)
next
  case (step n) then show ?case by (cases "doe < year_start n") fastforce+
qed

lemma year_of_cycle:
  assumes "0 \<le> doe" "doe < 146097"
  obtains y where "0 \<le> y" "y < 400" "(doe - doe div 1460 + doe div 36524 - doe div 146096) div 365 = y"
    "year_start y = 365 * y + y div 4 - y div 100" "0 \<le> doe - year_start y" "doe - year_start y \<le> 365"
    "doe - year_start y = 365 \<Longrightarrow> isLeap (y + 1)"
proof -
  have "doe < year_start 400" using assms(2) by (simp add: year_start_def)
  then obtain y where y: "0 \<le> y" "y < 400" "year_start y \<le> doe" "doe < year_start (y + 1)"
    using year_found [of 400 doe] assms(1) by auto
  then have "y \<in> set [0..399]" by simp
  note c = years_checked [unfolded list_all_iff, THEN bspec, OF this]
  have "year_day (year_start y) div 365 \<le> year_day doe div 365"
    "year_day doe div 365 \<le> year_day (year_start (y + 1) - 1) div 365"
    using y by (intro zdiv_mono1 year_day_mono; simp)+
  then have f: "year_day doe div 365 = y" using c by linarith
  have e: "year_start y = 365 * y + y div 4 - y div 100" using y(1,2) by (simp add: year_start_def)
  have len: "year_start (y + 1) - year_start y = 365 + (if isLeap (y + 1) then 1 else 0)" using c by blast
  show ?thesis
  proof (rule that [OF y(1,2) f [unfolded year_day_def] e])
    show "0 \<le> doe - year_start y" "doe - year_start y \<le> 365" using y(3,4) len by (simp_all split: if_splits)
    show "isLeap (y + 1)" if "doe - year_start y = 365" using y(4) len that by (simp split: if_splits)
  qed
qed

text \<open>Month and day of a day of the year that starts in March.\<close>

lemma months_checked:
  "list_all (\<lambda>doy. let mp = (5 * doy + 2) div 153; d = doy - (153 * mp + 2) div 5 + 1; m = (if mp < 10 then mp + 3 else mp - 9) in
     0 \<le> mp \<and> mp \<le> 11 \<and> (mp < 10) = (doy < 306) \<and> 1 \<le> d \<and>
     d \<le> (if m = 2 then (if doy = 365 then 29 else 28) else if m \<in> {4, 6, 9, 11} then 30 else 31)) [0..365 :: int]"
  by code_simp

lemma month_of_day:
  assumes "0 \<le> doy" "doy \<le> 365" and mp: "mp = (5 * doy + 2) div 153" and d: "d = doy - (153 * mp + 2) div 5 + 1"
    and m: "m = (if mp < 10 then mp + 3 else mp - 9)"
  shows "0 \<le> mp" "mp \<le> 11" "(mp < 10) = (doy < 306)" "1 \<le> d" "doy = 365 \<longrightarrow> isLeap y \<Longrightarrow> d \<le> daysIn m y"
proof -
  have "doy \<in> set [0..365]" using assms(1,2) by simp
  note c = months_checked [unfolded list_all_iff Let_def, THEN bspec, OF this, folded mp, folded d, folded m]
  show "0 \<le> mp" "mp \<le> 11" "(mp < 10) = (doy < 306)" "1 \<le> d" using c by blast+
  have "d \<le> (if m = 2 then (if doy = 365 then 29 else 28) else if m \<in> {4, 6, 9, 11} then 30 else 31)" using c by blast
  then show "d \<le> daysIn m y" if "doy = 365 \<longrightarrow> isLeap y"
    unfolding daysIn_def using that by (cases "m = 2") (simp_all split: if_splits)
qed

lemma isLeap_cycle: "isLeap (y + era * 400) = isLeap y"
proof -
  have "(y + era * 400) mod 4 = y mod 4" "(y + era * 400) mod 100 = y mod 100" "(y + era * 400) mod 400 = y mod 400"
    using mod_mult_self1 [of y "era * 100" 4] mod_mult_self1 [of y "era * 4" 100] by (simp_all add: mult.assoc)
  then show ?thesis by (simp add: isLeap_def)
qed

lemma civil_inverse:
  assumes "civil days = (y, m, d)"
  shows "days_of_civil y m d = days" "1 \<le> m" "m \<le> 12" "1 \<le> d" "d \<le> daysIn m y"
    "- 366 \<le> days \<Longrightarrow> days < 3652059 \<Longrightarrow> 0 \<le> y \<and> y \<le> 9999"
proof -
  define era doe where "era = (days + 306) div 146097" and "doe = (days + 306) mod 146097"
  have doe: "0 \<le> doe" "doe < 146097" "days + 306 = era * 146097 + doe" by (simp_all add: doe_def era_def)
  obtain n where n0: "0 \<le> n" and n: "n < 400" "(doe - doe div 1460 + doe div 36524 - doe div 146096) div 365 = n"
    "year_start n = 365 * n + n div 4 - n div 100" "0 \<le> doe - year_start n" "doe - year_start n \<le> 365"
    "doe - year_start n = 365 \<Longrightarrow> isLeap (n + 1)" using year_of_cycle [OF doe(1,2)] by blast
  define doy mp where "doy = doe - year_start n" and "mp = (5 * doy + 2) div 153"
  have eq: "m = (if mp < 10 then mp + 3 else mp - 9)" "d = doy - (153 * mp + 2) div 5 + 1"
    "y = n + era * 400 + (if m \<le> 2 then 1 else 0)"
    using assms unfolding civil_def Let_def era_def [symmetric] doe_def [symmetric] n(2) n(3) [symmetric] doy_def [symmetric] mp_def [symmetric]
    by auto
  note mo = month_of_day [OF n(4,5) [folded doy_def] mp_def eq(2,1)]
  have small: "m \<le> 2 \<longleftrightarrow> \<not> mp < 10" using eq(1) mo(1,2) by auto
  have y': "(if m \<le> 2 then y - 1 else y) = n + era * 400" using eq(3) by simp
  have cyc: "(n + era * 400) div 400 = era" "(n + era * 400) mod 400 = n" using n0 n(1) by simp_all
  have "(if m > 2 then m - 3 else m + 9) = mp" using eq(1) small mo(1,2) by auto
  then show "days_of_civil y m d = days"
    using doe(3) n(3) eq(2) unfolding days_of_civil_def Let_def y' cyc by (simp add: doy_def)
  show "1 \<le> m" "m \<le> 12" "1 \<le> d" using eq mo by auto
  have "isLeap y" if "doy = 365"
  proof -
    have "y = n + 1 + era * 400" using eq(3) small mo(3) that by simp
    then show ?thesis using n(6) that isLeap_cycle [of "n + 1" era] by (simp add: doy_def)
  qed
  then show "d \<le> daysIn m y" using mo(5) by blast
  show "0 \<le> y \<and> y \<le> 9999" if range: "- 366 \<le> days" "days < 3652059"
  proof -
    have "- 1 \<le> era" "era \<le> 24" using doe range by linarith+
    then consider "era = - 1" | "0 \<le> era" "era \<le> 23" | "era = 24" by linarith
    then show ?thesis
    proof cases
      case 1
      then have "146037 \<le> doe" using doe(3) range by simp
      moreover have "year_start n \<le> 145731" using n(1,3) by linarith
      moreover have "n \<noteq> 399 \<Longrightarrow> year_start n \<le> 145366" using n(1,3) by linarith
      ultimately have "n = 399" "306 \<le> doy" using n(5) by (auto simp: doy_def)
      then show ?thesis using eq(3) small mo(3) 1 by simp
    next
      case 2 then show ?thesis using eq(3) n0 n(1) by auto
    next
      case 3
      then have "doe \<le> 146036" using doe(3) range by simp
      then have "n = 399 \<Longrightarrow> doy < 306" using n(3) by (simp add: doy_def)
      then show ?thesis using eq(3) small mo(3) 3 n0 n(1) by (cases "n = 399") auto
    qed
  qed
qed

subsection \<open>Reading back what was written\<close>

lemma length_decimal [simp]: "length (decimal w n) = w"
  by (induction w arbitrary: n) auto

lemma read_nat_snoc: "read_nat (s @ [c]) = 10 * read_nat s + (of_char c - 48)"
  by (simp add: read_nat_def)

lemma decimal_read: "0 \<le> n \<Longrightarrow> n < 10 ^ w \<Longrightarrow> list_all is_digit (decimal w n) \<and> int (read_nat (decimal w n)) = n"
proof (induction w arbitrary: n)
  case 0 then show ?case by (simp add: read_nat_def)
next
  case (Suc w)
  have "0 \<le> n div 10" "n div 10 < 10 ^ w" using Suc.prems by auto
  note IH = Suc.IH [OF this]
  obtain k :: nat where k: "n mod 10 = int k" "k < 10"
    using pos_mod_bound [of 10 n] pos_mod_sign [of 10 n] by (metis nat_0_le nat_less_iff of_nat_numeral zero_less_numeral)
  have "(48 :: int) + n mod 10 = int (48 + k)" using k(1) by simp
  then have c: "char_of (48 + n mod 10) = (char_of (48 + k) :: char)" by (simp only: char_of_nat)
  have v: "of_char (char_of (48 + k) :: char) - 48 = k" using k(2) by simp
  have "int (read_nat (decimal (Suc w) n)) = 10 * (n div 10) + int k"
    unfolding decimal.simps c read_nat_snoc v using IH by simp
  moreover have "10 * (n div 10) + int k = n" using k(1) by presburger
  ultimately show ?case using IH digit_facts(1) [OF k(2)] c by (simp del: char_of_def)
qed

lemma parse_uint_decimal:
  "0 \<le> n \<Longrightarrow> n < 10 ^ w \<Longrightarrow> lo \<le> n \<Longrightarrow> n \<le> hi \<Longrightarrow> parse_uint lo hi (decimal w n) = Some n"
  using decimal_read [of n w] by (simp add: parse_uint_def)

lemma read_nat_zeros: "read_nat (s @ replicate k CHR ''0'') = read_nat s * 10 ^ k"
proof (induction k)
  case (Suc k)
  have "s @ replicate (Suc k) CHR ''0'' = (s @ replicate k CHR ''0'') @ [CHR ''0'']" by (simp add: replicate_append_same)
  then show ?case using Suc by (simp only: read_nat_snoc) simp
qed simp

lemma drop_zeros_split: "\<exists>k. s = drop_zeros s @ replicate k CHR ''0''"
proof -
  have "takeWhile (\<lambda>c. c = CHR ''0'') (rev s) = replicate (length (takeWhile (\<lambda>c. c = CHR ''0'') (rev s))) CHR ''0''"
    by (rule replicate_length_same [symmetric]) (auto dest: set_takeWhileD)
  then have "s = drop_zeros s @ replicate (length (takeWhile (\<lambda>c. c = CHR ''0'') (rev s))) CHR ''0''"
    unfolding drop_zeros_def by (metis rev_append rev_replicate rev_rev_ident takeWhile_dropWhile_id)
  then show ?thesis by blast
qed

lemma parse_fraction_written:
  assumes "0 \<le> n" "n < 10 ^ 9"
  shows "parse_fraction ((if n = 0 then [] else ''.'' @ drop_zeros (decimal 9 n)) @ ''Z'') = (n, ''Z'')"
proof (cases "n = 0")
  case True then show ?thesis by (simp add: parse_fraction_def)
next
  case False
  obtain k where k: "decimal 9 n = drop_zeros (decimal 9 n) @ replicate k CHR ''0''" using drop_zeros_split by blast
  let ?d = "drop_zeros (decimal 9 n)"
  have len: "length ?d + k = 9" using arg_cong [OF k, of length] by simp
  have rd: "int (read_nat ?d) * 10 ^ k = n"
    using decimal_read [OF assms] arg_cong [OF k, of read_nat] by (simp add: read_nat_zeros)
  have digits: "list_all is_digit ?d" using decimal_read [OF assms] k by (metis list_all_append)
  have "?d \<noteq> []" using rd False by (auto simp: read_nat_def)
  moreover have "\<not> is_digit CHR ''Z''" by code_simp
  then have "takeWhile is_digit (?d @ ''Z'') = ?d" "dropWhile is_digit (?d @ ''Z'') = ''Z''"
    using digits by (simp_all add: list_all_iff takeWhile_append dropWhile_append)
  moreover have "9 - length ?d = k" "length ?d \<le> 9" using len by simp_all
  ultimately show ?thesis using False rd by (simp add: parse_fraction_def parse_nanos_def)
qed

text \<open>Fields of fixed width, with a separator after each.\<close>

lemma date_layout:
  assumes "length a = 4" "length b = 2" "length c = 2" "length h = 2" "length m = 2"
    and s: "s = a @ ''-'' @ b @ ''-'' @ c @ ''T'' @ h @ '':'' @ m @ '':'' @ r"
  shows "take 4 s = a" "take 2 (drop 5 s) = b" "take 2 (drop 8 s) = c" "drop 11 s = h @ '':'' @ m @ '':'' @ r"
    "s ! 4 = CHR ''-''" "s ! 7 = CHR ''-''" "s ! 10 = CHR ''T''" "s ! 13 = CHR '':''" "s ! 16 = CHR '':''" "length s = 17 + length r"
proof -
  obtain a0 a1 a2 a3 b0 b1 c0 c1 h0 h1 m0 m1 where "a = [a0, a1, a2, a3]" "b = [b0, b1]" "c = [c0, c1]" "h = [h0, h1]" "m = [m0, m1]"
    using assms(1-5) by (auto simp: length_Suc_conv eval_nat_numeral)
  then show "take 4 s = a" "take 2 (drop 5 s) = b" "take 2 (drop 8 s) = c" "drop 11 s = h @ '':'' @ m @ '':'' @ r"
    "s ! 4 = CHR ''-''" "s ! 7 = CHR ''-''" "s ! 10 = CHR ''T''" "s ! 13 = CHR '':''" "s ! 16 = CHR '':''" "length s = 17 + length r"
    unfolding s by simp_all
qed

lemma parse_layout:
  assumes "length a = 4" "length b = 2" "length c = 2" "length h = 2" "length m = 2"
    and "s = a @ ''-'' @ b @ ''-'' @ c @ ''T'' @ h @ '':'' @ m @ '':'' @ r" "2 \<le> length r"
    and "parse_uint 0 9999 a = Some y" "parse_uint 1 12 b = Some mo" "parse_uint 1 (daysIn mo y) c = Some d"
  shows "parse_rfc3339 s = parse_clock (days_of_civil y mo d) (h @ '':'' @ m @ '':'' @ r)"
  using assms(7-10) unfolding parse_rfc3339_def date_layout [OF assms(1-6)] by simp

lemma parse_clock_written:
  assumes "0 \<le> h" "h \<le> 23" "0 \<le> m" "m \<le> 59" "0 \<le> sec" "sec \<le> 59" "0 \<le> n" "n < 10 ^ 9"
  shows "parse_clock days (decimal 2 h @ '':'' @ decimal 2 m @ '':'' @ decimal 2 sec @
      (if n = 0 then [] else ''.'' @ drop_zeros (decimal 9 n)) @ ''Z'') = Some ((days * 86400 + h * 3600 + m * 60 + sec) * 10 ^ 9 + n)"
    (is "parse_clock days (?a @ '':'' @ ?b @ '':'' @ ?c @ ?f @ ''Z'') = _")
proof -
  let ?s = "?a @ '':'' @ ?b @ '':'' @ ?c @ ?f @ ''Z''"
  have "take 2 ?s = ?a" "take 2 (drop 3 ?s) = ?b" "take 2 (drop 6 ?s) = ?c" "drop 8 ?s = ?f @ ''Z''" by simp_all
  moreover have "parse_uint 0 23 ?a = Some h" "parse_uint 0 59 ?b = Some m" "parse_uint 0 59 ?c = Some sec"
    using assms by (simp_all add: parse_uint_decimal)
  moreover have "parse_zone ''Z'' = Some 0" by (simp add: parse_zone_def)
  ultimately show ?thesis using parse_fraction_written [OF assms(7,8)] unfolding parse_clock_def by simp
qed

lemma rfc3339_read_back:
  assumes "json_time_ok t"
  shows "parse_rfc3339 (rfc3339_nano t) = Some t"
proof -
  define n secs where "n = t mod 10 ^ 9" and "secs = t div 10 ^ 9"
  define days sod where "days = secs div 86400" and "sod = secs mod 86400"
  define h mi sec where "h = sod div 3600" and "mi = sod div 60 mod 60" and "sec = sod mod 60"
  obtain y m d where c: "civil days = (y, m, d)" by (metis prod_cases3)
  have n: "0 \<le> n" "n < 10 ^ 9" "t = secs * 10 ^ 9 + n" by (simp_all add: n_def secs_def)
  have sod: "0 \<le> sod" "sod < 86400" "secs = days * 86400 + sod" by (simp_all add: sod_def days_def)
  define q where "q = sod div 60"
  have "sod = 60 * q + sec" by (simp add: q_def sec_def)
  moreover have "h = q div 60" unfolding h_def q_def by (simp add: zdiv_zmult2_eq [symmetric])
  then have "q = 60 * h + mi" by (simp add: mi_def q_def)
  moreover have "0 \<le> sec" "sec \<le> 59" "0 \<le> mi" "mi \<le> 59"
    using pos_mod_bound [of 60 sod] pos_mod_bound [of 60 "sod div 60"] by (simp_all add: sec_def mi_def)
  ultimately have clock: "0 \<le> h" "h \<le> 23" "0 \<le> mi" "mi \<le> 59" "0 \<le> sec" "sec \<le> 59" "sod = h * 3600 + mi * 60 + sec"
    using sod(1,2) by linarith+
  have "- 366 * 86400 * 10 ^ 9 \<le> secs * 10 ^ 9 + n" "secs * 10 ^ 9 + n < 3652059 * 86400 * 10 ^ 9"
    using assms unfolding json_time_ok_def n(3) by blast+
  then have "- 366 * 86400 - 1 < secs" "secs < 3652059 * 86400" using n(1,2) by simp_all
  then have range: "- 366 \<le> days" "days < 3652059" using sod by simp_all
  note cv = civil_inverse [OF c]
  let ?c = "decimal 2 h @ '':'' @ decimal 2 mi @ '':'' @ decimal 2 sec @ (if n = 0 then [] else ''.'' @ drop_zeros (decimal 9 n)) @ ''Z''"
  have s: "rfc3339_nano t = decimal 4 y @ ''-'' @ decimal 2 m @ ''-'' @ decimal 2 d @ ''T'' @ ?c"
    unfolding rfc3339_nano_def Let_def n_def [symmetric] secs_def [symmetric] days_def [symmetric] sod_def [symmetric] c
      h_def [symmetric] mi_def [symmetric] sec_def [symmetric] by simp
  let ?s = "decimal 4 y @ ''-'' @ decimal 2 m @ ''-'' @ decimal 2 d @ ''T'' @ ?c"
  have "daysIn m y \<le> 31" by (simp add: daysIn_def)
  then have "d < 10 ^ 2" using cv(5) by simp
  then have "parse_uint 0 9999 (decimal 4 y) = Some y" "parse_uint 1 12 (decimal 2 m) = Some m"
    "parse_uint 1 (daysIn m y) (decimal 2 d) = Some d"
    using cv(2-5) cv(6) [OF range] by (simp_all add: parse_uint_decimal)
  then have "parse_rfc3339 ?s = parse_clock (days_of_civil y m d) ?c"
    by (intro parse_layout [OF length_decimal length_decimal length_decimal length_decimal length_decimal refl]) simp
  also have "\<dots> = Some t" using parse_clock_written [OF clock(1-6) n(1,2)] cv(1) clock(7) sod(3) n(3) by (simp add: algebra_simps)
  finally show ?thesis unfolding s .
qed

end
