(* ===== verification/Hub_Sessions.thy ===== *)
theory Hub_Sessions
  imports Faros_Prelude
begin

section \<open>Hub: browser sessions\<close>

text \<open>
  \<open>pkg/browsersession/session.go\<close>: the store that issues, resolves and revokes the opaque handle
  behind the portal's cookie, over a backend that keeps the records under a hash of the handle, and
  the process-local backend with its two bounded tables. The digest (\<open>sha256.Sum256\<close>) is an
  argument; the clock readings and the random draws of an operation are arguments too, a reading per
  call of \<open>now\<close>. The receivers are not nil, which \<open>New\<close> guarantees. An operation is one step: issuing a
  session asks the backend for the new handle and then stores it, two calls between which no other request acts here.
  Only another request that draws the same handle could tell the difference.
\<close>

subsection \<open>Records\<close>

record identity =
  id_UserID :: string
  id_Email :: string
  id_Name :: string
  id_RBACIdentity :: string
  id_Issuer :: string
  id_Subject :: string
  id_AuthType :: string

record session_record =
  rec_Identity :: identity
  rec_IssuedAt :: gotime
  rec_ExpiresAt :: gotime

record session =
  ses_ID :: string
  ses_Identity :: identity
  ses_IssuedAt :: gotime
  ses_ExpiresAt :: gotime

datatype session_error = ErrInvalid | ErrNotFound | ErrExpired | ErrRevoked
  | RandomFailed string | NoFreshHandle | BackendFailed string

text \<open>\<open>Backend\<close>: the clock reading of a call comes first.\<close>

record 'b session_backend =
  be_Put :: "gotime \<Rightarrow> string \<Rightarrow> session_record \<Rightarrow> 'b \<Rightarrow> (session_error, unit) res \<times> 'b"
  be_Get :: "gotime \<Rightarrow> string \<Rightarrow> 'b \<Rightarrow> (session_error, session_record) res \<times> 'b"
  be_Revoke :: "gotime \<Rightarrow> string \<Rightarrow> gotime \<Rightarrow> 'b \<Rightarrow> (session_error, unit) res \<times> 'b"

record session_config =
  st_ttl :: duration
  st_digest :: "string \<Rightarrow> string"

definition defaultTTL :: duration where "defaultTTL = 8 * 3600 * 10 ^ 9"
definition defaultMaxEntries :: int where "defaultMaxEntries = 10000"
definition maxIssueAttempts :: nat where "maxIssueAttempts = 8"

subsection \<open>Handles and keys\<close>

text \<open>\<open>base64.RawURLEncoding\<close>.\<close>

definition base64_digit :: "nat \<Rightarrow> char" where
  "base64_digit n = (if n < 26 then char_of (65 + n) else if n < 52 then char_of (97 + (n - 26))
     else if n < 62 then char_of (48 + (n - 52)) else if n = 62 then CHR ''-'' else CHR ''_'')"

fun base64url :: "string \<Rightarrow> string" where
  "base64url [] = []"
| "base64url [a] = (let n = of_char a * 16 in [base64_digit (n div 64), base64_digit (n mod 64)])"
| "base64url [a, b] = (let n = (of_char a * 256 + of_char b) * 4 in
     [base64_digit (n div 4096), base64_digit (n div 64 mod 64), base64_digit (n mod 64)])"
| "base64url (a # b # c # s) = (let n = of_char a * 65536 + of_char b * 256 + of_char c in
     base64_digit (n div 262144) # base64_digit (n div 4096 mod 64) # base64_digit (n div 64 mod 64) # base64_digit (n mod 64) # base64url s)"

definition tokenKey :: "session_config \<Rightarrow> string \<Rightarrow> string" where
  "tokenKey cfg raw = base64url (st_digest cfg raw)"

text \<open>A draw of the random source: the bytes, or the error of \<open>io.ReadFull\<close>.\<close>

definition randomSecret :: "(string, string) res \<Rightarrow> (session_error, string) res" where
  "randomSecret draw = (case draw of Inl e \<Rightarrow> Inl (RandomFailed e) | Inr bytes \<Rightarrow> Inr (base64url bytes))"

subsection \<open>The store\<close>

text \<open>What an attempt meets: the draw, and the backend's clock at its two calls.\<close>

type_synonym attempt = "(string, string) res \<times> gotime \<times> gotime"

fun issue_attempts ::
  "nat \<Rightarrow> 'b session_backend \<Rightarrow> session_config \<Rightarrow> identity \<Rightarrow> gotime \<Rightarrow> duration \<Rightarrow> (nat \<Rightarrow> attempt) \<Rightarrow> 'b \<Rightarrow>
   (session_error, string \<times> session) res \<times> 'b" where
  "issue_attempts 0 be cfg ident now ttl draws s = (Inl NoFreshHandle, s)"
| "issue_attempts (Suc n) be cfg ident now ttl draws s =
     (case draws 0 of (draw, tget, tput) \<Rightarrow>
       (case randomSecret draw of
          Inl e \<Rightarrow> (Inl e, s)
        | Inr raw \<Rightarrow>
            (case be_Get be tget (tokenKey cfg raw) s of (r, s1) \<Rightarrow>
               (if r = Inl ErrNotFound then
                  (let rc = \<lparr>rec_Identity = ident, rec_IssuedAt = now, rec_ExpiresAt = now + ttl\<rparr> in
                   case be_Put be tput (tokenKey cfg raw) rc s1 of
                     (Inl e, s2) \<Rightarrow> (Inl e, s2)
                   | (Inr _, s2) \<Rightarrow> (Inr (raw, \<lparr>ses_ID = raw, ses_Identity = ident, ses_IssuedAt = now, ses_ExpiresAt = now + ttl\<rparr>), s2))
                else if \<not> isl r \<or> r = Inl ErrRevoked \<or> r = Inl ErrExpired
                then issue_attempts n be cfg ident now ttl (\<lambda>i. draws (Suc i)) s1
                else (Inl (case r of Inl e \<Rightarrow> e | Inr _ \<Rightarrow> ErrInvalid), s1)))))"

definition issueWithTTL ::
  "'b session_backend \<Rightarrow> session_config \<Rightarrow> identity \<Rightarrow> gotime \<Rightarrow> duration \<Rightarrow> (nat \<Rightarrow> attempt) \<Rightarrow> 'b \<Rightarrow>
   (session_error, string \<times> session) res \<times> 'b" where
  "issueWithTTL be cfg ident now ttl draws s =
     (if blank (id_UserID ident) then (Inl ErrInvalid, s) else issue_attempts maxIssueAttempts be cfg ident now ttl draws s)"

definition Issue where
  "Issue be cfg ident now draws s = issueWithTTL be cfg ident now (st_ttl cfg) draws s"

definition IssueTransient where
  "IssueTransient be cfg ident now ttl draws s =
     (if ttl \<le> 0 \<or> ttl > st_ttl cfg then (Inl ErrInvalid, s) else issueWithTTL be cfg ident now ttl draws s)"

definition Resolve ::
  "'b session_backend \<Rightarrow> session_config \<Rightarrow> string \<Rightarrow> gotime \<Rightarrow> gotime \<Rightarrow> 'b \<Rightarrow> (session_error, session) res \<times> 'b" where
  "Resolve be cfg raw tget now s =
     (if blank raw then (Inl ErrNotFound, s)
      else (case be_Get be tget (tokenKey cfg raw) s of
              (Inl e, s1) \<Rightarrow> (Inl e, s1)
            | (Inr r, s1) \<Rightarrow>
                if \<not> now < rec_ExpiresAt r then (Inl ErrExpired, s1)
                else (Inr \<lparr>ses_ID = raw, ses_Identity = rec_Identity r, ses_IssuedAt = rec_IssuedAt r,
                        ses_ExpiresAt = rec_ExpiresAt r\<rparr>, s1)))"

definition Revoke ::
  "'b session_backend \<Rightarrow> session_config \<Rightarrow> string \<Rightarrow> gotime \<Rightarrow> gotime \<Rightarrow> 'b \<Rightarrow> (session_error, unit) res \<times> 'b" where
  "Revoke be cfg raw trev now s =
     (if blank raw then (Inr (), s) else be_Revoke be trev (tokenKey cfg raw) (now + st_ttl cfg) s)"

subsection \<open>The cookie\<close>

record cookie =
  ck_Name :: string
  ck_Value :: string
  ck_Path :: string
  ck_Secure :: bool
  ck_HttpOnly :: bool
  ck_SameSiteLax :: bool
  ck_MaxAge :: int

definition CookieName :: string where "CookieName = ''__Host-faros-session''"

definition setCookie :: "string \<Rightarrow> int \<Rightarrow> cookie" where
  "setCookie v maxAge = \<lparr>ck_Name = CookieName, ck_Value = v, ck_Path = ''/'', ck_Secure = True,
     ck_HttpOnly = True, ck_SameSiteLax = True, ck_MaxAge = maxAge\<rparr>"

definition IssueHTTP where
  "IssueHTTP be cfg ident now draws s =
     (case Issue be cfg ident now draws s of
        (Inl e, s1) \<Rightarrow> (Inl e, None, s1)
      | (Inr (v, ses), s1) \<Rightarrow>
          (let age = time_sub (ses_ExpiresAt ses) (ses_IssuedAt ses) div 10 ^ 9; maxAge = (if age < 1 then 1 else age)
           in (Inr ses, Some (setCookie v maxAge), s1)))"

text \<open>A request is its session cookie, if it has one.\<close>

definition ResolveRequest where
  "ResolveRequest be cfg request tget now s =
     (case request of None \<Rightarrow> (Inl ErrNotFound, s) | Some v \<Rightarrow> Resolve be cfg v tget now s)"

definition RevokeRequest where
  "RevokeRequest be cfg request trev now s =
     (setCookie [] (- 1), (case request of None \<Rightarrow> s | Some v \<Rightarrow> snd (Revoke be cfg v trev now s)))"

subsection \<open>The process-local backend\<close>

record memory_backend =
  mb_maxEntries :: int
  mb_sessions :: "(string, session_record) gomap"
  mb_revoked :: "(string, gotime) gomap"
  mb_revokedUnknown :: "(string, unit) gomap"

definition newMemoryBackend :: "int \<Rightarrow> memory_backend" where
  "newMemoryBackend maxEntries = \<lparr>mb_maxEntries = maxEntries, mb_sessions = [], mb_revoked = [], mb_revokedUnknown = []\<rparr>"

text \<open>The parts of \<open>New\<close>: its defaults.\<close>

definition New_ttl :: "duration \<Rightarrow> duration" where "New_ttl ttl = (if ttl \<le> 0 then defaultTTL else ttl)"

definition New_backend :: "int \<Rightarrow> memory_backend" where
  "New_backend maxEntries = newMemoryBackend (if maxEntries \<le> 0 then defaultMaxEntries else maxEntries)"

definition cleanupLocked :: "gotime \<Rightarrow> memory_backend \<Rightarrow> memory_backend" where
  "cleanupLocked now m = m\<lparr>
     mb_sessions := filter (\<lambda>(k, r). now < rec_ExpiresAt r) (mb_sessions m),
     mb_revoked := filter (\<lambda>(k, e). now < e) (mb_revoked m),
     mb_revokedUnknown := filter (\<lambda>(k, _). \<not> (\<exists>(k', e) \<in> set (mb_revoked m). k' = k \<and> \<not> now < e)) (mb_revokedUnknown m)\<rparr>"

fun oldest_session :: "(string, session_record) gomap \<Rightarrow> string \<Rightarrow> gotime \<Rightarrow> string" where
  "oldest_session [] oldestKey oldest = oldestKey"
| "oldest_session ((k, r) # m) oldestKey oldest =
     (if oldestKey = [] \<or> rec_IssuedAt r < oldest then oldest_session m k (rec_IssuedAt r)
      else oldest_session m oldestKey oldest)"

definition evictOldestLocked :: "memory_backend \<Rightarrow> memory_backend" where
  "evictOldestLocked m = (let k = oldest_session (mb_sessions m) [] 0 in
     if k \<noteq> [] then m\<lparr>mb_sessions := mdel k (mb_sessions m)\<rparr> else m)"

definition evictUnknownRevocationLocked :: "memory_backend \<Rightarrow> bool \<times> memory_backend" where
  "evictUnknownRevocationLocked m =
     (case mb_revokedUnknown m of [] \<Rightarrow> (False, m)
      | (k, _) # _ \<Rightarrow> (True, m\<lparr>mb_revokedUnknown := mdel k (mb_revokedUnknown m), mb_revoked := mdel k (mb_revoked m)\<rparr>))"

definition add_marker :: "string \<Rightarrow> gotime \<Rightarrow> bool \<Rightarrow> memory_backend \<Rightarrow> memory_backend" where
  "add_marker key expiresAt unknown m =
     (let m1 = m\<lparr>mb_revoked := mput key expiresAt (mb_revoked m)\<rparr>
      in if unknown then m1\<lparr>mb_revokedUnknown := mput key () (mb_revokedUnknown m1)\<rparr> else m1)"

definition addRevocationLocked :: "string \<Rightarrow> gotime \<Rightarrow> bool \<Rightarrow> memory_backend \<Rightarrow> memory_backend" where
  "addRevocationLocked key expiresAt unknown m =
     (if map_of (mb_revoked m) key \<noteq> None then
        (let m1 = m\<lparr>mb_revoked := mput key expiresAt (mb_revoked m)\<rparr>
         in if \<not> unknown then m1\<lparr>mb_revokedUnknown := mdel key (mb_revokedUnknown m1)\<rparr> else m1)
      else if int (length (mb_revoked m)) \<ge> mb_maxEntries m then
        (case evictUnknownRevocationLocked m of (evicted, m1) \<Rightarrow>
           (if \<not> evicted \<and> unknown then m1
            else add_marker key expiresAt unknown
              (if int (length (mb_revoked m1)) \<ge> mb_maxEntries m1
               then (case mb_revoked m1 of [] \<Rightarrow> m1
                     | (k, _) # _ \<Rightarrow> m1\<lparr>mb_revoked := mdel k (mb_revoked m1), mb_revokedUnknown := mdel k (mb_revokedUnknown m1)\<rparr>)
               else m1)))
      else add_marker key expiresAt unknown m)"

definition memory_put :: "gotime \<Rightarrow> string \<Rightarrow> session_record \<Rightarrow> memory_backend \<Rightarrow> (session_error, unit) res \<times> memory_backend" where
  "memory_put now key r m =
     (let m1 = cleanupLocked now m;
          m2 = (if int (length (mb_sessions m1)) \<ge> mb_maxEntries m1 then evictOldestLocked m1 else m1)
      in (Inr (), m2\<lparr>mb_sessions := mput key r (mb_sessions m2)\<rparr>))"

definition memory_get :: "gotime \<Rightarrow> string \<Rightarrow> memory_backend \<Rightarrow> (session_error, session_record) res \<times> memory_backend" where
  "memory_get now key m =
     (case map_of (mb_sessions m) key of
        Some r \<Rightarrow> if \<not> now < rec_ExpiresAt r then (Inl ErrExpired, m\<lparr>mb_sessions := mdel key (mb_sessions m)\<rparr>)
                  else (Inr r, cleanupLocked now m)
      | None \<Rightarrow> if map_of (mb_revoked m) key \<noteq> None then (Inl ErrRevoked, m)
                else (Inl ErrNotFound, cleanupLocked now m))"

definition memory_revoke :: "gotime \<Rightarrow> string \<Rightarrow> gotime \<Rightarrow> memory_backend \<Rightarrow> (session_error, unit) res \<times> memory_backend" where
  "memory_revoke now key expiresAt m =
     (let m1 = cleanupLocked now m in
      case map_of (mb_sessions m1) key of
        Some r \<Rightarrow> (Inr (), addRevocationLocked key (rec_ExpiresAt r) False (m1\<lparr>mb_sessions := mdel key (mb_sessions m1)\<rparr>))
      | None \<Rightarrow> (Inr (), addRevocationLocked key expiresAt True m1))"

definition memory_backend_ops :: "memory_backend session_backend" where
  "memory_backend_ops = \<lparr>be_Put = memory_put, be_Get = memory_get, be_Revoke = memory_revoke\<rparr>"

end
