(* ===== verification/Hub_Session_Props.thy ===== *)
theory Hub_Session_Props
  imports Hub_Sessions
begin

section \<open>Hub: what a browser session guarantees\<close>

text \<open>
  The contract of a session backend as a locale, and in it the fact every caller relies on: a handle
  resolves to what was issued for it and not revoked since, along any history of store operations.
  The process-local backend satisfies the contract; its own facts, the bounds of the two tables and
  the priority of real logouts over markers for unknown handles, follow.
\<close>

subsection \<open>Histories of the store\<close>

text \<open>A history records the sessions that were issued, by key, and the keys that were revoked, newest
  first. It grows with every operation of the store, by whomever, at whatever time.\<close>

datatype session_event = Issued string session_record | Revoked string

definition issued :: "session_config \<Rightarrow> (session_error, string \<times> session) res \<Rightarrow> session_event list" where
  "issued cfg x = (case x of Inl _ \<Rightarrow> []
     | Inr (raw, ses) \<Rightarrow> [Issued (tokenKey cfg raw) \<lparr>rec_Identity = ses_Identity ses, rec_IssuedAt = ses_IssuedAt ses,
         rec_ExpiresAt = ses_ExpiresAt ses\<rparr>])"

definition revoked :: "session_config \<Rightarrow> string \<Rightarrow> (session_error, unit) res \<Rightarrow> session_event list" where
  "revoked cfg raw x = (if blank raw \<or> isl x then [] else [Revoked (tokenKey cfg raw)])"

inductive history :: "'b session_backend \<Rightarrow> session_config \<Rightarrow> 'b \<Rightarrow> session_event list \<Rightarrow> 'b \<Rightarrow> bool" for be cfg s0 where
  opened: "history be cfg s0 [] s0"
| issue: "history be cfg s0 evs s \<Longrightarrow> issueWithTTL be cfg ident now ttl draws s = (x, s') \<Longrightarrow>
    history be cfg s0 (issued cfg x @ evs) s'"
| resolve: "history be cfg s0 evs s \<Longrightarrow> Resolve be cfg raw tget now s = (y, s') \<Longrightarrow> history be cfg s0 evs s'"
| revoke: "history be cfg s0 evs s \<Longrightarrow> Revoke be cfg raw trev now s = (z, s') \<Longrightarrow>
    history be cfg s0 (revoked cfg raw z @ evs) s'"

definition live :: "session_event list \<Rightarrow> string \<Rightarrow> session_record \<Rightarrow> bool" where
  "live evs k r \<longleftrightarrow> (\<exists>post pre. evs = post @ Issued k r # pre \<and> Revoked k \<notin> set post)"

lemma live_Nil [simp]: "\<not> live [] k r"
  by (simp add: live_def)

lemma live_Issued: "live (Issued k' r' # evs) k r \<longleftrightarrow> (k' = k \<and> r' = r) \<or> live evs k r"
proof
  assume "live (Issued k' r' # evs) k r"
  then show "(k' = k \<and> r' = r) \<or> live evs k r" unfolding live_def by (auto simp: Cons_eq_append_conv)
next
  assume "(k' = k \<and> r' = r) \<or> live evs k r"
  then show "live (Issued k' r' # evs) k r"
  proof
    assume "k' = k \<and> r' = r"
    then have "Issued k' r' # evs = [] @ Issued k r # evs \<and> Revoked k \<notin> set []" by simp
    then show ?thesis unfolding live_def by blast
  next
    assume "live evs k r"
    then obtain post pre where "Issued k' r' # evs = (Issued k' r' # post) @ Issued k r # pre \<and> Revoked k \<notin> set (Issued k' r' # post)"
      by (auto simp: live_def)
    then show ?thesis unfolding live_def by blast
  qed
qed

lemma live_Revoked: "live (Revoked k' # evs) k r \<longleftrightarrow> k' \<noteq> k \<and> live evs k r"
proof
  assume "live (Revoked k' # evs) k r"
  then show "k' \<noteq> k \<and> live evs k r" unfolding live_def by (auto simp: Cons_eq_append_conv)
next
  assume "k' \<noteq> k \<and> live evs k r"
  then obtain post pre where "Revoked k' # evs = (Revoked k' # post) @ Issued k r # pre \<and> Revoked k \<notin> set (Revoked k' # post)"
    by (auto simp: live_def)
  then show "live (Revoked k' # evs) k r" unfolding live_def by blast
qed

subsection \<open>The contract of a backend\<close>

lemma base64url_not_Nil: "s \<noteq> [] \<Longrightarrow> base64url s \<noteq> []"
  by (cases s rule: base64url.cases) (auto simp: Let_def)

locale session_contract =
  fixes be :: "'b session_backend" and inv :: "'b \<Rightarrow> bool" and holds :: "'b \<Rightarrow> string \<Rightarrow> session_record \<Rightarrow> bool"
  assumes get: "inv s \<Longrightarrow> be_Get be t k s = (x, s') \<Longrightarrow>
      inv s' \<and> (\<forall>k' r. holds s' k' r \<longrightarrow> holds s k' r) \<and> (\<forall>r. x = Inr r \<longrightarrow> holds s k r \<and> t < rec_ExpiresAt r)"
    and put: "inv s \<Longrightarrow> k \<noteq> [] \<Longrightarrow> be_Put be t k r s = (x', s') \<Longrightarrow>
      inv s' \<and> (\<forall>k' r'. holds s' k' r' \<longrightarrow> holds s k' r' \<or> (x' = Inr () \<and> k' = k \<and> r' = r))"
    and revoke: "inv s \<Longrightarrow> k \<noteq> [] \<Longrightarrow> be_Revoke be t k e s = (x', s') \<Longrightarrow>
      inv s' \<and> (\<forall>k' r. holds s' k' r \<longrightarrow> holds s k' r \<and> (x' = Inr () \<longrightarrow> k' \<noteq> k))"
begin

lemma issue_attempts_holds:
  assumes "inv s" "\<And>raw. tokenKey cfg raw \<noteq> []" "issue_attempts n be cfg ident now ttl draws s = (x, s')"
  shows "inv s' \<and> (\<forall>k r. holds s' k r \<longrightarrow> holds s k r \<or> issued cfg x = [Issued k r])"
  using assms
proof (induction n arbitrary: draws s x s')
  case (Suc n)
  obtain draw tget tput where d: "draws 0 = (draw, tget, tput)" by (metis prod_cases3)
  show ?case
  proof (cases "randomSecret draw")
    case (Inl e)
    then show ?thesis using Suc.prems d by auto
  next
    case (Inr raw)
    obtain r s1 where g: "be_Get be tget (tokenKey cfg raw) s = (r, s1)" by fastforce
    note G = get [OF Suc.prems(1) g]
    consider (fresh) "r = Inl ErrNotFound" | (again) "r \<noteq> Inl ErrNotFound" "\<not> isl r \<or> r = Inl ErrRevoked \<or> r = Inl ErrExpired"
      | (failed) "r \<noteq> Inl ErrNotFound" "\<not> (\<not> isl r \<or> r = Inl ErrRevoked \<or> r = Inl ErrExpired)" by blast
    then show ?thesis
    proof cases
      case fresh
      let ?rc = "\<lparr>rec_Identity = ident, rec_IssuedAt = now, rec_ExpiresAt = now + ttl\<rparr>"
      obtain y s2 where p: "be_Put be tput (tokenKey cfg raw) ?rc s1 = (y, s2)" by fastforce
      note P = put [OF conjunct1 [OF G] Suc.prems(2) p]
      show ?thesis
      proof (cases y)
        case Inl': (Inl e)
        then have "s' = s2" using Suc.prems(3) d Inr g fresh p by simp
        then show ?thesis using P G Inl' by auto
      next
        case Inr': (Inr u)
        then have "s' = s2" "issued cfg x = [Issued (tokenKey cfg raw) ?rc]"
          using Suc.prems(3) d Inr g fresh p by (auto simp: issued_def)
        then show ?thesis using P G by auto
      qed
    next
      case again
      then have "issue_attempts n be cfg ident now ttl (\<lambda>i. draws (Suc i)) s1 = (x, s')"
        using Suc.prems(3) d Inr g by (simp split: if_splits)
      from Suc.IH [OF conjunct1 [OF G] Suc.prems(2) this] G show ?thesis by blast
    next
      case failed
      then have "s' = s1" using Suc.prems(3) d Inr g by (auto split: if_splits)
      then show ?thesis using G by blast
    qed
  qed
qed simp

lemma history_holds:
  assumes "history be cfg s0 evs s" "inv s0" "\<And>k r. \<not> holds s0 k r" "\<And>raw. st_digest cfg raw \<noteq> []"
  shows "inv s \<and> (\<forall>k r. holds s k r \<longrightarrow> live evs k r)"
  using assms(1)
proof (induction rule: history.induct)
  case opened then show ?case using assms by blast
next
  case (issue evs s ident now ttl draws x s')
  have key: "tokenKey cfg raw \<noteq> []" for raw using assms(4) by (simp add: tokenKey_def base64url_not_Nil)
  show ?case
  proof (cases "blank (id_UserID ident)")
    case True then show ?thesis using issue by (auto simp: issueWithTTL_def issued_def)
  next
    case False
    have "inv s' \<and> (\<forall>k r. holds s' k r \<longrightarrow> holds s k r \<or> issued cfg x = [Issued k r])"
      by (rule issue_attempts_holds [where n = maxIssueAttempts, OF _ key])
        (use issue False in \<open>auto simp: issueWithTTL_def\<close>)
    moreover have "live (issued cfg x @ evs) k r" if "live evs k r" for k r
      using that by (auto simp: issued_def live_Issued split: sum.splits)
    ultimately show ?thesis using issue.IH by (fastforce simp: live_Issued)
  qed
next
  case (resolve evs s raw tget now y s')
  show ?case
  proof (cases "blank raw")
    case True then show ?thesis using resolve by (simp add: Resolve_def)
  next
    case False
    obtain x s1 where g: "be_Get be tget (tokenKey cfg raw) s = (x, s1)" by fastforce
    then have "s' = s1" using resolve(2) False by (auto simp: Resolve_def split: sum.splits if_splits)
    then show ?thesis using get [OF _ g] resolve.IH by blast
  qed
next
  case (revoke evs s raw trev now z s')
  show ?case
  proof (cases "blank raw")
    case True then show ?thesis using revoke by (simp add: Revoke_def revoked_def)
  next
    case False
    then have r: "be_Revoke be trev (tokenKey cfg raw) (now + st_ttl cfg) s = (z, s')"
      using revoke(2) by (simp add: Revoke_def)
    have "tokenKey cfg raw \<noteq> []" using assms(4) by (simp add: tokenKey_def base64url_not_Nil)
    from session_contract.revoke [OF session_contract_axioms _ this r] revoke.IH False
    show ?thesis by (cases z) (auto simp: revoked_def live_Revoked)
  qed
qed

lemma resolve_live:
  assumes "history be cfg s0 evs s" "inv s0" "\<And>k r. \<not> holds s0 k r" "\<And>raw. st_digest cfg raw \<noteq> []"
    and "Resolve be cfg raw tget now s = (Inr ses, s')"
  shows "ses_ID ses = raw \<and> now < ses_ExpiresAt ses \<and> live evs (tokenKey cfg raw)
    \<lparr>rec_Identity = ses_Identity ses, rec_IssuedAt = ses_IssuedAt ses, rec_ExpiresAt = ses_ExpiresAt ses\<rparr>"
proof -
  obtain x s1 where g: "be_Get be tget (tokenKey cfg raw) s = (x, s1)" by fastforce
  then obtain r where r: "x = Inr r" "now < rec_ExpiresAt r" "ses = \<lparr>ses_ID = raw, ses_Identity = rec_Identity r,
      ses_IssuedAt = rec_IssuedAt r, ses_ExpiresAt = rec_ExpiresAt r\<rparr>"
    using assms(5) by (auto simp: Resolve_def split: sum.splits if_splits)
  have "holds s (tokenKey cfg raw) r" using get [OF _ g] history_holds [OF assms(1-4)] r(1) by blast
  then have "live evs (tokenKey cfg raw) r" using history_holds [OF assms(1-4)] by blast
  moreover obtain ident issuedAt expiresAt where "r = \<lparr>rec_Identity = ident, rec_IssuedAt = issuedAt, rec_ExpiresAt = expiresAt\<rparr>"
    by (cases r) auto
  ultimately show ?thesis using r(2,3) by simp
qed

end

subsection \<open>The process-local backend\<close>

definition memory_ok :: "memory_backend \<Rightarrow> bool" where
  "memory_ok m \<longleftrightarrow> 1 \<le> mb_maxEntries m \<and>
     wf_map (mb_sessions m) \<and> wf_map (mb_revoked m) \<and> wf_map (mb_revokedUnknown m) \<and>
     int (length (mb_sessions m)) \<le> mb_maxEntries m \<and> int (length (mb_revoked m)) \<le> mb_maxEntries m \<and>
     fst ` set (mb_revokedUnknown m) \<subseteq> fst ` set (mb_revoked m) \<and> [] \<notin> fst ` set (mb_sessions m)"

definition memory_holds :: "memory_backend \<Rightarrow> string \<Rightarrow> session_record \<Rightarrow> bool" where
  "memory_holds m k r \<longleftrightarrow> map_of (mb_sessions m) k = Some r"

lemma length_mdel: "wf_map m \<Longrightarrow> k \<in> fst ` set m \<Longrightarrow> Suc (length (mdel k m)) = length m"
proof (induction m)
  case (Cons p m)
  show ?case
  proof (cases "fst p = k")
    case True
    then have "mdel k (p # m) = m" using Cons.prems(1) by (auto simp: mdel_def filter_id_conv image_iff)
    then show ?thesis by simp
  next
    case False
    then show ?thesis using Cons by (auto simp: mdel_def)
  qed
qed simp

lemma length_mdel_le: "length (mdel k m) \<le> length m"
  by (simp add: mdel_def)

lemma length_mput_le: "length (mput k v m) \<le> Suc (length m)"
  by (induction m) (auto simp: mput_def)

lemma length_mput_present: "k \<in> fst ` set m \<Longrightarrow> length (mput k v m) = length m"
  by (induction m) (auto simp: mput_def)

declare keys_mput [simp] keys_mdel [simp]

lemma keys_wf_filter: "wf_map m \<Longrightarrow> fst ` set (filter P m) = {k. \<exists>v. map_of m k = Some v \<and> P (k, v)}"
  by (force simp flip: wf_map_in_iff)

lemma int_length_filter: "int (length xs) \<le> n \<Longrightarrow> int (length (filter P xs)) \<le> n"
  using length_filter_le [of P xs] by linarith

lemma cleanup_ok:
  assumes "memory_ok m"
  shows "memory_ok (cleanupLocked now m)"
proof -
  have "k \<in> fst ` set (filter (\<lambda>(k, e). now < e) (mb_revoked m))"
    if "k \<in> fst ` set (filter (\<lambda>(k, _). \<not> (\<exists>(k', e) \<in> set (mb_revoked m). k' = k \<and> \<not> now < e)) (mb_revokedUnknown m))" for k
  proof -
    have "k \<in> fst ` set (mb_revoked m)" "\<forall>(k', e) \<in> set (mb_revoked m). k' = k \<longrightarrow> now < e"
      using that assms by (auto simp: memory_ok_def)
    then show ?thesis by force
  qed
  moreover have "[] \<notin> fst ` set (filter P (mb_sessions m))" for P using assms by (auto simp: memory_ok_def)
  ultimately show ?thesis using assms unfolding memory_ok_def cleanupLocked_def
    by (auto simp: wf_map_filter int_length_filter simp del: set_filter)
qed

lemma cleanup_sessions: "memory_ok m \<Longrightarrow> memory_holds (cleanupLocked now m) k r \<longleftrightarrow> memory_holds m k r \<and> now < rec_ExpiresAt r"
  by (simp add: memory_holds_def cleanupLocked_def memory_ok_def map_of_filter_wf)

lemma oldest_session_in:
  "oldest_session m k0 t0 \<in> insert k0 (fst ` set m)" "m \<noteq> [] \<Longrightarrow> [] \<notin> fst ` set m \<Longrightarrow> oldest_session m k0 t0 \<noteq> []"
proof (induction m k0 t0 rule: oldest_session.induct)
  case (2 k r m k0 t0)
  { case 1 show ?case using 2 by auto }
  { case 2 then show ?case using "2.IH" by (cases m) auto }
qed simp_all

lemma evict_ok:
  assumes "memory_ok m"
  shows "memory_ok (evictOldestLocked m)"
    "int (length (mb_sessions m)) \<ge> mb_maxEntries m \<Longrightarrow> int (length (mb_sessions (evictOldestLocked m))) < mb_maxEntries m"
proof -
  let ?k = "oldest_session (mb_sessions m) [] 0"
  have ok: "wf_map (mb_sessions m)" "[] \<notin> fst ` set (mb_sessions m)" "int (length (mb_sessions m)) \<le> mb_maxEntries m"
    "1 \<le> mb_maxEntries m" using assms by (simp_all add: memory_ok_def)
  show "memory_ok (evictOldestLocked m)"
    using assms length_mdel_le [of ?k "mb_sessions m"] by (auto simp: memory_ok_def evictOldestLocked_def Let_def)
  assume full: "int (length (mb_sessions m)) \<ge> mb_maxEntries m"
  then have "mb_sessions m \<noteq> []" using ok(4) by auto
  then have "?k \<noteq> []" "?k \<in> fst ` set (mb_sessions m)"
    using oldest_session_in [of "mb_sessions m" "[]" 0] ok(2) by auto
  then show "int (length (mb_sessions (evictOldestLocked m))) < mb_maxEntries m"
    using length_mdel [OF ok(1), of ?k] ok(3) by (simp add: evictOldestLocked_def Let_def)
qed

lemma evict_unknown_ok:
  assumes "memory_ok m" "evictUnknownRevocationLocked m = (evicted, m')"
  shows "memory_ok m' \<and> mb_sessions m' = mb_sessions m \<and> mb_maxEntries m' = mb_maxEntries m \<and>
    (evicted \<longrightarrow> length (mb_revoked m') < length (mb_revoked m)) \<and> (\<not> evicted \<longrightarrow> m' = m \<and> mb_revokedUnknown m = []) \<and>
    (\<forall>k. k \<notin> fst ` set (mb_revokedUnknown m) \<longrightarrow> map_of (mb_revoked m') k = map_of (mb_revoked m) k \<and> k \<notin> fst ` set (mb_revokedUnknown m'))"
proof (cases "mb_revokedUnknown m")
  case Nil then show ?thesis using assms by (auto simp: evictUnknownRevocationLocked_def)
next
  case (Cons p ps)
  obtain k where p: "p = (k, ())" by (cases p) auto
  have "k \<in> fst ` set (mb_revoked m)" using assms(1) Cons p by (auto simp: memory_ok_def)
  then have len: "Suc (length (mdel k (mb_revoked m))) = length (mb_revoked m)"
    by (rule length_mdel [rotated]) (use assms(1) in \<open>simp add: memory_ok_def\<close>)
  have m': "evicted" "m' = m\<lparr>mb_revokedUnknown := mdel k (mb_revokedUnknown m), mb_revoked := mdel k (mb_revoked m)\<rparr>"
    using assms(2) Cons p by (auto simp: evictUnknownRevocationLocked_def)
  have "memory_ok m'" using assms(1) len m'(2) by (auto simp: memory_ok_def)
  moreover have "map_of (mb_revoked m') j = map_of (mb_revoked m) j \<and> j \<notin> fst ` set (mb_revokedUnknown m')"
    if "j \<notin> fst ` set (mb_revokedUnknown m)" for j
    using that Cons p m'(2) by (auto simp del: keys_mdel)
  ultimately show ?thesis using m' len by simp
qed

lemma add_marker_ok:
  assumes "memory_ok m" "int (length (mb_revoked m)) < mb_maxEntries m"
  shows "memory_ok (add_marker k e unknown m)"
  using assms length_mput_le [of k e "mb_revoked m"]
  by (auto simp: memory_ok_def add_marker_def Let_def)

lemma drop_any_ok:
  assumes "memory_ok m" "mb_revoked m = (k, e) # rest"
  shows "memory_ok (m\<lparr>mb_revoked := mdel k (mb_revoked m), mb_revokedUnknown := mdel k (mb_revokedUnknown m)\<rparr>) \<and>
    int (length (mdel k (mb_revoked m))) < mb_maxEntries m"
proof -
  have "Suc (length (mdel k (mb_revoked m))) = length (mb_revoked m)"
    by (rule length_mdel) (use assms in \<open>auto simp: memory_ok_def\<close>)
  then show ?thesis using assms(1) by (auto simp: memory_ok_def)
qed

lemma add_revocation_ok:
  assumes "memory_ok m"
  shows "memory_ok (addRevocationLocked k e unknown m) \<and> mb_sessions (addRevocationLocked k e unknown m) = mb_sessions m"
proof -
  consider (present) "map_of (mb_revoked m) k \<noteq> None"
    | (full) "map_of (mb_revoked m) k = None" "int (length (mb_revoked m)) \<ge> mb_maxEntries m"
    | (room) "map_of (mb_revoked m) k = None" "int (length (mb_revoked m)) < mb_maxEntries m" by fastforce
  then show ?thesis
  proof cases
    case present
    then have "k \<in> fst ` set (mb_revoked m)" by (simp add: map_of_eq_None_iff)
    from length_mput_present [OF this, of e] show ?thesis using assms present length_mdel_le [of k "mb_revokedUnknown m"]
      by (auto simp: addRevocationLocked_def memory_ok_def Let_def)
  next
    case room
    then show ?thesis using add_marker_ok [OF assms room(2)] by (simp add: addRevocationLocked_def add_marker_def Let_def)
  next
    case full
    obtain evicted m1 where v: "evictUnknownRevocationLocked m = (evicted, m1)" by fastforce
    note V = evict_unknown_ok [OF assms v]
    show ?thesis
    proof (cases "\<not> evicted \<and> unknown")
      case True then show ?thesis using full v V assms by (simp add: addRevocationLocked_def)
    next
      case False
      define m2 where "m2 = (if int (length (mb_revoked m1)) \<ge> mb_maxEntries m1
               then (case mb_revoked m1 of [] \<Rightarrow> m1
                     | (k, _) # _ \<Rightarrow> m1\<lparr>mb_revoked := mdel k (mb_revoked m1), mb_revokedUnknown := mdel k (mb_revokedUnknown m1)\<rparr>)
               else m1)"
      have "memory_ok m2 \<and> int (length (mb_revoked m2)) < mb_maxEntries m2 \<and> mb_sessions m2 = mb_sessions m1"
      proof (cases "int (length (mb_revoked m1)) \<ge> mb_maxEntries m1")
        case True
        obtain p rest where "mb_revoked m1 = p # rest" using True V by (cases "mb_revoked m1") (auto simp: memory_ok_def)
        then obtain j e' where c: "mb_revoked m1 = (j, e') # rest" by (cases p) auto
        show ?thesis using drop_any_ok [OF conjunct1 [OF V] c] True c by (simp add: m2_def)
      qed (use V in \<open>simp add: m2_def\<close>)
      moreover have "addRevocationLocked k e unknown m = add_marker k e unknown m2"
        using full v False unfolding addRevocationLocked_def m2_def by auto
      ultimately show ?thesis using add_marker_ok [of m2] V by (simp add: add_marker_def Let_def)
    qed
  qed
qed

lemma memory_put_law:
  assumes "memory_ok m" "k \<noteq> []" "memory_put t k r m = (x, m')"
  shows "memory_ok m' \<and> (\<forall>k' r'. memory_holds m' k' r' \<longrightarrow> memory_holds m k' r' \<or> (x = Inr () \<and> k' = k \<and> r' = r))"
proof -
  define m1 where "m1 = cleanupLocked t m"
  define m2 where "m2 = (if int (length (mb_sessions m1)) \<ge> mb_maxEntries m1 then evictOldestLocked m1 else m1)"
  have m1: "memory_ok m1" unfolding m1_def by (rule cleanup_ok) (rule assms(1))
  then have m2: "memory_ok m2" "int (length (mb_sessions m2)) < mb_maxEntries m2"
    using evict_ok [of m1] by (auto simp: m2_def evictOldestLocked_def Let_def)
  have m': "x = Inr ()" "m' = m2\<lparr>mb_sessions := mput k r (mb_sessions m2)\<rparr>"
    using assms(3) by (auto simp: memory_put_def Let_def m1_def m2_def)
  have "memory_ok m'" using m2 assms(2) length_mput_le [of k r "mb_sessions m2"] unfolding m' memory_ok_def by simp
  moreover have "memory_holds m1 k' r'" if "memory_holds m2 k' r'" for k' r'
    using that by (auto simp: memory_holds_def m2_def evictOldestLocked_def Let_def split: if_splits)
  moreover have "memory_holds m k' r'" if "memory_holds m1 k' r'" for k' r'
    using that cleanup_sessions [OF assms(1)] by (simp add: m1_def)
  moreover have "memory_holds m' k' r' \<longleftrightarrow> (if k' = k then r' = r else memory_holds m2 k' r')" for k' r'
    by (auto simp: memory_holds_def m')
  ultimately show ?thesis using m'(1) by metis
qed

lemma memory_get_law:
  assumes "memory_ok m" "memory_get t k m = (x, m')"
  shows "memory_ok m' \<and> (\<forall>k' r. memory_holds m' k' r \<longrightarrow> memory_holds m k' r) \<and>
    (\<forall>r. x = Inr r \<longrightarrow> memory_holds m k r \<and> t < rec_ExpiresAt r)"
proof -
  have "memory_ok (m\<lparr>mb_sessions := mdel k (mb_sessions m)\<rparr>)"
    using assms(1) length_mdel_le [of k "mb_sessions m"] by (auto simp: memory_ok_def)
  moreover have "memory_holds (m\<lparr>mb_sessions := mdel k (mb_sessions m)\<rparr>) k' r \<Longrightarrow> memory_holds m k' r" for k' r
    by (simp add: memory_holds_def split: if_splits)
  moreover consider r where "map_of (mb_sessions m) k = Some r" "\<not> t < rec_ExpiresAt r"
    | r where "map_of (mb_sessions m) k = Some r" "t < rec_ExpiresAt r"
    | "map_of (mb_sessions m) k = None" "map_of (mb_revoked m) k \<noteq> None"
    | "map_of (mb_sessions m) k = None" "map_of (mb_revoked m) k = None" by (cases "map_of (mb_sessions m) k") auto
  then have "(x = Inl ErrExpired \<and> m' = m\<lparr>mb_sessions := mdel k (mb_sessions m)\<rparr>) \<or> (x = Inl ErrRevoked \<and> m' = m) \<or>
      (x = Inl ErrNotFound \<and> m' = cleanupLocked t m) \<or>
      (\<exists>r. memory_holds m k r \<and> t < rec_ExpiresAt r \<and> x = Inr r \<and> m' = cleanupLocked t m)"
    by cases (use assms(2) in \<open>auto simp: memory_get_def memory_holds_def\<close>)
  ultimately show ?thesis
    using assms(1) cleanup_ok [OF assms(1)] cleanup_sessions [OF assms(1)] by (elim disjE exE conjE) simp_all
qed

lemma memory_revoke_law:
  assumes "memory_ok m" "memory_revoke t k e m = (x, m')"
  shows "memory_ok m' \<and> (\<forall>k' r. memory_holds m' k' r \<longrightarrow> memory_holds m k' r \<and> (x = Inr () \<longrightarrow> k' \<noteq> k))"
proof -
  define m1 where "m1 = cleanupLocked t m"
  have m1: "memory_ok m1" unfolding m1_def by (rule cleanup_ok) (rule assms(1))
  have sub: "memory_holds m k' r" if "memory_holds m1 k' r" for k' r
    using that cleanup_sessions [OF assms(1)] by (simp add: m1_def)
  show ?thesis
  proof (cases "map_of (mb_sessions m1) k")
    case None
    then have "m' = addRevocationLocked k e True m1" using assms(2) by (simp add: memory_revoke_def m1_def Let_def)
    then show ?thesis using add_revocation_ok [OF m1] sub None by (auto simp: memory_holds_def)
  next
    case (Some r)
    let ?m2 = "m1\<lparr>mb_sessions := mdel k (mb_sessions m1)\<rparr>"
    have "memory_ok ?m2" using m1 length_mdel_le [of k "mb_sessions m1"] by (auto simp: memory_ok_def)
    moreover have "m' = addRevocationLocked k (rec_ExpiresAt r) False ?m2"
      using assms(2) Some by (simp add: memory_revoke_def m1_def Let_def)
    ultimately show ?thesis using add_revocation_ok [of ?m2] sub by (auto simp: memory_holds_def split: if_splits)
  qed
qed

interpretation local_sessions: session_contract memory_backend_ops memory_ok memory_holds
proof
  show "be_Get memory_backend_ops t k m = (x, m') \<Longrightarrow> memory_ok m' \<and>
      (\<forall>k' r. memory_holds m' k' r \<longrightarrow> memory_holds m k' r) \<and> (\<forall>r. x = Inr r \<longrightarrow> memory_holds m k r \<and> t < rec_ExpiresAt r)"
    if "memory_ok m" for m t k x m'
    using memory_get_law [OF that] by (simp add: memory_backend_ops_def)
  show "be_Put memory_backend_ops t k r m = (x, m') \<Longrightarrow> memory_ok m' \<and>
      (\<forall>k' r'. memory_holds m' k' r' \<longrightarrow> memory_holds m k' r' \<or> (x = Inr () \<and> k' = k \<and> r' = r))"
    if "memory_ok m" "k \<noteq> []" for m t k r x m'
    using memory_put_law [OF that] by (simp add: memory_backend_ops_def)
  show "be_Revoke memory_backend_ops t k e m = (x, m') \<Longrightarrow> memory_ok m' \<and>
      (\<forall>k' r. memory_holds m' k' r \<longrightarrow> memory_holds m k' r \<and> (x = Inr () \<longrightarrow> k' \<noteq> k))"
    if "memory_ok m" "k \<noteq> []" for m t k e x m'
    using memory_revoke_law [OF that(1)] by (simp add: memory_backend_ops_def)
qed

lemma new_backend_ok: "memory_ok (New_backend n)" "\<not> memory_holds (New_backend n) k r"
  by (auto simp: New_backend_def newMemoryBackend_def memory_ok_def memory_holds_def defaultMaxEntries_def)

text \<open>Property C6. A cookie stands for exactly one login: whatever was issued, resolved and revoked
  before, by whomever and at whatever times, a handle that resolves does so to the identity and the
  lifetime that were issued for it, before the end of that lifetime, and it was not revoked after
  that; so a logged-out handle never resolves again unless the random source repeats it. The digest
  is not empty, and two handles with one digest are one handle here, as they are for the code.\<close>

theorem session_resolves_to_its_login:
  assumes "history memory_backend_ops cfg (New_backend maxEntries) evs m"
    and "\<And>raw. length (st_digest cfg raw) = 32"
    and "Resolve memory_backend_ops cfg raw tget now m = (Inr ses, m')"
  shows "ses_ID ses = raw \<and> now < ses_ExpiresAt ses \<and>
    (\<exists>post pre. evs = post @ Issued (tokenKey cfg raw) \<lparr>rec_Identity = ses_Identity ses, rec_IssuedAt = ses_IssuedAt ses,
        rec_ExpiresAt = ses_ExpiresAt ses\<rparr> # pre \<and> Revoked (tokenKey cfg raw) \<notin> set post)"
proof -
  have "st_digest cfg r \<noteq> []" for r using assms(2) [of r] by auto
  from local_sessions.resolve_live [OF assms(1) new_backend_ok this assms(3)] show ?thesis
    unfolding live_def .
qed

subsection \<open>Markers of logouts\<close>

text \<open>A marker of a real logout: one that is not only for an unknown handle.\<close>

definition logout_marker :: "memory_backend \<Rightarrow> string \<Rightarrow> gotime \<Rightarrow> bool" where
  "logout_marker m k e \<longleftrightarrow> map_of (mb_revoked m) k = Some e \<and> k \<notin> fst ` set (mb_revokedUnknown m)"

lemma cleanup_marker:
  assumes "memory_ok m" "logout_marker m k e" "now < e"
  shows "logout_marker (cleanupLocked now m) k e"
proof -
  have "k \<notin> fst ` set (filter P (mb_revokedUnknown m))" for P using assms(2) by (auto simp: logout_marker_def)
  then show ?thesis using assms by (simp add: logout_marker_def cleanupLocked_def map_of_filter_wf memory_ok_def)
qed

lemma unknown_revocation_marker:
  assumes "memory_ok m" "logout_marker m k e"
  shows "\<exists>e'. logout_marker (addRevocationLocked key e1 True m) k e' \<and> (k \<noteq> key \<longrightarrow> e' = e)"
proof -
  consider (present) "map_of (mb_revoked m) key \<noteq> None"
    | (full) "map_of (mb_revoked m) key = None" "int (length (mb_revoked m)) \<ge> mb_maxEntries m"
    | (room) "map_of (mb_revoked m) key = None" "int (length (mb_revoked m)) < mb_maxEntries m" by fastforce
  then show ?thesis
  proof cases
    case present
    then show ?thesis using assms(2) by (auto simp: addRevocationLocked_def logout_marker_def Let_def)
  next
    case room
    moreover have "k \<noteq> key" using room assms(2) by (auto simp: logout_marker_def)
    ultimately show ?thesis using assms(2) by (auto simp: addRevocationLocked_def add_marker_def logout_marker_def Let_def)
  next
    case full
    have "k \<noteq> key" using full assms(2) by (auto simp: logout_marker_def)
    obtain evicted m1 where v: "evictUnknownRevocationLocked m = (evicted, m1)" by fastforce
    note V = evict_unknown_ok [OF assms(1) v]
    have m1: "logout_marker m1 k e" using V assms(2) by (simp add: logout_marker_def)
    show ?thesis
    proof (cases evicted)
      case False then show ?thesis using full v m1 by (auto simp: addRevocationLocked_def)
    next
      case True
      then have "int (length (mb_revoked m1)) < mb_maxEntries m1" using V assms(1) by (auto simp: memory_ok_def)
      then have "addRevocationLocked key e1 True m = add_marker key e1 True m1"
        using full v True by (simp add: addRevocationLocked_def)
      then show ?thesis using m1 \<open>k \<noteq> key\<close> by (auto simp: add_marker_def logout_marker_def Let_def)
    qed
  qed
qed

text \<open>Property C32. The process-local backend stays inside its bounds and keeps its promise about
  logouts: after any history at most \<open>maxEntries\<close> sessions and as many markers are kept, every
  marker for an unknown handle is one of the markers, and revoking a handle that has no session
  (any cookie value, as often as an anonymous caller likes) leaves the marker of every logout that
  has not expired in place.\<close>

theorem session_tables_bounded:
  assumes "history memory_backend_ops cfg (New_backend maxEntries) evs m"
    and "\<And>raw. length (st_digest cfg raw) = 32"
  shows "int (length (mb_sessions m)) \<le> mb_maxEntries m \<and> int (length (mb_revoked m)) \<le> mb_maxEntries m \<and>
    fst ` set (mb_revokedUnknown m) \<subseteq> fst ` set (mb_revoked m) \<and>
    (\<forall>k e key t e1. logout_marker m k e \<and> t < e \<and> map_of (mb_sessions m) key = None \<longrightarrow>
       (\<exists>e'. logout_marker (snd (memory_revoke t key e1 m)) k e' \<and> (k \<noteq> key \<longrightarrow> e' = e)))"
proof -
  have "st_digest cfg r \<noteq> []" for r using assms(2) [of r] by auto
  then have ok: "memory_ok m" using local_sessions.history_holds [OF assms(1) new_backend_ok] by blast
  have "\<exists>e'. logout_marker (snd (memory_revoke t key e1 m)) k e' \<and> (k \<noteq> key \<longrightarrow> e' = e)"
    if "logout_marker m k e" "t < e" "map_of (mb_sessions m) key = None" for k e key t e1
  proof -
    have "map_of (mb_sessions (cleanupLocked t m)) key = None"
      using cleanup_sessions [OF ok, of t key] that(3) by (auto simp: memory_holds_def)
    then show ?thesis
      using unknown_revocation_marker [OF cleanup_ok [OF ok] cleanup_marker [OF ok that(1,2)]]
      by (simp add: memory_revoke_def Let_def)
  qed
  moreover have "int (length (mb_sessions m)) \<le> mb_maxEntries m" "int (length (mb_revoked m)) \<le> mb_maxEntries m"
    "fst ` set (mb_revokedUnknown m) \<subseteq> fst ` set (mb_revoked m)" using ok by (simp_all add: memory_ok_def)
  ultimately show ?thesis by (intro conjI allI impI) auto
qed

subsection \<open>Login and logout\<close>

definition plain_char :: "char \<Rightarrow> bool" where
  "plain_char c \<longleftrightarrow> \<not> ascii_space c \<and> of_char c < (128 :: nat)"

lemma plain_char_range: "33 \<le> (of_char c :: nat) \<Longrightarrow> of_char c < (128 :: nat) \<Longrightarrow> plain_char c"
  by (auto simp: plain_char_def ascii_space_def)

lemma base64_digit_plain: "n < 64 \<Longrightarrow> plain_char (base64_digit n)"
  by (rule plain_char_range) (auto simp: base64_digit_def)

lemma of_char_le: "of_char (c :: char) \<le> (255 :: nat)"
proof -
  have "of_char c < (256 :: nat)" by simp
  then show ?thesis by presburger
qed

lemma group_bounds:
  fixes a b c :: nat
  assumes "a \<le> 255" "b \<le> 255" "c \<le> 255"
  shows "a * 16 div 64 < 64" "(a * 256 + b) * 4 div 4096 < 64" "(a * 65536 + b * 256 + c) div 262144 < 64"
  using assms by (auto intro!: less_mult_imp_div_less)

lemmas byte_bounds = group_bounds [OF of_char_le of_char_le of_char_le]

lemma mod_64: "n mod 64 < (64 :: nat)"
  by simp

lemmas digits_plain = byte_bounds [THEN base64_digit_plain] mod_64 [THEN base64_digit_plain]

lemma base64url_plain: "list_all plain_char (base64url s)"
  by (induction s rule: base64url.induct) (simp_all only: base64url.simps Let_def list.pred_inject digits_plain simp_thms)

lemma plain_not_blank:
  assumes "s \<noteq> []" "list_all plain_char s"
  shows "\<not> blank s"
proof -
  have neq: "c \<noteq> CHR 0xC2" "c \<noteq> CHR 0xE1" "c \<noteq> CHR 0xE2" "c \<noteq> CHR 0xE3"
    "c \<noteq> CHR 0x85" "c \<noteq> CHR 0xA0" "c \<noteq> CHR 0x80" "\<not> 0x80 \<le> (of_char c :: nat)" "c \<noteq> CHR 0xA8" "c \<noteq> CHR 0xA9" "c \<noteq> CHR 0xAF" "c \<noteq> CHR 0x9F"
    if "of_char c < (128 :: nat)" for c :: char
    using that by auto
  have plain: "space_at r = 0 \<and> space_end r = 0" if "list_all plain_char r" for r
    using that neq unfolding plain_char_def by (cases r rule: space_at.cases) (simp_all add: space2_def space3_def)
  have "space_at s = 0" "space_end (rev s) = 0" using plain [of s] plain [of "rev s"] assms(2) by (simp_all add: list_all_iff)
  then have "trim_space s = s" by (rule trim_space_eval)
  then show ?thesis using assms(1) by (simp add: blank_def)
qed

lemma base64url_not_blank: "s \<noteq> [] \<Longrightarrow> \<not> blank (base64url s)"
  using plain_not_blank [OF base64url_not_Nil base64url_plain] .

lemma issue_attempts_stores:
  assumes "issue_attempts n memory_backend_ops cfg ident now ttl draws m = (Inr (raw, ses), m')"
    and "\<And>i bytes. fst (draws i) = Inr bytes \<Longrightarrow> length bytes = 32"
  shows "\<not> blank raw \<and> ses = \<lparr>ses_ID = raw, ses_Identity = ident, ses_IssuedAt = now, ses_ExpiresAt = now + ttl\<rparr> \<and>
    map_of (mb_sessions m') (tokenKey cfg raw) = Some \<lparr>rec_Identity = ident, rec_IssuedAt = now, rec_ExpiresAt = now + ttl\<rparr>"
  using assms
proof (induction n arbitrary: draws m)
  case (Suc n)
  obtain draw tget tput where d: "draws 0 = (draw, tget, tput)" by (metis prod_cases3)
  obtain bytes where b: "draw = Inr bytes" using Suc.prems(1) d by (cases draw) (auto simp: randomSecret_def)
  then have "bytes \<noteq> []" using Suc.prems(2) [of 0] d by auto
  then have nb: "\<not> blank (base64url bytes)" by (rule base64url_not_blank)
  obtain r m1 where g: "memory_get tget (tokenKey cfg (base64url bytes)) m = (r, m1)" by fastforce
  show ?case
  proof (cases "r = Inl ErrNotFound")
    case True
    then show ?thesis using Suc.prems(1) d b g nb
      by (auto simp: randomSecret_def memory_backend_ops_def memory_put_def Let_def)
  next
    case False
    then have "issue_attempts n memory_backend_ops cfg ident now ttl (\<lambda>i. draws (Suc i)) m1 = (Inr (raw, ses), m')"
      using Suc.prems(1) d b g by (simp add: randomSecret_def memory_backend_ops_def split: if_splits)
    then show ?thesis by (rule Suc.IH) (rule Suc.prems(2))
  qed
qed simp

lemma logout_marks: "map_of (mb_revoked (addRevocationLocked k e False m)) k = Some e"
proof (cases "map_of (mb_revoked m) k = None")
  case True then show ?thesis
    by (cases "evictUnknownRevocationLocked m") (simp add: addRevocationLocked_def add_marker_def Let_def)
qed (simp add: addRevocationLocked_def Let_def)

text \<open>
  The calls that come between a login and the look at it, with what each draws and the clock it meets:
  other logins (for the whole time to live or a shorter one), looks and logouts.
\<close>

datatype session_call =
    CallIssue identity gotime duration "nat \<Rightarrow> attempt"
  | CallResolve string gotime gotime
  | CallRevoke string gotime gotime

fun make_call :: "session_config \<Rightarrow> session_call \<Rightarrow> memory_backend \<Rightarrow> memory_backend" where
  "make_call cfg (CallIssue ident now ttl draws) m = snd (issueWithTTL memory_backend_ops cfg ident now ttl draws m)"
| "make_call cfg (CallResolve raw tget now) m = snd (Resolve memory_backend_ops cfg raw tget now m)"
| "make_call cfg (CallRevoke raw trev now) m = snd (Revoke memory_backend_ops cfg raw trev now m)"

fun call_before :: "gotime \<Rightarrow> session_call \<Rightarrow> bool" where
  "call_before e (CallIssue ident now ttl draws) \<longleftrightarrow> (\<forall>i. fst (snd (draws i)) < e \<and> snd (snd (draws i)) < e)"
| "call_before e (CallResolve raw tget now) \<longleftrightarrow> tget < e"
| "call_before e (CallRevoke raw trev now) \<longleftrightarrow> trev < e"

fun logs_in :: "session_call \<Rightarrow> bool" where
  "logs_in (CallIssue ident now ttl draws) = True"
| "logs_in _ = False"

fun logs_out :: "session_config \<Rightarrow> string \<Rightarrow> session_call \<Rightarrow> bool" where
  "logs_out cfg raw (CallRevoke raw' trev now) \<longleftrightarrow> tokenKey cfg raw' = tokenKey cfg raw"
| "logs_out cfg raw _ \<longleftrightarrow> False"

text \<open>A session that is kept, with room for further ones.\<close>

definition kept :: "string \<Rightarrow> session_record \<Rightarrow> int \<Rightarrow> memory_backend \<Rightarrow> bool" where
  "kept k r n m \<longleftrightarrow> memory_ok m \<and> map_of (mb_sessions m) k = Some r \<and> int (length (mb_sessions m)) + n \<le> mb_maxEntries m"

lemma keptD: "kept k r n m \<Longrightarrow> memory_ok m" "kept k r n m \<Longrightarrow> map_of (mb_sessions m) k = Some r"
  "kept k r n m \<Longrightarrow> int (length (mb_sessions m)) + n \<le> mb_maxEntries m"
  by (simp_all add: kept_def)

lemma kept_cleanup:
  assumes "kept k r n m" "t < rec_ExpiresAt r"
  shows "kept k r n (cleanupLocked t m)"
proof -
  have "length (mb_sessions (cleanupLocked t m)) \<le> length (mb_sessions m)" "mb_maxEntries (cleanupLocked t m) = mb_maxEntries m"
    by (simp_all add: cleanupLocked_def)
  moreover have "map_of (mb_sessions (cleanupLocked t m)) k = Some r"
    using cleanup_sessions [OF keptD(1) [OF assms(1)]] keptD(2) [OF assms(1)] assms(2) by (simp add: memory_holds_def)
  ultimately show ?thesis using cleanup_ok [OF keptD(1) [OF assms(1)]] keptD(3) [OF assms(1)] by (simp add: kept_def)
qed

lemma kept_drop:
  assumes "kept k r n m" "k' \<noteq> k"
  shows "kept k r n (m\<lparr>mb_sessions := mdel k' (mb_sessions m)\<rparr>)"
  using assms length_mdel_le [of k' "mb_sessions m"] by (auto simp: kept_def memory_ok_def)

lemma kept_get:
  assumes "kept k r n m" "t < rec_ExpiresAt r" "memory_get t k' m = (x, m')"
  shows "kept k r n m'" "k' = k \<Longrightarrow> x = Inr r"
proof -
  have "m' = m \<or> m' = cleanupLocked t m \<or> (k' \<noteq> k \<and> m' = m\<lparr>mb_sessions := mdel k' (mb_sessions m)\<rparr>)"
    using assms(2,3) keptD(2) [OF assms(1)] by (auto simp: memory_get_def split: option.splits if_splits)
  then show "kept k r n m'" using kept_cleanup [OF assms(1,2)] kept_drop [OF assms(1)] assms(1) by blast
  show "k' = k \<Longrightarrow> x = Inr r" using assms(2,3) keptD(2) [OF assms(1)] by (simp add: memory_get_def)
qed

lemma kept_put:
  assumes "kept k r (n + 1) m" "t < rec_ExpiresAt r" "k' \<noteq> k" "k' \<noteq> []" "0 \<le> n"
  shows "kept k r n (snd (memory_put t k' r' m))"
proof -
  note c = kept_cleanup [OF assms(1,2)]
  then have "\<not> int (length (mb_sessions (cleanupLocked t m))) \<ge> mb_maxEntries (cleanupLocked t m)" using keptD(3) [OF c] assms(5) by linarith
  then have p: "memory_put t k' r' m = (Inr (), (cleanupLocked t m)\<lparr>mb_sessions := mput k' r' (mb_sessions (cleanupLocked t m))\<rparr>)"
    by (simp add: memory_put_def Let_def)
  have "memory_ok (snd (memory_put t k' r' m))"
    using memory_put_law [OF keptD(1) [OF assms(1)] assms(4) p] by (simp add: p)
  then show ?thesis using c assms(3) length_mput_le [of k' r' "mb_sessions (cleanupLocked t m)"] by (simp add: p kept_def)
qed

lemma add_revocation_max [simp]: "mb_maxEntries (addRevocationLocked k e unknown m) = mb_maxEntries m"
  by (auto simp: addRevocationLocked_def evictUnknownRevocationLocked_def add_marker_def Let_def
      split: list.splits prod.splits if_splits)

lemma kept_revoke:
  assumes "kept k r n m" "t < rec_ExpiresAt r" "k' \<noteq> k"
  shows "kept k r n (snd (memory_revoke t k' e m))"
proof -
  have add: "kept k r n (addRevocationLocked k' e' unknown m1)" if "kept k r n m1" for e' unknown m1
    using that add_revocation_ok [of m1 k' e' unknown] by (simp add: kept_def)
  note c = kept_cleanup [OF assms(1,2)]
  show ?thesis using add [OF c] add [OF kept_drop [OF c assms(3)]]
    by (simp add: memory_revoke_def Let_def split: option.split)
qed

lemma kept_mono: "kept k r (n + 1) m \<Longrightarrow> kept k r n m"
  by (simp add: kept_def)

lemma kept_issue:
  assumes "kept k r (n + 1) m" "0 \<le> n" "\<And>raw. tokenKey cfg raw \<noteq> []" "\<And>i. fst (snd (draws i)) < rec_ExpiresAt r \<and> snd (snd (draws i)) < rec_ExpiresAt r"
  shows "kept k r n (snd (issue_attempts a memory_backend_ops cfg ident now ttl draws m))"
  using assms(1,4)
proof (induction a arbitrary: draws m)
  case 0
  then show ?case by (simp add: kept_mono)
next
  case (Suc a)
  obtain draw tget tput where d: "draws 0 = (draw, tget, tput)" by (metis prod_cases3)
  have t: "tget < rec_ExpiresAt r" "tput < rec_ExpiresAt r" using Suc.prems(2) [of 0] d by simp_all
  show ?case
  proof (cases "randomSecret draw")
    case (Inl e)
    then show ?thesis using d kept_mono [OF Suc.prems(1)] by simp
  next
    case (Inr raw)
    obtain x m1 where g: "memory_get tget (tokenKey cfg raw) m = (x, m1)" by fastforce
    note G = kept_get [OF Suc.prems(1) t(1) g]
    let ?rc = "\<lparr>rec_Identity = ident, rec_IssuedAt = now, rec_ExpiresAt = now + ttl\<rparr>"
    consider (fresh) "x = Inl ErrNotFound" | (again) "x \<noteq> Inl ErrNotFound" "\<not> isl x \<or> x = Inl ErrRevoked \<or> x = Inl ErrExpired"
      | (failed) "x \<noteq> Inl ErrNotFound" "\<not> (\<not> isl x \<or> x = Inl ErrRevoked \<or> x = Inl ErrExpired)" by blast
    then show ?thesis
    proof cases
      case fresh
      then have "tokenKey cfg raw \<noteq> k" using G(2) by auto
      from kept_put [OF G(1) t(2) this assms(3,2)] have "kept k r n (snd (memory_put tput (tokenKey cfg raw) ?rc m1))" .
      moreover obtain m2 where "memory_put tput (tokenKey cfg raw) ?rc m1 = (Inr (), m2)" by (simp add: memory_put_def Let_def)
      ultimately show ?thesis using d Inr g fresh by (simp add: memory_backend_ops_def)
    next
      case again
      then have "snd (issue_attempts (Suc a) memory_backend_ops cfg ident now ttl draws m) =
          snd (issue_attempts a memory_backend_ops cfg ident now ttl (\<lambda>i. draws (Suc i)) m1)"
        using d Inr g by (simp add: memory_backend_ops_def)
      then show ?thesis using Suc.IH [OF G(1) Suc.prems(2)] by simp
    next
      case failed
      then show ?thesis using d Inr g kept_mono [OF G(1)] by (simp add: memory_backend_ops_def)
    qed
  qed
qed

lemma kept_call:
  assumes "kept (tokenKey cfg raw) r (if logs_in c then n + 1 else n) m" "0 \<le> n" "\<And>raw. tokenKey cfg raw \<noteq> []"
    "call_before (rec_ExpiresAt r) c" "\<not> logs_out cfg raw c"
  shows "kept (tokenKey cfg raw) r n (make_call cfg c m)"
proof (cases c)
  case (CallIssue ident now ttl draws)
  then show ?thesis using assms kept_issue [of _ r n m cfg draws] kept_mono by (simp add: issueWithTTL_def)
next
  case (CallResolve raw' tget now)
  obtain x m' where g: "memory_get tget (tokenKey cfg raw') m = (x, m')" by fastforce
  have "snd (Resolve memory_backend_ops cfg raw' tget now m) = (if blank raw' then m else m')"
    using g by (simp add: Resolve_def memory_backend_ops_def split: sum.split)
  then show ?thesis using assms CallResolve kept_get(1) [OF _ _ g, of "tokenKey cfg raw" r n] by simp
next
  case (CallRevoke raw' trev now)
  then show ?thesis using assms kept_revoke [of "tokenKey cfg raw" r n m trev "tokenKey cfg raw'"]
    by (simp add: Revoke_def memory_backend_ops_def)
qed

lemma kept_calls:
  assumes "kept (tokenKey cfg raw) r (int (length (filter logs_in calls))) m" "\<And>raw. tokenKey cfg raw \<noteq> []"
    "\<forall>c \<in> set calls. call_before (rec_ExpiresAt r) c \<and> \<not> logs_out cfg raw c"
  shows "kept (tokenKey cfg raw) r 0 (fold (make_call cfg) calls m)"
  using assms(1,3)
proof (induction calls arbitrary: m)
  case (Cons c calls)
  let ?n = "int (length (filter logs_in calls))"
  have "kept (tokenKey cfg raw) r (if logs_in c then ?n + 1 else ?n) m" using Cons.prems(1) by (auto simp: add.commute split: if_splits)
  then have "kept (tokenKey cfg raw) r ?n (make_call cfg c m)" by (rule kept_call) (use assms(2) Cons.prems(2) in simp_all)
  then show ?case using Cons.IH Cons.prems(2) by simp
qed simp

text \<open>Property C33. Logging in and out works: the handle \<open>Issue\<close> returns is not blank and resolves to
  the session it reported until that expires, whatever logins, looks and logouts of other handles come in
  between, as long as the table has room for the sessions they make, so that none has to be evicted; and once
  it is revoked the very next look at it reports it as revoked, whatever else the tables hold.\<close>

theorem login_logout_roundtrip:
  assumes "history memory_backend_ops cfg (New_backend maxEntries) evs m"
    and "\<And>raw. length (st_digest cfg raw) = 32" "\<And>i bytes. fst (draws i) = Inr bytes \<Longrightarrow> length bytes = 32"
    and "Issue memory_backend_ops cfg ident now draws m = (Inr (raw, ses), m')"
    and "\<forall>c \<in> set calls. call_before (ses_ExpiresAt ses) c \<and> \<not> logs_out cfg raw c"
    and "int (length (mb_sessions m')) + int (length (filter logs_in calls)) \<le> mb_maxEntries m'"
    and "m2 = fold (make_call cfg) calls m'"
    and "tget < ses_ExpiresAt ses" "t < ses_ExpiresAt ses" "trev < ses_ExpiresAt ses"
  shows "\<not> blank raw \<and> fst (Resolve memory_backend_ops cfg raw tget t m2) = Inr ses \<and>
    fst (Resolve memory_backend_ops cfg raw tget2 t2 (snd (Revoke memory_backend_ops cfg raw trev t3 m2))) = Inl ErrRevoked"
proof -
  let ?key = "tokenKey cfg raw" and ?r = "\<lparr>rec_Identity = ses_Identity ses, rec_IssuedAt = ses_IssuedAt ses, rec_ExpiresAt = ses_ExpiresAt ses\<rparr>"
  have st0: "issue_attempts maxIssueAttempts memory_backend_ops cfg ident now (st_ttl cfg) draws m = (Inr (raw, ses), m')"
    using assms(4) by (auto simp: Issue_def issueWithTTL_def split: if_splits)
  note st = issue_attempts_stores [OF st0 assms(3)]
  have "st_digest cfg r \<noteq> []" for r using assms(2) [of r] by auto
  then have key: "tokenKey cfg r \<noteq> []" for r by (simp add: tokenKey_def base64url_not_Nil)
  have "memory_ok m" using local_sessions.history_holds [OF assms(1) new_backend_ok] assms(2)
    by (metis list.size(3) zero_neq_numeral)
  then have "memory_ok m'" using local_sessions.issue_attempts_holds [OF _ key st0] by blast
  then have "kept ?key ?r (int (length (filter logs_in calls))) m'" using st assms(6) by (simp add: kept_def)
  from kept_calls [OF this key] have kept: "kept ?key ?r 0 m2" unfolding assms(7) using assms(5) by simp
  have ok: "memory_ok m2" and at: "map_of (mb_sessions m2) ?key = Some ?r" using kept by (simp_all add: kept_def)
  have "fst (Resolve memory_backend_ops cfg raw tget t m2) = Inr ses"
    using st at assms(8,9) by (simp add: Resolve_def memory_backend_ops_def memory_get_def)
  moreover have "map_of (mb_sessions (cleanupLocked trev m2)) ?key = Some ?r"
    using cleanup_sessions [OF ok] at assms(10) by (simp add: memory_holds_def)
  then have rv: "snd (Revoke memory_backend_ops cfg raw trev t3 m2) = addRevocationLocked ?key (ses_ExpiresAt ses) False
      ((cleanupLocked trev m2)\<lparr>mb_sessions := mdel ?key (mb_sessions (cleanupLocked trev m2))\<rparr>)"
    using st by (simp add: Revoke_def memory_backend_ops_def memory_revoke_def Let_def)
  have "memory_ok ((cleanupLocked trev m2)\<lparr>mb_sessions := mdel ?key (mb_sessions (cleanupLocked trev m2))\<rparr>)"
    using cleanup_ok [OF ok, of trev] length_mdel_le [of ?key "mb_sessions (cleanupLocked trev m2)"] by (auto simp: memory_ok_def)
  from add_revocation_ok [OF this] have "map_of (mb_sessions (snd (Revoke memory_backend_ops cfg raw trev t3 m2))) ?key = None"
    unfolding rv by simp
  then have "fst (Resolve memory_backend_ops cfg raw tget2 t2 (snd (Revoke memory_backend_ops cfg raw trev t3 m2))) = Inl ErrRevoked"
    using st logout_marks by (simp add: Resolve_def memory_backend_ops_def memory_get_def rv [simplified memory_backend_ops_def])
  moreover have "\<not> blank raw" using st by simp
  ultimately show ?thesis by blast
qed

subsection \<open>An example\<close>

definition ex_digest :: "string \<Rightarrow> string" where
  "ex_digest s = take 32 (s @ replicate 32 CHR ''0'')"

definition ex_session_config :: session_config where
  "ex_session_config = \<lparr>st_ttl = 10, st_digest = ex_digest\<rparr>"

definition ex_identity :: identity where
  "ex_identity = \<lparr>id_UserID = ''u'', id_Email = [], id_Name = [], id_RBACIdentity = [], id_Issuer = [], id_Subject = [], id_AuthType = []\<rparr>"

definition ex_draws :: "nat \<Rightarrow> attempt" where
  "ex_draws i = (Inr (replicate 32 CHR ''a''), 0, 0)"

definition ex_handle :: string where
  "ex_handle = base64url (replicate 32 CHR ''a'')"

definition ex_session :: session where
  "ex_session = \<lparr>ses_ID = ex_handle, ses_Identity = ex_identity, ses_IssuedAt = 0, ses_ExpiresAt = 10\<rparr>"

definition ex_backend :: memory_backend where
  "ex_backend = (New_backend 1)\<lparr>mb_sessions := [(tokenKey ex_session_config ex_handle,
     \<lparr>rec_Identity = ex_identity, rec_IssuedAt = 0, rec_ExpiresAt = 10\<rparr>)]\<rparr>"

lemma ex_digest_length: "length (st_digest ex_session_config raw) = 32"
  by (simp add: ex_session_config_def ex_digest_def)

lemma ex_issue: "Issue memory_backend_ops ex_session_config ex_identity 0 ex_draws (New_backend 1) =
  (Inr (ex_handle, ex_session), ex_backend)"
proof -
  have "\<not> blank ''u''" by (rule plain_not_blank) (simp_all add: plain_char_def ascii_space_def)
  then have "Issue memory_backend_ops ex_session_config ex_identity 0 ex_draws (New_backend 1) =
      issue_attempts (Suc 7) memory_backend_ops ex_session_config ex_identity 0 10 ex_draws (New_backend 1)"
    by (simp add: Issue_def issueWithTTL_def ex_session_config_def ex_identity_def maxIssueAttempts_def)
  moreover have "ex_draws 0 = (Inr (replicate 32 CHR ''a''), 0, 0)" by (simp add: ex_draws_def)
  moreover have "randomSecret (Inr (replicate 32 CHR ''a'')) = Inr ex_handle"
    unfolding randomSecret_def ex_handle_def by (simp only: sum.case)
  ultimately show ?thesis
    by (simp only: issue_attempts.simps prod.case sum.case)
      (simp add: memory_backend_ops_def memory_get_def memory_put_def New_backend_def newMemoryBackend_def cleanupLocked_def
        ex_backend_def ex_session_def mput_def)
qed

lemma ex_history: "history memory_backend_ops ex_session_config (New_backend 1)
  (issued ex_session_config (Inr (ex_handle, ex_session)) @ []) ex_backend"
  using history.issue [OF history.opened, of memory_backend_ops ex_session_config ex_identity 0 10 ex_draws "New_backend 1"] ex_issue
  by (simp add: Issue_def ex_session_config_def)

theorem login_logout_roundtrip_witness:
  "fst (Resolve memory_backend_ops ex_session_config ex_handle 5 5
     (fold (make_call ex_session_config) [CallResolve ex_handle 3 3, CallResolve ''stale'' 4 4] ex_backend)) = Inr ex_session"
  using login_logout_roundtrip [OF history.opened ex_digest_length _ ex_issue, of "[CallResolve ex_handle 3 3, CallResolve ''stale'' 4 4]" _ 5 5 5]
  by (simp add: ex_draws_def ex_session_def ex_backend_def New_backend_def newMemoryBackend_def)

theorem session_resolves_to_its_login_witness:
  "\<exists>post pre. issued ex_session_config (Inr (ex_handle, ex_session)) = post @ Issued (tokenKey ex_session_config ex_handle)
     \<lparr>rec_Identity = ex_identity, rec_IssuedAt = 0, rec_ExpiresAt = 10\<rparr> # pre"
proof -
  have nb: "\<not> blank ex_handle" unfolding ex_handle_def by (rule base64url_not_blank) simp
  have "Resolve memory_backend_ops ex_session_config ex_handle 5 5 ex_backend = (Inr ex_session, ex_backend)"
    using nb by (simp add: Resolve_def memory_backend_ops_def memory_get_def ex_backend_def ex_session_def New_backend_def
        newMemoryBackend_def cleanupLocked_def)
  from session_resolves_to_its_login [OF ex_history ex_digest_length this] show ?thesis by (auto simp: ex_session_def)
qed

theorem session_tables_bounded_witness: "int (length (mb_sessions ex_backend)) \<le> mb_maxEntries ex_backend"
  using session_tables_bounded [OF ex_history ex_digest_length] by simp

end
