(* ===== verification/Hub_App_Auth.thy ===== *)
theory Hub_App_Auth
  imports Hub_Session_Props Go_Text
begin

section \<open>Hub: signing in to published applications\<close>

text \<open>
  \<open>pkg/hub/appauth/appauth.go\<close>: the endpoint a private application sends an anonymous browser to, which
  turns the hub's session into a one-use code after one access review, and the endpoint at which the
  application's proxy redeems the code. Over the session store of \<open>Hub_Sessions\<close>. The URL parser, the
  access review (\<open>SubjectAccessReview\<close>, an error of its client included), the random draw, the clock
  readings and \<open>strings.EqualFold\<close> are arguments. Logging, headers and the text of error pages are left out.
\<close>

subsection \<open>Coordinates\<close>

record instance_ref =
  ir_Cluster :: string
  ir_Group :: string
  ir_Resource :: string
  ir_Name :: string

definition lower_alnum :: "char \<Rightarrow> bool" where
  "lower_alnum c = (let n = of_char c :: nat in 97 \<le> n \<and> n \<le> 122 \<or> 48 \<le> n \<and> n \<le> 57)"

text \<open>The regular expressions \<open>segmentRE\<close> and \<open>stateRE\<close>.\<close>

definition segmentRE :: "string \<Rightarrow> bool" where
  "segmentRE s \<longleftrightarrow> s \<noteq> [] \<and> length s \<le> 253 \<and> lower_alnum (hd s) \<and> lower_alnum (last s) \<and>
     list_all (\<lambda>c. lower_alnum c \<or> c = CHR ''.'' \<or> c = CHR ''-'') s"

definition stateRE :: "string \<Rightarrow> bool" where
  "stateRE s \<longleftrightarrow> s \<noteq> [] \<and> length s \<le> 256 \<and>
     list_all (\<lambda>c. lower_alnum c \<or> (let n = of_char c :: nat in 65 \<le> n \<and> n \<le> 90) \<or> c = CHR ''_'' \<or> c = CHR ''-'') s"

definition ref_validate :: "instance_ref \<Rightarrow> bool" where
  "ref_validate ref \<longleftrightarrow> list_all segmentRE [ir_Cluster ref, ir_Group ref, ir_Resource ref, ir_Name ref]"

definition ref_key :: "instance_ref \<Rightarrow> string" where
  "ref_key ref = ir_Cluster ref @ ''/'' @ ir_Group ref @ ''/'' @ ir_Resource ref @ ''/'' @ ir_Name ref"

lemma split_at_slash: "CHR ''/'' \<notin> set a \<Longrightarrow> CHR ''/'' \<notin> set b \<Longrightarrow> a @ CHR ''/'' # r = b @ CHR ''/'' # s \<Longrightarrow> a = b \<and> r = s"
proof (induction a arbitrary: b)
  case Nil
  then show ?case by (cases b) auto
next
  case (Cons c a)
  then show ?case by (cases b) auto
qed

lemma segment_no_slash: "segmentRE s \<Longrightarrow> CHR ''/'' \<notin> set s"
  by (auto simp: segmentRE_def list_all_iff lower_alnum_def dest: bspec [of _ _ "CHR ''/''"])

text \<open>The joined key tells valid coordinates apart.\<close>

lemma ref_key_inj:
  assumes "ref_validate a" "ref_validate b" "ref_key a = ref_key b"
  shows "a = b"
proof -
  have seg: "CHR ''/'' \<notin> set (ir_Cluster r)" "CHR ''/'' \<notin> set (ir_Group r)" "CHR ''/'' \<notin> set (ir_Resource r)"
    if "ref_validate r" for r using that segment_no_slash by (auto simp: ref_validate_def)
  have eq: "ir_Cluster a @ CHR ''/'' # (ir_Group a @ CHR ''/'' # (ir_Resource a @ CHR ''/'' # ir_Name a)) =
      ir_Cluster b @ CHR ''/'' # (ir_Group b @ CHR ''/'' # (ir_Resource b @ CHR ''/'' # ir_Name b))"
    using assms(3) by (simp add: ref_key_def)
  note 1 = split_at_slash [OF seg(1) [OF assms(1)] seg(1) [OF assms(2)] eq]
  note 2 = split_at_slash [OF seg(2) [OF assms(1)] seg(2) [OF assms(2)] conjunct2 [OF 1]]
  note 3 = split_at_slash [OF seg(3) [OF assms(1)] seg(3) [OF assms(2)] conjunct2 [OF 2]]
  show ?thesis using 1 2 3 by (cases a; cases b) simp
qed

subsection \<open>Redirects\<close>

text \<open>What the code reads of a parsed URL; \<open>pu_Host\<close> has the port, \<open>pu_Hostname\<close> does not.\<close>

record parsed_url =
  pu_Scheme :: string
  pu_User :: bool
  pu_Host :: string
  pu_Hostname :: string
  pu_EscapedPath :: string
  pu_RawQuery :: string
  pu_Fragment :: string

text \<open>The apps domain as \<open>New\<close> normalizes it; without one there is no handler.\<close>

definition apps_domain :: "string \<Rightarrow> string option" where
  "apps_domain configured =
     (let undot = dropWhile (\<lambda>c. c = CHR ''.''); domain = to_lower (rev (undot (rev (undot (trim_space configured)))))
      in if domain = [] then None else Some domain)"

definition CallbackPath :: string where "CallbackPath = ''/__faros/auth/callback''"

definition validateRedirect :: "string \<Rightarrow> (string \<Rightarrow> parsed_url option) \<Rightarrow> string \<Rightarrow> parsed_url option" where
  "validateRedirect domain parse raw =
     (case parse raw of None \<Rightarrow> None | Some u \<Rightarrow>
      if pu_Scheme u \<noteq> ''https'' \<or> pu_User u \<or> pu_Fragment u \<noteq> [] \<or> pu_RawQuery u \<noteq> [] then None
      else (let host = to_lower (pu_Hostname u) in
        if host = [] \<or> \<not> hasSuffix host (''.'' @ domain) then None
        else if CHR ''.'' \<in> set (trimSuffix host (''.'' @ domain)) then None
        else if pu_EscapedPath u \<noteq> CallbackPath then None
        else Some u))"

lemma validateRedirect_ok:
  assumes "validateRedirect domain parse raw = Some u"
  shows "parse raw = Some u" "pu_Scheme u = ''https''" "\<not> pu_User u" "pu_EscapedPath u = CallbackPath"
    "\<exists>label. to_lower (pu_Hostname u) = label @ ''.'' @ domain \<and> CHR ''.'' \<notin> set label"
proof -
  show "parse raw = Some u" "pu_Scheme u = ''https''" "\<not> pu_User u" "pu_EscapedPath u = CallbackPath"
    using assms by (auto simp: validateRedirect_def Let_def split: option.splits if_splits)
  have "hasSuffix (to_lower (pu_Hostname u)) (''.'' @ domain)" "CHR ''.'' \<notin> set (trimSuffix (to_lower (pu_Hostname u)) (''.'' @ domain))"
    using assms by (auto simp: validateRedirect_def Let_def split: option.splits if_splits)
  then show "\<exists>label. to_lower (pu_Hostname u) = label @ ''.'' @ domain \<and> CHR ''.'' \<notin> set label"
    by (auto simp: hasSuffix_iff trimSuffix_def)
qed

subsection \<open>Codes\<close>

record code_record =
  cr_Ref :: instance_ref
  cr_RedirectHost :: string
  cr_Identity :: identity
  cr_ExpiresAt :: gotime

text \<open>\<open>CodeStore\<close>: the clock reading of a call comes first.\<close>

record 's code_store =
  co_Put :: "gotime \<Rightarrow> string \<Rightarrow> code_record \<Rightarrow> 's \<Rightarrow> (string, unit) res \<times> 's"
  co_Take :: "gotime \<Rightarrow> string \<Rightarrow> 's \<Rightarrow> code_record option \<times> 's"

definition codeTTL :: duration where "codeTTL = 2 * 60 * 10 ^ 9"
definition sessionTTL :: duration where "sessionTTL = 15 * 60 * 10 ^ 9"
definition maxCodes :: nat where "maxCodes = 10000"

text \<open>The process-local store: a map, cleaned and bounded by every \<open>Put\<close>.\<close>

type_synonym memory_codes = "(string, code_record) gomap"

definition newMemoryCodeStore :: memory_codes where
  "newMemoryCodeStore = []"

definition codes_cleanupLocked :: "gotime \<Rightarrow> memory_codes \<Rightarrow> memory_codes" where
  "codes_cleanupLocked now m = filter (\<lambda>(k, r). \<not> now > cr_ExpiresAt r) m"

fun oldest_code :: "memory_codes \<Rightarrow> string \<Rightarrow> gotime \<Rightarrow> string" where
  "oldest_code [] oldestKey oldest = oldestKey"
| "oldest_code ((k, r) # m) oldestKey oldest =
     (if oldestKey = [] \<or> cr_ExpiresAt r < oldest then oldest_code m k (cr_ExpiresAt r)
      else oldest_code m oldestKey oldest)"

definition codes_evictOldestLocked :: "memory_codes \<Rightarrow> memory_codes" where
  "codes_evictOldestLocked m = (let k = oldest_code m [] 0 in if k \<noteq> [] then mdel k m else m)"

text \<open>The loop that evicts until there is room. A round removes an entry unless the oldest key is the empty
  text, which no code is, so as many rounds as there are entries are enough.\<close>

fun evict_rounds :: "nat \<Rightarrow> memory_codes \<Rightarrow> memory_codes" where
  "evict_rounds 0 m = m"
| "evict_rounds (Suc n) m = (if length m \<ge> maxCodes then evict_rounds n (codes_evictOldestLocked m) else m)"

definition codes_put :: "gotime \<Rightarrow> string \<Rightarrow> code_record \<Rightarrow> memory_codes \<Rightarrow> (string, unit) res \<times> memory_codes" where
  "codes_put now code record m =
     (let m1 = codes_cleanupLocked now m in (Inr (), mput code record (evict_rounds (length m1) m1)))"

definition codes_take :: "gotime \<Rightarrow> string \<Rightarrow> memory_codes \<Rightarrow> code_record option \<times> memory_codes" where
  "codes_take now code m =
     (case map_of m code of None \<Rightarrow> (None, m)
      | Some record \<Rightarrow> if now > cr_ExpiresAt record then (None, mdel code m) else (Some record, mdel code m))"

definition memory_code_store :: "memory_codes code_store" where
  "memory_code_store = \<lparr>co_Put = codes_put, co_Take = codes_take\<rparr>"

subsection \<open>Authorize\<close>

text \<open>The access review that is asked for, and what the endpoint uses of its surroundings: the clock of the
  session lookup (twice), of the code's lifetime and of the code store.\<close>

record access_review =
  sv_Cluster :: string
  sv_User :: string
  sv_Groups :: "string list"
  sv_Group :: string
  sv_Resource :: string
  sv_Subresource :: string
  sv_Name :: string
  sv_Verb :: string

record authorize_env =
  az_ParseURL :: "string \<Rightarrow> parsed_url option"
  az_SAR :: "access_review \<Rightarrow> (string, bool) res"
  az_Draw :: "(string, string) res"
  az_Tget :: gotime
  az_Now :: gotime
  az_Mint :: gotime
  az_Put :: gotime

record authorize_request =
  aq_Ref :: instance_ref
  aq_State :: string
  aq_RedirectURI :: string
  aq_Retried :: string
  aq_Cookie :: "string option"

datatype authorize_response = ErrorPage nat | ToLogin | ToApp parsed_url string string

definition app_review :: "string \<Rightarrow> instance_ref \<Rightarrow> access_review" where
  "app_review user ref = \<lparr>sv_Cluster = ir_Cluster ref, sv_User = user, sv_Groups = [''system:authenticated''],
     sv_Group = ir_Group ref, sv_Resource = ir_Resource ref, sv_Subresource = ''access'', sv_Name = ir_Name ref,
     sv_Verb = ''get''\<rparr>"

definition app_authorize :: "(access_review \<Rightarrow> (string, bool) res) \<Rightarrow> identity \<Rightarrow> instance_ref \<Rightarrow> (string, bool) res" where
  "app_authorize sar ident ref =
     (let user = trim_space (id_RBACIdentity ident) in if user = [] then Inr False else sar (app_review user ref))"

definition code_for :: "instance_ref \<Rightarrow> string \<Rightarrow> identity \<Rightarrow> gotime \<Rightarrow> code_record" where
  "code_for ref host ident now = \<lparr>cr_Ref = ref, cr_RedirectHost = to_lower host, cr_Identity = ident, cr_ExpiresAt = now + codeTTL\<rparr>"

definition mintCode :: "'s code_store \<Rightarrow> authorize_env \<Rightarrow> instance_ref \<Rightarrow> string \<Rightarrow> identity \<Rightarrow> 's \<Rightarrow> (string, string) res \<times> 's" where
  "mintCode cs env ref host ident s =
     (case az_Draw env of Inl err \<Rightarrow> (Inl err, s) | Inr bytes \<Rightarrow>
      (let code = base64url bytes in
       case co_Put cs (az_Put env) code (code_for ref host ident (az_Mint env)) s of
         (Inl err, s') \<Rightarrow> (Inl err, s') | (Inr _, s') \<Rightarrow> (Inr code, s')))"

definition HandleAuthorize ::
  "'b session_backend \<Rightarrow> session_config \<Rightarrow> 's code_store \<Rightarrow> string \<Rightarrow> authorize_env \<Rightarrow> authorize_request \<Rightarrow>
   's \<Rightarrow> 'b \<Rightarrow> authorize_response \<times> 's \<times> 'b" where
  "HandleAuthorize be cfg cs domain env q s b =
     (case validateRedirect domain (az_ParseURL env) (aq_RedirectURI q) of None \<Rightarrow> (ErrorPage 400, s, b) | Some redirect \<Rightarrow>
      if \<not> ref_validate (aq_Ref q) \<or> \<not> stateRE (aq_State q) then (ErrorPage 400, s, b)
      else (case ResolveRequest be cfg (aq_Cookie q) (az_Tget env) (az_Now env) b of
        (Inl err, b') \<Rightarrow> if aq_Retried q \<noteq> [] then (ErrorPage 401, s, b') else (ToLogin, s, b')
      | (Inr ses, b') \<Rightarrow>
          (case app_authorize (az_SAR env) (ses_Identity ses) (aq_Ref q) of
             Inl err \<Rightarrow> (ErrorPage 503, s, b')
           | Inr False \<Rightarrow> (ErrorPage 403, s, b')
           | Inr True \<Rightarrow>
               (case mintCode cs env (aq_Ref q) (pu_Host redirect) (ses_Identity ses) s of
                  (Inl err, s') \<Rightarrow> (ErrorPage 500, s', b')
                | (Inr code, s') \<Rightarrow> (ToApp redirect code (aq_State q), s', b')))))"

subsection \<open>Exchange\<close>

record exchange_request =
  xq_Code :: string
  xq_Host :: string
  xq_Ref :: instance_ref

record exchange_grant =
  xg_UserID :: string
  xg_Email :: string
  xg_Name :: string
  xg_SessionTTLSeconds :: int

text \<open>The request is \<open>None\<close> when its body does not decode; the answer is a status code or a grant.\<close>

definition HandleExchange ::
  "(string \<Rightarrow> string \<Rightarrow> bool) \<Rightarrow> 's code_store \<Rightarrow> gotime \<Rightarrow> exchange_request option \<Rightarrow> 's \<Rightarrow> (nat, exchange_grant) res \<times> 's" where
  "HandleExchange feq cs now body s =
     (case body of None \<Rightarrow> (Inl 400, s) | Some req \<Rightarrow>
      if \<not> ref_validate (xq_Ref req) \<or> blank (xq_Code req) \<or> blank (xq_Host req) then (Inl 400, s)
      else (case co_Take cs now (xq_Code req) s of
        (None, s') \<Rightarrow> (Inl 410, s')
      | (Some record, s') \<Rightarrow>
          if ref_key (cr_Ref record) \<noteq> ref_key (xq_Ref req) \<or> \<not> feq (cr_RedirectHost record) (xq_Host req) then (Inl 410, s')
          else (Inr \<lparr>xg_UserID = id_UserID (cr_Identity record), xg_Email = id_Email (cr_Identity record),
                  xg_Name = id_Name (cr_Identity record), xg_SessionTTLSeconds = sessionTTL div 10 ^ 9\<rparr>, s')))"

end
