(* ===== verification/Hub_Shared_Store.thy ===== *)
theory Hub_Shared_Store
  imports Go_Time Hub_App_Auth
begin

section \<open>Hub: the store that replicas share\<close>

text \<open>
  \<open>pkg/hub/sharedstore\<close>: browser sessions and sign-in codes kept as Kubernetes Secrets, so that every replica
  of the hub sees them. An operation is a tree of its calls to the API server, each with a continuation for every
  answer, so that the calls of replicas can interleave. The digest (\<open>sha256.Sum256\<close>) and the clock are arguments;
  times are written in UTC. A body that holds a time with escapes, which Go refuses, is read.
\<close>

subsection \<open>Calls to the API server\<close>

record secret =
  sc_Name :: string
  sc_UID :: string
  sc_ResourceVersion :: string
  sc_Kind :: string
  sc_Data :: "(string, string) gomap"

text \<open>The errors the code tells apart, each with its text.\<close>

datatype api_error = IsNotFound string | IsAlreadyExists string | IsConflict string | ApiFailed string

fun api_text :: "api_error \<Rightarrow> string" where
  "api_text (IsNotFound t) = t" | "api_text (IsAlreadyExists t) = t" | "api_text (IsConflict t) = t" | "api_text (ApiFailed t) = t"

datatype 'a api_call =
    Finished 'a
  | CreateSecret secret "(api_error, unit) res \<Rightarrow> 'a api_call"
  | UpdateSecret secret "(api_error, unit) res \<Rightarrow> 'a api_call"
  | GetSecret string "(api_error, secret) res \<Rightarrow> 'a api_call"
  | DeleteSecret string "(string \<times> string) option" "(api_error, unit) res \<Rightarrow> 'a api_call"
  | ListSecrets string "(api_error, secret list) res \<Rightarrow> 'a api_call"

primrec and_then :: "'a api_call \<Rightarrow> ('a \<Rightarrow> 'b api_call) \<Rightarrow> 'b api_call" where
  "and_then (Finished x) f = f x"
| "and_then (CreateSecret s k) f = CreateSecret s (\<lambda>r. and_then (k r) f)"
| "and_then (UpdateSecret s k) f = UpdateSecret s (\<lambda>r. and_then (k r) f)"
| "and_then (GetSecret n k) f = GetSecret n (\<lambda>r. and_then (k r) f)"
| "and_then (DeleteSecret n p k) f = DeleteSecret n p (\<lambda>r. and_then (k r) f)"
| "and_then (ListSecrets l k) f = ListSecrets l (\<lambda>r. and_then (k r) f)"

subsection \<open>The store\<close>

record shared_store =
  sh_kind :: string
  sh_digest :: "string \<Rightarrow> string"

datatype shared_error = SharedNotFound | SharedFailed string

definition objectName :: "shared_store \<Rightarrow> string \<Rightarrow> string" where
  "objectName st key = sh_kind st @ ''-'' @ hex_encode (sh_digest st key)"

definition expired :: "gotime \<Rightarrow> secret \<Rightarrow> bool" where
  "expired now sec =
     (case map_of (sc_Data sec) ''expiresAt'' of None \<Rightarrow> True | Some raw \<Rightarrow>
      (case parse_rfc3339 raw of None \<Rightarrow> True | Some expiresAt \<Rightarrow> \<not> now < expiresAt))"

definition secret_value :: "secret \<Rightarrow> string" where
  "secret_value sec = (case map_of (sc_Data sec) ''value'' of None \<Rightarrow> [] | Some v \<Rightarrow> v)"

definition deleteExact :: "secret \<Rightarrow> ((api_error, unit) res \<Rightarrow> 'a api_call) \<Rightarrow> 'a api_call" where
  "deleteExact sec = DeleteSecret (sc_Name sec) (Some (sc_UID sec, sc_ResourceVersion sec))"

definition new_secret :: "shared_store \<Rightarrow> string \<Rightarrow> string \<Rightarrow> gotime \<Rightarrow> secret" where
  "new_secret st key v expiresAt = \<lparr>sc_Name = objectName st key, sc_UID = [], sc_ResourceVersion = [], sc_Kind = sh_kind st,
     sc_Data = [(''value'', v), (''expiresAt'', rfc3339_nano expiresAt)]\<rparr>"

definition failed_to :: "string \<Rightarrow> shared_store \<Rightarrow> api_error \<Rightarrow> shared_error" where
  "failed_to doing st err = SharedFailed (''sharedstore: '' @ doing @ '' '' @ sh_kind st @ '' entry: '' @ api_text err)"

definition put_result :: "shared_store \<Rightarrow> (api_error, unit) res \<Rightarrow> (shared_error, unit) res" where
  "put_result st r = (case r of Inl err \<Rightarrow> Inl (failed_to ''writing'' st err) | Inr _ \<Rightarrow> Inr ())"

definition shared_put :: "shared_store \<Rightarrow> string \<Rightarrow> string \<Rightarrow> gotime \<Rightarrow> (shared_error, unit) res api_call" where
  "shared_put st key v expiresAt =
     (let sec = new_secret st key v expiresAt in
      CreateSecret sec (\<lambda>r. case r of
         Inl (IsAlreadyExists _) \<Rightarrow> UpdateSecret sec (\<lambda>r'. Finished (put_result st r'))
       | _ \<Rightarrow> Finished (put_result st r)))"

definition shared_get :: "shared_store \<Rightarrow> string \<Rightarrow> gotime \<Rightarrow> (shared_error, string) res api_call" where
  "shared_get st key now = GetSecret (objectName st key) (\<lambda>r. case r of
     Inl (IsNotFound _) \<Rightarrow> Finished (Inl SharedNotFound)
   | Inl err \<Rightarrow> Finished (Inl (failed_to ''reading'' st err))
   | Inr sec \<Rightarrow> if expired now sec then deleteExact sec (\<lambda>_. Finished (Inl SharedNotFound))
       else Finished (Inr (secret_value sec)))"

definition shared_take :: "shared_store \<Rightarrow> string \<Rightarrow> gotime \<Rightarrow> (shared_error, string) res api_call" where
  "shared_take st key now = GetSecret (objectName st key) (\<lambda>r. case r of
     Inl (IsNotFound _) \<Rightarrow> Finished (Inl SharedNotFound)
   | Inl err \<Rightarrow> Finished (Inl (failed_to ''reading'' st err))
   | Inr sec \<Rightarrow> deleteExact sec (\<lambda>d. case d of
       Inl (IsNotFound _) \<Rightarrow> Finished (Inl SharedNotFound)
     | Inl (IsConflict _) \<Rightarrow> Finished (Inl SharedNotFound)
     | Inl err \<Rightarrow> Finished (Inl (failed_to ''redeeming'' st err))
     | Inr _ \<Rightarrow> Finished (if expired now sec then Inl SharedNotFound else Inr (secret_value sec))))"

definition shared_delete :: "shared_store \<Rightarrow> string \<Rightarrow> (shared_error, unit) res api_call" where
  "shared_delete st key = DeleteSecret (objectName st key) None (\<lambda>r. case r of
     Inr _ \<Rightarrow> Finished (Inr ()) | Inl (IsNotFound _) \<Rightarrow> Finished (Inr ())
   | Inl err \<Rightarrow> Finished (Inl (failed_to ''deleting'' st err)))"

text \<open>The sweep returns how many entries it removed so far beside an error; the clock is read for every entry.\<close>

fun gc_loop :: "shared_store \<Rightarrow> (nat \<Rightarrow> gotime) \<Rightarrow> nat \<Rightarrow> secret list \<Rightarrow> (nat \<times> shared_error option) api_call" where
  "gc_loop st clock deleted [] = Finished (deleted, None)"
| "gc_loop st clock deleted (sec # secs) =
     (if \<not> expired (clock (length secs)) sec then gc_loop st clock deleted secs
      else deleteExact sec (\<lambda>d. case d of
         Inl (ApiFailed t) \<Rightarrow> Finished (deleted, Some (failed_to ''deleting expired'' st (ApiFailed t)))
       | Inl (IsAlreadyExists t) \<Rightarrow> Finished (deleted, Some (failed_to ''deleting expired'' st (IsAlreadyExists t)))
       | _ \<Rightarrow> gc_loop st clock (deleted + 1) secs))"

definition shared_GC :: "shared_store \<Rightarrow> (nat \<Rightarrow> gotime) \<Rightarrow> (nat \<times> shared_error option) api_call" where
  "shared_GC st clock = ListSecrets (''faros.sh/shared-store='' @ sh_kind st) (\<lambda>r. case r of
     Inl err \<Rightarrow> Finished (0, Some (SharedFailed (''sharedstore: listing '' @ sh_kind st @ '' entries: '' @ api_text err)))
   | Inr secs \<Rightarrow> gc_loop st clock 0 secs)"

subsection \<open>Records as they are stored\<close>

definition codes_store :: "(string \<Rightarrow> string) \<Rightarrow> shared_store" where
  "codes_store digest = \<lparr>sh_kind = ''faros-appcode'', sh_digest = digest\<rparr>"

definition sessions_store :: "(string \<Rightarrow> string) \<Rightarrow> shared_store" where
  "sessions_store digest = \<lparr>sh_kind = ''faros-session'', sh_digest = digest\<rparr>"

text \<open>The keys of \<open>storedCode\<close> and \<open>storedSession\<close>, and which are left out when empty.\<close>

definition code_fields :: "code_record \<Rightarrow> (string \<times> bool \<times> string) list" where
  "code_fields r = (let ref = cr_Ref r; i = cr_Identity r in
     [(''cluster'', False, ir_Cluster ref), (''group'', False, ir_Group ref), (''resource'', False, ir_Resource ref),
      (''name'', False, ir_Name ref), (''redirectHost'', False, cr_RedirectHost r), (''userID'', False, id_UserID i),
      (''email'', True, id_Email i), (''displayName'', True, id_Name i), (''rbacIdentity'', True, id_RBACIdentity i),
      (''issuer'', True, id_Issuer i), (''subject'', True, id_Subject i), (''authType'', True, id_AuthType i),
      (''expiresAt'', False, rfc3339_nano (cr_ExpiresAt r))])"

definition session_fields :: "session_record \<Rightarrow> (string \<times> bool \<times> string) list" where
  "session_fields r = (let i = rec_Identity r in
     [(''userID'', False, id_UserID i), (''email'', True, id_Email i), (''name'', True, id_Name i),
      (''rbacIdentity'', True, id_RBACIdentity i), (''issuer'', True, id_Issuer i), (''subject'', True, id_Subject i),
      (''authType'', True, id_AuthType i), (''issuedAt'', False, rfc3339_nano (rec_IssuedAt r)),
      (''expiresAt'', False, rfc3339_nano (rec_ExpiresAt r))])"

text \<open>\<open>json.Marshal\<close> fails on a year beyond four digits.\<close>

definition marshal_code :: "code_record \<Rightarrow> string option" where
  "marshal_code r = (if json_time_ok (cr_ExpiresAt r) then Some (json_encode (JObject (text_fields (code_fields r)))) else None)"

definition marshal_session :: "session_record \<Rightarrow> string option" where
  "marshal_session r = (if json_time_ok (rec_IssuedAt r) \<and> json_time_ok (rec_ExpiresAt r)
     then Some (json_encode (JObject (text_fields (session_fields r)))) else None)"

fun read_times :: "json list \<Rightarrow> gotime \<Rightarrow> gotime option" where
  "read_times [] t = Some t"
| "read_times (v # vs) t = (case v of JString s \<Rightarrow> (case parse_rfc3339 s of Some t' \<Rightarrow> read_times vs t' | None \<Rightarrow> None) | _ \<Rightarrow> None)"

definition time_field :: "string \<Rightarrow> (string \<times> json) list \<Rightarrow> gotime option" where
  "time_field name kvs = read_times (struct_fields name kvs) 0"

definition read_texts :: "string list \<Rightarrow> (string \<times> json) list \<Rightarrow> string list option" where
  "read_texts names kvs = those (map (\<lambda>name. string_field name kvs) names)"

definition unmarshal_code :: "string \<Rightarrow> code_record option" where
  "unmarshal_code s = (case decode_object s of None \<Rightarrow> None | Some kvs \<Rightarrow>
     (case (read_texts [''cluster'', ''group'', ''resource'', ''name''] kvs,
            read_texts [''redirecthost'', ''userid'', ''email'', ''displayname''] kvs,
            read_texts [''rbacidentity'', ''issuer'', ''subject'', ''authtype''] kvs, time_field ''expiresat'' kvs) of
        (Some [cl, gr, rs, nm], Some [host, user, email, display], Some [rbac, issuer, subject, auth], Some t) \<Rightarrow>
          Some \<lparr>cr_Ref = \<lparr>ir_Cluster = cl, ir_Group = gr, ir_Resource = rs, ir_Name = nm\<rparr>, cr_RedirectHost = host,
            cr_Identity = \<lparr>id_UserID = user, id_Email = email, id_Name = display, id_RBACIdentity = rbac, id_Issuer = issuer,
              id_Subject = subject, id_AuthType = auth\<rparr>, cr_ExpiresAt = t\<rparr>
      | _ \<Rightarrow> None))"

definition unmarshal_session :: "string \<Rightarrow> session_record option" where
  "unmarshal_session s = (case decode_object s of None \<Rightarrow> None | Some kvs \<Rightarrow>
     (case (read_texts [''userid'', ''email'', ''name''] kvs, read_texts [''rbacidentity'', ''issuer'', ''subject'', ''authtype''] kvs,
            time_field ''issuedat'' kvs, time_field ''expiresat'' kvs) of
        (Some [user, email, name], Some [rbac, issuer, subject, auth], Some t, Some t') \<Rightarrow>
          Some \<lparr>rec_Identity = \<lparr>id_UserID = user, id_Email = email, id_Name = name, id_RBACIdentity = rbac, id_Issuer = issuer,
            id_Subject = subject, id_AuthType = auth\<rparr>, rec_IssuedAt = t, rec_ExpiresAt = t'\<rparr>
      | _ \<Rightarrow> None))"

subsection \<open>The adapters\<close>

definition AppCode_Put :: "(string \<Rightarrow> string) \<Rightarrow> string \<Rightarrow> code_record \<Rightarrow> (shared_error, unit) res api_call" where
  "AppCode_Put digest code r = (case marshal_code r of
     None \<Rightarrow> Finished (Inl (SharedFailed ''encoding app authorization code''))
   | Some v \<Rightarrow> shared_put (codes_store digest) code v (cr_ExpiresAt r))"

definition AppCode_Take :: "(string \<Rightarrow> string) \<Rightarrow> string \<Rightarrow> gotime \<Rightarrow> code_record option api_call" where
  "AppCode_Take digest code now = and_then (shared_take (codes_store digest) code now)
     (\<lambda>r. Finished (case r of Inl _ \<Rightarrow> None | Inr v \<Rightarrow> unmarshal_code v))"

definition SharedSession_Put :: "(string \<Rightarrow> string) \<Rightarrow> string \<Rightarrow> session_record \<Rightarrow> (shared_error, unit) res api_call" where
  "SharedSession_Put digest key r = (case marshal_session r of
     None \<Rightarrow> Finished (Inl (SharedFailed ''encoding browser session''))
   | Some v \<Rightarrow> shared_put (sessions_store digest) key v (rec_ExpiresAt r))"

definition SharedSession_Get :: "(string \<Rightarrow> string) \<Rightarrow> string \<Rightarrow> gotime \<Rightarrow> (session_error, session_record) res api_call" where
  "SharedSession_Get digest key now = and_then (shared_get (sessions_store digest) key now)
     (\<lambda>r. Finished (case r of
        Inl SharedNotFound \<Rightarrow> Inl ErrNotFound
      | Inl (SharedFailed t) \<Rightarrow> Inl (BackendFailed t)
      | Inr v \<Rightarrow> (case unmarshal_session v of None \<Rightarrow> Inl ErrNotFound | Some rec \<Rightarrow> Inr rec)))"

definition SharedSession_Revoke :: "(string \<Rightarrow> string) \<Rightarrow> string \<Rightarrow> (shared_error, unit) res api_call" where
  "SharedSession_Revoke digest key = shared_delete (sessions_store digest) key"

subsection \<open>A stored record reads back\<close>

lemma struct_keys [simp]:
  "coerce_utf8 ''cluster'' = ''cluster''" "coerce_utf8 ''group'' = ''group''" "coerce_utf8 ''resource'' = ''resource''"
  "coerce_utf8 ''name'' = ''name''" "coerce_utf8 ''redirectHost'' = ''redirectHost''" "coerce_utf8 ''userID'' = ''userID''"
  "coerce_utf8 ''email'' = ''email''" "coerce_utf8 ''displayName'' = ''displayName''" "coerce_utf8 ''rbacIdentity'' = ''rbacIdentity''"
  "coerce_utf8 ''issuer'' = ''issuer''" "coerce_utf8 ''subject'' = ''subject''" "coerce_utf8 ''authType'' = ''authType''"
  "coerce_utf8 ''expiresAt'' = ''expiresAt''" "coerce_utf8 ''issuedAt'' = ''issuedAt''"
  by (rule coerce_utf8_ascii, code_simp)+

definition coerce_identity :: "identity \<Rightarrow> identity" where
  "coerce_identity i = \<lparr>id_UserID = coerce_utf8 (id_UserID i), id_Email = coerce_utf8 (id_Email i), id_Name = coerce_utf8 (id_Name i),
     id_RBACIdentity = coerce_utf8 (id_RBACIdentity i), id_Issuer = coerce_utf8 (id_Issuer i),
     id_Subject = coerce_utf8 (id_Subject i), id_AuthType = coerce_utf8 (id_AuthType i)\<rparr>"

definition coerce_code :: "code_record \<Rightarrow> code_record" where
  "coerce_code r = (let ref = cr_Ref r in
     \<lparr>cr_Ref = \<lparr>ir_Cluster = coerce_utf8 (ir_Cluster ref), ir_Group = coerce_utf8 (ir_Group ref),
        ir_Resource = coerce_utf8 (ir_Resource ref), ir_Name = coerce_utf8 (ir_Name ref)\<rparr>,
      cr_RedirectHost = coerce_utf8 (cr_RedirectHost r), cr_Identity = coerce_identity (cr_Identity r), cr_ExpiresAt = cr_ExpiresAt r\<rparr>)"

definition coerce_session :: "session_record \<Rightarrow> session_record" where
  "coerce_session r = r\<lparr>rec_Identity := coerce_identity (rec_Identity r)\<rparr>"

lemma digit_ascii: "is_digit c \<Longrightarrow> between 0 0x7F c"
  by (auto simp: is_digit_def between_def)

lemma decimal_ascii: "list_all (between 0 0x7F) (decimal w n)"
proof (induction w arbitrary: n)
  case (Suc w)
  obtain k :: nat where k: "n mod 10 = int k" "k < 10"
    using pos_mod_bound [of 10 n] pos_mod_sign [of 10 n] by (metis nat_0_le nat_less_iff of_nat_numeral zero_less_numeral)
  have "(48 :: int) + n mod 10 = int (48 + k)" using k(1) by simp
  then have "char_of (48 + n mod 10) = (char_of (48 + k) :: char)" by (simp only: char_of_nat)
  then show ?case using Suc.IH [of "n div 10"] digit_ascii [OF digit_facts(1) [OF k(2)]] by (simp del: char_of_def)
qed simp

lemma drop_zeros_subset: "set (drop_zeros s) \<subseteq> set s"
  by (auto simp: drop_zeros_def dest: set_dropWhileD)

lemma rfc3339_ascii: "coerce_utf8 (rfc3339_nano t) = rfc3339_nano t"
proof (rule coerce_utf8_ascii)
  have dec: "c \<in> set (decimal w n) \<Longrightarrow> between 0 0x7F c" for c w n using decimal_ascii [of w n] by (auto simp: list_all_iff)
  then have dz: "c \<in> set (drop_zeros (decimal w n)) \<Longrightarrow> between 0 0x7F c" for c w n using drop_zeros_subset by blast
  have sep: "between 0 0x7F CHR ''-''" "between 0 0x7F CHR ''T''" "between 0 0x7F CHR '':''" "between 0 0x7F CHR ''.''" "between 0 0x7F CHR ''Z''"
    by code_simp+
  show "\<forall>c \<in> set (rfc3339_nano t). between 0 0x7F c"
    unfolding rfc3339_nano_def Let_def by (auto split: prod.splits if_splits dest: dec dz simp: sep)
qed

lemma read_texts_ok: "list_all2 (\<lambda>name v. string_field name kvs = Some v) names vs \<Longrightarrow> read_texts names kvs = Some vs"
  by (induction rule: list_all2_induct) (auto simp: read_texts_def)

lemma time_field_written:
  assumes "distinct (map fst fs)" "list_all (\<lambda>f. coerce_utf8 (fst f) = fst f) fs" "selects (map fst fs) name k"
    "(k, False, rfc3339_nano t) \<in> set fs" "json_time_ok t"
  shows "time_field name (written_struct fs) = Some t"
  using struct_fields_written [OF assms(1-4)] rfc3339_read_back [OF assms(5)] by (simp add: time_field_def rfc3339_ascii)

definition code_keys :: "string list" where
  "code_keys = [''cluster'', ''group'', ''resource'', ''name'', ''redirectHost'', ''userID'', ''email'', ''displayName'', ''rbacIdentity'',
     ''issuer'', ''subject'', ''authType'', ''expiresAt'']"

lemma code_selects:
  "selects code_keys ''cluster'' ''cluster''" "selects code_keys ''group'' ''group''" "selects code_keys ''resource'' ''resource''"
  "selects code_keys ''name'' ''name''" "selects code_keys ''redirecthost'' ''redirectHost''" "selects code_keys ''userid'' ''userID''"
  "selects code_keys ''email'' ''email''" "selects code_keys ''displayname'' ''displayName''"
  "selects code_keys ''rbacidentity'' ''rbacIdentity''" "selects code_keys ''issuer'' ''issuer''" "selects code_keys ''subject'' ''subject''"
  "selects code_keys ''authtype'' ''authType''" "selects code_keys ''expiresat'' ''expiresAt''"
  by code_simp+

lemma code_read_back:
  assumes "marshal_code r = Some s"
  shows "unmarshal_code s = Some (coerce_code r)"
proof -
  let ?fs = "code_fields r"
  have ok: "json_time_ok (cr_ExpiresAt r)" and s: "s = json_encode (JObject (text_fields ?fs))"
    using assms by (auto simp: marshal_code_def split: if_splits)
  have keys: "map fst ?fs = code_keys" by (simp add: code_fields_def code_keys_def Let_def)
  have d: "distinct (map fst ?fs)" unfolding keys code_keys_def by simp
  have c: "list_all (\<lambda>f. coerce_utf8 (fst f) = fst f) ?fs" by (simp add: code_fields_def Let_def)
  note sel = code_selects [folded keys]
  note str = string_field_written [OF d c]
  have m: "(''cluster'', False, ir_Cluster (cr_Ref r)) \<in> set ?fs" "(''group'', False, ir_Group (cr_Ref r)) \<in> set ?fs"
    "(''resource'', False, ir_Resource (cr_Ref r)) \<in> set ?fs" "(''name'', False, ir_Name (cr_Ref r)) \<in> set ?fs"
    "(''redirectHost'', False, cr_RedirectHost r) \<in> set ?fs" "(''userID'', False, id_UserID (cr_Identity r)) \<in> set ?fs"
    "(''email'', True, id_Email (cr_Identity r)) \<in> set ?fs" "(''displayName'', True, id_Name (cr_Identity r)) \<in> set ?fs"
    "(''rbacIdentity'', True, id_RBACIdentity (cr_Identity r)) \<in> set ?fs" "(''issuer'', True, id_Issuer (cr_Identity r)) \<in> set ?fs"
    "(''subject'', True, id_Subject (cr_Identity r)) \<in> set ?fs" "(''authType'', True, id_AuthType (cr_Identity r)) \<in> set ?fs"
    "(''expiresAt'', False, rfc3339_nano (cr_ExpiresAt r)) \<in> set ?fs"
    by (simp_all add: code_fields_def Let_def)
  have t: "read_texts [''cluster'', ''group'', ''resource'', ''name''] (written_struct ?fs) = Some [coerce_utf8 (ir_Cluster (cr_Ref r)),
      coerce_utf8 (ir_Group (cr_Ref r)), coerce_utf8 (ir_Resource (cr_Ref r)), coerce_utf8 (ir_Name (cr_Ref r))]"
    "read_texts [''redirecthost'', ''userid'', ''email'', ''displayname''] (written_struct ?fs) = Some [coerce_utf8 (cr_RedirectHost r),
      coerce_utf8 (id_UserID (cr_Identity r)), coerce_utf8 (id_Email (cr_Identity r)), coerce_utf8 (id_Name (cr_Identity r))]"
    "read_texts [''rbacidentity'', ''issuer'', ''subject'', ''authtype''] (written_struct ?fs) = Some [coerce_utf8 (id_RBACIdentity (cr_Identity r)),
      coerce_utf8 (id_Issuer (cr_Identity r)), coerce_utf8 (id_Subject (cr_Identity r)), coerce_utf8 (id_AuthType (cr_Identity r))]"
    by (rule read_texts_ok; simp only: list_all2_Cons list.rel_inject(1) str [OF sel(1) m(1)] str [OF sel(2) m(2)] str [OF sel(3) m(3)]
        str [OF sel(4) m(4)] str [OF sel(5) m(5)] str [OF sel(6) m(6)] str [OF sel(7) m(7)] str [OF sel(8) m(8)] str [OF sel(9) m(9)]
        str [OF sel(10) m(10)] str [OF sel(11) m(11)] str [OF sel(12) m(12)] simp_thms)+
  show ?thesis unfolding unmarshal_code_def s decode_written option.case t time_field_written [OF d c sel(13) m(13) ok]
    by (simp add: coerce_code_def coerce_identity_def Let_def)
qed

definition session_keys :: "string list" where
  "session_keys = [''userID'', ''email'', ''name'', ''rbacIdentity'', ''issuer'', ''subject'', ''authType'', ''issuedAt'', ''expiresAt'']"

lemma session_selects:
  "selects session_keys ''userid'' ''userID''" "selects session_keys ''email'' ''email''" "selects session_keys ''name'' ''name''"
  "selects session_keys ''rbacidentity'' ''rbacIdentity''" "selects session_keys ''issuer'' ''issuer''"
  "selects session_keys ''subject'' ''subject''" "selects session_keys ''authtype'' ''authType''"
  "selects session_keys ''issuedat'' ''issuedAt''" "selects session_keys ''expiresat'' ''expiresAt''"
  by code_simp+

lemma session_read_back:
  assumes "marshal_session r = Some s"
  shows "unmarshal_session s = Some (coerce_session r)"
proof -
  let ?fs = "session_fields r"
  have ok: "json_time_ok (rec_IssuedAt r)" "json_time_ok (rec_ExpiresAt r)" and s: "s = json_encode (JObject (text_fields ?fs))"
    using assms by (auto simp: marshal_session_def split: if_splits)
  have keys: "map fst ?fs = session_keys" by (simp add: session_fields_def session_keys_def Let_def)
  have d: "distinct (map fst ?fs)" unfolding keys session_keys_def by simp
  have c: "list_all (\<lambda>f. coerce_utf8 (fst f) = fst f) ?fs" by (simp add: session_fields_def Let_def)
  note sel = session_selects [folded keys]
  note str = string_field_written [OF d c]
  have m: "(''userID'', False, id_UserID (rec_Identity r)) \<in> set ?fs" "(''email'', True, id_Email (rec_Identity r)) \<in> set ?fs"
    "(''name'', True, id_Name (rec_Identity r)) \<in> set ?fs" "(''rbacIdentity'', True, id_RBACIdentity (rec_Identity r)) \<in> set ?fs"
    "(''issuer'', True, id_Issuer (rec_Identity r)) \<in> set ?fs" "(''subject'', True, id_Subject (rec_Identity r)) \<in> set ?fs"
    "(''authType'', True, id_AuthType (rec_Identity r)) \<in> set ?fs" "(''issuedAt'', False, rfc3339_nano (rec_IssuedAt r)) \<in> set ?fs"
    "(''expiresAt'', False, rfc3339_nano (rec_ExpiresAt r)) \<in> set ?fs"
    by (simp_all add: session_fields_def Let_def)
  have t: "read_texts [''userid'', ''email'', ''name''] (written_struct ?fs) =
      Some [coerce_utf8 (id_UserID (rec_Identity r)), coerce_utf8 (id_Email (rec_Identity r)), coerce_utf8 (id_Name (rec_Identity r))]"
    "read_texts [''rbacidentity'', ''issuer'', ''subject'', ''authtype''] (written_struct ?fs) = Some [coerce_utf8 (id_RBACIdentity (rec_Identity r)),
      coerce_utf8 (id_Issuer (rec_Identity r)), coerce_utf8 (id_Subject (rec_Identity r)), coerce_utf8 (id_AuthType (rec_Identity r))]"
    by (rule read_texts_ok; simp only: list_all2_Cons list.rel_inject(1) str [OF sel(1) m(1)] str [OF sel(2) m(2)] str [OF sel(3) m(3)]
        str [OF sel(4) m(4)] str [OF sel(5) m(5)] str [OF sel(6) m(6)] str [OF sel(7) m(7)] simp_thms)+
  show ?thesis unfolding unmarshal_session_def s decode_written option.case t
      time_field_written [OF d c sel(8) m(8) ok(1)] time_field_written [OF d c sel(9) m(9) ok(2)]
    by (simp add: coerce_session_def coerce_identity_def)
qed

end
