(* ===== verification/Hub_Shared_System.thy ===== *)
theory Hub_Shared_System
  imports Hub_Shared_Store
begin

section \<open>Hub: replicas on the shared store\<close>

text \<open>
  Any number of operations of any number of replicas, started at any time, their calls to the API server
  interleaved freely, over every server that keeps Kubernetes' promises for Secrets. A call may fail before or
  after the server has acted on it, and an operation may stop at any point. The log, newest first, is all there
  is: what was called and answered, and what the server did. Only the hub writes the workspace the Secrets are in.
\<close>

subsection \<open>The system\<close>

datatype shared_op = PutCodeOp string code_record | TakeCodeOp string gotime
  | PutSessionOp string session_record | GetSessionOp string gotime | RevokeSessionOp string
  | SweepOp bool "nat \<Rightarrow> gotime"

datatype shared_reply = DidPut "(shared_error, unit) res" | TookCode "code_record option"
  | GotSession "(session_error, session_record) res" | DidRevoke "(shared_error, unit) res"
  | DidSweep "nat \<times> shared_error option"

fun op_calls :: "(string \<Rightarrow> string) \<Rightarrow> shared_op \<Rightarrow> shared_reply api_call" where
  "op_calls d (PutCodeOp code r) = and_then (AppCode_Put d code r) (\<lambda>x. Finished (DidPut x))"
| "op_calls d (TakeCodeOp code now) = and_then (AppCode_Take d code now) (\<lambda>x. Finished (TookCode x))"
| "op_calls d (PutSessionOp key r) = and_then (SharedSession_Put d key r) (\<lambda>x. Finished (DidPut x))"
| "op_calls d (GetSessionOp key now) = and_then (SharedSession_Get d key now) (\<lambda>x. Finished (GotSession x))"
| "op_calls d (RevokeSessionOp key) = and_then (SharedSession_Revoke d key) (\<lambda>x. Finished (DidRevoke x))"
| "op_calls d (SweepOp codes clock) =
     and_then (shared_GC (if codes then codes_store d else sessions_store d) clock) (\<lambda>x. Finished (DidSweep x))"

datatype shared_event = Called nat shared_op | Answered nat shared_op shared_reply
  | Wrote nat secret | Fetched nat secret | Removed nat secret | Absent nat string

text \<open>The Secret of a name, after a log.\<close>

fun current_secret :: "shared_event list \<Rightarrow> string \<Rightarrow> secret option" where
  "current_secret [] n = None"
| "current_secret (e # log) n = (case e of
     Wrote _ s \<Rightarrow> if sc_Name s = n then Some s else current_secret log n
   | Removed _ s \<Rightarrow> if sc_Name s = n then None else current_secret log n
   | _ \<Rightarrow> current_secret log n)"

definition unused_version :: "shared_event list \<Rightarrow> string \<Rightarrow> bool" where
  "unused_version log v \<longleftrightarrow> (\<forall>i s. Wrote i s \<in> set log \<longrightarrow> sc_ResourceVersion s \<noteq> v)"

text \<open>The server is a parameter: which answers it may give after a log, and what it stores or removes. Its
  contract: a create takes place only where there is no Secret of that name, and is not answered by "already
  exists" then; a write stores the data it was given under a new resource version; a deletion removes the current
  Secret, and only if it has the UID and the resource version that were asked for; a successful answer means that
  the call took place, or, of an update, that the Secret had this content already and keeps its resource version;
  "not found" means that there was none; a read returns the current Secret; a list holds Secrets
  that were there at some time.\<close>

record secrets_api =
  sa_Create :: "secret \<Rightarrow> shared_event list \<Rightarrow> (api_error, unit) res \<Rightarrow> secret option \<Rightarrow> bool"
  sa_Update :: "secret \<Rightarrow> shared_event list \<Rightarrow> (api_error, unit) res \<Rightarrow> secret option \<Rightarrow> bool"
  sa_Delete :: "string \<Rightarrow> (string \<times> string) option \<Rightarrow> shared_event list \<Rightarrow> (api_error, unit) res \<Rightarrow> secret option \<Rightarrow> bool"
  sa_Get :: "string \<Rightarrow> shared_event list \<Rightarrow> (api_error, secret) res \<Rightarrow> bool"
  sa_List :: "string \<Rightarrow> shared_event list \<Rightarrow> (api_error, secret list) res \<Rightarrow> bool"

fun not_found :: "(api_error, 'a) res \<Rightarrow> bool" where
  "not_found (Inl (IsNotFound _)) = True" | "not_found _ = False"

fun already_exists :: "(api_error, 'a) res \<Rightarrow> bool" where
  "already_exists (Inl (IsAlreadyExists _)) = True" | "already_exists _ = False"

definition same_content :: "secret \<Rightarrow> secret \<Rightarrow> bool" where
  "same_content s s' \<longleftrightarrow> sc_Name s' = sc_Name s \<and> sc_Kind s' = sc_Kind s \<and> sc_Data s' = sc_Data s"

definition create_law :: "secrets_api \<Rightarrow> bool" where
  "create_law api \<longleftrightarrow> (\<forall>s log r w. sa_Create api s log r w \<longrightarrow> (case w of None \<Rightarrow> isl r
     | Some s' \<Rightarrow> current_secret log (sc_Name s) = None \<and> same_content s s' \<and> unused_version log (sc_ResourceVersion s') \<and>
         \<not> already_exists r))"

definition update_law :: "secrets_api \<Rightarrow> bool" where
  "update_law api \<longleftrightarrow> (\<forall>s log r w. sa_Update api s log r w \<longrightarrow> (case w of
       None \<Rightarrow> isl r \<or> (\<exists>s0. current_secret log (sc_Name s) = Some s0 \<and> same_content s s0)
     | Some s' \<Rightarrow> current_secret log (sc_Name s) \<noteq> None \<and> same_content s s' \<and> unused_version log (sc_ResourceVersion s')))"

definition delete_law :: "secrets_api \<Rightarrow> bool" where
  "delete_law api \<longleftrightarrow> (\<forall>n p log r w. sa_Delete api n p log r w \<longrightarrow>
     (case w of None \<Rightarrow> isl r \<and> (not_found r \<longrightarrow> current_secret log n = None)
      | Some s \<Rightarrow> current_secret log n = Some s \<and> (case p of None \<Rightarrow> True | Some (u, v) \<Rightarrow> sc_UID s = u \<and> sc_ResourceVersion s = v)))"

definition read_law :: "secrets_api \<Rightarrow> bool" where
  "read_law api \<longleftrightarrow> (\<forall>n log r. sa_Get api n log r \<longrightarrow>
     (\<forall>s. r = Inr s \<longrightarrow> current_secret log n = Some s) \<and> (not_found r \<longrightarrow> current_secret log n = None)) \<and>
   (\<forall>l log ss. sa_List api l log (Inr ss) \<longrightarrow> (\<forall>s \<in> set ss. \<exists>i. Wrote i s \<in> set log))"

definition secrets_contract :: "secrets_api \<Rightarrow> bool" where
  "secrets_contract api \<longleftrightarrow> create_law api \<and> update_law api \<and> delete_law api \<and> read_law api"

text \<open>What a call adds to the log.\<close>

fun wrote :: "nat \<Rightarrow> secret option \<Rightarrow> shared_event list" where
  "wrote i None = []" | "wrote i (Some s) = [Wrote i s]"

definition removed :: "nat \<Rightarrow> string \<Rightarrow> (api_error, unit) res \<Rightarrow> secret option \<Rightarrow> shared_event list" where
  "removed i n r w = (case w of Some s \<Rightarrow> [Removed i s] | None \<Rightarrow> if not_found r then [Absent i n] else [])"

definition fetched :: "nat \<Rightarrow> string \<Rightarrow> (api_error, secret) res \<Rightarrow> shared_event list" where
  "fetched i n r = (case r of Inr s \<Rightarrow> [Fetched i s] | Inl _ \<Rightarrow> if not_found r then [Absent i n] else [])"

type_synonym operations = "nat \<Rightarrow> (shared_op \<times> shared_reply api_call) option"

inductive shared_run :: "secrets_api \<Rightarrow> (string \<Rightarrow> string) \<Rightarrow> shared_event list \<Rightarrow> operations \<Rightarrow> bool" for api d where
  begins: "shared_run api d [] (\<lambda>_. None)"
| calls: "shared_run api d log th \<Longrightarrow> \<forall>op'. Called i op' \<notin> set log \<Longrightarrow>
    shared_run api d (Called i op # log) (th(i := Some (op, op_calls d op)))"
| creates: "shared_run api d log th \<Longrightarrow> th i = Some (op, CreateSecret s k) \<Longrightarrow> sa_Create api s log r w \<Longrightarrow>
    shared_run api d (wrote i w @ log) (th(i := Some (op, k r)))"
| updates: "shared_run api d log th \<Longrightarrow> th i = Some (op, UpdateSecret s k) \<Longrightarrow> sa_Update api s log r w \<Longrightarrow>
    shared_run api d (wrote i w @ log) (th(i := Some (op, k r)))"
| deletes: "shared_run api d log th \<Longrightarrow> th i = Some (op, DeleteSecret n p k) \<Longrightarrow> sa_Delete api n p log r w \<Longrightarrow>
    shared_run api d (removed i n r w @ log) (th(i := Some (op, k r)))"
| gets: "shared_run api d log th \<Longrightarrow> th i = Some (op, GetSecret n k) \<Longrightarrow> sa_Get api n log r' \<Longrightarrow>
    shared_run api d (fetched i n r' @ log) (th(i := Some (op, k r')))"
| lists: "shared_run api d log th \<Longrightarrow> th i = Some (op, ListSecrets l k) \<Longrightarrow> sa_List api l log rs \<Longrightarrow>
    shared_run api d log (th(i := Some (op, k rs)))"
| answers: "shared_run api d log th \<Longrightarrow> th i = Some (op, Finished r) \<Longrightarrow>
    shared_run api d (Answered i op r # log) (th(i := None))"

subsection \<open>What an operation may do\<close>

text \<open>The text a put stores, and what its Secret holds then.\<close>

fun put_of :: "(string \<Rightarrow> string) \<Rightarrow> shared_op \<Rightarrow> (string \<times> string \<times> gotime) option" where
  "put_of d (PutCodeOp code r) = map_option (\<lambda>v. (objectName (codes_store d) code, v, cr_ExpiresAt r)) (marshal_code r)"
| "put_of d (PutSessionOp key r) = map_option (\<lambda>v. (objectName (sessions_store d) key, v, rec_ExpiresAt r)) (marshal_session r)"
| "put_of d _ = None"

definition stores :: "(string \<Rightarrow> string) \<Rightarrow> shared_op \<Rightarrow> secret \<Rightarrow> bool" where
  "stores d op s \<longleftrightarrow> (\<exists>n v e. put_of d op = Some (n, v, e) \<and> sc_Name s = n \<and>
     sc_Data s = [(''value'', v), (''expiresAt'', rfc3339_nano e)])"

text \<open>What a reply says about the events of its operation.\<close>

fun explained :: "(string \<Rightarrow> string) \<Rightarrow> nat \<Rightarrow> shared_op \<Rightarrow> shared_reply \<Rightarrow> shared_event set \<Rightarrow> bool" where
  "explained d i (TakeCodeOp code now) (TookCode x) evs \<longleftrightarrow> (\<forall>r. x = Some r \<longrightarrow> (\<exists>s. Removed i s \<in> evs \<and>
     sc_Name s = objectName (codes_store d) code \<and> \<not> expired now s \<and> unmarshal_code (secret_value s) = Some r))"
| "explained d i (GetSessionOp key now) (GotSession x) evs \<longleftrightarrow> (\<forall>r. x = Inr r \<longrightarrow> (\<exists>s. Fetched i s \<in> evs \<and>
     sc_Name s = objectName (sessions_store d) key \<and> \<not> expired now s \<and> unmarshal_session (secret_value s) = Some r))"
| "explained d i (RevokeSessionOp key) (DidRevoke (Inr _)) evs \<longleftrightarrow>
     (\<exists>s. Removed i s \<in> evs \<and> sc_Name s = objectName (sessions_store d) key) \<or> Absent i (objectName (sessions_store d) key) \<in> evs"
| "explained d i _ _ evs \<longleftrightarrow> True"

text \<open>A tree of calls does what its operation may do, whatever the server answers: it writes what the operation
  stores, once, it deletes an exact version only under its own name, and its reply is explained by its events.\<close>

primrec lawful :: "(string \<Rightarrow> string) \<Rightarrow> nat \<Rightarrow> shared_op \<Rightarrow> shared_reply api_call \<Rightarrow> shared_event set \<Rightarrow> bool" where
  "lawful d i op (Finished r) = (\<lambda>evs. explained d i op r evs)"
| "lawful d i op (CreateSecret s k) = (\<lambda>evs. stores d op s \<and> (\<forall>s. Wrote i s \<notin> evs) \<and>
     (\<forall>r w. (case w of None \<Rightarrow> isl r | Some s' \<Rightarrow> same_content s s' \<and> \<not> already_exists r) \<longrightarrow>
       lawful d i op (k r) (set (wrote i w) \<union> evs)))"
| "lawful d i op (UpdateSecret s k) = (\<lambda>evs. stores d op s \<and> (\<forall>s. Wrote i s \<notin> evs) \<and>
     (\<forall>r w. (case w of None \<Rightarrow> True | Some s' \<Rightarrow> same_content s s') \<longrightarrow> lawful d i op (k r) (set (wrote i w) \<union> evs)))"
| "lawful d i op (DeleteSecret n p k) = (\<lambda>evs.
     (\<forall>r w. (case w of None \<Rightarrow> isl r | Some s \<Rightarrow> sc_Name s = n \<and>
          (case p of None \<Rightarrow> True | Some (u, v) \<Rightarrow> sc_ResourceVersion s = v) \<and>
          (\<forall>s0. Fetched i s0 \<in> evs \<and> sc_ResourceVersion s0 = sc_ResourceVersion s \<longrightarrow> s0 = s)) \<longrightarrow>
       lawful d i op (k r) (set (removed i n r w) \<union> evs)))"
| "lawful d i op (GetSecret n k) = (\<lambda>evs.
     (\<forall>r. (\<forall>s. r = Inr s \<longrightarrow> sc_Name s = n) \<longrightarrow> lawful d i op (k r) (set (fetched i n r) \<union> evs)))"
| "lawful d i op (ListSecrets l k) = (\<lambda>evs. \<forall>r. lawful d i op (k r) evs)"

lemma lawful_gc: "lawful d i (SweepOp b c) (and_then (gc_loop st clock n secs) (\<lambda>x. Finished (DidSweep x))) evs"
proof (induction st clock n secs arbitrary: evs rule: gc_loop.induct)
  case (2 st clock n sec secs)
  then show ?case by (auto simp: deleteExact_def split: sum.splits api_error.splits)
qed simp

lemma put_lawful:
  assumes "put_of d op = Some (objectName st key, v, e)" "\<And>r evs. explained d i op (DidPut r) evs"
    and "\<And>s. Wrote i s \<notin> evs"
  shows "lawful d i op (and_then (shared_put st key v e) (\<lambda>x. Finished (DidPut x))) evs"
proof -
  have st: "stores d op (new_secret st key v e)" using assms(1) by (simp add: stores_def new_secret_def)
  show ?thesis
    unfolding shared_put_def Let_def and_then.simps lawful.simps
  proof (intro conjI allI impI st assms(3))
    fix r :: "(api_error, unit) res" and w
    assume w: "case w of None \<Rightarrow> isl r | Some s' \<Rightarrow> same_content (new_secret st key v e) s' \<and> \<not> already_exists r"
    show "lawful d i op (and_then (case r of Inl (IsAlreadyExists _) \<Rightarrow>
          UpdateSecret (new_secret st key v e) (\<lambda>r'. Finished (put_result st r')) | _ \<Rightarrow> Finished (put_result st r))
        (\<lambda>x. Finished (DidPut x))) (set (wrote i w) \<union> evs)"
    proof (cases "already_exists r")
      case True
      then have "w = None" using w by (cases w) auto
      then show ?thesis using True assms(2,3) st by (cases r rule: already_exists.cases) auto
    next
      case False
      then show ?thesis using assms(2) by (auto split: sum.splits api_error.splits)
    qed
  qed
qed

lemma lawful_start: "lawful d i op (op_calls d op) {Called i op}"
proof (cases op)
  case (PutCodeOp code r)
  then show ?thesis
    by (cases "marshal_code r") (auto simp: AppCode_Put_def intro!: put_lawful)
next
  case (PutSessionOp key r)
  then show ?thesis
    by (cases "marshal_session r") (auto simp: SharedSession_Put_def intro!: put_lawful)
next
  case (TakeCodeOp code now)
  then show ?thesis
    by (auto simp: AppCode_Take_def shared_take_def deleteExact_def fetched_def removed_def split: sum.splits api_error.splits option.splits)
next
  case (GetSessionOp key now)
  then show ?thesis
    by (auto simp: SharedSession_Get_def shared_get_def deleteExact_def fetched_def failed_to_def split: sum.splits api_error.splits option.splits)
next
  case (RevokeSessionOp key)
  then show ?thesis
    by (auto simp: SharedSession_Revoke_def shared_delete_def removed_def split: sum.splits api_error.splits option.splits)
next
  case (SweepOp b clock)
  then show ?thesis by (auto simp: shared_GC_def lawful_gc split: sum.splits)
qed

end
