(* ===== verification/Hub_App_Auth_Props.thy ===== *)
theory Hub_App_Auth_Props
  imports Hub_App_Auth
begin

section \<open>Hub: what an application sign-in guarantees\<close>

text \<open>
  The sign-in endpoints and the session store as one system with a log, newest first, of what the sessions
  did, of the codes handed out and of the codes redeemed. The contract of a code store is a locale; joined
  with the one of session backends it gives that a code stands for one authorized visit. The process-local
  store satisfies it.
\<close>

subsection \<open>The system\<close>

datatype sign_in_event = Session session_event | Authorized string authorize_env authorize_request | Granted string

definition authorized :: "authorize_env \<Rightarrow> authorize_request \<Rightarrow> authorize_response \<Rightarrow> sign_in_event list" where
  "authorized env q resp = (case resp of ToApp _ code _ \<Rightarrow> [Authorized code env q] | _ \<Rightarrow> [])"

definition granted :: "exchange_request option \<Rightarrow> (nat, exchange_grant) res \<Rightarrow> sign_in_event list" where
  "granted body x = (case (body, x) of (Some req, Inr _) \<Rightarrow> [Granted (xq_Code req)] | _ \<Rightarrow> [])"

inductive sign_in :: "'b session_backend \<Rightarrow> session_config \<Rightarrow> 'b \<Rightarrow> 's code_store \<Rightarrow> 's \<Rightarrow> string \<Rightarrow>
    (string \<Rightarrow> string \<Rightarrow> bool) \<Rightarrow> sign_in_event list \<Rightarrow> 's \<Rightarrow> 'b \<Rightarrow> bool" for be cfg b0 cs s0 domain feq where
  opened: "sign_in be cfg b0 cs s0 domain feq [] s0 b0"
| sessions: "sign_in be cfg b0 cs s0 domain feq log s b \<Longrightarrow> history be cfg b sevs b' \<Longrightarrow>
    sign_in be cfg b0 cs s0 domain feq (map Session sevs @ log) s b'"
| authorize: "sign_in be cfg b0 cs s0 domain feq log s b \<Longrightarrow>
    HandleAuthorize be cfg cs domain env q s b = (resp, s', b') \<Longrightarrow>
    sign_in be cfg b0 cs s0 domain feq (authorized env q resp @ log) s' b'"
| exchange: "sign_in be cfg b0 cs s0 domain feq log s b \<Longrightarrow> HandleExchange feq cs now body s = (x, s') \<Longrightarrow>
    sign_in be cfg b0 cs s0 domain feq (granted body x @ log) s' b"

fun session_event_of :: "sign_in_event \<Rightarrow> session_event list" where
  "session_event_of (Session v) = [v]"
| "session_event_of _ = []"

definition sessions_of :: "sign_in_event list \<Rightarrow> session_event list" where
  "sessions_of log = concat (map session_event_of log)"

lemma sessions_of_simps [simp]:
  "sessions_of [] = []" "sessions_of (map Session sevs @ log) = sevs @ sessions_of log"
  "sessions_of (authorized env q resp @ log) = sessions_of log" "sessions_of (granted body x @ log) = sessions_of log"
proof -
  have "concat (map (session_event_of \<circ> Session) sevs) = sevs" by (induction sevs) auto
  then show "sessions_of (map Session sevs @ log) = sevs @ sessions_of log" by (simp add: sessions_of_def)
qed (auto simp: sessions_of_def authorized_def granted_def split: authorize_response.splits option.splits sum.splits)

lemma history_trans: "history be cfg b sevs b' \<Longrightarrow> history be cfg b0 evs b \<Longrightarrow> history be cfg b0 (sevs @ evs) b'"
  by (induction rule: history.induct) (auto intro: history.intros)

text \<open>The two handlers on every path: either no code was put and none answered, or the visit was authorized
  and its code given to the store.\<close>

lemma HandleAuthorize_cases:
  assumes "HandleAuthorize be cfg cs domain env q s b = (resp, s', b')"
  obtains (refused) "s' = s" "authorized env q resp = []" "b' = b \<or> (\<exists>y. ResolveRequest be cfg (aq_Cookie q) (az_Tget env) (az_Now env) b = (y, b'))"
  | (minted) redirect ses bytes y where "validateRedirect domain (az_ParseURL env) (aq_RedirectURI q) = Some redirect"
      "ref_validate (aq_Ref q)" "ResolveRequest be cfg (aq_Cookie q) (az_Tget env) (az_Now env) b = (Inr ses, b')"
      "app_authorize (az_SAR env) (ses_Identity ses) (aq_Ref q) = Inr True" "az_Draw env = Inr bytes"
      "co_Put cs (az_Put env) (base64url bytes) (code_for (aq_Ref q) (pu_Host redirect) (ses_Identity ses) (az_Mint env)) s = (y, s')"
      "resp = (case y of Inl _ \<Rightarrow> ErrorPage 500 | Inr _ \<Rightarrow> ToApp redirect (base64url bytes) (aq_State q))"
proof (cases "validateRedirect domain (az_ParseURL env) (aq_RedirectURI q) = None \<or> \<not> ref_validate (aq_Ref q) \<or> \<not> stateRE (aq_State q)")
  case True
  then have "s' = s \<and> authorized env q resp = [] \<and> b' = b"
    using assms by (auto simp: HandleAuthorize_def authorized_def split: option.splits)
  then show ?thesis using refused by blast
next
  case False
  then obtain redirect where v: "validateRedirect domain (az_ParseURL env) (aq_RedirectURI q) = Some redirect"
    "ref_validate (aq_Ref q)" "stateRE (aq_State q)" by auto
  obtain y b1 where r: "ResolveRequest be cfg (aq_Cookie q) (az_Tget env) (az_Now env) b = (y, b1)" by fastforce
  show ?thesis
  proof (cases y)
    case (Inl err)
    then have "s' = s \<and> authorized env q resp = [] \<and> b' = b1"
      using assms v r by (auto simp: HandleAuthorize_def authorized_def split: if_splits)
    then show ?thesis using refused r by blast
  next
    case (Inr ses)
    show ?thesis
    proof (cases "app_authorize (az_SAR env) (ses_Identity ses) (aq_Ref q) = Inr True \<and> (\<exists>bytes. az_Draw env = Inr bytes)")
      case False
      then have "s' = s \<and> authorized env q resp = [] \<and> b' = b1"
        using assms v r Inr
        by (auto simp: HandleAuthorize_def authorized_def mintCode_def split: sum.splits bool.splits)
      then show ?thesis using refused r by blast
    next
      case True
      then obtain bytes where t: "app_authorize (az_SAR env) (ses_Identity ses) (aq_Ref q) = Inr True" "az_Draw env = Inr bytes" by blast
      obtain z s1 where p: "co_Put cs (az_Put env) (base64url bytes)
          (code_for (aq_Ref q) (pu_Host redirect) (ses_Identity ses) (az_Mint env)) s = (z, s1)" by fastforce
      have "s' = s1 \<and> b' = b1 \<and> resp = (case z of Inl _ \<Rightarrow> ErrorPage 500 | Inr _ \<Rightarrow> ToApp redirect (base64url bytes) (aq_State q))"
        using assms v r Inr t p by (cases z) (simp_all add: HandleAuthorize_def mintCode_def Let_def)
      then show ?thesis using minted [of redirect ses bytes z] v r Inr t p by simp
    qed
  qed
qed

lemma HandleExchange_cases:
  assumes "HandleExchange feq cs now body s = (x, s')"
  obtains (refused) "s' = s" "granted body x = []"
  | (missed) req where "body = Some req" "co_Take cs now (xq_Code req) s = (None, s')" "granted body x = []"
  | (mismatch) req r where "body = Some req" "co_Take cs now (xq_Code req) s = (Some r, s')" "granted body x = []"
  | (redeemed) req r where "body = Some req" "co_Take cs now (xq_Code req) s = (Some r, s')" "ref_validate (xq_Ref req)"
      "ref_key (cr_Ref r) = ref_key (xq_Ref req)" "feq (cr_RedirectHost r) (xq_Host req)"
      "x = Inr \<lparr>xg_UserID = id_UserID (cr_Identity r), xg_Email = id_Email (cr_Identity r),
         xg_Name = id_Name (cr_Identity r), xg_SessionTTLSeconds = sessionTTL div 10 ^ 9\<rparr>"
proof (cases body)
  case None
  then show ?thesis using assms refused by (simp add: HandleExchange_def granted_def)
next
  case (Some req)
  show ?thesis
  proof (cases "\<not> ref_validate (xq_Ref req) \<or> blank (xq_Code req) \<or> blank (xq_Host req)")
    case True
    then have "s' = s \<and> granted body x = []" using assms Some by (auto simp: HandleExchange_def granted_def)
    then show ?thesis using refused by blast
  next
    case False
    obtain y s1 where t: "co_Take cs now (xq_Code req) s = (y, s1)" by fastforce
    show ?thesis
    proof (cases y)
      case None
      then have "s' = s1 \<and> granted body x = []" using assms Some False t by (auto simp: HandleExchange_def granted_def)
      then show ?thesis using missed [OF Some] t None by simp
    next
      case Some': (Some r)
      show ?thesis
      proof (cases "ref_key (cr_Ref r) = ref_key (xq_Ref req) \<and> feq (cr_RedirectHost r) (xq_Host req)")
        case True
        then show ?thesis using redeemed [OF Some] assms Some False t Some' by (auto simp: HandleExchange_def)
      next
        case mism: False
        then have "s' = s1 \<and> granted body x = []"
          using assms Some False t Some' by (auto simp: HandleExchange_def granted_def)
        then show ?thesis using mismatch [OF Some] t Some' by simp
      qed
    qed
  qed
qed

lemma resolve_request_history:
  assumes "ResolveRequest be cfg cookie tget now b = (y, b')" "history be cfg b0 evs b"
  shows "history be cfg b0 evs b'"
  using assms by (cases cookie) (auto simp: ResolveRequest_def intro: history.resolve)

lemma sign_in_history: "sign_in be cfg b0 cs s0 domain feq log s b \<Longrightarrow> history be cfg b0 (sessions_of log) b"
proof (induction rule: sign_in.induct)
  case opened then show ?case by (simp add: history.opened)
next
  case (sessions log s b sevs b') then show ?case by (simp add: history_trans)
next
  case (authorize log s b env q resp s' b')
  from authorize(2) show ?case
    by (cases rule: HandleAuthorize_cases) (use authorize.IH in \<open>auto intro: resolve_request_history\<close>)
next
  case exchange then show ?case by simp
qed

subsection \<open>What a held code stands for\<close>

definition rightful :: "session_config \<Rightarrow> string \<Rightarrow> authorize_env \<Rightarrow> authorize_request \<Rightarrow> session_event list \<Rightarrow> code_record \<Rightarrow> bool" where
  "rightful cfg domain env q sevs r \<longleftrightarrow> (\<exists>redirect (ses :: session) raw.
     validateRedirect domain (az_ParseURL env) (aq_RedirectURI q) = Some redirect \<and> ref_validate (aq_Ref q) \<and>
     r = code_for (aq_Ref q) (pu_Host redirect) (ses_Identity ses) (az_Mint env) \<and>
     app_authorize (az_SAR env) (ses_Identity ses) (aq_Ref q) = Inr True \<and>
     aq_Cookie q = Some raw \<and> az_Now env < ses_ExpiresAt ses \<and>
     live sevs (tokenKey cfg raw) \<lparr>rec_Identity = ses_Identity ses, rec_IssuedAt = ses_IssuedAt ses, rec_ExpiresAt = ses_ExpiresAt ses\<rparr>)"

definition outstanding :: "session_config \<Rightarrow> string \<Rightarrow> sign_in_event list \<Rightarrow> string \<Rightarrow> code_record \<Rightarrow> bool" where
  "outstanding cfg domain log c r \<longleftrightarrow> (\<exists>post pre env q. log = post @ Authorized c env q # pre \<and> Granted c \<notin> set post \<and>
     rightful cfg domain env q (sessions_of pre) r)"

lemma outstanding_append: "outstanding cfg domain log c r \<Longrightarrow> Granted c \<notin> set evs \<Longrightarrow> outstanding cfg domain (evs @ log) c r"
proof -
  assume "outstanding cfg domain log c r" "Granted c \<notin> set evs"
  then obtain post pre env q where "evs @ log = (evs @ post) @ Authorized c env q # pre" "Granted c \<notin> set (evs @ post)"
    "rightful cfg domain env q (sessions_of pre) r" by (auto simp: outstanding_def)
  then show ?thesis unfolding outstanding_def by blast
qed

lemma outstanding_now: "rightful cfg domain env q (sessions_of log) r \<Longrightarrow> outstanding cfg domain (Authorized c env q # log) c r"
proof -
  assume "rightful cfg domain env q (sessions_of log) r"
  moreover have "Authorized c env q # log = [] @ Authorized c env q # log" "Granted c \<notin> set []" by simp_all
  ultimately show ?thesis unfolding outstanding_def by blast
qed

lemma not_granted [simp]:
  "Granted c \<notin> set (map Session sevs)" "Granted c \<notin> set (authorized env q resp)"
  by (auto simp: authorized_def split: authorize_response.splits)

fun mint_of :: "string \<Rightarrow> sign_in_event \<Rightarrow> bool" where
  "mint_of c (Authorized c' _ _) \<longleftrightarrow> c' = c"
| "mint_of c _ \<longleftrightarrow> False"

definition mints :: "string \<Rightarrow> sign_in_event list \<Rightarrow> nat" where
  "mints c log = length (filter (mint_of c) log)"

definition redemptions :: "string \<Rightarrow> sign_in_event list \<Rightarrow> nat" where
  "redemptions c log = count_list log (Granted c)"

lemma count_simps [simp]:
  "mints c [] = 0" "redemptions c [] = 0"
  "mints c (evs @ log) = mints c evs + mints c log" "redemptions c (evs @ log) = redemptions c evs + redemptions c log"
  "mints c (map Session sevs) = 0" "redemptions c (map Session sevs) = 0" "redemptions c (authorized env q resp) = 0"
  by (auto simp: mints_def redemptions_def filter_map comp_def authorized_def count_list_0_iff split: authorize_response.splits)

subsection \<open>The contract of a code store\<close>

locale code_contract =
  fixes cs :: "'s code_store" and cinv :: "'s \<Rightarrow> bool" and held :: "'s \<Rightarrow> string \<Rightarrow> code_record \<Rightarrow> bool"
  assumes put_code: "cinv s \<Longrightarrow> co_Put cs t c r s = (x, s') \<Longrightarrow>
      cinv s' \<and> (\<forall>c' r'. held s' c' r' \<longrightarrow> held s c' r' \<or> (x = Inr () \<and> c' = c \<and> r' = r))"
    and take_code: "cinv s \<Longrightarrow> co_Take cs t c s = (y, s') \<Longrightarrow>
      cinv s' \<and> (\<forall>c' r. held s' c' r \<longrightarrow> held s c' r) \<and>
      (\<forall>r. y = Some r \<longrightarrow> held s c r \<and> t \<le> cr_ExpiresAt r \<and> (\<forall>r'. \<not> held s' c r'))"

locale app_sign_in = session_contract be inv holds + code_contract cs cinv held
  for be :: "'b session_backend" and inv holds and cs :: "'s code_store" and cinv held
begin

lemma held_outstanding:
  assumes "sign_in be cfg b0 cs s0 domain feq log s b" "inv b0" "\<And>k r. \<not> holds b0 k r" "\<And>raw. st_digest cfg raw \<noteq> []"
    "cinv s0" "\<And>c r. \<not> held s0 c r"
  shows "cinv s \<and> (\<forall>c r. held s c r \<longrightarrow> outstanding cfg domain log c r)"
  using assms(1)
proof (induction rule: sign_in.induct)
  case opened then show ?case using assms(5,6) by blast
next
  case (sessions log s b sevs b') then show ?case using outstanding_append [OF _ not_granted(1)] by blast
next
  case (authorize log s b env q resp s' b')
  note keep = outstanding_append [OF _ not_granted(2)]
  from authorize(2) show ?case
  proof (cases rule: HandleAuthorize_cases)
    case refused then show ?thesis using authorize.IH by simp
  next
    case (minted redirect ses bytes y)
    let ?r = "code_for (aq_Ref q) (pu_Host redirect) (ses_Identity ses) (az_Mint env)"
    note P = put_code [OF conjunct1 [OF authorize.IH] minted(6)]
    obtain raw where raw: "aq_Cookie q = Some raw" "Resolve be cfg raw (az_Tget env) (az_Now env) b = (Inr ses, b')"
      using minted(3) by (auto simp: ResolveRequest_def split: option.splits)
    have "rightful cfg domain env q (sessions_of log) ?r"
      using resolve_live [OF sign_in_history [OF authorize(1)] assms(2-4) raw(2)] minted raw by (auto simp: rightful_def)
    then have new: "outstanding cfg domain (authorized env q resp @ log) (base64url bytes) ?r" if "y = Inr ()"
      using that minted(7) by (simp add: authorized_def outstanding_now)
    show ?thesis
    proof (intro conjI allI impI)
      show "cinv s'" using P by blast
      fix c r assume "held s' c r"
      then consider "held s c r" | "y = Inr ()" "c = base64url bytes" "r = ?r" using P by blast
      then show "outstanding cfg domain (authorized env q resp @ log) c r"
        by cases (use authorize.IH keep new in auto)
    qed
  qed
next
  case (exchange log s b now body x s')
  from exchange(2) show ?case
  proof (cases rule: HandleExchange_cases)
    case refused then show ?thesis using exchange.IH by simp
  next
    case (missed req)
    then show ?thesis using take_code [OF conjunct1 [OF exchange.IH] missed(2)] exchange.IH by auto
  next
    case (mismatch req r)
    then show ?thesis using take_code [OF conjunct1 [OF exchange.IH] mismatch(2)] exchange.IH by auto
  next
    case (redeemed req r)
    note T = take_code [OF conjunct1 [OF exchange.IH] redeemed(2)]
    have g: "granted body x = [Granted (xq_Code req)]" using redeemed by (simp add: granted_def)
    show ?thesis
    proof (intro conjI allI impI)
      show "cinv s'" using T by blast
      fix c r' assume h: "held s' c r'"
      then have "c \<noteq> xq_Code req" "held s c r'" using T by blast+
      then show "outstanding cfg domain (granted body x @ log) c r'"
        using exchange.IH by (intro outstanding_append) (auto simp: g)
    qed
  qed
qed

lemma redeemed_at_most_minted:
  assumes "sign_in be cfg b0 cs s0 domain feq log s b" "cinv s0" "\<And>c r. \<not> held s0 c r"
  shows "cinv s \<and> redemptions c log + of_bool (\<exists>r. held s c r) \<le> mints c log"
  using assms(1)
proof (induction rule: sign_in.induct)
  case opened then show ?case using assms(2,3) by simp
next
  case (sessions log s b sevs b') then show ?case by simp
next
  case (authorize log s b env q resp s' b')
  from authorize(2) show ?case
  proof (cases rule: HandleAuthorize_cases)
    case refused then show ?thesis using authorize.IH by simp
  next
    case (minted redirect ses bytes y)
    note P = put_code [OF conjunct1 [OF authorize.IH] minted(6)]
    show ?thesis
    proof (cases "y = Inr () \<and> c = base64url bytes")
      case True
      then have "mints c (authorized env q resp) = 1" using minted(7) by (simp add: authorized_def mints_def)
      then show ?thesis using P authorize.IH by (auto simp: of_bool_def)
    next
      case False
      then have "(\<exists>r. held s' c r) \<Longrightarrow> (\<exists>r. held s c r)" using P by blast
      then show ?thesis using P authorize.IH by (auto simp: of_bool_def split: if_splits)
    qed
  qed
next
  case (exchange log s b now body x s')
  have m: "mints c (granted body x) = 0" by (auto simp: granted_def mints_def split: option.splits sum.splits)
  from exchange(2) show ?case
  proof (cases rule: HandleExchange_cases)
    case refused then show ?thesis using exchange.IH by simp
  next
    case (missed req)
    note T = take_code [OF conjunct1 [OF exchange.IH] missed(2)]
    then have "(\<exists>r. held s' c r) \<Longrightarrow> (\<exists>r. held s c r)" by blast
    then show ?thesis using T exchange.IH missed(3) by (auto simp: of_bool_def split: if_splits)
  next
    case (mismatch req r)
    note T = take_code [OF conjunct1 [OF exchange.IH] mismatch(2)]
    then have "(\<exists>r. held s' c r) \<Longrightarrow> (\<exists>r. held s c r)" by blast
    then show ?thesis using T exchange.IH mismatch(3) by (auto simp: of_bool_def split: if_splits)
  next
    case (redeemed req r)
    note T = take_code [OF conjunct1 [OF exchange.IH] redeemed(2)]
    have g: "redemptions c (granted body x) = of_bool (c = xq_Code req)" using redeemed by (simp add: granted_def redemptions_def)
    show ?thesis
    proof (cases "c = xq_Code req")
      case True
      then have "\<exists>r. held s c r" "\<not> (\<exists>r. held s' c r)" using T by blast+
      then show ?thesis using T exchange.IH g m True by simp
    next
      case False
      have "(\<exists>r. held s' c r) \<Longrightarrow> (\<exists>r. held s c r)" using T by blast
      then show ?thesis using T exchange.IH g m False by (auto simp: of_bool_def split: if_splits)
    qed
  qed
qed

end

subsection \<open>The process-local store\<close>

definition codes_hold :: "memory_codes \<Rightarrow> string \<Rightarrow> code_record \<Rightarrow> bool" where
  "codes_hold m c r \<longleftrightarrow> map_of m c = Some r"

lemma mdel_sub: "map_of (mdel k m) c = Some r \<Longrightarrow> map_of m c = Some r"
  by (simp split: if_splits)

lemma evict_codes_sub:
  "wf_map m \<Longrightarrow> wf_map (evict_rounds n m) \<and> (\<forall>c r. map_of (evict_rounds n m) c = Some r \<longrightarrow> map_of m c = Some r)"
proof (induction n arbitrary: m)
  case (Suc n)
  let ?e = "codes_evictOldestLocked m"
  have "wf_map ?e" "\<And>c r. map_of ?e c = Some r \<Longrightarrow> map_of m c = Some r"
    using Suc.prems mdel_sub by (auto simp: codes_evictOldestLocked_def Let_def simp del: map_of_mdel split: if_splits)
  with Suc.IH [of ?e] Suc.prems show ?case by auto
qed simp

lemma codes_put_law:
  assumes "wf_map m" "codes_put t c r m = (x, m')"
  shows "wf_map m' \<and> (\<forall>c' r'. codes_hold m' c' r' \<longrightarrow> codes_hold m c' r' \<or> (x = Inr () \<and> c' = c \<and> r' = r))"
proof -
  let ?m1 = "codes_cleanupLocked t m"
  have wf: "wf_map ?m1" using assms(1) by (simp add: codes_cleanupLocked_def wf_map_filter)
  have eq: "x = Inr ()" "m' = mput c r (evict_rounds (length ?m1) ?m1)" using assms(2) by (auto simp: codes_put_def Let_def)
  have "map_of ?m1 c' = Some r' \<Longrightarrow> map_of m c' = Some r'" for c' r'
    using assms(1) by (simp add: codes_cleanupLocked_def map_of_filter_wf)
  then show ?thesis using evict_codes_sub [OF wf, of "length ?m1"] by (auto simp: eq codes_hold_def)
qed

lemma codes_take_law:
  assumes "wf_map m" "codes_take t c m = (y, m')"
  shows "wf_map m' \<and> (\<forall>c' r. codes_hold m' c' r \<longrightarrow> codes_hold m c' r) \<and>
    (\<forall>r. y = Some r \<longrightarrow> codes_hold m c r \<and> t \<le> cr_ExpiresAt r \<and> (\<forall>r'. \<not> codes_hold m' c r'))"
  using assms by (auto simp: codes_take_def codes_hold_def split: option.splits if_splits)

interpretation local_app_sign_in:
  app_sign_in memory_backend_ops memory_ok memory_holds memory_code_store wf_map codes_hold
proof
  show "co_Put memory_code_store t c r s = (x, s') \<Longrightarrow> wf_map s' \<and>
      (\<forall>c' r'. codes_hold s' c' r' \<longrightarrow> codes_hold s c' r' \<or> x = Inr () \<and> c' = c \<and> r' = r)"
    if "wf_map s" for s t c r x s'
    using codes_put_law [OF that] by (simp add: memory_code_store_def)
  show "co_Take memory_code_store t c s = (y, s') \<Longrightarrow> wf_map s' \<and> (\<forall>c' r. codes_hold s' c' r \<longrightarrow> codes_hold s c' r) \<and>
      (\<forall>r. y = Some r \<longrightarrow> codes_hold s c r \<and> t \<le> cr_ExpiresAt r \<and> (\<forall>r'. \<not> codes_hold s' c r'))"
    if "wf_map s" for s t c y s'
    using codes_take_law [OF that] by (simp add: memory_code_store_def)
qed

lemma new_codes_ok: "wf_map newMemoryCodeStore" "\<not> codes_hold newMemoryCodeStore c r"
  by (simp_all add: newMemoryCodeStore_def wf_map_def codes_hold_def)

text \<open>Property C7. A grant to an application's proxy goes back to one authorized visit: whatever was issued,
  revoked, minted and redeemed before, a code that is exchanged was handed out by the authorize endpoint for the
  same instance, to a redirect directly under the apps domain whose host the proxy names, at most the
  lifetime of a code before; at that visit the access review allowed the user, and the browser's cookie
  resolved to a session that was issued to that user and had neither expired nor been revoked; the grant
  reports that user, and the code had not been redeemed since. The digest is not empty.\<close>

theorem app_sign_in_is_authorized:
  assumes "sign_in memory_backend_ops cfg (New_backend maxEntries) memory_code_store newMemoryCodeStore domain feq log s b"
    and "\<And>raw. length (st_digest cfg raw) = 32"
    and "HandleExchange feq memory_code_store now (Some req) s = (Inr grant, s')"
  shows "\<exists>post pre env q redirect label raw (ses :: session).
    log = post @ Authorized (xq_Code req) env q # pre \<and> Granted (xq_Code req) \<notin> set post \<and> aq_Ref q = xq_Ref req \<and>
    az_ParseURL env (aq_RedirectURI q) = Some redirect \<and>
    to_lower (pu_Hostname redirect) = label @ ''.'' @ domain \<and> CHR ''.'' \<notin> set label \<and>
    feq (to_lower (pu_Host redirect)) (xq_Host req) \<and> now \<le> az_Mint env + codeTTL \<and>
    az_SAR env (app_review (trim_space (id_RBACIdentity (ses_Identity ses))) (xq_Ref req)) = Inr True \<and>
    aq_Cookie q = Some raw \<and> az_Now env < ses_ExpiresAt ses \<and>
    live (sessions_of pre) (tokenKey cfg raw)
      \<lparr>rec_Identity = ses_Identity ses, rec_IssuedAt = ses_IssuedAt ses, rec_ExpiresAt = ses_ExpiresAt ses\<rparr> \<and>
    xg_UserID grant = id_UserID (ses_Identity ses) \<and> xg_Email grant = id_Email (ses_Identity ses) \<and>
    xg_SessionTTLSeconds grant = 900"
proof -
  have dg: "st_digest cfg r \<noteq> []" for r using assms(2) [of r] by auto
  note H = local_app_sign_in.held_outstanding [OF assms(1) new_backend_ok dg new_codes_ok]
  from assms(3) obtain r where r: "co_Take memory_code_store now (xq_Code req) s = (Some r, s')" "ref_validate (xq_Ref req)"
    "ref_key (cr_Ref r) = ref_key (xq_Ref req)" "feq (cr_RedirectHost r) (xq_Host req)"
    "grant = \<lparr>xg_UserID = id_UserID (cr_Identity r), xg_Email = id_Email (cr_Identity r),
       xg_Name = id_Name (cr_Identity r), xg_SessionTTLSeconds = sessionTTL div 10 ^ 9\<rparr>"
    by (cases rule: HandleExchange_cases) (auto simp: granted_def)
  have t: "codes_hold s (xq_Code req) r" "now \<le> cr_ExpiresAt r"
    using local_app_sign_in.take_code [OF conjunct1 [OF H] r(1)] by blast+
  then obtain post pre env q where o: "log = post @ Authorized (xq_Code req) env q # pre" "Granted (xq_Code req) \<notin> set post"
    "rightful cfg domain env q (sessions_of pre) r" using H unfolding outstanding_def by blast
  then obtain redirect raw and ses :: session where w: "validateRedirect domain (az_ParseURL env) (aq_RedirectURI q) = Some redirect"
    "ref_validate (aq_Ref q)" "r = code_for (aq_Ref q) (pu_Host redirect) (ses_Identity ses) (az_Mint env)"
    "app_authorize (az_SAR env) (ses_Identity ses) (aq_Ref q) = Inr True" "aq_Cookie q = Some raw" "az_Now env < ses_ExpiresAt ses"
    "live (sessions_of pre) (tokenKey cfg raw)
      \<lparr>rec_Identity = ses_Identity ses, rec_IssuedAt = ses_IssuedAt ses, rec_ExpiresAt = ses_ExpiresAt ses\<rparr>"
    by (auto simp: rightful_def)
  have ref: "aq_Ref q = xq_Ref req" using ref_key_inj [OF w(2) r(2)] r(3) w(3) by (simp add: code_for_def)
  have sar: "az_SAR env (app_review (trim_space (id_RBACIdentity (ses_Identity ses))) (xq_Ref req)) = Inr True"
    using w(4) ref by (simp add: app_authorize_def Let_def split: if_splits)
  note vr = validateRedirect_ok [OF w(1)]
  obtain label where lb: "to_lower (pu_Hostname redirect) = label @ ''.'' @ domain" "CHR ''.'' \<notin> set label" using vr(5) by blast
  have g: "xg_UserID grant = id_UserID (ses_Identity ses)" "xg_Email grant = id_Email (ses_Identity ses)"
    "xg_SessionTTLSeconds grant = 900" using r(5) w(3) by (simp_all add: code_for_def sessionTTL_def)
  have "feq (to_lower (pu_Host redirect)) (xq_Host req)" "now \<le> az_Mint env + codeTTL"
    using r(4) t(2) w(3) by (simp_all add: code_for_def)
  note all = o(1,2) ref vr(1) lb this sar w(5-7) g
  show ?thesis by (rule exI [of _ post], rule exI [of _ pre], rule exI [of _ env], rule exI [of _ q],
        rule exI [of _ redirect], rule exI [of _ label], rule exI [of _ raw], rule exI [of _ ses]) (intro conjI all)
qed

text \<open>Property C27. Codes are for one use: over any run of the system a code is redeemed at most as often as it
  was handed out, so at most once when the random source does not repeat it, and a second exchange of the same
  code right after a granted one is refused.\<close>

theorem codes_are_single_use:
  assumes "sign_in memory_backend_ops cfg b0 memory_code_store newMemoryCodeStore domain feq log s b"
  shows "redemptions c log \<le> mints c log \<and>
    (\<forall>now req grant s' now2 (req2 :: exchange_request). HandleExchange feq memory_code_store now (Some req) s = (Inr grant, s') \<and>
       xq_Code req2 = xq_Code req \<longrightarrow> isl (fst (HandleExchange feq memory_code_store now2 (Some req2) s')))"
proof (intro conjI allI impI)
  note H = local_app_sign_in.redeemed_at_most_minted [OF assms new_codes_ok]
  show "redemptions c log \<le> mints c log" using H [of c] by simp
  fix now req grant s' now2 and req2 :: exchange_request
  assume "HandleExchange feq memory_code_store now (Some req) s = (Inr grant, s') \<and> xq_Code req2 = xq_Code req"
  then have x: "HandleExchange feq memory_code_store now (Some req) s = (Inr grant, s')" and eq: "xq_Code req2 = xq_Code req" by auto
  from x obtain r where r: "co_Take memory_code_store now (xq_Code req) s = (Some r, s')"
    by (cases rule: HandleExchange_cases) (auto simp: granted_def)
  have "wf_map s" using H by blast
  from local_app_sign_in.take_code [OF this r] have "map_of s' (xq_Code req) = None"
    by (auto simp: codes_hold_def)
  then show "isl (fst (HandleExchange feq memory_code_store now2 (Some req2) s'))"
    by (simp add: HandleExchange_def memory_code_store_def codes_take_def eq)
qed

subsection \<open>Completing a sign-in\<close>

text \<open>What others do to the code store between the two hops of a browser.\<close>

datatype code_op = PutCode gotime string code_record | TakeCode gotime string

fun run_codes :: "code_op list \<Rightarrow> memory_codes \<Rightarrow> memory_codes" where
  "run_codes [] m = m"
| "run_codes (PutCode t c r # ops) m = run_codes ops (snd (codes_put t c r m))"
| "run_codes (TakeCode t c # ops) m = run_codes ops (snd (codes_take t c m))"

fun elsewhere :: "string \<Rightarrow> gotime \<Rightarrow> code_op \<Rightarrow> bool" where
  "elsewhere code e (PutCode t c _) \<longleftrightarrow> c \<noteq> code \<and> t \<le> e"
| "elsewhere code e (TakeCode _ c) \<longleftrightarrow> c \<noteq> code"

lemma evict_not_full: "length m < maxCodes \<Longrightarrow> evict_rounds n m = m"
  by (cases n) auto

lemma codes_put_keeps:
  assumes "wf_map m" "map_of m c = Some r" "t \<le> cr_ExpiresAt r" "length m < maxCodes" "c' \<noteq> c"
  shows "map_of (snd (codes_put t c' r' m)) c = Some r" "length (snd (codes_put t c' r' m)) \<le> Suc (length m)"
proof -
  let ?m1 = "codes_cleanupLocked t m"
  have len: "length ?m1 \<le> length m" by (simp add: codes_cleanupLocked_def)
  then have put: "snd (codes_put t c' r' m) = mput c' r' ?m1"
    using assms(4) by (simp add: codes_put_def Let_def evict_not_full)
  have "map_of ?m1 c = Some r" using assms(1-3) by (simp add: codes_cleanupLocked_def map_of_filter_wf)
  then show "map_of (snd (codes_put t c' r' m)) c = Some r" using assms(5) by (simp add: put)
  show "length (snd (codes_put t c' r' m)) \<le> Suc (length m)" using length_mput_le [of c' r' ?m1] len by (simp add: put)
qed

lemma codes_take_keeps:
  assumes "map_of m c = Some r" "c' \<noteq> c"
  shows "map_of (snd (codes_take t c' m)) c = Some r" "length (snd (codes_take t c' m)) \<le> length m"
  using assms length_mdel_le [of c' m] by (auto simp: codes_take_def split: option.splits)

lemma run_codes_keeps:
  assumes "wf_map m" "map_of m c = Some r" "list_all (elsewhere c (cr_ExpiresAt r)) ops" "length m + length ops \<le> maxCodes"
  shows "map_of (run_codes ops m) c = Some r"
  using assms
proof (induction ops arbitrary: m)
  case (Cons op ops)
  show ?case
  proof (cases op)
    case (PutCode t c' r')
    have "wf_map (snd (codes_put t c' r' m))" using codes_put_law [OF Cons.prems(1) prod.collapse [symmetric]] by blast
    moreover note codes_put_keeps [OF Cons.prems(1,2), of t c' r']
    ultimately show ?thesis using Cons.IH [of "snd (codes_put t c' r' m)"] Cons.prems PutCode by simp
  next
    case (TakeCode t c')
    have "wf_map (snd (codes_take t c' m))" using codes_take_law [OF Cons.prems(1) prod.collapse [symmetric]] by blast
    moreover note codes_take_keeps [OF Cons.prems(2), of c' t]
    ultimately show ?thesis using Cons.IH [of "snd (codes_take t c' m)"] Cons.prems TakeCode by simp
  qed
qed simp

text \<open>Property C31. A sign-in that was authorized completes: the code the browser carries back is redeemed for the
  user the cookie resolved to, whatever codes others were handed and redeemed in between, as long as the exchange
  comes within the lifetime of the code, no one else used the code, and the store was not filled up to its
  bound. The random source gives 32 bytes.\<close>

theorem sign_in_completes:
  assumes "sign_in memory_backend_ops cfg b0 memory_code_store newMemoryCodeStore domain feq log m b"
    and "HandleAuthorize memory_backend_ops cfg memory_code_store domain env q m b = (ToApp u code st, m', b')"
    and "\<And>bytes. az_Draw env = Inr bytes \<Longrightarrow> length bytes = 32"
    and "list_all (elsewhere code (az_Mint env + codeTTL)) ops" "length m' + length ops \<le> maxCodes"
    and "now \<le> az_Mint env + codeTTL" "xq_Code req = code" "xq_Ref req = aq_Ref q"
      "feq (to_lower (pu_Host u)) (xq_Host req)" "\<not> blank (xq_Host req)"
  shows "st = aq_State q \<and> (\<exists>ses grant. fst (ResolveRequest memory_backend_ops cfg (aq_Cookie q) (az_Tget env) (az_Now env) b) = Inr ses \<and>
    fst (HandleExchange feq memory_code_store now (Some req) (run_codes ops m')) = Inr grant \<and>
    xg_UserID grant = id_UserID (ses_Identity ses))"
proof -
  have wf: "wf_map m" using local_app_sign_in.redeemed_at_most_minted [OF assms(1) new_codes_ok] by blast
  from assms(2) show ?thesis
  proof (cases rule: HandleAuthorize_cases)
    case refused then show ?thesis by (simp add: authorized_def)
  next
    case (minted redirect ses bytes y)
    let ?r = "code_for (aq_Ref q) (pu_Host redirect) (ses_Identity ses) (az_Mint env)"
    have eq: "u = redirect" "code = base64url bytes" "st = aq_State q" using minted(7) by (auto split: sum.splits)
    have put: "codes_put (az_Put env) code ?r m = (y, m')" using minted(6) eq(2) by (simp add: memory_code_store_def)
    then have m': "wf_map m'" "map_of m' code = Some ?r"
      using codes_put_law [OF wf put] by (auto simp: codes_put_def Let_def)
    have exp: "cr_ExpiresAt ?r = az_Mint env + codeTTL" by (simp add: code_for_def)
    have held: "map_of (run_codes ops m') code = Some ?r"
      using run_codes_keeps [OF m'] assms(4,5) by (simp add: exp)
    have "length bytes = 32" by (rule assms(3) [OF minted(5)])
    then have "bytes \<noteq> []" by auto
    then have "\<not> blank code" using base64url_not_blank eq(2) by simp
    then have "fst (HandleExchange feq memory_code_store now (Some req) (run_codes ops m')) =
        Inr \<lparr>xg_UserID = id_UserID (ses_Identity ses), xg_Email = id_Email (ses_Identity ses),
           xg_Name = id_Name (ses_Identity ses), xg_SessionTTLSeconds = sessionTTL div 10 ^ 9\<rparr>"
      using held assms(6-10) minted(2) eq(1)
      by (simp add: HandleExchange_def memory_code_store_def codes_take_def code_for_def)
    then show ?thesis using minted(3) eq(3) by simp
  qed
qed

subsection \<open>An example\<close>

definition ex_visitor :: identity where
  "ex_visitor = ex_identity\<lparr>id_RBACIdentity := ''f''\<rparr>"

definition ex_visit :: session where
  "ex_visit = \<lparr>ses_ID = ex_handle, ses_Identity = ex_visitor, ses_IssuedAt = 0, ses_ExpiresAt = 10\<rparr>"

definition ex_visitors :: memory_backend where
  "ex_visitors = (New_backend 1)\<lparr>mb_sessions := [(tokenKey ex_session_config ex_handle,
     \<lparr>rec_Identity = ex_visitor, rec_IssuedAt = 0, rec_ExpiresAt = 10\<rparr>)]\<rparr>"

definition ex_url :: parsed_url where
  "ex_url = \<lparr>pu_Scheme = ''https'', pu_User = False, pu_Host = ''s.a'', pu_Hostname = ''s.a'', pu_EscapedPath = CallbackPath,
     pu_RawQuery = [], pu_Fragment = []\<rparr>"

definition ex_app :: instance_ref where
  "ex_app = \<lparr>ir_Cluster = ''c'', ir_Group = ''g'', ir_Resource = ''r'', ir_Name = ''n''\<rparr>"

definition ex_authorize_env :: authorize_env where
  "ex_authorize_env = \<lparr>az_ParseURL = (\<lambda>_. Some ex_url), az_SAR = (\<lambda>_. Inr True), az_Draw = Inr (replicate 32 CHR ''b''),
     az_Tget = 5, az_Now = 5, az_Mint = 5, az_Put = 5\<rparr>"

definition ex_authorize :: authorize_request where
  "ex_authorize = \<lparr>aq_Ref = ex_app, aq_State = ''s'', aq_RedirectURI = [], aq_Retried = [], aq_Cookie = Some ex_handle\<rparr>"

definition ex_code :: string where
  "ex_code = base64url (replicate 32 CHR ''b'')"

definition ex_codes :: memory_codes where
  "ex_codes = [(ex_code, code_for ex_app ''s.a'' ex_visitor 5)]"

definition ex_exchange :: exchange_request where
  "ex_exchange = \<lparr>xq_Code = ex_code, xq_Host = ''s.a'', xq_Ref = ex_app\<rparr>"

lemma ex_visit_issue: "Issue memory_backend_ops ex_session_config ex_visitor 0 ex_draws (New_backend 1) =
  (Inr (ex_handle, ex_visit), ex_visitors)"
proof -
  have "\<not> blank ''u''" by (rule plain_not_blank) (simp_all add: plain_char_def ascii_space_def)
  then have "Issue memory_backend_ops ex_session_config ex_visitor 0 ex_draws (New_backend 1) =
      issue_attempts (Suc 7) memory_backend_ops ex_session_config ex_visitor 0 10 ex_draws (New_backend 1)"
    by (simp add: Issue_def issueWithTTL_def ex_session_config_def ex_identity_def ex_visitor_def maxIssueAttempts_def)
  moreover have "ex_draws 0 = (Inr (replicate 32 CHR ''a''), 0, 0)" by (simp add: ex_draws_def)
  moreover have "randomSecret (Inr (replicate 32 CHR ''a'')) = Inr ex_handle"
    unfolding randomSecret_def ex_handle_def by (simp only: sum.case)
  ultimately show ?thesis
    by (simp only: issue_attempts.simps prod.case sum.case)
      (simp add: memory_backend_ops_def memory_get_def memory_put_def New_backend_def newMemoryBackend_def cleanupLocked_def
        ex_visitors_def ex_visit_def mput_def)
qed

lemma ex_visit_history: "history memory_backend_ops ex_session_config (New_backend 1)
  (issued ex_session_config (Inr (ex_handle, ex_visit)) @ []) ex_visitors"
  using history.issue [OF history.opened, of memory_backend_ops ex_session_config ex_visitor 0 10 ex_draws "New_backend 1"] ex_visit_issue
  by (simp add: Issue_def ex_session_config_def)

lemma ex_visit_resolves: "Resolve memory_backend_ops ex_session_config ex_handle 5 5 ex_visitors = (Inr ex_visit, ex_visitors)"
proof -
  have "\<not> blank ex_handle" unfolding ex_handle_def by (rule base64url_not_blank) simp
  then show ?thesis by (simp add: Resolve_def memory_backend_ops_def memory_get_def ex_visitors_def ex_visit_def New_backend_def
        newMemoryBackend_def cleanupLocked_def)
qed

lemma ex_app_valid: "ref_validate ex_app" "stateRE ''s''"
  by code_simp+

lemma ex_redirect_valid: "validateRedirect ''a'' (\<lambda>_. Some ex_url) [] = Some ex_url"
  by code_simp

text \<open>The label of the host may be empty: \<open>.a\<close> is taken for a host directly under \<open>a\<close>.\<close>

lemma empty_label_accepted: "validateRedirect ''a'' (\<lambda>_. Some (ex_url\<lparr>pu_Hostname := ''.a''\<rparr>)) [] \<noteq> None"
  by code_simp

lemma ex_authorized: "HandleAuthorize memory_backend_ops ex_session_config memory_code_store ''a'' ex_authorize_env ex_authorize
    newMemoryCodeStore ex_visitors = (ToApp ex_url ex_code ''s'', ex_codes, ex_visitors)"
proof -
  have "trim_space ''f'' = ''f''" by code_simp
  then have "app_authorize (\<lambda>_. Inr True) ex_visitor ex_app = Inr True"
    by (simp add: app_authorize_def ex_visitor_def ex_identity_def)
  moreover have "codes_put 5 ex_code r newMemoryCodeStore = (Inr (), [(ex_code, r)])" for r
    by (simp add: codes_put_def newMemoryCodeStore_def codes_cleanupLocked_def mput_def)
  moreover have "ses_Identity ex_visit = ex_visitor" "pu_Host ex_url = ''s.a''" by (simp_all add: ex_visit_def ex_url_def)
  ultimately show ?thesis using ex_visit_resolves ex_app_valid ex_redirect_valid
    by (simp add: HandleAuthorize_def ex_authorize_def ex_authorize_env_def ResolveRequest_def mintCode_def memory_code_store_def
        ex_codes_def flip: ex_code_def)
qed

definition ex_log :: "sign_in_event list" where
  "ex_log = authorized ex_authorize_env ex_authorize (ToApp ex_url ex_code ''s'') @
     map Session (issued ex_session_config (Inr (ex_handle, ex_visit))) @ []"

lemma ex_sign_in: "sign_in memory_backend_ops ex_session_config (New_backend 1) memory_code_store newMemoryCodeStore ''a'' (=)
    ex_log ex_codes ex_visitors"
  unfolding ex_log_def
  by (rule sign_in.authorize [OF sign_in.sessions [OF sign_in.opened] ex_authorized])
    (use ex_visit_history in simp)

lemma ex_host: "\<not> blank ''s.a''" "to_lower ''s.a'' = ''s.a''"
  by code_simp+

lemma ex_exchanged: "\<exists>grant. HandleExchange (=) memory_code_store 6 (Some ex_exchange) ex_codes = (Inr grant, [])"
proof -
  have "\<not> blank ex_code" unfolding ex_code_def by (rule base64url_not_blank) simp
  then show ?thesis using ex_app_valid ex_host
    by (simp add: HandleExchange_def ex_exchange_def memory_code_store_def codes_take_def ex_codes_def code_for_def codeTTL_def mdel_def)
qed

theorem app_sign_in_is_authorized_witness:
  "\<exists>grant env q post pre. HandleExchange (=) memory_code_store 6 (Some ex_exchange) ex_codes = (Inr grant, []) \<and>
     ex_log = post @ Authorized ex_code env q # pre \<and> xg_SessionTTLSeconds grant = 900"
proof -
  obtain grant where x: "HandleExchange (=) memory_code_store 6 (Some ex_exchange) ex_codes = (Inr grant, [])"
    using ex_exchanged by blast
  have "xq_Code ex_exchange = ex_code" by (simp add: ex_exchange_def)
  then show ?thesis using app_sign_in_is_authorized [OF ex_sign_in ex_digest_length x] x by auto
qed

theorem codes_are_single_use_witness: "redemptions ex_code ex_log \<le> mints ex_code ex_log"
  using codes_are_single_use [OF ex_sign_in] by blast

theorem sign_in_completes_witness:
  "\<exists>grant. fst (HandleExchange (=) memory_code_store 6 (Some ex_exchange) ex_codes) = Inr grant \<and> xg_UserID grant = ''u''"
proof -
  have "sign_in memory_backend_ops ex_session_config (New_backend 1) memory_code_store newMemoryCodeStore ''a'' (=)
      (map Session (issued ex_session_config (Inr (ex_handle, ex_visit))) @ []) newMemoryCodeStore ex_visitors"
    by (rule sign_in.sessions [OF sign_in.opened]) (use ex_visit_history in simp)
  from sign_in_completes [OF this ex_authorized, of "[]" 6 ex_exchange] ex_host ex_visit_resolves show ?thesis
    by (auto simp: ex_authorize_env_def ex_authorize_def ex_exchange_def ex_codes_def maxCodes_def codeTTL_def ResolveRequest_def
        ex_url_def ex_visit_def ex_visitor_def ex_identity_def)
qed

end
