(* ===== verification/Hub_Shared_Props.thy ===== *)
theory Hub_Shared_Props
  imports Hub_Shared_System Hub_App_Auth_Props
begin

section \<open>Hub: what the shared store guarantees\<close>

text \<open>
  The invariant of the log of replicas on the shared store, and what follows for all of them together: a code is
  redeemed once, a session resolves to what was put, and a logout that was confirmed holds at every replica.
\<close>

subsection \<open>The invariant\<close>

fun event_id :: "shared_event \<Rightarrow> nat" where
  "event_id (Called i op) = i"
| "event_id (Answered i op r) = i"
| "event_id (Wrote i s) = i"
| "event_id (Fetched i s) = i"
| "event_id (Removed i s) = i"
| "event_id (Absent i n) = i"

definition own :: "nat \<Rightarrow> shared_event list \<Rightarrow> shared_event set" where
  "own i log = {e \<in> set log. event_id e = i}"

fun justified :: "(string \<Rightarrow> string) \<Rightarrow> shared_event \<Rightarrow> shared_event list \<Rightarrow> bool" where
  "justified d (Called i op) log \<longleftrightarrow> own i log = {}"
| "justified d (Answered i op r) log \<longleftrightarrow> Called i op \<in> set log \<and> (\<forall>op' r'. Answered i op' r' \<notin> set log) \<and> explained d i op r (own i log)"
| "justified d (Wrote i s) log \<longleftrightarrow> (\<exists>op. Called i op \<in> set log \<and> stores d op s) \<and> (\<forall>s'. Wrote i s' \<notin> set log) \<and>
     unused_version log (sc_ResourceVersion s)"
| "justified d (Fetched i s) log \<longleftrightarrow> current_secret log (sc_Name s) = Some s \<and> own i log \<noteq> {}"
| "justified d (Removed i s) log \<longleftrightarrow> current_secret log (sc_Name s) = Some s \<and> own i log \<noteq> {}"
| "justified d (Absent i n) log \<longleftrightarrow> current_secret log n = None \<and> own i log \<noteq> {}"

fun good_log :: "(string \<Rightarrow> string) \<Rightarrow> shared_event list \<Rightarrow> bool" where
  "good_log d [] \<longleftrightarrow> True"
| "good_log d (e # log) \<longleftrightarrow> justified d e log \<and> good_log d log"

lemma good_log_at: "good_log d (post @ e # pre) \<Longrightarrow> justified d e pre \<and> good_log d pre"
  by (induction post) auto

lemma own_Cons [simp]: "own i (e # log) = (if event_id e = i then insert e (own i log) else own i log)"
  by (auto simp: own_def)

lemma own_append: "own i (evs @ log) = own i evs \<union> own i log"
  by (auto simp: own_def)

lemma own_all: "(\<And>e. e \<in> set evs \<Longrightarrow> event_id e = i) \<Longrightarrow> own i evs = set evs"
  by (auto simp: own_def)

lemma own_others: "(\<And>e. e \<in> set evs \<Longrightarrow> event_id e = i) \<Longrightarrow> j \<noteq> i \<Longrightarrow> own j evs = {}"
  by (auto simp: own_def)

lemma call_events:
  "\<And>e. e \<in> set (wrote i w) \<Longrightarrow> event_id e = i" "\<And>e. e \<in> set (removed i n r w) \<Longrightarrow> event_id e = i"
  "\<And>e. e \<in> set (fetched i n r') \<Longrightarrow> event_id e = i"
  by (cases w; auto simp: removed_def fetched_def split: sum.splits option.splits if_splits)+

lemma no_answers:
  "Answered j op x \<notin> set (wrote i w)" "Answered j op x \<notin> set (removed i n r w)" "Answered j op x \<notin> set (fetched i n r')"
  by (cases w; auto simp: removed_def fetched_def split: sum.splits option.splits if_splits)+

lemma current_name: "current_secret log n = Some s \<Longrightarrow> sc_Name s = n"
  by (induction log) (auto split: shared_event.splits if_splits)

lemma current_written: "current_secret log n = Some s \<Longrightarrow> \<exists>i. Wrote i s \<in> set log"
  by (induction log) (auto split: shared_event.splits if_splits)

lemma removed_written: "good_log d log \<Longrightarrow> Removed i s \<in> set log \<Longrightarrow> \<exists>j. Wrote j s \<in> set log"
  by (induction log) (auto dest: current_written)

lemma fetched_written: "good_log d log \<Longrightarrow> Fetched i s \<in> set log \<Longrightarrow> \<exists>j. Wrote j s \<in> set log"
  by (induction log) (auto dest: current_written)

lemma version_unique:
  "good_log d log \<Longrightarrow> Wrote i s \<in> set log \<Longrightarrow> Wrote j s' \<in> set log \<Longrightarrow> sc_ResourceVersion s = sc_ResourceVersion s' \<Longrightarrow> s = s' \<and> i = j"
proof (induction log)
  case (Cons e log)
  show ?case
  proof (cases "\<exists>k t. e = Wrote k t")
    case True
    then obtain k t where e: "e = Wrote k t" by blast
    then have "\<And>i' s'. Wrote i' s' \<in> set log \<Longrightarrow> sc_ResourceVersion s' \<noteq> sc_ResourceVersion t" "good_log d log"
      using Cons.prems(1) by (auto simp: unused_version_def)
    then show ?thesis using Cons.prems(2-4) Cons.IH unfolding e by auto metis+
  next
    case False
    then show ?thesis using Cons by auto
  qed
qed simp

text \<open>A Secret that was removed is never current again, so it is removed once.\<close>

lemma current_not_removed: "good_log d log \<Longrightarrow> current_secret log n = Some s \<Longrightarrow> Removed i s \<notin> set log"
proof (induction log)
  case (Cons e log)
  then have IH: "current_secret log n = Some s \<Longrightarrow> Removed i s \<notin> set log" by simp
  show ?case
  proof (cases e)
    case (Wrote j t)
    then have "Removed i t \<notin> set log"
      using Cons.prems(1) removed_written [of d log i t] by (auto simp: unused_version_def)
    then show ?thesis using Cons.prems Wrote IH by (auto split: if_splits)
  next
    case (Removed j t)
    then have "sc_Name t \<noteq> n" "current_secret log n = Some s" using Cons.prems(2) by (auto split: if_splits)
    then show ?thesis using Removed IH current_name [of log n s] by auto
  qed (use Cons IH in auto)
qed simp

lemma removed_once: "good_log d log \<Longrightarrow> Removed i s \<in> set log \<Longrightarrow> Removed j s \<in> set log \<Longrightarrow> i = j"
proof (induction log)
  case (Cons e log)
  show ?case
  proof (cases "\<exists>k. e = Removed k s")
    case True
    then obtain k where k: "e = Removed k s" by blast
    then have "current_secret log (sc_Name s) = Some s" "good_log d log" using Cons.prems(1) by simp_all
    then have "Removed i s \<notin> set log" "Removed j s \<notin> set log" by (simp_all add: current_not_removed)
    then show ?thesis using Cons.prems(2,3) unfolding k by simp
  next
    case False
    then have "Removed i s \<in> set log" "Removed j s \<in> set log" using Cons.prems(2,3) by auto
    then show ?thesis using Cons.IH Cons.prems(1) by simp
  qed
qed simp

definition call_sound :: "(string \<Rightarrow> string) \<Rightarrow> shared_event list \<Rightarrow> nat \<Rightarrow> shared_op \<Rightarrow> shared_reply api_call \<Rightarrow> bool" where
  "call_sound d log i op t \<longleftrightarrow> Called i op \<in> set log \<and> (\<forall>op' r. Answered i op' r \<notin> set log) \<and> lawful d i op t (own i log)"

lemma call_sound_other:
  assumes "call_sound d log j op t" "\<And>e. e \<in> set evs \<Longrightarrow> event_id e = i" "j \<noteq> i"
  shows "call_sound d (evs @ log) j op t"
  using assms(1,3) own_others [OF assms(2,3)] assms(2) by (fastforce simp: call_sound_def own_append)

definition calls_ok :: "(string \<Rightarrow> string) \<Rightarrow> shared_event list \<Rightarrow> operations \<Rightarrow> bool" where
  "calls_ok d log th \<longleftrightarrow> good_log d log \<and> (\<forall>i op t. th i = Some (op, t) \<longrightarrow> call_sound d log i op t)"

lemma step_ok:
  assumes "calls_ok d log th" "th i = Some (op, t0)" "\<And>e. e \<in> set evs \<Longrightarrow> event_id e = i" "good_log d (evs @ log)"
    "lawful d i op t (set evs \<union> own i log)" "\<And>j op r. Answered j op r \<notin> set evs"
  shows "calls_ok d (evs @ log) (th(i := Some (op, t)))"
  unfolding calls_ok_def
proof (intro conjI allI impI assms(4))
  fix j op' t' assume j: "(th(i := Some (op, t))) j = Some (op', t')"
  show "call_sound d (evs @ log) j op' t'"
  proof (cases "j = i")
    case True
    then show ?thesis using assms j own_all [OF assms(3)] by (auto simp: calls_ok_def call_sound_def own_append)
  next
    case False
    then have "call_sound d log j op' t'" using assms(1) j by (simp add: calls_ok_def)
    then show ?thesis by (rule call_sound_other [OF _ assms(3) False])
  qed
qed

definition run_ok :: "(string \<Rightarrow> string) \<Rightarrow> shared_event list \<Rightarrow> operations \<Rightarrow> bool" where
  "run_ok d log th \<longleftrightarrow> calls_ok d log th \<and> (\<forall>i. own i log \<noteq> {} \<longrightarrow> (\<exists>op. Called i op \<in> set log))"

lemma call_ok:
  assumes "run_ok d log th" "th i = Some (op, t0)" "\<And>e. e \<in> set evs \<Longrightarrow> event_id e = i" "good_log d (evs @ log)"
    "lawful d i op t (set evs \<union> own i log)" "\<And>j op r. Answered j op r \<notin> set evs"
  shows "run_ok d (evs @ log) (th(i := Some (op, t)))"
  unfolding run_ok_def
proof (intro conjI allI impI)
  have ok: "calls_ok d log th" using assms(1) by (simp add: run_ok_def)
  show "calls_ok d (evs @ log) (th(i := Some (op, t)))" by (rule step_ok [OF ok assms(2-6)])
  fix j assume j: "own j (evs @ log) \<noteq> {}"
  show "\<exists>op. Called j op \<in> set (evs @ log)"
  proof (cases "j = i")
    case True
    then show ?thesis using ok assms(2) by (auto simp: calls_ok_def call_sound_def)
  next
    case False
    then have "own j log \<noteq> {}" using j own_others [OF assms(3) False] by (simp add: own_append)
    then show ?thesis using assms(1) by (auto simp: run_ok_def)
  qed
qed

lemma run_okD:
  "run_ok d log th \<Longrightarrow> th i = Some (op, t) \<Longrightarrow> Called i op \<in> set log"
  "run_ok d log th \<Longrightarrow> th i = Some (op, t) \<Longrightarrow> lawful d i op t (own i log)"
  "run_ok d log th \<Longrightarrow> th i = Some (op, t) \<Longrightarrow> Answered i op' r \<notin> set log"
  "run_ok d log th \<Longrightarrow> good_log d log"
  by (simp_all add: run_ok_def calls_ok_def call_sound_def)

lemma shared_run_ok:
  assumes "shared_run api d log th" "secrets_contract api"
  shows "run_ok d log th"
  using assms(1)
proof (induction rule: shared_run.induct)
  case begins then show ?case by (simp add: run_ok_def calls_ok_def own_def)
next
  case (calls log th i op)
  then have none: "own i log = {}" by (auto simp: run_ok_def)
  show ?case unfolding run_ok_def
  proof
    show "calls_ok d (Called i op # log) (th(i := Some (op, op_calls d op)))"
      unfolding calls_ok_def
    proof (intro conjI allI impI)
      show "good_log d (Called i op # log)" using calls.IH none by (simp add: run_ok_def calls_ok_def)
      fix j op' t' assume j: "(th(i := Some (op, op_calls d op))) j = Some (op', t')"
      show "call_sound d (Called i op # log) j op' t'"
      proof (cases "j = i")
        case True
        then have "op' = op" "t' = op_calls d op" "\<forall>op'' r. Answered i op'' r \<notin> set log" using j none by (auto simp: own_def)
          then show ?thesis using True none lawful_start [of d i op] by (simp add: call_sound_def)
      next
        case False
        then have "call_sound d log j op' t'" using j calls.IH by (simp add: run_ok_def calls_ok_def)
        then show ?thesis using call_sound_other [of d log j op' t' "[Called i op]" i] False by simp
      qed
    qed
  qed (use calls.IH in \<open>auto simp: run_ok_def split: if_splits\<close>)
next
  case (creates log th i op s k r w)
  have ok: "Called i op \<in> set log" "lawful d i op (CreateSecret s k) (own i log)" "good_log d log"
    using run_okD [OF creates.IH] creates(2) by blast+
  have w: "case w of None \<Rightarrow> isl r | Some s' \<Rightarrow> current_secret log (sc_Name s) = None \<and> same_content s s' \<and>
      unused_version log (sc_ResourceVersion s') \<and> \<not> already_exists r"
    using assms(2) creates(3) unfolding secrets_contract_def create_law_def by blast
  have "good_log d (wrote i w @ log)" using ok w
    by (cases w) (auto simp: stores_def same_content_def own_def)
  moreover have "case w of None \<Rightarrow> isl r | Some s' \<Rightarrow> same_content s s' \<and> \<not> already_exists r" using w by (auto split: option.splits)
  then have "lawful d i op (k r) (set (wrote i w) \<union> own i log)" using ok(2) unfolding lawful.simps by blast
  ultimately show ?case using call_ok [OF creates.IH creates(2)] call_events(1) no_answers(1) by blast
next
  case (updates log th i op s k r w)
  have ok: "Called i op \<in> set log" "lawful d i op (UpdateSecret s k) (own i log)" "good_log d log"
    using run_okD [OF updates.IH] updates(2) by blast+
  have w: "case w of None \<Rightarrow> isl r \<or> (\<exists>s0. current_secret log (sc_Name s) = Some s0 \<and> same_content s s0)
    | Some s' \<Rightarrow> current_secret log (sc_Name s) \<noteq> None \<and> same_content s s' \<and> unused_version log (sc_ResourceVersion s')"
    using assms(2) updates(3) unfolding secrets_contract_def update_law_def by blast
  have "good_log d (wrote i w @ log)" using ok w
    by (cases w) (auto simp: stores_def same_content_def own_def)
  moreover have "case w of None \<Rightarrow> True | Some s' \<Rightarrow> same_content s s'" using w by (auto split: option.splits)
  then have "lawful d i op (k r) (set (wrote i w) \<union> own i log)" using ok(2) unfolding lawful.simps by blast
  ultimately show ?case using call_ok [OF updates.IH updates(2)] call_events(1) no_answers(1) by blast
next
  case (deletes log th i op n p k r w)
  have ok: "Called i op \<in> set log" "lawful d i op (DeleteSecret n p k) (own i log)" "good_log d log"
    using run_okD [OF deletes.IH] deletes(2) by blast+
  have own: "own i log \<noteq> {}" using ok(1) by (auto simp: own_def)
  have w: "case w of None \<Rightarrow> isl r \<and> (not_found r \<longrightarrow> current_secret log n = None) | Some s \<Rightarrow> current_secret log n = Some s \<and>
      (case p of None \<Rightarrow> True | Some (u, v) \<Rightarrow> sc_UID s = u \<and> sc_ResourceVersion s = v)"
    using assms(2) deletes(3) unfolding secrets_contract_def delete_law_def by blast
  have same: "s0 = s" if ws: "w = Some s" and f: "Fetched i s0 \<in> own i log" and v: "sc_ResourceVersion s0 = sc_ResourceVersion s" for s s0
  proof -
    obtain j where j: "Wrote j s0 \<in> set log" using fetched_written [OF ok(3)] f by (auto simp: own_def)
    have "current_secret log n = Some s" using w ws by simp
    then obtain j' where "Wrote j' s \<in> set log" using current_written by blast
    then show ?thesis using version_unique [OF ok(3) j] v by blast
  qed
  have "good_log d (removed i n r w @ log)" using ok(3) w own current_name
    by (cases w) (auto simp: removed_def)
  moreover have "case w of None \<Rightarrow> isl r | Some s \<Rightarrow> sc_Name s = n \<and>
      (case p of None \<Rightarrow> True | Some (u, v) \<Rightarrow> sc_ResourceVersion s = v) \<and>
      (\<forall>s0. Fetched i s0 \<in> own i log \<and> sc_ResourceVersion s0 = sc_ResourceVersion s \<longrightarrow> s0 = s)"
    using w same current_name by (auto split: option.splits)
  then have "lawful d i op (k r) (set (removed i n r w) \<union> own i log)" using ok(2) unfolding lawful.simps by blast
  ultimately show ?case using call_ok [OF deletes.IH deletes(2)] call_events(2) no_answers(2) by blast
next
  case (gets log th i op n k r')
  have ok: "Called i op \<in> set log" "lawful d i op (GetSecret n k) (own i log)" "good_log d log"
    using run_okD [OF gets.IH] gets(2) by blast+
  have own: "own i log \<noteq> {}" using ok(1) by (auto simp: own_def)
  have r: "\<forall>s. r' = Inr s \<longrightarrow> current_secret log n = Some s" "not_found r' \<longrightarrow> current_secret log n = None"
    using assms(2) gets(3) unfolding secrets_contract_def read_law_def by blast+
  have "good_log d (fetched i n r' @ log)" using ok(3) r own current_name
    by (cases r') (auto simp: fetched_def)
  moreover have "lawful d i op (k r') (set (fetched i n r') \<union> own i log)" using ok(2) r(1) current_name unfolding lawful.simps by blast
  ultimately show ?case using call_ok [OF gets.IH gets(2)] call_events(3) no_answers(3) by blast
next
  case (lists log th i op l k rs)
  have "lawful d i op (ListSecrets l k) (own i log)" "good_log d log" using run_okD [OF lists.IH] lists(2) by blast+
  then show ?case using call_ok [OF lists.IH lists(2), of "[]" "k rs"] by (simp del: fun_upd_apply)
next
  case (answers log th i op r)
  then have "lawful d i op (Finished r) (own i log)" using run_okD(2) by blast
  then have ok: "Called i op \<in> set log" "\<forall>op' r'. Answered i op' r' \<notin> set log" "explained d i op r (own i log)" "good_log d log"
    using run_okD [OF answers.IH] answers(2) by simp_all
  have "calls_ok d (Answered i op r # log) (th(i := None))"
    unfolding calls_ok_def
  proof (intro conjI allI impI)
    show "good_log d (Answered i op r # log)" using ok by simp
    fix j op' t' assume j: "(th(i := None)) j = Some (op', t')"
    then have "j \<noteq> i" "call_sound d log j op' t'" using answers.IH by (auto simp: run_ok_def calls_ok_def split: if_splits)
    then show "call_sound d (Answered i op r # log) j op' t'"
      using call_sound_other [of d log j op' t' "[Answered i op r]" i] by simp
  qed
  then show ?case using answers.IH ok(1) by (auto simp: run_ok_def simp del: fun_upd_apply)
qed

subsection \<open>What a log shows\<close>

lemma explained_mono: "explained d i op r evs \<Longrightarrow> evs \<subseteq> evs' \<Longrightarrow> explained d i op r evs'"
  by (cases "(d, i, op, r, evs)" rule: explained.cases) (simp_all, blast+)

lemma answered_explained: "good_log d log \<Longrightarrow> Answered i op r \<in> set log \<Longrightarrow> explained d i op r (set log)"
proof -
  assume g: "good_log d log" and "Answered i op r \<in> set log"
  then obtain post pre where log: "log = post @ Answered i op r # pre" by (auto dest: split_list)
  then have "explained d i op r (own i pre)" using good_log_at g by fastforce
  then show "explained d i op r (set log)" by (rule explained_mono) (auto simp: log own_def)
qed

lemma answered_once: "good_log d log \<Longrightarrow> Answered i op r \<in> set log \<Longrightarrow> Answered i op' r' \<in> set log \<Longrightarrow> op = op' \<and> r = r'"
proof (induction log)
  case (Cons e log)
  show ?case
  proof (cases "\<exists>op0 r0. e = Answered i op0 r0")
    case True
    then obtain op0 r0 where e: "e = Answered i op0 r0" by blast
    then have "Answered i op r \<notin> set log" "Answered i op' r' \<notin> set log" using Cons.prems(1) by simp_all
    then show ?thesis using Cons.prems(2,3) unfolding e by simp
  next
    case False
    then have "Answered i op r \<in> set log" "Answered i op' r' \<in> set log" using Cons.prems(2,3) by auto
    then show ?thesis using Cons.IH Cons.prems(1) by simp
  qed
qed simp

lemma wrote_called: "good_log d log \<Longrightarrow> Wrote i s \<in> set log \<Longrightarrow> \<exists>op. Called i op \<in> set log \<and> stores d op s"
proof -
  assume g: "good_log d log" and "Wrote i s \<in> set log"
  then obtain post pre where log: "log = post @ Wrote i s # pre" by (auto dest: split_list)
  then have "justified d (Wrote i s) pre" using good_log_at g by blast
  then show "\<exists>op. Called i op \<in> set log \<and> stores d op s" unfolding log by auto
qed

lemma wrote_once: "good_log d log \<Longrightarrow> Wrote i s \<in> set log \<Longrightarrow> Wrote i s' \<in> set log \<Longrightarrow> s = s'"
proof (induction log)
  case (Cons e log)
  show ?case
  proof (cases "\<exists>t. e = Wrote i t")
    case True
    then obtain t where e: "e = Wrote i t" by blast
    then have "Wrote i s \<notin> set log" "Wrote i s' \<notin> set log" using Cons.prems(1) by simp_all
    then show ?thesis using Cons.prems(2,3) unfolding e by simp
  next
    case False
    then have "Wrote i s \<in> set log" "Wrote i s' \<in> set log" using Cons.prems(2,3) by auto
    then show ?thesis using Cons.IH Cons.prems(1) by simp
  qed
qed simp

lemma names_apart: "objectName (codes_store d) x \<noteq> objectName (sessions_store d) y"
  by (simp add: objectName_def codes_store_def sessions_store_def)

lemma stored_code:
  assumes "stores d op s" "sc_Name s = objectName (codes_store d) code"
  obtains c r0 where "op = PutCodeOp c r0" "objectName (codes_store d) c = objectName (codes_store d) code"
    "unmarshal_code (secret_value s) = Some (coerce_code r0)" "\<not> expired now s \<longleftrightarrow> now < cr_ExpiresAt r0"
proof (cases op)
  case (PutCodeOp c r0)
  then obtain v where v: "marshal_code r0 = Some v" "sc_Name s = objectName (codes_store d) c"
    "sc_Data s = [(''value'', v), (''expiresAt'', rfc3339_nano (cr_ExpiresAt r0))]" using assms(1) by (auto simp: stores_def)
  have "parse_rfc3339 (rfc3339_nano (cr_ExpiresAt r0)) = Some (cr_ExpiresAt r0)"
    using v(1) by (intro rfc3339_read_back) (auto simp: marshal_code_def split: if_splits)
  then have "\<not> expired now s \<longleftrightarrow> now < cr_ExpiresAt r0" by (simp add: expired_def v(3))
  moreover have "unmarshal_code (secret_value s) = Some (coerce_code r0)" using code_read_back [OF v(1)] by (simp add: secret_value_def v(3))
  ultimately show thesis using that [of c r0] PutCodeOp v(2) assms(2) by simp
next
  case (PutSessionOp k r0)
  then show thesis using assms names_apart [of d code k] by (auto simp: stores_def)
qed (use assms(1) in \<open>auto simp: stores_def\<close>)

lemma stored_session:
  assumes "stores d op s" "sc_Name s = objectName (sessions_store d) key"
  obtains k r0 where "op = PutSessionOp k r0" "objectName (sessions_store d) k = objectName (sessions_store d) key"
    "unmarshal_session (secret_value s) = Some (coerce_session r0)" "\<not> expired now s \<longleftrightarrow> now < rec_ExpiresAt r0"
proof (cases op)
  case (PutSessionOp k r0)
  then obtain v where v: "marshal_session r0 = Some v" "sc_Name s = objectName (sessions_store d) k"
    "sc_Data s = [(''value'', v), (''expiresAt'', rfc3339_nano (rec_ExpiresAt r0))]" using assms(1) by (auto simp: stores_def)
  have "parse_rfc3339 (rfc3339_nano (rec_ExpiresAt r0)) = Some (rec_ExpiresAt r0)"
    using v(1) by (intro rfc3339_read_back) (auto simp: marshal_session_def split: if_splits)
  then have "\<not> expired now s \<longleftrightarrow> now < rec_ExpiresAt r0" by (simp add: expired_def v(3))
  moreover have "unmarshal_session (secret_value s) = Some (coerce_session r0)" using session_read_back [OF v(1)] by (simp add: secret_value_def v(3))
  ultimately show thesis using that [of k r0] PutSessionOp v(2) assms(2) by simp
next
  case (PutCodeOp c r0)
  then show thesis using assms names_apart [of d c key] by (auto simp: stores_def)
qed (use assms(1) in \<open>auto simp: stores_def\<close>)

lemma took_code:
  assumes "good_log d log" "Answered j (TakeCodeOp code now) (TookCode (Some r)) \<in> set log"
  shows "\<exists>i s c r0. Removed j s \<in> set log \<and> Wrote i s \<in> set log \<and> Called i (PutCodeOp c r0) \<in> set log \<and>
    objectName (codes_store d) c = objectName (codes_store d) code \<and> r = coerce_code r0 \<and> now < cr_ExpiresAt r0"
proof -
  obtain s where s: "Removed j s \<in> set log" "sc_Name s = objectName (codes_store d) code" "\<not> expired now s"
    "unmarshal_code (secret_value s) = Some r" using answered_explained [OF assms] by auto
  obtain i where i: "Wrote i s \<in> set log" using removed_written [OF assms(1) s(1)] by blast
  obtain op where op: "Called i op \<in> set log" "stores d op s" using wrote_called [OF assms(1) i] by blast
  obtain c r0 where "op = PutCodeOp c r0" "objectName (codes_store d) c = objectName (codes_store d) code"
    "unmarshal_code (secret_value s) = Some (coerce_code r0)" "\<not> expired now s \<longleftrightarrow> now < cr_ExpiresAt r0"
    using stored_code [OF op(2) s(2)] by blast
  then show ?thesis using s i op(1) by auto
qed

text \<open>Property C8. Across all replicas a sign-in code is redeemed at most once: whatever operations run at the same
  time, wherever they fail or stop, every redemption belongs to a put of its own, the one that stored the code
  (or one whose digest equals it); it returns that put's record with its texts coerced to UTF-8, before it expires.\<close>

theorem shared_code_redeemed_once:
  assumes "shared_run api d log th" "secrets_contract api"
  shows "\<exists>origin. inj_on origin {j. \<exists>code now r. Answered j (TakeCodeOp code now) (TookCode (Some r)) \<in> set log} \<and>
    (\<forall>j code now r. Answered j (TakeCodeOp code now) (TookCode (Some r)) \<in> set log \<longrightarrow>
       (\<exists>c r0. Called (origin j) (PutCodeOp c r0) \<in> set log \<and> objectName (codes_store d) c = objectName (codes_store d) code \<and>
          r = coerce_code r0 \<and> now < cr_ExpiresAt r0))"
proof -
  have g: "good_log d log" using shared_run_ok [OF assms] by (simp add: run_ok_def calls_ok_def)
  let ?S = "{j. \<exists>code now r. Answered j (TakeCodeOp code now) (TookCode (Some r)) \<in> set log}"
  let ?put = "\<lambda>i code now r. \<exists>c r0. Called i (PutCodeOp c r0) \<in> set log \<and>
    objectName (codes_store d) c = objectName (codes_store d) code \<and> r = coerce_code r0 \<and> now < cr_ExpiresAt r0"
  define P where "P j i \<longleftrightarrow> (\<exists>s. Removed j s \<in> set log \<and> Wrote i s \<in> set log) \<and>
      (\<forall>code now r. Answered j (TakeCodeOp code now) (TookCode (Some r)) \<in> set log \<longrightarrow> ?put i code now r)" for j i
  have "\<exists>i. P j i" if "j \<in> ?S" for j
  proof -
    obtain code now r where a: "Answered j (TakeCodeOp code now) (TookCode (Some r)) \<in> set log" using \<open>j \<in> ?S\<close> by blast
    obtain i s where i: "Removed j s \<in> set log" "Wrote i s \<in> set log" "?put i code now r" using took_code [OF g a] by blast
    have "?put i code' now' r'" if "Answered j (TakeCodeOp code' now') (TookCode (Some r')) \<in> set log" for code' now' r'
      using answered_once [OF g a that] i(3) by simp
    then show ?thesis using i(1,2) unfolding P_def by blast
  qed
  then obtain origin where o: "\<forall>j \<in> ?S. P j (origin j)" using bchoice [of ?S P] by blast
  have "inj_on origin ?S"
  proof (rule inj_onI)
    fix j j' assume "j \<in> ?S" "j' \<in> ?S" and eq: "origin j = origin j'"
    then have p: "P j (origin j)" "P j' (origin j')" using o by blast+
    obtain s where s: "Removed j s \<in> set log" "Wrote (origin j) s \<in> set log" using conjunct1 [OF p(1) [unfolded P_def]] by blast
    obtain s' where s': "Removed j' s' \<in> set log" "Wrote (origin j) s' \<in> set log"
      using conjunct1 [OF p(2) [unfolded P_def]] unfolding eq by blast
    have "s = s'" by (rule wrote_once [OF g s(2) s'(2)])
    then show "j = j'" using removed_once [OF g s(1)] s'(1) by blast
  qed
  moreover have "?put (origin j) code now r" if a: "Answered j (TakeCodeOp code now) (TookCode (Some r)) \<in> set log" for j code now r
  proof -
    have "P j (origin j)" using o a by blast
    from conjunct2 [OF this [unfolded P_def]] show ?thesis using a by blast
  qed
  ultimately show ?thesis by (intro exI [of _ origin] conjI allI impI)
qed

subsection \<open>Sessions\<close>

lemma got_session:
  assumes "good_log d log" "Answered j (GetSessionOp key now) (GotSession (Inr r)) \<in> set log"
  obtains s i k r0 where "Fetched j s \<in> set log" "sc_Name s = objectName (sessions_store d) key" "Called i (PutSessionOp k r0) \<in> set log"
    "objectName (sessions_store d) k = objectName (sessions_store d) key" "r = coerce_session r0" "now < rec_ExpiresAt r0"
proof -
  obtain s where s: "Fetched j s \<in> set log" "sc_Name s = objectName (sessions_store d) key" "\<not> expired now s"
    "unmarshal_session (secret_value s) = Some r" using answered_explained [OF assms] by auto
  obtain i where i: "Wrote i s \<in> set log" using fetched_written [OF assms(1) s(1)] by blast
  obtain op where op: "Called i op \<in> set log" "stores d op s" using wrote_called [OF assms(1) i] by blast
  obtain k r0 where "op = PutSessionOp k r0" "objectName (sessions_store d) k = objectName (sessions_store d) key"
    "unmarshal_session (secret_value s) = Some (coerce_session r0)" "\<not> expired now s \<longleftrightarrow> now < rec_ExpiresAt r0"
    using stored_session [OF op(2) s(2)] by blast
  then show thesis using that s op(1) by auto
qed

lemma absent_stays:
  "current_secret log n = None \<Longrightarrow> \<forall>i s. Wrote i s \<in> set evs \<longrightarrow> sc_Name s \<noteq> n \<Longrightarrow> current_secret (evs @ log) n = None"
  by (induction evs) (auto split: shared_event.splits)

lemma after_called: "good_log d (post @ Called i op # pre) \<Longrightarrow> event_id e = i \<Longrightarrow> e \<notin> set pre"
  using good_log_at [of d post "Called i op" pre] by (auto simp: own_def)

text \<open>After a deletion was confirmed, there was a moment since its call at which the name had no Secret.\<close>

lemma revoked_absent:
  assumes g: "good_log d (Answered i (RevokeSessionOp key) (DidRevoke (Inr u)) # mid @ Called i (RevokeSessionOp key) # pre)"
  obtains newer older where "mid @ Called i (RevokeSessionOp key) # pre = newer @ older" "set newer \<subseteq> set mid"
    "current_secret older (objectName (sessions_store d) key) = None"
proof -
  let ?n = "objectName (sessions_store d) key" and ?log = "mid @ Called i (RevokeSessionOp key) # pre"
  have "(\<exists>s. Removed i s \<in> own i ?log \<and> sc_Name s = ?n) \<or> Absent i ?n \<in> own i ?log" using g by simp
  then have "\<exists>e \<in> own i ?log. e = Absent i ?n \<or> (\<exists>s. e = Removed i s \<and> sc_Name s = ?n)" by blast
  then obtain e where e: "e \<in> set ?log" "event_id e = i" "e = Absent i ?n \<or> (\<exists>s. e = Removed i s \<and> sc_Name s = ?n)"
    unfolding own_def by blast
  have "good_log d ((Answered i (RevokeSessionOp key) (DidRevoke (Inr u)) # mid) @ Called i (RevokeSessionOp key) # pre)"
    using g unfolding append_Cons .
  from after_called [OF this e(2)] have "e \<notin> set pre" .
  moreover have "e \<noteq> Called i (RevokeSessionOp key)" using e(3) by auto
  ultimately have "e \<in> set mid" using e(1) by simp
  then obtain m1 m2 where m: "mid = m1 @ e # m2" by (auto dest: split_list)
  let ?older = "m2 @ Called i (RevokeSessionOp key) # pre"
  have "justified d e ?older" using g good_log_at [of d m1 e ?older] m by simp
  then have "current_secret (e # ?older) ?n = None" using e(3) by auto
  moreover have "?log = m1 @ (e # ?older)" "set m1 \<subseteq> set mid" by (auto simp: m)
  ultimately show thesis using that by blast
qed

text \<open>Property C9. A logout holds at every replica at once: when a revocation has been confirmed, a lookup of the
  handle that starts afterwards, at whatever replica and however calls of others interleave, does not answer
  with a session, unless a session was stored under that handle since the revocation was called.\<close>

theorem shared_logout_is_immediate:
  assumes "shared_run api d log th" "secrets_contract api"
    and "log = after @ Called j (GetSessionOp key now) # meantime @ Answered i (RevokeSessionOp key) (DidRevoke (Inr u)) #
      during @ Called i (RevokeSessionOp key) # before"
    and "\<forall>k s. Wrote k s \<in> set (after @ meantime @ during) \<longrightarrow> sc_Name s \<noteq> objectName (sessions_store d) key"
  shows "Answered j (GetSessionOp key now) (GotSession (Inr r)) \<notin> set log"
proof
  let ?n = "objectName (sessions_store d) key"
  let ?rest = "during @ Called i (RevokeSessionOp key) # before"
  let ?since = "meantime @ Answered i (RevokeSessionOp key) (DidRevoke (Inr u)) # ?rest"
  have g: "good_log d log" using shared_run_ok [OF assms(1,2)] by (simp add: run_ok_def calls_ok_def)
  assume "Answered j (GetSessionOp key now) (GotSession (Inr r)) \<in> set log"
  then obtain s where s: "Fetched j s \<in> set log" "sc_Name s = ?n" using got_session [OF g] by metis
  have "Fetched j s \<notin> set ?since"
    using after_called [of d "after" j "GetSessionOp key now" ?since] g assms(3) by simp
  then have "Fetched j s \<in> set after" using s(1) assms(3) by auto
  then obtain a1 a2 where a: "after = a1 @ Fetched j s # a2" by (auto dest: split_list)
  have "good_log d (a1 @ Fetched j s # (a2 @ Called j (GetSessionOp key now) # ?since))" using g assms(3) a by simp
  from good_log_at [OF this] have cur: "current_secret (a2 @ Called j (GetSessionOp key now) # ?since) ?n = Some s" using s(2) by simp
  have "good_log d (Answered i (RevokeSessionOp key) (DidRevoke (Inr u)) # ?rest)"
    using good_log_at [of d "after @ Called j (GetSessionOp key now) # meantime" "Answered i (RevokeSessionOp key) (DidRevoke (Inr u))" ?rest]
      g assms(3) by simp
  then obtain newer older where o: "?rest = newer @ older" "set newer \<subseteq> set during" "current_secret older ?n = None"
    by (rule revoked_absent)
  let ?evs = "a2 @ Called j (GetSessionOp key now) # meantime @ Answered i (RevokeSessionOp key) (DidRevoke (Inr u)) # newer"
  have "\<forall>k t. Wrote k t \<in> set ?evs \<longrightarrow> sc_Name t \<noteq> ?n" using assms(4) o(2) by (auto simp: a)
  then have "current_secret (?evs @ older) ?n = None" by (rule absent_stays [OF o(3)])
  then show False using cur unfolding o(1) by simp
qed

text \<open>Property C38. The session a replica resolves is the one some replica put, with its texts coerced to UTF-8,
  under that handle (or one whose digest equals it), and it has not expired.\<close>

theorem shared_session_is_what_was_put:
  assumes "shared_run api d log th" "secrets_contract api"
    and "Answered j (GetSessionOp key now) (GotSession (Inr r)) \<in> set log"
  shows "\<exists>i k r0. Called i (PutSessionOp k r0) \<in> set log \<and> objectName (sessions_store d) k = objectName (sessions_store d) key \<and>
    r = coerce_session r0 \<and> now < rec_ExpiresAt r0"
proof -
  have g: "good_log d log" using shared_run_ok [OF assms(1,2)] by (simp add: run_ok_def calls_ok_def)
  show ?thesis by (rule got_session [OF g assms(3)]) blast
qed

text \<open>Property C39. The records of the two collections survive their JSON form: what a replica decodes from the bytes
  another one stored is the same record, its times to the nanosecond and its texts coerced to UTF-8.\<close>

theorem stored_records_read_back:
  assumes "marshal_code r = Some s" "marshal_session q = Some t"
  shows "unmarshal_code s = Some (coerce_code r) \<and> cr_ExpiresAt (coerce_code r) = cr_ExpiresAt r \<and>
    unmarshal_session t = Some (coerce_session q) \<and> rec_ExpiresAt (coerce_session q) = rec_ExpiresAt q"
  using code_read_back [OF assms(1)] session_read_back [OF assms(2)]
  by (simp add: coerce_code_def coerce_session_def Let_def)

subsection \<open>An example\<close>

text \<open>A server that carries every call out.\<close>

definition ex_secrets_api :: secrets_api where
  "ex_secrets_api = \<lparr>
     sa_Create = (\<lambda>s log r w. r = Inr () \<and> (\<exists>s'. w = Some s' \<and> current_secret log (sc_Name s) = None \<and> same_content s s' \<and>
       unused_version log (sc_ResourceVersion s'))),
     sa_Update = (\<lambda>s log r w. r = Inr () \<and> (case w of
         None \<Rightarrow> \<exists>s0. current_secret log (sc_Name s) = Some s0 \<and> same_content s s0
       | Some s' \<Rightarrow> current_secret log (sc_Name s) \<noteq> None \<and> same_content s s' \<and> unused_version log (sc_ResourceVersion s'))),
     sa_Delete = (\<lambda>n p log r w. case current_secret log n of None \<Rightarrow> r = Inl (IsNotFound []) \<and> w = None
       | Some s \<Rightarrow> r = Inr () \<and> w = Some s \<and> (case p of None \<Rightarrow> True | Some (u, v) \<Rightarrow> sc_UID s = u \<and> sc_ResourceVersion s = v)),
     sa_Get = (\<lambda>n log r. r = (case current_secret log n of Some s \<Rightarrow> Inr s | None \<Rightarrow> Inl (IsNotFound []))),
     sa_List = (\<lambda>l log r. r = Inr [])\<rparr>"

lemma ex_secrets_contract: "secrets_contract ex_secrets_api"
  by (auto simp: secrets_contract_def create_law_def update_law_def delete_law_def read_law_def ex_secrets_api_def split: option.splits)

definition ex_code_record :: code_record where
  "ex_code_record = code_for ex_app ''s.a'' ex_visitor 5"

definition ex_session_record :: session_record where
  "ex_session_record = \<lparr>rec_Identity = ex_visitor, rec_IssuedAt = 0, rec_ExpiresAt = 10\<rparr>"

lemma ex_marshals: "\<exists>s. marshal_code ex_code_record = Some s" "\<exists>s. marshal_session ex_session_record = Some s"
  by (simp_all add: marshal_code_def marshal_session_def ex_code_record_def ex_session_record_def code_for_def codeTTL_def json_time_ok_def)

theorem stored_records_read_back_witness:
  "\<exists>s t. unmarshal_code s = Some (coerce_code ex_code_record) \<and> unmarshal_session t = Some (coerce_session ex_session_record)"
  using ex_marshals stored_records_read_back by blast

text \<open>Runs of the example server, and the point an operation has come to in one.\<close>

definition ex_shared :: "shared_event list \<Rightarrow> bool" where
  "ex_shared log \<longleftrightarrow> (\<exists>th. shared_run ex_secrets_api (\<lambda>x. x) log th)"

definition ex_at :: "shared_event list \<Rightarrow> nat \<Rightarrow> shared_op \<Rightarrow> shared_reply api_call \<Rightarrow> bool" where
  "ex_at log i op t \<longleftrightarrow> (\<exists>th. shared_run ex_secrets_api (\<lambda>x. x) log th \<and> th i = Some (op, t))"

lemma ex_begins: "ex_shared []"
  using shared_run.begins by (auto simp: ex_shared_def)

lemma ex_calls: "ex_shared log \<Longrightarrow> \<forall>op'. Called i op' \<notin> set log \<Longrightarrow> ex_at (Called i op # log) i op (op_calls (\<lambda>x. x) op)"
  unfolding ex_shared_def ex_at_def using shared_run.calls by (metis fun_upd_same)

lemma ex_creates:
  assumes "ex_at log i op (CreateSecret s k)" "current_secret log (sc_Name s) = None" "unused_version log (sc_ResourceVersion s)"
  shows "ex_at (Wrote i s # log) i op (k (Inr ()))"
proof -
  have "sa_Create ex_secrets_api s log (Inr ()) (Some s)" using assms(2,3) by (simp add: ex_secrets_api_def same_content_def)
  then show ?thesis using assms(1) shared_run.creates unfolding ex_at_def by (metis append_Cons append_Nil fun_upd_same wrote.simps(2))
qed

lemma ex_gets:
  assumes "ex_at log i op (GetSecret n k)"
  shows "current_secret log n = Some s \<Longrightarrow> ex_at (Fetched i s # log) i op (k (Inr s))"
    "current_secret log n = None \<Longrightarrow> ex_at (Absent i n # log) i op (k (Inl (IsNotFound [])))"
proof -
  obtain th where th: "shared_run ex_secrets_api (\<lambda>x. x) log th" "th i = Some (op, GetSecret n k)" using assms by (auto simp: ex_at_def)
  note g = shared_run.gets [OF th]
  show "ex_at (Fetched i s # log) i op (k (Inr s))" if "current_secret log n = Some s"
    unfolding ex_at_def using g [of "Inr s"] that
    by (intro exI [of _ "th(i := Some (op, k (Inr s)))"]) (simp add: ex_secrets_api_def fetched_def)
  show "ex_at (Absent i n # log) i op (k (Inl (IsNotFound [])))" if "current_secret log n = None"
    unfolding ex_at_def using g [of "Inl (IsNotFound [])"] that
    by (intro exI [of _ "th(i := Some (op, k (Inl (IsNotFound []))))"]) (simp add: ex_secrets_api_def fetched_def)
qed

lemma ex_deletes:
  assumes "ex_at log i op (DeleteSecret n p k)" "current_secret log n = Some s" "p = None \<or> p = Some (sc_UID s, sc_ResourceVersion s)"
  shows "ex_at (Removed i s # log) i op (k (Inr ()))"
proof -
  obtain th where th: "shared_run ex_secrets_api (\<lambda>x. x) log th" "th i = Some (op, DeleteSecret n p k)" using assms by (auto simp: ex_at_def)
  have "sa_Delete ex_secrets_api n p log (Inr ()) (Some s)" using assms(2,3) by (auto simp: ex_secrets_api_def)
  from shared_run.deletes [OF th this] show ?thesis unfolding ex_at_def removed_def by (metis append_Cons append_Nil fun_upd_same option.simps(5))
qed

lemma ex_answers: "ex_at log i op (Finished r) \<Longrightarrow> ex_shared (Answered i op r # log)"
  unfolding ex_shared_def ex_at_def using shared_run.answers by blast

lemma new_secret_parts [simp]:
  "sc_Name (new_secret st key v e) = objectName st key" "sc_UID (new_secret st key v e) = []" "sc_ResourceVersion (new_secret st key v e) = []"
  by (simp_all add: new_secret_def)

lemma ex_shared_put:
  assumes "op_calls (\<lambda>x. x) op = and_then (shared_put st key v e) (\<lambda>x. Finished (DidPut x))"
  shows "ex_shared [Answered 0 op (DidPut (Inr ())), Wrote 0 (new_secret st key v e), Called 0 op]"
proof -
  have "ex_at [Called 0 op] 0 op (and_then (shared_put st key v e) (\<lambda>x. Finished (DidPut x)))"
    using ex_calls [OF ex_begins, of 0 op] assms by simp
  from ex_creates [OF this [unfolded shared_put_def Let_def and_then.simps]]
  have "ex_at [Wrote 0 (new_secret st key v e), Called 0 op] 0 op (Finished (DidPut (Inr ())))"
    by (simp add: unused_version_def put_result_def)
  then show ?thesis by (rule ex_answers)
qed

text \<open>A put of a code and its redemption.\<close>

lemma ex_redemption:
  "\<exists>log th. shared_run ex_secrets_api (\<lambda>x. x) log th \<and>
     Answered 1 (TakeCodeOp ''k'' 7) (TookCode (Some (coerce_code ex_code_record))) \<in> set log"
proof -
  let ?d = "\<lambda>x :: string. x" and ?put = "PutCodeOp ''k'' ex_code_record" and ?take = "TakeCodeOp ''k'' 7"
  obtain v where v: "marshal_code ex_code_record = Some v" using ex_marshals by blast
  let ?st = "codes_store ?d"
  let ?s = "new_secret ?st ''k'' v (cr_ExpiresAt ex_code_record)"
  have e: "\<not> expired 7 ?s" "unmarshal_code (secret_value ?s) = Some (coerce_code ex_code_record)"
    using stored_code [of ?d ?put ?s "''k''" 7] v by (auto simp: stores_def new_secret_def ex_code_record_def code_for_def codeTTL_def)
  let ?log = "[Answered 0 ?put (DidPut (Inr ())), Wrote 0 ?s, Called 0 ?put]"
  have "ex_shared ?log" by (rule ex_shared_put) (simp add: AppCode_Put_def v)
  then have "ex_at (Called 1 ?take # ?log) 1 ?take (op_calls ?d ?take)" by (rule ex_calls) simp
  from ex_gets(1) [OF this [unfolded op_calls.simps AppCode_Take_def shared_take_def and_then.simps], of ?s]
  have "ex_at (Fetched 1 ?s # Called 1 ?take # ?log) 1 ?take (DeleteSecret (objectName ?st ''k'') (Some ([], [])) (\<lambda>x. and_then (and_then (case x of
       Inl (IsNotFound _) \<Rightarrow> Finished (Inl SharedNotFound) | Inl (IsConflict _) \<Rightarrow> Finished (Inl SharedNotFound)
     | Inl err \<Rightarrow> Finished (Inl (failed_to ''redeeming'' ?st err))
     | Inr _ \<Rightarrow> Finished (if expired 7 ?s then Inl SharedNotFound else Inr (secret_value ?s)))
       (\<lambda>r. Finished (case r of Inl _ \<Rightarrow> None | Inr v \<Rightarrow> unmarshal_code v))) (\<lambda>x. Finished (TookCode x))))"
    by (simp add: deleteExact_def)
  from ex_deletes [OF this, of ?s] e
  have "ex_at (Removed 1 ?s # Fetched 1 ?s # Called 1 ?take # ?log) 1 ?take (Finished (TookCode (Some (coerce_code ex_code_record))))"
    by simp
  from ex_answers [OF this] show ?thesis unfolding ex_shared_def by (metis list.set_intros(1))
qed

theorem shared_code_redeemed_once_witness:
  "\<exists>log th c r0 i. shared_run ex_secrets_api (\<lambda>x. x) log th \<and> Called i (PutCodeOp c r0) \<in> set log \<and>
     coerce_code ex_code_record = coerce_code r0 \<and> 7 < cr_ExpiresAt r0"
proof -
  obtain log th where run: "shared_run ex_secrets_api (\<lambda>x. x) log th"
    "Answered 1 (TakeCodeOp ''k'' 7) (TookCode (Some (coerce_code ex_code_record))) \<in> set log" using ex_redemption by blast
  from shared_code_redeemed_once [OF run(1) ex_secrets_contract] run show ?thesis by blast
qed

text \<open>A login, a lookup, a logout and another lookup.\<close>

lemma ex_logout:
  obtains s where "ex_shared ([Answered 3 (GetSessionOp ''k'' 7) (GotSession (Inl ErrNotFound)), Absent 3 (objectName (sessions_store (\<lambda>x. x)) ''k'')] @
     Called 3 (GetSessionOp ''k'' 7) # [] @ Answered 2 (RevokeSessionOp ''k'') (DidRevoke (Inr ())) # [Removed 2 s] @ Called 2 (RevokeSessionOp ''k'') #
     [Answered 1 (GetSessionOp ''k'' 7) (GotSession (Inr (coerce_session ex_session_record))), Fetched 1 s, Called 1 (GetSessionOp ''k'' 7),
      Answered 0 (PutSessionOp ''k'' ex_session_record) (DidPut (Inr ())), Wrote 0 s, Called 0 (PutSessionOp ''k'' ex_session_record)])"
proof -
  let ?d = "\<lambda>x :: string. x" and ?put = "PutSessionOp ''k'' ex_session_record" and ?get = "GetSessionOp ''k'' 7" and ?rev = "RevokeSessionOp ''k''"
  obtain v where v: "marshal_session ex_session_record = Some v" using ex_marshals by blast
  let ?st = "sessions_store ?d"
  let ?s = "new_secret ?st ''k'' v (rec_ExpiresAt ex_session_record)"
  have e: "\<not> expired 7 ?s" "unmarshal_session (secret_value ?s) = Some (coerce_session ex_session_record)"
    using stored_session [of ?d ?put ?s "''k''" 7] v by (auto simp: stores_def new_secret_def ex_session_record_def)
  let ?log = "[Answered 0 ?put (DidPut (Inr ())), Wrote 0 ?s, Called 0 ?put]"
  have "ex_shared ?log" by (rule ex_shared_put) (simp add: SharedSession_Put_def v)
  then have "ex_at (Called 1 ?get # ?log) 1 ?get (op_calls ?d ?get)" by (rule ex_calls) simp
  from ex_gets(1) [OF this [unfolded op_calls.simps SharedSession_Get_def shared_get_def and_then.simps], of ?s] e
  have "ex_at (Fetched 1 ?s # Called 1 ?get # ?log) 1 ?get (Finished (GotSession (Inr (coerce_session ex_session_record))))" by simp
  note ex_answers [OF this]
  then have "ex_at (Called 2 ?rev # Answered 1 ?get (GotSession (Inr (coerce_session ex_session_record))) # Fetched 1 ?s # Called 1 ?get # ?log)
      2 ?rev (op_calls ?d ?rev)" by (rule ex_calls) simp
  from ex_deletes [OF this [unfolded op_calls.simps SharedSession_Revoke_def shared_delete_def and_then.simps], of ?s]
  have "ex_at (Removed 2 ?s # Called 2 ?rev # Answered 1 ?get (GotSession (Inr (coerce_session ex_session_record))) # Fetched 1 ?s # Called 1 ?get # ?log)
      2 ?rev (Finished (DidRevoke (Inr ())))" by simp
  note ex_answers [OF this]
  then have "ex_at (Called 3 ?get # Answered 2 ?rev (DidRevoke (Inr ())) # Removed 2 ?s # Called 2 ?rev #
      Answered 1 ?get (GotSession (Inr (coerce_session ex_session_record))) # Fetched 1 ?s # Called 1 ?get # ?log) 3 ?get (op_calls ?d ?get)"
    by (rule ex_calls) simp
  from ex_gets(2) [OF this [unfolded op_calls.simps SharedSession_Get_def shared_get_def and_then.simps]]
  have "ex_at (Absent 3 (objectName ?st ''k'') # Called 3 ?get # Answered 2 ?rev (DidRevoke (Inr ())) # Removed 2 ?s # Called 2 ?rev #
      Answered 1 ?get (GotSession (Inr (coerce_session ex_session_record))) # Fetched 1 ?s # Called 1 ?get # ?log) 3 ?get
      (Finished (GotSession (Inl ErrNotFound)))" by simp
  from ex_answers [OF this] show thesis by (intro that [of ?s]) simp
qed

theorem shared_logout_is_immediate_witness:
  "\<exists>log th. shared_run ex_secrets_api (\<lambda>x. x) log th \<and> Called 3 (GetSessionOp ''k'' 7) \<in> set log \<and>
     Answered 3 (GetSessionOp ''k'' 7) (GotSession (Inr (coerce_session ex_session_record))) \<notin> set log"
proof (rule ex_logout)
  fix s
  let ?log = "[Answered 3 (GetSessionOp ''k'' 7) (GotSession (Inl ErrNotFound)), Absent 3 (objectName (sessions_store (\<lambda>x. x)) ''k'')] @
     Called 3 (GetSessionOp ''k'' 7) # [] @ Answered 2 (RevokeSessionOp ''k'') (DidRevoke (Inr ())) # [Removed 2 s] @ Called 2 (RevokeSessionOp ''k'') #
     [Answered 1 (GetSessionOp ''k'' 7) (GotSession (Inr (coerce_session ex_session_record))), Fetched 1 s, Called 1 (GetSessionOp ''k'' 7),
      Answered 0 (PutSessionOp ''k'' ex_session_record) (DidPut (Inr ())), Wrote 0 s, Called 0 (PutSessionOp ''k'' ex_session_record)]"
  assume "ex_shared ?log"
  then obtain th where run: "shared_run ex_secrets_api (\<lambda>x. x) ?log th" unfolding ex_shared_def by blast
  have "Answered 3 (GetSessionOp ''k'' 7) (GotSession (Inr (coerce_session ex_session_record))) \<notin> set ?log"
    by (rule shared_logout_is_immediate [OF run ex_secrets_contract refl]) simp
  moreover have "Called 3 (GetSessionOp ''k'' 7) \<in> set ?log" by simp
  ultimately show ?thesis using run by blast
qed

theorem shared_session_is_what_was_put_witness:
  "\<exists>log th i k r0. shared_run ex_secrets_api (\<lambda>x. x) log th \<and> Called i (PutSessionOp k r0) \<in> set log \<and>
     coerce_session ex_session_record = coerce_session r0 \<and> 7 < rec_ExpiresAt r0"
proof (rule ex_logout)
  fix s
  let ?log = "[Answered 3 (GetSessionOp ''k'' 7) (GotSession (Inl ErrNotFound)), Absent 3 (objectName (sessions_store (\<lambda>x. x)) ''k'')] @
     Called 3 (GetSessionOp ''k'' 7) # [] @ Answered 2 (RevokeSessionOp ''k'') (DidRevoke (Inr ())) # [Removed 2 s] @ Called 2 (RevokeSessionOp ''k'') #
     [Answered 1 (GetSessionOp ''k'' 7) (GotSession (Inr (coerce_session ex_session_record))), Fetched 1 s, Called 1 (GetSessionOp ''k'' 7),
      Answered 0 (PutSessionOp ''k'' ex_session_record) (DidPut (Inr ())), Wrote 0 s, Called 0 (PutSessionOp ''k'' ex_session_record)]"
  assume "ex_shared ?log"
  then obtain th where run: "shared_run ex_secrets_api (\<lambda>x. x) ?log th" unfolding ex_shared_def by blast
  have "Answered 1 (GetSessionOp ''k'' 7) (GotSession (Inr (coerce_session ex_session_record))) \<in> set ?log" by simp
  from shared_session_is_what_was_put [OF run ex_secrets_contract this] run show ?thesis by blast
qed

end
