(* ===== verification/Hub_Authorizer.thy ===== *)
theory Hub_Authorizer
  imports Faros_Prelude
begin

section \<open>Hub: who may address a workspace's cluster\<close>

text \<open>
  \<open>pkg/server/proxy/authorizer.go\<close>: the membership gate of the kcp proxy, with its topology caches.
  The membership getter, the cluster resolver, the child lister and the clock are arguments, state
  transformers on a type \<open>'w\<close> of worlds, so that every call of a request may meet a different answer.
  A membership index is the list of its entries.
\<close>

subsection \<open>State and caches\<close>

record membership =
  mem_OrgUUID :: string
  mem_WorkspaceUUID :: string

type_synonym owner_key = "string \<times> string"

record child_cache_entry =
  cc_ws :: "string list"
  cc_exp :: gotime

record 'w authorizer_env =
  az_members :: "string \<Rightarrow> 'w \<Rightarrow> (string, membership list option) res \<times> 'w"
  az_resolve :: "string \<Rightarrow> string \<Rightarrow> 'w \<Rightarrow> (string, string) res \<times> 'w"
  az_children :: "string \<Rightarrow> 'w \<Rightarrow> (string, string list) res \<times> 'w"
  az_now :: "'w \<Rightarrow> gotime \<times> 'w"

record cluster_authorizer =
  az_reverse :: "(string, owner_key) gomap"
  az_forward :: "(string, string) gomap"
  az_childTTL :: duration
  az_childExp :: "(string, child_cache_entry) gomap"

definition newClusterAuthorizer :: cluster_authorizer where
  "newClusterAuthorizer = \<lparr>az_reverse = [], az_forward = [], az_childTTL = 30 * 10 ^ 9, az_childExp = []\<rparr>"

definition reverseGet :: "string \<Rightarrow> cluster_authorizer \<Rightarrow> owner_key option" where
  "reverseGet clusterID a = map_of (az_reverse a) clusterID"

definition resolveAndStore ::
  "'w authorizer_env \<Rightarrow> string \<Rightarrow> string \<Rightarrow> cluster_authorizer \<Rightarrow> 'w \<Rightarrow> cluster_authorizer \<times> 'w" where
  "resolveAndStore env org ws a w =
     (let key = org @ ''/'' @ ws;
          store = (\<lambda>cid. a\<lparr>az_forward := mput key cid (az_forward a), az_reverse := mput cid (org, ws) (az_reverse a)\<rparr>)
      in case map_of (az_forward a) key of
           Some cid \<Rightarrow> (store cid, w)
         | None \<Rightarrow> (case az_resolve env org ws w of
                      (Inl e, w1) \<Rightarrow> (a, w1)
                    | (Inr cid, w1) \<Rightarrow> if cid = [] then (a, w1) else (store cid, w1)))"

definition ask_children ::
  "'w authorizer_env \<Rightarrow> string \<Rightarrow> child_cache_entry option \<Rightarrow> cluster_authorizer \<Rightarrow> 'w \<Rightarrow> string list \<times> cluster_authorizer \<times> 'w" where
  "ask_children env org cached a w =
     (case az_children env org w of
        (Inl e, w1) \<Rightarrow> (case cached of Some c \<Rightarrow> (cc_ws c, a, w1) | None \<Rightarrow> ([], a, w1))
      | (Inr ws, w1) \<Rightarrow> (case az_now env w1 of (now, w2) \<Rightarrow>
          (ws, a\<lparr>az_childExp := mput org \<lparr>cc_ws = ws, cc_exp = now + az_childTTL a\<rparr> (az_childExp a)\<rparr>, w2)))"

definition childrenOf ::
  "'w authorizer_env \<Rightarrow> string \<Rightarrow> cluster_authorizer \<Rightarrow> 'w \<Rightarrow> string list \<times> cluster_authorizer \<times> 'w" where
  "childrenOf env org a w =
     (case map_of (az_childExp a) org of
        None \<Rightarrow> ask_children env org None a w
      | Some c \<Rightarrow> (case az_now env w of (now, w1) \<Rightarrow>
          if now < cc_exp c then (cc_ws c, a, w1) else ask_children env org (Some c) a w1))"

fun resolve_children ::
  "'w authorizer_env \<Rightarrow> string \<Rightarrow> string list \<Rightarrow> cluster_authorizer \<Rightarrow> 'w \<Rightarrow> cluster_authorizer \<times> 'w" where
  "resolve_children env org [] a w = (a, w)"
| "resolve_children env org (ws # rest) a w =
     (case resolveAndStore env org ws a w of (a1, w1) \<Rightarrow> resolve_children env org rest a1 w1)"

fun populateForUser ::
  "'w authorizer_env \<Rightarrow> membership list \<Rightarrow> cluster_authorizer \<Rightarrow> 'w \<Rightarrow> cluster_authorizer \<times> 'w" where
  "populateForUser env [] a w = (a, w)"
| "populateForUser env (e # es) a w =
     (case (if mem_WorkspaceUUID e \<noteq> [] then resolveAndStore env (mem_OrgUUID e) (mem_WorkspaceUUID e) a w
            else (case childrenOf env (mem_OrgUUID e) a w of (ws, a1, w1) \<Rightarrow> resolve_children env (mem_OrgUUID e) ws a1 w1))
      of (a2, w2) \<Rightarrow> populateForUser env es a2 w2)"

subsection \<open>The decision\<close>

fun membershipCovers :: "membership list \<Rightarrow> owner_key \<Rightarrow> bool" where
  "membershipCovers [] owner = False"
| "membershipCovers (e # es) owner =
     (if mem_OrgUUID e \<noteq> fst owner then membershipCovers es owner
      else if mem_WorkspaceUUID e = [] \<or> mem_WorkspaceUUID e = snd owner then True
      else membershipCovers es owner)"

text \<open>An edge \<open>{cluster}:{edge}\<close> is authorized by its cluster.\<close>

definition base_cluster :: "string \<Rightarrow> string" where
  "base_cluster clusterID = takeWhile (\<lambda>c. c \<noteq> CHR '':'') clusterID"

definition authorize ::
  "'w authorizer_env \<Rightarrow> string \<Rightarrow> string \<Rightarrow> cluster_authorizer \<Rightarrow> 'w \<Rightarrow> bool \<times> cluster_authorizer \<times> 'w" where
  "authorize env userName clusterID a w =
     (let base = base_cluster clusterID in
      if base = [] then (False, a, w)
      else (case az_members env userName w of
              (Inl e, w1) \<Rightarrow> (False, a, w1)
            | (Inr None, w1) \<Rightarrow> (False, a, w1)
            | (Inr (Some idx), w1) \<Rightarrow>
                (case reverseGet base a of
                   Some owner \<Rightarrow> (membershipCovers idx owner, a, w1)
                 | None \<Rightarrow>
                     (case populateForUser env idx a w1 of (a2, w2) \<Rightarrow>
                       ((case reverseGet base a2 of Some owner \<Rightarrow> membershipCovers idx owner | None \<Rightarrow> False), a2, w2)))))"

text \<open>The states of the authorizer of a hub: any sequence of requests, by any users.\<close>

inductive authorizer_reached :: "'w authorizer_env \<Rightarrow> cluster_authorizer \<Rightarrow> bool" for env where
  fresh: "authorizer_reached env newClusterAuthorizer"
| request: "authorizer_reached env a \<Longrightarrow> authorize env userName clusterID a w = (ok, a', w') \<Longrightarrow> authorizer_reached env a'"

subsection \<open>The caches tell the truth\<close>

text \<open>What the authorizer relies on: the resolver's answers are the clusters of the workspaces
  (\<open>cluster_of\<close>, stable for a workspace's lifetime), and an organization's identifier is a UUID,
  which has no slash.\<close>

definition truthful :: "'w authorizer_env \<Rightarrow> (string \<Rightarrow> string \<Rightarrow> string) \<Rightarrow> bool" where
  "truthful env cluster_of \<longleftrightarrow>
     (\<forall>org ws w cid w'. az_resolve env org ws w = (Inr cid, w') \<and> cid \<noteq> [] \<longrightarrow> cluster_of org ws = cid) \<and>
     (\<forall>user w idx w'. az_members env user w = (Inr (Some idx), w') \<longrightarrow> (\<forall>e \<in> set idx. CHR ''/'' \<notin> set (mem_OrgUUID e)))"

definition cache_sound :: "(string \<Rightarrow> string \<Rightarrow> string) \<Rightarrow> cluster_authorizer \<Rightarrow> bool" where
  "cache_sound cluster_of a \<longleftrightarrow>
     (\<forall>cid org ws. map_of (az_reverse a) cid = Some (org, ws) \<longrightarrow> CHR ''/'' \<notin> set org \<and> cluster_of org ws = cid) \<and>
     (\<forall>key cid. map_of (az_forward a) key = Some cid \<longrightarrow>
        (\<exists>org ws. key = org @ ''/'' @ ws \<and> CHR ''/'' \<notin> set org \<and> cluster_of org ws = cid))"

lemma slash_key_inject:
  assumes "org @ ''/'' @ ws = org' @ ''/'' @ ws'" "CHR ''/'' \<notin> set org" "CHR ''/'' \<notin> set org'"
  shows "org = org' \<and> ws = ws'"
proof -
  have "takeWhile (\<lambda>c. c \<noteq> CHR ''/'') (x @ ''/'' @ y) = x" if "CHR ''/'' \<notin> set x" for x y :: string
    using that by (subst takeWhile_append2) auto
  then show ?thesis using assms by (metis append_same_eq same_append_eq)
qed

lemma resolveAndStore_sound:
  assumes "truthful env cluster_of" "cache_sound cluster_of a" "CHR ''/'' \<notin> set org" "resolveAndStore env org ws a w = (a', w')"
  shows "cache_sound cluster_of a' \<and> fst ` set (az_reverse a) \<subseteq> fst ` set (az_reverse a')"
proof -
  let ?store = "\<lambda>cid. a\<lparr>az_forward := mput (org @ ''/'' @ ws) cid (az_forward a), az_reverse := mput cid (org, ws) (az_reverse a)\<rparr>"
  have put: "cache_sound cluster_of (?store cid) \<and> fst ` set (az_reverse a) \<subseteq> fst ` set (az_reverse (?store cid))"
    if "cluster_of org ws = cid" for cid
    using assms(2,3) that unfolding cache_sound_def by (simp add: keys_mput subset_insertI) blast
  consider cid where "map_of (az_forward a) (org @ ''/'' @ ws) = Some cid"
    | cid w1 where "az_resolve env org ws w = (Inr cid, w1)" "cid \<noteq> []" "map_of (az_forward a) (org @ ''/'' @ ws) = None"
    | "a' = a"
    using assms(4) by (auto simp: resolveAndStore_def Let_def split: option.splits prod.splits sum.splits if_splits)
  then show ?thesis
  proof cases
    case (1 cid)
    then obtain org' ws' where k: "org @ ''/'' @ ws = org' @ ''/'' @ ws'" "CHR ''/'' \<notin> set org'" "cluster_of org' ws' = cid"
      using assms(2) unfolding cache_sound_def by blast
    then have "cluster_of org ws = cid" using slash_key_inject [OF k(1) assms(3) k(2)] by blast
    moreover have "a' = ?store cid" using 1 assms(4) by (simp add: resolveAndStore_def Let_def)
    ultimately show ?thesis using put by blast
  next
    case (2 cid w1)
    then have "cluster_of org ws = cid" using assms(1) unfolding truthful_def by blast
    moreover have "a' = ?store cid" using 2 assms(4) by (simp add: resolveAndStore_def Let_def)
    ultimately show ?thesis using put by blast
  next
    case 3 then show ?thesis using assms(2) by simp
  qed
qed

lemma childrenOf_maps:
  "childrenOf env org a w = (ws, a', w') \<Longrightarrow> az_reverse a' = az_reverse a \<and> az_forward a' = az_forward a"
  by (auto simp: childrenOf_def ask_children_def split: option.splits prod.splits sum.splits if_splits)

lemma cache_sound_maps:
  "az_reverse a' = az_reverse a \<Longrightarrow> az_forward a' = az_forward a \<Longrightarrow> cache_sound c a' = cache_sound c a"
  by (simp add: cache_sound_def)

lemma resolve_children_sound:
  assumes "truthful env cluster_of" "cache_sound cluster_of a" "CHR ''/'' \<notin> set org" "resolve_children env org cs a w = (a', w')"
  shows "cache_sound cluster_of a' \<and> fst ` set (az_reverse a) \<subseteq> fst ` set (az_reverse a')"
  using assms(2,4)
proof (induction cs arbitrary: a w)
  case (Cons ws cs)
  obtain a1 w1 where r: "resolveAndStore env org ws a w = (a1, w1)" by fastforce
  show ?case using resolveAndStore_sound [OF assms(1) Cons.prems(1) assms(3) r] Cons.IH [of a1 w1] Cons.prems(2) r by auto
qed simp

lemma populateForUser_sound:
  assumes "truthful env cluster_of" "cache_sound cluster_of a" "\<forall>e \<in> set idx. CHR ''/'' \<notin> set (mem_OrgUUID e)"
    and "populateForUser env idx a w = (a', w')"
  shows "cache_sound cluster_of a' \<and> fst ` set (az_reverse a) \<subseteq> fst ` set (az_reverse a')"
  using assms(2-)
proof (induction idx arbitrary: a w)
  case (Cons e es)
  have org: "CHR ''/'' \<notin> set (mem_OrgUUID e)" using Cons.prems(2) by simp
  obtain a2 w2 where s: "(if mem_WorkspaceUUID e \<noteq> [] then resolveAndStore env (mem_OrgUUID e) (mem_WorkspaceUUID e) a w
            else (case childrenOf env (mem_OrgUUID e) a w of (ws, a1, w1) \<Rightarrow> resolve_children env (mem_OrgUUID e) ws a1 w1)) = (a2, w2)"
    by fastforce
  have "cache_sound cluster_of a2 \<and> fst ` set (az_reverse a) \<subseteq> fst ` set (az_reverse a2)"
  proof (cases "mem_WorkspaceUUID e = []")
    case False
    then show ?thesis using resolveAndStore_sound [OF assms(1) Cons.prems(1) org] s by simp
  next
    case True
    obtain cs a1 w1 where c: "childrenOf env (mem_OrgUUID e) a w = (cs, a1, w1)" by (metis prod_cases3)
    note m = childrenOf_maps [OF c]
    have "cache_sound cluster_of a1" using m Cons.prems(1) cache_sound_maps by blast
    from resolve_children_sound [OF assms(1) this org] show ?thesis using s True c m by auto
  qed
  then show ?case using Cons.IH [of a2 w2] Cons.prems s by auto
qed simp

lemma authorize_sound:
  assumes "truthful env cluster_of" "cache_sound cluster_of a" "authorize env userName clusterID a w = (ok, a', w')"
  shows "cache_sound cluster_of a' \<and> (ok \<longrightarrow> base_cluster clusterID \<noteq> [] \<and>
    (\<exists>idx w1 owner. az_members env userName w = (Inr (Some idx), w1) \<and>
       map_of (az_reverse a') (base_cluster clusterID) = Some owner \<and> membershipCovers idx owner))"
proof -
  let ?base = "base_cluster clusterID"
  obtain r w1 where r: "az_members env userName w = (r, w1)" by fastforce
  consider (denied) "?base = [] \<or> isl r \<or> r = Inr None" | (known) idx owner where "?base \<noteq> []" "r = Inr (Some idx)" "reverseGet ?base a = Some owner"
    | (unknown) idx where "?base \<noteq> []" "r = Inr (Some idx)" "reverseGet ?base a = None"
  proof (cases "?base = [] \<or> isl r \<or> r = Inr None")
    case True then show thesis by (rule denied)
  next
    case False
    then obtain idx where "r = Inr (Some idx)" by (cases r) auto
    then show thesis using False known unknown by (cases "reverseGet ?base a") auto
  qed
  then show ?thesis
  proof cases
    case denied
    then have "\<not> ok \<and> a' = a" using assms(3) r by (auto simp: authorize_def Let_def split: if_splits sum.splits)
    then show ?thesis using assms(2) by simp
  next
    case known
    then show ?thesis using assms r by (auto simp: authorize_def Let_def reverseGet_def)
  next
    case unknown
    obtain a2 w2 where p: "populateForUser env idx a w1 = (a2, w2)" by fastforce
    have "\<forall>e \<in> set idx. CHR ''/'' \<notin> set (mem_OrgUUID e)" using assms(1) r unknown(2) unfolding truthful_def by blast
    from populateForUser_sound [OF assms(1,2) this p] show ?thesis
      using assms(3) r unknown p by (auto simp: authorize_def Let_def reverseGet_def split: option.splits)
  qed
qed

lemma reached_sound:
  assumes "authorizer_reached env a" "truthful env cluster_of"
  shows "cache_sound cluster_of a"
  using assms(1)
proof (induction rule: authorizer_reached.induct)
  case fresh then show ?case by (simp add: cache_sound_def newClusterAuthorizer_def)
next
  case (request a userName clusterID w ok a' w')
  then show ?case using authorize_sound [OF assms(2)] by blast
qed

lemma membershipCovers_iff:
  "membershipCovers idx (org, ws) \<longleftrightarrow> (\<exists>e \<in> set idx. mem_OrgUUID e = org \<and> (mem_WorkspaceUUID e = [] \<or> mem_WorkspaceUUID e = ws))"
  by (induction idx) auto

text \<open>Property C10. The proxy lets nobody into a workspace they are not a member of: in any state its
  caches can reach, a request that is allowed addresses the cluster of a workspace that the user's
  membership index, read during this very request, covers by an entry for it or for its whole
  organization. So removing a membership takes effect at the next request, and an error of the
  directory or the resolver never grants anything.\<close>

theorem authorized_means_member:
  assumes "authorizer_reached env a" "truthful env cluster_of"
    and "authorize env userName clusterID a w = (True, a', w')"
  shows "\<exists>idx w1 e ws. az_members env userName w = (Inr (Some idx), w1) \<and> e \<in> set idx \<and>
    (mem_WorkspaceUUID e = [] \<or> mem_WorkspaceUUID e = ws) \<and>
    cluster_of (mem_OrgUUID e) ws = base_cluster clusterID \<and> base_cluster clusterID \<noteq> []"
proof -
  from authorize_sound [OF assms(2) reached_sound [OF assms(1,2)] assms(3)]
  obtain idx w1 owner where a: "cache_sound cluster_of a'" "base_cluster clusterID \<noteq> []"
    "az_members env userName w = (Inr (Some idx), w1)" "map_of (az_reverse a') (base_cluster clusterID) = Some owner"
    "membershipCovers idx owner" by blast
  obtain org ws where o: "owner = (org, ws)" by fastforce
  have "cluster_of org ws = base_cluster clusterID" using a(1,4) o unfolding cache_sound_def by blast
  moreover obtain e where "e \<in> set idx" "mem_OrgUUID e = org" "mem_WorkspaceUUID e = [] \<or> mem_WorkspaceUUID e = ws"
    using a(5) o membershipCovers_iff [of idx org ws] by blast
  ultimately show ?thesis using a(2,3) by blast
qed

subsection \<open>Members are let in\<close>

text \<open>The workspaces an index entry reaches in a request: its own, or those the child lister names for
  its organization, when the authorizer holds no list of them.\<close>

definition resolves :: "'w authorizer_env \<Rightarrow> (string \<Rightarrow> string \<Rightarrow> string) \<Rightarrow> string \<Rightarrow> string \<Rightarrow> bool" where
  "resolves env cluster_of org ws \<longleftrightarrow> (\<forall>w. \<exists>w'. az_resolve env org ws w = (Inr (cluster_of org ws), w')) \<and> cluster_of org ws \<noteq> []"

lemma resolveAndStore_known:
  assumes "truthful env cluster_of" "cache_sound cluster_of a" "CHR ''/'' \<notin> set org" "resolves env cluster_of org ws"
    and "resolveAndStore env org ws a w = (a', w')"
  shows "cluster_of org ws \<in> fst ` set (az_reverse a')"
proof (cases "map_of (az_forward a) (org @ ''/'' @ ws)")
  case (Some cid)
  then have "cluster_of org ws = cid" using assms(2,3) slash_key_inject unfolding cache_sound_def by blast
  then show ?thesis using assms(5) Some by (auto simp: resolveAndStore_def keys_mput)
next
  case None
  obtain w1 where "az_resolve env org ws w = (Inr (cluster_of org ws), w1)" using assms(4) unfolding resolves_def by blast
  then show ?thesis using assms(4,5) None by (auto simp: resolveAndStore_def resolves_def keys_mput)
qed

lemma resolve_children_known:
  assumes "truthful env cluster_of" "cache_sound cluster_of a" "CHR ''/'' \<notin> set org" "resolves env cluster_of org ws"
    and "ws \<in> set cs" "resolve_children env org cs a w = (a', w')"
  shows "cluster_of org ws \<in> fst ` set (az_reverse a')"
  using assms(2,5,6)
proof (induction cs arbitrary: a w)
  case (Cons c cs)
  obtain a1 w1 where r: "resolveAndStore env org c a w = (a1, w1)" by fastforce
  then have rest: "resolve_children env org cs a1 w1 = (a', w')" using Cons.prems(3) by simp
  note a1 = resolveAndStore_sound [OF assms(1) Cons.prems(1) assms(3) r]
  show ?case
  proof (cases "c = ws")
    case True
    then show ?thesis using resolveAndStore_known [OF assms(1) Cons.prems(1) assms(3,4)] r
        resolve_children_sound [OF assms(1) conjunct1 [OF a1] assms(3) rest] by blast
  next
    case False
    then show ?thesis using Cons.IH [OF conjunct1 [OF a1] _ rest] Cons.prems(2) by simp
  qed
qed simp

text \<open>An organization whose cached children, if any, include the workspace; the lister does too.\<close>

definition lists_child :: "'w authorizer_env \<Rightarrow> string \<Rightarrow> string \<Rightarrow> cluster_authorizer \<Rightarrow> bool" where
  "lists_child env org ws a \<longleftrightarrow> (\<forall>w. \<exists>cs w'. az_children env org w = (Inr cs, w') \<and> ws \<in> set cs) \<and>
     (\<forall>c. map_of (az_childExp a) org = Some c \<longrightarrow> ws \<in> set (cc_ws c))"

lemma childrenOf_lists:
  assumes "lists_child env org ws a" "childrenOf env org' a w = (cs, a', w')"
  shows "lists_child env org ws a' \<and> (org' = org \<longrightarrow> ws \<in> set cs)"
proof -
  have new: "ws \<in> set cs'" if "az_children env org w1 = (Inr cs', w2)" for w1 cs' w2
    using assms(1) that unfolding lists_child_def by (metis Inr_inject prod.inject)
  have noerr: "az_children env org w1 \<noteq> (Inl e, w2)" for w1 e w2
    using assms(1) unfolding lists_child_def by (metis Inl_Inr_False prod.inject)
  have step: "lists_child env org ws a' \<and> (org' = org \<longrightarrow> ws \<in> set cs)"
    if "ask_children env org' cached a w1 = (cs, a', w')" for cached w1
    using that assms(1) new noerr unfolding ask_children_def lists_child_def
    by (auto split: prod.splits sum.splits option.splits if_splits)
  show ?thesis
  proof (cases "map_of (az_childExp a) org'")
    case None then show ?thesis using assms(2) step [of None w] by (simp add: childrenOf_def)
  next
    case (Some c)
    obtain now w1 where n: "az_now env w = (now, w1)" by fastforce
    show ?thesis
    proof (cases "now < cc_exp c")
      case True then show ?thesis using assms Some n by (auto simp: childrenOf_def lists_child_def)
    next
      case False then show ?thesis using assms(2) Some n step [of "Some c" w1] by (simp add: childrenOf_def)
    qed
  qed
qed

lemma resolveAndStore_children [simp]: "resolveAndStore env org ws a w = (a', w') \<Longrightarrow> az_childExp a' = az_childExp a"
  by (auto simp: resolveAndStore_def Let_def split: option.splits prod.splits sum.splits if_splits)

lemma resolve_children_children: "resolve_children env org cs a w = (a', w') \<Longrightarrow> az_childExp a' = az_childExp a"
proof (induction cs arbitrary: a w)
  case (Cons c cs)
  obtain a1 w1 where r: "resolveAndStore env org c a w = (a1, w1)" by fastforce
  then show ?case using Cons resolveAndStore_children [OF r] by auto
qed simp

lemma populateForUser_known:
  assumes "truthful env cluster_of" "cache_sound cluster_of a" "\<forall>e \<in> set idx. CHR ''/'' \<notin> set (mem_OrgUUID e)"
    and "resolves env cluster_of org ws" "e \<in> set idx" "mem_OrgUUID e = org" "ws \<noteq> []"
    and "mem_WorkspaceUUID e = ws \<or> (mem_WorkspaceUUID e = [] \<and> lists_child env org ws a)"
    and "populateForUser env idx a w = (a', w')"
  shows "cluster_of org ws \<in> fst ` set (az_reverse a')"
  using assms(2,3,5,8,9)
proof (induction idx arbitrary: a w)
  case (Cons d es)
  have org: "CHR ''/'' \<notin> set (mem_OrgUUID d)" "\<forall>e \<in> set es. CHR ''/'' \<notin> set (mem_OrgUUID e)" using Cons.prems(2) by simp_all
  obtain cs a1 w1 where c: "childrenOf env (mem_OrgUUID d) a w = (cs, a1, w1)" by (metis prod_cases3)
  note m = childrenOf_maps [OF c]
  obtain a2 w2 where s: "(if mem_WorkspaceUUID d \<noteq> [] then resolveAndStore env (mem_OrgUUID d) (mem_WorkspaceUUID d) a w
            else resolve_children env (mem_OrgUUID d) cs a1 w1) = (a2, w2)"
    by fastforce
  have rest: "populateForUser env es a2 w2 = (a', w')" using Cons.prems(5) s c by (simp split: if_splits)
  have a1: "cache_sound cluster_of a1" using m Cons.prems(1) cache_sound_maps by blast
  have a2: "cache_sound cluster_of a2"
    using s resolveAndStore_sound [OF assms(1) Cons.prems(1) org(1)] resolve_children_sound [OF assms(1) a1 org(1)]
    by (auto split: if_splits)
  have "az_childExp a2 = az_childExp (if mem_WorkspaceUUID d \<noteq> [] then a else a1)"
    using s resolve_children_children [of env "mem_OrgUUID d" cs a1 w1 a2 w2] resolveAndStore_children by (auto split: if_splits)
  then have lists: "lists_child env org ws a \<Longrightarrow> lists_child env org ws a2"
    using childrenOf_lists [OF _ c, of org ws] by (cases "mem_WorkspaceUUID d = []") (simp_all add: lists_child_def)
  note mono = populateForUser_sound [OF assms(1) a2 org(2) rest]
  show ?case
  proof (cases "d = e")
    case True
    have "cluster_of org ws \<in> fst ` set (az_reverse a2)"
    proof (cases "mem_WorkspaceUUID e = []")
      case False
      then have "resolveAndStore env org ws a w = (a2, w2)" using s True assms(6) Cons.prems(4) by simp
      then show ?thesis using resolveAndStore_known [OF assms(1) Cons.prems(1) _ assms(4)] org True assms(6) by simp
    next
      case empty: True
      then have "lists_child env org ws a" using Cons.prems(4) assms(7) by auto
      then have "ws \<in> set cs" using childrenOf_lists [OF _ c] True assms(6) by blast
      then show ?thesis using resolve_children_known [OF assms(1) a1 _ assms(4)] s True empty assms(6) org(1) by auto
    qed
    then show ?thesis using mono by blast
  next
    case False
    then have "e \<in> set es" using Cons.prems(3) by simp
    then show ?thesis using Cons.IH [OF a2 org(2) _ _ rest] Cons.prems(4) lists by blast
  qed
qed simp

text \<open>A member is let in: when workspaces have clusters of their own and the resolver
  answers for the addressed one, a user with an entry for that workspace is allowed to address its
  cluster, and its edges, whatever requests came before; so is a user with an entry for the whole
  organization, when the lister names the workspace and so does the list of its children the
  authorizer may still hold (a workspace created in the last 30 seconds may be missing from it).\<close>

theorem member_is_authorized:
  assumes "authorizer_reached env a" "truthful env cluster_of"
    and "\<And>org ws org' ws'. CHR ''/'' \<notin> set org \<Longrightarrow> CHR ''/'' \<notin> set org' \<Longrightarrow> cluster_of org ws = cluster_of org' ws' \<Longrightarrow> org = org' \<and> ws = ws'"
    and "az_members env userName w = (Inr (Some idx), w1)" "e \<in> set idx" "mem_OrgUUID e = org" "ws \<noteq> []"
    and "mem_WorkspaceUUID e = ws \<or> (mem_WorkspaceUUID e = [] \<and> lists_child env org ws a)"
    and "resolves env cluster_of org ws" "base_cluster clusterID = cluster_of org ws"
  shows "fst (authorize env userName clusterID a w)"
proof -
  let ?base = "base_cluster clusterID"
  have org: "\<forall>e \<in> set idx. CHR ''/'' \<notin> set (mem_OrgUUID e)" using assms(2,4) unfolding truthful_def by blast
  have covers: "membershipCovers idx owner" if "cache_sound cluster_of b" "map_of (az_reverse b) ?base = Some owner" for b owner
  proof -
    obtain org' ws' where o: "owner = (org', ws')" by fastforce
    then have "CHR ''/'' \<notin> set org'" "cluster_of org' ws' = cluster_of org ws"
      using that assms(10) unfolding cache_sound_def by auto
    then have "owner = (org, ws)" using assms(3) [of org' org ws' ws] org assms(5,6) o by auto
    then show ?thesis using assms(5,6,8) by (auto simp: membershipCovers_iff)
  qed
  have sound: "cache_sound cluster_of a" by (rule reached_sound [OF assms(1,2)])
  have nonempty: "?base \<noteq> []" using assms(9,10) by (simp add: resolves_def)
  show ?thesis
  proof (cases "reverseGet ?base a")
    case (Some owner)
    then show ?thesis using covers [OF sound, of owner] assms(4) nonempty by (simp add: authorize_def Let_def reverseGet_def)
  next
    case None
    obtain a2 w2 where p: "populateForUser env idx a w1 = (a2, w2)" by fastforce
    have "?base \<in> fst ` set (az_reverse a2)"
      using populateForUser_known [OF assms(2) sound org assms(9,5,6,7,8) p] assms(10) by simp
    then obtain owner where o: "map_of (az_reverse a2) ?base = Some owner" by (metis map_of_eq_None_iff option.exhaust)
    have "cache_sound cluster_of a2" using populateForUser_sound [OF assms(2) sound org p] by blast
    from covers [OF this o] show ?thesis using None assms(4) nonempty p o by (simp add: authorize_def Let_def reverseGet_def)
  qed
qed

subsection \<open>An example\<close>

definition ex_cluster :: "string \<Rightarrow> string \<Rightarrow> string" where
  "ex_cluster org ws = org @ ''/'' @ ws"

definition ex_az_env :: "unit authorizer_env" where
  "ex_az_env = \<lparr>az_members = (\<lambda>user w. (Inr (Some [\<lparr>mem_OrgUUID = ''o'', mem_WorkspaceUUID = []\<rparr>]), w)),
     az_resolve = (\<lambda>org ws w. (Inr (ex_cluster org ws), w)), az_children = (\<lambda>org w. (Inr [''w''], w)), az_now = (\<lambda>w. (0, w))\<rparr>"

lemma ex_truthful: "truthful ex_az_env ex_cluster"
  by (auto simp: truthful_def ex_az_env_def)

theorem authorized_means_member_witness:
  "\<exists>idx w1 e ws. az_members ex_az_env ''u'' () = (Inr (Some idx), w1) \<and> e \<in> set idx \<and>
     (mem_WorkspaceUUID e = [] \<or> mem_WorkspaceUUID e = ws) \<and> ex_cluster (mem_OrgUUID e) ws = ''o/w'' \<and> ''o/w'' \<noteq> []"
proof -
  have ok: "authorize ex_az_env ''u'' ''o/w:edge'' newClusterAuthorizer () =
      (True, fst (snd (authorize ex_az_env ''u'' ''o/w:edge'' newClusterAuthorizer ())), ())" by code_simp
  have base: "base_cluster ''o/w:edge'' = ''o/w''" by code_simp
  show ?thesis by (rule authorized_means_member [OF authorizer_reached.fresh ex_truthful ok, unfolded base])
qed

theorem member_is_authorized_witness: "fst (authorize ex_az_env ''u'' ''o/w:edge'' newClusterAuthorizer ())"
proof (rule member_is_authorized [OF authorizer_reached.fresh ex_truthful])
  show "az_members ex_az_env ''u'' () = (Inr (Some [\<lparr>mem_OrgUUID = ''o'', mem_WorkspaceUUID = []\<rparr>]), ())"
    by (simp add: ex_az_env_def)
  show "\<lparr>mem_OrgUUID = ''o'', mem_WorkspaceUUID = []\<rparr> \<in> set [\<lparr>mem_OrgUUID = ''o'', mem_WorkspaceUUID = []\<rparr>]" by simp
  show "mem_OrgUUID \<lparr>mem_OrgUUID = ''o'', mem_WorkspaceUUID = []\<rparr> = ''o''" by simp
  show "''w'' \<noteq> []" by simp
  show "mem_WorkspaceUUID \<lparr>mem_OrgUUID = ''o'', mem_WorkspaceUUID = []\<rparr> = ''w'' \<or>
      (mem_WorkspaceUUID \<lparr>mem_OrgUUID = ''o'', mem_WorkspaceUUID = []\<rparr> = [] \<and> lists_child ex_az_env ''o'' ''w'' newClusterAuthorizer)"
    by (simp add: lists_child_def ex_az_env_def newClusterAuthorizer_def)
  show "resolves ex_az_env ex_cluster ''o'' ''w''" by (simp add: resolves_def ex_az_env_def ex_cluster_def)
  show "base_cluster ''o/w:edge'' = ex_cluster ''o'' ''w''" by code_simp
  show "org = org' \<and> ws = ws'" if "CHR ''/'' \<notin> set org" "CHR ''/'' \<notin> set org'" "ex_cluster org ws = ex_cluster org' ws'"
    for org ws org' ws' using slash_key_inject that unfolding ex_cluster_def by blast
qed

end
