(* ===== verification/Assistant_Tools.thy ===== *)
theory Assistant_Tools
  imports Go_Json_Struct
begin

section \<open>App Studio assistant: tools and the outcome of a tool call\<close>

text \<open>
  The parts of \<open>providers/app-studio/api\<close> that give a tool call its meaning: the registered tools and their
  risk (\<open>assistant_tool_registry.go\<close>, \<open>assistant_workflow.go\<close>, \<open>assistant_skills.go\<close>, \<open>llm.go\<close>), the
  reading of a result as success or failure (\<open>assistant_eino_lifecycle_helpers.go\<close>), plan snapshots
  (\<open>assistant_supervisor_http.go\<close>) and the settlement of a canceled call
  (\<open>assistant_run_event_ledger.go\<close>). Tool names are ASCII, so \<open>to_lower\<close> is \<open>strings.ToLower\<close> on them. The
  console tool, which exists when a server enables it, is of risk \<open>read\<close> and is left out of the table.
\<close>

subsection \<open>Names and risks\<close>

definition toolKey :: "string \<Rightarrow> string" where
  "toolKey name = to_lower (trim_space name)"

definition toolBaseName :: "string \<Rightarrow> string" where
  "toolBaseName name0 =
     (let name = to_lower (trim_space name0) in
      case last_index name ''__'' of Some idx \<Rightarrow> drop (idx + 2) name | None \<Rightarrow> name)"

datatype tool_risk = RiskRead | RiskInput | RiskPlan | RiskWrite | RiskCommit | RiskRuntime

definition toolHasEffect :: "tool_risk \<Rightarrow> bool" where
  "toolHasEffect risk \<longleftrightarrow> risk \<in> {RiskPlan, RiskWrite, RiskRuntime, RiskCommit}"

definition workflowToolSpecs :: "(string \<times> tool_risk) list" where
  "workflowToolSpecs =
     [(''plan_project_changes'', RiskRead), (''check_project_readiness'', RiskRead),
      (''prepare_project_deployment'', RiskRead), (''inspect_development_templates'', RiskRead),
      (''get_runtime_status'', RiskRead), (''get_preview_url'', RiskRead), (''get_runtime_logs'', RiskRead),
      (''verify_development_runtime'', RiskRead), (''restart_runtime'', RiskRuntime),
      (''set_runtime_env'', RiskRuntime), (''exec_command'', RiskRuntime)]"

definition localToolSpecs :: "(string \<times> tool_risk) list" where
  "localToolSpecs =
     [(''load_skill'', RiskRead), (''read_skill_resource'', RiskRead),
      (''define_initial_project_plan'', RiskPlan), (''ask_follow_up'', RiskInput), (''read_file'', RiskRead),
      (''web_search'', RiskRead), (''web_fetch'', RiskRead), (''create_file'', RiskWrite),
      (''replace_file'', RiskWrite), (''edit_file'', RiskWrite), (''delete_file'', RiskWrite),
      (''move_file'', RiskWrite), (''select_project_template'', RiskWrite), (''get_project_checkpoints'', RiskRead),
      (''check_project_build'', RiskRead), (''get_build_logs'', RiskRead), (''rebuild_project'', RiskRuntime),
      (''promote_project'', RiskRuntime), (''commit_project_files'', RiskCommit),
      (''inspect_development_preview'', RiskRead), (''interact_development_preview'', RiskRuntime)]"

definition workflowToolSpec :: "string \<Rightarrow> tool_risk option" where
  "workflowToolSpec name =
     map_option snd (find (\<lambda>spec. toolBaseName (fst spec) = toolBaseName name) workflowToolSpecs)"

definition registrySpec :: "string \<Rightarrow> tool_risk option" where
  "registrySpec name =
     (case find (\<lambda>spec. toolKey (fst spec) = toolKey name) localToolSpecs of
        Some spec \<Rightarrow> Some (snd spec) | None \<Rightarrow> workflowToolSpec name)"

definition mcpToolSpec :: "string \<Rightarrow> tool_risk option" where
  "mcpToolSpec tool_name =
     (let name = trim_space tool_name in
      if name \<in> {''infrastructure__list_templates'', ''infrastructure__describe_template'',
          ''infrastructure__list_instances'', ''infrastructure__get_instance'',
          ''databricks__list_tables'', ''databricks__describe_table'',
          ''agents__list_agents'', ''agents__get_run'', ''agents__list_runs''} then Some RiskRead
      else if name \<in> {''infrastructure__provision'', ''agents__run_agent''} then Some RiskRuntime
      else None)"

definition toolNameHasEffect :: "string \<Rightarrow> bool" where
  "toolNameHasEffect name0 =
     (let name = toolBaseName name0 in
      case workflowToolSpec name of Some risk \<Rightarrow> toolHasEffect risk | None \<Rightarrow>
      case registrySpec name of Some risk \<Rightarrow> toolHasEffect risk | None \<Rightarrow>
      case mcpToolSpec name of Some risk \<Rightarrow> toolHasEffect risk | None \<Rightarrow> False)"

definition commitTool :: "string \<Rightarrow> bool" where
  "commitTool name \<longleftrightarrow> toolBaseName name \<in> {''commit_project_files'', ''commit_files''}"

subsection \<open>Reading a result\<close>

definition hasAnyPrefix :: "string \<Rightarrow> string list \<Rightarrow> bool" where
  "hasAnyPrefix s ps = list_ex (hasPrefix s) ps"

text \<open>\<open>projectToolString\<close> of a key of a decoded object, in lower case.\<close>

definition status_word :: "string \<Rightarrow> (string \<times> json) list \<Rightarrow> string" where
  "status_word field decoded =
     (case map_of decoded field of Some (JString s) \<Rightarrow> to_lower (trim_space s) | _ \<Rightarrow> [])"

definition successfulToolContent :: "string \<Rightarrow> bool" where
  "successfulToolContent content0 =
     (let content = to_lower (trim_space content0) in
      if hasAnyPrefix content [''tool call failed:'', ''tool call denied:'',
           ''tool call skipped: waiting for approval'', ''permission denied:''] then False
      else case decode_object content of
        Some decoded \<Rightarrow> status_word ''status'' decoded \<notin> {''failed'', ''partial_failure'', ''error'', ''timed_out''}
      | None \<Rightarrow> True)"

definition toolCallResultStatus :: "string \<Rightarrow> string \<Rightarrow> string" where
  "toolCallResultStatus name result =
     (case decode_object (trim_space result) of None \<Rightarrow> ''succeeded'' | Some decoded \<Rightarrow>
      (let status = status_word ''status'' decoded; phase = status_word ''phase'' decoded in
       if status \<in> {''pending'', ''running''} then ''running''
       else if status \<in> {''canceled'', ''cancelled''} then ''canceled''
       else if status \<in> {''failed'', ''partial_failure'', ''error'', ''timed_out''} then ''failed''
       else if toolBaseName name \<noteq> ''commit_files'' \<and> toolBaseName name \<noteq> ''commit_project_files'' then ''succeeded''
       else if phase \<in> {''pending'', ''running''} then ''running''
       else if phase = ''failed'' then ''failed'' else ''succeeded''))"

definition failing_words :: "string list" where
  "failing_words = [''error'', ''failed'', ''failure'', ''partial_failure'', ''timed_out'']"

definition blocking_words :: "string list" where
  "blocking_words = [''blocked'', ''cancelled'', ''canceled'', ''denied'', ''not_configured'', ''not_ready'',
     ''rejected'', ''unavailable'']"

fun field_failed :: "bool \<Rightarrow> (string \<times> json) list \<Rightarrow> string list \<Rightarrow> bool" where
  "field_failed effectful decoded [] = False"
| "field_failed effectful decoded (field # fields) =
     (let w = status_word field decoded in
      if w \<in> set failing_words then True
      else if w \<in> set blocking_words \<and> effectful then True
      else field_failed effectful decoded fields)"

text \<open>An error of the invocation: its text, and whether \<open>errors.Is\<close> or \<open>errors.As\<close> find in it the
  cancellation of a context, a deadline, or a canceled stream or run.\<close>

record invoke_error =
  ive_Text :: string
  ive_Canceled :: bool

definition DispositionSucceeded :: string where "DispositionSucceeded = ''succeeded''"
definition DispositionFailed :: string where "DispositionFailed = ''failed''"

definition toolResultDisposition :: "string \<Rightarrow> string \<Rightarrow> bool \<Rightarrow> string" where
  "toolResultDisposition name content has_error =
     (if has_error \<or> \<not> successfulToolContent content then DispositionFailed
      else if commitTool name \<and> toolCallResultStatus name content \<noteq> ''succeeded'' then DispositionFailed
      else case decode_object (trim_space content) of
        Some decoded \<Rightarrow>
          if field_failed (toolNameHasEffect name) decoded [''status'', ''phase'', ''outcome'']
          then DispositionFailed else DispositionSucceeded
      | None \<Rightarrow> DispositionSucceeded)"

subsection \<open>Plan snapshots\<close>

record plan_step =
  pst_Content :: string
  pst_ActiveForm :: string
  pst_Status :: string

type_synonym plan_snapshot = "plan_step list"

function utf8_valid :: "string \<Rightarrow> bool" where
  "utf8_valid s = (if s = [] then True else if rune_width s = 0 then False else utf8_valid (drop (rune_width s) s))"
  by pat_completeness auto
termination
  by (relation "measure length") auto

declare utf8_valid.simps [simp del]

text \<open>\<open>unicode.IsControl\<close> somewhere in a valid text: C0, DEL and C1.\<close>

fun any_control :: "string \<Rightarrow> bool" where
  "any_control [] = False"
| "any_control (a # s) =
     (between 0 0x1F a \<or> a = CHR 0x7F \<or>
      (a = CHR 0xC2 \<and> (case s of b # _ \<Rightarrow> between 0x80 0x9F b | [] \<Rightarrow> False)) \<or> any_control s)"

definition planLabelValid :: "string \<Rightarrow> bool \<Rightarrow> bool" where
  "planLabelValid label required =
     (if \<not> utf8_valid label \<or> length label > 120 then False
      else if label \<noteq> trim_space label \<or> any_control label then False
      else \<not> required \<or> trim_space label \<noteq> [])"

fun plan_steps_valid :: "plan_step list \<Rightarrow> nat \<Rightarrow> bool" where
  "plan_steps_valid [] inProgress = True"
| "plan_steps_valid (step # steps) inProgress =
     (if \<not> planLabelValid (pst_Content step) True \<or> \<not> planLabelValid (pst_ActiveForm step) False then False
      else if pst_Status step \<in> {''pending'', ''completed''} then plan_steps_valid steps inProgress
      else if pst_Status step = ''in_progress'' then
        (if inProgress + 1 > 1 then False else plan_steps_valid steps (inProgress + 1))
      else False)"

definition planSnapshotValid :: "plan_snapshot \<Rightarrow> bool" where
  "planSnapshotValid plan = (if length plan = 0 \<or> length plan > 50 then False else plan_steps_valid plan 0)"

subsection \<open>Canceled calls\<close>

definition toolCancellation :: "invoke_error option \<Rightarrow> bool" where
  "toolCancellation err =
     (case err of None \<Rightarrow> False
      | Some e \<Rightarrow> if hasPrefix (trim_space (ive_Text e)) ''interrupt signal:'' then True else ive_Canceled e)"

definition truncateToolInfo :: "string \<Rightarrow> string" where
  "truncateToolInfo value0 =
     (let value = trim_space value0 in
      if length value \<le> 1000 then value else trim_space (take 997 value) @ ''...'')"

text \<open>The component of the arguments of \<open>exec_command\<close>, when they decode into its input struct.\<close>

fun string_items :: "json list \<Rightarrow> bool" where
  "string_items [] = True"
| "string_items (v # vs) = ((case v of JString s \<Rightarrow> True | JNull \<Rightarrow> True | _ \<Rightarrow> False) \<and> string_items vs)"

definition exec_component :: "json \<Rightarrow> string" where
  "exec_component args =
     (case args of
        JObject kvs \<Rightarrow>
          (case string_field ''component'' kvs of
             Some component \<Rightarrow>
               if (\<forall>v \<in> set (struct_fields ''argv'' kvs). case v of JArray vs \<Rightarrow> string_items vs | _ \<Rightarrow> False) \<and>
                  string_field ''workdir'' kvs \<noteq> None \<and> int_field ''timeoutseconds'' kvs \<noteq> None
               then truncateToolInfo (trim_space component) else []
           | None \<Rightarrow> [])
      | _ \<Rightarrow> [])"

definition toolCanceledResultJSON :: "string \<Rightarrow> json \<Rightarrow> string" where
  "toolCanceledResultJSON toolName args =
     (if toolBaseName toolName = ''exec_command'' then
        json_encode (JObject ([(''status'', JString ''canceled''),
          (''summary'', JString ''Command execution was canceled before a terminal result was recorded.'')] @
          (if exec_component args = [] then [] else [(''component'', JString (exec_component args))])))
      else json_encode (JObject [(''status'', JString ''canceled''),
          (''summary'', JString ''Tool execution was canceled before a terminal result was recorded.'')]))"

subsection \<open>Tools of MCP servers\<close>

lemma toolBaseName_trim: "toolBaseName (trim_space name) = toolBaseName name"
  by (simp add: toolBaseName_def)

lemma find_key: "map_option snd (find (\<lambda>p. f (fst p) = k) ps) = map_of (map (\<lambda>p. (f (fst p), snd p)) ps) k"
  by (induction ps) auto

lemma spec_names:
  "map (\<lambda>p. (toolBaseName (fst p), snd p)) workflowToolSpecs = workflowToolSpecs"
  "map (\<lambda>p. (toolKey (fst p), snd p)) localToolSpecs = localToolSpecs"
  by code_simp+

lemma workflowToolSpec_lookup: "workflowToolSpec name = map_of workflowToolSpecs (toolBaseName name)"
  by (simp add: workflowToolSpec_def find_key spec_names)

lemma registrySpec_lookup:
  "registrySpec name = (case map_of localToolSpecs (toolKey name) of Some risk \<Rightarrow> Some risk | None \<Rightarrow> workflowToolSpec name)"
  using find_key [of toolKey "toolKey name" localToolSpecs] by (auto simp: registrySpec_def spec_names split: option.splits)

lemma mcp_names_miss: "\<not> toolNameHasEffect ''infrastructure__provision''" "\<not> toolNameHasEffect ''agents__run_agent''"
proof -
  have names: "toolBaseName ''infrastructure__provision'' = ''provision''" "toolBaseName ''agents__run_agent'' = ''run_agent''"
    "toolBaseName ''provision'' = ''provision''" "toolBaseName ''run_agent'' = ''run_agent''"
    "toolKey ''provision'' = ''provision''" "toolKey ''run_agent'' = ''run_agent''"
    "trim_space ''provision'' = ''provision''" "trim_space ''run_agent'' = ''run_agent''" by code_simp+
  show "\<not> toolNameHasEffect ''infrastructure__provision''" "\<not> toolNameHasEffect ''agents__run_agent''"
    by (simp_all add: toolNameHasEffect_def workflowToolSpec_lookup registrySpec_lookup names mcpToolSpec_def
        workflowToolSpecs_def localToolSpecs_def)
qed

lemma mcp_spec_name: "mcpToolSpec name = Some RiskRuntime \<Longrightarrow> trim_space name \<in> {''infrastructure__provision'', ''agents__run_agent''}"
  by (auto simp: mcpToolSpec_def Let_def split: if_splits)

lemma denied: "decode_object ''{\"status\":\"denied\"}'' = Some [(''status'', JString ''denied'')]"
  by code_simp
lemma denied2: "trim_space ''{\"status\":\"denied\"}'' = ''{\"status\":\"denied\"}''"  "to_lower ''{\"status\":\"denied\"}'' = ''{\"status\":\"denied\"}''"
  by code_simp+

text \<open>The tools that an MCP server adds and that act are not seen as acting when their result is judged: the prefix of the server is
  stripped before the table of MCP tools, whose names have it, is asked. A result that says \<open>denied\<close> or \<open>rejected\<close> then counts as a
  success.\<close>

theorem mcp_effects_are_missed:
  assumes "mcpToolSpec name = Some RiskRuntime" "decode_object (trim_space content) = Some decoded" "successfulToolContent content"
    "\<not> commitTool name" "list_all (\<lambda>f. status_word f decoded \<notin> set failing_words) [''status'', ''phase'', ''outcome'']"
  shows "\<not> toolNameHasEffect name \<and> toolResultDisposition name content False = DispositionSucceeded"
proof -
  have "\<not> toolNameHasEffect (trim_space name)"
    using mcp_spec_name [OF assms(1)] mcp_names_miss by auto
  then have "\<not> toolNameHasEffect name" by (simp add: toolNameHasEffect_def toolBaseName_trim)
  then show ?thesis using assms by (simp add: toolResultDisposition_def)
qed

theorem mcp_effects_are_missed_witness:
  "mcpToolSpec ''infrastructure__provision'' = Some RiskRuntime \<and> toolHasEffect RiskRuntime \<and>
   toolResultDisposition ''infrastructure__provision'' ''{\"status\":\"denied\"}'' False = DispositionSucceeded \<and>
   toolResultDisposition ''restart_runtime'' ''{\"status\":\"denied\"}'' False = DispositionFailed"
proof -
  have "status_word ''status'' [(''status'', JString ''denied'')] = ''denied''" by code_simp
  moreover have "status_word f [(''status'', JString ''denied'')] = []" if "f \<noteq> ''status''" for f using that by (simp add: status_word_def)
  ultimately have words: "status_word ''status'' [(''status'', JString ''denied'')] = ''denied''" "status_word ''phase'' [(''status'', JString ''denied'')] = []"
    "status_word ''outcome'' [(''status'', JString ''denied'')] = []" by simp_all
  have ok: "successfulToolContent ''{\"status\":\"denied\"}''"
    using denied denied2 words by (simp add: successfulToolContent_def hasAnyPrefix_def hasPrefix_def Let_def)
  have "toolBaseName ''restart_runtime'' = ''restart_runtime''" by code_simp
  then have "toolNameHasEffect ''restart_runtime''"
    by (simp add: toolNameHasEffect_def workflowToolSpec_lookup workflowToolSpecs_def toolHasEffect_def)
  moreover have "mcpToolSpec ''infrastructure__provision'' = Some RiskRuntime" "toolHasEffect RiskRuntime"
    "\<not> commitTool ''infrastructure__provision''" by code_simp+
  ultimately have spec: "mcpToolSpec ''infrastructure__provision'' = Some RiskRuntime" "toolHasEffect RiskRuntime" "toolNameHasEffect ''restart_runtime''"
    "\<not> commitTool ''infrastructure__provision''" by simp_all
  have "toolResultDisposition ''infrastructure__provision'' ''{\"status\":\"denied\"}'' False = DispositionSucceeded"
    using mcp_effects_are_missed [OF spec(1) _ ok spec(4)] denied denied2(1) words by (simp add: failing_words_def)
  moreover have "toolResultDisposition ''restart_runtime'' ''{\"status\":\"denied\"}'' False = DispositionFailed"
    using spec(3) ok denied denied2(1) words by (simp add: toolResultDisposition_def failing_words_def blocking_words_def)
  ultimately show ?thesis using spec by simp
qed

end
