(* ===== verification/Assistant_Pairing.thy ===== *)
theory Assistant_Pairing
  imports Go_Text
begin

section \<open>App Studio assistant: pairing tool calls with their results\<close>

text \<open>
  \<open>normalizeProjectAssistantToolCallPairing\<close> of \<open>providers/app-studio/api/assistant_conversation.go\<close>,
  which rebuilds from the durable item stream the message history that a model provider accepts:
  the consecutive tool-call messages of a turn are one message, every call is answered right
  behind it, a call that never settled gets a placeholder, and a result without a call is dropped.
\<close>

subsection \<open>Messages\<close>

record chat_tool_call =
  ctc_ID :: string
  ctc_Type :: string
  ctc_FunctionName :: string
  ctc_FunctionArguments :: string
  ctc_ExtraContent :: "(string \<times> json) list"

record chat_message =
  chm_Role :: string
  chm_Content :: string
  chm_Name :: string
  chm_ToolCallID :: string
  chm_ToolCalls :: "chat_tool_call list"
  chm_Extra :: "(string \<times> json) list"

definition unsettledToolResult :: string where
  "unsettledToolResult =
     ''{\"status\":\"unavailable\",\"summary\":\"tool result unavailable: the assistant run was interrupted before this call settled\"}''"

definition tool_role :: "chat_message \<Rightarrow> bool" where
  "tool_role m = equal_fold (trim_space (chm_Role m)) ''tool''"

definition assistant_role :: "chat_message \<Rightarrow> bool" where
  "assistant_role m = equal_fold (trim_space (chm_Role m)) ''assistant''"

subsection \<open>The first pass: the first result of every call\<close>

fun collect_results :: "chat_message list \<Rightarrow> (string, chat_message) gomap \<Rightarrow> (string, chat_message) gomap" where
  "collect_results [] results = results"
| "collect_results (message # ms) results =
     (if \<not> tool_role message then collect_results ms results
      else let id = trim_space (chm_ToolCallID message) in
        if id = [] then collect_results ms results
        else if map_of results id = None then collect_results ms (mput id message results)
        else collect_results ms results)"

subsection \<open>The second pass\<close>

definition joinToolCallContent :: "string \<Rightarrow> string \<Rightarrow> string" where
  "joinToolCallContent existing addition =
     (if trim_space existing = [] then addition
      else if trim_space addition = [] then existing
      else existing @ [CHR 0x0A, CHR 0x0A] @ addition)"

text \<open>The inner loop over the messages behind a call message: the group, and what is left.\<close>

fun absorb :: "chat_message \<Rightarrow> chat_message list \<Rightarrow> chat_message \<times> chat_message list" where
  "absorb grp [] = (grp, [])"
| "absorb grp (next_msg # ms) =
     (if \<not> assistant_role next_msg \<or> length (chm_ToolCalls next_msg) = 0 then (grp, next_msg # ms)
      else absorb (grp\<lparr>chm_ToolCalls := chm_ToolCalls grp @ chm_ToolCalls next_msg,
             chm_Content := joinToolCallContent (chm_Content grp) (chm_Content next_msg)\<rparr>) ms)"

lemma absorb_length: "length (snd (absorb g ms)) \<le> length ms"
  by (induction ms arbitrary: g) (auto intro: le_SucI)

text \<open>The loop over the calls of a group: the calls kept, their answers and the IDs answered.\<close>

definition unsettled_answer :: "chat_tool_call \<Rightarrow> chat_message" where
  "unsettled_answer c = \<lparr>chm_Role = ''tool'', chm_Content = unsettledToolResult, chm_Name = ctc_FunctionName c,
     chm_ToolCallID = trim_space (ctc_ID c), chm_ToolCalls = [], chm_Extra = []\<rparr>"

fun answer_calls :: "(string, chat_message) gomap \<Rightarrow> string list \<Rightarrow> chat_tool_call list \<Rightarrow>
    chat_tool_call list \<times> chat_message list \<times> string list" where
  "answer_calls results answered [] = ([], [], answered)"
| "answer_calls results answered (c # cs) =
     (let id = trim_space (ctc_ID c) in
      if id = [] \<or> id \<in> set answered then answer_calls results answered cs
      else let result = (case map_of results id of Some r \<Rightarrow> r | None \<Rightarrow> unsettled_answer c);
               (calls, answers, answered') = answer_calls results (id # answered) cs
           in (c # calls, result # answers, answered'))"

function normalize_loop :: "(string, chat_message) gomap \<Rightarrow> string list \<Rightarrow> chat_message list \<Rightarrow> chat_message list" where
  "normalize_loop results answered [] = []"
| "normalize_loop results answered (message # ms) =
     (if tool_role message then normalize_loop results answered ms
      else if \<not> assistant_role message \<or> length (chm_ToolCalls message) = 0
        then message # normalize_loop results answered ms
      else let (grp, rest) = absorb message ms;
               (calls, answers, answered') = answer_calls results answered (chm_ToolCalls grp)
           in if length calls = 0 then
                (if trim_space (chm_Content grp) \<noteq> [] then [grp\<lparr>chm_ToolCalls := []\<rparr>] else []) @
                normalize_loop results answered' rest
              else grp\<lparr>chm_ToolCalls := calls\<rparr> # answers @ normalize_loop results answered' rest)"
  by pat_completeness auto
termination
proof (relation "measure (\<lambda>(_, _, ms). length ms)", goal_cases)
  case (4 results answered message ms p grp rest p' calls x answers answered')
  then show ?case using absorb_length [of message ms] by (metis in_measure le_imp_less_Suc length_Cons prod.case snd_conv)
next
  case (5 results answered message ms p grp rest p' calls x answers answered')
  then show ?case using absorb_length [of message ms] by (metis in_measure le_imp_less_Suc length_Cons prod.case snd_conv)
qed simp_all

definition normalizeToolCallPairing :: "chat_message list \<Rightarrow> chat_message list" where
  "normalizeToolCallPairing messages = normalize_loop (collect_results messages []) [] messages"

subsection \<open>What a provider accepts\<close>

definition call_id :: "chat_tool_call \<Rightarrow> string" where
  "call_id c = trim_space (ctc_ID c)"

definition answer_id :: "chat_message \<Rightarrow> string" where
  "answer_id m = trim_space (chm_ToolCallID m)"

definition call_message :: "chat_message \<Rightarrow> bool" where
  "call_message m \<longleftrightarrow> \<not> tool_role m \<and> assistant_role m \<and> chm_ToolCalls m \<noteq> []"

function well_paired :: "string list \<Rightarrow> chat_message list \<Rightarrow> bool" where
  "well_paired seen [] = True"
| "well_paired seen (m # ms) =
     (if tool_role m then False
      else if call_message m then
        (let ids = map call_id (chm_ToolCalls m); answers = take (length ids) ms in
           [] \<notin> set ids \<and> distinct ids \<and> set ids \<inter> set seen = {} \<and> map answer_id answers = ids \<and>
           list_all tool_role answers \<and> well_paired (rev ids @ seen) (drop (length ids) ms))
      else well_paired seen ms)"
  by pat_completeness auto
termination
  by (relation "measure (\<lambda>(_, ms). length ms)") auto

text \<open>
  What a provider compares: the IDs as they are sent. The code compares them without the white space
  around them and sends the ID of a call as it is.
\<close>

function exactly_paired :: "string list \<Rightarrow> chat_message list \<Rightarrow> bool" where
  "exactly_paired seen [] = True"
| "exactly_paired seen (m # ms) =
     (if tool_role m then False
      else if chm_ToolCalls m = [] then exactly_paired seen ms
      else (let ids = map ctc_ID (chm_ToolCalls m); answers = take (length ids) ms in
           assistant_role m \<and> [] \<notin> set ids \<and> distinct ids \<and> set ids \<inter> set seen = {} \<and>
           map chm_ToolCallID answers = ids \<and> list_all tool_role answers \<and>
           exactly_paired (rev ids @ seen) (drop (length ids) ms)))"
  by pat_completeness auto
termination
  by (relation "measure (\<lambda>(_, ms). length ms)") auto

text \<open>A message whose IDs have no white space around them and which has calls only if it is the assistant's.\<close>

definition plain_ids :: "chat_message \<Rightarrow> bool" where
  "plain_ids m \<longleftrightarrow> (tool_role m \<longrightarrow> answer_id m = chm_ToolCallID m) \<and>
     (\<forall>c \<in> set (chm_ToolCalls m). call_id c = ctc_ID c) \<and> (chm_ToolCalls m \<noteq> [] \<longrightarrow> assistant_role m)"

text \<open>The calls that are answered: those with an ID, the first of every ID.\<close>

fun first_calls :: "string list \<Rightarrow> chat_tool_call list \<Rightarrow> chat_tool_call list" where
  "first_calls seen [] = []"
| "first_calls seen (c # cs) =
     (if call_id c = [] \<or> call_id c \<in> set seen then first_calls seen cs
      else c # first_calls (call_id c # seen) cs)"

definition tool_entries :: "chat_message list \<Rightarrow> (string \<times> chat_message) list" where
  "tool_entries ms = [(answer_id m, m). m \<leftarrow> ms, tool_role m \<and> answer_id m \<noteq> []]"

definition answer_in :: "(string, chat_message) gomap \<Rightarrow> chat_tool_call \<Rightarrow> chat_message" where
  "answer_in results c = (case map_of results (call_id c) of Some r \<Rightarrow> r | None \<Rightarrow> unsettled_answer c)"

definition results_ok :: "(string, chat_message) gomap \<Rightarrow> bool" where
  "results_ok R \<longleftrightarrow> (\<forall>k m. map_of R k = Some m \<longrightarrow> tool_role m \<and> answer_id m = k)"

lemma tool_entries_simps [simp]:
  "tool_entries [] = []"
  "tool_entries (m # ms) = (if tool_role m \<and> answer_id m \<noteq> [] then [(answer_id m, m)] else []) @ tool_entries ms"
  by (simp_all add: tool_entries_def)

lemma map_of_tool_entriesD: "map_of (tool_entries ms) k = Some m \<Longrightarrow> m \<in> set ms \<and> tool_role m \<and> answer_id m = k"
  by (induction ms) (auto split: if_splits)

lemma map_of_collect: "map_of (collect_results ms R) k = map_of (R @ tool_entries ms) k"
proof (induction ms arbitrary: R)
  case (Cons m ms)
  then show ?case
    by (cases "map_of R (answer_id m)") (auto simp: answer_id_def Let_def map_add_def split: option.splits)
qed simp

lemma results_ok_collect: "results_ok (collect_results ms [])"
  unfolding results_ok_def using map_of_tool_entriesD by (fastforce simp: map_of_collect)

lemma roles_exclusive: "tool_role m \<Longrightarrow> \<not> assistant_role m"
  unfolding tool_role_def assistant_role_def
  by (cases "trim_space (chm_Role m)") (auto simp: Let_def char_of_eq_iff split: if_splits)

lemma tool_role_literal: "equal_fold (trim_space ''tool'') ''tool''"
  by code_simp

lemma unsettled_tool [simp]: "tool_role (unsettled_answer c)" "answer_id (unsettled_answer c) = call_id c"
  by (simp_all add: tool_role_def unsettled_answer_def answer_id_def call_id_def tool_role_literal)

lemma answer_in_ok: "results_ok R \<Longrightarrow> tool_role (answer_in R c) \<and> answer_id (answer_in R c) = call_id c"
  by (auto simp: answer_in_def results_ok_def split: option.splits)

lemma answer_calls_eq:
  "answer_calls R seen cs =
     (first_calls seen cs, map (answer_in R) (first_calls seen cs), rev (map call_id (first_calls seen cs)) @ seen)"
  by (induction cs arbitrary: seen) (auto simp: call_id_def [symmetric] answer_in_def Let_def)

lemma first_calls_ids:
  "[] \<notin> set (map call_id (first_calls seen cs)) \<and> distinct (map call_id (first_calls seen cs)) \<and>
   set (map call_id (first_calls seen cs)) \<inter> set seen = {}"
proof (induction cs arbitrary: seen)
  case (Cons c cs)
  show ?case using Cons.IH [of seen] Cons.IH [of "call_id c # seen"] by auto
qed simp

lemma first_calls_append:
  "first_calls seen (cs @ ds) = first_calls seen cs @ first_calls (rev (map call_id (first_calls seen cs)) @ seen) ds"
  by (induction cs arbitrary: seen) auto

lemma first_calls_fixed:
  "[] \<notin> set (map call_id cs) \<Longrightarrow> distinct (map call_id cs) \<Longrightarrow> set (map call_id cs) \<inter> set seen = {} \<Longrightarrow>
   first_calls seen cs = cs"
  by (induction cs arbitrary: seen) auto

lemma absorb_role [simp]: "chm_Role (fst (absorb g ms)) = chm_Role g"
  by (induction ms arbitrary: g) auto

lemma role_congs [simp]:
  "tool_role (m\<lparr>chm_ToolCalls := cs\<rparr>) = tool_role m" "assistant_role (m\<lparr>chm_ToolCalls := cs\<rparr>) = assistant_role m"
  "tool_role (fst (absorb m ms)) = tool_role m" "assistant_role (fst (absorb m ms)) = assistant_role m"
  by (simp_all add: tool_role_def assistant_role_def)

lemma absorb_split:
  "\<exists>gs. ms = gs @ snd (absorb g ms) \<and> list_all call_message gs \<and>
     chm_ToolCalls (fst (absorb g ms)) = chm_ToolCalls g @ concat (map chm_ToolCalls gs)"
proof (induction ms arbitrary: g)
  case (Cons m ms)
  show ?case
  proof (cases "\<not> assistant_role m \<or> length (chm_ToolCalls m) = 0")
    case False
    let ?g = "g\<lparr>chm_ToolCalls := chm_ToolCalls g @ chm_ToolCalls m,
      chm_Content := joinToolCallContent (chm_Content g) (chm_Content m)\<rparr>"
    obtain gs where gs: "ms = gs @ snd (absorb ?g ms)" "list_all call_message gs"
      "chm_ToolCalls (fst (absorb ?g ms)) = chm_ToolCalls ?g @ concat (map chm_ToolCalls gs)"
      using Cons.IH [of ?g] by blast
    have "call_message m" using False roles_exclusive [of m] by (auto simp: call_message_def)
    then show ?thesis using gs False by (intro exI [of _ "m # gs"]) (simp del: gs(1))
  qed simp
qed simp

lemma normalize_tool [simp]: "tool_role m \<Longrightarrow> normalize_loop R seen (m # ms) = normalize_loop R seen ms"
  by simp

lemma normalize_plain [simp]:
  "\<not> tool_role m \<Longrightarrow> \<not> call_message m \<Longrightarrow> normalize_loop R seen (m # ms) = m # normalize_loop R seen ms"
  by (simp add: call_message_def)

lemma normalize_calls:
  assumes "call_message m" "absorb m ms = (g, rest)" "calls = first_calls seen (chm_ToolCalls g)"
  shows "normalize_loop R seen (m # ms) =
     (if calls = [] then if trim_space (chm_Content g) \<noteq> [] then [g\<lparr>chm_ToolCalls := []\<rparr>] else []
      else g\<lparr>chm_ToolCalls := calls\<rparr> # map (answer_in R) calls) @
     normalize_loop R (rev (map call_id calls) @ seen) rest"
  using assms by (simp add: call_message_def answer_calls_eq)

declare normalize_loop.simps(2) [simp del]

lemma message_induct [case_names Nil tool plain calls]:
  assumes "\<And>seen. P seen []"
    and "\<And>seen m ms. tool_role m \<Longrightarrow> P seen ms \<Longrightarrow> P seen (m # ms)"
    and "\<And>seen m ms. \<not> tool_role m \<Longrightarrow> \<not> call_message m \<Longrightarrow> P seen ms \<Longrightarrow> P seen (m # ms)"
    and "\<And>seen m ms g rest calls. call_message m \<Longrightarrow> absorb m ms = (g, rest) \<Longrightarrow>
      calls = first_calls seen (chm_ToolCalls g) \<Longrightarrow> P (rev (map call_id calls) @ seen) rest \<Longrightarrow> P seen (m # ms)"
  shows "P seen ms"
proof (induction "length ms" arbitrary: seen ms rule: less_induct)
  case less
  show ?case
  proof (cases ms)
    case (Cons m ms')
    obtain g rest where ab: "absorb m ms' = (g, rest)" by fastforce
    have "length rest < length ms" using absorb_length [of m ms'] ab Cons by simp
    then show ?thesis
      using less assms(2-3) assms(4) [OF _ ab refl] Cons by (cases "tool_role m"; cases "call_message m") auto
  qed (simp add: assms(1))
qed

lemma absorbD:
  assumes "call_message m" "absorb m ms = (g, rest)"
  shows "call_message (g\<lparr>chm_ToolCalls := c # cs\<rparr>)" "\<not> tool_role g" "assistant_role g"
    "\<exists>gs. ms = gs @ rest \<and> list_all call_message gs \<and>
       chm_ToolCalls g = chm_ToolCalls m @ concat (map chm_ToolCalls gs)"
proof -
  have g: "g = fst (absorb m ms)" "rest = snd (absorb m ms)" using assms(2) by simp_all
  show "call_message (g\<lparr>chm_ToolCalls := c # cs\<rparr>)" "\<not> tool_role g" "assistant_role g"
    using assms(1) by (simp_all add: g call_message_def)
  show "\<exists>gs. ms = gs @ rest \<and> list_all call_message gs \<and>
      chm_ToolCalls g = chm_ToolCalls m @ concat (map chm_ToolCalls gs)"
    using absorb_split [of ms m] by (simp add: g)
qed

subsection \<open>The result is accepted\<close>

lemma well_paired_plain: "\<not> tool_role m \<Longrightarrow> \<not> call_message m \<Longrightarrow> well_paired seen (m # ms) = well_paired seen ms"
  by simp

lemma well_paired_calls:
  assumes "call_message m" "list_all tool_role answers" "map answer_id answers = map call_id (chm_ToolCalls m)"
  shows "well_paired seen (m # answers @ ms) \<longleftrightarrow>
     [] \<notin> set (map call_id (chm_ToolCalls m)) \<and> distinct (map call_id (chm_ToolCalls m)) \<and>
     set (map call_id (chm_ToolCalls m)) \<inter> set seen = {} \<and>
     well_paired (rev (map call_id (chm_ToolCalls m)) @ seen) ms"
proof -
  have len: "length (chm_ToolCalls m) = length answers" using assms(3) by (metis length_map)
  have "\<not> tool_role m" using assms(1) by (simp add: call_message_def)
  then show ?thesis using assms len by (simp add: Let_def del: set_map)
qed

declare well_paired.simps(2) [simp del]

lemma normalize_loop_paired: "results_ok R \<Longrightarrow> well_paired seen (normalize_loop R seen ms)"
proof (induction seen ms rule: message_induct)
  case (calls seen m ms g rest calls)
  note g = absorbD [OF calls(1,2)] and ok = answer_in_ok [OF calls.prems]
  let ?rest = "normalize_loop R (rev (map call_id calls) @ seen) rest"
  have IH: "well_paired (rev (map call_id calls) @ seen) ?rest" using calls by blast
  note step = normalize_calls [OF calls(1-3), of R]
  show ?case
  proof (cases calls)
    case Nil
    have "\<not> call_message (g\<lparr>chm_ToolCalls := []\<rparr>)" by (simp add: call_message_def)
    then show ?thesis using IH Nil g(2) by (simp add: step well_paired_plain)
  next
    case (Cons c cs)
    let ?m = "g\<lparr>chm_ToolCalls := calls\<rparr>"
    have "list_all tool_role (map (answer_in R) calls)" "map answer_id (map (answer_in R) calls) = map call_id (chm_ToolCalls ?m)"
      using ok by (simp_all add: list_all_iff)
    then have "well_paired seen (?m # map (answer_in R) calls @ ?rest)"
      using well_paired_calls [of ?m "map (answer_in R) calls" seen ?rest] g(1) Cons IH
        first_calls_ids [of seen "chm_ToolCalls g"] calls(3) by simp
    then show ?thesis using Cons by (simp add: step)
  qed
qed (simp_all add: well_paired_plain)

lemma first_calls_subset: "set (first_calls seen cs) \<subseteq> set cs"
  by (induction cs arbitrary: seen) auto

lemma well_paired_exact: "well_paired seen ms \<Longrightarrow> list_all plain_ids ms \<Longrightarrow> exactly_paired seen ms"
proof (induction seen ms rule: well_paired.induct)
  case (2 seen m ms)
  let ?n = "length (chm_ToolCalls m)"
  have tool: "\<not> tool_role m" using "2.prems"(1) by (simp add: well_paired.simps(2) split: if_splits)
  show ?case
  proof (cases "chm_ToolCalls m = []")
    case True
    then have "\<not> call_message m" by (simp add: call_message_def)
    then have "exactly_paired seen ms" using 2 tool by (simp add: well_paired.simps(2))
    then show ?thesis using True tool by simp
  next
    case False
    then have cm: "call_message m" "assistant_role m" using "2.prems"(2) tool by (simp_all add: call_message_def plain_ids_def)
    have ids: "map call_id (chm_ToolCalls m) = map ctc_ID (chm_ToolCalls m)" using "2.prems"(2) by (simp add: plain_ids_def)
    have paired: "[] \<notin> set (map ctc_ID (chm_ToolCalls m))" "distinct (map ctc_ID (chm_ToolCalls m))"
      "set (map ctc_ID (chm_ToolCalls m)) \<inter> set seen = {}" "map answer_id (take ?n ms) = map ctc_ID (chm_ToolCalls m)"
      "list_all tool_role (take ?n ms)" "well_paired (rev (map ctc_ID (chm_ToolCalls m)) @ seen) (drop ?n ms)"
      using "2.prems"(1) cm tool by (simp_all add: well_paired.simps(2) Let_def ids del: set_map)
    have ok: "\<forall>x \<in> set ms. plain_ids x" using "2.prems"(2) by (simp add: list_all_iff)
    then have "map chm_ToolCallID (take ?n ms) = map answer_id (take ?n ms)"
      using paired(5) by (auto simp: list_all_iff plain_ids_def dest: in_set_takeD)
    moreover have "exactly_paired (rev (map ctc_ID (chm_ToolCalls m)) @ seen) (drop ?n ms)"
      using "2.IH"(1) [OF tool cm(1) refl refl] paired(6) ok by (simp add: ids list_all_iff in_set_dropD)
    ultimately show ?thesis using paired tool False cm(2) by (simp add: Let_def del: set_map)
  qed
qed simp

lemma normalize_loop_plain_ids:
  "list_all plain_ids ms \<Longrightarrow> (\<And>k m. map_of R k = Some m \<Longrightarrow> plain_ids m) \<Longrightarrow> list_all plain_ids (normalize_loop R seen ms)"
proof (induction seen ms rule: message_induct)
  case (calls seen m ms g rest calls)
  note g = absorbD [OF calls(1,2)] and step = normalize_calls [OF calls(1-3), of R]
  obtain gs where gs: "ms = gs @ rest" "chm_ToolCalls g = chm_ToolCalls m @ concat (map chm_ToolCalls gs)" using g(4) by blast
  then have "\<forall>c \<in> set (chm_ToolCalls g). call_id c = ctc_ID c" using calls.prems(1) by (auto simp: plain_ids_def list_all_iff)
  then have ids: "\<forall>c \<in> set calls. call_id c = ctc_ID c" using calls(3) first_calls_subset by fast
  have "plain_ids (unsettled_answer c)" if "call_id c = ctc_ID c" for c
    using that by (simp add: plain_ids_def) (simp add: unsettled_answer_def call_id_def)
  then have "list_all plain_ids (map (answer_in R) calls)"
    using ids calls.prems(2) by (auto simp: list_all_iff answer_in_def split: option.split)
  moreover have "plain_ids (g\<lparr>chm_ToolCalls := calls\<rparr>)" "plain_ids (g\<lparr>chm_ToolCalls := []\<rparr>)"
    using ids g(2,3) by (simp_all add: plain_ids_def)
  moreover have "list_all plain_ids (normalize_loop R (rev (map call_id calls) @ seen) rest)"
    using calls.IH calls.prems gs(1) by simp
  ultimately show ?case unfolding step by simp
qed simp_all

text \<open>Property C11. The history sent to the model pairs calls and results, whatever the item stream
  holds: behind every assistant message with tool calls stand exactly the results of its calls, in the
  order of the calls, no result stands anywhere else, and no call ID is empty or used twice, where IDs are
  compared without the white space around them, as the code does. If the IDs of the stream have no such white space and
  only assistant messages have calls, the IDs that are sent are equal as they are, which is what a
  provider asks for. With such white space they need not be: a call without a result is then sent with a
  placeholder for another ID.\<close>

theorem history_is_paired:
  "well_paired [] (normalizeToolCallPairing ms) \<and>
   (list_all plain_ids ms \<longrightarrow> exactly_paired [] (normalizeToolCallPairing ms))"
proof -
  have w: "well_paired [] (normalizeToolCallPairing ms)"
    unfolding normalizeToolCallPairing_def by (rule normalize_loop_paired) (rule results_ok_collect)
  have "list_all plain_ids (normalizeToolCallPairing ms)" if ok: "list_all plain_ids ms"
    unfolding normalizeToolCallPairing_def
  proof (rule normalize_loop_plain_ids [OF ok])
    fix k m assume "map_of (collect_results ms []) k = Some m"
    then have "m \<in> set ms" using map_of_tool_entriesD by (fastforce simp: map_of_collect)
    then show "plain_ids m" using ok by (simp add: list_all_iff)
  qed
  then show ?thesis using w well_paired_exact by blast
qed

definition ex_call_message :: "string \<Rightarrow> chat_message" where
  "ex_call_message i = \<lparr>chm_Role = ''assistant'', chm_Content = [], chm_Name = [], chm_ToolCallID = [],
     chm_ToolCalls = [\<lparr>ctc_ID = i, ctc_Type = ''function'', ctc_FunctionName = ''f'', ctc_FunctionArguments = ''{}'',
       ctc_ExtraContent = []\<rparr>], chm_Extra = []\<rparr>"

theorem history_is_paired_witness:
  "exactly_paired [] (normalizeToolCallPairing [ex_call_message ''x'', ex_call_message ''y''])"
proof -
  have "list_all plain_ids [ex_call_message ''x'', ex_call_message ''y'']" by code_simp
  then show ?thesis using history_is_paired by blast
qed

text \<open>
  An ID with white space around it is sent as it is with its call, and without the white space with the
  placeholder that answers the call, so that a provider does not find the answer of the call.
\<close>

theorem padded_id_is_mispaired:
  "map (\<lambda>m. (map ctc_ID (chm_ToolCalls m), chm_ToolCallID m)) (normalizeToolCallPairing [ex_call_message '' x'']) =
     [(['' x''], []), ([], ''x'')] \<and>
   \<not> exactly_paired [] (normalizeToolCallPairing [ex_call_message '' x''])"
  by code_simp

subsection \<open>Normalizing twice\<close>

lemma normalize_skip: "list_all tool_role as \<Longrightarrow> normalize_loop R seen (as @ ms) = normalize_loop R seen ms"
  by (induction as) auto

lemma answers_replayed:
  "map answer_id as = map call_id cs \<Longrightarrow> \<forall>a \<in> set as. map_of R (answer_id a) = Some a \<Longrightarrow> map (answer_in R) cs = as"
proof (induction cs arbitrary: as)
  case (Cons c cs)
  then obtain a as' where "as = a # as'" "answer_id a = call_id c" by auto
  then show ?case using Cons by (auto simp: answer_in_def)
qed simp

lemma absorb_stop: "call_message m \<Longrightarrow> ms = [] \<or> tool_role (hd ms) \<Longrightarrow> absorb m ms = (m, ms)"
  by (cases ms) (auto dest: roles_exclusive)

lemma well_paired_callsE:
  assumes "call_message m" "well_paired seen (m # ms)"
  obtains as rest where "ms = as @ rest" "list_all tool_role as" "map answer_id as = map call_id (chm_ToolCalls m)"
    "[] \<notin> set (map call_id (chm_ToolCalls m))" "distinct (map call_id (chm_ToolCalls m))"
    "set (map call_id (chm_ToolCalls m)) \<inter> set seen = {}"
    "well_paired (rev (map call_id (chm_ToolCalls m)) @ seen) rest"
proof -
  let ?n = "length (chm_ToolCalls m)"
  show ?thesis
    using assms that [of "take ?n ms" "drop ?n ms"]
    by (simp add: well_paired.simps(2) call_message_def Let_def del: set_map)
qed

lemma paired_induct [consumes 1, case_names Nil plain calls]:
  assumes "well_paired seen ms"
    and "\<And>seen. P seen []"
    and "\<And>seen m ms. \<not> tool_role m \<Longrightarrow> \<not> call_message m \<Longrightarrow> P seen ms \<Longrightarrow> P seen (m # ms)"
    and "\<And>seen m as rest. call_message m \<Longrightarrow> list_all tool_role as \<Longrightarrow> map answer_id as = map call_id (chm_ToolCalls m) \<Longrightarrow>
      [] \<notin> set (map call_id (chm_ToolCalls m)) \<Longrightarrow> distinct (map call_id (chm_ToolCalls m)) \<Longrightarrow>
      set (map call_id (chm_ToolCalls m)) \<inter> set seen = {} \<Longrightarrow> well_paired (rev (map call_id (chm_ToolCalls m)) @ seen) rest \<Longrightarrow>
      P (rev (map call_id (chm_ToolCalls m)) @ seen) rest \<Longrightarrow> P seen (m # as @ rest)"
  shows "P seen ms"
  using assms(1)
proof (induction "length ms" arbitrary: seen ms rule: less_induct)
  case less
  show ?case
  proof (cases ms)
    case (Cons m ms')
    show ?thesis
    proof (cases "call_message m")
      case True
      from well_paired_callsE [OF True less.prems [unfolded Cons]] obtain as rest where
        r: "ms' = as @ rest" "list_all tool_role as" "map answer_id as = map call_id (chm_ToolCalls m)"
        "[] \<notin> set (map call_id (chm_ToolCalls m))" "distinct (map call_id (chm_ToolCalls m))"
        "set (map call_id (chm_ToolCalls m)) \<inter> set seen = {}"
        "well_paired (rev (map call_id (chm_ToolCalls m)) @ seen) rest" by blast
      show ?thesis
        unfolding Cons r(1) by (rule assms(4) [OF True r(2-7)]) (rule less.hyps [OF _ r(7)], simp add: Cons r(1))
    next
      case False
      then have "\<not> tool_role m" "well_paired seen ms'"
        using less.prems Cons by (simp_all add: well_paired.simps(2) split: if_splits)
      then show ?thesis using assms(3) [OF _ False] less.hyps [of ms' seen] Cons by simp
    qed
  qed (simp add: assms(2))
qed

lemma tool_entries_append [simp]: "tool_entries (as @ bs) = tool_entries as @ tool_entries bs"
  by (induction as) auto

lemma tool_entries_answers:
  "list_all tool_role as \<Longrightarrow> [] \<notin> set (map answer_id as) \<Longrightarrow> map fst (tool_entries as) = map answer_id as"
  by (induction as) auto

lemma well_paired_entries:
  "well_paired seen ms \<Longrightarrow> distinct (map fst (tool_entries ms)) \<and> set (map fst (tool_entries ms)) \<inter> set seen = {} \<and>
     (\<forall>m \<in> set ms. tool_role m \<longrightarrow> answer_id m \<noteq> [])"
proof (induction rule: paired_induct)
  case (calls seen m as rest)
  have as: "[] \<notin> set (map answer_id as)" unfolding calls(3) by (rule calls(4))
  note keys = tool_entries_answers [OF calls(2) as]
  have m: "tool_entries (m # as @ rest) = tool_entries as @ tool_entries rest"
    using calls(1) by (simp add: call_message_def)
  have "distinct (map fst (tool_entries as) @ map fst (tool_entries rest))"
    using calls(5,8) by (auto simp only: distinct_append keys calls(3) set_append set_rev)
  moreover have "set (map fst (tool_entries as) @ map fst (tool_entries rest)) \<inter> set seen = {}"
    using calls(6,8) by (auto simp only: set_append keys calls(3) set_rev)
  moreover have "\<forall>x \<in> set (m # as @ rest). tool_role x \<longrightarrow> answer_id x \<noteq> []"
    using as calls(1,8) by (auto simp: call_message_def image_iff)
  ultimately show ?case by (simp only: m map_append)
qed simp_all

lemma normalize_fixed:
  "well_paired seen ms \<Longrightarrow> \<forall>m \<in> set ms. tool_role m \<longrightarrow> map_of R (answer_id m) = Some m \<Longrightarrow>
   normalize_loop R seen ms = ms"
proof (induction rule: paired_induct)
  case (calls seen m as rest)
  have ne: "as \<noteq> []" using calls(1,3) by (auto simp: call_message_def)
  then have ab: "absorb m (as @ rest) = (m, as @ rest)"
    using calls(1,2) by (intro absorb_stop) (cases as; simp)+
  have "chm_ToolCalls m = first_calls seen (chm_ToolCalls m)"
    using first_calls_fixed [OF calls(4-6)] by simp
  note step = normalize_calls [OF calls(1) ab this, of R]
  have "map (answer_in R) (chm_ToolCalls m) = as"
    using calls(2,3) calls.prems by (intro answers_replayed) (auto simp: list_all_iff)
  moreover have "normalize_loop R (rev (map call_id (chm_ToolCalls m)) @ seen) rest = rest"
    using calls.IH calls.prems by simp
  moreover have "chm_ToolCalls m \<noteq> []" using calls(1) by (simp add: call_message_def)
  ultimately show ?case by (simp add: step normalize_skip [OF calls(2)])
qed simp_all

text \<open>Normalizing a normalized history changes nothing: loading a conversation that was
  repaired before leaves every message where and as it was.\<close>

theorem pairing_idempotent: "normalizeToolCallPairing (normalizeToolCallPairing ms) = normalizeToolCallPairing ms"
proof -
  let ?out = "normalizeToolCallPairing ms"
  have paired: "well_paired [] ?out"
    unfolding normalizeToolCallPairing_def by (rule normalize_loop_paired) (rule results_ok_collect)
  note entries = well_paired_entries [OF paired]
  have "map_of (collect_results ?out []) (answer_id m) = Some m" if "m \<in> set ?out" "tool_role m" for m
  proof -
    have "(answer_id m, m) \<in> set (tool_entries ?out)" using that entries by (auto simp: tool_entries_def)
    then show ?thesis using entries by (simp add: map_of_collect)
  qed
  then show ?thesis unfolding normalizeToolCallPairing_def [of ?out] by (intro normalize_fixed [OF paired]) simp
qed

subsection \<open>Nothing the model wrote is lost\<close>

abbreviation history_calls :: "chat_message list \<Rightarrow> chat_tool_call list" where
  "history_calls ms \<equiv> concat (map chm_ToolCalls (filter call_message ms))"

lemma filter_all_calls: "list_all call_message gs \<Longrightarrow> filter call_message gs = gs"
  by (induction gs) auto

lemma filter_calls_tools: "list_all tool_role as \<Longrightarrow> filter call_message as = [] \<and> filter tool_role as = as"
  by (induction as) (auto simp: call_message_def)

lemma normalize_loop_complete:
  "results_ok R \<Longrightarrow>
     history_calls (normalize_loop R seen ms) = first_calls seen (history_calls ms) \<and>
     filter tool_role (normalize_loop R seen ms) = map (answer_in R) (first_calls seen (history_calls ms)) \<and>
     filter (\<lambda>m. \<not> tool_role m \<and> \<not> assistant_role m) (normalize_loop R seen ms) =
       filter (\<lambda>m. \<not> tool_role m \<and> \<not> assistant_role m) ms"
proof (induction seen ms rule: message_induct)
  case (calls seen m ms g rest calls)
  note g = absorbD [OF calls(1,2)] and ok = answer_in_ok [OF calls.prems]
  obtain gs where gs: "ms = gs @ rest" "list_all call_message gs"
    "chm_ToolCalls g = chm_ToolCalls m @ concat (map chm_ToolCalls gs)" using g(4) by blast
  have all: "history_calls (m # ms) = chm_ToolCalls g @ history_calls rest"
    using gs calls(1) filter_all_calls by simp
  have first: "first_calls seen (history_calls (m # ms)) =
      calls @ first_calls (rev (map call_id calls) @ seen) (history_calls rest)"
    unfolding all first_calls_append calls(3) ..
  have others: "filter (\<lambda>m. \<not> tool_role m \<and> \<not> assistant_role m) (m # ms) =
      filter (\<lambda>m. \<not> tool_role m \<and> \<not> assistant_role m) rest"
    using gs calls(1) by (auto simp: call_message_def list_all_iff intro!: filter_False)
  have tools: "list_all tool_role (map (answer_in R) calls)" using ok by (simp add: list_all_iff)
  note step = normalize_calls [OF calls(1-3), of R] and at = filter_calls_tools [OF tools]
  have quiet: "\<not> call_message (g\<lparr>chm_ToolCalls := []\<rparr>)" by (simp add: call_message_def)
  have none: "filter (\<lambda>m. \<not> tool_role m \<and> \<not> assistant_role m) (map (answer_in R) calls) = []"
    using ok by (auto intro!: filter_False)
  have loud: "calls \<noteq> [] \<Longrightarrow> call_message (g\<lparr>chm_ToolCalls := calls\<rparr>)" using g(1) by (cases calls) simp_all
  show ?case
    unfolding first others step using calls.IH [OF calls.prems] loud g(2,3) quiet at none
    by (cases "calls = []") simp_all
qed (auto simp: call_message_def)

text \<open>The calls of the normalized history are the calls of the stream in their order,
  each ID once; the results are, call by call, the first recorded result of that call or the
  placeholder that says it never settled; and the messages of the other roles are all there,
  unchanged and in order.\<close>

theorem pairing_complete:
  "history_calls (normalizeToolCallPairing ms) = first_calls [] (history_calls ms) \<and>
   filter tool_role (normalizeToolCallPairing ms) =
     map (\<lambda>c. case map_of (tool_entries ms) (call_id c) of Some r \<Rightarrow> r | None \<Rightarrow> unsettled_answer c)
       (first_calls [] (history_calls ms)) \<and>
   filter (\<lambda>m. \<not> tool_role m \<and> \<not> assistant_role m) (normalizeToolCallPairing ms) =
     filter (\<lambda>m. \<not> tool_role m \<and> \<not> assistant_role m) ms"
  using normalize_loop_complete [OF results_ok_collect, of ms "[]" ms]
  unfolding normalizeToolCallPairing_def answer_in_def map_of_collect by simp

end
