(* ===== verification/Assistant_Ledger.thy ===== *)
theory Assistant_Ledger
  imports Assistant_Tools Assistant_Pairing AppStore_Logs
begin

section \<open>App Studio assistant: the event ledger of a run\<close>

text \<open>
  \<open>providers/app-studio/api/assistant_run_event_ledger.go\<close>: the append-only event log of a run is the
  durable idempotency boundary of its tool calls. A ledger is a cache of the log in one process;
  every operation refreshes it, decides from what it holds and appends one event by
  compare-and-append, and starts again when another process appended first. The ledger's mutex
  makes the operations of one ledger sequential; other processes may change the store between two
  calls of it. The digest (\<open>sha256.Sum256\<close>) is the argument \<open>sum256\<close>. The nil checks of receiver and
  store are left out.
\<close>

subsection \<open>State\<close>

record tool_outcome =
  oc_Result :: string
  oc_Error :: string
  oc_Failed :: bool
  oc_Canceled :: bool
  oc_Disposition :: string
  oc_PlanSnapshot :: "plan_snapshot option"

record call_state =
  cst_ToolName :: string
  cst_ArgsDigest :: string
  cst_Arguments :: json
  cst_RequestArgsDigest :: string
  cst_Read :: bool
  cst_Effect :: bool
  cst_Requested :: bool
  cst_Dispatched :: bool
  cst_Attempts :: int
  cst_Outcome :: "tool_outcome option"

record run_ledger =
  rl_scope :: scope
  rl_runID :: string
  rl_loaded :: bool
  rl_lastSequence :: int
  rl_calls :: "(string, call_state) gomap"
  rl_latestPlanSnapshot :: "plan_snapshot option"

record call_token =
  tok_CallID :: string
  tok_ToolName :: string
  tok_ArgsDigest :: string
  tok_Read :: bool
  tok_Effect :: bool

record call_decision =
  dcn_Token :: call_token
  dcn_Replay :: "tool_outcome option"

definition ShouldDispatch :: "call_decision \<Rightarrow> bool" where
  "ShouldDispatch d \<longleftrightarrow> dcn_Replay d = None"

definition Succeeded :: "tool_outcome \<Rightarrow> bool" where
  "Succeeded oc \<longleftrightarrow> oc_Disposition oc = DispositionSucceeded"

text \<open>What the model sees of an outcome: a result, or a result and an error.\<close>

definition InvokeResult :: "tool_outcome \<Rightarrow> string \<times> string option" where
  "InvokeResult oc = (if \<not> oc_Failed oc \<or> oc_Canceled oc then (oc_Result oc, None) else (oc_Result oc, Some (oc_Error oc)))"

definition newRunEventLedger :: "scope \<Rightarrow> string \<Rightarrow> run_ledger" where
  "newRunEventLedger sc rid = \<lparr>rl_scope = sc, rl_runID = trim_space rid, rl_loaded = False, rl_lastSequence = 0,
     rl_calls = [], rl_latestPlanSnapshot = None\<rparr>"

datatype ledger_error =
    NotConfigured | IdentityRequired | ArgumentsInvalid | AttemptInvalid
  | CallIDConflict string | IncompleteEffect string | IncompleteNonRead string
  | LedgerCorrupt string | PlanRefused string | LedgerStoreError store_error

type_synonym 'a lres = "(ledger_error, 'a) res"

definition event_request :: string where "event_request = ''tool_request''"
definition event_call :: string where "event_call = ''tool_call''"
definition event_result :: string where "event_result = ''tool_result''"

lemmas event_types = event_request_def event_call_def event_result_def

subsection \<open>Arguments and their digest\<close>

text \<open>The arguments of a call: raw JSON text, or a decoded value whose objects are in key order, as
  \<open>json.Marshal\<close> writes a map.\<close>

datatype go_any = RawJSON string | AnyValue json

definition canonicalJSON :: "go_any \<Rightarrow> json option" where
  "canonicalJSON args =
     (case (case args of RawJSON raw \<Rightarrow> json_value raw | AnyValue v \<Rightarrow> Some v) of
        None \<Rightarrow> None | Some v \<Rightarrow> if json_valid (json_encode v) then Some v else None)"

definition args_digest :: "(string \<Rightarrow> string) \<Rightarrow> string \<Rightarrow> json \<Rightarrow> string" where
  "args_digest sum256 toolName v = ''sha256:'' @ hex_encode (sum256 (toolName @ [CHR 0x00] @ json_encode v))"

definition toolCallDigest :: "(string \<Rightarrow> string) \<Rightarrow> string \<Rightarrow> go_any \<Rightarrow> (json \<times> string) lres" where
  "toolCallDigest sum256 name args =
     (let toolName = toolKey name in
      if toolName = [] then Inl IdentityRequired
      else case canonicalJSON args of None \<Rightarrow> Inl ArgumentsInvalid
      | Some v \<Rightarrow> Inr (v, args_digest sum256 toolName v))"

subsection \<open>Payloads\<close>

record call_payload =
  clp_Arguments :: "json option"
  clp_Read :: bool
  clp_Effect :: bool
  clp_Attempt :: int

definition call_payload_json :: "json \<Rightarrow> bool \<Rightarrow> bool \<Rightarrow> int \<Rightarrow> json" where
  "call_payload_json args read effect attempt =
     JObject [(''arguments'', args), (''read'', JBool read), (''effect'', JBool effect),
       (''attempt'', JNumber (show_int attempt))]"

definition decode_call_payload :: "string \<Rightarrow> call_payload option" where
  "decode_call_payload raw =
     (case decode_object raw of None \<Rightarrow> None
      | Some kvs \<Rightarrow>
         (case (bool_field ''read'' kvs, bool_field ''effect'' kvs, int_field ''attempt'' kvs) of
            (Some r, Some e, Some n) \<Rightarrow>
              Some \<lparr>clp_Arguments = raw_field ''arguments'' kvs, clp_Read = r, clp_Effect = e, clp_Attempt = n\<rparr>
          | _ \<Rightarrow> None))"

definition plan_step_json :: "plan_step \<Rightarrow> json" where
  "plan_step_json st = JObject ([(''content'', JString (pst_Content st))] @
     (if pst_ActiveForm st = [] then [] else [(''activeForm'', JString (pst_ActiveForm st))]) @
     [(''status'', JString (pst_Status st))])"

definition plan_json :: "plan_snapshot \<Rightarrow> json" where
  "plan_json plan = JObject [(''steps'', JArray (map plan_step_json plan))]"

fun decode_steps :: "json list \<Rightarrow> plan_step list option" where
  "decode_steps [] = Some []"
| "decode_steps (v # vs) =
     (case (case v of JObject kvs \<Rightarrow> Some kvs | JNull \<Rightarrow> Some [] | _ \<Rightarrow> None) of None \<Rightarrow> None
      | Some kvs \<Rightarrow>
         (case (string_field ''content'' kvs, string_field ''activeform'' kvs, string_field ''status'' kvs, decode_steps vs) of
            (Some c, Some a, Some st, Some sts) \<Rightarrow> Some (\<lparr>pst_Content = c, pst_ActiveForm = a, pst_Status = st\<rparr> # sts)
          | _ \<Rightarrow> None))"

fun read_steps :: "json list \<Rightarrow> plan_snapshot \<Rightarrow> plan_snapshot option" where
  "read_steps [] p = Some p"
| "read_steps (v # vs) p =
     (case v of JArray xs \<Rightarrow> (case decode_steps xs of Some q \<Rightarrow> read_steps vs q | None \<Rightarrow> None) | _ \<Rightarrow> None)"

fun read_plans :: "json list \<Rightarrow> plan_snapshot option \<Rightarrow> plan_snapshot option option" where
  "read_plans [] p = Some p"
| "read_plans (v # vs) p =
     (case v of
        JObject kvs \<Rightarrow> (case read_steps (struct_fields ''steps'' kvs) (case p of Some q \<Rightarrow> q | None \<Rightarrow> []) of
          Some q \<Rightarrow> read_plans vs (Some q) | None \<Rightarrow> None)
      | _ \<Rightarrow> None)"

definition result_payload_json :: "tool_outcome \<Rightarrow> json" where
  "result_payload_json oc =
     JObject ([(''result'', JString (oc_Result oc)), (''error'', JString (oc_Error oc)),
       (''failed'', JBool (oc_Failed oc))] @
       (if oc_Canceled oc then [(''canceled'', JBool True)] else []) @
       (if oc_Disposition oc = [] then [] else [(''disposition'', JString (oc_Disposition oc))]) @
       (case oc_PlanSnapshot oc of None \<Rightarrow> [] | Some p \<Rightarrow> [(''planSnapshot'', plan_json p)]))"

definition decode_result_payload :: "string \<Rightarrow> tool_outcome option" where
  "decode_result_payload raw =
     (case decode_object raw of None \<Rightarrow> None
      | Some kvs \<Rightarrow>
         (case (string_field ''result'' kvs, string_field ''error'' kvs, bool_field ''failed'' kvs,
                bool_field ''canceled'' kvs, string_field ''disposition'' kvs,
                read_plans (struct_fields ''plansnapshot'' kvs) None) of
            (Some r, Some e, Some f, Some c, Some d, Some p) \<Rightarrow>
              Some \<lparr>oc_Result = r, oc_Error = e, oc_Failed = f, oc_Canceled = c, oc_Disposition = d, oc_PlanSnapshot = p\<rparr>
          | _ \<Rightarrow> None))"

subsection \<open>Applying an event\<close>

definition apply_request :: "(string \<Rightarrow> string) \<Rightarrow> string \<Rightarrow> string \<Rightarrow> string \<Rightarrow> string \<Rightarrow> run_ledger \<Rightarrow> run_ledger lres" where
  "apply_request sum256 callID toolName digest raw l =
     (case decode_call_payload raw of None \<Rightarrow> Inl (LedgerCorrupt ''invalid tool request payload'')
      | Some payload \<Rightarrow>
     (case clp_Arguments payload of None \<Rightarrow> Inl (LedgerCorrupt ''invalid tool request payload'')
      | Some args \<Rightarrow>
      if clp_Attempt payload \<noteq> 0 then Inl (LedgerCorrupt ''invalid tool request payload'')
      else case toolCallDigest sum256 toolName (AnyValue args) of Inl e \<Rightarrow> Inl (LedgerCorrupt ''tool request digest mismatch'')
      | Inr (v, persisted) \<Rightarrow>
      if persisted \<noteq> digest then Inl (LedgerCorrupt ''tool request digest mismatch'')
      else case map_of (rl_calls l) callID of
        None \<Rightarrow> Inr (l\<lparr>rl_calls := mput callID \<lparr>cst_ToolName = toolName, cst_ArgsDigest = digest, cst_Arguments = args,
            cst_RequestArgsDigest = digest, cst_Read = clp_Read payload, cst_Effect = clp_Effect payload,
            cst_Requested = True, cst_Dispatched = False, cst_Attempts = 0, cst_Outcome = None\<rparr> (rl_calls l)\<rparr>)
      | Some state \<Rightarrow>
          if cst_ToolName state \<noteq> toolName \<or>
             (cst_RequestArgsDigest state \<noteq> [] \<and> cst_RequestArgsDigest state \<noteq> digest) \<or>
             cst_Read state \<noteq> clp_Read payload \<or> cst_Effect state \<noteq> clp_Effect payload
          then Inl (LedgerCorrupt ''conflicting durable requests'')
          else Inr (l\<lparr>rl_calls := mput callID (state\<lparr>cst_Requested := True\<rparr>) (rl_calls l)\<rparr>)))"

definition apply_call :: "(string \<Rightarrow> string) \<Rightarrow> string \<Rightarrow> string \<Rightarrow> string \<Rightarrow> string \<Rightarrow> run_ledger \<Rightarrow> run_ledger lres" where
  "apply_call sum256 callID toolName digest raw l =
     (case decode_call_payload raw of None \<Rightarrow> Inl (LedgerCorrupt ''invalid tool call payload'')
      | Some payload \<Rightarrow>
     (case clp_Arguments payload of None \<Rightarrow> Inl (LedgerCorrupt ''invalid tool call payload'')
      | Some args \<Rightarrow>
      if clp_Attempt payload < 1 then Inl (LedgerCorrupt ''invalid tool call payload'')
      else case toolCallDigest sum256 toolName (AnyValue args) of Inl e \<Rightarrow> Inl (LedgerCorrupt ''tool call digest mismatch'')
      | Inr (v, persisted) \<Rightarrow>
      if persisted \<noteq> digest then Inl (LedgerCorrupt ''tool call digest mismatch'')
      else case map_of (rl_calls l) callID of
        None \<Rightarrow> Inr (l\<lparr>rl_calls := mput callID \<lparr>cst_ToolName = toolName, cst_ArgsDigest = digest, cst_Arguments = args,
            cst_RequestArgsDigest = [], cst_Read = clp_Read payload, cst_Effect = clp_Effect payload,
            cst_Requested = False, cst_Dispatched = True, cst_Attempts = clp_Attempt payload, cst_Outcome = None\<rparr> (rl_calls l)\<rparr>)
      | Some state \<Rightarrow>
          if \<not> cst_Dispatched state \<and> cst_Requested state \<and> cst_Outcome state = None \<and> clp_Attempt payload = 1 then
            (if cst_ToolName state \<noteq> toolName \<or> cst_Read state \<noteq> clp_Read payload \<or> cst_Effect state \<noteq> clp_Effect payload
             then Inl (LedgerCorrupt ''changed tool identity or risk classification'')
             else Inr (l\<lparr>rl_calls := mput callID (state\<lparr>cst_ArgsDigest := digest, cst_Arguments := args,
                    cst_Dispatched := True, cst_Attempts := clp_Attempt payload\<rparr>) (rl_calls l)\<rparr>))
          else if cst_ToolName state \<noteq> toolName \<or> cst_ArgsDigest state \<noteq> digest \<or>
             cst_Read state \<noteq> clp_Read payload \<or> cst_Effect state \<noteq> clp_Effect payload
          then Inl (LedgerCorrupt ''conflicting durable inputs'')
          else if cst_Outcome state \<noteq> None \<or> \<not> cst_Read state \<or> clp_Attempt payload \<noteq> i64 (cst_Attempts state + 1)
          then Inl (LedgerCorrupt ''invalid retry event'')
          else Inr (l\<lparr>rl_calls := mput callID (state\<lparr>cst_Attempts := clp_Attempt payload\<rparr>) (rl_calls l)\<rparr>)))"

text \<open>The outcome that a result event stands for: a canceled call's result is rebuilt from the durable
  arguments, and an event of the time before typed settlement gets its disposition from its text.\<close>

definition settle_outcome :: "string \<Rightarrow> json \<Rightarrow> tool_outcome \<Rightarrow> tool_outcome lres" where
  "settle_outcome toolName args payload =
     (if oc_Canceled payload \<and> oc_PlanSnapshot payload \<noteq> None
      then Inl (LedgerCorrupt ''canceled tool result contains a plan snapshot'')
      else let o1 = (if oc_Canceled payload then payload\<lparr>oc_Result := toolCanceledResultJSON toolName args,
                       oc_Error := [], oc_Failed := True, oc_Disposition := DispositionFailed\<rparr> else payload) in
      if (case oc_PlanSnapshot o1 of None \<Rightarrow> False | Some p \<Rightarrow> \<not> planSnapshotValid p)
      then Inl (LedgerCorrupt ''invalid plan snapshot'')
      else let o2 = (if oc_Disposition o1 = []
                     then o1\<lparr>oc_Disposition := toolResultDisposition toolName (oc_Result o1) (oc_Failed o1)\<rparr> else o1) in
      if oc_PlanSnapshot o2 \<noteq> None \<and>
         (toolBaseName toolName \<noteq> ''write_todos'' \<or> oc_Failed o2 \<or> \<not> Succeeded o2)
      then Inl (LedgerCorrupt ''invalid plan snapshot tool result'')
      else Inr o2)"

definition apply_result :: "string \<Rightarrow> string \<Rightarrow> string \<Rightarrow> string \<Rightarrow> run_ledger \<Rightarrow> run_ledger lres" where
  "apply_result callID toolName digest raw l =
     (case map_of (rl_calls l) callID of None \<Rightarrow> Inl (LedgerCorrupt ''result precedes its call event'')
      | Some state \<Rightarrow>
      if cst_ToolName state \<noteq> toolName \<or> cst_ArgsDigest state \<noteq> digest
      then Inl (LedgerCorrupt ''result does not match durable input'')
      else case decode_result_payload raw of None \<Rightarrow> Inl (LedgerCorrupt ''invalid tool result payload'')
      | Some payload \<Rightarrow>
     (case settle_outcome toolName (cst_Arguments state) payload of Inl e \<Rightarrow> Inl e
      | Inr outcome \<Rightarrow>
      if cst_Outcome state \<noteq> None \<and> cst_Outcome state \<noteq> Some outcome
      then Inl (LedgerCorrupt ''conflicting durable results'')
      else Inr (l\<lparr>rl_calls := mput callID (state\<lparr>cst_Outcome := Some outcome\<rparr>) (rl_calls l),
             rl_latestPlanSnapshot := (case oc_PlanSnapshot outcome of Some p \<Rightarrow> Some p
                                       | None \<Rightarrow> rl_latestPlanSnapshot l)\<rparr>)))"

definition apply_event :: "(string \<Rightarrow> string) \<Rightarrow> run_event \<Rightarrow> run_ledger \<Rightarrow> run_ledger lres" where
  "apply_event sum256 event l =
     (if rev_Sequence event \<noteq> i64 (rl_lastSequence l + 1) then Inl (LedgerCorrupt ''event sequence advanced'')
      else if rev_Type event \<notin> {event_request, event_call, event_result}
      then Inr (l\<lparr>rl_lastSequence := rev_Sequence event\<rparr>)
      else let callID = trim_space (rev_CallID event); toolName = toolKey (rev_ToolName event);
               digest = trim_space (rev_ArgsDigest event) in
      if callID = [] \<or> toolName = [] \<or> digest = [] then Inl (LedgerCorrupt ''missing tool identity'')
      else case (if rev_Type event = event_request then apply_request sum256 callID toolName digest (rev_Payload event) l
                 else if rev_Type event = event_call then apply_call sum256 callID toolName digest (rev_Payload event) l
                 else apply_result callID toolName digest (rev_Payload event) l) of
        Inl e \<Rightarrow> Inl e | Inr l' \<Rightarrow> Inr (l'\<lparr>rl_lastSequence := rev_Sequence event\<rparr>))"

end
