(* ===== verification/Assistant_Ledger_Ops.thy ===== *)
theory Assistant_Ledger_Ops
  imports Assistant_Ledger
begin

section \<open>App Studio assistant: the operations of the event ledger\<close>

text \<open>
  Refreshing a ledger from the store, and its operations \<open>RecordToolRequest\<close>, \<open>BeginToolCall\<close>,
  \<open>FinishToolCall\<close>, \<open>LatestPlanSnapshot\<close>, \<open>SettledToolCall\<close>, \<open>ToolCallOutcome\<close> and
  \<open>RecoverDanglingToolCall\<close>. The first three are a loop whose round refreshes and then attempts the
  operation. The arguments of a call are a JSON object; a nil map, which Go writes as null, is left out.
  Each round is given what other processes do to the store between its refresh and its
  attempt; with no round left the loop is still running and the value is \<open>None\<close>.
\<close>

subsection \<open>Refreshing\<close>

fun apply_events :: "(string \<Rightarrow> string) \<Rightarrow> run_event list \<Rightarrow> run_ledger \<Rightarrow> ledger_error option \<times> run_ledger" where
  "apply_events sum256 [] l = (None, l)"
| "apply_events sum256 (event # events) l =
     (if rev_Sequence event \<noteq> i64 (rl_lastSequence l + 1) then (Some (LedgerCorrupt ''event sequence advanced''), l)
      else case apply_event sum256 event l of
        Inl e \<Rightarrow> (Some e, l)
      | Inr l' \<Rightarrow> apply_events sum256 events l')"

text \<open>What an event that applies does to the call it names.\<close>

lemma apply_requestD:
  assumes "apply_request sum256 cid tool digest raw l = Inr l'"
  shows "\<exists>p args st. decode_call_payload raw = Some p \<and> clp_Arguments p = Some args \<and> l' = l\<lparr>rl_calls := mput cid st (rl_calls l)\<rparr> \<and>
    (case map_of (rl_calls l) cid of
       None \<Rightarrow> st = \<lparr>cst_ToolName = tool, cst_ArgsDigest = digest, cst_Arguments = args,
            cst_RequestArgsDigest = digest, cst_Read = clp_Read p, cst_Effect = clp_Effect p,
            cst_Requested = True, cst_Dispatched = False, cst_Attempts = 0, cst_Outcome = None\<rparr>
     | Some old \<Rightarrow> st = old\<lparr>cst_Requested := True\<rparr>)"
proof -
  obtain p where p: "decode_call_payload raw = Some p"
    using assms by (cases "decode_call_payload raw") (simp_all add: apply_request_def)
  obtain args where a: "clp_Arguments p = Some args"
    using assms p by (cases "clp_Arguments p") (simp_all add: apply_request_def)
  show ?thesis
    using assms p a by (cases "map_of (rl_calls l) cid") (auto simp: apply_request_def split: if_splits sum.splits)
qed

lemma apply_callD:
  assumes "apply_call sum256 cid tool digest raw l = Inr l'"
  shows "\<exists>p args st. decode_call_payload raw = Some p \<and> clp_Arguments p = Some args \<and> 1 \<le> clp_Attempt p \<and>
    l' = l\<lparr>rl_calls := mput cid st (rl_calls l)\<rparr> \<and>
    (case map_of (rl_calls l) cid of
       None \<Rightarrow> st = \<lparr>cst_ToolName = tool, cst_ArgsDigest = digest, cst_Arguments = args,
            cst_RequestArgsDigest = [], cst_Read = clp_Read p, cst_Effect = clp_Effect p,
            cst_Requested = False, cst_Dispatched = True, cst_Attempts = clp_Attempt p, cst_Outcome = None\<rparr>
     | Some old \<Rightarrow> cst_ToolName old = tool \<and> cst_Read old = clp_Read p \<and> cst_Effect old = clp_Effect p \<and> cst_Outcome old = None \<and>
         (\<not> cst_Dispatched old \<and> cst_Requested old \<and> clp_Attempt p = 1 \<and>
            st = old\<lparr>cst_ArgsDigest := digest, cst_Arguments := args, cst_Dispatched := True, cst_Attempts := clp_Attempt p\<rparr> \<or>
          (cst_Dispatched old \<or> \<not> cst_Requested old \<or> clp_Attempt p \<noteq> 1) \<and>
            cst_ArgsDigest old = digest \<and> cst_Read old \<and> clp_Attempt p = i64 (cst_Attempts old + 1) \<and>
            st = old\<lparr>cst_Attempts := clp_Attempt p\<rparr>))"
proof -
  obtain p where p: "decode_call_payload raw = Some p"
    using assms by (cases "decode_call_payload raw") (simp_all add: apply_call_def)
  obtain args where a: "clp_Arguments p = Some args"
    using assms p by (cases "clp_Arguments p") (simp_all add: apply_call_def)
  have "1 \<le> clp_Attempt p" using assms p a by (simp add: apply_call_def split: if_splits)
  show ?thesis
  proof (cases "map_of (rl_calls l) cid")
    case None
    then show ?thesis
      using assms p a by (simp add: apply_call_def split: if_splits sum.splits prod.splits)
  next
    case (Some old)
    then show ?thesis
      using assms p a by (simp add: apply_call_def split: if_splits sum.splits prod.splits) metis+
  qed
qed

lemma apply_resultD:
  assumes "apply_result cid tool digest raw l = Inr l'"
  shows "\<exists>old oc payload plan. map_of (rl_calls l) cid = Some old \<and> cst_ToolName old = tool \<and> cst_ArgsDigest old = digest \<and>
    decode_result_payload raw = Some payload \<and> settle_outcome tool (cst_Arguments old) payload = Inr oc \<and>
    (cst_Outcome old = None \<or> cst_Outcome old = Some oc) \<and>
    l' = l\<lparr>rl_calls := mput cid (old\<lparr>cst_Outcome := Some oc\<rparr>) (rl_calls l), rl_latestPlanSnapshot := plan\<rparr>"
proof -
  obtain old where old: "map_of (rl_calls l) cid = Some old"
    using assms by (cases "map_of (rl_calls l) cid") (simp_all add: apply_result_def)
  obtain p where p: "decode_result_payload raw = Some p"
    using assms old by (cases "decode_result_payload raw") (simp_all add: apply_result_def split: if_splits)
  obtain oc where oc: "settle_outcome tool (cst_Arguments old) p = Inr oc"
    using assms old p by (cases "settle_outcome tool (cst_Arguments old) p") (simp_all add: apply_result_def split: if_splits)
  show ?thesis
    using assms old p oc by (simp add: apply_result_def split: if_splits) blast+
qed

lemma apply_eventE:
  assumes "apply_event sum256 e l = Inr l'"
  obtains (other) "rev_Type e \<notin> {event_request, event_call, event_result}" "l' = l\<lparr>rl_lastSequence := rev_Sequence e\<rparr>"
  | (request) m where "rev_Type e = event_request" "l' = m\<lparr>rl_lastSequence := rev_Sequence e\<rparr>"
      "apply_request sum256 (trim_space (rev_CallID e)) (toolKey (rev_ToolName e)) (trim_space (rev_ArgsDigest e)) (rev_Payload e) l = Inr m"
  | (call) m where "rev_Type e = event_call" "l' = m\<lparr>rl_lastSequence := rev_Sequence e\<rparr>"
      "apply_call sum256 (trim_space (rev_CallID e)) (toolKey (rev_ToolName e)) (trim_space (rev_ArgsDigest e)) (rev_Payload e) l = Inr m"
  | (result) m where "rev_Type e = event_result" "l' = m\<lparr>rl_lastSequence := rev_Sequence e\<rparr>"
      "apply_result (trim_space (rev_CallID e)) (toolKey (rev_ToolName e)) (trim_space (rev_ArgsDigest e)) (rev_Payload e) l = Inr m"
proof -
  have types: "event_call \<noteq> event_request" "event_result \<noteq> event_request" "event_result \<noteq> event_call"
    by (simp_all add: event_types)
  consider "rev_Type e \<notin> {event_request, event_call, event_result}" | "rev_Type e = event_request"
    | "rev_Type e = event_call" | "rev_Type e = event_result" by auto
  then show thesis
  proof cases
    case 1
    then show thesis using assms other by (simp add: apply_event_def split: if_splits)
  qed (use assms request call result types in
      \<open>auto simp: apply_event_def Let_def simp del: trim_space_Nil split: if_splits sum.splits\<close>)
qed

lemma apply_event_keeps:
  assumes "apply_event sum256 e l = Inr l'"
  shows "rl_scope l' = rl_scope l" "rl_runID l' = rl_runID l" "rl_loaded l' = rl_loaded l"
    "rl_lastSequence l' = rev_Sequence e" "rev_Sequence e = i64 (rl_lastSequence l + 1)"
proof -
  show "rev_Sequence e = i64 (rl_lastSequence l + 1)" using assms by (simp add: apply_event_def split: if_splits)
  have "rl_scope l' = rl_scope l \<and> rl_runID l' = rl_runID l \<and> rl_loaded l' = rl_loaded l \<and> rl_lastSequence l' = rev_Sequence e"
    using assms
  proof (cases rule: apply_eventE)
    case (request m)
    from apply_requestD [OF request(3)] show ?thesis using request(2) by auto
  next
    case (call m)
    from apply_callD [OF call(3)] show ?thesis using call(2) by auto
  next
    case (result m)
    from apply_resultD [OF result(3)] show ?thesis using result(2) by auto
  qed simp
  then show "rl_scope l' = rl_scope l" "rl_runID l' = rl_runID l" "rl_loaded l' = rl_loaded l"
    "rl_lastSequence l' = rev_Sequence e" by simp_all
qed

lemma i64_Suc_gt:
  assumes "k < i64 (n + 1)" "0 \<le> k" "n \<le> max_i64" "k \<le> n"
  shows "i64 (n + 1) = n + 1" "n < max_i64"
proof -
  have "n \<noteq> max_i64" using assms by (auto simp: i64_def max_i64_def)
  then show "n < max_i64" using assms(3) by simp
  then show "i64 (n + 1) = n + 1" using assms by (simp add: i64_Suc)
qed

lemma apply_events_increase:
  "apply_events sum256 es l = (None, l') \<Longrightarrow> \<forall>e \<in> set es. k < rev_Sequence e \<Longrightarrow> 0 \<le> k \<Longrightarrow> k \<le> rl_lastSequence l \<Longrightarrow>
   rl_lastSequence l \<le> max_i64 \<Longrightarrow>
   rl_lastSequence l' = rl_lastSequence l + int (length es) \<and> rl_scope l' = rl_scope l \<and> rl_runID l' = rl_runID l"
proof (induction es arbitrary: l)
  case (Cons e es)
  then obtain m where m: "apply_event sum256 e l = Inr m" "apply_events sum256 es m = (None, l')"
    by (auto split: if_splits sum.splits)
  note keep = apply_event_keeps [OF m(1)]
  have "k < i64 (rl_lastSequence l + 1)" using Cons.prems(2) keep(5) by simp
  note step = i64_Suc_gt [OF this Cons.prems(3,5,4)]
  then show ?case using Cons.IH [OF m(2)] Cons.prems keep by simp
qed simp

function refresh_loop :: "(string \<Rightarrow> string) \<Rightarrow> memory_store \<Rightarrow> run_ledger \<Rightarrow> ledger_error option \<times> run_ledger" where
  "refresh_loop sum256 s l =
     (case ListAssistantRunEvents (rl_scope l) (rl_runID l) (rl_lastSequence l) 500 s of
        Inl e \<Rightarrow> (Some (LedgerStoreError e), l)
      | Inr events \<Rightarrow>
          if length events = 0 then (None, l)
          else case apply_events sum256 events l of
            (Some e, l') \<Rightarrow> (Some e, l')
          | (None, l') \<Rightarrow> if length events < 500 then (None, l') else refresh_loop sum256 s l')"
  by pat_completeness auto

text \<open>The loop ends: every page that was applied leaves fewer events of the log behind the cache.\<close>

termination
proof (relation "measure (\<lambda>(_, s, l). length (filter (\<lambda>e. rl_lastSequence l < rev_Sequence e)
    (run_log s (rl_scope l) (trim_space (rl_runID l)))))", goal_cases)
  case (2 sum256 s l events p l')
  let ?log = "run_log s (rl_scope l) (trim_space (rl_runID l))" and ?k = "rl_lastSequence l"
  have k: "0 \<le> ?k" and sub: "set events \<subseteq> {e \<in> set ?log. ?k < rev_Sequence e}"
    using 2(1) take_matching_eq [of "nat (normalizeLimit 500)" _ ?log]
    by (auto simp: ListAssistantRunEvents_def validateAssistantRunEventList_def Let_def normalizeLimit_def
        dest!: in_set_takeD split: sum.splits if_splits)
  obtain e es where ev: "events = e # es" using 2(2) by (cases events) auto
  have "apply_events sum256 events l = (None, l')" using 2(3,4) by simp
  then have first: "rev_Sequence e = i64 (?k + 1)" using ev by (auto split: if_splits)
  have e: "e \<in> set ?log" "?k < rev_Sequence e" using sub ev by auto
  have "?k \<le> max_i64" using e(2) first i64_range [of "?k + 1"] by simp
  with apply_events_increase [OF \<open>apply_events sum256 events l = (None, l')\<close>, of ?k] sub k
  have l': "rl_lastSequence l' = ?k + int (length events)" "rl_scope l' = rl_scope l" "rl_runID l' = rl_runID l"
    by auto
  have "rev_Sequence e \<le> rl_lastSequence l'"
    using first i64_Suc_gt(1) [of ?k ?k] e(2) k \<open>?k \<le> max_i64\<close> l'(1) ev by simp
  then have "filter (\<lambda>e. rl_lastSequence l' < rev_Sequence e) ?log =
      filter (\<lambda>e. rl_lastSequence l' < rev_Sequence e) (filter (\<lambda>e. ?k < rev_Sequence e) ?log)"
    using l'(1) by (auto simp: intro!: filter_cong)
  moreover have "length \<dots> < length (filter (\<lambda>e. ?k < rev_Sequence e) ?log)"
    using e \<open>rev_Sequence e \<le> rl_lastSequence l'\<close> by (intro length_filter_less [of e]) auto
  ultimately show ?case using l'(2,3) by simp
qed simp

declare refresh_loop.simps [simp del]

definition refreshLocked :: "(string \<Rightarrow> string) \<Rightarrow> memory_store \<Rightarrow> run_ledger \<Rightarrow> ledger_error option \<times> run_ledger" where
  "refreshLocked sum256 s l =
     refresh_loop sum256 s (if \<not> rl_loaded l then l\<lparr>rl_calls := [], rl_lastSequence := 0, rl_loaded := True\<rparr> else l)"

subsection \<open>The conversation items of a call\<close>

definition tool_call_json :: "chat_tool_call \<Rightarrow> json" where
  "tool_call_json c = JObject ([(''id'', JString (ctc_ID c)), (''type'', JString (ctc_Type c)),
     (''function'', JObject [(''name'', JString (ctc_FunctionName c)), (''arguments'', JString (ctc_FunctionArguments c))])] @
     (if ctc_ExtraContent c = [] then [] else [(''extra_content'', JObject (ctc_ExtraContent c))]))"

definition chat_message_json :: "chat_message \<Rightarrow> json" where
  "chat_message_json m = JObject ([(''role'', JString (chm_Role m))] @
     (if chm_Content m = [] then [] else [(''content'', JString (chm_Content m))]) @
     (if chm_Name m = [] then [] else [(''name'', JString (chm_Name m))]) @
     (if chm_ToolCallID m = [] then [] else [(''tool_call_id'', JString (chm_ToolCallID m))]) @
     (if chm_ToolCalls m = [] then [] else [(''tool_calls'', JArray (map tool_call_json (chm_ToolCalls m)))]) @
     (if chm_Extra m = [] then [] else [(''extra'', JObject (chm_Extra m))]))"

definition appendConversationMessage ::
  "gotime \<Rightarrow> string \<Rightarrow> scope \<Rightarrow> string \<Rightarrow> string \<Rightarrow> string \<Rightarrow> chat_message \<Rightarrow> memory_store \<Rightarrow> unit sres \<times> memory_store" where
  "appendConversationMessage now uuid sc runID itemID0 itemType message s =
     (let itemID = (if blank itemID0 then ''item-'' @ uuid else itemID0) in
      case AppendAssistantConversationItem now sc
          \<lparr>itm_ID = itemID, itm_RunID = runID, itm_ProjectName = [], itm_ProjectUID = [], itm_Sequence = 0,
           itm_Type = itemType, itm_Payload = json_encode (chat_message_json message), itm_CreatedAt = now\<rparr> s of
        (Inl e, s') \<Rightarrow> (Inl e, s') | (Inr _, s') \<Rightarrow> (Inr (), s'))"

definition toolResultItemID :: "string \<Rightarrow> string \<Rightarrow> string" where
  "toolResultItemID runID callID = ''tool-result-'' @ trim_space runID @ ''-'' @ trim_space callID"

definition toolCallItemID :: "string \<Rightarrow> string \<Rightarrow> int \<Rightarrow> string" where
  "toolCallItemID runID callID attempt =
     ''tool-call-'' @ trim_space runID @ ''-'' @ trim_space callID @ ''-'' @ show_int attempt"

definition store_result :: "unit sres \<times> memory_store \<Rightarrow> unit lres \<times> memory_store" where
  "store_result p = (case p of (Inl e, s) \<Rightarrow> (Inl (LedgerStoreError e), s) | (Inr u, s) \<Rightarrow> (Inr (), s))"

definition appendToolCallConversation ::
  "gotime \<Rightarrow> run_ledger \<Rightarrow> string \<Rightarrow> string \<Rightarrow> json \<Rightarrow> int \<Rightarrow> memory_store \<Rightarrow> unit lres \<times> memory_store" where
  "appendToolCallConversation now l callID toolName args attempt s =
     (if attempt \<le> 0 then (Inl AttemptInvalid, s)
      else store_result (appendConversationMessage now [] (rl_scope l) (rl_runID l)
        (toolCallItemID (rl_runID l) callID attempt) ''tool_call''
        \<lparr>chm_Role = ''assistant'', chm_Content = [], chm_Name = [], chm_ToolCallID = [],
         chm_ToolCalls = [\<lparr>ctc_ID = callID, ctc_Type = ''function'', ctc_FunctionName = toolName,
           ctc_FunctionArguments = json_encode args, ctc_ExtraContent = []\<rparr>], chm_Extra = []\<rparr> s))"

definition appendToolResultConversation ::
  "gotime \<Rightarrow> run_ledger \<Rightarrow> string \<Rightarrow> string \<Rightarrow> tool_outcome \<Rightarrow> memory_store \<Rightarrow> unit lres \<times> memory_store" where
  "appendToolResultConversation now l callID toolName outcome s =
     (let modelResult = (if blank (oc_Result outcome) \<and> oc_Failed outcome then oc_Error outcome else oc_Result outcome) in
      store_result (appendConversationMessage now [] (rl_scope l) (rl_runID l)
        (toolResultItemID (rl_runID l) callID) ''tool_result''
        \<lparr>chm_Role = ''tool'', chm_Content = modelResult, chm_Name = toolName, chm_ToolCallID = callID,
         chm_ToolCalls = [], chm_Extra = []\<rparr> s))"

definition ensureToolConversation ::
  "gotime \<Rightarrow> run_ledger \<Rightarrow> string \<Rightarrow> string \<Rightarrow> json \<Rightarrow> int \<Rightarrow> tool_outcome option \<Rightarrow> memory_store \<Rightarrow> unit lres \<times> memory_store" where
  "ensureToolConversation now l callID toolName args attempt outcome s =
     (case appendToolCallConversation now l callID toolName args attempt s of
        (Inl e, s') \<Rightarrow> (Inl e, s')
      | (Inr _, s') \<Rightarrow> (case outcome of None \<Rightarrow> (Inr (), s')
                       | Some oc \<Rightarrow> appendToolResultConversation now l callID toolName oc s'))"

subsection \<open>A round and its repetition\<close>

datatype 'a attempt = Retry | Return 'a

type_synonym 'a attempt_step = "run_ledger \<Rightarrow> memory_store \<Rightarrow> 'a lres attempt \<times> run_ledger \<times> memory_store"

fun cas_loop :: "(string \<Rightarrow> string) \<Rightarrow> (memory_store \<Rightarrow> memory_store) list \<Rightarrow> 'a attempt_step \<Rightarrow>
    run_ledger \<Rightarrow> memory_store \<Rightarrow> ('a lres \<times> run_ledger \<times> memory_store) option" where
  "cas_loop sum256 [] attempt l s = None"
| "cas_loop sum256 (others # rounds) attempt l s =
     (case refreshLocked sum256 s l of
        (Some e, l1) \<Rightarrow> Some (Inl e, l1, s)
      | (None, l1) \<Rightarrow>
          (case attempt l1 (others s) of
             (Return r, l2, s') \<Rightarrow> Some (r, l2, s')
           | (Retry, l2, s') \<Rightarrow> cas_loop sum256 rounds attempt l2 s'))"

definition ledger_event :: "run_ledger \<Rightarrow> string \<Rightarrow> call_token \<Rightarrow> string \<Rightarrow> run_event" where
  "ledger_event l ty t payload =
     \<lparr>rev_RunID = rl_runID l, rev_ProjectName = [], rev_ProjectUID = [], rev_Sequence = 0, rev_Type = ty,
      rev_CallID = tok_CallID t, rev_ToolName = tok_ToolName t, rev_ArgsDigest = tok_ArgsDigest t,
      rev_Payload = payload, rev_CreatedAt = 0\<rparr>"

definition appendLedgerEvent ::
  "(string \<Rightarrow> string) \<Rightarrow> gotime \<Rightarrow> run_event \<Rightarrow> run_ledger \<Rightarrow> memory_store \<Rightarrow> unit lres attempt \<times> run_ledger \<times> memory_store" where
  "appendLedgerEvent sum256 now event l s =
     (case AppendAssistantRunEvent now (rl_scope l) event (rl_lastSequence l) s of
        (Inl e, s') \<Rightarrow> (if e = ErrAssistantRunEventConflict then Retry else Return (Inl (LedgerStoreError e)), l, s')
      | (Inr saved, s') \<Rightarrow>
          (case apply_event sum256 saved l of
             Inl e \<Rightarrow> (Return (Inl e), l, s')
           | Inr l' \<Rightarrow> (Return (Inr ()), l', s')))"

text \<open>What the callers do with the outcome of the append: an error is returned, success gives a value.\<close>

definition and_return :: "'a \<Rightarrow> unit lres attempt \<times> run_ledger \<times> memory_store \<Rightarrow> 'a lres attempt \<times> run_ledger \<times> memory_store" where
  "and_return v p = (case p of (Retry, l, s) \<Rightarrow> (Retry, l, s) | (Return (Inl e), l, s) \<Rightarrow> (Return (Inl e), l, s)
     | (Return (Inr _), l, s) \<Rightarrow> (Return (Inr v), l, s))"

subsection \<open>Recording a request and beginning a call\<close>

definition toolRequestStateMatches :: "call_state \<Rightarrow> call_token \<Rightarrow> unit lres" where
  "toolRequestStateMatches state t =
     (let digest = (if cst_RequestArgsDigest state = [] then cst_ArgsDigest state else cst_RequestArgsDigest state) in
      if cst_ToolName state \<noteq> tok_ToolName t \<or> digest \<noteq> tok_ArgsDigest t then Inl (CallIDConflict (tok_CallID t))
      else if cst_Read state \<noteq> tok_Read t \<or> cst_Effect state \<noteq> tok_Effect t then Inl (CallIDConflict (tok_CallID t))
      else Inr ())"

definition toolCallStateMatches :: "call_state \<Rightarrow> call_token \<Rightarrow> unit lres" where
  "toolCallStateMatches state t =
     (if cst_ToolName state \<noteq> tok_ToolName t \<or> cst_ArgsDigest state \<noteq> tok_ArgsDigest t then Inl (CallIDConflict (tok_CallID t))
      else if cst_Read state \<noteq> tok_Read t \<or> cst_Effect state \<noteq> tok_Effect t then Inl (CallIDConflict (tok_CallID t))
      else Inr ())"

definition zero_token :: call_token where
  "zero_token = \<lparr>tok_CallID = [], tok_ToolName = [], tok_ArgsDigest = [], tok_Read = False, tok_Effect = False\<rparr>"

text \<open>The token both operations derive from their arguments, with the canonical arguments.\<close>

definition call_token_for :: "(string \<Rightarrow> string) \<Rightarrow> string \<Rightarrow> string \<Rightarrow> tool_risk \<Rightarrow> go_any \<Rightarrow> run_ledger \<Rightarrow> (json \<times> call_token) lres" where
  "call_token_for sum256 callID0 name risk args l =
     (let callID = trim_space callID0; toolName = toolKey name in
      if blank (rl_runID l) then Inl NotConfigured
      else if callID = [] \<or> toolName = [] then Inl IdentityRequired
      else case toolCallDigest sum256 toolName args of Inl e \<Rightarrow> Inl e
      | Inr (v, digest) \<Rightarrow> Inr (v, \<lparr>tok_CallID = callID, tok_ToolName = toolName, tok_ArgsDigest = digest,
          tok_Read = (risk = RiskRead), tok_Effect = toolHasEffect risk\<rparr>))"

text \<open>A settled call is repaired in the conversation and replayed.\<close>

definition replay_call :: "gotime \<Rightarrow> call_token \<Rightarrow> json \<Rightarrow> call_state \<Rightarrow> tool_outcome \<Rightarrow> call_decision attempt_step" where
  "replay_call now t args state outcome l s =
     (case ensureToolConversation now l (tok_CallID t) (tok_ToolName t) args (max (cst_Attempts state) 1) (Some outcome) s of
        (Inl e, s') \<Rightarrow> (Return (Inl e), l, s')
      | (Inr _, s') \<Rightarrow> (Return (Inr \<lparr>dcn_Token = zero_token, dcn_Replay = Some outcome\<rparr>), l, s'))"

definition dispatch_call :: "call_token \<Rightarrow> call_decision" where
  "dispatch_call t = \<lparr>dcn_Token = t, dcn_Replay = None\<rparr>"

definition record_attempt :: "(string \<Rightarrow> string) \<Rightarrow> gotime \<Rightarrow> json \<Rightarrow> call_token \<Rightarrow> call_decision attempt_step" where
  "record_attempt sum256 now args t l s =
     (case map_of (rl_calls l) (tok_CallID t) of
        Some state \<Rightarrow>
          (case toolRequestStateMatches state t of Inl e \<Rightarrow> (Return (Inl e), l, s)
           | Inr _ \<Rightarrow>
          (case cst_Outcome state of
             Some outcome \<Rightarrow> replay_call now t args state outcome l s
           | None \<Rightarrow>
              (case appendToolCallConversation now l (tok_CallID t) (tok_ToolName t) args (max (cst_Attempts state) 1) s of
                 (Inl e, s') \<Rightarrow> (Return (Inl e), l, s')
               | (Inr _, s') \<Rightarrow> (Return (Inr (dispatch_call t)), l, s'))))
      | None \<Rightarrow>
          (case appendToolCallConversation now l (tok_CallID t) (tok_ToolName t) args 1 s of
             (Inl e, s') \<Rightarrow> (Return (Inl e), l, s')
           | (Inr _, s') \<Rightarrow> and_return (dispatch_call t)
               (appendLedgerEvent sum256 now (ledger_event l event_request t
                  (json_encode (call_payload_json args (tok_Read t) (tok_Effect t) 0))) l s')))"

definition RecordToolRequest :: "(string \<Rightarrow> string) \<Rightarrow> gotime \<Rightarrow> (memory_store \<Rightarrow> memory_store) list \<Rightarrow> string \<Rightarrow> string \<Rightarrow>
    tool_risk \<Rightarrow> go_any \<Rightarrow> run_ledger \<Rightarrow> memory_store \<Rightarrow> (call_decision lres \<times> run_ledger \<times> memory_store) option" where
  "RecordToolRequest sum256 now rounds callID name risk args l s =
     (case call_token_for sum256 callID name risk args l of Inl e \<Rightarrow> Some (Inl e, l, s)
      | Inr (v, t) \<Rightarrow> cas_loop sum256 rounds (record_attempt sum256 now v t) l s)"

definition begin_event :: "run_ledger \<Rightarrow> json \<Rightarrow> call_token \<Rightarrow> int \<Rightarrow> run_event" where
  "begin_event l args t attempt =
     ledger_event l event_call t (json_encode (call_payload_json args (tok_Read t) (tok_Effect t) attempt))"

text \<open>The end of a round that finds no obstacle: the call for the model, then the event that admits it.\<close>

definition admit_call :: "(string \<Rightarrow> string) \<Rightarrow> gotime \<Rightarrow> json \<Rightarrow> call_token \<Rightarrow> int \<Rightarrow> call_decision attempt_step" where
  "admit_call sum256 now args t attempt l s =
     (case appendToolCallConversation now l (tok_CallID t) (tok_ToolName t) args attempt s of
        (Inl e, s') \<Rightarrow> (Return (Inl e), l, s')
      | (Inr _, s') \<Rightarrow> and_return (dispatch_call t) (appendLedgerEvent sum256 now (begin_event l args t attempt) l s'))"

definition begin_attempt :: "(string \<Rightarrow> string) \<Rightarrow> gotime \<Rightarrow> json \<Rightarrow> call_token \<Rightarrow> call_decision attempt_step" where
  "begin_attempt sum256 now args t l s =
     (case map_of (rl_calls l) (tok_CallID t) of
        None \<Rightarrow> admit_call sum256 now args t 1 l s
      | Some state \<Rightarrow>
          (case (if cst_Requested state \<and> \<not> cst_Dispatched state then
                   (if cst_ToolName state \<noteq> tok_ToolName t \<or> cst_Read state \<noteq> tok_Read t \<or> cst_Effect state \<noteq> tok_Effect t
                    then Inl (CallIDConflict (tok_CallID t)) else Inr ())
                 else toolCallStateMatches state t) of
             Inl e \<Rightarrow> (Return (Inl e), l, s)
           | Inr _ \<Rightarrow>
          (case cst_Outcome state of
             Some outcome \<Rightarrow> replay_call now t args state outcome l s
           | None \<Rightarrow>
              if cst_Requested state \<and> \<not> cst_Dispatched state
              then and_return (dispatch_call t) (appendLedgerEvent sum256 now (begin_event l args t 1) l s)
              else (case appendToolCallConversation now l (tok_CallID t) (tok_ToolName t) args (cst_Attempts state) s of
                 (Inl e, s') \<Rightarrow> (Return (Inl e), l, s')
               | (Inr _, s') \<Rightarrow>
                  if cst_Effect state then (Return (Inl (IncompleteEffect (tok_CallID t))), l, s')
                  else if \<not> cst_Read state then (Return (Inl (IncompleteNonRead (tok_CallID t))), l, s')
                  else admit_call sum256 now args t (i64 (cst_Attempts state + 1)) l s'))))"

definition BeginToolCall :: "(string \<Rightarrow> string) \<Rightarrow> gotime \<Rightarrow> (memory_store \<Rightarrow> memory_store) list \<Rightarrow> string \<Rightarrow> string \<Rightarrow>
    tool_risk \<Rightarrow> (string \<times> json) list \<Rightarrow> run_ledger \<Rightarrow> memory_store \<Rightarrow> (call_decision lres \<times> run_ledger \<times> memory_store) option" where
  "BeginToolCall sum256 now rounds callID name risk args l s =
     (case call_token_for sum256 callID name risk (AnyValue (JObject args)) l of Inl e \<Rightarrow> Some (Inl e, l, s)
      | Inr (v, t) \<Rightarrow> cas_loop sum256 rounds (begin_attempt sum256 now v t) l s)"

subsection \<open>Finishing a call\<close>

text \<open>The outcome that is stored for what an invocation returned: a cancellation is replaced by a
  bounded result of the server's own.\<close>

definition final_outcome :: "call_token \<Rightarrow> json \<Rightarrow> string \<Rightarrow> invoke_error option \<Rightarrow> plan_snapshot option \<Rightarrow> tool_outcome lres" where
  "final_outcome t args result invokeErr plan =
     (let canceled = toolCancellation invokeErr;
          persistResult = (if canceled then toolCanceledResultJSON (tok_ToolName t) args else result);
          persistErr = (if canceled then None else invokeErr);
          persistPlan = (if canceled then None else plan);
          disposition = (if canceled then DispositionFailed
            else toolResultDisposition (tok_ToolName t) persistResult (persistErr \<noteq> None));
          outcome = \<lparr>oc_Result = persistResult, oc_Error = (case persistErr of None \<Rightarrow> [] | Some e \<Rightarrow> ive_Text e),
            oc_Failed = (persistErr \<noteq> None \<or> canceled), oc_Canceled = canceled, oc_Disposition = disposition,
            oc_PlanSnapshot = None\<rparr>
      in case persistPlan of
           None \<Rightarrow> Inr outcome
         | Some p \<Rightarrow>
             if toolBaseName (tok_ToolName t) \<noteq> ''write_todos'' then Inl (PlanRefused ''only valid for write_todos'')
             else if \<not> Succeeded outcome then Inl (PlanRefused ''requires a successful result'')
             else if \<not> planSnapshotValid p then Inl (PlanRefused ''invalid'')
             else Inr (outcome\<lparr>oc_PlanSnapshot := Some p\<rparr>))"

definition finish_attempt :: "(string \<Rightarrow> string) \<Rightarrow> gotime \<Rightarrow> call_token \<Rightarrow> string \<Rightarrow> invoke_error option \<Rightarrow>
    plan_snapshot option \<Rightarrow> tool_outcome attempt_step" where
  "finish_attempt sum256 now t result invokeErr plan l s =
     (case map_of (rl_calls l) (trim_space (tok_CallID t)) of
        None \<Rightarrow> (Return (Inl (LedgerCorrupt ''result has no preceding call event'')), l, s)
      | Some state \<Rightarrow>
          if cst_ToolName state \<noteq> tok_ToolName t \<or> cst_ArgsDigest state \<noteq> tok_ArgsDigest t \<or>
             cst_Read state \<noteq> tok_Read t \<or> cst_Effect state \<noteq> tok_Effect t
          then (Return (Inl (CallIDConflict (tok_CallID t))), l, s)
          else case cst_Outcome state of
            Some persisted \<Rightarrow>
              (case appendToolResultConversation now l (tok_CallID t) (tok_ToolName t) persisted s of
                 (Inl e, s') \<Rightarrow> (Return (Inl e), l, s') | (Inr _, s') \<Rightarrow> (Return (Inr persisted), l, s'))
          | None \<Rightarrow>
              (case final_outcome t (cst_Arguments state) result invokeErr plan of
                 Inl e \<Rightarrow> (Return (Inl e), l, s)
               | Inr outcome \<Rightarrow>
                  (case appendLedgerEvent sum256 now
                      (ledger_event l event_result t (json_encode (result_payload_json outcome))) l s of
                     (Return (Inr _), l', s1) \<Rightarrow>
                       (case appendToolResultConversation now l' (tok_CallID t) (tok_ToolName t) outcome s1 of
                          (Inl e, s2) \<Rightarrow> (Return (Inl e), l', s2) | (Inr _, s2) \<Rightarrow> (Return (Inr outcome), l', s2))
                   | (Return (Inl e), l', s1) \<Rightarrow> (Return (Inl e), l', s1)
                   | (Retry, l', s1) \<Rightarrow> (Retry, l', s1))))"

definition finishToolCall :: "(string \<Rightarrow> string) \<Rightarrow> gotime \<Rightarrow> (memory_store \<Rightarrow> memory_store) list \<Rightarrow> call_token \<Rightarrow> string \<Rightarrow>
    invoke_error option \<Rightarrow> plan_snapshot option \<Rightarrow> run_ledger \<Rightarrow> memory_store \<Rightarrow> (tool_outcome lres \<times> run_ledger \<times> memory_store) option" where
  "finishToolCall sum256 now rounds t result invokeErr plan l s =
     (if blank (rl_runID l) then Some (Inl NotConfigured, l, s)
      else cas_loop sum256 rounds (finish_attempt sum256 now t result invokeErr plan) l s)"

definition FinishToolCall :: "(string \<Rightarrow> string) \<Rightarrow> gotime \<Rightarrow> (memory_store \<Rightarrow> memory_store) list \<Rightarrow> call_token \<Rightarrow> string \<Rightarrow>
    invoke_error option \<Rightarrow> run_ledger \<Rightarrow> memory_store \<Rightarrow> (tool_outcome lres \<times> run_ledger \<times> memory_store) option" where
  "FinishToolCall sum256 now rounds t result invokeErr l s = finishToolCall sum256 now rounds t result invokeErr None l s"

definition FinishToolCallWithPlan :: "(string \<Rightarrow> string) \<Rightarrow> gotime \<Rightarrow> (memory_store \<Rightarrow> memory_store) list \<Rightarrow> call_token \<Rightarrow> string \<Rightarrow>
    invoke_error option \<Rightarrow> plan_snapshot option \<Rightarrow> run_ledger \<Rightarrow> memory_store \<Rightarrow> (tool_outcome lres \<times> run_ledger \<times> memory_store) option" where
  "FinishToolCallWithPlan sum256 now rounds t result invokeErr plan l s =
     finishToolCall sum256 now rounds t result invokeErr plan l s"

subsection \<open>Reading the ledger\<close>

definition LatestPlanSnapshot :: "(string \<Rightarrow> string) \<Rightarrow> run_ledger \<Rightarrow> memory_store \<Rightarrow> plan_snapshot option lres \<times> run_ledger" where
  "LatestPlanSnapshot sum256 l s =
     (case refreshLocked sum256 s l of (Some e, l') \<Rightarrow> (Inl e, l') | (None, l') \<Rightarrow> (Inr (rl_latestPlanSnapshot l'), l'))"

definition SettledToolCall :: "(string \<Rightarrow> string) \<Rightarrow> string \<Rightarrow> string \<Rightarrow> run_ledger \<Rightarrow> memory_store \<Rightarrow>
    ((string \<times> json) list \<times> tool_outcome) option lres \<times> run_ledger" where
  "SettledToolCall sum256 callID0 toolName0 l s =
     (let callID = trim_space callID0; toolName = toolKey toolName0 in
      case refreshLocked sum256 s l of (Some e, l') \<Rightarrow> (Inl e, l')
      | (None, l') \<Rightarrow>
         (case map_of (rl_calls l') callID of
            None \<Rightarrow> (Inr None, l')
          | Some state \<Rightarrow>
             (case cst_Outcome state of
                None \<Rightarrow> (Inr None, l')
              | Some outcome \<Rightarrow>
                 if cst_ToolName state \<noteq> toolName then (Inl (CallIDConflict callID), l')
                 else case cst_Arguments state of
                   JObject kvs \<Rightarrow> (Inr (Some (kvs, outcome)), l')
                 | JNull \<Rightarrow> (Inr (Some ([], outcome)), l')
                 | _ \<Rightarrow> (Inl (LedgerCorrupt ''arguments are invalid''), l'))))"

definition ToolCallOutcome :: "(string \<Rightarrow> string) \<Rightarrow> string \<Rightarrow> run_ledger \<Rightarrow> memory_store \<Rightarrow> tool_outcome option lres \<times> run_ledger" where
  "ToolCallOutcome sum256 callID0 l s =
     (let callID = trim_space callID0;
          settled = (\<lambda>m. case map_of (rl_calls m) callID of Some state \<Rightarrow> cst_Outcome state | None \<Rightarrow> None)
      in case settled l of Some outcome \<Rightarrow> (Inr (Some outcome), l)
         | None \<Rightarrow> (case refreshLocked sum256 s l of (Some e, l') \<Rightarrow> (Inl e, l') | (None, l') \<Rightarrow> (Inr (settled l'), l')))"

definition RecoverDanglingToolCall :: "(string \<Rightarrow> string) \<Rightarrow> string \<Rightarrow> string \<Rightarrow> run_ledger \<Rightarrow> memory_store \<Rightarrow> string lres \<times> run_ledger" where
  "RecoverDanglingToolCall sum256 callID0 toolName0 l s =
     (let callID = trim_space callID0; toolName = toolKey toolName0 in
      if callID = [] \<or> toolName = [] then (Inl (LedgerCorrupt ''dangling tool call identity is incomplete''), l)
      else case refreshLocked sum256 s l of (Some e, l') \<Rightarrow> (Inl e, l')
      | (None, l') \<Rightarrow>
         (case map_of (rl_calls l') callID of
            None \<Rightarrow> (Inl (LedgerCorrupt ''dangling call has no durable ledger entry''), l')
          | Some state \<Rightarrow>
             if cst_ToolName state \<noteq> toolName then (Inl (CallIDConflict callID), l')
             else case cst_Outcome state of
               Some outcome \<Rightarrow>
                 if oc_Result outcome \<noteq> [] \<or> \<not> oc_Failed outcome then (Inr (oc_Result outcome), l')
                 else (Inr (''Tool call failed: '' @ oc_Error outcome), l')
             | None \<Rightarrow>
                 if \<not> cst_Dispatched state then
                   (Inr ''Tool call was not durably admitted and was not dispatched. Submit a new call if it is still needed.'', l')
                 else if cst_Effect state then (Inl (IncompleteEffect callID), l')
                 else if \<not> cst_Read state then (Inl (IncompleteNonRead callID), l')
                 else (Inr ''The prior read result was not recorded. It is safe to issue a new read call if the information is still needed.'', l')))"

end
