(* ===== verification/Assistant_Ledger_Codec.thy ===== *)
theory Assistant_Ledger_Codec
  imports Assistant_Ledger_Ops
begin

section \<open>App Studio assistant: the payloads of the ledger read back what was written\<close>

text \<open>
  The round trips of the two payloads of the ledger's events: the flags and the attempt of a call
  come back as written, and the outcome that \<open>FinishToolCall\<close> stores settles, when the event is
  applied, as that outcome with its texts coerced to UTF-8.
\<close>

subsection \<open>Field names\<close>

lemma coerce_names [simp]:
  "coerce_utf8 ''arguments'' = ''arguments''" "coerce_utf8 ''read'' = ''read''" "coerce_utf8 ''effect'' = ''effect''"
  "coerce_utf8 ''attempt'' = ''attempt''" "coerce_utf8 ''result'' = ''result''" "coerce_utf8 ''error'' = ''error''"
  "coerce_utf8 ''failed'' = ''failed''" "coerce_utf8 ''canceled'' = ''canceled''"
  "coerce_utf8 ''disposition'' = ''disposition''" "coerce_utf8 ''planSnapshot'' = ''planSnapshot''"
  "coerce_utf8 ''steps'' = ''steps''" "coerce_utf8 ''content'' = ''content''"
  "coerce_utf8 ''activeForm'' = ''activeForm''" "coerce_utf8 ''status'' = ''status''"
  by (rule coerce_utf8_ascii, code_simp)+

subsection \<open>Calls\<close>

lemma call_selects:
  "selects [''arguments'', ''read'', ''effect'', ''attempt''] ''arguments'' ''arguments''"
  "selects [''arguments'', ''read'', ''effect'', ''attempt''] ''read'' ''read''"
  "selects [''arguments'', ''read'', ''effect'', ''attempt''] ''effect'' ''effect''"
  "selects [''arguments'', ''read'', ''effect'', ''attempt''] ''attempt'' ''attempt''"
  by code_simp+

lemma call_payload_roundtrip:
  assumes "json_fits n args" "n < max_depth" "min_i64 \<le> attempt" "attempt \<le> max_i64"
  shows "decode_call_payload (json_encode (call_payload_json args rd eff attempt)) =
    Some \<lparr>clp_Arguments = Some (json_coerce args), clp_Read = rd, clp_Effect = eff, clp_Attempt = attempt\<rparr>"
proof -
  define fs where "fs = [(''arguments'', args), (''read'', JBool rd), (''effect'', JBool eff), (''attempt'', JNumber (show_int attempt))]"
  define gs where "gs = [(''arguments'', json_coerce args), (''read'', JBool rd), (''effect'', JBool eff), (''attempt'', JNumber (show_int attempt))]"
  have fits: "json_fits (Suc n) (JObject fs)" using assms(1) by (simp add: fs_def isValidNumber_show_int)
  have gs: "coerce_fields fs = gs" by (simp add: fs_def gs_def)
  have keys: "map fst gs = [''arguments'', ''read'', ''effect'', ''attempt'']" by (simp add: gs_def)
  have dist: "distinct (map fst gs)" unfolding keys by simp
  note field = selected_field [of gs, unfolded keys, OF _ dist [unfolded keys]]
  have "decode_object (json_encode (JObject fs)) = Some (canonical_fields (rev gs))"
    using decode_encoded [OF fits] assms(2) gs by simp
  moreover have "bool_field ''read'' (canonical_fields (rev gs)) = Some rd"
    unfolding bool_field_def field [OF call_selects(2)] by (simp add: gs_def)
  moreover have "bool_field ''effect'' (canonical_fields (rev gs)) = Some eff"
    unfolding bool_field_def field [OF call_selects(3)] by (simp add: gs_def)
  moreover have "int_field ''attempt'' (canonical_fields (rev gs)) = Some attempt"
    unfolding int_field_def field [OF call_selects(4)] using parse_show_int [OF assms(3,4)] by (simp add: gs_def)
  moreover have "raw_field ''arguments'' (canonical_fields (rev gs)) = Some (json_coerce args)"
    using selected_raw [of gs, unfolded keys, OF call_selects(1) dist [unfolded keys]] by (simp add: gs_def)
  ultimately show ?thesis by (simp add: decode_call_payload_def call_payload_json_def fs_def [symmetric])
qed

subsection \<open>Plans\<close>

lemma utf8_valid_coerce: "utf8_valid s \<Longrightarrow> coerce_utf8 s = s"
proof (induction s rule: utf8_valid.induct)
  case (1 s)
  then show ?case by (cases "s = []") (auto simp: coerce_utf8.simps [of "[]"] coerce_utf8.simps [of s] utf8_valid.simps [of s] split: if_splits)
qed

lemma step_selects:
  "selects [''content'', ''activeForm'', ''status''] ''content'' ''content''"
  "selects [''content'', ''activeForm'', ''status''] ''activeform'' ''activeForm''"
  "selects [''content'', ''activeForm'', ''status''] ''status'' ''status''"
  "selects [''content'', ''status''] ''content'' ''content''"
  "selects [''content'', ''status''] ''activeform'' ''activeForm''"
  "selects [''content'', ''status''] ''status'' ''status''"
  "selects [''steps''] ''steps'' ''steps''"
  by code_simp+

definition clean_step :: "plan_step \<Rightarrow> bool" where
  "clean_step st \<longleftrightarrow> coerce_utf8 (pst_Content st) = pst_Content st \<and> coerce_utf8 (pst_ActiveForm st) = pst_ActiveForm st \<and>
     coerce_utf8 (pst_Status st) = pst_Status st"

lemma status_names [simp]:
  "coerce_utf8 ''pending'' = ''pending''" "coerce_utf8 ''completed'' = ''completed''" "coerce_utf8 ''in_progress'' = ''in_progress''"
  "coerce_utf8 ''succeeded'' = ''succeeded''"
  by (rule coerce_utf8_ascii, code_simp)+

lemma valid_steps_clean: "plan_steps_valid plan k \<Longrightarrow> list_all clean_step plan"
  by (induction plan k rule: plan_steps_valid.induct)
    (auto simp: clean_step_def planLabelValid_def utf8_valid_coerce split: if_splits)

lemma decode_plan_steps:
  "list_all clean_step plan \<Longrightarrow> decode_steps (coerce_elems (map plan_step_json plan)) = Some plan"
proof (induction plan)
  case (Cons st plan)
  then have c: "coerce_utf8 (pst_Content st) = pst_Content st" "coerce_utf8 (pst_ActiveForm st) = pst_ActiveForm st"
    "coerce_utf8 (pst_Status st) = pst_Status st" by (simp_all add: clean_step_def)
  define gs where "gs = [(''content'', JString (pst_Content st))] @
     (if pst_ActiveForm st = [] then [] else [(''activeForm'', JString (pst_ActiveForm st))]) @ [(''status'', JString (pst_Status st))]"
  have enc: "json_coerce (plan_step_json st) = JObject (canonical_fields (rev gs))"
    using c by (simp add: plan_step_json_def gs_def)
  have "string_field ''content'' (canonical_fields (rev gs)) = Some (pst_Content st) \<and>
      string_field ''activeform'' (canonical_fields (rev gs)) = Some (pst_ActiveForm st) \<and>
      string_field ''status'' (canonical_fields (rev gs)) = Some (pst_Status st)"
  proof (cases "pst_ActiveForm st = []")
    case True
    then have keys: "map fst gs = [''content'', ''status'']" by (simp add: gs_def)
    have dist: "distinct (map fst gs)" unfolding keys by simp
    note field = selected_field [of gs, unfolded keys, OF _ dist [unfolded keys]]
    show ?thesis unfolding string_field_def field [OF step_selects(4)] field [OF step_selects(5)] field [OF step_selects(6)]
      using True by (simp add: gs_def)
  next
    case False
    then have keys: "map fst gs = [''content'', ''activeForm'', ''status'']" by (simp add: gs_def)
    have dist: "distinct (map fst gs)" unfolding keys by simp
    note field = selected_field [of gs, unfolded keys, OF _ dist [unfolded keys]]
    show ?thesis unfolding string_field_def field [OF step_selects(1)] field [OF step_selects(2)] field [OF step_selects(3)]
      using False by (simp add: gs_def)
  qed
  then show ?case using Cons enc by simp
qed simp

lemma read_coerced_plan:
  assumes "planSnapshotValid plan"
  shows "read_plans [json_coerce (plan_json plan)] None = Some (Some plan)"
proof -
  have "list_all clean_step plan" using assms valid_steps_clean by (auto simp: planSnapshotValid_def split: if_splits)
  note steps = decode_plan_steps [OF this]
  define gs where "gs = [(''steps'', JArray (coerce_elems (map plan_step_json plan)))]"
  have enc: "json_coerce (plan_json plan) = JObject (canonical_fields (rev gs))" by (simp add: plan_json_def gs_def)
  have keys: "map fst gs = [''steps'']" by (simp add: gs_def)
  have dist: "distinct (map fst gs)" unfolding keys by simp
  have "struct_fields ''steps'' (canonical_fields (rev gs)) = [JArray (coerce_elems (map plan_step_json plan))]"
    using selected_field [of gs, unfolded keys, OF step_selects(7) dist [unfolded keys]] by (simp add: gs_def)
  then show ?thesis using steps by (simp add: enc)
qed

subsection \<open>Outcomes\<close>

text \<open>An outcome as the log keeps it.\<close>

definition durable :: "tool_outcome \<Rightarrow> tool_outcome" where
  "durable oc = (if oc_Canceled oc then oc
     else oc\<lparr>oc_Result := coerce_utf8 (oc_Result oc), oc_Error := coerce_utf8 (oc_Error oc)\<rparr>)"

definition clean_outcome :: "tool_outcome \<Rightarrow> bool" where
  "clean_outcome oc \<longleftrightarrow> utf8_valid (oc_Result oc) \<and> utf8_valid (oc_Error oc)"

lemma durable_clean: "clean_outcome oc \<Longrightarrow> durable oc = oc"
  by (simp add: durable_def clean_outcome_def utf8_valid_coerce)

definition outcome_keys :: "bool \<Rightarrow> bool \<Rightarrow> string list" where
  "outcome_keys canceled plan = [''result'', ''error'', ''failed''] @ (if canceled then [''canceled''] else []) @
     [''disposition''] @ (if plan then [''planSnapshot''] else [])"

lemma all_outcome_selects:
  "selects (outcome_keys True True) ''result'' ''result''"
  "selects (outcome_keys True True) ''error'' ''error''"
  "selects (outcome_keys True True) ''failed'' ''failed''"
  "selects (outcome_keys True True) ''canceled'' ''canceled''"
  "selects (outcome_keys True True) ''disposition'' ''disposition''"
  "selects (outcome_keys True True) ''plansnapshot'' ''planSnapshot''"
  by code_simp+

lemma selects_fewer: "selects (outcome_keys True True) name key \<Longrightarrow> selects (outcome_keys c p) name key"
  by (auto simp: selects_def outcome_keys_def)

lemmas outcome_selects = all_outcome_selects [THEN selects_fewer]

lemma elems_fit_plan: "elems_fit 1 (map plan_step_json plan)"
  by (induction plan) (auto simp: plan_step_json_def)

lemma outcome_payload_roundtrip:
  assumes disp: "oc_Disposition oc \<noteq> []" "coerce_utf8 (oc_Disposition oc) = oc_Disposition oc"
    and plan: "case oc_PlanSnapshot oc of None \<Rightarrow> True | Some p \<Rightarrow> planSnapshotValid p"
  shows "decode_result_payload (json_encode (result_payload_json oc)) =
    Some (oc\<lparr>oc_Result := coerce_utf8 (oc_Result oc), oc_Error := coerce_utf8 (oc_Error oc)\<rparr>)"
proof -
  define fs where "fs = [(''result'', JString (oc_Result oc)), (''error'', JString (oc_Error oc)), (''failed'', JBool (oc_Failed oc))] @
       (if oc_Canceled oc then [(''canceled'', JBool True)] else []) @
       [(''disposition'', JString (oc_Disposition oc))] @
       (case oc_PlanSnapshot oc of None \<Rightarrow> [] | Some p \<Rightarrow> [(''planSnapshot'', plan_json p)])"
  define gs where "gs = [(''result'', JString (coerce_utf8 (oc_Result oc))), (''error'', JString (coerce_utf8 (oc_Error oc))),
       (''failed'', JBool (oc_Failed oc))] @
       (if oc_Canceled oc then [(''canceled'', JBool True)] else []) @
       [(''disposition'', JString (oc_Disposition oc))] @
       (case oc_PlanSnapshot oc of None \<Rightarrow> [] | Some p \<Rightarrow> [(''planSnapshot'', json_coerce (plan_json p))])"
  have enc: "result_payload_json oc = JObject fs" using disp(1) by (simp add: result_payload_json_def fs_def split: option.splits)
  have fits: "json_fits 4 (JObject fs)"
    using elems_fit_plan by (auto simp: fs_def plan_json_def numeral_eq_Suc split: option.splits)
  have gs: "coerce_fields fs = gs" using disp(2) by (auto simp: fs_def gs_def split: option.splits)
  have keys: "map fst gs = outcome_keys (oc_Canceled oc) (oc_PlanSnapshot oc \<noteq> None)"
    by (auto simp: gs_def outcome_keys_def split: option.splits)
  have dist: "distinct (map fst gs)" unfolding keys by (simp add: outcome_keys_def)
  note field = selected_field [of gs, unfolded keys, OF _ dist [unfolded keys]]
  have dec: "decode_object (json_encode (JObject fs)) = Some (canonical_fields (rev gs))"
    using decode_encoded [OF fits] gs by (simp add: max_depth_def)
  have look: "map_of gs ''result'' = Some (JString (coerce_utf8 (oc_Result oc)))"
    "map_of gs ''error'' = Some (JString (coerce_utf8 (oc_Error oc)))"
    "map_of gs ''failed'' = Some (JBool (oc_Failed oc))"
    "map_of gs ''canceled'' = (if oc_Canceled oc then Some (JBool True) else None)"
    "map_of gs ''disposition'' = Some (JString (oc_Disposition oc))"
    "map_of gs ''planSnapshot'' = map_option (\<lambda>p. json_coerce (plan_json p)) (oc_PlanSnapshot oc)"
    by (auto simp: gs_def split: option.splits)
  have plans: "read_plans (struct_fields ''plansnapshot'' (canonical_fields (rev gs))) None = Some (oc_PlanSnapshot oc)"
  proof (cases "oc_PlanSnapshot oc")
    case None
    then show ?thesis unfolding field [OF outcome_selects(6)] look by simp
  next
    case (Some p)
    then have "read_plans [json_coerce (plan_json p)] None = Some (Some p)" using plan read_coerced_plan by simp
    moreover have "json_coerce (plan_json p) \<noteq> JNull" by (simp add: plan_json_def)
    ultimately show ?thesis unfolding field [OF outcome_selects(6)] look using Some by simp
  qed
  let ?kvs = "canonical_fields (rev gs)"
  have "string_field ''result'' ?kvs = Some (coerce_utf8 (oc_Result oc))"
    unfolding string_field_def field [OF outcome_selects(1)] look by simp
  moreover have "string_field ''error'' ?kvs = Some (coerce_utf8 (oc_Error oc))"
    unfolding string_field_def field [OF outcome_selects(2)] look by simp
  moreover have "bool_field ''failed'' ?kvs = Some (oc_Failed oc)"
    unfolding bool_field_def field [OF outcome_selects(3)] look by simp
  moreover have "bool_field ''canceled'' ?kvs = Some (oc_Canceled oc)"
    unfolding bool_field_def field [OF outcome_selects(4)] look by simp
  moreover have "string_field ''disposition'' ?kvs = Some (oc_Disposition oc)"
    unfolding string_field_def field [OF outcome_selects(5)] look by simp
  ultimately show ?thesis using dec plans by (simp add: enc decode_result_payload_def)
qed

text \<open>What \<open>FinishToolCall\<close> stores settles as what it stored.\<close>

lemma final_outcome_shape:
  assumes "final_outcome t args result err plan = Inr oc"
  shows "oc_Disposition oc \<in> {DispositionSucceeded, DispositionFailed}"
    "case oc_PlanSnapshot oc of None \<Rightarrow> True
     | Some p \<Rightarrow> planSnapshotValid p \<and> \<not> oc_Canceled oc \<and> toolBaseName (tok_ToolName t) = ''write_todos'' \<and> Succeeded oc \<and> \<not> oc_Failed oc"
    "oc_Canceled oc \<Longrightarrow> oc_Result oc = toolCanceledResultJSON (tok_ToolName t) args \<and> oc_Error oc = [] \<and> oc_Failed oc \<and>
       oc_Disposition oc = DispositionFailed"
proof -
  have d: "toolResultDisposition n c e \<noteq> DispositionFailed \<Longrightarrow> toolResultDisposition n c e = DispositionSucceeded" for n c e
    by (auto simp: toolResultDisposition_def simp del: field_failed.simps split: option.splits if_splits)
  have f: "\<not> e" if "toolResultDisposition n c e = DispositionSucceeded" for n c e
    using that by (auto simp: toolResultDisposition_def DispositionSucceeded_def DispositionFailed_def)
  show "oc_Disposition oc \<in> {DispositionSucceeded, DispositionFailed}"
    using assms by (auto simp: final_outcome_def Let_def intro: d split: option.splits if_splits)
  show "case oc_PlanSnapshot oc of None \<Rightarrow> True
     | Some p \<Rightarrow> planSnapshotValid p \<and> \<not> oc_Canceled oc \<and> toolBaseName (tok_ToolName t) = ''write_todos'' \<and> Succeeded oc \<and> \<not> oc_Failed oc"
    using assms f by (auto simp: final_outcome_def Let_def Succeeded_def split: option.splits if_splits)
  show "oc_Canceled oc \<Longrightarrow> oc_Result oc = toolCanceledResultJSON (tok_ToolName t) args \<and> oc_Error oc = [] \<and> oc_Failed oc \<and>
       oc_Disposition oc = DispositionFailed"
    using assms by (auto simp: final_outcome_def Let_def split: option.splits if_splits)
qed

lemma finished_settles:
  assumes "final_outcome t args result err plan = Inr oc"
  shows "\<exists>payload. decode_result_payload (json_encode (result_payload_json oc)) = Some payload \<and>
    settle_outcome (tok_ToolName t) args payload = Inr (durable oc)"
proof -
  note sh = final_outcome_shape [OF assms]
  have disp: "oc_Disposition oc \<noteq> []" "coerce_utf8 (oc_Disposition oc) = oc_Disposition oc"
    using sh(1) by (auto simp: DispositionSucceeded_def DispositionFailed_def)
  have plan: "case oc_PlanSnapshot oc of None \<Rightarrow> True | Some p \<Rightarrow> planSnapshotValid p"
    using sh(2) by (auto split: option.splits)
  let ?p = "oc\<lparr>oc_Result := coerce_utf8 (oc_Result oc), oc_Error := coerce_utf8 (oc_Error oc)\<rparr>"
  have "settle_outcome (tok_ToolName t) args ?p = Inr (durable oc)"
  proof (cases "oc_Canceled oc")
    case True
    then have "oc_PlanSnapshot oc = None" using sh(2) by (cases "oc_PlanSnapshot oc") auto
    moreover have "?p\<lparr>oc_Result := toolCanceledResultJSON (tok_ToolName t) args, oc_Error := [], oc_Failed := True,
        oc_Disposition := DispositionFailed\<rparr> = oc" using sh(3) [OF True] by (cases oc) simp
    ultimately show ?thesis using True disp(1) by (simp add: settle_outcome_def durable_def)
  next
    case False
    then show ?thesis using sh(2) disp(1) by (simp add: settle_outcome_def durable_def Succeeded_def split: option.splits)
  qed
  then show ?thesis using outcome_payload_roundtrip [OF disp plan] by blast
qed

end
