(* ===== verification/Assistant_Ledger_Replay.thy ===== *)
theory Assistant_Ledger_Replay
  imports Assistant_Ledger_Codec
begin

section \<open>App Studio assistant: a ledger is a replay of the log\<close>

text \<open>
  A ledger is a cache of the run's log: whatever happened before, a refresh leaves it as a new ledger
  would be after reading the whole log (\<open>refresh_replays\<close>). What a prefix of the log says of a call
  stays true of it (\<open>known\<close>), an append of a ledger that was behind the log writes nothing
  (\<open>appendLedgerEvent_effect\<close>), and the state of every call a ledger holds is well formed (\<open>call_ok\<close>).
\<close>

subsection \<open>A ledger is a replay of the log\<close>

definition fresh_ledger :: "scope \<Rightarrow> string \<Rightarrow> run_ledger" where
  "fresh_ledger sc rid = (newRunEventLedger sc rid)\<lparr>rl_loaded := True\<rparr>"

definition cached :: "(string \<Rightarrow> string) \<Rightarrow> run_event list \<Rightarrow> scope \<Rightarrow> string \<Rightarrow> run_ledger \<Rightarrow> bool" where
  "cached sum256 log sc rid l \<longleftrightarrow>
     (\<exists>n \<le> length log. apply_events sum256 (take n log) (fresh_ledger sc rid) = (None, l))"

definition ledger_of :: "(string \<Rightarrow> string) \<Rightarrow> run_event list \<Rightarrow> scope \<Rightarrow> string \<Rightarrow> run_ledger \<Rightarrow> bool" where
  "ledger_of sum256 log sc rid l \<longleftrightarrow> l = newRunEventLedger sc rid \<or> cached sum256 log sc rid l"

lemma apply_events_append:
  "apply_events sum256 (xs @ ys) l = (case apply_events sum256 xs l of
     (Some e, m) \<Rightarrow> (Some e, m) | (None, m) \<Rightarrow> apply_events sum256 ys m)"
  by (induction xs arbitrary: l) (auto split: sum.splits)

lemma apply_events_prefix:
  "apply_events sum256 es l = (e, m) \<Longrightarrow> \<exists>n \<le> length es. apply_events sum256 (take n es) l = (None, m)"
proof (induction es arbitrary: l)
  case (Cons x es)
  show ?case
  proof (cases "rev_Sequence x \<noteq> i64 (rl_lastSequence l + 1) \<or> isl (apply_event sum256 x l)")
    case True
    then have "m = l" using Cons.prems by (auto split: if_splits sum.splits)
    then show ?thesis by (intro exI [of _ 0]) simp
  next
    case False
    then obtain l1 where l1: "apply_event sum256 x l = Inr l1" by (cases "apply_event sum256 x l") auto
    then obtain n where "n \<le> length es" "apply_events sum256 (take n es) l1 = (None, m)"
      using Cons False by auto
    then show ?thesis using False l1 by (intro exI [of _ "Suc n"]) simp
  qed
qed simp

lemma fresh_simps [simp]:
  "rl_scope (fresh_ledger sc rid) = sc" "rl_runID (fresh_ledger sc rid) = trim_space rid"
  "rl_loaded (fresh_ledger sc rid)" "rl_lastSequence (fresh_ledger sc rid) = 0" "rl_calls (fresh_ledger sc rid) = []"
  by (simp_all add: fresh_ledger_def newRunEventLedger_def)

lemma apply_events_keep:
  "apply_events sum256 es l = (e, m) \<Longrightarrow> rl_scope m = rl_scope l \<and> rl_runID m = rl_runID l \<and> rl_loaded m = rl_loaded l"
proof (induction es arbitrary: l)
  case (Cons x es)
  show ?case
  proof (cases "rev_Sequence x \<noteq> i64 (rl_lastSequence l + 1) \<or> isl (apply_event sum256 x l)")
    case True
    then have "m = l" using Cons.prems by (auto split: if_splits sum.splits)
    then show ?thesis by simp
  next
    case False
    then obtain l1 where l1: "apply_event sum256 x l = Inr l1" by (cases "apply_event sum256 x l") auto
    then have "apply_events sum256 es l1 = (e, m)" using Cons.prems False by simp
    then show ?thesis using Cons.IH [of l1] apply_event_keeps(1-3) [OF l1] by simp
  qed
qed simp

text \<open>Over a numbered log the last sequence is the number of events applied.\<close>

lemma replay_last:
  assumes "numbered rev_Sequence log" "n \<le> length log" "apply_events sum256 (take n log) (fresh_ledger sc rid) = (None, l)"
  shows "rl_lastSequence l = int n"
  using assms(2,3)
proof (induction n arbitrary: l)
  case (Suc n)
  then have split: "take (Suc n) log = take n log @ [log ! n]" by (simp add: take_Suc_conv_app_nth)
  obtain m where m: "apply_events sum256 (take n log) (fresh_ledger sc rid) = (None, m)" "apply_events sum256 [log ! n] m = (None, l)"
    using Suc.prems(2) unfolding split apply_events_append by (auto split: prod.splits option.splits)
  from m(2) have "apply_event sum256 (log ! n) m = Inr l" by (auto split: if_splits sum.splits)
  then have "rl_lastSequence l = rev_Sequence (log ! n)" by (rule apply_event_keeps)
  then show ?case using numbered_nth [OF assms(1), of n] Suc.prems(1) by simp
qed simp

lemma cachedD:
  assumes "cached sum256 log sc rid l" "numbered rev_Sequence log"
  obtains n where "n \<le> length log" "apply_events sum256 (take n log) (fresh_ledger sc rid) = (None, l)"
    "rl_lastSequence l = int n" "rl_scope l = sc" "rl_runID l = trim_space rid" "rl_loaded l"
proof -
  obtain n where n: "n \<le> length log" "apply_events sum256 (take n log) (fresh_ledger sc rid) = (None, l)"
    using assms(1) by (auto simp: cached_def)
  then show thesis using that [OF n] replay_last [OF assms(2) n] apply_events_keep [OF n(2)] by simp
qed

text \<open>Where the run exists, the pages of the log are its consecutive parts.\<close>

definition run_ready :: "memory_store \<Rightarrow> scope \<Rightarrow> string \<Rightarrow> bool" where
  "run_ready s sc rid \<longleftrightarrow> scope_validate sc = Inr () \<and> trim_space rid \<noteq> [] \<and>
     map_of (inner (assistantRuns s) sc) (trim_space rid) \<noteq> None \<and> log_wf rev_Sequence (run_log s sc (trim_space rid))"

lemma page_of_log:
  assumes "run_ready s sc rid"
  shows "ListAssistantRunEvents sc (trim_space rid) (int n) 500 s = Inr (take 500 (drop n (run_log s sc (trim_space rid))))"
proof -
  have rid: "trim_space (trim_space rid) = trim_space rid" by simp
  show ?thesis
    using list_run_events_resumes [of s sc "trim_space rid" "()" "int n" 500] assms
    unfolding run_ready_def rid by (simp add: normalizeLimit_def)
qed

lemma refresh_loop_replays:
  assumes "run_ready s sc rid" "rl_scope l = sc" "rl_runID l = trim_space rid" "rl_lastSequence l = int n"
    "n \<le> length (run_log s sc (trim_space rid))"
  shows "refresh_loop sum256 s l = apply_events sum256 (drop n (run_log s sc (trim_space rid))) l"
  using assms(2-)
proof (induction "length (run_log s sc (trim_space rid)) - n" arbitrary: l n rule: less_induct)
  case less
  let ?log = "run_log s sc (trim_space rid)" and ?page = "take 500 (drop n (run_log s sc (trim_space rid)))"
  note unfold = refresh_loop.simps [of sum256 s l, unfolded less.prems(1-3) page_of_log [OF assms(1)]]
  show ?case
  proof (cases "?page = []")
    case True
    then show ?thesis unfolding unfold by simp
  next
    case False
    have parts: "drop n ?log = ?page @ drop (n + length ?page) ?log"
    proof (cases "length ?log - n \<le> 500")
      case False
      then show ?thesis using append_take_drop_id [of 500 "drop n ?log"] by (simp add: add.commute)
    qed simp
    show ?thesis
    proof (cases "apply_events sum256 ?page l")
      case (Pair e m)
      show ?thesis
      proof (cases e)
        case (Some x)
        then show ?thesis using False Pair unfolding unfold by (subst parts) (simp add: apply_events_append)
      next
        case None
        then have ok: "apply_events sum256 ?page l = (None, m)" using Pair by simp
        have num: "numbered rev_Sequence ?log" and fit: "int (length ?log) \<le> max_i64"
          using assms(1) by (simp_all add: run_ready_def log_wf_def)
        have later: "\<forall>e \<in> set ?page. int n < rev_Sequence e"
        proof
          fix e assume "e \<in> set ?page"
          then obtain i where "i < length ?log - n" "e = ?log ! (n + i)"
            by (metis in_set_takeD in_set_conv_nth length_drop nth_drop less.prems(4))
          then show "int n < rev_Sequence e" using numbered_nth [OF num, of "n + i"] by simp
        qed
        have m: "rl_lastSequence m = int (n + length ?page)" "rl_scope m = sc" "rl_runID m = trim_space rid"
          using apply_events_increase [OF ok later] less.prems fit by simp_all
        have le: "n + length ?page \<le> length ?log" using less.prems(4) by simp
        show ?thesis
        proof (cases "length ?page < 500")
          case True
          then have "drop (n + length ?page) ?log = []" by simp
          then show ?thesis using True False ok unfolding unfold by (subst parts) (simp add: apply_events_append)
        next
          case full: False
          have "refresh_loop sum256 s m = apply_events sum256 (drop (n + length ?page) ?log) m"
            using less.hyps [OF _ m(2,3,1) le] False full less.prems(4) by auto
          then show ?thesis using full False ok unfolding unfold by (subst parts) (simp add: apply_events_append)
        qed
      qed
    qed
  qed
qed

lemma refresh_replays:
  assumes "run_ready s sc rid" "ledger_of sum256 (run_log s sc (trim_space rid)) sc rid l"
  shows "refreshLocked sum256 s l = apply_events sum256 (run_log s sc (trim_space rid)) (fresh_ledger sc rid)"
proof (cases "l = newRunEventLedger sc rid")
  case True
  have "(newRunEventLedger sc rid)\<lparr>rl_calls := [], rl_lastSequence := 0, rl_loaded := True\<rparr> = fresh_ledger sc rid"
    "\<not> rl_loaded (newRunEventLedger sc rid)" by (simp_all add: fresh_ledger_def newRunEventLedger_def)
  then show ?thesis
    using True refresh_loop_replays [OF assms(1), of "fresh_ledger sc rid" 0] by (simp add: refreshLocked_def)
next
  case False
  then have "cached sum256 (run_log s sc (trim_space rid)) sc rid l" using assms(2) by (simp add: ledger_of_def)
  moreover have "numbered rev_Sequence (run_log s sc (trim_space rid))" using assms(1) by (simp add: run_ready_def log_wf_def)
  ultimately obtain n where n: "n \<le> length (run_log s sc (trim_space rid))"
    "apply_events sum256 (take n (run_log s sc (trim_space rid))) (fresh_ledger sc rid) = (None, l)"
    "rl_lastSequence l = int n" "rl_scope l = sc" "rl_runID l = trim_space rid" "rl_loaded l" by (rule cachedD)
  have "refreshLocked sum256 s l = apply_events sum256 (drop n (run_log s sc (trim_space rid))) l"
    using refresh_loop_replays [OF assms(1) n(4,5,3,1)] n(6) by (simp add: refreshLocked_def)
  also have "\<dots> = apply_events sum256 (take n (run_log s sc (trim_space rid)) @ drop n (run_log s sc (trim_space rid))) (fresh_ledger sc rid)"
    unfolding apply_events_append n(2) by simp
  finally show ?thesis by simp
qed

subsection \<open>Events only add knowledge\<close>

definition extends :: "call_state \<Rightarrow> call_state \<Rightarrow> bool" where
  "extends st st' \<longleftrightarrow> cst_ToolName st' = cst_ToolName st \<and> cst_Read st' = cst_Read st \<and> cst_Effect st' = cst_Effect st \<and>
     (cst_Dispatched st \<longrightarrow> cst_Dispatched st') \<and> (cst_Requested st \<longrightarrow> cst_Requested st') \<and>
     (cst_Outcome st \<noteq> None \<longrightarrow> cst_Outcome st' = cst_Outcome st)"

lemma extends_refl [simp]: "extends st st"
  by (simp add: extends_def)

lemma extends_trans: "extends st st' \<Longrightarrow> extends st' st'' \<Longrightarrow> extends st st''"
  by (auto simp: extends_def)

lemma apply_event_extends:
  assumes "apply_event sum256 e l = Inr l'" "map_of (rl_calls l) cid = Some st"
  shows "\<exists>st'. map_of (rl_calls l') cid = Some st' \<and> extends st st'"
  using assms(1)
proof (cases rule: apply_eventE)
  case other
  then show ?thesis using assms(2) by simp
next
  case (request m)
  from apply_requestD [OF request(3)] show ?thesis
    using request(2) assms(2) by (auto simp: extends_def split: option.splits)
next
  case (call m)
  from apply_callD [OF call(3)] show ?thesis
    using call(2) assms(2) by (auto simp: extends_def split: option.splits)
next
  case (result m)
  from apply_resultD [OF result(3)] show ?thesis
    using result(2) assms(2) by (auto simp: extends_def)
qed

lemma apply_events_extends:
  "apply_events sum256 es l = (e, l') \<Longrightarrow> map_of (rl_calls l) cid = Some st \<Longrightarrow>
   \<exists>st'. map_of (rl_calls l') cid = Some st' \<and> extends st st'"
proof (induction es arbitrary: l st)
  case (Cons x es)
  show ?case
  proof (cases "rev_Sequence x \<noteq> i64 (rl_lastSequence l + 1) \<or> isl (apply_event sum256 x l)")
    case True
    then have "l' = l" using Cons.prems(1) by (auto split: if_splits sum.splits)
    then show ?thesis using Cons.prems(2) by auto
  next
    case False
    then obtain l1 where l1: "apply_event sum256 x l = Inr l1" by (cases "apply_event sum256 x l") auto
    obtain st1 where st1: "map_of (rl_calls l1) cid = Some st1" "extends st st1"
      using apply_event_extends [OF l1 Cons.prems(2)] by blast
    have "apply_events sum256 es l1 = (e, l')" using Cons.prems(1) False l1 by simp
    then show ?thesis using Cons.IH [OF _ st1(1)] st1(2) extends_trans by blast
  qed
qed auto

text \<open>What some prefix of the log says of a call.\<close>

definition known :: "(string \<Rightarrow> string) \<Rightarrow> run_event list \<Rightarrow> scope \<Rightarrow> string \<Rightarrow> string \<Rightarrow> (call_state \<Rightarrow> bool) \<Rightarrow> bool" where
  "known sum256 log sc rid cid P \<longleftrightarrow> (\<exists>n \<le> length log. \<exists>l st. apply_events sum256 (take n log) (fresh_ledger sc rid) = (None, l) \<and>
     map_of (rl_calls l) cid = Some st \<and> P st)"

lemma known_append: "known sum256 log sc rid cid P \<Longrightarrow> known sum256 (log @ es) sc rid cid P"
  unfolding known_def by (metis length_append take_append trans_le_add1 diff_is_0_eq take0 append_Nil2)

lemma known_at:
  assumes "known sum256 log sc rid cid P" "apply_events sum256 log (fresh_ledger sc rid) = (None, l)"
  shows "\<exists>st st'. P st \<and> extends st st' \<and> map_of (rl_calls l) cid = Some st'"
proof -
  obtain n m st where n: "n \<le> length log" "apply_events sum256 (take n log) (fresh_ledger sc rid) = (None, m)"
    "map_of (rl_calls m) cid = Some st" "P st" using assms(1) by (auto simp: known_def)
  have "apply_events sum256 (take n log @ drop n log) (fresh_ledger sc rid) = (None, l)" using assms(2) by simp
  then have "apply_events sum256 (drop n log) m = (None, l)" unfolding apply_events_append n(2) by simp
  from apply_events_extends [OF this n(3)] show ?thesis using n(4) by blast
qed

text \<open>Two things known of a call are known of comparable states.\<close>

lemma known_both:
  assumes "known sum256 log sc rid cid P" "known sum256 log sc rid cid Q"
  shows "\<exists>st st' st''. P st \<and> Q st' \<and> extends st st'' \<and> extends st' st''"
proof -
  have later: "\<exists>st'. map_of (rl_calls l') cid = Some st' \<and> extends st st'"
    if "n \<le> m" "apply_events sum256 (take n log) (fresh_ledger sc rid) = (None, l)"
      "apply_events sum256 (take m log) (fresh_ledger sc rid) = (None, l')" "map_of (rl_calls l) cid = Some st" for n m l l' st
  proof -
    have split: "take m log = take n log @ drop n (take m log)" using that(1) by (metis append_take_drop_id min.absorb1 take_take)
    have "apply_events sum256 (take n log @ drop n (take m log)) (fresh_ledger sc rid) = (None, l')"
      unfolding split [symmetric] by (rule that(3))
    then have "apply_events sum256 (drop n (take m log)) l = (None, l')" unfolding apply_events_append that(2) by simp
    from apply_events_extends [OF this that(4)] show ?thesis .
  qed
  obtain n l st where n: "apply_events sum256 (take n log) (fresh_ledger sc rid) = (None, l)" "map_of (rl_calls l) cid = Some st" "P st"
    using assms(1) by (auto simp: known_def)
  obtain m l' st' where m: "apply_events sum256 (take m log) (fresh_ledger sc rid) = (None, l')" "map_of (rl_calls l') cid = Some st'" "Q st'"
    using assms(2) by (auto simp: known_def)
  show ?thesis
  proof (cases "n \<le> m")
    case True
    then show ?thesis using later [OF True n(1) m(1) n(2)] n m extends_refl by (metis option.inject)
  next
    case False
    then have "m \<le> n" by simp
    then show ?thesis using later [OF _ m(1) n(1) m(2)] n m extends_refl by (metis option.inject)
  qed
qed

subsection \<open>Appending an event\<close>

lemma AppendAssistantRunEvent_saved:
  assumes "AppendAssistantRunEvent now sc e n s = (Inr saved, s')"
  shows "rev_Type saved = trim_space (rev_Type e)" "rev_CallID saved = trim_space (rev_CallID e)"
    "rev_ToolName saved = trim_space (rev_ToolName e)" "rev_Payload e \<noteq> [] \<Longrightarrow> rev_Payload saved = rev_Payload e"
    "assistantRuns s' = assistantRuns s"
proof -
  have prep: "prepareAssistantRunEvent now sc e n = Inr saved"
    using assms by (auto simp: AppendAssistantRunEvent_def Let_def split: sum.splits if_splits)
  show "rev_Type saved = trim_space (rev_Type e)" "rev_CallID saved = trim_space (rev_CallID e)"
    "rev_ToolName saved = trim_space (rev_ToolName e)"
    using prep by (auto simp: prepareAssistantRunEvent_def Let_def split: sum.splits if_splits)
  show "rev_Payload saved = rev_Payload e" if "rev_Payload e \<noteq> []"
    using prep that by (auto simp: prepareAssistantRunEvent_def default_payload_def Let_def split: sum.splits if_splits)
  show "assistantRuns s' = assistantRuns s"
    using assms by (auto simp: AppendAssistantRunEvent_def Let_def split: sum.splits if_splits)
qed

lemma append_failed_runs: "AppendAssistantRunEvent now sc e n s = (Inl x, s') \<Longrightarrow> assistantRuns s' = assistantRuns s"
  by (auto simp: AppendAssistantRunEvent_def Let_def split: sum.splits if_splits)

text \<open>The store as the ledger sees it: the runs and the log.\<close>

definition same_log :: "memory_store \<Rightarrow> memory_store \<Rightarrow> scope \<Rightarrow> string \<Rightarrow> bool" where
  "same_log s s' sc rid \<longleftrightarrow> assistantRuns s' = assistantRuns s \<and>
     run_log s' sc (trim_space rid) = run_log s sc (trim_space rid)"

lemma same_log_ready: "same_log s s' sc rid \<Longrightarrow> run_ready s sc rid \<Longrightarrow> run_ready s' sc rid"
  by (simp add: same_log_def run_ready_def)

lemma same_log_refl [simp]: "same_log s s sc rid"
  by (simp add: same_log_def)

lemma same_log_trans: "same_log s s' sc rid \<Longrightarrow> same_log s' s'' sc rid \<Longrightarrow> same_log s s'' sc rid"
  by (simp add: same_log_def)

lemma conversation_same_log:
  "AppendAssistantConversationItem now sc' it s = (r, s') \<Longrightarrow> same_log s s' sc rid"
  by (auto simp: AppendAssistantConversationItem_def same_log_def Let_def split: sum.splits option.splits if_splits)

lemma store_result_snd [simp]: "snd (store_result p) = snd p"
  by (auto simp: store_result_def split: prod.splits sum.splits)

lemma appendConversationMessage_log: "same_log s (snd (appendConversationMessage now u sc' r i ty m s)) sc rid"
  unfolding appendConversationMessage_def Let_def
  by (auto intro: conversation_same_log split: prod.splits sum.splits)

lemma conversation_log:
  "appendToolCallConversation now l c t a n s = (r, s') \<Longrightarrow> same_log s s' sc rid"
  "appendToolResultConversation now l c t oc s = (r', s'') \<Longrightarrow> same_log s s'' sc rid"
proof -
  show "same_log s s' sc rid" if "appendToolCallConversation now l c t a n s = (r, s')"
  proof -
    have "s' = snd (appendToolCallConversation now l c t a n s)" using that by simp
    then show ?thesis by (simp add: appendToolCallConversation_def appendConversationMessage_log)
  qed
  show "same_log s s'' sc rid" if "appendToolResultConversation now l c t oc s = (r', s'')"
  proof -
    have "s'' = snd (appendToolResultConversation now l c t oc s)" using that by simp
    then show ?thesis by (simp add: appendToolResultConversation_def appendConversationMessage_log Let_def)
  qed
qed

lemma ensure_log: "ensureToolConversation now l c t a n oc s = (r, s') \<Longrightarrow> same_log s s' sc rid"
proof -
  assume e: "ensureToolConversation now l c t a n oc s = (r, s')"
  obtain q s1 where 1: "appendToolCallConversation now l c t a n s = (q, s1)" by fastforce
  note log1 = conversation_log(1) [OF 1, of sc rid]
  show ?thesis
  proof (cases "isl q \<or> oc = None")
    case True
    then show ?thesis using e 1 log1 by (auto simp: ensureToolConversation_def split: sum.splits option.splits)
  next
    case False
    then obtain y where "appendToolResultConversation now l c t y s1 = (r, s')"
      using e 1 by (auto simp: ensureToolConversation_def split: sum.splits option.splits)
    then show ?thesis using conversation_log(2) same_log_trans [OF log1] by blast
  qed
qed

subsection \<open>One append of a ledger\<close>

lemma append_extends_log:
  assumes ready: "run_ready s sc rid" and l: "cached sum256 (run_log s sc (trim_space rid)) sc rid l"
    and op: "AppendAssistantRunEvent now sc e (rl_lastSequence l) s = (Inr saved, s')" and e: "rev_RunID e = trim_space rid"
  shows "run_log s' sc (trim_space rid) = run_log s sc (trim_space rid) @ [saved]" "run_ready s' sc rid"
    "apply_events sum256 (run_log s sc (trim_space rid)) (fresh_ledger sc rid) = (None, l)"
proof -
  let ?log = "run_log s sc (trim_space rid)"
  have wf: "log_wf rev_Sequence ?log" and num: "numbered rev_Sequence ?log" using ready by (simp_all add: run_ready_def log_wf_def)
  obtain n where n: "n \<le> length ?log" "apply_events sum256 (take n ?log) (fresh_ledger sc rid) = (None, l)" "rl_lastSequence l = int n"
    using cachedD [OF l num] by metis
  have id: "rev_RunID saved = trim_space rid" using AppendAssistantRunEvent_success(4) [OF op] e by simp
  note success = AppendAssistantRunEvent_success [OF op, unfolded id]
  show log: "run_log s' sc (trim_space rid) = ?log @ [saved]" by (rule success(6))
  have "int n = int (length ?log)" using success(7) [OF wf] n(3) by simp
  then show "apply_events sum256 ?log (fresh_ledger sc rid) = (None, l)" using n by simp
  have "log_ok rev_Sequence (?log @ [saved])"
    using log_ok_snoc [OF log_wf_ok [OF wf]] success(1) n(3) \<open>int n = int (length ?log)\<close> by simp
  moreover have "int (length (?log @ [saved])) \<le> max_i64"
    using wf success(3) n(3) \<open>int n = int (length ?log)\<close> by (simp add: log_wf_def)
  ultimately have "log_wf rev_Sequence (run_log s' sc (trim_space rid))" unfolding log by (rule log_ok_wf)
  then show "run_ready s' sc rid" using ready AppendAssistantRunEvent_saved(5) [OF op] by (simp add: run_ready_def)
qed

lemma ledger_of_append: "ledger_of sum256 log sc rid l \<Longrightarrow> ledger_of sum256 (log @ es) sc rid l"
  unfolding ledger_of_def cached_def by (metis length_append take_append trans_le_add1 diff_is_0_eq take0 append_Nil2)

lemma cached_append: "cached sum256 log sc rid l \<Longrightarrow> cached sum256 (log @ es) sc rid l"
  unfolding cached_def by (metis length_append take_append trans_le_add1 diff_is_0_eq take0 append_Nil2)

text \<open>The log only grows, the ledger stays a replay of it, and what a successful append wrote was applied
  to a ledger that had read the whole log.\<close>

definition grows :: "memory_store \<Rightarrow> memory_store \<Rightarrow> scope \<Rightarrow> string \<Rightarrow> bool" where
  "grows s s' sc rid \<longleftrightarrow> (run_ready s sc rid \<longrightarrow> run_ready s' sc rid) \<and>
     (\<exists>es. run_log s' sc (trim_space rid) = run_log s sc (trim_space rid) @ es)"

lemma same_log_grows: "same_log s s' sc rid \<Longrightarrow> grows s s' sc rid"
  unfolding grows_def using same_log_ready by (auto simp: same_log_def)

lemma grows_trans: "grows s s' sc rid \<Longrightarrow> grows s' s'' sc rid \<Longrightarrow> grows s s'' sc rid"
  by (auto simp: grows_def)

lemma appendLedgerEvent_effect:
  assumes ready: "run_ready s sc rid" and l: "cached sum256 (run_log s sc (trim_space rid)) sc rid l"
    and e: "rev_RunID e = trim_space rid" and sc: "rl_scope l = sc"
    and op: "appendLedgerEvent sum256 now e l s = (r, l', s')"
  shows "grows s s' sc rid" "cached sum256 (run_log s' sc (trim_space rid)) sc rid l'"
    "r = Return (Inr ()) \<Longrightarrow> \<exists>saved. AppendAssistantRunEvent now sc e (rl_lastSequence l) s = (Inr saved, s') \<and>
       apply_event sum256 saved l = Inr l' \<and>
       apply_events sum256 (run_log s sc (trim_space rid)) (fresh_ledger sc rid) = (None, l) \<and>
       apply_events sum256 (run_log s' sc (trim_space rid)) (fresh_ledger sc rid) = (None, l')"
    "r \<noteq> Return (Inr ()) \<Longrightarrow> l' = l"
proof -
  obtain q s1 where q: "AppendAssistantRunEvent now sc e (rl_lastSequence l) s = (q, s1)" by fastforce
  have "grows s s' sc rid \<and> cached sum256 (run_log s' sc (trim_space rid)) sc rid l' \<and>
    (r = Return (Inr ()) \<longrightarrow> (\<exists>saved. AppendAssistantRunEvent now sc e (rl_lastSequence l) s = (Inr saved, s') \<and>
       apply_event sum256 saved l = Inr l' \<and>
       apply_events sum256 (run_log s sc (trim_space rid)) (fresh_ledger sc rid) = (None, l) \<and>
       apply_events sum256 (run_log s' sc (trim_space rid)) (fresh_ledger sc rid) = (None, l'))) \<and>
    (r \<noteq> Return (Inr ()) \<longrightarrow> l' = l)"
  proof (cases q)
    case (Inl x)
    have "same_log s s1 sc rid"
      using AppendAssistantRunEvent_other [OF q] append_failed_runs [of now sc e _ s x s1] q Inl by (simp add: same_log_def)
    moreover have "s' = s1" "l' = l" "r \<noteq> Return (Inr ())"
      using op q Inl sc by (auto simp: appendLedgerEvent_def split: if_splits)
    ultimately show ?thesis using same_log_grows l by (auto simp: same_log_def)
  next
    case (Inr saved)
    note ap = append_extends_log [OF ready l q [unfolded Inr] e]
    have grow: "grows s s1 sc rid" using ap(1,2) by (auto simp: grows_def)
    show ?thesis
    proof (cases "apply_event sum256 saved l")
      case (Inl x)
      then have "s' = s1" "l' = l" "r \<noteq> Return (Inr ())" using op q Inr sc by (auto simp: appendLedgerEvent_def)
      then show ?thesis using grow cached_append [OF l] ap(1) by simp
    next
      case (Inr m)
      then have eq: "s' = s1" "l' = m" "r = Return (Inr ())" using op q \<open>q = Inr saved\<close> sc by (auto simp: appendLedgerEvent_def)
      have seq: "rev_Sequence saved = i64 (rl_lastSequence l + 1)" using apply_event_keeps(5) [OF Inr] .
      have full: "apply_events sum256 (run_log s1 sc (trim_space rid)) (fresh_ledger sc rid) = (None, m)"
        unfolding ap(1) apply_events_append ap(3) using Inr seq by simp
      have "cached sum256 (run_log s1 sc (trim_space rid)) sc rid m"
        unfolding cached_def using full by (intro exI [of _ "length (run_log s1 sc (trim_space rid))"]) simp
      then show ?thesis using grow full ap(3) q \<open>q = Inr saved\<close> Inr eq by auto
    qed
  qed
  then show "grows s s' sc rid" "cached sum256 (run_log s' sc (trim_space rid)) sc rid l'"
    "r = Return (Inr ()) \<Longrightarrow> \<exists>saved. AppendAssistantRunEvent now sc e (rl_lastSequence l) s = (Inr saved, s') \<and>
       apply_event sum256 saved l = Inr l' \<and>
       apply_events sum256 (run_log s sc (trim_space rid)) (fresh_ledger sc rid) = (None, l) \<and>
       apply_events sum256 (run_log s' sc (trim_space rid)) (fresh_ledger sc rid) = (None, l')"
    "r \<noteq> Return (Inr ()) \<Longrightarrow> l' = l" by blast+
qed

subsection \<open>The states of calls are well formed\<close>

definition call_ok :: "call_state \<Rightarrow> bool" where
  "call_ok st \<longleftrightarrow> (cst_Requested st \<or> cst_Dispatched st) \<and> (if cst_Dispatched st then 1 \<le> cst_Attempts st else cst_Attempts st = 0) \<and>
     cst_ToolName st \<noteq> [] \<and> cst_ArgsDigest st \<noteq> [] \<and>
     (case cst_Outcome st of None \<Rightarrow> True
      | Some oc \<Rightarrow> oc_Disposition oc \<noteq> [] \<and>
         (oc_Canceled oc \<longrightarrow> oc_Failed oc \<and> \<not> Succeeded oc \<and> oc_PlanSnapshot oc = None) \<and>
         (case oc_PlanSnapshot oc of None \<Rightarrow> True | Some p \<Rightarrow> planSnapshotValid p \<and> Succeeded oc \<and> \<not> oc_Failed oc))"

definition ledger_ok :: "run_ledger \<Rightarrow> bool" where
  "ledger_ok l \<longleftrightarrow> wf_map (rl_calls l) \<and> (\<forall>cid st. map_of (rl_calls l) cid = Some st \<longrightarrow> cid \<noteq> [] \<and> call_ok st)"

lemma settle_outcome_ok:
  assumes "settle_outcome tool args payload = Inr oc"
  shows "oc_Disposition oc \<noteq> [] \<and>
         (oc_Canceled oc \<longrightarrow> oc_Failed oc \<and> \<not> Succeeded oc \<and> oc_PlanSnapshot oc = None) \<and>
         (case oc_PlanSnapshot oc of None \<Rightarrow> True | Some p \<Rightarrow> planSnapshotValid p \<and> Succeeded oc \<and> \<not> oc_Failed oc)"
proof -
  have d: "toolResultDisposition n c e \<noteq> []" for n c e
    by (auto simp: toolResultDisposition_def DispositionSucceeded_def DispositionFailed_def simp del: field_failed.simps
        split: option.splits if_splits)
  have w: "DispositionFailed \<noteq> []" "DispositionFailed \<noteq> DispositionSucceeded"
    by (simp_all add: DispositionSucceeded_def DispositionFailed_def)
  show ?thesis
  proof (cases "oc_Canceled payload")
    case True
    then show ?thesis using assms w by (auto simp: settle_outcome_def Let_def Succeeded_def split: if_splits option.splits)
  next
    case False
    then show ?thesis using assms d
      by (cases "oc_Disposition payload = []"; cases "oc_PlanSnapshot payload") (auto simp: settle_outcome_def Let_def split: if_splits)
  qed
qed

lemma ledger_ok_put:
  "ledger_ok l \<Longrightarrow> cid \<noteq> [] \<Longrightarrow> call_ok st \<Longrightarrow> ledger_ok (l\<lparr>rl_calls := mput cid st (rl_calls l)\<rparr>)"
  by (simp add: ledger_ok_def)

lemma ledger_ok_frame [simp]:
  "ledger_ok (l\<lparr>rl_lastSequence := n\<rparr>) = ledger_ok l" "ledger_ok (l\<lparr>rl_latestPlanSnapshot := p\<rparr>) = ledger_ok l"
  by (simp_all add: ledger_ok_def)

lemma apply_event_identity:
  assumes "apply_event sum256 e l = Inr l'" "rev_Type e \<in> {event_request, event_call, event_result}"
  shows "trim_space (rev_CallID e) \<noteq> []" "toolKey (rev_ToolName e) \<noteq> []" "trim_space (rev_ArgsDigest e) \<noteq> []"
  using assms by (auto simp: apply_event_def Let_def simp del: trim_space_Nil split: if_splits)

lemma apply_event_ok:
  assumes ok: "ledger_ok l" and op: "apply_event sum256 e l = Inr l'"
  shows "ledger_ok l'"
  using op
proof (cases rule: apply_eventE)
  case other
  then show ?thesis using ok by simp
next
  case (request m)
  note id = apply_event_identity [OF op, unfolded request(1), simplified]
  from apply_requestD [OF request(3)] obtain p :: call_payload and args st where m: "m = l\<lparr>rl_calls := mput (trim_space (rev_CallID e)) st (rl_calls l)\<rparr>"
    and st: "case map_of (rl_calls l) (trim_space (rev_CallID e)) of
       None \<Rightarrow> st = \<lparr>cst_ToolName = toolKey (rev_ToolName e), cst_ArgsDigest = trim_space (rev_ArgsDigest e), cst_Arguments = args,
            cst_RequestArgsDigest = trim_space (rev_ArgsDigest e), cst_Read = clp_Read p, cst_Effect = clp_Effect p,
            cst_Requested = True, cst_Dispatched = False, cst_Attempts = 0, cst_Outcome = None\<rparr>
     | Some old \<Rightarrow> st = old\<lparr>cst_Requested := True\<rparr>"
    by blast
  have "call_ok st"
  proof (cases "map_of (rl_calls l) (trim_space (rev_CallID e))")
    case None
    then show ?thesis using st id by (simp add: call_ok_def)
  next
    case (Some old)
    then show ?thesis using st ok by (simp add: call_ok_def ledger_ok_def)
  qed
  then show ?thesis using ledger_ok_put [OF ok id(1)] request(2) m by simp
next
  case (call m)
  note id = apply_event_identity [OF op, unfolded call(1), simplified]
  from apply_callD [OF call(3)] obtain p :: call_payload and args st where m: "m = l\<lparr>rl_calls := mput (trim_space (rev_CallID e)) st (rl_calls l)\<rparr>"
    and att: "1 \<le> clp_Attempt p" and st: "case map_of (rl_calls l) (trim_space (rev_CallID e)) of
       None \<Rightarrow> st = \<lparr>cst_ToolName = toolKey (rev_ToolName e), cst_ArgsDigest = trim_space (rev_ArgsDigest e), cst_Arguments = args,
            cst_RequestArgsDigest = [], cst_Read = clp_Read p, cst_Effect = clp_Effect p,
            cst_Requested = False, cst_Dispatched = True, cst_Attempts = clp_Attempt p, cst_Outcome = None\<rparr>
     | Some old \<Rightarrow> cst_ToolName old = toolKey (rev_ToolName e) \<and> cst_Read old = clp_Read p \<and> cst_Effect old = clp_Effect p \<and> cst_Outcome old = None \<and>
         (\<not> cst_Dispatched old \<and> cst_Requested old \<and> clp_Attempt p = 1 \<and>
            st = old\<lparr>cst_ArgsDigest := trim_space (rev_ArgsDigest e), cst_Arguments := args, cst_Dispatched := True, cst_Attempts := clp_Attempt p\<rparr> \<or>
          (cst_Dispatched old \<or> \<not> cst_Requested old \<or> clp_Attempt p \<noteq> 1) \<and>
            cst_ArgsDigest old = trim_space (rev_ArgsDigest e) \<and> cst_Read old \<and> clp_Attempt p = i64 (cst_Attempts old + 1) \<and>
            st = old\<lparr>cst_Attempts := clp_Attempt p\<rparr>)"
    by blast
  have one: "i64 1 = 1" by (simp add: i64_def)
  have "call_ok st"
  proof (cases "map_of (rl_calls l) (trim_space (rev_CallID e))")
    case None
    then show ?thesis using st att id by (auto simp: call_ok_def)
  next
    case (Some old)
    then have "call_ok old" using ok by (simp add: ledger_ok_def)
    then show ?thesis using st att id Some one by (auto simp: call_ok_def split: if_splits)
  qed
  then show ?thesis using ledger_ok_put [OF ok id(1)] call(2) m by simp
next
  case (result m)
  note id = apply_event_identity [OF op, unfolded result(1), simplified]
  from apply_resultD [OF result(3)] obtain old oc payload plan where
    old: "map_of (rl_calls l) (trim_space (rev_CallID e)) = Some old"
    and oc: "settle_outcome (toolKey (rev_ToolName e)) (cst_Arguments old) payload = Inr oc"
    and m: "m = l\<lparr>rl_calls := mput (trim_space (rev_CallID e)) (old\<lparr>cst_Outcome := Some oc\<rparr>) (rl_calls l), rl_latestPlanSnapshot := plan\<rparr>"
    by blast
  have "call_ok (old\<lparr>cst_Outcome := Some oc\<rparr>)"
    using ok old settle_outcome_ok [OF oc] by (simp add: ledger_ok_def call_ok_def)
  then have "ledger_ok (l\<lparr>rl_calls := mput (trim_space (rev_CallID e)) (old\<lparr>cst_Outcome := Some oc\<rparr>) (rl_calls l)\<rparr>)"
    by (rule ledger_ok_put [OF ok id(1)])
  then show ?thesis using result(2) m by simp
qed

lemma apply_events_ok: "ledger_ok l \<Longrightarrow> apply_events sum256 es l = (e, l') \<Longrightarrow> ledger_ok l'"
proof (induction es arbitrary: l)
  case (Cons x es)
  show ?case
  proof (cases "rev_Sequence x \<noteq> i64 (rl_lastSequence l + 1) \<or> isl (apply_event sum256 x l)")
    case True
    then have "l' = l" using Cons.prems(2) by (auto split: if_splits sum.splits)
    then show ?thesis using Cons.prems(1) by simp
  next
    case False
    then obtain l1 where l1: "apply_event sum256 x l = Inr l1" by (cases "apply_event sum256 x l") auto
    then have "apply_events sum256 es l1 = (e, l')" using Cons.prems(2) False by simp
    then show ?thesis using Cons.IH [OF apply_event_ok [OF Cons.prems(1) l1]] by simp
  qed
qed simp

lemma fresh_ok: "ledger_ok (fresh_ledger sc rid)"
  by (simp add: ledger_ok_def)

lemma cached_ok: "cached sum256 log sc rid l \<Longrightarrow> ledger_ok l"
  using apply_events_ok [OF fresh_ok] by (auto simp: cached_def)

end
