(* ===== verification/Assistant_Ledger_Runs.thy ===== *)
theory Assistant_Ledger_Runs
  imports Assistant_Ledger_Replay
begin

section \<open>App Studio assistant: the processes that share a run's log\<close>

text \<open>
  The processes that share a log are a transition system whose steps are the refreshes and the
  attempts of any of their ledgers, restarts and other writers; a round of an operation is a refresh
  and an attempt with steps of others between them. In every reachable state the log replays without
  an error, a call that is not a read was dispatched at most once, and every outcome told for a call
  is the same.
\<close>

subsection \<open>Calls as the operations name them\<close>

text \<open>Arguments decoded from JSON: their strings are UTF-8, their objects in canonical form.\<close>

definition decoded_args :: "json \<Rightarrow> bool" where
  "decoded_args v \<longleftrightarrow> json_coerce v = v \<and> (\<exists>n < max_depth. json_fits n v)"

text \<open>A registered name is in the form in which the registry keeps it.\<close>

definition registered_name :: "string \<Rightarrow> bool" where
  "registered_name name \<longleftrightarrow> trim_space name = name \<and> toolKey name = name"

definition well_called :: "(string \<Rightarrow> string) \<Rightarrow> json \<Rightarrow> call_token \<Rightarrow> bool" where
  "well_called sum256 args t \<longleftrightarrow> decoded_args args \<and> registered_name (tok_ToolName t) \<and> tok_ToolName t \<noteq> [] \<and>
     trim_space (tok_CallID t) = tok_CallID t \<and> tok_CallID t \<noteq> [] \<and>
     toolCallDigest sum256 (tok_ToolName t) (AnyValue args) = Inr (args, tok_ArgsDigest t)"

lemma hex_digit_kept: "\<not> ascii_space (hex_digit n)" "\<not> space2 b (hex_digit n)" "\<not> space3 a b (hex_digit n)"
proof -
  have "hex_digit n \<in> set ''0123456789abcdef''" unfolding hex_digit_def by (rule nth_mem) simp
  then show "\<not> ascii_space (hex_digit n)" "\<not> space2 b (hex_digit n)" "\<not> space3 a b (hex_digit n)"
    by (auto simp: ascii_space_def space2_def space3_def)
qed

lemma args_digest_trim: "trim_space (args_digest sum256 tool v) = args_digest sum256 tool v" "args_digest sum256 tool v \<noteq> []"
proof -
  let ?d = "args_digest sum256 tool v"
  have "space_at ?d = 0" by (simp add: args_digest_def ascii_space_def space2_def space3_def)
  moreover have "space_end (rev ?d) = 0"
  proof (cases "sum256 (tool @ [CHR 0x00] @ json_encode v)" rule: rev_cases)
    case Nil
    then show ?thesis by (simp add: args_digest_def hex_encode_def ascii_space_def space2_def space3_def)
  next
    case (snoc w c)
    define h where "h = (of_char c :: nat)"
    obtain x r where "rev (''sha256:'' @ concat (map (\<lambda>c. [hex_digit ((of_char c :: nat) div 16), hex_digit (of_char c)]) w)) = x # r"
      by (cases "rev (''sha256:'' @ concat (map (\<lambda>c. [hex_digit ((of_char c :: nat) div 16), hex_digit (of_char c)]) w))") auto
    then have "rev ?d = hex_digit h # hex_digit (h div 16) # x # r" using snoc
      by (simp add: args_digest_def hex_encode_def h_def)
    then show ?thesis using hex_digit_kept by simp
  qed
  ultimately show "trim_space ?d = ?d" by (rule trim_space_eval)
qed (simp add: args_digest_def)

lemma toolCallDigestD:
  assumes "toolCallDigest sum256 name a = Inr (v, d)"
  shows "d = args_digest sum256 (toolKey name) v" "toolKey name \<noteq> []" "json_valid (json_encode v)"
  using assms by (auto simp: toolCallDigest_def canonicalJSON_def Let_def split: if_splits option.splits go_any.splits)

lemma call_token_well:
  assumes "call_token_for sum256 cid name risk a l = Inr (v, t)" "registered_name name" "decoded_args v"
  shows "well_called sum256 v t" "tok_CallID t = trim_space cid"
proof -
  obtain d where d: "toolCallDigest sum256 (toolKey name) a = Inr (v, d)"
    and t: "t = \<lparr>tok_CallID = trim_space cid, tok_ToolName = toolKey name, tok_ArgsDigest = d,
          tok_Read = (risk = RiskRead), tok_Effect = toolHasEffect risk\<rparr>" "trim_space cid \<noteq> []" "toolKey name \<noteq> []"
    using assms(1) by (auto simp: call_token_for_def Let_def simp del: trim_space_Nil split: if_splits sum.splits prod.splits)
  have name: "toolKey name = name" using assms(2) by (simp add: registered_name_def)
  have "toolCallDigest sum256 name (AnyValue v) = Inr (v, d)"
    using toolCallDigestD [OF d] name t(3) by (simp add: toolCallDigest_def canonicalJSON_def)
  then show "well_called sum256 v t" "tok_CallID t = trim_space cid"
    using assms(2,3) t name by (simp_all add: well_called_def)
qed

lemma well_called_digest:
  assumes "well_called sum256 args t"
  shows "trim_space (tok_ArgsDigest t) = tok_ArgsDigest t" "tok_ArgsDigest t \<noteq> []"
    "toolKey (tok_ToolName t) = tok_ToolName t" "trim_space (tok_ToolName t) = tok_ToolName t"
    "trim_space (tok_CallID t) = tok_CallID t" "tok_ToolName t \<noteq> []" "tok_CallID t \<noteq> []"
    "toolCallDigest sum256 (tok_ToolName t) (AnyValue args) = Inr (args, tok_ArgsDigest t)"
proof -
  have "tok_ArgsDigest t = args_digest sum256 (toolKey (tok_ToolName t)) args"
    using assms toolCallDigestD(1) by (auto simp: well_called_def)
  then show "trim_space (tok_ArgsDigest t) = tok_ArgsDigest t" "tok_ArgsDigest t \<noteq> []"
    using args_digest_trim by simp_all
qed (use assms in \<open>simp_all add: well_called_def registered_name_def\<close>)

lemma well_called_payload:
  assumes "well_called sum256 args t" "min_i64 \<le> attempt" "attempt \<le> max_i64"
  shows "decode_call_payload (json_encode (call_payload_json args rd eff attempt)) =
    Some \<lparr>clp_Arguments = Some args, clp_Read = rd, clp_Effect = eff, clp_Attempt = attempt\<rparr>"
  using assms call_payload_roundtrip by (auto simp: well_called_def decoded_args_def)

subsection \<open>A sound log\<close>

text \<open>A log that replays without an error, with no more attempts of a call than events.\<close>

definition bounded_attempts :: "run_ledger \<Rightarrow> bool" where
  "bounded_attempts l \<longleftrightarrow> (\<forall>cid st. map_of (rl_calls l) cid = Some st \<longrightarrow> cst_Attempts st \<le> rl_lastSequence l)"

definition sound_log :: "(string \<Rightarrow> string) \<Rightarrow> scope \<Rightarrow> string \<Rightarrow> run_event list \<Rightarrow> bool" where
  "sound_log sum256 sc rid log \<longleftrightarrow> (\<exists>l. apply_events sum256 log (fresh_ledger sc rid) = (None, l) \<and> bounded_attempts l)"

text \<open>What a step of a ledger over a sound log keeps.\<close>

definition in_step :: "(string \<Rightarrow> string) \<Rightarrow> scope \<Rightarrow> string \<Rightarrow> run_ledger \<Rightarrow> memory_store \<Rightarrow> bool" where
  "in_step sum256 sc rid l s \<longleftrightarrow> run_ready s sc rid \<and> sound_log sum256 sc rid (run_log s sc (trim_space rid)) \<and>
     cached sum256 (run_log s sc (trim_space rid)) sc rid l"

definition advances :: "(string \<Rightarrow> string) \<Rightarrow> scope \<Rightarrow> string \<Rightarrow> run_ledger \<Rightarrow> memory_store \<Rightarrow> run_ledger \<Rightarrow> memory_store \<Rightarrow> bool" where
  "advances sum256 sc rid l s l' s' \<longleftrightarrow> in_step sum256 sc rid l' s' \<and>
     (\<exists>es. run_log s' sc (trim_space rid) = run_log s sc (trim_space rid) @ es)"

lemma same_log_advances: "in_step sum256 sc rid l s \<Longrightarrow> same_log s s' sc rid \<Longrightarrow> advances sum256 sc rid l s l s'"
  using same_log_ready by (auto simp: advances_def in_step_def same_log_def)

lemma advances_trans:
  "advances sum256 sc rid l s l' s' \<Longrightarrow> advances sum256 sc rid l' s' l'' s'' \<Longrightarrow> advances sum256 sc rid l s l'' s''"
  by (auto simp: advances_def)

lemma same_log_in_step: "in_step sum256 sc rid l s \<Longrightarrow> same_log s s' sc rid \<Longrightarrow> in_step sum256 sc rid l s'"
  using same_log_advances by (auto simp: advances_def)

lemma same_log_back: "same_log s s' sc rid \<Longrightarrow> advances sum256 sc rid l s' l' s'' \<Longrightarrow> advances sum256 sc rid l s l' s''"
  by (simp add: advances_def same_log_def)

lemma in_step_identity: "in_step sum256 sc rid l s \<Longrightarrow> rl_scope l = sc \<and> rl_runID l = trim_space rid"
  unfolding in_step_def run_ready_def log_wf_def by (metis cachedD)

text \<open>What a ledger that read the whole log knows, the log says.\<close>

lemma known_complete:
  assumes "apply_events sum256 log (fresh_ledger sc rid) = (None, l)" "map_of (rl_calls l) cid = Some st" "P st"
  shows "known sum256 log sc rid cid P"
  unfolding known_def using assms by (intro exI [of _ "length log"]) auto

lemma known_cached:
  assumes "in_step sum256 sc rid l s" "map_of (rl_calls l) cid = Some st" "P st"
  shows "known sum256 (run_log s sc (trim_space rid)) sc rid cid P"
  using assms by (auto simp: in_step_def cached_def known_def)

lemma known_advances:
  "known sum256 (run_log s sc (trim_space rid)) sc rid cid P \<Longrightarrow> advances sum256 sc rid l s l' s' \<Longrightarrow>
   known sum256 (run_log s' sc (trim_space rid)) sc rid cid P"
  using known_append by (auto simp: advances_def)

subsection \<open>The events a ledger appends\<close>

definition apply_typed :: "(string \<Rightarrow> string) \<Rightarrow> string \<Rightarrow> call_token \<Rightarrow> string \<Rightarrow> run_ledger \<Rightarrow> run_ledger lres" where
  "apply_typed sum256 ty t raw l =
     (if ty = event_request then apply_request sum256 (tok_CallID t) (tok_ToolName t) (tok_ArgsDigest t) raw l
      else if ty = event_call then apply_call sum256 (tok_CallID t) (tok_ToolName t) (tok_ArgsDigest t) raw l
      else apply_result (tok_CallID t) (tok_ToolName t) (tok_ArgsDigest t) raw l)"

lemma saved_event:
  assumes "AppendAssistantRunEvent now sc (ledger_event l ty t raw) n s = (Inr saved, s')" "raw \<noteq> []"
  shows "rev_ArgsDigest saved = trim_space (tok_ArgsDigest t)" "rev_Type saved = trim_space ty"
    "rev_CallID saved = trim_space (tok_CallID t)" "rev_ToolName saved = trim_space (tok_ToolName t)" "rev_Payload saved = raw"
proof -
  have prep: "prepareAssistantRunEvent now sc (ledger_event l ty t raw) n = Inr saved"
    using assms by (auto simp: AppendAssistantRunEvent_def Let_def split: sum.splits if_splits)
  then show "rev_ArgsDigest saved = trim_space (tok_ArgsDigest t)"
    by (auto simp: prepareAssistantRunEvent_def ledger_event_def Let_def split: sum.splits if_splits)
  show "rev_Type saved = trim_space ty" "rev_CallID saved = trim_space (tok_CallID t)"
    "rev_ToolName saved = trim_space (tok_ToolName t)" "rev_Payload saved = raw"
    using AppendAssistantRunEvent_saved [OF assms(1)] assms(2) by (simp_all add: ledger_event_def)
qed

lemma event_types_trim:
  "ty \<in> {event_request, event_call, event_result} \<Longrightarrow> trim_space ty = ty"
  by (elim insertE) (simp_all add: event_types trim_space_eval space_eval)

lemma append_event_advances:
  assumes at: "in_step sum256 sc rid l s" and t: "well_called sum256 args t"
    and ty: "ty \<in> {event_request, event_call, event_result}" and raw: "raw \<noteq> []"
    and op: "appendLedgerEvent sum256 now (ledger_event l ty t raw) l s = (r, l', s')"
    and applies: "apply_events sum256 (run_log s sc (trim_space rid)) (fresh_ledger sc rid) = (None, l) \<Longrightarrow>
      bounded_attempts l \<Longrightarrow> rl_lastSequence l < max_i64 \<Longrightarrow>
      \<exists>m. apply_typed sum256 ty t raw l = Inr m \<and> bounded_attempts (m\<lparr>rl_lastSequence := rl_lastSequence l + 1\<rparr>)"
  shows "advances sum256 sc rid l s l' s'"
    "r = Return (Inr ()) \<Longrightarrow> apply_events sum256 (run_log s sc (trim_space rid)) (fresh_ledger sc rid) = (None, l) \<and>
       apply_events sum256 (run_log s' sc (trim_space rid)) (fresh_ledger sc rid) = (None, l') \<and>
       bounded_attempts l \<and> rl_lastSequence l < max_i64 \<and>
       (\<exists>m n. apply_typed sum256 ty t raw l = Inr m \<and> l' = m\<lparr>rl_lastSequence := n\<rparr>)"
    "AppendAssistantRunEvent now sc (ledger_event l ty t raw) (rl_lastSequence l) s = (Inr saved, s2) \<Longrightarrow> r = Return (Inr ())"
proof -
  let ?log = "run_log s sc (trim_space rid)"
  have id: "rl_scope l = sc" "rl_runID l = trim_space rid" using in_step_identity [OF at] by simp_all
  have ready: "run_ready s sc rid" and cached: "cached sum256 ?log sc rid l" using at by (simp_all add: in_step_def)
  have run: "rev_RunID (ledger_event l ty t raw) = trim_space rid" using id(2) by (simp add: ledger_event_def)
  obtain q s1 where q: "AppendAssistantRunEvent now sc (ledger_event l ty t raw) (rl_lastSequence l) s = (q, s1)" by fastforce
  have "advances sum256 sc rid l s l' s' \<and>
    (r = Return (Inr ()) \<longrightarrow> apply_events sum256 ?log (fresh_ledger sc rid) = (None, l) \<and>
       apply_events sum256 (run_log s' sc (trim_space rid)) (fresh_ledger sc rid) = (None, l') \<and>
       bounded_attempts l \<and> rl_lastSequence l < max_i64 \<and>
       (\<exists>m n. apply_typed sum256 ty t raw l = Inr m \<and> l' = m\<lparr>rl_lastSequence := n\<rparr>)) \<and>
    (\<not> isl q \<longrightarrow> r = Return (Inr ()))"
  proof (cases q)
    case (Inl x)
    have "same_log s s1 sc rid"
      using AppendAssistantRunEvent_other [OF q] append_failed_runs [of now sc _ _ s x s1] q Inl by (simp add: same_log_def)
    moreover have "s' = s1" "l' = l" "r \<noteq> Return (Inr ())"
      using op q Inl id by (auto simp: appendLedgerEvent_def split: if_splits)
    ultimately show ?thesis using same_log_advances [OF at] Inl by simp
  next
    case (Inr saved)
    note q' = q [unfolded Inr]
    note ap = append_extends_log [OF ready cached q' run] and sv = saved_event [OF q' raw] and wc = well_called_digest [OF t]
    have ok: "sound_log sum256 sc rid ?log" using at by (simp add: in_step_def)
    then have bound: "bounded_attempts l" using ap(3) by (auto simp: sound_log_def)
    have succ: "rev_Sequence saved = i64 (rl_lastSequence l + 1)" "rl_lastSequence l \<noteq> max_i64" "0 \<le> rl_lastSequence l"
      using AppendAssistantRunEvent_success(1-3) [OF q'] by simp_all
    have "rl_lastSequence l \<le> max_i64"
      using replay_last [of ?log "length ?log"] ap(3) ready by (simp add: run_ready_def log_wf_def)
    then have last: "rl_lastSequence l < max_i64" "rev_Sequence saved = rl_lastSequence l + 1"
      using succ by (simp_all add: i64_Suc)
    obtain m where m: "apply_typed sum256 ty t raw l = Inr m" "bounded_attempts (m\<lparr>rl_lastSequence := rl_lastSequence l + 1\<rparr>)"
      using applies [OF ap(3) bound last(1)] by blast
    have seq: "rev_Sequence saved = i64 (rl_lastSequence l + 1)" by (rule succ(1))
    have ty': "rev_Type saved \<in> {event_request, event_call, event_result}" "rev_Type saved = ty"
      using ty event_types_trim [OF ty] sv(2) by simp_all
    have "apply_event sum256 saved l = (case apply_typed sum256 ty t raw l of Inl e \<Rightarrow> Inl e
        | Inr l' \<Rightarrow> Inr (l'\<lparr>rl_lastSequence := rev_Sequence saved\<rparr>))"
      using seq ty' sv(1,3,4,5) wc(1-7) by (auto simp: apply_event_def apply_typed_def simp del: trim_space_Nil)
    then have "apply_event sum256 saved l = Inr (m\<lparr>rl_lastSequence := rev_Sequence saved\<rparr>)"
      using m(1) by simp
    then have ev: "apply_event sum256 saved l = Inr (m\<lparr>rl_lastSequence := rl_lastSequence l + 1\<rparr>)" using last(2) by simp
    then have eq: "s' = s1" "l' = m\<lparr>rl_lastSequence := rl_lastSequence l + 1\<rparr>" "r = Return (Inr ())"
      using op q' id by (auto simp: appendLedgerEvent_def)
    have full: "apply_events sum256 (run_log s1 sc (trim_space rid)) (fresh_ledger sc rid) = (None, l')"
      unfolding ap(1) apply_events_append ap(3) using ev seq eq(2) by simp
    have "cached sum256 (run_log s1 sc (trim_space rid)) sc rid l'"
      unfolding cached_def using full by (intro exI [of _ "length (run_log s1 sc (trim_space rid))"]) simp
    moreover have "sound_log sum256 sc rid (run_log s1 sc (trim_space rid))"
      using full m(2) eq(2) by (auto simp: sound_log_def)
    ultimately have "in_step sum256 sc rid l' s1" using ap(2) by (simp add: in_step_def)
    moreover have "advances sum256 sc rid l s l' s1" using calculation ap(1) by (auto simp: advances_def)
    ultimately show ?thesis using eq ap(3) full m(1) bound last(1) by auto
  qed
  then show "advances sum256 sc rid l s l' s'"
    "r = Return (Inr ()) \<Longrightarrow> apply_events sum256 ?log (fresh_ledger sc rid) = (None, l) \<and>
       apply_events sum256 (run_log s' sc (trim_space rid)) (fresh_ledger sc rid) = (None, l') \<and>
       bounded_attempts l \<and> rl_lastSequence l < max_i64 \<and>
       (\<exists>m n. apply_typed sum256 ty t raw l = Inr m \<and> l' = m\<lparr>rl_lastSequence := n\<rparr>)"
    "AppendAssistantRunEvent now sc (ledger_event l ty t raw) (rl_lastSequence l) s = (Inr saved, s2) \<Longrightarrow> r = Return (Inr ())"
    using q by (blast, blast, simp)
qed

lemma bounded_put:
  "bounded_attempts l \<Longrightarrow> cst_Attempts st \<le> rl_lastSequence l + 1 \<Longrightarrow> rl_calls m = mput cid st (rl_calls l) \<Longrightarrow>
   bounded_attempts (m\<lparr>rl_lastSequence := rl_lastSequence l + 1\<rparr>)"
  by (auto simp: bounded_attempts_def split: if_splits) fastforce

text \<open>A call event applies where \<open>BeginToolCall\<close> appends one.\<close>

definition may_call :: "call_token \<Rightarrow> int \<Rightarrow> run_ledger \<Rightarrow> bool" where
  "may_call t attempt l \<longleftrightarrow>
     (case map_of (rl_calls l) (tok_CallID t) of
        None \<Rightarrow> attempt = 1
      | Some st \<Rightarrow> cst_ToolName st = tok_ToolName t \<and> cst_Read st = tok_Read t \<and> cst_Effect st = tok_Effect t \<and> cst_Outcome st = None \<and>
          (if cst_Dispatched st then cst_ArgsDigest st = tok_ArgsDigest t \<and> tok_Read t \<and> 1 \<le> cst_Attempts st \<and> attempt = i64 (cst_Attempts st + 1)
           else cst_Requested st \<and> attempt = 1))"

definition open_call :: "call_token \<Rightarrow> call_state \<Rightarrow> bool" where
  "open_call t st \<longleftrightarrow> cst_Dispatched st \<and> cst_ToolName st = tok_ToolName t \<and> cst_ArgsDigest st = tok_ArgsDigest t \<and>
     cst_Read st = tok_Read t \<and> cst_Effect st = tok_Effect t \<and> cst_Outcome st = None"

lemma call_event_applies:
  assumes t: "well_called sum256 args t" and ok: "may_call t attempt l"
    and bound: "bounded_attempts l" and last: "0 \<le> rl_lastSequence l" "rl_lastSequence l < max_i64"
  shows "\<exists>st. apply_typed sum256 event_call t (json_encode (call_payload_json args (tok_Read t) (tok_Effect t) attempt)) l =
      Inr (l\<lparr>rl_calls := mput (tok_CallID t) st (rl_calls l)\<rparr>) \<and>
    open_call t st \<and> cst_Attempts st \<le> rl_lastSequence l + 1"
proof -
  have ne: "event_call \<noteq> event_request" by (simp add: event_types)
  note dig = well_called_digest(8) [OF t]
  have att: "1 \<le> attempt \<and> attempt \<le> rl_lastSequence l + 1"
  proof (cases "map_of (rl_calls l) (tok_CallID t)")
    case None
    then show ?thesis using ok last by (simp add: may_call_def)
  next
    case (Some st)
    then have le: "cst_Attempts st \<le> rl_lastSequence l" using bound by (simp add: bounded_attempts_def)
    show ?thesis
    proof (cases "cst_Dispatched st")
      case True
      then have "1 \<le> cst_Attempts st" "attempt = i64 (cst_Attempts st + 1)" using ok Some by (auto simp: may_call_def)
      moreover have "i64 (cst_Attempts st + 1) = cst_Attempts st + 1" using le last(2) calculation(1) by (intro i64_Suc) simp_all
      ultimately show ?thesis using le by simp
    next
      case False
      then show ?thesis using ok Some last by (simp add: may_call_def)
    qed
  qed
  then have dec: "decode_call_payload (json_encode (call_payload_json args (tok_Read t) (tok_Effect t) attempt)) =
      Some \<lparr>clp_Arguments = Some args, clp_Read = tok_Read t, clp_Effect = tok_Effect t, clp_Attempt = attempt\<rparr>"
    using well_called_payload [OF t, of attempt] last by (simp add: min_i64_def max_i64_def)
  show ?thesis
  proof (cases "map_of (rl_calls l) (tok_CallID t)")
    case None
    then show ?thesis using dec dig att ne
      by (intro exI [of _ "\<lparr>cst_ToolName = tok_ToolName t, cst_ArgsDigest = tok_ArgsDigest t, cst_Arguments = args,
          cst_RequestArgsDigest = [], cst_Read = tok_Read t, cst_Effect = tok_Effect t, cst_Requested = False,
          cst_Dispatched = True, cst_Attempts = attempt, cst_Outcome = None\<rparr>"]) (simp add: apply_typed_def apply_call_def open_call_def)
  next
    case (Some st)
    show ?thesis
    proof (cases "cst_Dispatched st")
      case True
      then show ?thesis using Some ok dec dig att ne
        by (intro exI [of _ "st\<lparr>cst_Attempts := attempt\<rparr>"]) (simp add: apply_typed_def apply_call_def may_call_def open_call_def)
    next
      case False
      then show ?thesis using Some ok dec dig att ne
        by (intro exI [of _ "st\<lparr>cst_ArgsDigest := tok_ArgsDigest t, cst_Arguments := args, cst_Dispatched := True, cst_Attempts := attempt\<rparr>"])
          (simp add: apply_typed_def apply_call_def may_call_def open_call_def)
    qed
  qed
qed

lemma complete_nonneg:
  assumes "in_step sum256 sc rid l s"
  shows "0 \<le> rl_lastSequence l"
proof -
  have "cached sum256 (run_log s sc (trim_space rid)) sc rid l" "numbered rev_Sequence (run_log s sc (trim_space rid))"
    using assms by (simp_all add: in_step_def run_ready_def log_wf_def)
  then show ?thesis by (rule cachedD) simp
qed

lemma call_event_kept:
  assumes at: "in_step sum256 sc rid l s" and t: "well_called sum256 args t" and ok: "may_call t attempt l"
    and b: "bounded_attempts l" "rl_lastSequence l < max_i64"
  shows "\<exists>m. apply_typed sum256 event_call t (json_encode (call_payload_json args (tok_Read t) (tok_Effect t) attempt)) l = Inr m \<and>
    bounded_attempts (m\<lparr>rl_lastSequence := rl_lastSequence l + 1\<rparr>)"
proof -
  obtain st where st: "apply_typed sum256 event_call t (json_encode (call_payload_json args (tok_Read t) (tok_Effect t) attempt)) l =
      Inr (l\<lparr>rl_calls := mput (tok_CallID t) st (rl_calls l)\<rparr>)" "cst_Attempts st \<le> rl_lastSequence l + 1"
    using call_event_applies [OF t ok b(1) complete_nonneg [OF at] b(2)] by blast
  show ?thesis
    by (intro exI conjI, rule st(1), rule bounded_put [OF b(1) st(2), where cid = "tok_CallID t"]) simp
qed

lemma json_encode_object [simp]: "json_encode (JObject kvs) \<noteq> []"
  by simp

lemma call_payload_nonempty [simp]: "json_encode (call_payload_json a r e n) \<noteq> []"
  by (simp add: call_payload_json_def)

text \<open>What an admission tells: the ledger had read the whole log, and the log now says the call was
  dispatched.\<close>

definition admitted :: "(string \<Rightarrow> string) \<Rightarrow> scope \<Rightarrow> string \<Rightarrow> call_token \<Rightarrow> run_ledger \<Rightarrow> memory_store \<Rightarrow> memory_store \<Rightarrow> bool" where
  "admitted sum256 sc rid t l s s' \<longleftrightarrow>
     apply_events sum256 (run_log s sc (trim_space rid)) (fresh_ledger sc rid) = (None, l) \<and>
     known sum256 (run_log s' sc (trim_space rid)) sc rid (tok_CallID t) (open_call t) \<and>
     (case map_of (rl_calls l) (tok_CallID t) of None \<Rightarrow> True | Some st \<Rightarrow> cst_Dispatched st \<longrightarrow> cst_Read st \<and> tok_Read t)"

lemma begin_event_effect:
  assumes at: "in_step sum256 sc rid l s" and t: "well_called sum256 args t" and ok: "may_call t attempt l"
    and op: "and_return (dispatch_call t) (appendLedgerEvent sum256 now (begin_event l args t attempt) l s) = (r, l', s')"
  shows "advances sum256 sc rid l s l' s'" "r = Return (Inr d) \<Longrightarrow> d = dispatch_call t \<and> admitted sum256 sc rid t l s s'"
proof -
  obtain q where q: "appendLedgerEvent sum256 now (begin_event l args t attempt) l s = (q, l', s')"
    and r: "r = Return (Inr d) \<longleftrightarrow> q = Return (Inr ()) \<and> d = dispatch_call t" for d
    using op by (auto simp: and_return_def split: prod.splits attempt.splits sum.splits)
  note eff = append_event_advances [OF at t _ call_payload_nonempty q [unfolded begin_event_def] call_event_kept [OF at t ok], simplified]
  show "advances sum256 sc rid l s l' s'" by (rule eff(1))
  show "d = dispatch_call t \<and> admitted sum256 sc rid t l s s'" if "r = Return (Inr d)"
  proof -
    have q: "q = Return (Inr ())" and d: "d = dispatch_call t" using that r by simp_all
    have full: "apply_events sum256 (run_log s sc (trim_space rid)) (fresh_ledger sc rid) = (None, l)"
      "apply_events sum256 (run_log s' sc (trim_space rid)) (fresh_ledger sc rid) = (None, l')" using eff(2) [OF q] by simp_all
    obtain m n where m: "apply_typed sum256 event_call t (json_encode (call_payload_json args (tok_Read t) (tok_Effect t) attempt)) l = Inr m"
      "l' = m\<lparr>rl_lastSequence := n\<rparr>" using eff(2) [OF q] by blast
    have "bounded_attempts l" "rl_lastSequence l < max_i64" using eff(2) [OF q] by simp_all
    then obtain st where st: "m = l\<lparr>rl_calls := mput (tok_CallID t) st (rl_calls l)\<rparr>" "open_call t st"
      using call_event_applies [OF t ok _ complete_nonneg [OF at]] m(1) by auto
    then have "map_of (rl_calls l') (tok_CallID t) = Some st" using m(2) by simp
    from known_complete [OF full(2) this, of "open_call t", OF st(2)]
    show ?thesis using full(1) d ok by (auto simp: admitted_def may_call_def split: option.splits if_splits)
  qed
qed

subsection \<open>The attempts\<close>

definition settled_as :: "tool_outcome \<Rightarrow> call_state \<Rightarrow> bool" where
  "settled_as oc st \<longleftrightarrow> cst_Outcome st = Some oc"

text \<open>What the decision of a call tells.\<close>

definition decided :: "(string \<Rightarrow> string) \<Rightarrow> scope \<Rightarrow> string \<Rightarrow> call_token \<Rightarrow> run_ledger \<Rightarrow> memory_store \<Rightarrow> memory_store \<Rightarrow>
    call_decision \<Rightarrow> bool" where
  "decided sum256 sc rid t l s s' d \<longleftrightarrow>
     (case dcn_Replay d of
        Some oc \<Rightarrow> known sum256 (run_log s' sc (trim_space rid)) sc rid (tok_CallID t) (settled_as oc)
      | None \<Rightarrow> d = dispatch_call t \<and> admitted sum256 sc rid t l s s')"

lemma replay_effect:
  assumes at: "in_step sum256 sc rid l s" and st: "map_of (rl_calls l) (tok_CallID t) = Some state" "cst_Outcome state = Some oc"
    and op: "replay_call now t args state oc l s = (r, l', s')"
  shows "advances sum256 sc rid l s l' s'"
    "r = Return (Inr d) \<Longrightarrow> dcn_Replay d = Some oc \<and> known sum256 (run_log s' sc (trim_space rid)) sc rid (tok_CallID t) (settled_as oc)"
proof -
  obtain q s1 where q: "ensureToolConversation now l (tok_CallID t) (tok_ToolName t) args (max (cst_Attempts state) 1) (Some oc) s = (q, s1)"
    by fastforce
  have eq: "l' = l" "s' = s1" using op q by (auto simp: replay_call_def split: sum.splits)
  show adv: "advances sum256 sc rid l s l' s'" using same_log_advances [OF at ensure_log [OF q]] eq by simp
  show "dcn_Replay d = Some oc \<and> known sum256 (run_log s' sc (trim_space rid)) sc rid (tok_CallID t) (settled_as oc)"
    if "r = Return (Inr d)"
  proof -
    have "dcn_Replay d = Some oc" using that op q by (cases q) (auto simp: replay_call_def)
    moreover have "known sum256 (run_log s sc (trim_space rid)) sc rid (tok_CallID t) (settled_as oc)"
      using known_cached [OF at st(1)] st(2) by (simp add: settled_as_def)
    ultimately show ?thesis using known_advances [OF _ adv] by blast
  qed
qed

lemma admitted_same_log: "same_log s s1 sc rid \<Longrightarrow> admitted sum256 sc rid t l s1 s' \<Longrightarrow> admitted sum256 sc rid t l s s'"
  by (simp add: admitted_def same_log_def)

lemma admit_call_effect:
  assumes at: "in_step sum256 sc rid l s" and t: "well_called sum256 args t" and ok: "may_call t attempt l"
    and op: "admit_call sum256 now args t attempt l s = (r, l', s')"
  shows "advances sum256 sc rid l s l' s'" "r = Return (Inr d) \<Longrightarrow> d = dispatch_call t \<and> admitted sum256 sc rid t l s s'"
proof -
  obtain q s1 where q: "appendToolCallConversation now l (tok_CallID t) (tok_ToolName t) args attempt s = (q, s1)" by fastforce
  note log = conversation_log(1) [OF q, of sc rid]
  have "advances sum256 sc rid l s l' s' \<and> (\<forall>d. r = Return (Inr d) \<longrightarrow> d = dispatch_call t \<and> admitted sum256 sc rid t l s s')"
  proof (cases q)
    case (Inl e)
    then show ?thesis using op q same_log_advances [OF at log] by (auto simp: admit_call_def)
  next
    case (Inr u)
    then have ev: "and_return (dispatch_call t) (appendLedgerEvent sum256 now (begin_event l args t attempt) l s1) = (r, l', s')"
      using op q by (simp add: admit_call_def)
    show ?thesis
      using begin_event_effect [OF same_log_in_step [OF at log] t ok ev] same_log_back [OF log] admitted_same_log [OF log] by blast
  qed
  then show "advances sum256 sc rid l s l' s'" "r = Return (Inr d) \<Longrightarrow> d = dispatch_call t \<and> admitted sum256 sc rid t l s s'"
    by blast+
qed

lemma call_state_ok:
  assumes "in_step sum256 sc rid l s" "map_of (rl_calls l) cid = Some st"
  shows "call_ok st"
  using assms cached_ok by (auto simp: in_step_def ledger_ok_def)

lemma decided_dispatch:
  "d = dispatch_call t \<and> admitted sum256 sc rid t l s s' \<Longrightarrow> decided sum256 sc rid t l s s' d"
  by (simp add: decided_def dispatch_call_def)

lemma begin_attempt_effect:
  assumes at: "in_step sum256 sc rid l s" and t: "well_called sum256 args t"
    and op: "begin_attempt sum256 now args t l s = (r, l', s')"
  shows "advances sum256 sc rid l s l' s'" "r = Return (Inr d) \<Longrightarrow> decided sum256 sc rid t l s s' d"
proof -
  have admit: "advances sum256 sc rid l s l' s' \<and> (\<forall>d. r = Return (Inr d) \<longrightarrow> decided sum256 sc rid t l s s' d)"
    if "advances sum256 sc rid l s l' s'" "\<And>d. r = Return (Inr d) \<Longrightarrow> d = dispatch_call t \<and> admitted sum256 sc rid t l s s'"
    using that(1) decided_dispatch [OF that(2)] by blast
  have "advances sum256 sc rid l s l' s' \<and> (\<forall>d. r = Return (Inr d) \<longrightarrow> decided sum256 sc rid t l s s' d)"
  proof (cases "map_of (rl_calls l) (tok_CallID t)")
    case None
    then have "may_call t 1 l" "admit_call sum256 now args t 1 l s = (r, l', s')"
      using op by (simp_all add: may_call_def begin_attempt_def)
    note admit_call_effect [OF at t this]
    then show ?thesis by (rule admit)
  next
    case (Some state)
    let ?req = "cst_Requested state \<and> \<not> cst_Dispatched state"
    let ?check = "if ?req then
                   (if cst_ToolName state \<noteq> tok_ToolName t \<or> cst_Read state \<noteq> tok_Read t \<or> cst_Effect state \<noteq> tok_Effect t
                    then Inl (CallIDConflict (tok_CallID t)) else Inr ())
                 else toolCallStateMatches state t"
    show ?thesis
    proof (cases "?check")
      case (Inl e)
      then have "(Return (Inl e), l, s) = (r, l', s')"
        using op unfolding begin_attempt_def Some option.case by (simp only: sum.case)
      then show ?thesis using same_log_advances [OF at same_log_refl] by auto
    next
      case (Inr u)
      have same: "cst_ToolName state = tok_ToolName t \<and> cst_Read state = tok_Read t \<and> cst_Effect state = tok_Effect t \<and>
          (\<not> ?req \<longrightarrow> cst_ArgsDigest state = tok_ArgsDigest t)"
        using Inr by (cases ?req) (simp_all add: toolCallStateMatches_def split: if_splits)
      have body: "(case cst_Outcome state of
             Some outcome \<Rightarrow> replay_call now t args state outcome l s
           | None \<Rightarrow>
              if ?req
              then and_return (dispatch_call t) (appendLedgerEvent sum256 now (begin_event l args t 1) l s)
              else (case appendToolCallConversation now l (tok_CallID t) (tok_ToolName t) args (cst_Attempts state) s of
                 (Inl e, s') \<Rightarrow> (Return (Inl e), l, s')
               | (Inr _, s') \<Rightarrow>
                  if cst_Effect state then (Return (Inl (IncompleteEffect (tok_CallID t))), l, s')
                  else if \<not> cst_Read state then (Return (Inl (IncompleteNonRead (tok_CallID t))), l, s')
                  else admit_call sum256 now args t (i64 (cst_Attempts state + 1)) l s')) = (r, l', s')"
        using op Inr unfolding begin_attempt_def Some option.case by (simp only: sum.case)
      show ?thesis
      proof (cases "cst_Outcome state")
        case (Some oc)
        then have "replay_call now t args state oc l s = (r, l', s')" using body by simp
        note replay_effect [OF at \<open>map_of (rl_calls l) (tok_CallID t) = Some state\<close> Some this]
        then show ?thesis by (auto simp: decided_def)
      next
        case None
        show ?thesis
        proof (cases ?req)
          case True
          then have "may_call t 1 l" using Some None same by (simp add: may_call_def)
          moreover have "and_return (dispatch_call t) (appendLedgerEvent sum256 now (begin_event l args t 1) l s) = (r, l', s')"
            using body None True by simp
          note begin_event_effect [OF at t calculation this]
          then show ?thesis by (rule admit)
        next
          case False
          have disp: "cst_Dispatched state" "1 \<le> cst_Attempts state"
            using call_state_ok [OF at Some] False by (auto simp: call_ok_def split: if_splits)
          obtain q s1 where q: "appendToolCallConversation now l (tok_CallID t) (tok_ToolName t) args (cst_Attempts state) s = (q, s1)"
            by fastforce
          note log = conversation_log(1) [OF q, of sc rid]
          show ?thesis
          proof (cases "isl q \<or> cst_Effect state \<or> \<not> cst_Read state")
            case True
            then have "\<exists>e. (Return (Inl e), l, s1) = (r, l', s')"
              using body unfolding None option.case if_not_P [OF False] q by (cases q) (auto split: if_splits)
            then show ?thesis using same_log_advances [OF at log] by auto
          next
            case read: False
            then have ev: "admit_call sum256 now args t (i64 (cst_Attempts state + 1)) l s1 = (r, l', s')"
              using body unfolding None option.case if_not_P [OF False] q by (cases q) simp_all
            have ok: "may_call t (i64 (cst_Attempts state + 1)) l"
              using Some None same disp read False by (simp add: may_call_def)
            note eff = admit_call_effect [OF same_log_in_step [OF at log] t ok ev]
            show ?thesis
            proof (rule admit)
              show "advances sum256 sc rid l s l' s'" by (rule same_log_back [OF log eff(1)])
              show "d = dispatch_call t \<and> admitted sum256 sc rid t l s s'" if "r = Return (Inr d)" for d
                using eff(2) [OF that] admitted_same_log [OF log] by simp
            qed
          qed
        qed
      qed
    qed
  qed
  then show "advances sum256 sc rid l s l' s'" "r = Return (Inr d) \<Longrightarrow> decided sum256 sc rid t l s s' d" by blast+
qed

lemma record_attempt_effect:
  assumes at: "in_step sum256 sc rid l s" and t: "well_called sum256 args t"
    and op: "record_attempt sum256 now args t l s = (r, l', s')"
  shows "advances sum256 sc rid l s l' s'"
    "r = Return (Inr d) \<Longrightarrow> dcn_Replay d = Some oc \<Longrightarrow>
       known sum256 (run_log s' sc (trim_space rid)) sc rid (tok_CallID t) (settled_as oc)"
proof -
  have "advances sum256 sc rid l s l' s' \<and> (\<forall>d oc. r = Return (Inr d) \<longrightarrow> dcn_Replay d = Some oc \<longrightarrow>
       known sum256 (run_log s' sc (trim_space rid)) sc rid (tok_CallID t) (settled_as oc))"
  proof (cases "map_of (rl_calls l) (tok_CallID t)")
    case None
    obtain q s1 where q: "appendToolCallConversation now l (tok_CallID t) (tok_ToolName t) args 1 s = (q, s1)" by fastforce
    note log = conversation_log(1) [OF q, of sc rid]
    show ?thesis
    proof (cases q)
      case (Inl e)
      then show ?thesis using op q None same_log_advances [OF at log] by (auto simp: record_attempt_def)
    next
      case (Inr u)
      let ?raw = "json_encode (call_payload_json args (tok_Read t) (tok_Effect t) 0)"
      obtain p where p: "appendLedgerEvent sum256 now (ledger_event l event_request t ?raw) l s1 = (p, l', s')"
        and r: "and_return (dispatch_call t) (p, l', s') = (r, l', s')"
        using op q Inr None by (auto simp: record_attempt_def and_return_def split: prod.splits attempt.splits sum.splits)
      let ?st = "\<lparr>cst_ToolName = tok_ToolName t, cst_ArgsDigest = tok_ArgsDigest t, cst_Arguments = args,
          cst_RequestArgsDigest = tok_ArgsDigest t, cst_Read = tok_Read t, cst_Effect = tok_Effect t, cst_Requested = True,
          cst_Dispatched = False, cst_Attempts = 0, cst_Outcome = None\<rparr>"
      have applies: "\<exists>m. apply_typed sum256 event_request t ?raw l = Inr m \<and>
          bounded_attempts (m\<lparr>rl_lastSequence := rl_lastSequence l + 1\<rparr>)" if b: "bounded_attempts l"
      proof (intro exI conjI)
        show "apply_typed sum256 event_request t ?raw l = Inr (l\<lparr>rl_calls := mput (tok_CallID t) ?st (rl_calls l)\<rparr>)"
          using None well_called_payload [OF t, of 0] well_called_digest(8) [OF t]
          by (simp add: apply_typed_def apply_request_def min_i64_def max_i64_def)
        show "bounded_attempts (l\<lparr>rl_calls := mput (tok_CallID t) ?st (rl_calls l)\<rparr>\<lparr>rl_lastSequence := rl_lastSequence l + 1\<rparr>)"
          using bounded_put [OF b, of ?st _ "tok_CallID t"] complete_nonneg [OF at] by simp
      qed
      note eff = append_event_advances(1) [OF same_log_in_step [OF at log] t _ call_payload_nonempty p applies, simplified]
      have "\<not> (\<exists>d oc. r = Return (Inr d) \<and> dcn_Replay d = Some oc)"
        using r by (auto simp: and_return_def dispatch_call_def split: attempt.splits sum.splits)
      then show ?thesis using same_log_back [OF log eff] by blast
    qed
  next
    case (Some state)
    show ?thesis
    proof (cases "isl (toolRequestStateMatches state t) \<or> cst_Outcome state = None")
      case True
      obtain q s1 where q: "appendToolCallConversation now l (tok_CallID t) (tok_ToolName t) args (max (cst_Attempts state) 1) s = (q, s1)"
        by fastforce
      have "advances sum256 sc rid l s l s" "advances sum256 sc rid l s l s1"
        using same_log_advances [OF at] conversation_log(1) [OF q] by simp_all
      then show ?thesis using op Some True q
        by (auto simp: record_attempt_def dispatch_call_def split: sum.splits)
    next
      case False
      then obtain oc u where oc: "cst_Outcome state = Some oc" "toolRequestStateMatches state t = Inr u"
        by (cases "toolRequestStateMatches state t") auto
      then have "replay_call now t args state oc l s = (r, l', s')" using op Some by (simp add: record_attempt_def)
      note replay_effect [OF at Some oc(1) this]
      then show ?thesis by auto
    qed
  qed
  then show "advances sum256 sc rid l s l' s'"
    "r = Return (Inr d) \<Longrightarrow> dcn_Replay d = Some oc \<Longrightarrow>
       known sum256 (run_log s' sc (trim_space rid)) sc rid (tok_CallID t) (settled_as oc)" by blast+
qed

text \<open>The outcome that is told when a call is finished is the one the log holds, up to the coercion of
  its texts to UTF-8 when they are stored.\<close>

lemma replacement_bytes: "replacement = [CHR 0xEF, CHR 0xBF, CHR 0xBD]"
  by (simp add: replacement_def utf8_def char_of_def bit_0)

lemma rune_width_replacement [simp]: "rune_width (replacement @ s) = 3"
  by (simp add: rune_width_def replacement_bytes rune_len_def between_def)

lemma coerce_replacement: "coerce_utf8 (replacement @ s) = replacement @ coerce_utf8 s"
  by (subst coerce_utf8.simps) (simp add: replacement_bytes rune_width_replacement [unfolded replacement_bytes, simplified])

lemma coerce_utf8_idem [simp]: "coerce_utf8 (coerce_utf8 s) = coerce_utf8 s"
proof (induction s rule: coerce_utf8.induct)
  case (1 s)
  show ?case
  proof (cases "s = []")
    case False
    show ?thesis
    proof (cases "rune_width s = 0")
      case True
      then show ?thesis using 1(1) False coerce_replacement by (simp add: coerce_utf8.simps [of s])
    next
      case w: False
      have local: "rune_width (take (rune_width s) s @ r) = rune_width s \<and> rune_width s \<le> length s" for r
      proof (cases s)
        case (Cons a s')
        show ?thesis
        proof (cases "between 0 0x7F a")
          case True
          then show ?thesis using Cons by (simp add: rune_width_def)
        next
          case nb: False
          then have eq: "rune_width s = rune_len s" using Cons by (simp add: rune_width_def)
          note loc = rune_len_local [of s r]
          have "take (rune_len s) s = a # take (rune_len s - 1) s'" using Cons w eq by (cases "rune_len s") auto
          then have "rune_width (take (rune_len s) s @ r) = rune_len (take (rune_len s) s @ r)" using nb by (simp add: rune_width_def)
          then show ?thesis using loc w eq by simp
        qed
      qed (use False in simp)
      have "coerce_utf8 (take (rune_width s) s @ coerce_utf8 (drop (rune_width s) s)) =
          take (rune_width s) s @ coerce_utf8 (coerce_utf8 (drop (rune_width s) s))"
        using local [of "coerce_utf8 (drop (rune_width s) s)"] w False
        by (subst coerce_utf8.simps) simp
      then show ?thesis using 1(2) False w by (simp add: coerce_utf8.simps [of s])
    qed
  qed (simp add: coerce_utf8.simps)
qed

lemma durable_idem [simp]: "durable (durable oc) = durable oc"
  by (simp add: durable_def)

definition settled_like :: "tool_outcome \<Rightarrow> call_state \<Rightarrow> bool" where
  "settled_like oc st \<longleftrightarrow> (\<exists>oc'. cst_Outcome st = Some oc' \<and> durable oc' = durable oc)"

lemma result_payload_nonempty [simp]: "json_encode (result_payload_json oc) \<noteq> []"
  by (simp add: result_payload_json_def)

lemma result_event_kept:
  assumes t: "well_called sum256 args t" and st: "map_of (rl_calls l) (tok_CallID t) = Some state" "cst_Outcome state = None"
      "cst_ToolName state = tok_ToolName t" "cst_ArgsDigest state = tok_ArgsDigest t"
    and oc: "final_outcome t (cst_Arguments state) result err plan = Inr oc" and b: "bounded_attempts l"
  shows "\<exists>m. apply_typed sum256 event_result t (json_encode (result_payload_json oc)) l = Inr m \<and>
    map_of (rl_calls m) (tok_CallID t) = Some (state\<lparr>cst_Outcome := Some (durable oc)\<rparr>) \<and>
    bounded_attempts (m\<lparr>rl_lastSequence := rl_lastSequence l + 1\<rparr>)"
proof -
  let ?st = "state\<lparr>cst_Outcome := Some (durable oc)\<rparr>"
  obtain payload where pl: "decode_result_payload (json_encode (result_payload_json oc)) = Some payload"
    "settle_outcome (tok_ToolName t) (cst_Arguments state) payload = Inr (durable oc)"
    using finished_settles [OF oc] by blast
  have types: "event_result \<noteq> event_request" "event_result \<noteq> event_call" by (simp_all add: event_types)
  obtain plan' where m: "apply_typed sum256 event_result t (json_encode (result_payload_json oc)) l =
      Inr (l\<lparr>rl_calls := mput (tok_CallID t) ?st (rl_calls l), rl_latestPlanSnapshot := plan'\<rparr>)"
    using st pl types by (simp add: apply_typed_def apply_result_def)
  have "cst_Attempts ?st \<le> rl_lastSequence l + 1" using b st(1) by (fastforce simp: bounded_attempts_def)
  then show ?thesis using m bounded_put [OF b, of ?st _ "tok_CallID t"] by simp
qed

lemma known_mono: "known sum256 log sc rid cid P \<Longrightarrow> (\<And>st. P st \<Longrightarrow> Q st) \<Longrightarrow> known sum256 log sc rid cid Q"
  unfolding known_def by blast

lemma finish_attempt_effect:
  assumes at: "in_step sum256 sc rid l s" and t: "well_called sum256 args t"
    and op: "finish_attempt sum256 now t result invokeErr plan l s = (r, l', s')"
  shows "advances sum256 sc rid l s l' s'"
    "r = Return (Inr oc) \<Longrightarrow> known sum256 (run_log s' sc (trim_space rid)) sc rid (tok_CallID t) (settled_like oc)"
proof -
  note trim = well_called_digest(5) [OF t]
  have keep: "advances sum256 sc rid l s l s" using same_log_advances [OF at] by simp
  have "advances sum256 sc rid l s l' s' \<and> (\<forall>oc. r = Return (Inr oc) \<longrightarrow>
       known sum256 (run_log s' sc (trim_space rid)) sc rid (tok_CallID t) (settled_like oc))"
  proof (cases "map_of (rl_calls l) (tok_CallID t)")
    case None
    then show ?thesis using op keep trim by (auto simp: finish_attempt_def)
  next
    case (Some state)
    let ?differs = "cst_ToolName state \<noteq> tok_ToolName t \<or> cst_ArgsDigest state \<noteq> tok_ArgsDigest t \<or>
             cst_Read state \<noteq> tok_Read t \<or> cst_Effect state \<noteq> tok_Effect t"
    show ?thesis
    proof (cases ?differs)
      case True
      then have "(Return (Inl (CallIDConflict (tok_CallID t))), l, s) = (r, l', s')"
        using op unfolding finish_attempt_def trim Some option.case if_P [OF True] by simp
      then show ?thesis using keep by auto
    next
      case False
      note op' = op [unfolded finish_attempt_def trim Some option.case if_not_P [OF False]]
      show ?thesis
      proof (cases "cst_Outcome state")
        case (Some oc)
        obtain q s1 where q: "appendToolResultConversation now l (tok_CallID t) (tok_ToolName t) oc s = (q, s1)" by fastforce
        have eq: "l' = l" "s' = s1" "\<forall>oc'. r = Return (Inr oc') \<longrightarrow> oc' = oc" using op' Some q by (cases q; auto)+
        have adv: "advances sum256 sc rid l s l s1" using same_log_advances [OF at conversation_log(2) [OF q]] .
        have "known sum256 (run_log s sc (trim_space rid)) sc rid (tok_CallID t) (settled_like oc)"
          using known_cached [OF at \<open>map_of (rl_calls l) (tok_CallID t) = Some state\<close>] Some by (simp add: settled_like_def)
        then have "known sum256 (run_log s1 sc (trim_space rid)) sc rid (tok_CallID t) (settled_like oc)"
          by (rule known_advances [OF _ adv])
        then show ?thesis using adv eq by auto
      next
        case None
        show ?thesis
        proof (cases "final_outcome t (cst_Arguments state) result invokeErr plan")
          case (Inl e)
          then show ?thesis using op' None keep by auto
        next
          case (Inr outcome)
          let ?raw = "json_encode (result_payload_json outcome)"
          obtain p l1 s1 where p: "appendLedgerEvent sum256 now (ledger_event l event_result t ?raw) l s = (p, l1, s1)"
            by (cases "appendLedgerEvent sum256 now (ledger_event l event_result t ?raw) l s") auto
          let ?st = "state\<lparr>cst_Outcome := Some (durable outcome)\<rparr>"
          note kept = result_event_kept [OF t Some None _ _ Inr]
          have applies: "\<exists>m. apply_typed sum256 event_result t ?raw l = Inr m \<and>
              bounded_attempts (m\<lparr>rl_lastSequence := rl_lastSequence l + 1\<rparr>)" if "bounded_attempts l"
            using kept [OF _ _ that] False by blast
          note eff = append_event_advances [OF at t _ result_payload_nonempty p applies, simplified]
          show ?thesis
          proof (cases "p = Return (Inr ())")
            case True
            obtain q s2 where q: "appendToolResultConversation now l1 (tok_CallID t) (tok_ToolName t) outcome s1 = (q, s2)" by fastforce
            note log = conversation_log(2) [OF q, of sc rid]
            have eq: "l' = l1" "s' = s2" "\<forall>oc'. r = Return (Inr oc') \<longrightarrow> oc' = outcome" using op' None Inr p True q by (cases q; auto)+
            have adv: "advances sum256 sc rid l s l1 s2"
              using eff(1) same_log_advances [OF _ log, of sum256 l1] advances_trans [OF eff(1)] by (auto simp: advances_def)
            have "map_of (rl_calls l1) (tok_CallID t) = Some ?st"
              using eff(2) [OF True] kept False by fastforce
            then have "known sum256 (run_log s1 sc (trim_space rid)) sc rid (tok_CallID t) (settled_like outcome)"
              using eff(1) known_cached [of sum256 sc rid l1 s1] by (auto simp: advances_def settled_like_def)
            then have "known sum256 (run_log s2 sc (trim_space rid)) sc rid (tok_CallID t) (settled_like outcome)"
              using log by (simp add: same_log_def)
            then show ?thesis using adv eq by auto
          next
            case False
            then have "l' = l1" "s' = s1" "\<forall>oc'. r \<noteq> Return (Inr oc')" using op' None Inr p
              by (auto split: attempt.splits sum.splits)
            then show ?thesis using eff(1) by simp
          qed
        qed
      qed
    qed
  qed
  then show "advances sum256 sc rid l s l' s'"
    "r = Return (Inr oc) \<Longrightarrow> known sum256 (run_log s' sc (trim_space rid)) sc rid (tok_CallID t) (settled_like oc)" by blast+
qed

end
