(* ===== verification/Assistant_Ledger_System.thy ===== *)
theory Assistant_Ledger_System
  imports Assistant_Ledger_Runs
begin

section \<open>App Studio assistant: the ledger under concurrent processes\<close>

text \<open>
  The processes that share the log of a run as a transition system. A state is the store, the ledger
  of every process and what callers were told so far: that a call may be dispatched, or its outcome.
  A round of an operation is two steps, a refresh and an attempt, with steps of others between them;
  an attempt also happens with a ledger whose refresh failed or is old, which the code does not do.
\<close>

subsection \<open>The system\<close>

datatype told = Dispatched string bool | Told string tool_outcome

record ledger_system =
  lsy_store :: memory_store
  lsy_ledgers :: "nat \<Rightarrow> run_ledger"
  lsy_told :: "told list"

definition begin_told :: "call_token \<Rightarrow> call_decision lres attempt \<Rightarrow> told list" where
  "begin_told t r = (case r of
       Return (Inr d) \<Rightarrow> (case dcn_Replay d of
           None \<Rightarrow> [Dispatched (tok_CallID t) (tok_Read t)] | Some oc \<Rightarrow> [Told (tok_CallID t) oc])
     | _ \<Rightarrow> [])"

definition record_told :: "call_token \<Rightarrow> call_decision lres attempt \<Rightarrow> told list" where
  "record_told t r = (case r of
       Return (Inr d) \<Rightarrow> (case dcn_Replay d of None \<Rightarrow> [] | Some oc \<Rightarrow> [Told (tok_CallID t) oc])
     | _ \<Rightarrow> [])"

definition finish_told :: "call_token \<Rightarrow> tool_outcome lres attempt \<Rightarrow> told list" where
  "finish_told t r = (case r of Return (Inr oc) \<Rightarrow> [Told (tok_CallID t) oc] | _ \<Rightarrow> [])"

definition look_told :: "string \<Rightarrow> tool_outcome option lres \<Rightarrow> told list" where
  "look_told cid r = (case r of Inr (Some oc) \<Rightarrow> [Told (trim_space cid) oc] | _ \<Rightarrow> [])"

definition put_ledger :: "nat \<Rightarrow> run_ledger \<Rightarrow> memory_store \<Rightarrow> told list \<Rightarrow> ledger_system \<Rightarrow> ledger_system" where
  "put_ledger i l s facts \<sigma> =
     \<lparr>lsy_store = s, lsy_ledgers = (lsy_ledgers \<sigma>)(i := l), lsy_told = lsy_told \<sigma> @ facts\<rparr>"

text \<open>A process names a call by a registered tool and arguments decoded from JSON.\<close>

definition names_call :: "(string \<Rightarrow> string) \<Rightarrow> run_ledger \<Rightarrow> json \<Rightarrow> call_token \<Rightarrow> bool" where
  "names_call sum256 l v t \<longleftrightarrow> decoded_args v \<and>
     (\<exists>cid name risk a. registered_name name \<and> call_token_for sum256 cid name risk a l = Inr (v, t))"

text \<open>What everybody else may do to the store: anything that keeps the log of the run and does not delete the run.
  Snapshots, claims and stops of this run, and operations on other runs, are such steps.\<close>

definition leaves_log :: "memory_store \<Rightarrow> memory_store \<Rightarrow> scope \<Rightarrow> string \<Rightarrow> bool" where
  "leaves_log s s' sc rid \<longleftrightarrow>
     (map_of (inner (assistantRuns s) sc) (trim_space rid) \<noteq> None \<longrightarrow> map_of (inner (assistantRuns s') sc) (trim_space rid) \<noteq> None) \<and>
     run_log s' sc (trim_space rid) = run_log s sc (trim_space rid)"

lemma leaves_log_ready: "leaves_log s s' sc rid \<Longrightarrow> run_ready s sc rid \<Longrightarrow> run_ready s' sc rid"
  by (simp add: leaves_log_def run_ready_def)

inductive ledger_step :: "(string \<Rightarrow> string) \<Rightarrow> scope \<Rightarrow> string \<Rightarrow> ledger_system \<Rightarrow> ledger_system \<Rightarrow> bool"
  for sum256 :: "string \<Rightarrow> string" and sc :: scope and rid :: string where
  restarts: "ledger_step sum256 sc rid \<sigma> (put_ledger i (newRunEventLedger sc rid) (lsy_store \<sigma>) [] \<sigma>)"
| refreshes: "refreshLocked sum256 (lsy_store \<sigma>) (lsy_ledgers \<sigma> i) = (e, l) \<Longrightarrow>
    ledger_step sum256 sc rid \<sigma> (put_ledger i l (lsy_store \<sigma>) [] \<sigma>)"
| requests: "rl_loaded (lsy_ledgers \<sigma> i) \<Longrightarrow> names_call sum256 (lsy_ledgers \<sigma> i) v t \<Longrightarrow>
    record_attempt sum256 now v t (lsy_ledgers \<sigma> i) (lsy_store \<sigma>) = (r, l, s) \<Longrightarrow>
    ledger_step sum256 sc rid \<sigma> (put_ledger i l s (record_told t r) \<sigma>)"
| begins: "rl_loaded (lsy_ledgers \<sigma> i) \<Longrightarrow> names_call sum256 (lsy_ledgers \<sigma> i) v t \<Longrightarrow>
    begin_attempt sum256 now v t (lsy_ledgers \<sigma> i) (lsy_store \<sigma>) = (r, l, s) \<Longrightarrow>
    ledger_step sum256 sc rid \<sigma> (put_ledger i l s (begin_told t r) \<sigma>)"
| finishes: "rl_loaded (lsy_ledgers \<sigma> i) \<Longrightarrow> names_call sum256 (lsy_ledgers \<sigma> i) v t \<Longrightarrow>
    finish_attempt sum256 now t result err plan (lsy_ledgers \<sigma> i) (lsy_store \<sigma>) = (r', l, s) \<Longrightarrow>
    ledger_step sum256 sc rid \<sigma> (put_ledger i l s (finish_told t r') \<sigma>)"
| looks: "ToolCallOutcome sum256 cid (lsy_ledgers \<sigma> i) (lsy_store \<sigma>) = (seen, l) \<Longrightarrow>
    ledger_step sum256 sc rid \<sigma> (put_ledger i l (lsy_store \<sigma>) (look_told cid seen) \<sigma>)"
| others: "leaves_log (lsy_store \<sigma>) s sc rid \<Longrightarrow> ledger_step sum256 sc rid \<sigma> (\<sigma>\<lparr>lsy_store := s\<rparr>)"
| notices: "AppendAssistantRunEvent now sc e n (lsy_store \<sigma>) = (Inr saved, s) \<Longrightarrow> rev_RunID e = trim_space rid \<Longrightarrow>
    rev_Type saved \<notin> {event_request, event_call, event_result} \<Longrightarrow> ledger_step sum256 sc rid \<sigma> (\<sigma>\<lparr>lsy_store := s\<rparr>)"

inductive ledger_reach :: "(string \<Rightarrow> string) \<Rightarrow> scope \<Rightarrow> string \<Rightarrow> ledger_system \<Rightarrow> bool"
  for sum256 :: "string \<Rightarrow> string" and sc :: scope and rid :: string where
  start: "run_ready s sc rid \<Longrightarrow> run_log s sc (trim_space rid) = [] \<Longrightarrow>
    ledger_reach sum256 sc rid \<lparr>lsy_store = s, lsy_ledgers = (\<lambda>_. newRunEventLedger sc rid), lsy_told = []\<rparr>"
| step: "ledger_reach sum256 sc rid \<sigma> \<Longrightarrow> ledger_step sum256 sc rid \<sigma> \<sigma>' \<Longrightarrow> ledger_reach sum256 sc rid \<sigma>'"

subsection \<open>Its invariant\<close>

definition dispatched_read :: "bool \<Rightarrow> call_state \<Rightarrow> bool" where
  "dispatched_read read st \<longleftrightarrow> cst_Dispatched st \<and> cst_Read st = read"

definition fact_known :: "(string \<Rightarrow> string) \<Rightarrow> scope \<Rightarrow> string \<Rightarrow> run_event list \<Rightarrow> told \<Rightarrow> bool" where
  "fact_known sum256 sc rid log f = (case f of
     Dispatched cid r \<Rightarrow> known sum256 log sc rid cid (dispatched_read r)
   | Told cid oc \<Rightarrow> known sum256 log sc rid cid (settled_like oc))"

text \<open>The dispatches of a call, each by whether it was admitted as a read.\<close>

fun dispatches :: "string \<Rightarrow> told list \<Rightarrow> bool list" where
  "dispatches cid [] = []"
| "dispatches cid (Dispatched c r # fs) = (if c = cid then r # dispatches cid fs else dispatches cid fs)"
| "dispatches cid (Told c oc # fs) = dispatches cid fs"

definition once :: "bool list \<Rightarrow> bool" where
  "once rs \<longleftrightarrow> length rs \<le> 1 \<or> list_all id rs"

definition sys_ok :: "(string \<Rightarrow> string) \<Rightarrow> scope \<Rightarrow> string \<Rightarrow> ledger_system \<Rightarrow> bool" where
  "sys_ok sum256 sc rid \<sigma> \<longleftrightarrow>
     run_ready (lsy_store \<sigma>) sc rid \<and>
     sound_log sum256 sc rid (run_log (lsy_store \<sigma>) sc (trim_space rid)) \<and>
     (\<forall>i. ledger_of sum256 (run_log (lsy_store \<sigma>) sc (trim_space rid)) sc rid (lsy_ledgers \<sigma> i)) \<and>
     (\<forall>f \<in> set (lsy_told \<sigma>). fact_known sum256 sc rid (run_log (lsy_store \<sigma>) sc (trim_space rid)) f) \<and>
     (\<forall>cid. once (dispatches cid (lsy_told \<sigma>)))"

lemma dispatches_append [simp]: "dispatches cid (fs @ gs) = dispatches cid fs @ dispatches cid gs"
  by (induction cid fs rule: dispatches.induct) simp_all

lemma dispatches_fact: "r \<in> set (dispatches cid fs) \<Longrightarrow> Dispatched cid r \<in> set fs"
  by (induction cid fs rule: dispatches.induct) (auto split: if_splits)

lemma fact_known_append: "fact_known sum256 sc rid log f \<Longrightarrow> fact_known sum256 sc rid (log @ es) f"
  by (cases f) (simp_all add: fact_known_def known_append)

text \<open>A step of one ledger keeps the invariant when what it tells is known and dispatches no call twice.\<close>

lemma sys_ok_put:
  assumes ok: "sys_ok sum256 sc rid \<sigma>"
    and ready: "run_ready s sc rid" "sound_log sum256 sc rid (run_log s sc (trim_space rid))"
    and log: "run_log s sc (trim_space rid) = run_log (lsy_store \<sigma>) sc (trim_space rid) @ es"
    and l: "ledger_of sum256 (run_log s sc (trim_space rid)) sc rid l"
    and facts: "\<forall>f \<in> set facts. fact_known sum256 sc rid (run_log s sc (trim_space rid)) f"
    and disp: "\<forall>cid. once (dispatches cid (lsy_told \<sigma>) @ dispatches cid facts)"
  shows "sys_ok sum256 sc rid (put_ledger i l s facts \<sigma>)"
proof -
  have "ledger_of sum256 (run_log s sc (trim_space rid)) sc rid (lsy_ledgers \<sigma> j)" for j
    using ok log ledger_of_append by (auto simp: sys_ok_def)
  moreover have "fact_known sum256 sc rid (run_log s sc (trim_space rid)) f" if "f \<in> set (lsy_told \<sigma>)" for f
    using ok log fact_known_append that by (auto simp: sys_ok_def)
  ultimately show ?thesis using ready l facts disp by (auto simp: sys_ok_def put_ledger_def)
qed

lemma sys_ok_in_step:
  assumes "sys_ok sum256 sc rid \<sigma>" "rl_loaded (lsy_ledgers \<sigma> i)"
  shows "in_step sum256 sc rid (lsy_ledgers \<sigma> i) (lsy_store \<sigma>)"
proof -
  have "ledger_of sum256 (run_log (lsy_store \<sigma>) sc (trim_space rid)) sc rid (lsy_ledgers \<sigma> i)" using assms(1) by (simp add: sys_ok_def)
  moreover have "lsy_ledgers \<sigma> i \<noteq> newRunEventLedger sc rid" using assms(2) by (auto simp: newRunEventLedger_def)
  ultimately show ?thesis using assms(1) by (simp add: sys_ok_def in_step_def ledger_of_def)
qed

lemma sys_ok_attempt:
  assumes ok: "sys_ok sum256 sc rid \<sigma>" and adv: "advances sum256 sc rid (lsy_ledgers \<sigma> i) (lsy_store \<sigma>) l s"
    and facts: "\<forall>f \<in> set facts. fact_known sum256 sc rid (run_log s sc (trim_space rid)) f"
    and disp: "\<forall>cid. once (dispatches cid (lsy_told \<sigma>) @ dispatches cid facts)"
  shows "sys_ok sum256 sc rid (put_ledger i l s facts \<sigma>)"
proof -
  have at: "in_step sum256 sc rid l s" using adv by (simp add: advances_def)
  obtain es where "run_log s sc (trim_space rid) = run_log (lsy_store \<sigma>) sc (trim_space rid) @ es"
    using adv by (auto simp: advances_def)
  from sys_ok_put [OF ok _ _ this _ facts disp] at show ?thesis by (simp add: in_step_def ledger_of_def)
qed

lemma names_call_well: "names_call sum256 l v t \<Longrightarrow> well_called sum256 v t"
  unfolding names_call_def using call_token_well by blast

text \<open>An admission does not repeat a dispatch unless all of them are reads.\<close>

lemma admitted_once:
  assumes ok: "sys_ok sum256 sc rid \<sigma>" and ad: "admitted sum256 sc rid t l (lsy_store \<sigma>) s"
  shows "once (dispatches cid (lsy_told \<sigma>) @ dispatches cid [Dispatched (tok_CallID t) (tok_Read t)])"
proof (cases "tok_CallID t = cid \<and> dispatches cid (lsy_told \<sigma>) \<noteq> []")
  case False
  moreover have "once (dispatches cid (lsy_told \<sigma>))" using ok by (simp add: sys_ok_def)
  ultimately show ?thesis by (auto simp: once_def)
next
  case True
  have full: "apply_events sum256 (run_log (lsy_store \<sigma>) sc (trim_space rid)) (fresh_ledger sc rid) = (None, l)"
    using ad by (simp add: admitted_def)
  have both: "r \<and> tok_Read t" if "r \<in> set (dispatches cid (lsy_told \<sigma>))" for r
  proof -
    have "known sum256 (run_log (lsy_store \<sigma>) sc (trim_space rid)) sc rid cid (dispatched_read r)"
      using ok dispatches_fact [OF that] by (fastforce simp: sys_ok_def fact_known_def)
    from known_at [OF this full] obtain st st' where "dispatched_read r st" "extends st st'"
      "map_of (rl_calls l) cid = Some st'" by blast
    then show ?thesis using ad True by (auto simp: admitted_def dispatched_read_def extends_def)
  qed
  then have "tok_Read t" using True by (cases "dispatches cid (lsy_told \<sigma>)") auto
  then show ?thesis using both by (auto simp: once_def list_all_iff)
qed

lemma settled_likeI: "known sum256 log sc rid cid (settled_as oc) \<Longrightarrow> fact_known sum256 sc rid log (Told cid oc)"
  unfolding fact_known_def told.case by (erule known_mono) (simp add: settled_as_def settled_like_def)

lemma refresh_sound:
  assumes ok: "sys_ok sum256 sc rid \<sigma>" and op: "refreshLocked sum256 (lsy_store \<sigma>) (lsy_ledgers \<sigma> i) = (e, l)"
  shows "e = None" "apply_events sum256 (run_log (lsy_store \<sigma>) sc (trim_space rid)) (fresh_ledger sc rid) = (None, l)"
    "cached sum256 (run_log (lsy_store \<sigma>) sc (trim_space rid)) sc rid l"
proof -
  obtain m where m: "apply_events sum256 (run_log (lsy_store \<sigma>) sc (trim_space rid)) (fresh_ledger sc rid) = (None, m)"
    using ok by (auto simp: sys_ok_def sound_log_def)
  have "refreshLocked sum256 (lsy_store \<sigma>) (lsy_ledgers \<sigma> i) = (None, m)"
    using refresh_replays m ok by (auto simp: sys_ok_def)
  then show "e = None" and full: "apply_events sum256 (run_log (lsy_store \<sigma>) sc (trim_space rid)) (fresh_ledger sc rid) = (None, l)"
    using op m by simp_all
  show "cached sum256 (run_log (lsy_store \<sigma>) sc (trim_space rid)) sc rid l"
    unfolding cached_def using full by (intro exI [of _ "length (run_log (lsy_store \<sigma>) sc (trim_space rid))"]) simp
qed

lemma look_sound:
  assumes ok: "sys_ok sum256 sc rid \<sigma>" and op: "ToolCallOutcome sum256 cid (lsy_ledgers \<sigma> i) (lsy_store \<sigma>) = (seen, l)"
  shows "ledger_of sum256 (run_log (lsy_store \<sigma>) sc (trim_space rid)) sc rid l"
    "seen = Inr (Some oc) \<Longrightarrow> fact_known sum256 sc rid (run_log (lsy_store \<sigma>) sc (trim_space rid)) (Told (trim_space cid) oc)"
proof -
  let ?log = "run_log (lsy_store \<sigma>) sc (trim_space rid)"
  let ?settled = "\<lambda>m. case map_of (rl_calls m) (trim_space cid) of Some state \<Rightarrow> cst_Outcome state | None \<Rightarrow> None"
  have told: "fact_known sum256 sc rid ?log (Told (trim_space cid) oc)"
    if c: "cached sum256 ?log sc rid m" "?settled m = Some oc" for m oc
  proof -
    obtain st where "map_of (rl_calls m) (trim_space cid) = Some st" "cst_Outcome st = Some oc"
      using c(2) by (auto split: option.splits)
    then show ?thesis using c(1) by (auto simp: fact_known_def cached_def known_def settled_like_def)
  qed
  have old: "ledger_of sum256 ?log sc rid (lsy_ledgers \<sigma> i)" using ok by (simp add: sys_ok_def)
  have "ledger_of sum256 ?log sc rid l \<and> (\<forall>oc. seen = Inr (Some oc) \<longrightarrow> fact_known sum256 sc rid ?log (Told (trim_space cid) oc))"
  proof (cases "?settled (lsy_ledgers \<sigma> i)")
    case (Some oc)
    then have "seen = Inr (Some oc)" "l = lsy_ledgers \<sigma> i" using op by (simp_all add: ToolCallOutcome_def Let_def)
    moreover have "lsy_ledgers \<sigma> i \<noteq> newRunEventLedger sc rid" using Some by (auto simp: newRunEventLedger_def)
    ultimately show ?thesis using old told Some by (auto simp: ledger_of_def)
  next
    case None
    obtain e m where m: "refreshLocked sum256 (lsy_store \<sigma>) (lsy_ledgers \<sigma> i) = (e, m)" by fastforce
    note sound = refresh_sound [OF ok m]
    have "seen = Inr (?settled m)" "l = m" using op None m sound(1) by (auto simp: ToolCallOutcome_def Let_def)
    then show ?thesis using told sound(3) by (simp add: ledger_of_def)
  qed
  then show "ledger_of sum256 ?log sc rid l"
    "seen = Inr (Some oc) \<Longrightarrow> fact_known sum256 sc rid ?log (Told (trim_space cid) oc)" by blast+
qed

lemma notice_sound:
  assumes ok: "sys_ok sum256 sc rid \<sigma>"
    and op: "AppendAssistantRunEvent now sc e n (lsy_store \<sigma>) = (Inr saved, s)" "rev_RunID e = trim_space rid"
    and ty: "rev_Type saved \<notin> {event_request, event_call, event_result}"
  shows "sys_ok sum256 sc rid (\<sigma>\<lparr>lsy_store := s\<rparr>)"
proof -
  let ?log = "run_log (lsy_store \<sigma>) sc (trim_space rid)"
  have ready: "run_ready (lsy_store \<sigma>) sc rid" using ok by (simp add: sys_ok_def)
  obtain m where m: "apply_events sum256 ?log (fresh_ledger sc rid) = (None, m)" "bounded_attempts m"
    using ok by (auto simp: sys_ok_def sound_log_def)
  then have cached: "cached sum256 ?log sc rid m" unfolding cached_def by (intro exI [of _ "length ?log"]) simp
  have id: "rev_RunID saved = trim_space rid" using AppendAssistantRunEvent_success(4) [OF op(1)] op(2) by simp
  have "n = int (length ?log)"
    using AppendAssistantRunEvent_success(7) [OF op(1), unfolded id] ready by (simp add: run_ready_def)
  moreover have "rl_lastSequence m = int (length ?log)"
    using replay_last [of ?log "length ?log"] m(1) ready by (simp add: run_ready_def log_wf_def)
  ultimately have n: "rl_lastSequence m = n" by simp
  note ap = append_extends_log [OF ready cached op(1) [folded n] op(2)]
  have seq: "rev_Sequence saved = i64 (rl_lastSequence m + 1)" "rl_lastSequence m \<noteq> max_i64" "rl_lastSequence m \<le> max_i64"
    "0 \<le> rl_lastSequence m"
    using AppendAssistantRunEvent_success(1-3) [OF op(1)] n ready \<open>rl_lastSequence m = int (length ?log)\<close>
    by (simp_all add: run_ready_def log_wf_def)
  then have next_seq: "rev_Sequence saved = rl_lastSequence m + 1" by (simp add: i64_Suc)
  have "apply_event sum256 saved m = Inr (m\<lparr>rl_lastSequence := rev_Sequence saved\<rparr>)" using ty seq(1) by (simp add: apply_event_def)
  then have full: "apply_events sum256 (?log @ [saved]) (fresh_ledger sc rid) = (None, m\<lparr>rl_lastSequence := rev_Sequence saved\<rparr>)"
    unfolding apply_events_append m(1) using seq(1) by simp
  have "bounded_attempts (m\<lparr>rl_lastSequence := rev_Sequence saved\<rparr>)"
    using m(2) next_seq by (fastforce simp: bounded_attempts_def)
  then have "sound_log sum256 sc rid (run_log s sc (trim_space rid))"
    unfolding sound_log_def ap(1) using full by blast
  from sys_ok_put [OF ok ap(2) this ap(1), of "lsy_ledgers \<sigma> 0" "[]" 0] show ?thesis
    using ok ledger_of_append unfolding ap(1) by (simp add: sys_ok_def put_ledger_def)
qed

lemma ledger_step_ok:
  assumes "ledger_step sum256 sc rid \<sigma> \<sigma>'" and ok: "sys_ok sum256 sc rid \<sigma>"
  shows "sys_ok sum256 sc rid \<sigma>'"
  using assms(1)
proof cases
  case (restarts i)
  then show ?thesis using sys_ok_put [OF ok, of "lsy_store \<sigma>" "[]"] ok by (simp add: sys_ok_def ledger_of_def)
next
  case (refreshes i e l)
  then show ?thesis using sys_ok_put [OF ok, of "lsy_store \<sigma>" "[]"] ok refresh_sound(3) [OF ok refreshes(2)]
    by (simp add: sys_ok_def ledger_of_def)
next
  case (requests i v t now r l s)
  note eff = record_attempt_effect [OF sys_ok_in_step [OF ok requests(2)] names_call_well [OF requests(3)] requests(4)]
  have "\<forall>f \<in> set (record_told t r). fact_known sum256 sc rid (run_log s sc (trim_space rid)) f"
    using eff(2) by (auto simp: record_told_def intro!: settled_likeI split: attempt.splits sum.splits option.splits)
  moreover have "dispatches cid (record_told t r) = []" for cid
    by (simp add: record_told_def split: attempt.splits sum.splits option.splits)
  ultimately show ?thesis using sys_ok_attempt [OF ok eff(1)] ok requests(1) by (simp add: sys_ok_def)
next
  case (begins i v t now r l s)
  note eff = begin_attempt_effect [OF sys_ok_in_step [OF ok begins(2)] names_call_well [OF begins(3)] begins(4)]
  have "(\<forall>f \<in> set (begin_told t r). fact_known sum256 sc rid (run_log s sc (trim_space rid)) f) \<and>
      (\<forall>cid. once (dispatches cid (lsy_told \<sigma>) @ dispatches cid (begin_told t r)))"
  proof (cases "\<exists>d. r = Return (Inr d)")
    case True
    then obtain d where d: "r = Return (Inr d)" by blast
    note dec = eff(2) [OF d]
    show ?thesis
    proof (cases "dcn_Replay d")
      case None
      then have ad: "admitted sum256 sc rid t (lsy_ledgers \<sigma> i) (lsy_store \<sigma>) s" using dec by (simp add: decided_def)
      then have "fact_known sum256 sc rid (run_log s sc (trim_space rid)) (Dispatched (tok_CallID t) (tok_Read t))"
        by (auto simp: fact_known_def admitted_def open_call_def dispatched_read_def elim: known_mono)
      then show ?thesis using admitted_once [OF ok ad] d None by (simp add: begin_told_def)
    next
      case (Some oc)
      then have "fact_known sum256 sc rid (run_log s sc (trim_space rid)) (Told (tok_CallID t) oc)"
        using dec by (intro settled_likeI) (simp add: decided_def)
      then show ?thesis using ok d Some by (simp add: begin_told_def sys_ok_def)
    qed
  next
    case False
    then have "begin_told t r = []" by (auto simp: begin_told_def split: attempt.splits sum.splits)
    then show ?thesis using ok by (simp add: sys_ok_def)
  qed
  then show ?thesis using sys_ok_attempt [OF ok eff(1)] begins(1) by blast
next
  case (finishes i v t now result err plan r l s)
  note eff = finish_attempt_effect [OF sys_ok_in_step [OF ok finishes(2)] names_call_well [OF finishes(3)] finishes(4)]
  have "\<forall>f \<in> set (finish_told t r). fact_known sum256 sc rid (run_log s sc (trim_space rid)) f"
    using eff(2) by (auto simp: finish_told_def fact_known_def split: attempt.splits sum.splits)
  moreover have "dispatches cid (finish_told t r) = []" for cid
    by (simp add: finish_told_def split: attempt.splits sum.splits)
  ultimately show ?thesis using sys_ok_attempt [OF ok eff(1)] ok finishes(1) by (simp add: sys_ok_def)
next
  case (looks cid i seen l)
  note sound = look_sound [OF ok looks(2)]
  have "\<forall>f \<in> set (look_told cid seen). fact_known sum256 sc rid (run_log (lsy_store \<sigma>) sc (trim_space rid)) f"
    using sound(2) by (auto simp: look_told_def split: sum.splits option.splits)
  moreover have "dispatches c (look_told cid seen) = []" for c
    by (simp add: look_told_def split: sum.splits option.splits)
  ultimately show ?thesis using sys_ok_put [OF ok, of "lsy_store \<sigma>" "[]"] ok sound(1) looks(1) by (simp add: sys_ok_def)
next
  case (others s)
  then have "run_log s sc (trim_space rid) = run_log (lsy_store \<sigma>) sc (trim_space rid)" by (simp add: leaves_log_def)
  then show ?thesis using ok leaves_log_ready [OF others(2)] others(1) by (simp add: sys_ok_def)
next
  case (notices now e n saved s)
  then show ?thesis using notice_sound [OF ok] by simp
qed

lemma reach_ok: "ledger_reach sum256 sc rid \<sigma> \<Longrightarrow> sys_ok sum256 sc rid \<sigma>"
proof (induction rule: ledger_reach.induct)
  case (start s)
  have "sound_log sum256 sc rid []" by (simp add: sound_log_def bounded_attempts_def)
  then show ?case using start by (simp add: sys_ok_def ledger_of_def once_def)
next
  case (step \<sigma> \<sigma>')
  then show ?case using ledger_step_ok by blast
qed

lemma told_grows: "ledger_step sum256 sc rid \<sigma> \<sigma>' \<Longrightarrow> set (lsy_told \<sigma>) \<subseteq> set (lsy_told \<sigma>')"
  by (cases rule: ledger_step.cases) (auto simp: put_ledger_def)

subsection \<open>The operations as runs of the system\<close>

text \<open>What happens to the store between the refresh of ledger \<open>i\<close> and its attempt is steps of others.\<close>

definition admissible :: "(string \<Rightarrow> string) \<Rightarrow> scope \<Rightarrow> string \<Rightarrow> nat \<Rightarrow> (memory_store \<Rightarrow> memory_store) \<Rightarrow> bool" where
  "admissible sum256 sc rid i others \<longleftrightarrow>
     (\<forall>\<sigma>. ledger_reach sum256 sc rid \<sigma> \<longrightarrow> (\<exists>\<sigma>'. ledger_reach sum256 sc rid \<sigma>' \<and> lsy_store \<sigma>' = others (lsy_store \<sigma>) \<and>
        lsy_ledgers \<sigma>' i = lsy_ledgers \<sigma> i \<and> set (lsy_told \<sigma>) \<subseteq> set (lsy_told \<sigma>')))"

lemma admissible_quiet [simp]: "admissible sum256 sc rid i (\<lambda>s. s)"
  by (auto simp: admissible_def)

text \<open>An attempt that is a step, telling \<open>facts\<close>, and that only the log of another can make retry.\<close>

definition steps_as :: "(string \<Rightarrow> string) \<Rightarrow> scope \<Rightarrow> string \<Rightarrow> nat \<Rightarrow> 'a attempt_step \<Rightarrow> ('a lres attempt \<Rightarrow> told list) \<Rightarrow> bool" where
  "steps_as sum256 sc rid i attempt facts \<longleftrightarrow>
     (\<forall>\<sigma> r l s. ledger_reach sum256 sc rid \<sigma> \<longrightarrow> rl_loaded (lsy_ledgers \<sigma> i) \<longrightarrow>
        attempt (lsy_ledgers \<sigma> i) (lsy_store \<sigma>) = (r, l, s) \<longrightarrow>
        ledger_step sum256 sc rid \<sigma> (put_ledger i l s (facts r) \<sigma>))"

text \<open>A round: the refresh succeeds, the others act, then the attempt is made.\<close>

lemma round_run:
  assumes reach: "ledger_reach sum256 sc rid \<sigma>" and ad: "admissible sum256 sc rid i others"
  obtains \<sigma>2 m where "refreshLocked sum256 (lsy_store \<sigma>) (lsy_ledgers \<sigma> i) = (None, m)" "rl_loaded m"
    "ledger_reach sum256 sc rid \<sigma>2" "lsy_store \<sigma>2 = others (lsy_store \<sigma>)" "lsy_ledgers \<sigma>2 i = m"
    "set (lsy_told \<sigma>) \<subseteq> set (lsy_told \<sigma>2)"
proof -
  obtain e m where m: "refreshLocked sum256 (lsy_store \<sigma>) (lsy_ledgers \<sigma> i) = (e, m)" by fastforce
  note sound = refresh_sound [OF reach_ok [OF reach] m]
  have loaded: "rl_loaded m" using apply_events_keep [OF sound(2)] by simp
  let ?\<sigma>1 = "put_ledger i m (lsy_store \<sigma>) [] \<sigma>"
  have "ledger_reach sum256 sc rid ?\<sigma>1" using reach ledger_step.refreshes [OF m] by (rule ledger_reach.step)
  then obtain \<sigma>2 where "ledger_reach sum256 sc rid \<sigma>2" "lsy_store \<sigma>2 = others (lsy_store \<sigma>)" "lsy_ledgers \<sigma>2 i = m"
    "set (lsy_told \<sigma>) \<subseteq> set (lsy_told \<sigma>2)"
    using ad by (fastforce simp: admissible_def put_ledger_def)
  then show thesis using that m sound(1) loaded by simp
qed

lemma cas_loop_run:
  assumes "ledger_reach sum256 sc rid \<sigma>" "list_all (admissible sum256 sc rid i) rounds" "steps_as sum256 sc rid i attempt facts"
    and "cas_loop sum256 rounds attempt (lsy_ledgers \<sigma> i) (lsy_store \<sigma>) = Some (r, l, s)"
  shows "\<exists>\<sigma>'. ledger_reach sum256 sc rid \<sigma>' \<and> lsy_store \<sigma>' = s \<and> lsy_ledgers \<sigma>' i = l \<and>
    set (lsy_told \<sigma>) \<subseteq> set (lsy_told \<sigma>') \<and> set (facts (Return r)) \<subseteq> set (lsy_told \<sigma>')"
  using assms(1,2,4)
proof (induction rounds arbitrary: \<sigma>)
  case (Cons others rounds)
  have ad: "admissible sum256 sc rid i others" using Cons.prems(2) by simp
  obtain \<sigma>2 m where m: "refreshLocked sum256 (lsy_store \<sigma>) (lsy_ledgers \<sigma> i) = (None, m)" "rl_loaded m"
    and \<sigma>2: "ledger_reach sum256 sc rid \<sigma>2" "lsy_store \<sigma>2 = others (lsy_store \<sigma>)" "lsy_ledgers \<sigma>2 i = m"
    "set (lsy_told \<sigma>) \<subseteq> set (lsy_told \<sigma>2)"
    using round_run [OF Cons.prems(1) ad] by metis
  obtain r1 l1 s1 where a: "attempt m (others (lsy_store \<sigma>)) = (r1, l1, s1)" using prod_cases3 by blast
  let ?\<sigma>3 = "put_ledger i l1 s1 (facts r1) \<sigma>2"
  have st: "ledger_step sum256 sc rid \<sigma>2 ?\<sigma>3" using assms(3) \<sigma>2 m(2) a by (auto simp: steps_as_def)
  have \<sigma>3: "ledger_reach sum256 sc rid ?\<sigma>3" using \<sigma>2(1) st by (rule ledger_reach.step)
  have told: "set (lsy_told \<sigma>) \<subseteq> set (lsy_told ?\<sigma>3)" using \<sigma>2(4) by (auto simp: put_ledger_def)
  show ?case
  proof (cases r1)
    case Retry
    then have "cas_loop sum256 rounds attempt (lsy_ledgers ?\<sigma>3 i) (lsy_store ?\<sigma>3) = Some (r, l, s)"
      using Cons.prems(3) m(1) a by (simp add: put_ledger_def)
    then show ?thesis using Cons.IH [OF \<sigma>3] Cons.prems(2) told by fastforce
  next
    case (Return x)
    then have "r = x" "l = l1" "s = s1" using Cons.prems(3) m(1) a by simp_all
    then show ?thesis using \<sigma>3 told Return by (intro exI [of _ ?\<sigma>3]) (simp add: put_ledger_def)
  qed
qed simp

text \<open>A ledger that read the whole log is not told to retry.\<close>

definition up_to_date :: "run_ledger \<Rightarrow> memory_store \<Rightarrow> scope \<Rightarrow> string \<Rightarrow> bool" where
  "up_to_date l s sc rid \<longleftrightarrow> run_ready s sc rid \<and> rl_scope l = sc \<and> rl_runID l = trim_space rid \<and>
     rl_lastSequence l = int (length (run_log s sc (trim_space rid))) \<and> rl_lastSequence l < max_i64"

lemma up_to_date_same_log: "up_to_date l s sc rid \<Longrightarrow> same_log s s' sc rid \<Longrightarrow> up_to_date l s' sc rid"
  using same_log_ready by (auto simp: up_to_date_def same_log_def)

lemma append_no_retry:
  assumes "up_to_date l s sc rid"
  shows "fst (appendLedgerEvent sum256 now (ledger_event l ty t raw) l s) \<noteq> Retry"
proof -
  let ?log = "run_log s sc (trim_space rid)" and ?e = "ledger_event l ty t raw"
  have cur: "(if length ?log > 0 then rev_Sequence (last ?log) else 0) = int (length ?log)"
    using assms numbered_nth [of rev_Sequence ?log "length ?log - 1"]
    by (auto simp: up_to_date_def run_ready_def log_wf_def last_conv_nth of_nat_diff Suc_leI)
  have run: "rev_RunID ?e = trim_space rid" "rev_Sequence ?e = 0" using assms by (simp_all add: ledger_event_def up_to_date_def)
  have "fst (AppendAssistantRunEvent now sc ?e (rl_lastSequence l) s) \<noteq> Inl ErrAssistantRunEventConflict"
  proof (cases "prepareAssistantRunEvent now sc ?e (rl_lastSequence l)")
    case (Inl x)
    then show ?thesis using assms run(2)
      by (auto simp: AppendAssistantRunEvent_def prepareAssistantRunEvent_def up_to_date_def run_ready_def Let_def
          split: sum.splits if_splits)
  next
    case (Inr ev)
    then have "rev_RunID ev = trim_space rid" using prepareAssistantRunEventD run(1) by fastforce
    then show ?thesis using Inr cur assms by (auto simp: AppendAssistantRunEvent_def up_to_date_def Let_def)
  qed
  then show ?thesis using assms by (auto simp: appendLedgerEvent_def up_to_date_def split: prod.splits sum.splits)
qed

lemma and_return_retry [simp]: "fst (and_return v p) = Retry \<longleftrightarrow> fst p = Retry"
  by (auto simp: and_return_def split: prod.splits attempt.splits sum.splits)

lemma admit_no_retry:
  assumes "up_to_date l s sc rid"
  shows "fst (admit_call sum256 now args t n l s) \<noteq> Retry"
proof -
  obtain q s1 where q: "appendToolCallConversation now l (tok_CallID t) (tok_ToolName t) args n s = (q, s1)" by fastforce
  show ?thesis
    using q append_no_retry [OF up_to_date_same_log [OF assms conversation_log(1) [OF q]]]
    by (cases q) (simp_all add: admit_call_def begin_event_def)
qed

lemma replay_no_retry: "fst (replay_call now t args state oc l s) \<noteq> Retry"
  by (auto simp: replay_call_def split: prod.splits sum.splits)

lemma begin_no_retry:
  assumes up: "up_to_date l s sc rid"
  shows "fst (begin_attempt sum256 now args t l s) \<noteq> Retry"
proof (cases "map_of (rl_calls l) (tok_CallID t)")
  case None
  then show ?thesis using admit_no_retry [OF up] by (simp add: begin_attempt_def)
next
  case (Some state)
  obtain q s1 where q: "appendToolCallConversation now l (tok_CallID t) (tok_ToolName t) args (cst_Attempts state) s = (q, s1)" by fastforce
  note up1 = up_to_date_same_log [OF up conversation_log(1) [OF q]]
  show ?thesis
    using Some q replay_no_retry admit_no_retry [OF up1] append_no_retry [OF up]
    by (auto simp: begin_attempt_def begin_event_def split: sum.splits option.splits)
qed

lemma record_no_retry:
  assumes up: "up_to_date l s sc rid"
  shows "fst (record_attempt sum256 now args t l s) \<noteq> Retry"
proof (cases "map_of (rl_calls l) (tok_CallID t)")
  case None
  obtain q s1 where q: "appendToolCallConversation now l (tok_CallID t) (tok_ToolName t) args 1 s = (q, s1)" by fastforce
  then show ?thesis using None append_no_retry [OF up_to_date_same_log [OF up conversation_log(1) [OF q]]]
    by (auto simp: record_attempt_def split: sum.splits)
next
  case (Some state)
  then show ?thesis using replay_no_retry by (auto simp: record_attempt_def split: prod.splits sum.splits option.splits)
qed

lemma finish_no_retry:
  assumes up: "up_to_date l s sc rid"
  shows "fst (finish_attempt sum256 now t result err plan l s) \<noteq> Retry"
  using append_no_retry [OF up]
  by (auto simp: finish_attempt_def split: prod.splits sum.splits option.splits attempt.splits) (metis fst_conv)+

text \<open>So a round without interference ends the loop.\<close>

lemma quiet_round_returns:
  assumes reach: "ledger_reach sum256 sc rid \<sigma>"
    and quiet: "\<And>l s. up_to_date l s sc rid \<Longrightarrow> fst (attempt l s) \<noteq> Retry"
    and room: "int (length (run_log (lsy_store \<sigma>) sc (trim_space rid))) < max_i64"
  shows "\<exists>res. cas_loop sum256 ((\<lambda>s. s) # rounds) attempt (lsy_ledgers \<sigma> i) (lsy_store \<sigma>) = Some res"
proof -
  let ?log = "run_log (lsy_store \<sigma>) sc (trim_space rid)"
  obtain e m where m: "refreshLocked sum256 (lsy_store \<sigma>) (lsy_ledgers \<sigma> i) = (e, m)" by fastforce
  note sound = refresh_sound [OF reach_ok [OF reach] m]
  have ready: "run_ready (lsy_store \<sigma>) sc rid" using reach_ok [OF reach] by (simp add: sys_ok_def)
  have "up_to_date m (lsy_store \<sigma>) sc rid"
    using ready room sound(2) replay_last [of ?log "length ?log"] apply_events_keep [OF sound(2)]
    by (simp add: up_to_date_def run_ready_def log_wf_def)
  then have "fst (attempt m (lsy_store \<sigma>)) \<noteq> Retry" by (rule quiet)
  then show ?thesis using m sound(1) by (auto split: prod.splits attempt.splits)
qed

lemma names_call_run: "rl_runID l = rl_runID l' \<Longrightarrow> names_call sum256 l v t = names_call sum256 l' v t"
  by (simp add: names_call_def call_token_for_def)

lemma ledger_run:
  assumes "ledger_reach sum256 sc rid \<sigma>"
  shows "rl_runID (lsy_ledgers \<sigma> i) = trim_space rid"
proof -
  have "ledger_of sum256 (run_log (lsy_store \<sigma>) sc (trim_space rid)) sc rid (lsy_ledgers \<sigma> i)"
    "numbered rev_Sequence (run_log (lsy_store \<sigma>) sc (trim_space rid))"
    using reach_ok [OF assms] by (simp_all add: sys_ok_def run_ready_def log_wf_def)
  then show ?thesis by (auto simp: ledger_of_def newRunEventLedger_def elim: cachedD)
qed

lemma named_everywhere:
  assumes "ledger_reach sum256 sc rid \<sigma>" "names_call sum256 (lsy_ledgers \<sigma> i) v t" "ledger_reach sum256 sc rid \<sigma>'"
  shows "names_call sum256 (lsy_ledgers \<sigma>' j) v t"
  using assms names_call_run ledger_run by metis

lemma attempts_step:
  assumes "ledger_reach sum256 sc rid \<sigma>" "names_call sum256 (lsy_ledgers \<sigma> i) v t"
  shows "steps_as sum256 sc rid j (record_attempt sum256 now v t) (record_told t)"
    "steps_as sum256 sc rid j (begin_attempt sum256 now v t) (begin_told t)"
    "steps_as sum256 sc rid j (finish_attempt sum256 now t result err plan) (finish_told t)"
  unfolding steps_as_def using named_everywhere [OF assms]
  by (blast intro: ledger_step.requests ledger_step.begins ledger_step.finishes)+

lemma begin_names_call:
  assumes "call_token_for sum256 cid name risk (AnyValue (JObject args)) l = Inr (v, t)" "registered_name name" "decoded_args (JObject args)"
  shows "names_call sum256 l v t" "v = JObject args" "tok_CallID t = trim_space cid" "tok_Read t = (risk = RiskRead)"
proof -
  show "v = JObject args" "tok_CallID t = trim_space cid" "tok_Read t = (risk = RiskRead)"
    using assms(1) by (auto simp: call_token_for_def toolCallDigest_def canonicalJSON_def Let_def simp del: json_encode.simps trim_space_Nil
        split: if_splits)
  then show "names_call sum256 l v t" using assms unfolding names_call_def by blast
qed

end
