(* ===== verification/Assistant_Ledger_Progress.thy ===== *)
theory Assistant_Ledger_Progress
  imports Assistant_Ledger_System
begin

section \<open>App Studio assistant: calls that meet no obstacle\<close>

text \<open>
  Where nothing stands in the way, the ledger lets work happen: a round without interference ends
  with the admission of a call that the log does not know, and with the outcome of a call that was
  admitted. What has to be shown is that every store operation on the way succeeds: that the payloads
  are valid JSON, the item identifiers are not empty and the expected sequence is the log's.
\<close>

lemma json_valid_encode: "json_fits n v \<Longrightarrow> n \<le> max_depth \<Longrightarrow> json_valid (json_encode v)"
  by (simp add: json_valid_def json_value_encode)

lemma appendConversationMessage_new:
  assumes "scope_validate sc = Inr ()" "trim_space run \<noteq> []" "trim_space item \<noteq> []" "trim_space ty \<noteq> []"
    and "json_fits n (chat_message_json m)" "n \<le> max_depth" "\<forall>it \<in> set (conversation s sc). itm_ID it \<noteq> trim_space item"
  shows "\<exists>s' it. appendConversationMessage now u sc run item ty m s = (Inr (), s') \<and> itm_ID it = trim_space item \<and>
    conversation s' sc = conversation s sc @ [it]"
proof -
  let ?p = "\<lparr>itm_ID = trim_space item, itm_RunID = trim_space run, itm_ProjectName = sc_ProjectName sc, itm_ProjectUID = sc_ProjectUID sc,
      itm_Sequence = 0, itm_Type = trim_space ty, itm_Payload = json_encode (chat_message_json m), itm_CreatedAt = or_now now now\<rparr>"
  have "json_encode (chat_message_json m) \<noteq> []" by (simp add: chat_message_json_def)
  then have prep: "prepareAssistantConversationItem now sc \<lparr>itm_ID = item, itm_RunID = run, itm_ProjectName = [], itm_ProjectUID = [],
      itm_Sequence = 0, itm_Type = ty, itm_Payload = json_encode (chat_message_json m), itm_CreatedAt = now\<rparr> = Inr ?p"
    using assms(1-4) json_valid_encode [OF assms(5,6)]
    by (simp add: prepareAssistantConversationItem_def default_payload_def Let_def)
  have "find_item ?p (conversation s sc) = None" using assms(7) by (auto simp: find_item_None_iff)
  moreover have "\<not> blank item" using assms(3) by (simp add: blank_def)
  ultimately show ?thesis using prep
    by (simp add: appendConversationMessage_def AppendAssistantConversationItem_def Let_def)
qed

lemma append_event_succeeds:
  assumes at: "in_step sum256 sc rid l s" and up: "up_to_date l s sc rid" and t: "well_called sum256 args t"
    and ty: "ty \<in> {event_request, event_call, event_result}" and v: "json_fits n v" "n \<le> max_depth" "json_encode v \<noteq> []"
    and applies: "bounded_attempts l \<Longrightarrow> rl_lastSequence l < max_i64 \<Longrightarrow>
      \<exists>m. apply_typed sum256 ty t (json_encode v) l = Inr m \<and> bounded_attempts (m\<lparr>rl_lastSequence := rl_lastSequence l + 1\<rparr>)"
  shows "\<exists>l' s'. appendLedgerEvent sum256 now (ledger_event l ty t (json_encode v)) l s = (Return (Inr ()), l', s')"
proof -
  let ?log = "run_log s sc (trim_space rid)" and ?e = "ledger_event l ty t (json_encode v)"
  have cur: "(if length ?log > 0 then rev_Sequence (last ?log) else 0) = int (length ?log)"
    using up numbered_nth [of rev_Sequence ?log "length ?log - 1"]
    by (auto simp: up_to_date_def run_ready_def log_wf_def last_conv_nth of_nat_diff Suc_leI)
  have "trim_space ty = ty" "ty \<noteq> []" using event_types_trim [OF ty] ty by (auto simp: event_types)
  then obtain ev where prep: "prepareAssistantRunEvent now sc ?e (rl_lastSequence l) = Inr ev"
    using up json_valid_encode [OF v(1,2)] v(3)
    by (auto simp: prepareAssistantRunEvent_def up_to_date_def run_ready_def ledger_event_def default_payload_def Let_def)
  then have "rev_RunID ev = trim_space rid"
    using prepareAssistantRunEventD up by (fastforce simp: up_to_date_def ledger_event_def)
  then have "fst (AppendAssistantRunEvent now sc ?e (rl_lastSequence l) s) = Inr ev"
    using prep cur up by (auto simp: AppendAssistantRunEvent_def up_to_date_def run_ready_def Let_def)
  then have "AppendAssistantRunEvent now sc ?e (rl_lastSequence l) s =
      (Inr ev, snd (AppendAssistantRunEvent now sc ?e (rl_lastSequence l) s))" by (metis prod.collapse)
  moreover obtain r l' s' where op: "appendLedgerEvent sum256 now ?e l s = (r, l', s')" using prod_cases3 by blast
  ultimately have "r = Return (Inr ())"
    using append_event_advances(3) [OF at t ty v(3) op applies] by blast
  then show ?thesis using op by blast
qed

lemma trim_end_keeps: "trim_by space_end (w @ ''t'') \<noteq> []"
proof (induction w rule: length_induct)
  case (1 w)
  have short: "space_end (w @ ''t'') \<le> length w"
  proof (cases "length w < 3")
    case True
    then consider "w = []" | a where "w = [a]" | a b where "w = [a, b]"
      by (cases w; cases "tl w"; cases "tl (tl w)") auto
    then show ?thesis by cases (auto simp: ascii_space_def space2_def space3_def)
  next
    case False
    then obtain a b c v where "w = a # b # c # v" by (cases w; cases "tl w"; cases "tl (tl w)") auto
    then show ?thesis by simp
  qed
  show ?case
  proof (cases "space_end (w @ ''t'') = 0")
    case True
    then show ?thesis by (simp add: trim_by.simps)
  next
    case False
    have "drop (space_end (w @ ''t'')) (w @ ''t'') = drop (space_end (w @ ''t'')) w @ ''t''" using short by simp
    moreover have "length (drop (space_end (w @ ''t'')) w) < length w" using False short by simp
    ultimately have "trim_by space_end (drop (space_end (w @ ''t'')) (w @ ''t'')) \<noteq> []" using 1 by simp
    then show ?thesis using False by (subst trim_by.simps) simp
  qed
qed

lemma trim_space_tool [simp]: "trim_space (CHR ''t'' # r) \<noteq> []"
proof -
  have "space_at (CHR ''t'' # r) = 0"
    by (cases r; cases "tl r") (auto simp: ascii_space_def space2_def space3_def)
  then show ?thesis using trim_end_keeps [of "rev r"] by (simp add: trim_space_def trim_left_def trim_right_def trim_by_fixed)
qed

lemma tool_item_nonblank [simp]:
  "trim_space (toolCallItemID run cid n) \<noteq> []" "trim_space (toolResultItemID run cid) \<noteq> []"
  by (simp_all add: toolCallItemID_def toolResultItemID_def)

lemma call_conversation_new:
  assumes "up_to_date l s sc rid" "1 \<le> n" "\<forall>it \<in> set (conversation s sc). itm_ID it \<noteq> trim_space (toolCallItemID (trim_space rid) cid n)"
  shows "\<exists>s' it. appendToolCallConversation now l cid tool args n s = (Inr (), s') \<and>
    itm_ID it = trim_space (toolCallItemID (trim_space rid) cid n) \<and> conversation s' sc = conversation s sc @ [it]"
proof -
  have "trim_space ''tool_call'' \<noteq> []" by simp
  moreover have "json_fits 5 (chat_message_json \<lparr>chm_Role = ''assistant'', chm_Content = [], chm_Name = [], chm_ToolCallID = [],
         chm_ToolCalls = [\<lparr>ctc_ID = cid, ctc_Type = ''function'', ctc_FunctionName = tool,
           ctc_FunctionArguments = json_encode args, ctc_ExtraContent = []\<rparr>], chm_Extra = []\<rparr>)"
    by (simp add: chat_message_json_def tool_call_json_def)
  moreover have "5 \<le> max_depth" by (simp add: max_depth_def)
  moreover have "scope_validate sc = Inr ()" "trim_space (trim_space rid) \<noteq> []" "rl_scope l = sc" "rl_runID l = trim_space rid"
    using assms(1) by (simp_all add: up_to_date_def run_ready_def)
  moreover note appendConversationMessage_new [OF calculation(4,5) tool_item_nonblank(1) calculation(1,2,3) assms(3), of now "[]"]
  ultimately show ?thesis using assms(2) by (auto simp: appendToolCallConversation_def store_result_def)
qed

lemma result_conversation_new:
  assumes "run_ready s sc rid" "rl_scope l = sc" "rl_runID l = trim_space rid"
    "\<forall>it \<in> set (conversation s sc). itm_ID it \<noteq> trim_space (toolResultItemID (trim_space rid) cid)"
  shows "\<exists>s'. appendToolResultConversation now l cid tool oc s = (Inr (), s')"
proof -
  define c where "c = (if blank (oc_Result oc) \<and> oc_Failed oc then oc_Error oc else oc_Result oc)"
  have "trim_space ''tool_result'' \<noteq> []" by simp
  moreover have "json_fits 5 (chat_message_json \<lparr>chm_Role = ''tool'', chm_Content = c, chm_Name = tool, chm_ToolCallID = cid,
         chm_ToolCalls = [], chm_Extra = []\<rparr>)"
    by (simp add: chat_message_json_def)
  moreover have "5 \<le> max_depth" by (simp add: max_depth_def)
  moreover have "scope_validate sc = Inr ()" "trim_space (trim_space rid) \<noteq> []"
    using assms(1) by (simp_all add: run_ready_def)
  moreover note appendConversationMessage_new [OF calculation(4,5) tool_item_nonblank(2) calculation(1,2,3) assms(4), of now "[]"]
  ultimately show ?thesis using assms(2,3)
    by (auto simp: appendToolResultConversation_def store_result_def Let_def c_def [symmetric])
qed

lemma append_event_conversation: "conversationItems (snd (AppendAssistantRunEvent now sc e n s)) = conversationItems s"
  by (auto simp: AppendAssistantRunEvent_def Let_def split: sum.splits)

lemma ledger_append_conversation: "appendLedgerEvent sum256 now e l s = (r, l', s') \<Longrightarrow> conversationItems s' = conversationItems s"
  using append_event_conversation [of now "rl_scope l" e "rl_lastSequence l" s]
  by (auto simp: appendLedgerEvent_def split: prod.splits sum.splits)

text \<open>The call of a tool that the log does not know.\<close>

lemma new_call_admitted:
  assumes at: "in_step sum256 sc rid l s" and up: "up_to_date l s sc rid" and t: "well_called sum256 args t"
    and fresh: "map_of (rl_calls l) (tok_CallID t) = None"
    and item: "\<forall>it \<in> set (conversation s sc). itm_ID it \<noteq> trim_space (toolCallItemID (trim_space rid) (tok_CallID t) 1)"
  shows "\<exists>l' s' st it ev. begin_attempt sum256 now args t l s = (Return (Inr (dispatch_call t)), l', s') \<and>
    map_of (rl_calls l') (tok_CallID t) = Some st \<and> open_call t st \<and> cst_Arguments st = args \<and>
    conversation s' sc = conversation s sc @ [it] \<and> itm_ID it = trim_space (toolCallItemID (trim_space rid) (tok_CallID t) 1) \<and>
    run_log s' sc (trim_space rid) = run_log s sc (trim_space rid) @ [ev] \<and>
    apply_events sum256 (run_log s' sc (trim_space rid)) (fresh_ledger sc rid) = (None, l')"
proof -
  obtain s1 it where conv: "appendToolCallConversation now l (tok_CallID t) (tok_ToolName t) args 1 s = (Inr (), s1)"
    and it: "itm_ID it = trim_space (toolCallItemID (trim_space rid) (tok_CallID t) 1)" "conversation s1 sc = conversation s sc @ [it]"
    using call_conversation_new [OF up _ item] by (metis order_refl)
  note log = conversation_log(1) [OF conv, of sc rid]
  note at1 = same_log_in_step [OF at log] and up1 = up_to_date_same_log [OF up log]
  obtain n where n: "n < max_depth" "json_fits n args" using t by (auto simp: well_called_def decoded_args_def)
  have fits: "json_fits (Suc n) (call_payload_json args (tok_Read t) (tok_Effect t) 1)"
    using n(2) isValidNumber_show_int [of 1] by (simp add: call_payload_json_def)
  have may: "may_call t 1 l" using fresh by (simp add: may_call_def)
  have ty: "event_call \<in> {event_request, event_call, event_result}" by simp
  let ?raw = "json_encode (call_payload_json args (tok_Read t) (tok_Effect t) 1)"
  obtain l' s' where ev: "appendLedgerEvent sum256 now (ledger_event l event_call t ?raw) l s1 = (Return (Inr ()), l', s')"
    using append_event_succeeds [OF at1 up1 t ty fits Suc_leI [OF n(1)] call_payload_nonempty call_event_kept [OF at1 t may]] by blast
  note eff = append_event_advances [OF at1 t ty call_payload_nonempty ev call_event_kept [OF at1 t may]]
  have out: "begin_attempt sum256 now args t l s = (Return (Inr (dispatch_call t)), l', s')"
    using conv fresh ev by (simp add: begin_attempt_def admit_call_def begin_event_def and_return_def)
  have full: "apply_events sum256 (run_log s' sc (trim_space rid)) (fresh_ledger sc rid) = (None, l')"
    and b: "bounded_attempts l" "rl_lastSequence l < max_i64" using eff(2) by simp_all
  obtain m k where m: "apply_typed sum256 event_call t ?raw l = Inr m" "l' = m\<lparr>rl_lastSequence := k\<rparr>" using eff(2) by blast
  have "apply_typed sum256 event_call t ?raw l = apply_call sum256 (tok_CallID t) (tok_ToolName t) (tok_ArgsDigest t) ?raw l"
    by (simp add: apply_typed_def event_types)
  then obtain st where st: "map_of (rl_calls m) (tok_CallID t) = Some st" "open_call t st" "cst_Arguments st = args"
    using m(1) fresh well_called_payload [OF t, of 1] well_called_digest(8) [OF t]
    by (auto simp: apply_call_def open_call_def min_i64_def max_i64_def)
  have id: "rl_scope l = sc" "rl_runID l = trim_space rid" using up by (simp_all add: up_to_date_def)
  obtain q s2 where q: "AppendAssistantRunEvent now sc (ledger_event l event_call t ?raw) (rl_lastSequence l) s1 = (q, s2)" by fastforce
  obtain saved where "q = Inr saved" using q ev id by (cases q) (auto simp: appendLedgerEvent_def split: if_splits)
  moreover have "s2 = s'" using q ev id \<open>q = Inr saved\<close> by (auto simp: appendLedgerEvent_def split: sum.splits)
  ultimately have op: "AppendAssistantRunEvent now sc (ledger_event l event_call t ?raw) (rl_lastSequence l) s1 = (Inr saved, s')" using q by simp
  have "run_ready s1 sc rid" "cached sum256 (run_log s1 sc (trim_space rid)) sc rid l" using at1 by (simp_all add: in_step_def)
  from append_extends_log(1) [OF this op] have "run_log s' sc (trim_space rid) = run_log s sc (trim_space rid) @ [saved]"
    using id log by (simp add: ledger_event_def same_log_def)
  moreover have "conversation s' sc = conversation s sc @ [it]" using ledger_append_conversation [OF ev] it(2) by simp
  ultimately show ?thesis using out full st m(2) it(1) by auto
qed

text \<open>Finishing a call that was admitted and has no outcome.\<close>

lemma open_call_finished:
  assumes at: "in_step sum256 sc rid l s" and up: "up_to_date l s sc rid" and t: "well_called sum256 args t"
    and st: "map_of (rl_calls l) (tok_CallID t) = Some st" "cst_ToolName st = tok_ToolName t" "cst_ArgsDigest st = tok_ArgsDigest t"
      "cst_Read st = tok_Read t" "cst_Effect st = tok_Effect t" "cst_Outcome st = None"
    and oc: "final_outcome t (cst_Arguments st) result err plan = Inr oc"
    and item: "\<forall>it \<in> set (conversation s sc). itm_ID it \<noteq> trim_space (toolResultItemID (trim_space rid) (tok_CallID t))"
  shows "\<exists>l' s'. finish_attempt sum256 now t result err plan l s = (Return (Inr oc), l', s')"
proof -
  have trim: "trim_space (tok_CallID t) = tok_CallID t" using t by (simp add: well_called_def)
  obtain l1 s1 where ev: "appendLedgerEvent sum256 now (ledger_event l event_result t (json_encode (result_payload_json oc))) l s =
      (Return (Inr ()), l1, s1)"
  proof -
    have "oc_Disposition oc \<noteq> []" "elems_fit 1 (map plan_step_json p)" for p
      using final_outcome_shape(1) [OF oc] elems_fit_plan by (auto simp: DispositionSucceeded_def DispositionFailed_def)
    then have fits: "json_fits 4 (result_payload_json oc)"
      by (auto simp: result_payload_json_def plan_json_def numeral_eq_Suc split: option.splits)
    have "4 \<le> max_depth" by (simp add: max_depth_def)
    then show thesis
      using append_event_succeeds [OF at up t _ fits _ result_payload_nonempty] result_event_kept [OF t st(1,6,2,3) oc] that by blast
  qed
  have adv: "advances sum256 sc rid l s l1 s1"
    using append_event_advances(1) [OF at t _ result_payload_nonempty ev] result_event_kept [OF t st(1,6,2,3) oc] by blast
  then have at1: "in_step sum256 sc rid l1 s1" by (simp add: advances_def)
  have "run_ready s1 sc rid" "rl_scope l1 = sc" "rl_runID l1 = trim_space rid"
    using at1 in_step_identity [OF at1] by (simp_all add: in_step_def)
  moreover have "\<forall>it \<in> set (conversation s1 sc). itm_ID it \<noteq> trim_space (toolResultItemID (trim_space rid) (tok_CallID t))"
    using ledger_append_conversation [OF ev] item by simp
  ultimately obtain s2 where "appendToolResultConversation now l1 (tok_CallID t) (tok_ToolName t) oc s1 = (Inr (), s2)"
    using result_conversation_new by blast
  then show ?thesis using ev st oc by (simp add: finish_attempt_def trim)
qed

lemma quiet_refresh:
  assumes reach: "ledger_reach sum256 sc rid \<sigma>"
    and room: "int (length (run_log (lsy_store \<sigma>) sc (trim_space rid))) < max_i64"
  obtains m where "refreshLocked sum256 (lsy_store \<sigma>) (lsy_ledgers \<sigma> i) = (None, m)"
    "in_step sum256 sc rid m (lsy_store \<sigma>)" "up_to_date m (lsy_store \<sigma>) sc rid"
    "apply_events sum256 (run_log (lsy_store \<sigma>) sc (trim_space rid)) (fresh_ledger sc rid) = (None, m)"
proof -
  let ?log = "run_log (lsy_store \<sigma>) sc (trim_space rid)"
  obtain e m where m: "refreshLocked sum256 (lsy_store \<sigma>) (lsy_ledgers \<sigma> i) = (e, m)" by fastforce
  have ok: "sys_ok sum256 sc rid \<sigma>" by (rule reach_ok [OF reach])
  note sound = refresh_sound [OF ok m]
  have "in_step sum256 sc rid m (lsy_store \<sigma>)" using ok sound(3) by (simp add: in_step_def sys_ok_def)
  moreover have "up_to_date m (lsy_store \<sigma>) sc rid"
    using ok room sound(2) replay_last [of ?log "length ?log"] apply_events_keep [OF sound(2)]
    by (simp add: up_to_date_def sys_ok_def run_ready_def log_wf_def)
  ultimately show thesis using that m sound(1,2) by simp
qed

lemma begin_token:
  assumes "registered_name name" "name \<noteq> []" "trim_space cid \<noteq> []" "decoded_args (JObject args)" "\<not> blank (rl_runID l)"
  shows "\<exists>d. call_token_for sum256 cid name risk (AnyValue (JObject args)) l =
    Inr (JObject args, \<lparr>tok_CallID = trim_space cid, tok_ToolName = name, tok_ArgsDigest = d,
          tok_Read = (risk = RiskRead), tok_Effect = toolHasEffect risk\<rparr>)"
proof -
  have "json_valid (json_encode (JObject args))"
    using assms(4) json_valid_encode by (auto simp: decoded_args_def simp del: json_encode.simps)
  then show ?thesis
    using assms by (simp add: call_token_for_def toolCallDigest_def canonicalJSON_def registered_name_def Let_def del: json_encode.simps)
qed

lemma new_call_round:
  assumes reach: "ledger_reach sum256 sc rid \<sigma>"
    and room: "int (length (run_log (lsy_store \<sigma>) sc (trim_space rid))) < max_i64"
    and call: "registered_name name" "name \<noteq> []" "trim_space cid \<noteq> []" "decoded_args (JObject args)"
    and unknown: "\<not> known sum256 (run_log (lsy_store \<sigma>) sc (trim_space rid)) sc rid (trim_space cid) (\<lambda>_. True)"
    and item: "list_all (\<lambda>it. itm_ID it \<noteq> trim_space (toolCallItemID (trim_space rid) (trim_space cid) 1)) (conversation (lsy_store \<sigma>) sc)"
  shows "\<exists>d l s. BeginToolCall sum256 now ((\<lambda>s. s) # rounds) cid name risk args (lsy_ledgers \<sigma> i) (lsy_store \<sigma>) = Some (Inr d, l, s) \<and>
    ShouldDispatch d \<and> tok_CallID (dcn_Token d) = trim_space cid \<and> tok_ToolName (dcn_Token d) = name"
proof -
  obtain m where m: "refreshLocked sum256 (lsy_store \<sigma>) (lsy_ledgers \<sigma> i) = (None, m)" "in_step sum256 sc rid m (lsy_store \<sigma>)"
    "up_to_date m (lsy_store \<sigma>) sc rid"
    "apply_events sum256 (run_log (lsy_store \<sigma>) sc (trim_space rid)) (fresh_ledger sc rid) = (None, m)"
    by (rule quiet_refresh [OF reach room])
  have "\<not> blank (rl_runID (lsy_ledgers \<sigma> i))"
    using ledger_run [OF reach] m(3) by (simp add: blank_def up_to_date_def run_ready_def)
  from begin_token [OF call this] obtain d where
    t: "call_token_for sum256 cid name risk (AnyValue (JObject args)) (lsy_ledgers \<sigma> i) = Inr (JObject args,
      \<lparr>tok_CallID = trim_space cid, tok_ToolName = name, tok_ArgsDigest = d, tok_Read = (risk = RiskRead), tok_Effect = toolHasEffect risk\<rparr>)"
    by blast
  let ?t = "\<lparr>tok_CallID = trim_space cid, tok_ToolName = name, tok_ArgsDigest = d, tok_Read = (risk = RiskRead), tok_Effect = toolHasEffect risk\<rparr>"
  have well: "well_called sum256 (JObject args) ?t" using call_token_well(1) [OF t call(1,4)] .
  have "map_of (rl_calls m) (tok_CallID ?t) = None"
    using unknown known_complete [OF m(4), of "trim_space cid" _ "\<lambda>_. True"] by (cases "map_of (rl_calls m) (trim_space cid)") auto
  from new_call_admitted [OF m(2,3) well this, of now] item obtain l' s' where
    "begin_attempt sum256 now (JObject args) ?t m (lsy_store \<sigma>) = (Return (Inr (dispatch_call ?t)), l', s')"
    by (auto simp: list_all_iff)
  then show ?thesis using t m(1) by (simp add: BeginToolCall_def dispatch_call_def ShouldDispatch_def)
qed

end
