(* ===== verification/Assistant_Ledger_Props.thy ===== *)
theory Assistant_Ledger_Props
  imports Assistant_Ledger_Progress
begin

section \<open>An example run\<close>

text \<open>Process 0 begins and finishes the call \<open>c1\<close> of a tool that writes; process 1 looks at its outcome.\<close>

definition ex_digest :: "string \<Rightarrow> string" where "ex_digest s = ''h''"

abbreviation ex_start :: ledger_system where
  "ex_start \<equiv> \<lparr>lsy_store = ex_store, lsy_ledgers = (\<lambda>_. newRunEventLedger ex_scope ''r1''), lsy_told = []\<rparr>"

lemma ex_run_id [simp]: "trim_space ''r1'' = ''r1''" "trim_space ''c1'' = ''c1''"
  by code_simp+

lemma ex_call: "registered_name ''deploy''" "decoded_args (JObject [])"
proof -
  show "registered_name ''deploy''" by code_simp
  show "decoded_args (JObject [])" unfolding decoded_args_def
    by (intro conjI exI [of _ 1]) (simp_all add: canonical_fields_def max_depth_def)
qed

lemma ex_logs: "run_log ex_store ex_scope ''r1'' = []" "conversation ex_store ex_scope = []"
  by code_simp+

lemma ex_start_reachable: "ledger_reach sum256 ex_scope ''r1'' ex_start"
proof (rule ledger_reach.start)
  have "map_of (project_runs ex_store ex_scope) ''r1'' \<noteq> None" by code_simp
  then show "run_ready ex_store ex_scope ''r1''"
    using ex_logs(1) ex_scope_valid by (simp add: run_ready_def)
  show "run_log ex_store ex_scope (trim_space ''r1'') = []" using ex_logs(1) by simp
qed

lemma ex_unknown: "\<not> known sum256 (run_log (lsy_store ex_start) ex_scope (trim_space ''r1'')) ex_scope ''r1'' cid P"
  using ex_logs(1) by (simp add: known_def)

lemma ex_begun:
  obtains \<sigma> t l st it where "ledger_reach ex_digest ex_scope ''r1'' \<sigma>" "lsy_told \<sigma> = [Dispatched ''c1'' False]"
    "lsy_ledgers \<sigma> 0 = l" "lsy_ledgers \<sigma> 1 = newRunEventLedger ex_scope ''r1''"
    "in_step ex_digest ex_scope ''r1'' l (lsy_store \<sigma>)" "up_to_date l (lsy_store \<sigma>) ex_scope ''r1''"
    "well_called ex_digest (JObject []) t" "names_call ex_digest l (JObject []) t" "tok_CallID t = ''c1''" "tok_ToolName t = ''deploy''"
    "map_of (rl_calls l) ''c1'' = Some st" "open_call t st" "rl_loaded l"
    "conversation (lsy_store \<sigma>) ex_scope = [it]" "itm_ID it = trim_space (toolCallItemID ''r1'' ''c1'' 1)"
proof -
  note start = ex_start_reachable [of ex_digest]
  have room: "int (length (run_log (lsy_store ex_start) ex_scope (trim_space ''r1''))) < max_i64" using ex_logs(1) by (simp add: max_i64_def)
  obtain m where m: "refreshLocked ex_digest (lsy_store ex_start) (lsy_ledgers ex_start 0) = (None, m)"
    "in_step ex_digest ex_scope ''r1'' m (lsy_store ex_start)" "up_to_date m (lsy_store ex_start) ex_scope ''r1''"
    "apply_events ex_digest (run_log (lsy_store ex_start) ex_scope (trim_space ''r1'')) (fresh_ledger ex_scope ''r1'') = (None, m)"
    by (rule quiet_refresh [OF start room, where i = 0])
  let ?\<sigma>1 = "put_ledger 0 m ex_store [] ex_start"
  have \<sigma>1: "ledger_reach ex_digest ex_scope ''r1'' ?\<sigma>1" using ledger_reach.step [OF start ledger_step.refreshes [OF m(1)]] by simp
  have loaded: "rl_loaded m" "rl_calls m = []" using m(4) ex_logs(1) by auto
  have nb: "\<not> blank (rl_runID m)" using in_step_identity [OF m(2)] by (simp add: blank_def)
  have named: "''deploy'' \<noteq> []" "trim_space ''c1'' \<noteq> []" by simp_all
  obtain t where t: "call_token_for ex_digest ''c1'' ''deploy'' RiskWrite (AnyValue (JObject [])) m = Inr (JObject [], t)"
    and tok: "tok_CallID t = ''c1''" "tok_ToolName t = ''deploy''" "\<not> tok_Read t"
    using begin_token [OF ex_call(1) named ex_call(2) nb, of ex_digest RiskWrite] by auto
  have call: "names_call ex_digest m (JObject []) t" using t ex_call unfolding names_call_def by blast
  have well: "well_called ex_digest (JObject []) t" by (rule names_call_well [OF call])
  have "map_of (rl_calls m) (tok_CallID t) = None" using loaded by simp
  from new_call_admitted [OF m(2,3) well this, of 9] obtain l s st it ev where
    b: "begin_attempt ex_digest 9 (JObject []) t m ex_store = (Return (Inr (dispatch_call t)), l, s)"
      "map_of (rl_calls l) ''c1'' = Some st" "open_call t st" "conversation s ex_scope = [it]"
      "itm_ID it = trim_space (toolCallItemID ''r1'' ''c1'' 1)" "run_log s ex_scope ''r1'' = [ev]"
      "apply_events ex_digest (run_log s ex_scope ''r1'') (fresh_ledger ex_scope ''r1'') = (None, l)"
    using ex_logs tok by auto
  let ?\<sigma>2 = "put_ledger 0 l s (begin_told t (Return (Inr (dispatch_call t)))) ?\<sigma>1"
  have \<sigma>2: "ledger_reach ex_digest ex_scope ''r1'' ?\<sigma>2"
    by (rule ledger_reach.step [OF \<sigma>1 ledger_step.begins]) (use loaded call b(1) in \<open>simp_all add: put_ledger_def\<close>)
  have at: "in_step ex_digest ex_scope ''r1'' l s"
    using begin_attempt_effect(1) [OF m(2) well] b(1) by (simp add: advances_def)
  have up: "up_to_date l s ex_scope ''r1''"
    using at in_step_identity [OF at] replay_last [of "run_log s ex_scope ''r1''" 1] b(6,7)
    by (simp add: up_to_date_def in_step_def run_ready_def log_wf_def max_i64_def)
  have "names_call ex_digest l (JObject []) t"
    using call names_call_run [of l m] in_step_identity [OF at] in_step_identity [OF m(2)] by simp
  then show thesis
    using that [OF \<sigma>2, of l t st it] at up well tok b apply_events_keep [OF b(7)]
    by (simp add: put_ledger_def begin_told_def dispatch_call_def)
qed

lemma ex_run:
  obtains \<sigma> oc oc' where "ledger_reach ex_digest ex_scope ''r1'' \<sigma>"
    "lsy_told \<sigma> = [Dispatched ''c1'' False, Told ''c1'' oc, Told ''c1'' oc']"
    "known ex_digest (run_log (lsy_store \<sigma>) ex_scope ''r1'') ex_scope ''r1'' ''c1'' (\<lambda>st. cst_ToolName st = ''deploy'')"
proof -
  obtain \<sigma>2 t l st it where b: "ledger_reach ex_digest ex_scope ''r1'' \<sigma>2" "lsy_told \<sigma>2 = [Dispatched ''c1'' False]"
    "lsy_ledgers \<sigma>2 0 = l" "lsy_ledgers \<sigma>2 1 = newRunEventLedger ex_scope ''r1''"
    and at: "in_step ex_digest ex_scope ''r1'' l (lsy_store \<sigma>2)" and up: "up_to_date l (lsy_store \<sigma>2) ex_scope ''r1''"
    and well: "well_called ex_digest (JObject []) t" and call: "names_call ex_digest l (JObject []) t"
    and tok: "tok_CallID t = ''c1''" "tok_ToolName t = ''deploy''"
    and st: "map_of (rl_calls l) ''c1'' = Some st" "open_call t st" and loaded: "rl_loaded l"
    and item: "conversation (lsy_store \<sigma>2) ex_scope = [it]" "itm_ID it = trim_space (toolCallItemID ''r1'' ''c1'' 1)"
    by (rule ex_begun)
  obtain oc where oc: "final_outcome t (cst_Arguments st) ''ok'' None None = Inr oc"
    using tok by (simp add: final_outcome_def toolCancellation_def Let_def)
  have diff: "trim_space (toolCallItemID ''r1'' ''c1'' 1) \<noteq> trim_space (toolResultItemID ''r1'' ''c1'')" by code_simp
  obtain l2 s2 where f: "finish_attempt ex_digest 9 t ''ok'' None None l (lsy_store \<sigma>2) = (Return (Inr oc), l2, s2)"
    using open_call_finished [OF at up well _ _ _ _ _ _ oc, of 9] st item diff tok by (auto simp: open_call_def)
  let ?\<sigma>3 = "put_ledger 0 l2 s2 (finish_told t (Return (Inr oc))) \<sigma>2"
  have \<sigma>3: "ledger_reach ex_digest ex_scope ''r1'' ?\<sigma>3"
    by (rule ledger_reach.step [OF b(1) ledger_step.finishes]) (use b(3) loaded call f in simp_all)
  note eff = finish_attempt_effect [OF at well f]
  obtain e m where m: "refreshLocked ex_digest (lsy_store ?\<sigma>3) (lsy_ledgers ?\<sigma>3 1) = (e, m)" by fastforce
  note sound = refresh_sound [OF reach_ok [OF \<sigma>3] m]
  have "known ex_digest (run_log s2 ex_scope (trim_space ''r1'')) ex_scope ''r1'' ''c1'' (settled_like oc)"
    using eff(2) tok by simp
  from known_at [OF this] sound(2) obtain st' oc' where st': "map_of (rl_calls m) ''c1'' = Some st'" "cst_Outcome st' = Some oc'"
    by (fastforce simp: put_ledger_def settled_like_def extends_def)
  have "ToolCallOutcome ex_digest ''c1'' (lsy_ledgers ?\<sigma>3 1) (lsy_store ?\<sigma>3) = (Inr (Some oc'), m)"
    using m sound(1) st' b(4) by (simp add: ToolCallOutcome_def put_ledger_def newRunEventLedger_def)
  note \<sigma>4 = ledger_reach.step [OF \<sigma>3 ledger_step.looks [OF this]]
  have "known ex_digest (run_log (lsy_store \<sigma>2) ex_scope (trim_space ''r1'')) ex_scope ''r1'' ''c1'' (\<lambda>st. cst_ToolName st = ''deploy'')"
    using known_cached [OF at st(1), of "\<lambda>st. cst_ToolName st = ''deploy''"] st(2) tok by (simp add: open_call_def)
  from known_advances [OF this eff(1)] show thesis
    by (intro that [OF \<sigma>4, of oc oc']) (simp_all add: put_ledger_def look_told_def finish_told_def b(2) tok)
qed

text \<open>The same call, as \<open>BeginToolCall\<close> makes it.\<close>

lemma ex_begin:
  "\<exists>d l s. BeginToolCall ex_digest 9 [\<lambda>s. s] ''c1'' ''deploy'' RiskWrite [] (lsy_ledgers ex_start 0) (lsy_store ex_start) = Some (Inr d, l, s) \<and>
    ShouldDispatch d"
proof -
  have "int (length (run_log (lsy_store ex_start) ex_scope (trim_space ''r1''))) < max_i64" using ex_logs(1) by (simp add: max_i64_def)
  moreover have "\<not> known ex_digest (run_log (lsy_store ex_start) ex_scope (trim_space ''r1'')) ex_scope ''r1'' (trim_space ''c1'') (\<lambda>_. True)"
    using ex_unknown by simp
  moreover have "list_all (\<lambda>it. itm_ID it \<noteq> trim_space (toolCallItemID (trim_space ''r1'') (trim_space ''c1'') 1))
      (conversation (lsy_store ex_start) ex_scope)" using ex_logs(2) by simp
  ultimately show ?thesis
    using new_call_round [OF ex_start_reachable [of ex_digest] _ ex_call(1) _ _ ex_call(2), of "''c1''" 9 "[]" RiskWrite 0]
    by (auto simp del: cas_loop.simps)
qed

section \<open>What the ledger guarantees\<close>

text \<open>Property C1. A tool call that is not a read is dispatched at most once, over all processes, restarts and retries.\<close>

theorem dispatched_at_most_once:
  assumes "ledger_reach sum256 sc rid \<sigma>"
  shows "once (dispatches cid (lsy_told \<sigma>))"
  using reach_ok [OF assms] by (simp add: sys_ok_def)

theorem dispatched_at_most_once_witness:
  "\<exists>\<sigma>. ledger_reach ex_digest ex_scope ''r1'' \<sigma> \<and> dispatches ''c1'' (lsy_told \<sigma>) = [False] \<and> once (dispatches ''c1'' (lsy_told \<sigma>))"
proof -
  obtain \<sigma> oc oc' where "ledger_reach ex_digest ex_scope ''r1'' \<sigma>" "lsy_told \<sigma> = [Dispatched ''c1'' False, Told ''c1'' oc, Told ''c1'' oc']"
    by (rule ex_run)
  then show ?thesis using dispatched_at_most_once [of ex_digest ex_scope "''r1''" \<sigma> "''c1''"] by (intro exI [of _ \<sigma>]) simp
qed

text \<open>Property C2. The log is never corrupt: a refresh of any ledger succeeds, and leaves what a new process would read.\<close>

theorem ledger_equals_replay:
  assumes "ledger_reach sum256 sc rid \<sigma>"
  shows "fst (refreshLocked sum256 (lsy_store \<sigma>) (lsy_ledgers \<sigma> i)) = None \<and>
    refreshLocked sum256 (lsy_store \<sigma>) (lsy_ledgers \<sigma> i) = refreshLocked sum256 (lsy_store \<sigma>) (newRunEventLedger sc rid)"
proof -
  have ok: "sys_ok sum256 sc rid \<sigma>" by (rule reach_ok [OF assms])
  obtain e m where m: "refreshLocked sum256 (lsy_store \<sigma>) (lsy_ledgers \<sigma> i) = (e, m)" by fastforce
  have "refreshLocked sum256 (lsy_store \<sigma>) (newRunEventLedger sc rid) =
      apply_events sum256 (run_log (lsy_store \<sigma>) sc (trim_space rid)) (fresh_ledger sc rid)"
    using ok by (intro refresh_replays) (simp_all add: sys_ok_def ledger_of_def)
  then show ?thesis using m refresh_sound [OF ok m] by simp
qed

theorem ledger_equals_replay_witness:
  "\<exists>\<sigma>. ledger_reach ex_digest ex_scope ''r1'' \<sigma> \<and> lsy_told \<sigma> \<noteq> [] \<and>
    fst (refreshLocked ex_digest (lsy_store \<sigma>) (lsy_ledgers \<sigma> 0)) = None"
proof -
  obtain \<sigma> oc oc' where "ledger_reach ex_digest ex_scope ''r1'' \<sigma>" "lsy_told \<sigma> = [Dispatched ''c1'' False, Told ''c1'' oc, Told ''c1'' oc']"
    by (rule ex_run)
  then show ?thesis using ledger_equals_replay [of ex_digest ex_scope "''r1''" \<sigma> 0] by (intro exI [of _ \<sigma>]) auto
qed

text \<open>Property C13. Every outcome told for a call is the same, up to the coercion to UTF-8 of the texts that are stored.\<close>

theorem told_outcomes_agree:
  assumes "ledger_reach sum256 sc rid \<sigma>" "Told cid oc \<in> set (lsy_told \<sigma>)" "Told cid oc' \<in> set (lsy_told \<sigma>)"
  shows "durable oc = durable oc'"
proof -
  have "known sum256 (run_log (lsy_store \<sigma>) sc (trim_space rid)) sc rid cid (settled_like oc)"
    "known sum256 (run_log (lsy_store \<sigma>) sc (trim_space rid)) sc rid cid (settled_like oc')"
    using reach_ok [OF assms(1)] assms(2,3) by (fastforce simp: sys_ok_def fact_known_def)+
  from known_both [OF this] show ?thesis by (auto simp: settled_like_def extends_def)
qed

theorem told_outcomes_agree_witness:
  "\<exists>\<sigma> oc oc'. ledger_reach ex_digest ex_scope ''r1'' \<sigma> \<and>
    lsy_told \<sigma> = [Dispatched ''c1'' False, Told ''c1'' oc, Told ''c1'' oc'] \<and> durable oc = durable oc'"
proof -
  obtain \<sigma> oc oc' where run: "ledger_reach ex_digest ex_scope ''r1'' \<sigma>"
    "lsy_told \<sigma> = [Dispatched ''c1'' False, Told ''c1'' oc, Told ''c1'' oc']" by (rule ex_run)
  then have "durable oc = durable oc'" by (intro told_outcomes_agree [OF run(1), of "''c1''"]) simp_all
  then show ?thesis using run by blast
qed

text \<open>Property C26. The state of every call that a ledger holds is well formed.\<close>

theorem ledger_states_well_formed:
  assumes "ledger_reach sum256 sc rid \<sigma>"
  shows "ledger_ok (lsy_ledgers \<sigma> i)"
proof -
  have "ledger_of sum256 (run_log (lsy_store \<sigma>) sc (trim_space rid)) sc rid (lsy_ledgers \<sigma> i)"
    using reach_ok [OF assms] by (simp add: sys_ok_def)
  moreover have "ledger_ok (newRunEventLedger sc rid)" by (simp add: ledger_ok_def newRunEventLedger_def)
  ultimately show ?thesis using cached_ok by (auto simp: ledger_of_def)
qed

theorem ledger_states_well_formed_witness:
  "\<exists>\<sigma>. ledger_reach ex_digest ex_scope ''r1'' \<sigma> \<and> lsy_told \<sigma> \<noteq> [] \<and> ledger_ok (lsy_ledgers \<sigma> 1)"
proof -
  obtain \<sigma> oc oc' where "ledger_reach ex_digest ex_scope ''r1'' \<sigma>" "lsy_told \<sigma> = [Dispatched ''c1'' False, Told ''c1'' oc, Told ''c1'' oc']"
    by (rule ex_run)
  then show ?thesis using ledger_states_well_formed [of ex_digest ex_scope "''r1''" \<sigma> 1] by (intro exI [of _ \<sigma>]) simp
qed

text \<open>Property C14. \<open>BeginToolCall\<close>, its lost rounds and what others did meanwhile included, is a run of the system, which is told
  what its caller is told.\<close>

theorem begin_call_is_a_run:
  assumes "ledger_reach sum256 sc rid \<sigma>" "registered_name name" "decoded_args (JObject args)"
    "list_all (admissible sum256 sc rid i) rounds"
    and op: "BeginToolCall sum256 now rounds cid name risk args (lsy_ledgers \<sigma> i) (lsy_store \<sigma>) = Some (r, l, s)"
  shows "\<exists>\<sigma>'. ledger_reach sum256 sc rid \<sigma>' \<and> lsy_store \<sigma>' = s \<and> lsy_ledgers \<sigma>' i = l \<and>
    set (lsy_told \<sigma>) \<subseteq> set (lsy_told \<sigma>') \<and>
    (\<forall>d. r = Inr d \<longrightarrow> (case dcn_Replay d of
        None \<Rightarrow> Dispatched (trim_space cid) (risk = RiskRead) | Some oc \<Rightarrow> Told (trim_space cid) oc) \<in> set (lsy_told \<sigma>'))"
proof (cases "call_token_for sum256 cid name risk (AnyValue (JObject args)) (lsy_ledgers \<sigma> i)")
  case (Inl e)
  then show ?thesis using op assms(1) by (auto simp: BeginToolCall_def)
next
  case (Inr vt)
  obtain v t where vt: "call_token_for sum256 cid name risk (AnyValue (JObject args)) (lsy_ledgers \<sigma> i) = Inr (v, t)"
    using Inr by (cases vt) simp
  note named = begin_names_call [OF vt assms(2,3)]
  have "cas_loop sum256 rounds (begin_attempt sum256 now v t) (lsy_ledgers \<sigma> i) (lsy_store \<sigma>) = Some (r, l, s)"
    using op vt by (simp add: BeginToolCall_def)
  from cas_loop_run [OF assms(1,4) attempts_step(2) [OF assms(1) named(1)] this]
  obtain \<sigma>' where \<sigma>': "ledger_reach sum256 sc rid \<sigma>'" "lsy_store \<sigma>' = s" "lsy_ledgers \<sigma>' i = l"
    "set (lsy_told \<sigma>) \<subseteq> set (lsy_told \<sigma>')" "set (begin_told t (Return r)) \<subseteq> set (lsy_told \<sigma>')" by blast
  have "(case dcn_Replay d of None \<Rightarrow> Dispatched (trim_space cid) (risk = RiskRead) | Some oc \<Rightarrow> Told (trim_space cid) oc)
      \<in> set (lsy_told \<sigma>')" if "r = Inr d" for d
    using that \<sigma>'(5) named(3,4) by (simp add: begin_told_def split: option.splits)
  then show ?thesis using \<sigma>' by blast
qed

theorem begin_call_is_a_run_witness:
  "\<exists>\<sigma>. ledger_reach ex_digest ex_scope ''r1'' \<sigma> \<and> Dispatched ''c1'' False \<in> set (lsy_told \<sigma>)"
proof -
  obtain d l s where op: "BeginToolCall ex_digest 9 [\<lambda>s. s] ''c1'' ''deploy'' RiskWrite [] (lsy_ledgers ex_start 0) (lsy_store ex_start) =
      Some (Inr d, l, s)" "dcn_Replay d = None"
    using ex_begin by (auto simp: ShouldDispatch_def)
  have "list_all (admissible ex_digest ex_scope ''r1'' 0) [\<lambda>s. s]" by simp
  from begin_call_is_a_run [OF ex_start_reachable ex_call this op(1)] op(2) show ?thesis by auto
qed

text \<open>Property C28. An operation returns in the first round in which no other process appends, whatever the state in which its lost rounds left
  it, while the log has room.\<close>

theorem ledger_calls_return:
  assumes "ledger_reach sum256 sc rid \<sigma>" "int (length (run_log (lsy_store \<sigma>) sc (trim_space rid))) < max_i64"
  shows "(\<exists>res. BeginToolCall sum256 now ((\<lambda>s. s) # rounds) cid name risk args (lsy_ledgers \<sigma> i) (lsy_store \<sigma>) = Some res) \<and>
    (\<exists>res. RecordToolRequest sum256 now ((\<lambda>s. s) # rounds) cid name risk a (lsy_ledgers \<sigma> i) (lsy_store \<sigma>) = Some res) \<and>
    (\<exists>res. finishToolCall sum256 now ((\<lambda>s. s) # rounds) t result err plan (lsy_ledgers \<sigma> i) (lsy_store \<sigma>) = Some res)"
proof -
  note quiet = quiet_round_returns [OF assms(1) _ assms(2), of _ rounds i]
  note loops = quiet [OF begin_no_retry] quiet [OF record_no_retry] quiet [OF finish_no_retry]
  show ?thesis using loops
    by (auto simp: BeginToolCall_def RecordToolRequest_def finishToolCall_def simp del: cas_loop.simps split: sum.splits)
qed

theorem ledger_calls_return_witness:
  "\<exists>res. BeginToolCall ex_digest 9 [\<lambda>s. s] ''c1'' ''deploy'' RiskWrite [] (newRunEventLedger ex_scope ''r1'') ex_store = Some res"
  using ledger_calls_return [OF ex_start_reachable [of ex_digest], of 9 "[]" "''c1''" "''deploy''" RiskWrite "[]" 0] ex_logs(1)
  by (simp add: max_i64_def del: cas_loop.simps)

text \<open>A call that the log does not know is dispatched in a round without interference.\<close>

theorem new_call_is_dispatched:
  assumes reach: "ledger_reach sum256 sc rid \<sigma>"
    and room: "int (length (run_log (lsy_store \<sigma>) sc (trim_space rid))) < max_i64"
    and call: "registered_name name" "name \<noteq> []" "trim_space cid \<noteq> []" "decoded_args (JObject args)"
    and unknown: "\<not> known sum256 (run_log (lsy_store \<sigma>) sc (trim_space rid)) sc rid (trim_space cid) (\<lambda>_. True)"
    and item: "list_all (\<lambda>it. itm_ID it \<noteq> trim_space (toolCallItemID (trim_space rid) (trim_space cid) 1)) (conversation (lsy_store \<sigma>) sc)"
  shows "\<exists>d l s. BeginToolCall sum256 now ((\<lambda>s. s) # rounds) cid name risk args (lsy_ledgers \<sigma> i) (lsy_store \<sigma>) = Some (Inr d, l, s) \<and>
    ShouldDispatch d \<and> tok_CallID (dcn_Token d) = trim_space cid \<and> tok_ToolName (dcn_Token d) = name"
  by (rule new_call_round [OF assms])

theorem new_call_is_dispatched_witness:
  "\<exists>d l s. BeginToolCall ex_digest 9 [\<lambda>s. s] ''c1'' ''deploy'' RiskWrite [] (newRunEventLedger ex_scope ''r1'') ex_store = Some (Inr d, l, s) \<and>
    ShouldDispatch d \<and> tok_CallID (dcn_Token d) = ''c1''"
proof -
  have "int (length (run_log (lsy_store ex_start) ex_scope (trim_space ''r1''))) < max_i64" using ex_logs(1) by (simp add: max_i64_def)
  moreover have "\<not> known ex_digest (run_log (lsy_store ex_start) ex_scope (trim_space ''r1'')) ex_scope ''r1'' (trim_space ''c1'') (\<lambda>_. True)"
    using ex_unknown by simp
  moreover have "list_all (\<lambda>it. itm_ID it \<noteq> trim_space (toolCallItemID (trim_space ''r1'') (trim_space ''c1'') 1))
      (conversation (lsy_store ex_start) ex_scope)" using ex_logs(2) by simp
  ultimately show ?thesis
    using new_call_is_dispatched [OF ex_start_reachable [of ex_digest] _ ex_call(1) _ _ ex_call(2), of "''c1''" 9 "[]" RiskWrite 0]
    by (auto simp del: cas_loop.simps)
qed

text \<open>Property C21. The recovery of a dangling call of the conversation never offers to repeat a call that was dispatched and is not a read: the
  text it returns is the outcome that the log holds.\<close>

theorem recovery_never_repeats_an_effect:
  assumes reach: "ledger_reach sum256 sc rid \<sigma>" and disp: "Dispatched (trim_space cid) False \<in> set (lsy_told \<sigma>)"
    and op: "RecoverDanglingToolCall sum256 cid name (lsy_ledgers \<sigma> i) (lsy_store \<sigma>) = (Inr message, l)"
  shows "\<exists>st oc. map_of (rl_calls l) (trim_space cid) = Some st \<and> cst_Outcome st = Some oc \<and>
    message = (if oc_Result oc \<noteq> [] \<or> \<not> oc_Failed oc then oc_Result oc else ''Tool call failed: '' @ oc_Error oc)"
proof -
  obtain e m where m: "refreshLocked sum256 (lsy_store \<sigma>) (lsy_ledgers \<sigma> i) = (e, m)" by fastforce
  note sound = refresh_sound [OF reach_ok [OF reach] m]
  have "known sum256 (run_log (lsy_store \<sigma>) sc (trim_space rid)) sc rid (trim_space cid) (dispatched_read False)"
    using reach_ok [OF reach] disp by (fastforce simp: sys_ok_def fact_known_def)
  from known_at [OF this sound(2)] obtain st where st: "map_of (rl_calls m) (trim_space cid) = Some st"
    "cst_Dispatched st" "\<not> cst_Read st" by (auto simp: dispatched_read_def extends_def)
  then show ?thesis using op m sound(1)
    by (auto simp: RecoverDanglingToolCall_def Let_def simp del: trim_space_Nil split: if_splits option.splits)
qed

theorem recovery_never_repeats_an_effect_witness:
  "\<exists>\<sigma> message l st oc. ledger_reach ex_digest ex_scope ''r1'' \<sigma> \<and> Dispatched ''c1'' False \<in> set (lsy_told \<sigma>) \<and>
    RecoverDanglingToolCall ex_digest ''c1'' ''deploy'' (lsy_ledgers \<sigma> 1) (lsy_store \<sigma>) = (Inr message, l) \<and>
    map_of (rl_calls l) ''c1'' = Some st \<and> cst_Outcome st = Some oc"
proof -
  obtain \<sigma> oc oc' where run: "ledger_reach ex_digest ex_scope ''r1'' \<sigma>"
    "lsy_told \<sigma> = [Dispatched ''c1'' False, Told ''c1'' oc, Told ''c1'' oc']"
    "known ex_digest (run_log (lsy_store \<sigma>) ex_scope ''r1'') ex_scope ''r1'' ''c1'' (\<lambda>st. cst_ToolName st = ''deploy'')" by (rule ex_run)
  have disp: "Dispatched (trim_space ''c1'') False \<in> set (lsy_told \<sigma>)" using run(2) by simp
  obtain e m where m: "refreshLocked ex_digest (lsy_store \<sigma>) (lsy_ledgers \<sigma> 1) = (e, m)" by fastforce
  note sound = refresh_sound [OF reach_ok [OF run(1)] m]
  have full: "apply_events ex_digest (run_log (lsy_store \<sigma>) ex_scope ''r1'') (fresh_ledger ex_scope ''r1'') = (None, m)"
    using sound(2) by simp
  have "known ex_digest (run_log (lsy_store \<sigma>) ex_scope ''r1'') ex_scope ''r1'' ''c1'' (settled_like oc)"
    using reach_ok [OF run(1)] run(2) by (simp add: sys_ok_def fact_known_def)
  from known_at [OF this full] obtain st oc where st: "map_of (rl_calls m) ''c1'' = Some st" "cst_Outcome st = Some oc"
    by (auto simp: settled_like_def extends_def)
  have "cst_ToolName st = ''deploy''" using known_at [OF run(3) full] st(1) by (auto simp: extends_def)
  note st = st(1) this st(2)
  have "toolKey ''deploy'' = ''deploy''" using ex_call(1) by (simp add: registered_name_def)
  then obtain message where op: "RecoverDanglingToolCall ex_digest ''c1'' ''deploy'' (lsy_ledgers \<sigma> 1) (lsy_store \<sigma>) = (Inr message, m)"
    using m sound(1) st by (cases "oc_Result oc \<noteq> [] \<or> \<not> oc_Failed oc") (auto simp: RecoverDanglingToolCall_def)
  from recovery_never_repeats_an_effect [OF run(1) disp op] show ?thesis using run(1) disp op by auto
qed

end
