(* ===== verification/Spec2Isabelle.thy ===== *)
theory Spec2Isabelle
  imports Faros_Prelude AppStore_Invariants Agents_Tenancy Agents_Budget Agents_Recovery Agents_Channels Agents_Engine_Pause
    Agents_Approval Agents_Schedule_Props Agents_Triggers Hub_Shared_Props Hub_Authorizer Assistant_Ledger_Props
begin

text \<open>
  \<^bold>\<open>A verification library for Faros.\<close>

  Faros is a multi-tenant platform: a hub (\<open>pkg/\<close>) authenticates users, serves the portal and proxies
  requests to the tenants' workspaces, and provider processes (\<open>providers/\<close>) add services to it. The
  library models the parts of the hub and of two providers that hold state and decide: the stores of
  App Studio (\<open>providers/app-studio\<close>) and of the agents provider (\<open>providers/agents\<close>), the event ledger
  by which App Studio's assistant dispatches tools once, the agents' execution loop with its pauses,
  recovery, budgets and approvals, the hub's browser sessions and the membership gate of its proxy.

  \<^bold>\<open>How the code is modelled.\<close> A Go function with an error result returns a sum, \<open>Inl\<close> for the error;
  a method that changes its receiver returns that sum and the new state, which may have changed
  although there is an error. Structs are records, enumerations datatypes or lists of their values. A Go map
  is an association list in the order a \<open>range\<close> loop visits it, which Go leaves open, so a theorem
  holds for every order. Writing through a missing inner map is an error value of its own. Strings
  are byte lists, \<open>int64\<close> is \<open>int\<close> with the wrap-around written out (\<open>i64\<close>), instants are nanoseconds.
  The clock, random draws, new identifiers, and whatever is not under \<open>src/\<close> (the chat model, the tools,
  the cluster resolver, digests, floating-point comparisons) are arguments. Every store method holds
  the store's mutex for its whole body, so an interleaving of requests is a sequence of operations.

  \<^bold>\<open>Shared theories.\<close> \<open>Faros_Prelude\<close>: results, time, Go maps, white space. \<open>Go_Json\<close>, \<open>Go_Encode\<close>: the
  scanner of \<open>encoding/json\<close> and the encoding of strings and times. \<open>Go_Text\<close>: runes, bounded texts.
  \<open>Go_Paging\<close>: the locales \<open>loose_pager\<close> and \<open>pager\<close>, the contract of a paged listing, with the fact
  that following the cursors yields every item once and in order. \<open>Go_Json_Write\<close>: writing a JSON value and
  the fact that reading it back gives the value with its strings coerced to UTF-8. \<open>Go_Json_Struct\<close>: decoding
  an object into the fields of a struct, with the folding of key cases and repeated keys. \<open>Go_Time\<close>: reading
  RFC 3339 times, with the calendar, the inverse of writing them.

  \<^bold>\<open>App Studio store\<close> (\<open>store/memory.go\<close>, \<open>thread_memory.go\<close>, \<open>claims.go\<close>, \<open>project_thumbnail.go\<close>).
  \<open>AppStore_Types\<close> has the records of \<open>store.go\<close> and \<open>thread.go\<close> and the state, \<open>MemoryStore\<close>; \<open>AppStore_Runs\<close>,
  \<open>AppStore_Logs\<close>, \<open>AppStore_Messages\<close>, \<open>AppStore_Threads\<close>, \<open>AppStore_Project\<close> and \<open>AppStore_Retention\<close> its
  operations, one definition per method under the method's name, with their functional behaviour,
  error paths and fencing; \<open>AppStore_Thread_Props\<close> what holds of threads and turns; \<open>AppStore_Machine\<close>
  the interface as one step function (\<open>store_op\<close>) and its reachable states; \<open>AppStore_Invariants\<close> the
  invariants of those states: one active run per owner, an immutable contract of a run, numbered
  streams, numbers never given twice, projects that do not touch each other.

  \<^bold>\<open>App Studio assistant\<close> (\<open>providers/app-studio/api\<close>). \<open>Assistant_Pairing\<close> (\<open>assistant_conversation.go\<close>): the
  repair of a loaded history in which calls and results do not match; they match by their trimmed IDs, and exactly
  where no ID has white space around it. \<open>Assistant_Tools\<close>: the tables of tools
  and their risks, and how the text of a result is judged. \<open>Assistant_Ledger\<close> and \<open>Assistant_Ledger_Ops\<close>
  (\<open>assistant_run_event_ledger.go\<close>): the cache of a run's event log, the application of one event, and the
  operations. An operation is a loop of rounds, a refresh and an attempt; the list of rounds it is given
  is its fuel and says what other processes do to the store in each, and one round without interference
  is enough (\<open>ledger_calls_return\<close>). \<open>Assistant_Ledger_Codec\<close>: the payloads round-trip.
  \<open>Assistant_Ledger_Replay\<close>: a ledger is a replay of a prefix of the log, and events only add knowledge.
  \<open>Assistant_Ledger_Runs\<close>: what one attempt does to a log that replays. \<open>Assistant_Ledger_System\<close>: the
  processes that share the log as a step relation, its invariant, and the operations as runs of it.
  \<open>Assistant_Ledger_Progress\<close>: calls that meet no obstacle succeed. \<open>Assistant_Ledger_Props\<close>: the
  guarantees. Between its steps everybody else may do what keeps the log of the run and does not delete the run
  (\<open>leaves_log\<close>). The arguments of a call are an object; a nil map is left out. An attempt is one step although it appends a conversation item before its event: the
  item is not in the log, so a step of another process between the two is the same as before the first.

  \<^bold>\<open>Agents store\<close> (\<open>providers/agents/store\<close>). \<open>Agents_Types\<close> and \<open>Agents_Store\<close>: the state of the
  in-memory store, whose maps are keyed by joined strings, and its operations; the operations whose
  name App Studio's store has too carry the prefix \<open>agents_\<close>. \<open>Agents_Tenancy\<close>: the interface as a step
  function and the isolation of tenants, which rests on identifiers without the separator.
  \<open>Agents_Runs\<close>: paged run queries, claims, deletion. \<open>Agents_Budget\<close> (\<open>api/run.go\<close>): usage rows as an
  implementation of a ledger of charges, and what budgets of either window enforce.
  \<open>Agents_Recovery\<close> (\<open>api/recover.go\<close>, \<open>resume.go\<close>, \<open>background.go\<close>): the sweep for stranded runs and
  the gate of a resume, whose read and claim of the run are one step.

  \<^bold>\<open>Agents engine\<close> (\<open>engine/\<close>). \<open>Agents_Context\<close>: wire messages, checkpoint messages and the context
  budget; what a wire message holds besides the fields of a checkpoint (\<open>wm_Hidden\<close>) a pause drops. \<open>Agents_Engine\<close>: the loop of a turn, with the model and the tools as state transformers and
  the callbacks as a list of events; its first argument counts the iterations that are left, which is
  the loop's own bound, so no fuel is added. \<open>Agents_Engine_Props\<close>: the wire protocol, as an automaton
  over the conversation, kept by every request of every chain of pauses and resumes.
  \<open>Agents_Engine_Pause\<close>: the bound on model calls, the fate of a verdict nobody waits for.
  \<open>Agents_Approval\<close> (\<open>api/toolset.go\<close>): the wrapper every tool goes through, call by call.
  \<open>Agents_Channels\<close>: splitting a message for a channel.

  \<^bold>\<open>Agents schedules\<close> (\<open>api/background.go\<close>). \<open>Agents_Schedules\<close>: objects, when a schedule is due, and the
  operations of the scheduler as trees of their calls to the API server and the executor, each with a
  continuation for every answer. \<open>Agents_Schedule_System\<close>: many goroutines of many replicas whose calls
  interleave, over every server that keeps Kubernetes' optimistic concurrency (\<open>kube_contract\<close>), and the
  invariant of its history. Of the cron library only what it documents is assumed (\<open>cron_contract\<close>): the next instant
  is a later whole second, or the zero time if there is none. \<open>Agents_Schedule_Props\<close>: at most one fire per planned
  instant, one wakeup, no fire of a state that is no longer current, the clock of an undisturbed replica, what
  becomes of them without a next instant, and the failure counter.
  \<open>Agents_Triggers\<close> (\<open>api/triggers.go\<close>, \<open>schedules.go\<close>, \<open>executor/executor.go\<close>): filters, the webhook, the
  validation and update of triggers and schedules, and the job queue, whose room of 64 is the code's.

  \<^bold>\<open>Hub.\<close> \<open>Hub_Sessions\<close> (\<open>pkg/browsersession\<close>): the session store over a backend and the process-local
  backend. \<open>Hub_Session_Props\<close>: the contract of a backend (\<open>session_contract\<close>), the provenance of a
  resolved session along any history, proved once from the contract, its interpretation by the
  process-local backend, and that backend's bounds; issuing a session, which asks for a fresh handle and
  stores it, is one step. \<open>Hub_App_Auth\<close> and \<open>Hub_App_Auth_Props\<close>
  (\<open>pkg/hub/appauth\<close>): the sign-in of a private application over those sessions. The contract of its code
  store is a locale, \<open>code_contract\<close>; joined with \<open>session_contract\<close> (\<open>app_sign_in\<close>) it gives that a grant goes
  back to one visit that the access review allowed, and that a code is redeemed once. The rounds of the eviction
  loop are as many as there are codes, each of which removes one. \<open>Hub_Shared_Store\<close>, \<open>Hub_Shared_System\<close> and
  \<open>Hub_Shared_Props\<close> (\<open>pkg/hub/sharedstore\<close>): the same sessions and codes kept as Secrets. Operations are trees of
  calls to the API server; those of any number of replicas interleave over every server that keeps the promises
  of resource versions (\<open>secrets_contract\<close>; an update that changes nothing may keep its version), whose log has an invariant (\<open>good_log\<close>). From it, a code is redeemed
  once across all replicas, a confirmed logout holds at once, and what is read is what was put. \<open>Hub_Authorizer\<close> (\<open>pkg/server/proxy/authorizer.go\<close>):
  soundness of the topology caches in every reachable state, and from it that an allowed request is a
  member's and that a member is let in.

  \<^bold>\<open>Not modelled.\<close> The PostgreSQL stores, whose behaviour is the database's; the controllers, REST
  handlers and command line tools, which are input and output over the Kubernetes API; the edge and
  infrastructure agents (tunnels, processes, files); generated code; the portal. Of the modelled
  parts: logging, metrics and published events, the assembly of toolsets, the execution behind a
  resume that passed its gate, the delivery to channels. Of App Studio's API the run supervisor, the
  compaction checkpoints of a conversation, the sandbox protocol and store encryption are next.
\<close>

end
